(* ===== verification/Est_Prelude.thy ===== *)
theory Est_Prelude
  imports Main "HOL-Library.Word" "HOL-Library.Monad_Syntax"
begin

text \<open>
  The shared vocabulary of the libEST development: bytes and C strings, the functions of the
  C library that the sources call, flat byte memory with undefined behaviour as \<^term>\<open>None\<close>,
  and the enumeration of library errors (\<^verbatim>\<open>src/src/est/est.h\<close>, \<^verbatim>\<open>EST_ERROR\<close>).

  Conventions.
  \<^item> A \<^verbatim>\<open>char\<close> of the C code is a \<^typ>\<open>char\<close> (one byte). Its unsigned value is \<open>uchr\<close>; where the
    code compares a plain \<^verbatim>\<open>char\<close> with a number, its value on the supported targets is the
    signed one, \<open>schr\<close>.
  \<^item> A C string argument is the list of its bytes. The terminator is the end of the list, and a NUL
    inside the list ends the string too: \<open>cstr\<close> is the part the C code can see.
  \<^item> A memory region is a byte list, an address an index. A read or a write outside it is \<^term>\<open>None\<close>:
    the C program has no defined behaviour there.
  \<^item> A pointer that may be NULL is an \<open>option\<close>.
\<close>

section \<open>Collections of simplification rules\<close>

named_theorems cstring_simps \<open>rewriting C string functions to list functions\<close>
named_theorems mem_simps \<open>reads and writes of flat byte memory\<close>

section \<open>Bytes and C strings\<close>

abbreviation NUL :: char where
  "NUL \<equiv> CHR 0x00"

abbreviation CR :: char where
  "CR \<equiv> CHR 0x0D"

abbreviation LF :: char where
  "LF \<equiv> CHR 0x0A"

abbreviation TAB :: char where
  "TAB \<equiv> CHR 0x09"

abbreviation DQUOTE :: char where
  "DQUOTE \<equiv> CHR 0x22"

definition uchr :: "char \<Rightarrow> nat" where
  "uchr c = of_char c"

definition schr :: "char \<Rightarrow> int" where
  "schr c = (if uchr c < 128 then int (uchr c) else int (uchr c) - 256)"

definition cstr :: "string \<Rightarrow> string" where
  "cstr s = takeWhile (\<lambda>c. c \<noteq> NUL) s"

text \<open>The byte a string shows at an index: the terminator at the end of the list.\<close>

definition at :: "string \<Rightarrow> nat \<Rightarrow> char" where
  "at s i = (if i < length s then s ! i else NUL)"

definition hd0 :: "string \<Rightarrow> char" where
  "hd0 s = (case s of [] \<Rightarrow> NUL | c # _ \<Rightarrow> c)"

lemma hd0_simps [simp]: "hd0 [] = NUL" "hd0 (c # s) = c"
  by (simp_all add: hd0_def)

lemma at_simps [simp]: "at [] i = NUL" "at (c # s) 0 = c" "at (c # s) (Suc i) = at s i"
  by (simp_all add: at_def)

lemma at_append_left: "i < length a \<Longrightarrow> at (a @ b) i = a ! i"
  by (simp add: at_def nth_append)

lemma at_append_right [simp]: "at (a @ b) (length a + i) = at b i"
  by (auto simp add: at_def nth_append)

lemma at_append_length [simp]: "at (a @ b) (length a) = hd0 b"
  by (cases b) (auto simp: at_def nth_append)

lemma at_drop: "at (drop n s) i = at s (n + i)"
  by (auto simp: at_def)

lemma uchr_bound [simp]: "uchr c < 256"
  by (simp add: uchr_def)

lemma uchr_inj [simp]: "uchr a = uchr b \<longleftrightarrow> a = b"
  by (simp add: uchr_def)

lemma cstr_simps [simp]:
  "cstr [] = []"
  "cstr (c # s) = (if c = NUL then [] else c # cstr s)"
  by (simp_all add: cstr_def)

lemma cstr_no_nul [simp]: "NUL \<notin> set (cstr s)"
  by (auto simp: cstr_def dest: set_takeWhileD)

lemma cstr_id: "NUL \<notin> set s \<Longrightarrow> cstr s = s"
  by (induction s) auto

lemma cstr_cstr [simp]: "cstr (cstr s) = cstr s"
  by (simp add: cstr_id)

lemma cstr_append_nul [simp]: "NUL \<notin> set s \<Longrightarrow> cstr (s @ NUL # t) = s"
  by (induction s) auto

lemma cstr_append: "NUL \<notin> set s \<Longrightarrow> cstr (s @ t) = s @ cstr t"
  by (induction s) auto

lemma length_cstr_le: "length (cstr s) \<le> length s"
  by (simp add: cstr_def length_takeWhile_le)

lemma set_cstr_subset: "set (cstr s) \<subseteq> set s"
  by (auto simp: cstr_def dest: set_takeWhileD)

section \<open>Character classification in the C locale\<close>

definition toupper :: "char \<Rightarrow> char" where
  "toupper c = (if 97 \<le> uchr c \<and> uchr c \<le> 122 then char_of (uchr c - 32) else c)"

definition tolower :: "char \<Rightarrow> char" where
  "tolower c = (if 65 \<le> uchr c \<and> uchr c \<le> 90 then char_of (uchr c + 32) else c)"

definition isspace :: "char \<Rightarrow> bool" where
  "isspace c \<longleftrightarrow> c = CHR '' '' \<or> (9 \<le> uchr c \<and> uchr c \<le> 13)"

definition isdigit :: "char \<Rightarrow> bool" where
  "isdigit c \<longleftrightarrow> 48 \<le> uchr c \<and> uchr c \<le> 57"

definition isalpha :: "char \<Rightarrow> bool" where
  "isalpha c \<longleftrightarrow> (65 \<le> uchr c \<and> uchr c \<le> 90) \<or> (97 \<le> uchr c \<and> uchr c \<le> 122)"

definition isalnum :: "char \<Rightarrow> bool" where
  "isalnum c \<longleftrightarrow> isalpha c \<or> isdigit c"

definition isxdigit :: "char \<Rightarrow> bool" where
  "isxdigit c \<longleftrightarrow> isdigit c \<or> (65 \<le> uchr c \<and> uchr c \<le> 70) \<or> (97 \<le> uchr c \<and> uchr c \<le> 102)"

lemma toupper_NUL_iff [simp]: "toupper c = NUL \<longleftrightarrow> c = NUL"
proof -
  have "uchr (toupper c) = 0 \<longleftrightarrow> uchr c = 0"
    by (auto simp: toupper_def uchr_def)
  moreover have "uchr NUL = 0" by (simp add: uchr_def)
  ultimately show ?thesis using uchr_inj by metis
qed

lemma NUL_toupper_iff [simp]: "NUL = toupper c \<longleftrightarrow> c = NUL"
  by (metis toupper_NUL_iff)

lemma toupper_NUL [simp]: "toupper NUL = NUL"
  by simp

lemma schr_digit_iff: "48 \<le> schr c \<and> schr c \<le> 57 \<longleftrightarrow> isdigit c"
  using uchr_bound [of c] by (auto simp: schr_def isdigit_def simp del: uchr_bound)

lemma toupper_toupper [simp]: "toupper (toupper c) = toupper c"
  by (auto simp: toupper_def uchr_def)

lemma isspace_not_NUL [simp]: "\<not> isspace NUL"
  by (simp add: isspace_def uchr_def)

section \<open>String functions of the C library\<close>

text \<open>
  Only the sign of a comparison is fixed by the C standard; the sources test it against zero.
  The model returns the difference of the first differing bytes.
\<close>

fun strncmp :: "string \<Rightarrow> string \<Rightarrow> nat \<Rightarrow> int" where
  "strncmp a b 0 = 0"
| "strncmp a b (Suc n) =
     (if hd0 a \<noteq> hd0 b then int (uchr (hd0 a)) - int (uchr (hd0 b))
      else if hd0 a = NUL then 0 else strncmp (tl a) (tl b) n)"

definition strcmp :: "string \<Rightarrow> string \<Rightarrow> int" where
  "strcmp a b = strncmp a b (Suc (length a + length b))"

definition strnlen :: "string \<Rightarrow> nat \<Rightarrow> nat" where
  "strnlen s n = min (length (cstr s)) n"

definition strchr :: "string \<Rightarrow> char \<Rightarrow> nat option" where
  "strchr s c = (let i = length (takeWhile (\<lambda>x. x \<noteq> c) (cstr s)) in
     if i < length (cstr s) then Some i else None)"

fun is_prefix :: "string \<Rightarrow> string \<Rightarrow> bool" where
  "is_prefix [] s = True"
| "is_prefix (p # ps) [] = False"
| "is_prefix (p # ps) (c # s) = (p = c \<and> is_prefix ps s)"

fun find_sub :: "string \<Rightarrow> string \<Rightarrow> nat option" where
  "find_sub p [] = (if p = [] then Some 0 else None)"
| "find_sub p (c # s) = (if is_prefix p (c # s) then Some 0 else map_option Suc (find_sub p s))"

definition strstr :: "string \<Rightarrow> string \<Rightarrow> nat option" where
  "strstr s p = find_sub (cstr p) (cstr s)"

lemma strncmp_eq_0: "strncmp a b n = 0 \<longleftrightarrow> take n (cstr a) = take n (cstr b)"
proof (induction a b n rule: strncmp.induct)
  case (1 a b)
  then show ?case by simp
next
  case (2 a b n)
  have "int (uchr (hd0 a)) - int (uchr (hd0 b)) = 0 \<longleftrightarrow> hd0 a = hd0 b"
    by (metis eq_iff_diff_eq_0 of_nat_eq_iff uchr_inj)
  with 2 show ?case by (cases a; cases b) auto
qed

lemmas [cstring_simps] = strncmp_eq_0

lemma strcmp_eq_0 [cstring_simps]: "strcmp a b = 0 \<longleftrightarrow> cstr a = cstr b"
proof -
  have "take (Suc (length a + length b)) (cstr a) = cstr a"
    and "take (Suc (length a + length b)) (cstr b) = cstr b"
    using length_cstr_le [of a] length_cstr_le [of b] by simp_all
  then show ?thesis by (simp add: strcmp_def strncmp_eq_0 del: strncmp.simps)
qed

lemma is_prefix_iff: "is_prefix p s \<longleftrightarrow> (\<exists>t. s = p @ t)"
  by (induction p s rule: is_prefix.induct) auto

lemma find_sub_Some: "find_sub p s = Some i \<Longrightarrow> i \<le> length s \<and> is_prefix p (drop i s)"
  by (induction p s arbitrary: i rule: find_sub.induct) (auto split: if_splits)

lemma find_sub_None: "find_sub p s = None \<Longrightarrow> i \<le> length s \<Longrightarrow> \<not> is_prefix p (drop i s)"
proof (induction p s arbitrary: i rule: find_sub.induct)
  case (1 p)
  then show ?case by (cases p) (auto split: if_splits)
next
  case (2 p c s)
  then show ?case by (cases i) (auto split: if_splits)
qed

lemma strchr_Some:
  assumes "strchr s c = Some i"
  shows "i < length (cstr s) \<and> cstr s ! i = c \<and> (\<forall>j < i. cstr s ! j \<noteq> c)"
proof -
  have gen: "length (takeWhile (\<lambda>x. x \<noteq> c) t) < length t \<Longrightarrow>
      t ! length (takeWhile (\<lambda>x. x \<noteq> c) t) = c
      \<and> (\<forall>j < length (takeWhile (\<lambda>x. x \<noteq> c) t). t ! j \<noteq> c)" for t :: string
    by (induction t) (auto simp: less_Suc_eq_0_disj)
  from assms show ?thesis
    using gen [of "cstr s"] by (auto simp: strchr_def Let_def split: if_splits)
qed

lemma strchr_None: "strchr s c = None \<longleftrightarrow> c \<notin> set (cstr s)"
proof -
  have "length (takeWhile (\<lambda>x. x \<noteq> c) t) < length t \<longleftrightarrow> c \<in> set t" for t :: string
    by (induction t) auto
  then show ?thesis by (simp add: strchr_def Let_def)
qed

section \<open>Flat byte memory\<close>

type_synonym mem = "char list"

definition rd :: "mem \<Rightarrow> nat \<Rightarrow> char option" where
  "rd m a = (if a < length m then Some (m ! a) else None)"

definition wr :: "mem \<Rightarrow> nat \<Rightarrow> char \<Rightarrow> mem option" where
  "wr m a c = (if a < length m then Some (m[a := c]) else None)"

definition rd_block :: "mem \<Rightarrow> nat \<Rightarrow> nat \<Rightarrow> char list option" where
  "rd_block m a n = (if a + n \<le> length m then Some (take n (drop a m)) else None)"

definition wr_block :: "mem \<Rightarrow> nat \<Rightarrow> char list \<Rightarrow> mem option" where
  "wr_block m a bs = (if a + length bs \<le> length m
     then Some (take a m @ bs @ drop (a + length bs) m) else None)"

lemma rd_Some [mem_simps]: "a < length m \<Longrightarrow> rd m a = Some (m ! a)"
  by (simp add: rd_def)

lemma wr_Some [mem_simps]: "a < length m \<Longrightarrow> wr m a c = Some (m[a := c])"
  by (simp add: wr_def)

lemma wr_SomeD: "wr m a c = Some m' \<Longrightarrow> a < length m \<and> m' = m[a := c]"
  by (auto simp: wr_def split: if_splits)

lemma rd_SomeD: "rd m a = Some c \<Longrightarrow> a < length m \<and> c = m ! a"
  by (auto simp: rd_def split: if_splits)

lemma wr_block_SomeD:
  "wr_block m a bs = Some m' \<Longrightarrow>
     a + length bs \<le> length m \<and> m' = take a m @ bs @ drop (a + length bs) m"
  by (auto simp: wr_block_def split: if_splits)

text \<open>Two memories agree outside an address range: the frame of an operation.\<close>

definition same_outside :: "nat \<Rightarrow> nat \<Rightarrow> mem \<Rightarrow> mem \<Rightarrow> bool" where
  "same_outside lo hi m m' \<longleftrightarrow>
     length m' = length m \<and> (\<forall>a < length m. a < lo \<or> hi \<le> a \<longrightarrow> m' ! a = m ! a)"

lemma same_outside_refl [simp]: "same_outside lo hi m m"
  by (simp add: same_outside_def)

lemma same_outside_trans:
  "same_outside lo hi m m' \<Longrightarrow> same_outside lo hi m' m'' \<Longrightarrow> same_outside lo hi m m''"
  by (auto simp: same_outside_def)

lemma same_outside_update: "lo \<le> a \<Longrightarrow> a < hi \<Longrightarrow> same_outside lo hi m (m[a := c])"
  by (auto simp: same_outside_def nth_list_update)

lemma same_outside_mono:
  "same_outside lo hi m m' \<Longrightarrow> lo' \<le> lo \<Longrightarrow> hi \<le> hi' \<Longrightarrow> same_outside lo' hi' m m'"
  by (auto simp: same_outside_def)

lemma same_outside_wr_block:
  assumes "wr_block m a bs = Some m'"
  shows "same_outside a (a + length bs) m m'"
proof -
  from assms have "a + length bs \<le> length m" and m': "m' = take a m @ bs @ drop (a + length bs) m"
    by (auto dest: wr_block_SomeD)
  then show ?thesis by (auto simp: same_outside_def nth_append min_def)
qed

section \<open>Library errors and operations\<close>

text \<open>
  \<^verbatim>\<open>EST_ERROR\<close> of \<^verbatim>\<open>src/src/est/est.h\<close>: the members that the modelled operations return.
\<close>

datatype (plugins only: code size) EST_ERROR =
    EST_ERR_NONE | EST_ERR_NO_CTX | EST_ERR_NO_CSR | EST_ERR_NO_CERT
  | EST_ERR_INVALID_PARAMETERS | EST_ERR_BAD_MODE | EST_ERR_BAD_PKCS10
  | EST_ERR_HTTP_WRITE | EST_ERR_HTTP_UNSUPPORTED | EST_ERR_HTTP_CANNOT_BUILD_HEADER
  | EST_ERR_HTTP_BAD_REQ | EST_ERR_HTTP_NOT_FOUND | EST_ERR_HTTP_NO_CONTENT | EST_ERR_HTTP_LOCKED
  | EST_ERR_HTTP_INVALID_PATH_SEGMENT | EST_ERR_HTTP_PATH_SEGMENT_NOT_SUPPORTED
  | EST_ERR_BAD_CONTENT_TYPE | EST_ERR_BAD_CONTENT_LEN | EST_ERR_AUTH_FAIL
  | EST_ERR_AUTH_FAIL_TLSUID | EST_ERR_AUTH_PENDING | EST_ERR_CA_ENROLL_FAIL
  | EST_ERR_CA_ENROLL_RETRY | EST_ERR_WRONG_METHOD | EST_ERR_MALLOC | EST_ERR_NULL_CALLBACK
  | EST_ERR_INVALID_SERVER_NAME | EST_ERR_INVALID_PORT_NUM | EST_ERR_CLIENT_NOT_INITIALIZED
  | EST_ERR_BUF_EXCEEDS_MAX_LEN | EST_ERR_NO_CERTS_FOUND | EST_ERR_FQDN_MISMATCH
  | EST_ERR_CSR_ATTR_MISSING | EST_ERR_INVALID_TOKEN | EST_ERR_INVALID_RETRY_VALUE
  | EST_ERR_BAD_X509 | EST_ERR_BAD_BASE64 | EST_ERR_BAD_ASN1_HEX | EST_ERR_BAD_ASN1_HEX_TOO_SHORT
  | EST_ERR_BAD_ASN1_HEX_TOO_LONG | EST_ERR_SRP_USERID_BAD | EST_ERR_SRP_PWD_BAD | EST_ERR_CB_FAILED
  | EST_ERR_NO_SSL_CTX | EST_ERR_IP_CONNECT | EST_ERR_VALIDATION | EST_ERR_NO_KEY | EST_ERR_X509_SIGN
  | EST_ERR_LOAD_TRUST_CERTS | EST_ERR_SYSCALL | EST_ERR_UNKNOWN
  | EST_ERR_ZERO_LENGTH_BUF | EST_ERR_READ_BUFFER_TOO_SMALL | EST_ERR_SSL_NEW | EST_ERR_SSL_CONNECT | EST_ERR_SSL_READ
  | EST_ERR_SSL_WRITE | EST_ERR_LOAD_CACERTS | EST_ERR_CACERT_VERIFICATION | EST_ERR_MULTIPART_PARSE
  | EST_ERR_CLIENT_COAP_MODE_NOT_SUPPORTED | EST_ERR_CLIENT_PROXY_MODE_NOT_SUPPORTED | EST_ERR_CLIENT_INVALID_KEY
  | EST_ERR_INVALID_CLIENT_PROXY_PROTOCOL | EST_ERR_INVALID_CLIENT_PROXY_AUTH | EST_ERR_INVALID_DIGEST
  | EST_ERR_SRP_STRENGTH_LOW | EST_ERR_SERVER_ALREADY_OPERATIONAL | EST_ERR_COAP_PROCESSING_ERROR | EST_ERR_NO_CERTIFICATE
  | EST_ERR_CLIENT_BRSKI_NONCE_TOO_LARGE | EST_ERR_CLIENT_BRSKI_NONCE_MISMATCH | EST_ERR_CLIENT_BRSKI_SERIAL_NUM_MISSING
  | EST_ERR_CLIENT_BRSKI_SERIAL_NUM_TOO_LARGE | EST_ERR_CLIENT_BRSKI_SERIAL_NUM_MISMATCH
  | EST_ERR_CLIENT_BRSKI_VOUCHER_VERIFY_FAILED | EST_ERR_ALREADY_ENABLED | EST_ERR_ALREADY_DISABLED
  | EST_ERR_X509_VER | EST_ERR_X509_CN | EST_ERR_X509_ATTR | EST_ERR_X509_PUBKEY | EST_ERR_BAD_KEY | EST_ERR_PEM_READ
  | EST_ERR_IP_GETADDR | EST_ERR_SSL_CTX_NEW | EST_ERR_SSL_CIPHER_LIST

text \<open>\<^verbatim>\<open>EST_OPERATION\<close> of \<^verbatim>\<open>src/src/est/est_locl.h\<close>, with the BRSKI operations.\<close>

datatype EST_OPERATION =
    EST_OP_SIMPLE_ENROLL | EST_OP_SIMPLE_REENROLL | EST_OP_CACERTS | EST_OP_CSRATTRS
  | EST_OP_SERVER_KEYGEN | EST_DUMMY_KEYGEN_MAP | EST_OP_BRSKI_REQ_VOUCHER
  | EST_OP_BRSKI_VOUCHER_STATUS | EST_OP_BRSKI_ENROLL_STATUS | EST_OP_MAX

end
