(* ===== verification/Safe_Lib.thy ===== *)
theory Safe_Lib
  imports Est_Prelude
begin

text \<open>
  The bounded string and memory functions of \<^verbatim>\<open>src/safe_c_stub/src/safe_str_stub.c\<close> and
  \<^verbatim>\<open>src/safe_c_stub/src/safe_mem_stub.c\<close>, which the rest of libEST calls instead of the C library.
  Functions that only read take strings (\<^term>\<open>None\<close> is a NULL pointer) and return the error code
  with the value stored through the out parameter. Functions that write work on flat memory, so
  that overlap and overflow are visible: their result is \<^term>\<open>None\<close> when the C code would touch a
  byte outside the memory.
\<close>

section \<open>Error codes and limits\<close>

datatype errno_t = EOK | ESNULLP | ESZEROL | ESLEMAX | ESOVRLP | ESNOSPC | ESRCH

text \<open>\<^verbatim>\<open>RSIZE_MAX\<close> is \<^verbatim>\<open>SIZE_MAX/2\<close>, with a 64-bit \<^verbatim>\<open>size_t\<close>.\<close>

definition RSIZE_MAX_STR :: nat where
  "RSIZE_MAX_STR = (2 ^ 64 - 1) div 2"

definition RSIZE_MAX_MEM :: nat where
  "RSIZE_MAX_MEM = (2 ^ 64 - 1) div 2"

section \<open>Comparison\<close>

definition strcmp_s :: "string option \<Rightarrow> nat \<Rightarrow> string option \<Rightarrow> errno_t \<times> int option" where
  "strcmp_s dest dmax src =
     (case (dest, src) of
        (Some d, Some s) \<Rightarrow> if dmax = 0 then (ESZEROL, None) else (EOK, Some (strncmp d s dmax))
      | _ \<Rightarrow> (ESNULLP, None))"

fun strcasecmp_loop :: "string \<Rightarrow> string \<Rightarrow> nat \<Rightarrow> int" where
  "strcasecmp_loop (c # d) (e # s) (Suc n) =
     (if c = NUL \<or> e = NUL \<or> toupper c \<noteq> toupper e
      then int (uchr (toupper c)) - int (uchr (toupper e)) else strcasecmp_loop d s n)"
| "strcasecmp_loop d s n = int (uchr (toupper (hd0 d))) - int (uchr (toupper (hd0 s)))"

definition strcasecmp_s ::
  "string option \<Rightarrow> nat \<Rightarrow> string option \<Rightarrow> bool \<Rightarrow> errno_t \<times> int option" where
  "strcasecmp_s dest dmax src indicator_null =
     (if indicator_null then (ESNULLP, None)
      else case dest of None \<Rightarrow> (ESNULLP, Some 0)
      | Some d \<Rightarrow> (case src of None \<Rightarrow> (ESNULLP, Some 0)
      | Some s \<Rightarrow> if dmax = 0 then (ESZEROL, Some 0)
                  else if dmax > RSIZE_MAX_STR then (ESLEMAX, Some 0)
                  else (EOK, Some (strcasecmp_loop d s dmax))))"

definition memcmp_s ::
  "char list option \<Rightarrow> nat \<Rightarrow> char list option \<Rightarrow> nat \<Rightarrow> (errno_t \<times> bool option) option" where
  \<comment> \<open>The out parameter is modelled by whether it is zero, which is all that the callers use.\<close>
  "memcmp_s dest dmax src slen =
     (case (dest, src) of
        (Some d, Some s) \<Rightarrow>
          if dmax = 0 then Some (ESZEROL, None)
          else if slen = 0 then Some (ESZEROL, None)
          else if slen > dmax then Some (ESLEMAX, None)
          else do { x \<leftarrow> rd_block d 0 slen; y \<leftarrow> rd_block s 0 slen; Some (EOK, Some (x = y)) }
      | _ \<Rightarrow> Some (ESNULLP, None))"

section \<open>Scanning\<close>

fun all_digits :: "string \<Rightarrow> bool" where
  "all_digits [] = True"
| "all_digits (c # s) = (if c = NUL then True
     else if schr c < 48 \<or> schr c > 57 then False else all_digits s)"

definition strisdigit_s :: "string option \<Rightarrow> nat \<Rightarrow> bool" where
  "strisdigit_s dest dmax =
     (case dest of None \<Rightarrow> False
      | Some d \<Rightarrow> if dmax = 0 then False
                  else if dmax > RSIZE_MAX_STR then False
                  else if hd0 d = NUL then False else all_digits d)"

fun scan2_match :: "char \<Rightarrow> string \<Rightarrow> nat \<Rightarrow> bool" where
  "scan2_match c (e # s) (Suc n) = (if e = NUL then False else if c = e then True else scan2_match c s n)"
| "scan2_match c s n = False"

fun strcspn_loop :: "string \<Rightarrow> nat \<Rightarrow> string \<Rightarrow> nat \<Rightarrow> nat \<Rightarrow> nat" where
  "strcspn_loop (c # d) (Suc n) s slen count =
     (if c = NUL then count
      else if scan2_match c s slen then count else strcspn_loop d n s slen (Suc count))"
| "strcspn_loop d n s slen count = count"

definition strcspn_s ::
  "string option \<Rightarrow> nat \<Rightarrow> string option \<Rightarrow> nat \<Rightarrow> bool \<Rightarrow> errno_t \<times> nat option" where
  "strcspn_s dest dmax src slen count_null =
     (if count_null then (ESNULLP, None)
      else case dest of None \<Rightarrow> (ESNULLP, Some 0)
      | Some d \<Rightarrow> (case src of None \<Rightarrow> (ESNULLP, Some 0)
      | Some s \<Rightarrow> if dmax = 0 then (ESZEROL, Some 0)
                  else if dmax > RSIZE_MAX_STR then (ESLEMAX, Some 0)
                  else if slen = 0 then (ESZEROL, Some 0)
                  else if slen > RSIZE_MAX_STR then (ESLEMAX, Some 0)
                  else (EOK, Some (strcspn_loop d dmax s slen 0))))"

fun strspn_loop :: "string \<Rightarrow> nat \<Rightarrow> string \<Rightarrow> nat \<Rightarrow> nat \<Rightarrow> nat" where
  "strspn_loop (c # d) (Suc n) s slen count =
     (if c = NUL then count
      else if scan2_match c s slen then strspn_loop d n s slen (Suc count) else count)"
| "strspn_loop d n s slen count = count"

definition strspn_s ::
  "string option \<Rightarrow> nat \<Rightarrow> string option \<Rightarrow> nat \<Rightarrow> bool \<Rightarrow> errno_t \<times> nat option" where
  "strspn_s dest dmax src slen count_null =
     (if count_null then (ESNULLP, None)
      else case dest of None \<Rightarrow> (ESNULLP, Some 0)
      | Some d \<Rightarrow> (case src of None \<Rightarrow> (ESNULLP, Some 0)
      | Some s \<Rightarrow> if dmax = 0 then (ESZEROL, Some 0)
                  else if dmax > RSIZE_MAX_STR then (ESLEMAX, Some 0)
                  else if slen = 0 then (ESZEROL, Some 0)
                  else if slen > RSIZE_MAX_STR then (ESLEMAX, Some 0)
                  else (EOK, Some (strspn_loop d dmax s slen 0))))"

definition strnlen_s :: "string option \<Rightarrow> nat \<Rightarrow> nat" where
  "strnlen_s s smax = (case s of None \<Rightarrow> 0 | Some x \<Rightarrow> strnlen x smax)"

definition strstr_s :: "string \<Rightarrow> nat \<Rightarrow> string \<Rightarrow> nat \<Rightarrow> errno_t \<times> nat option" where
  "strstr_s dest dmax src slen =
     (case strstr dest src of None \<Rightarrow> (ESRCH, None) | Some i \<Rightarrow> (EOK, Some i))"

section \<open>Copying and concatenation\<close>

text \<open>
  \<^verbatim>\<open>strncat(dest, src, n)\<close> appends at most \<open>n\<close> bytes of \<open>src\<close> after the string in the buffer
  and then a terminator; \<^verbatim>\<open>strncpy(dest, src, n)\<close> writes exactly \<open>n\<close> bytes, padding with NUL.
  Here \<open>dest\<close> is the destination object alone, so a write past it is undefined.
\<close>

definition strncat :: "mem \<Rightarrow> string \<Rightarrow> nat \<Rightarrow> mem option" where
  "strncat dest src n =
     (if NUL \<in> set dest then wr_block dest (length (cstr dest)) (take n (cstr src) @ [NUL]) else None)"

definition strncpy :: "mem \<Rightarrow> string \<Rightarrow> nat \<Rightarrow> mem option" where
  "strncpy dest src n =
     wr_block dest 0 (take n (cstr src) @ replicate (n - length (cstr src)) NUL)"

definition strcat_s :: "mem option \<Rightarrow> nat \<Rightarrow> string option \<Rightarrow> (mem option \<times> errno_t) option" where
  "strcat_s dest dmax src =
     (case (dest, src) of
        (Some d, Some s) \<Rightarrow> if dmax = 0 then Some (dest, ESZEROL)
          else do { d' \<leftarrow> strncat d s dmax; Some (Some d', EOK) }
      | _ \<Rightarrow> Some (dest, ESNULLP))"

definition strncat_s ::
  "mem option \<Rightarrow> nat \<Rightarrow> string option \<Rightarrow> nat \<Rightarrow> (mem option \<times> errno_t) option" where
  "strncat_s dest dmax src slen =
     (case (dest, src) of
        (Some d, Some s) \<Rightarrow> if dmax = 0 then Some (dest, ESZEROL)
          else do { d' \<leftarrow> strncat d s slen; Some (Some d', EOK) }
      | _ \<Rightarrow> Some (dest, ESNULLP))"

definition strcpy_s :: "mem option \<Rightarrow> nat \<Rightarrow> string option \<Rightarrow> (mem option \<times> errno_t) option" where
  "strcpy_s dest dmax src =
     (case (dest, src) of
        (Some d, Some s) \<Rightarrow> if dmax = 0 then Some (dest, ESZEROL)
          else do { d' \<leftarrow> strncpy d s dmax; Some (Some d', EOK) }
      | _ \<Rightarrow> Some (dest, ESNULLP))"

text \<open>
  The two copy loops of \<^verbatim>\<open>strncpy_s\<close> differ only in which pointer is compared with the overlap
  bumper: the destination when it lies below the source, the source otherwise.
\<close>

fun strncpy_s_loop ::
  "bool \<Rightarrow> nat \<Rightarrow> nat \<Rightarrow> mem \<Rightarrow> nat \<Rightarrow> nat \<Rightarrow> nat \<Rightarrow> nat \<Rightarrow> (mem \<times> errno_t) option" where
  "strncpy_s_loop below bumper orig m dest src 0 slen =
     do { m' \<leftarrow> wr m orig NUL; Some (m', ESNOSPC) }"
| "strncpy_s_loop below bumper orig m dest src (Suc dmax) slen =
     (if (if below then dest else src) = bumper
      then do { m' \<leftarrow> wr m orig NUL; Some (m', ESOVRLP) }
      else if slen = 0 then do { m' \<leftarrow> wr m dest NUL; Some (m', EOK) }
      else do { c \<leftarrow> rd m src;
                m' \<leftarrow> wr m dest c;
                if c = NUL then Some (m', EOK)
                else strncpy_s_loop below bumper orig m' (Suc dest) (Suc src) dmax (slen - 1) })"

definition strncpy_s ::
  "mem \<Rightarrow> nat option \<Rightarrow> nat \<Rightarrow> nat option \<Rightarrow> nat \<Rightarrow> (mem \<times> errno_t) option" where
  "strncpy_s m dest dmax src slen =
     (case dest of None \<Rightarrow> Some (m, ESNULLP)
      | Some d \<Rightarrow>
          if dmax = 0 then Some (m, ESZEROL)
          else if dmax > RSIZE_MAX_STR then Some (m, ESLEMAX)
          else (case src of None \<Rightarrow> do { m' \<leftarrow> wr m d NUL; Some (m', ESNULLP) }
          | Some s \<Rightarrow>
              do { m' \<leftarrow> (if slen > RSIZE_MAX_STR then wr m d NUL else Some m);
                   if d < s then strncpy_s_loop True s d m' d s dmax slen
                   else strncpy_s_loop False d d m' d s dmax slen }))"

section \<open>Memory blocks\<close>

definition memzero_s :: "mem option \<Rightarrow> nat \<Rightarrow> (mem option \<times> errno_t) option" where
  "memzero_s dest dmax =
     (case dest of None \<Rightarrow> Some (None, ESNULLP)
      | Some d \<Rightarrow> do { d' \<leftarrow> wr_block d 0 (replicate dmax NUL); Some (Some d', EOK) })"

definition memcpy_s ::
  "mem option \<Rightarrow> nat \<Rightarrow> char list option \<Rightarrow> nat \<Rightarrow> (mem option \<times> errno_t) option" where
  "memcpy_s dest dmax src slen =
     (case (dest, src) of
        (Some d, Some s) \<Rightarrow> if slen > dmax then Some (dest, ESLEMAX)
          else do { bs \<leftarrow> rd_block s 0 slen; d' \<leftarrow> wr_block d 0 bs; Some (Some d', EOK) }
      | _ \<Rightarrow> Some (dest, ESNULLP))"

definition memmove_s ::
  "mem \<Rightarrow> nat option \<Rightarrow> nat \<Rightarrow> nat option \<Rightarrow> nat \<Rightarrow> (mem \<times> errno_t) option" where
  "memmove_s m dest dmax src smax =
     (case dest of None \<Rightarrow> Some (m, ESNULLP)
      | Some dp \<Rightarrow>
          if dmax = 0 then Some (m, ESZEROL)
          else if dmax > RSIZE_MAX_MEM then Some (m, ESLEMAX)
          else if smax = 0 then do { m' \<leftarrow> wr_block m dp (replicate dmax NUL); Some (m', ESZEROL) }
          else if smax > dmax then do { m' \<leftarrow> wr_block m dp (replicate dmax NUL); Some (m', ESLEMAX) }
          else (case src of
              None \<Rightarrow> do { m' \<leftarrow> wr_block m dp (replicate dmax NUL); Some (m', ESNULLP) }
            | Some sp \<Rightarrow> do { bs \<leftarrow> rd_block m sp smax; m' \<leftarrow> wr_block m dp bs; Some (m', EOK) }))"

definition memset_s :: "mem option \<Rightarrow> nat \<Rightarrow> char \<Rightarrow> nat \<Rightarrow> (mem option \<times> errno_t) option" where
  "memset_s s smax c n =
     (case s of None \<Rightarrow> Some (None, ESNULLP)
      | Some m \<Rightarrow>
          if smax > RSIZE_MAX_MEM then Some (s, ESLEMAX)
          else if n > RSIZE_MAX_MEM
            then do { m' \<leftarrow> wr_block m 0 (replicate smax c); Some (Some m', ESLEMAX) }
          else if n > smax
            then do { m' \<leftarrow> wr_block m 0 (replicate smax c); Some (Some m', ESLEMAX) }
          else do { m' \<leftarrow> wr_block m 0 (replicate n c); Some (Some m', EOK) })"

section \<open>Tokenizing\<close>

definition STRTOK_DELIM_MAX_LEN :: nat where
  "STRTOK_DELIM_MAX_LEN = 16"

datatype delim_result = Too_Many | Delim | Not_Delim

fun delim_scan :: "char \<Rightarrow> string \<Rightarrow> nat \<Rightarrow> delim_result" where
  "delim_scan c [] slen = Not_Delim"
| "delim_scan c (p # ps) slen =
     (if p = NUL then Not_Delim
      else if slen = 0 then Too_Many
      else if c = p then Delim else delim_scan c ps (slen - 1))"

datatype tok_start = Abort | No_Token nat | Token_At nat nat

fun strtok_find_start :: "mem \<Rightarrow> nat \<Rightarrow> nat \<Rightarrow> string \<Rightarrow> tok_start option" where
  "strtok_find_start m dest dlen src =
     do { c \<leftarrow> rd m dest;
          if c = NUL then Some (No_Token dlen)
          else (case dlen of 0 \<Rightarrow> Some Abort
            | Suc k \<Rightarrow> (case delim_scan c src STRTOK_DELIM_MAX_LEN of
                  Too_Many \<Rightarrow> Some Abort
                | Delim \<Rightarrow> strtok_find_start m (Suc dest) k src
                | Not_Delim \<Rightarrow> if hd0 src = NUL then strtok_find_start m (Suc dest) k src
                               else Some (Token_At dest k))) }"

fun strtok_find_end ::
  "mem \<Rightarrow> nat \<Rightarrow> nat \<Rightarrow> string \<Rightarrow> nat \<Rightarrow> nat option \<Rightarrow> nat \<Rightarrow>
     (mem \<times> nat \<times> nat option \<times> nat option) option" where
  "strtok_find_end m dest dlen src dmax ptr tok =
     do { c \<leftarrow> rd m dest;
          if c = NUL then Some (m, dlen, ptr, Some tok)
          else (case dlen of 0 \<Rightarrow> Some (m, dmax, None, None)
            | Suc k \<Rightarrow> (case delim_scan c src STRTOK_DELIM_MAX_LEN of
                  Too_Many \<Rightarrow> Some (m, dmax, None, None)
                | Delim \<Rightarrow> do { m' \<leftarrow> wr m dest NUL; Some (m', k, Some (Suc dest), Some tok) }
                | Not_Delim \<Rightarrow> strtok_find_end m (Suc dest) k src dmax ptr tok)) }"

text \<open>
  \<open>strtok_s m dest dmax src ptr\<close> returns the memory, the new \<^verbatim>\<open>*dmax\<close>, the new \<^verbatim>\<open>*ptr\<close> and the
  address of the token. The out parameters themselves are never NULL here.
\<close>

definition strtok_s ::
  "mem \<Rightarrow> nat option \<Rightarrow> nat \<Rightarrow> string option \<Rightarrow> nat option \<Rightarrow>
     (mem \<times> nat \<times> nat option \<times> nat option) option" where
  "strtok_s m dest dmax src ptr =
     (if dmax = 0 then Some (m, dmax, ptr, None)
      else if dmax > RSIZE_MAX_STR then Some (m, dmax, ptr, None)
      else (case src of None \<Rightarrow> Some (m, dmax, ptr, None)
      | Some s \<Rightarrow>
          do { d \<leftarrow> (case dest of None \<Rightarrow> ptr | Some d \<Rightarrow> Some d);
               r \<leftarrow> strtok_find_start m d dmax s;
               (case r of Abort \<Rightarrow> Some (m, dmax, None, None)
                | No_Token dlen \<Rightarrow> Some (m, dlen, ptr, None)
                | Token_At t dlen \<Rightarrow> strtok_find_end m (Suc t) dlen s dmax ptr t) }))"


declare strtok_find_start.simps [simp del] strtok_find_end.simps [simp del]

section \<open>Facts about comparison and scanning\<close>

lemma int_uchr_diff_0 [simp]: "int (uchr a) - int (uchr b) = 0 \<longleftrightarrow> a = b"
  by (metis eq_iff_diff_eq_0 of_nat_eq_iff uchr_inj)

lemma strcasecmp_loop_eq_0:
  "length (cstr d) \<le> n \<Longrightarrow>
     strcasecmp_loop d s n = 0 \<longleftrightarrow> map toupper (cstr d) = map toupper (cstr s)"
proof (induction d s n rule: strcasecmp_loop.induct, goal_cases)
  case (1 c d e s n)
  then show ?case by (auto split: if_splits)
next
  case (2 s n)
  then show ?case by (cases s) auto
next
  case (3 d n)
  then show ?case by (cases d) auto
next
  case (4 d s)
  then show ?case by (cases d; cases s) (auto split: if_splits)
qed

lemma all_digits_iff: "all_digits s \<longleftrightarrow> list_all isdigit (cstr s)"
  by (induction s) (use schr_digit_iff in \<open>force simp: not_less\<close>)+

lemma scan2_match_iff: "scan2_match c s n \<longleftrightarrow> c \<in> set (take n (cstr s))"
  by (induction c s n rule: scan2_match.induct) auto

lemma strcspn_loop_eq:
  "strcspn_loop d n s slen count =
     count + length (takeWhile (\<lambda>c. c \<notin> set (take slen (cstr s))) (take n (cstr d)))"
  by (induction d n s slen count rule: strcspn_loop.induct) (auto simp: scan2_match_iff)

lemma strspn_loop_eq:
  "strspn_loop d n s slen count =
     count + length (takeWhile (\<lambda>c. c \<in> set (take slen (cstr s))) (take n (cstr d)))"
  by (induction d n s slen count rule: strspn_loop.induct) (auto simp: scan2_match_iff)

lemma delim_scan_eq:
  assumes "length (cstr ps) \<le> slen"
  shows "delim_scan c ps slen = (if c \<in> set (cstr ps) then Delim else Not_Delim)"
  using assms by (induction ps arbitrary: slen) (auto split: if_splits)

section \<open>The bounded copy\<close>

lemma strncpy_s_loop_frame:
  "strncpy_s_loop below bumper orig m dest src dmax slen = Some (m', e) \<Longrightarrow>
     orig \<le> dest \<Longrightarrow> orig < dest + dmax \<Longrightarrow>
     same_outside orig (dest + dmax) m m' \<and> (\<exists>a. orig \<le> a \<and> a < dest + dmax \<and> a < length m' \<and> m' ! a = NUL)"
proof (induction below bumper orig m dest src dmax slen rule: strncpy_s_loop.induct)
  case (1 below bumper orig m dest src slen)
  then show ?case
    by (auto simp: bind_eq_Some_conv intro!: same_outside_update exI [of _ orig] dest!: wr_SomeD)
next
  case (2 below bumper orig m dest src dmax slen)
  let ?ov = "(if below then dest else src) = bumper"
  consider (ovrlp) ?ov | (full) "\<not> ?ov" "slen = 0"
    | (nul) m1 where "\<not> ?ov" "slen \<noteq> 0" "rd m src = Some NUL" "wr m dest NUL = Some m1" "m' = m1"
    | (more) c m1 where "\<not> ?ov" "slen \<noteq> 0" "rd m src = Some c" "c \<noteq> NUL" "wr m dest c = Some m1"
        "strncpy_s_loop below bumper orig m1 (Suc dest) (Suc src) dmax (slen - 1) = Some (m', e)"
    using "2.prems"(1) by (auto simp: bind_eq_Some_conv split: if_splits)
  then show ?case
  proof cases
    case ovrlp
    with 2 show ?thesis
      by (auto simp: bind_eq_Some_conv intro!: same_outside_update exI [of _ orig] dest!: wr_SomeD)
  next
    case full
    with 2 show ?thesis
      by (auto simp: bind_eq_Some_conv intro!: same_outside_update exI [of _ dest] dest!: wr_SomeD)
  next
    case nul
    with 2 show ?thesis
      by (auto intro!: same_outside_update exI [of _ dest] dest!: wr_SomeD)
  next
    case more
    then have m1: "m1 = m[dest := c]" by (auto dest: wr_SomeD)
    have "same_outside orig (dest + Suc dmax) m m1"
      using "2.prems" m1 by (auto intro: same_outside_update)
    moreover have "same_outside orig (Suc dest + dmax) m1 m'
        \<and> (\<exists>a. orig \<le> a \<and> a < Suc dest + dmax \<and> a < length m' \<and> m' ! a = NUL)"
      using more "2.prems" by (intro "2.IH") auto
    ultimately show ?thesis
      by (auto intro: same_outside_trans)
  qed
qed

lemma strncpy_s_loop_ok:
  assumes "k \<le> slen" and "k < dmax" and "dest + k < length m"
    and "k < slen \<Longrightarrow> src + k < length m \<and> m ! (src + k) = NUL"
    and "src + k \<le> length m"
    and "\<forall>j < k. m ! (src + j) \<noteq> NUL"
    and "if below then dest + k < bumper \<and> bumper \<le> src else src + k < bumper \<and> bumper \<le> dest"
  shows "strncpy_s_loop below bumper orig m dest src dmax slen =
    Some (take dest m @ take k (drop src m) @ [NUL] @ drop (dest + k + 1) m, EOK)"
  using assms
proof (induction k arbitrary: m dest src dmax slen)
  case 0
  then obtain n where "dmax = Suc n" by (cases dmax) auto
  moreover have "m[dest := NUL] = take dest m @ [NUL] @ drop (dest + 1) m"
    using 0 by (simp add: upd_conv_take_nth_drop)
  ultimately show ?case
    using 0 by (auto simp: mem_simps split: if_splits)
next
  case (Suc k)
  then obtain n where n: "dmax = Suc n" by (cases dmax) auto
  let ?c = "m ! src" and ?m1 = "m[dest := m ! src]"
  have c: "?c \<noteq> NUL" using Suc.prems(6) by (metis add.right_neutral zero_less_Suc)
  have off: "dest \<noteq> Suc src + j" if "j \<le> k" for j
    using Suc.prems(7) that by (auto split: if_splits)
  have "strncpy_s_loop below bumper orig ?m1 (Suc dest) (Suc src) n (slen - 1) =
      Some (take (Suc dest) ?m1 @ take k (drop (Suc src) ?m1) @ [NUL] @ drop (Suc dest + k + 1) ?m1, EOK)"
  proof (rule Suc.IH)
    show "k < slen - 1 \<Longrightarrow> Suc src + k < length ?m1 \<and> ?m1 ! (Suc src + k) = NUL"
      using Suc.prems(4) off [of k] by (simp add: nth_list_update)
    show "\<forall>j < k. ?m1 ! (Suc src + j) \<noteq> NUL"
      using Suc.prems(6) off by (auto simp: nth_list_update)
  qed (use Suc.prems n in \<open>auto split: if_splits\<close>)
  moreover have "take (Suc dest) ?m1 = take dest m @ [?c]"
    using Suc.prems(3) by (simp add: take_Suc_conv_app_nth)
  moreover have "take k (drop (Suc src) ?m1) = take k (drop (Suc src) m)"
    using off Suc.prems(5) by (intro nth_equalityI) (auto simp: nth_list_update)
  moreover have "take (Suc k) (drop src m) = ?c # take k (drop (Suc src) m)"
    using Suc.prems(5) by (simp add: Cons_nth_drop_Suc [symmetric])
  moreover have "(if below then dest else src) \<noteq> bumper"
    using Suc.prems(7) by (auto split: if_splits)
  ultimately show ?case
    using Suc.prems c n by (auto simp: mem_simps)
qed

text \<open>on disjoint buffers with room for the result, \<^verbatim>\<open>strncpy_s\<close> succeeds and leaves in the
  destination the first \<open>k\<close> bytes of the source and a terminator, where \<open>k\<close> is the length of the source
  string or \<open>slen\<close> if that is smaller; every other byte of memory is unchanged.\<close>

theorem strncpy_s_copies:
  assumes "0 < dmax" "dmax \<le> RSIZE_MAX_STR" "slen \<le> RSIZE_MAX_STR"
    and "s \<le> length m" and "NUL \<in> set (drop s m)"
    and k: "k = min (length (cstr (drop s m))) slen"
    and "k < dmax" and "d + k < length m" and "d + k < s \<or> s + k < d"
  shows "strncpy_s m (Some d) dmax (Some s) slen =
    Some (take d m @ take k (drop s m) @ [NUL] @ drop (d + k + 1) m, EOK)"
proof -
  let ?w = "cstr (drop s m)"
  have lt: "length ?w < length m - s"
  proof -
    have "length (cstr t) < length t" if "NUL \<in> set t" for t
      using that by (induction t) auto
    with assms(5) show ?thesis by (metis length_drop)
  qed
  have stop: "m ! (s + length ?w) = NUL"
  proof -
    have "t ! length (cstr t) = NUL" if "NUL \<in> set t" for t
      using that by (induction t) auto
    with assms(4,5) show ?thesis by (metis nth_drop)
  qed
  have inner: "m ! (s + j) \<noteq> NUL" if "j < length ?w" for j
  proof -
    have "drop s m ! j = ?w ! j"
      using that by (simp add: cstr_def takeWhile_nth)
    moreover have "?w ! j \<noteq> NUL"
      using nth_mem [OF that] cstr_no_nul [of "drop s m"] by metis
    ultimately show ?thesis
      using assms(4) by simp
  qed
  have "strncpy_s_loop b bump d m d s dmax slen =
      Some (take d m @ take k (drop s m) @ [NUL] @ drop (d + k + 1) m, EOK)"
    if "if b then d + k < bump \<and> bump \<le> s else s + k < bump \<and> bump \<le> d" for b bump
    using that assms lt stop inner by (intro strncpy_s_loop_ok) (auto simp: min_def split: if_splits)
  from this [of True s] this [of False d] show ?thesis
    using assms by (auto simp: strncpy_s_def)
qed

section \<open>Tokenizing: skipping delimiters and cutting a token\<close>

lemma strtok_find_start_skip:
  assumes "set ds \<subseteq> set (cstr src)" and "length (cstr src) \<le> STRTOK_DELIM_MAX_LEN"
    and "c \<noteq> NUL" and "c \<notin> set (cstr src)" and "cstr src \<noteq> []" and "length ds < dlen"
  shows "strtok_find_start (pre @ ds @ c # post) (length pre) dlen src =
    Some (Token_At (length pre + length ds) (dlen - length ds - 1))"
  using assms
proof (induction ds arbitrary: pre dlen)
  case Nil
  then have "hd0 src \<noteq> NUL" by (cases src) auto
  with Nil show ?case
    by (subst strtok_find_start.simps)
      (auto simp: rd_def nth_append delim_scan_eq split: nat.splits)
next
  case (Cons e ds)
  then have e: "e \<in> set (cstr src)" by simp
  then have "e \<noteq> NUL" by (metis cstr_no_nul)
  obtain k where k: "dlen = Suc k" using Cons.prems by (cases dlen) auto
  have "strtok_find_start ((pre @ [e]) @ ds @ c # post) (length (pre @ [e])) k src =
      Some (Token_At (length (pre @ [e]) + length ds) (k - length ds - 1))"
    using Cons.prems k by (intro Cons.IH) auto
  with Cons.prems e k \<open>e \<noteq> NUL\<close> show ?case
    by (subst strtok_find_start.simps) (auto simp: rd_def nth_append delim_scan_eq)
qed

lemma strtok_find_end_cut:
  assumes "set w \<inter> set (cstr src) = {}" and "NUL \<notin> set w" and "x \<in> set (cstr src)"
    and "length (cstr src) \<le> STRTOK_DELIM_MAX_LEN" and "length w < dlen"
  shows "strtok_find_end (pre @ w @ x # post) (length pre) dlen src dmax ptr tok =
    Some (pre @ w @ NUL # post, dlen - length w - 1, Some (length pre + length w + 1), Some tok)"
  using assms
proof (induction w arbitrary: pre dlen)
  case Nil
  then have "x \<noteq> NUL" by (metis cstr_no_nul)
  with Nil show ?case
    by (subst strtok_find_end.simps)
      (auto simp: rd_def wr_def nth_append delim_scan_eq list_update_append split: nat.splits)
next
  case (Cons e w)
  obtain k where k: "dlen = Suc k" using Cons.prems by (cases dlen) auto
  have "strtok_find_end ((pre @ [e]) @ w @ x # post) (length (pre @ [e])) k src dmax ptr tok =
      Some ((pre @ [e]) @ w @ NUL # post, k - length w - 1,
            Some (length (pre @ [e]) + length w + 1), Some tok)"
    using Cons.prems k by (intro Cons.IH) auto
  with Cons.prems k show ?case
    by (subst strtok_find_end.simps) (auto simp: rd_def nth_append delim_scan_eq)
qed

lemma strtok_find_end_last:
  assumes "set w \<inter> set (cstr src) = {}" and "NUL \<notin> set w"
    and "length (cstr src) \<le> STRTOK_DELIM_MAX_LEN" and "length w \<le> dlen"
  shows "strtok_find_end (pre @ w @ NUL # post) (length pre) dlen src dmax ptr tok =
    Some (pre @ w @ NUL # post, dlen - length w, ptr, Some tok)"
  using assms
proof (induction w arbitrary: pre dlen)
  case Nil
  then show ?case by (subst strtok_find_end.simps) (auto simp: rd_def nth_append)
next
  case (Cons e w)
  obtain k where k: "dlen = Suc k" using Cons.prems by (cases dlen) auto
  have "strtok_find_end ((pre @ [e]) @ w @ NUL # post) (length (pre @ [e])) k src dmax ptr tok =
      Some ((pre @ [e]) @ w @ NUL # post, k - length w, ptr, Some tok)"
    using Cons.prems k by (intro Cons.IH) auto
  with Cons.prems k show ?case
    by (subst strtok_find_end.simps) (auto simp: rd_def nth_append delim_scan_eq)
qed

lemma strtok_s_cut:
  assumes "set ds \<subseteq> set (cstr src)" and "set w \<inter> set (cstr src) = {}" and "NUL \<notin> set w" and "w \<noteq> []"
    and "x \<in> set (cstr src)" and "length (cstr src) \<le> STRTOK_DELIM_MAX_LEN"
    and "length ds + length w < dmax" and "dmax \<le> RSIZE_MAX_STR"
  shows "strtok_s (pre @ ds @ w @ x # post) (Some (length pre)) dmax (Some src) ptr =
    Some (pre @ ds @ w @ NUL # post, dmax - length ds - length w - 1,
          Some (length pre + length ds + length w + 1), Some (length pre + length ds))"
proof -
  obtain c w' where w: "w = c # w'" using assms(4) by (cases w) auto
  have "strtok_find_start (pre @ ds @ c # w' @ x # post) (length pre) dmax src =
      Some (Token_At (length pre + length ds) (dmax - length ds - 1))"
    using assms w by (intro strtok_find_start_skip) auto
  moreover have "strtok_find_end ((pre @ ds @ [c]) @ w' @ x # post) (length (pre @ ds @ [c]))
        (dmax - length ds - 1) src dmax ptr (length pre + length ds) =
      Some ((pre @ ds @ [c]) @ w' @ NUL # post, dmax - length ds - 1 - length w' - 1,
            Some (length (pre @ ds @ [c]) + length w' + 1), Some (length pre + length ds))"
    using assms w by (intro strtok_find_end_cut) auto
  ultimately show ?thesis
    using assms(7,8) w by (simp add: strtok_s_def)
qed

section \<open>Properties of the bounded functions\<close>

theorem strncpy_s_copies_witness:
  "strncpy_s (''abc'' @ [NUL] @ ''wxyz'') (Some 4) 4 (Some 0) 10 = Some (''abc'' @ [NUL] @ ''abc'' @ [NUL], EOK)"
proof -
  have "strncpy_s (''abc'' @ [NUL] @ ''wxyz'') (Some 4) 4 (Some 0) 10 =
      Some (take 4 (''abc'' @ [NUL] @ ''wxyz'') @ take 3 (drop 0 (''abc'' @ [NUL] @ ''wxyz'')) @ [NUL]
        @ drop (4 + 3 + 1) (''abc'' @ [NUL] @ ''wxyz''), EOK)"
    by (rule strncpy_s_copies) (simp_all add: RSIZE_MAX_STR_def)
  then show ?thesis by simp
qed

text \<open>whatever its arguments, overlapping buffers and lengths out of range included, a call of
  \<^verbatim>\<open>strncpy_s\<close> with a destination of \<open>dmax\<close> bytes changes no byte outside those, and leaves a terminator
  within them.\<close>

theorem strncpy_s_bounded:
  assumes "strncpy_s m (Some d) dmax src slen = Some (m', e)"
    and "0 < dmax" and "dmax \<le> RSIZE_MAX_STR"
  shows "same_outside d (d + dmax) m m' \<and> (\<exists>a. d \<le> a \<and> a < d + dmax \<and> a < length m' \<and> m' ! a = NUL)"
proof (cases src)
  case None
  with assms show ?thesis
    by (auto simp: strncpy_s_def bind_eq_Some_conv dest!: wr_SomeD intro!: same_outside_update exI [of _ d])
next
  case (Some s)
  then obtain m1 b bump where m1: "m1 = m \<or> m1 = m[d := NUL]"
    and loop: "strncpy_s_loop b bump d m1 d s dmax slen = Some (m', e)"
    using assms
    by (auto simp: strncpy_s_def bind_eq_Some_conv split: if_splits dest!: wr_SomeD)
  from m1 assms(2) have "same_outside d (d + dmax) m m1"
    by (auto intro: same_outside_update)
  with strncpy_s_loop_frame [OF loop] assms(2) show ?thesis
    by (auto intro: same_outside_trans)
qed

theorem strncpy_s_bounded_witness:
  "strncpy_s (''abcd'' @ [NUL]) (Some 1) 3 (Some 0) 2 = Some (''a'' @ [NUL] @ ''cd'' @ [NUL], ESOVRLP)
   \<and> same_outside 1 4 (''abcd'' @ [NUL]) (''a'' @ [NUL] @ ''cd'' @ [NUL])"
proof -
  have h: "strncpy_s (''abcd'' @ [NUL]) (Some 1) 3 (Some 0) 2 = Some (''a'' @ [NUL] @ ''cd'' @ [NUL], ESOVRLP)"
  proof -
    have "\<not> 3 > RSIZE_MAX_STR" "\<not> 2 > RSIZE_MAX_STR" by (simp_all add: RSIZE_MAX_STR_def)
    then have "strncpy_s (''abcd'' @ [NUL]) (Some 1) 3 (Some 0) 2 =
        strncpy_s_loop False 1 1 (''abcd'' @ [NUL]) 1 0 (Suc (Suc (Suc 0))) (Suc (Suc 0))"
      by (simp add: strncpy_s_def numeral_3_eq_3 numeral_2_eq_2)
    then show ?thesis by (simp add: rd_def wr_def)
  qed
  show ?thesis
    using h strncpy_s_bounded [OF h] by (simp add: RSIZE_MAX_STR_def)
qed

text \<open>the stub of \<^verbatim>\<open>strcat_s\<close> bounds the number of appended bytes and not the length of the result:
  it stays inside a destination of \<open>dmax\<close> bytes exactly when the old string, at most \<open>dmax\<close> bytes of the
  source and a terminator fit, and otherwise writes past it. So for every size there is a call in
  which the error code that should report the lack of space is never reached.\<close>

theorem strcat_s_no_bound:
  "(length d = dmax \<and> NUL \<in> set d \<and> 0 < dmax \<longrightarrow>
      (strcat_s (Some d) dmax (Some s) \<noteq> None \<longleftrightarrow> length (cstr d) + min dmax (length (cstr s)) < dmax))
   \<and> (0 < n \<longrightarrow> strcat_s (Some (replicate (n - 1) CHR ''a'' @ [NUL])) n (Some ''b'') = None)"
proof (intro conjI impI)
  assume "length d = dmax \<and> NUL \<in> set d \<and> 0 < dmax"
  then show "strcat_s (Some d) dmax (Some s) \<noteq> None \<longleftrightarrow> length (cstr d) + min dmax (length (cstr s)) < dmax"
    by (auto simp: strcat_s_def strncat_def wr_block_def min_def)
next
  assume n: "0 < n"
  have "cstr (replicate (n - 1) CHR ''a'' @ [NUL]) = replicate (n - 1) CHR ''a''"
    by (rule cstr_append_nul) simp
  with n show "strcat_s (Some (replicate (n - 1) CHR ''a'' @ [NUL])) n (Some ''b'') = None"
    by (simp add: strcat_s_def strncat_def wr_block_def)
qed

theorem strcat_s_no_bound_witness:
  "strcat_s (Some (''a'' @ [NUL, NUL])) 3 (Some ''b'') \<noteq> None
   \<and> strcat_s (Some (replicate (2 - 1) CHR ''a'' @ [NUL])) 2 (Some ''b'') = None"
  using strcat_s_no_bound [of "''a'' @ [NUL, NUL]" 3 "''b''" 2] by simp

text \<open>a call of \<^verbatim>\<open>strtok_s\<close> on a buffer that holds a run of delimiters, a token and a further
  delimiter returns the token, overwrites that delimiter with a terminator, leaves the rest of the
  buffer alone, moves the context behind it and takes the consumed bytes off the remaining length.\<close>

theorem strtok_s_token:
  assumes "set ds \<subseteq> set (cstr src)" and "set w \<inter> set (cstr src) = {}" and "NUL \<notin> set w" and "w \<noteq> []"
    and "x \<in> set (cstr src)" and "length (cstr src) \<le> STRTOK_DELIM_MAX_LEN"
    and "length ds + length w < dmax" and "dmax \<le> RSIZE_MAX_STR"
  shows "strtok_s (pre @ ds @ w @ x # post) (Some (length pre)) dmax (Some src) ptr =
    Some (pre @ ds @ w @ NUL # post, dmax - length ds - length w - 1,
          Some (length pre + length ds + length w + 1), Some (length pre + length ds))"
  using assms by (rule strtok_s_cut)

theorem strtok_s_token_witness:
  "strtok_s (''::user:pw'' @ [NUL]) (Some 0) 10 (Some '':'') None =
     Some (''::user'' @ NUL # ''pw'' @ [NUL], 3, Some 7, Some 2)"
  using strtok_s_token [of "''::''" "'':''" "''user''" "CHR '':''" 10 "[]" "''pw'' @ [NUL]" None]
  by (simp add: STRTOK_DELIM_MAX_LEN_def RSIZE_MAX_STR_def)

text \<open>after the last token, the one ended by the terminator of the buffer, \<^verbatim>\<open>strtok_s\<close> leaves the
  context pointer where it was. If the length passed in is larger than the string, the next call
  starts from the same place and returns the same token again instead of NULL.\<close>

theorem strtok_s_last_token_repeats:
  assumes "set w \<inter> set (cstr src) = {}" and "NUL \<notin> set w" and "w \<noteq> []" and "cstr src \<noteq> []"
    and "length (cstr src) \<le> STRTOK_DELIM_MAX_LEN"
    and "2 * length w \<le> dmax" and "dmax \<le> RSIZE_MAX_STR"
  shows "strtok_s (pre @ w @ NUL # post) None dmax (Some src) (Some (length pre)) =
      Some (pre @ w @ NUL # post, dmax - length w, Some (length pre), Some (length pre))
    \<and> strtok_s (pre @ w @ NUL # post) None (dmax - length w) (Some src) (Some (length pre)) =
      Some (pre @ w @ NUL # post, dmax - length w - length w, Some (length pre), Some (length pre))"
proof -
  obtain c w' where w: "w = c # w'" using assms(3) by (cases w) auto
  have one: "strtok_s (pre @ w @ NUL # post) None n (Some src) (Some (length pre)) =
      Some (pre @ w @ NUL # post, n - length w, Some (length pre), Some (length pre))"
    if n: "length w \<le> n" "n \<le> RSIZE_MAX_STR" for n
  proof -
    have "strtok_find_start (pre @ c # w' @ NUL # post) (length pre) n src =
        Some (Token_At (length pre) (n - 1))"
      using strtok_find_start_skip [of "[]" src c n pre "w' @ NUL # post"] assms w n by auto
    moreover have "strtok_find_end ((pre @ [c]) @ w' @ NUL # post) (length (pre @ [c]))
          (n - 1) src n (Some (length pre)) (length pre) =
        Some ((pre @ [c]) @ w' @ NUL # post, n - 1 - length w', Some (length pre), Some (length pre))"
      using assms w n by (intro strtok_find_end_last) auto
    ultimately show ?thesis
      using n w by (auto simp: strtok_s_def)
  qed
  from assms(6,7) show ?thesis using one [of dmax] one [of "dmax - length w"] by simp
qed

theorem strtok_s_last_token_repeats_witness:
  "strtok_s (''ab'' @ [NUL]) None 4 (Some '' '') (Some 0) = Some (''ab'' @ [NUL], 2, Some 0, Some 0)
   \<and> strtok_s (''ab'' @ [NUL]) None 2 (Some '' '') (Some 0) = Some (''ab'' @ [NUL], 0, Some 0, Some 0)"
  using strtok_s_last_token_repeats [of "''ab''" "'' ''" 4 "[]" "[]"]
  by (simp add: STRTOK_DELIM_MAX_LEN_def RSIZE_MAX_STR_def)

end
