(* ===== verification/Est_Strings.thy ===== *)
theory Est_Strings
  imports Safe_Lib
begin

text \<open>
  The string helpers of \<^verbatim>\<open>src/src/est/est.c\<close> over the bounded functions: case-insensitive comparison,
  spans, and \<^verbatim>\<open>skip_quoted\<close>/\<^verbatim>\<open>skip\<close>, which cut a word out of a request buffer in place. The interface
  \<open>ci_compare\<close> states what a client may assume of a case-insensitive comparison; the lookup of a
  keyword in a table is proved against it once and used by every component that dispatches on names.
\<close>

section \<open>Definitions\<close>

definition est_strcasecmp_s :: "string \<Rightarrow> string \<Rightarrow> int" where
  "est_strcasecmp_s s1 s2 =
     (case snd (strcasecmp_s (Some s1) (strnlen_s (Some s1) RSIZE_MAX_STR) (Some s2) False) of
        None \<Rightarrow> 0 | Some diff \<Rightarrow> diff)"

definition est_strcspn :: "string \<Rightarrow> string \<Rightarrow> nat" where
  "est_strcspn str1 str2 =
     (if hd0 str1 = NUL then 0
      else (case strcspn_s (Some str1) (strnlen_s (Some str1) RSIZE_MAX_STR) (Some str2) RSIZE_MAX_STR False of
              (EOK, Some count) \<Rightarrow> count | _ \<Rightarrow> 0))"

definition est_strspn :: "string \<Rightarrow> string \<Rightarrow> nat" where
  "est_strspn str1 str2 =
     (if hd0 str1 = NUL then 0
      else (case strspn_s (Some str1) (strnlen_s (Some str1) RSIZE_MAX_STR) (Some str2) RSIZE_MAX_STR False of
              (EOK, Some count) \<Rightarrow> count | _ \<Rightarrow> 0))"

text \<open>
  \<^verbatim>\<open>skip_quoted\<close> works in place: the memory is the buffer, \<open>b\<close> the address of the word. The inner
  loop joins pieces whose delimiter is preceded by the quote character; it returns the memory with
  the addresses \<^verbatim>\<open>p\<close> and \<^verbatim>\<open>end_word\<close>.
\<close>

lemma wr_block_length: "wr_block m a bs = Some m' \<Longrightarrow> length m' = length m"
  by (auto dest: wr_block_SomeD)

lemma memmove_s_length: "memmove_s m d dmax s n = Some (m', e) \<Longrightarrow> length m' = length m"
  by (auto simp: memmove_s_def bind_eq_Some_conv split: option.splits if_splits dest: wr_block_length)

function skip_quoted_loop ::
  "mem \<Rightarrow> nat \<Rightarrow> nat \<Rightarrow> string \<Rightarrow> char \<Rightarrow> (mem \<times> nat \<times> nat) option" where
  "skip_quoted_loop m p end_word delimiters quotechar =
     (case (rd m p, rd m end_word) of
        (Some pc, Some ec) \<Rightarrow>
          if pc \<noteq> quotechar then Some (m, p, end_word)
          else if ec = NUL then Some (m[p := NUL], p, end_word)
          else (let end_off = est_strcspn (drop (end_word + 1) m) delimiters in
                case memmove_s m (Some p) (end_off + 1) (Some end_word) (end_off + 1) of
                  None \<Rightarrow> None
                | Some (m', _) \<Rightarrow>
                    skip_quoted_loop m' (p + end_off) (end_word + end_off + 1) delimiters quotechar)
      | _ \<Rightarrow> None)"
  by pat_completeness auto
termination
  by (relation "measure (\<lambda>(m, p, e, d, q). length m - e)")
    (auto simp: rd_def dest!: memmove_s_length split: if_splits)

fun zero_range :: "mem \<Rightarrow> nat \<Rightarrow> nat \<Rightarrow> mem" where
  "zero_range m a 0 = m"
| "zero_range m a (Suc n) = zero_range (m[a := NUL]) (Suc a) n"

definition skip_quoted ::
  "mem \<Rightarrow> nat \<Rightarrow> string \<Rightarrow> string \<Rightarrow> char \<Rightarrow> (mem \<times> nat \<times> nat) option" where
  "skip_quoted m buf delimiters whitespace quotechar =
     (let end_word0 = buf + est_strcspn (drop buf m) delimiters in
      do { (m1, end_word) \<leftarrow>
             (if end_word0 > buf then
                do { (m', p, e) \<leftarrow> skip_quoted_loop m (end_word0 - 1) end_word0 delimiters quotechar;
                     Some (zero_range m' (p + 1) (e - (p + 1)), e) }
              else Some (m, end_word0));
           c \<leftarrow> rd m1 end_word;
           if c = NUL then Some (m1, end_word, buf)
           else (let end_whitespace = end_word + 1 + est_strspn (drop (end_word + 1) m1) whitespace in
                 Some (zero_range m1 end_word (end_whitespace - end_word), end_whitespace, buf)) })"

definition skip :: "mem \<Rightarrow> nat \<Rightarrow> string \<Rightarrow> (mem \<times> nat \<times> nat) option" where
  "skip m buf delimiters = skip_quoted m buf delimiters delimiters NUL"

text \<open>The chain of \<^verbatim>\<open>if (!est_strcasecmp_s(op, NAME))\<close> tests that several components use.\<close>

fun kw_find :: "(string \<Rightarrow> string \<Rightarrow> int) \<Rightarrow> string \<Rightarrow> (string \<times> 'a) list \<Rightarrow> 'a option" where
  "kw_find cmp s [] = None"
| "kw_find cmp s ((k, v) # tbl) = (if cmp s k = 0 then Some v else kw_find cmp s tbl)"

section \<open>The comparison interface\<close>

locale ci_compare =
  fixes cmp :: "string \<Rightarrow> string \<Rightarrow> int"
    and valid :: "string \<Rightarrow> bool"
  assumes cmp_0: "valid s \<Longrightarrow> cmp s t = 0 \<longleftrightarrow> map toupper (cstr s) = map toupper (cstr t)"
begin

lemma cmp_refl: "valid s \<Longrightarrow> cmp s s = 0"
  by (simp add: cmp_0)

lemma cmp_case: "valid s \<Longrightarrow> valid s' \<Longrightarrow> map toupper (cstr s) = map toupper (cstr s') \<Longrightarrow>
    cmp s t = 0 \<longleftrightarrow> cmp s' t = 0"
  by (simp add: cmp_0)

lemma kw_find_Some:
  assumes "valid s" and "distinct (map (\<lambda>(k, v). map toupper (cstr k)) tbl)"
  shows "kw_find cmp s tbl = Some v \<longleftrightarrow>
    (\<exists>k. (k, v) \<in> set tbl \<and> map toupper (cstr s) = map toupper (cstr k))"
  using assms(2)
proof (induction tbl)
  case Nil
  then show ?case by simp
next
  case (Cons kv tbl)
  obtain k0 v0 where kv: "kv = (k0, v0)" by (cases kv)
  show ?case
  proof (cases "map toupper (cstr s) = map toupper (cstr k0)")
    case True
    moreover from Cons.prems kv have "map toupper (cstr k0) \<noteq> map toupper (cstr k)"
      if "(k, v) \<in> set tbl" for k
      using that by (force simp: image_iff)
    ultimately show ?thesis using kv by (auto simp: cmp_0 [OF assms(1)])
  next
    case False
    with Cons kv show ?thesis by (auto simp: cmp_0 [OF assms(1)])
  qed
qed

lemma kw_find_None:
  assumes "valid s"
  shows "kw_find cmp s tbl = None \<longleftrightarrow>
    (\<forall>(k, v) \<in> set tbl. map toupper (cstr s) \<noteq> map toupper (cstr k))"
proof (induction tbl)
  case (Cons kv tbl)
  then show ?case
    by (cases "cmp s (fst kv) = 0"; cases kv) (simp_all add: cmp_0 [OF assms])
qed simp

lemma kw_find_case:
  assumes "valid s" and "valid s'" and "map toupper (cstr s) = map toupper (cstr s')"
  shows "kw_find cmp s tbl = kw_find cmp s' tbl"
  by (induction tbl) (auto simp: cmp_case [OF assms])

end

section \<open>What the comparison and the spans compute\<close>

definition cmp_valid :: "string \<Rightarrow> bool" where
  "cmp_valid s \<longleftrightarrow> cstr s \<noteq> [] \<and> length s \<le> RSIZE_MAX_STR"

lemma est_strcasecmp_s_eq_0:
  "cmp_valid s1 \<Longrightarrow> est_strcasecmp_s s1 s2 = 0 \<longleftrightarrow> map toupper (cstr s1) = map toupper (cstr s2)"
  using length_cstr_le [of s1]
  by (auto simp: cmp_valid_def est_strcasecmp_s_def strcasecmp_s_def strnlen_s_def strnlen_def
      strcasecmp_loop_eq_0 min_def)

text \<open>
  On the empty string the bounded comparison refuses its zero length and leaves the indicator at 0,
  so \<^verbatim>\<open>est_strcasecmp_s\<close> reports equality with every string.
\<close>

lemma est_strcasecmp_s_empty: "cstr s1 = [] \<Longrightarrow> est_strcasecmp_s s1 s2 = 0"
  by (simp add: est_strcasecmp_s_def strcasecmp_s_def strnlen_s_def strnlen_def)

interpretation est_cmp: ci_compare est_strcasecmp_s cmp_valid
  by unfold_locales (rule est_strcasecmp_s_eq_0)

lemma RSIZE_MAX_STR_pos [simp]: "RSIZE_MAX_STR \<noteq> 0"
  by (simp add: RSIZE_MAX_STR_def)

lemma est_strcspn_eq:
  assumes "length s \<le> RSIZE_MAX_STR" and "length d \<le> RSIZE_MAX_STR"
  shows "est_strcspn s d = length (takeWhile (\<lambda>c. c \<notin> set (cstr d)) (cstr s))"
proof -
  have "length (cstr s) \<le> RSIZE_MAX_STR" "length (cstr d) \<le> RSIZE_MAX_STR"
    using assms length_cstr_le [of s] length_cstr_le [of d] by linarith+
  then show ?thesis
    by (cases s) (auto simp: est_strcspn_def strcspn_s_def strnlen_s_def strnlen_def strcspn_loop_eq min_def)
qed

lemma est_strspn_eq:
  assumes "length s \<le> RSIZE_MAX_STR" and "length d \<le> RSIZE_MAX_STR"
  shows "est_strspn s d = length (takeWhile (\<lambda>c. c \<in> set (cstr d)) (cstr s))"
proof -
  have "length (cstr s) \<le> RSIZE_MAX_STR" "length (cstr d) \<le> RSIZE_MAX_STR"
    using assms length_cstr_le [of s] length_cstr_le [of d] by linarith+
  then show ?thesis
    by (cases s) (auto simp: est_strspn_def strspn_s_def strnlen_s_def strnlen_def strspn_loop_eq min_def)
qed

declare skip_quoted_loop.simps [simp del]

section \<open>Cutting a word\<close>

lemma zero_range_eq:
  "a + n \<le> length m \<Longrightarrow> zero_range m a n = take a m @ replicate n NUL @ drop (a + n) m"
proof (induction n arbitrary: a m)
  case 0
  then show ?case by simp
next
  case (Suc n)
  then have "zero_range (m[a := NUL]) (Suc a) n =
      take (Suc a) (m[a := NUL]) @ replicate n NUL @ drop (Suc a + n) (m[a := NUL])"
    by (intro Suc.IH) simp
  with Suc.prems show ?case
    by (simp add: take_Suc_conv_app_nth)
qed

lemma length_zero_range [simp]: "length (zero_range m a n) = length m"
  by (induction n arbitrary: m a) auto

text \<open>
  A word up to the first delimiter that is not preceded by the quote character: the delimiter and the
  run of white space after it are overwritten with NULs, and the cursor is after that run.
\<close>

lemma est_strcspn_word:
  assumes "length (w @ d # rest) \<le> RSIZE_MAX_STR" and "length delims \<le> RSIZE_MAX_STR"
    and "NUL \<notin> set w" and "set w \<inter> set (cstr delims) = {}" and "d \<in> set (cstr delims) \<or> d = NUL"
  shows "est_strcspn (w @ d # rest) delims = length w"
proof -
  have "takeWhile (\<lambda>c. c \<notin> set (cstr delims)) w = w"
    using assms(4) by (auto simp: takeWhile_eq_all_conv)
  then show ?thesis
    using assms by (subst est_strcspn_eq) (auto simp: cstr_append takeWhile_append)
qed

lemma skip_quoted_word:
  assumes "length (pre @ w @ d # ws @ post) \<le> RSIZE_MAX_STR" and "length delims \<le> RSIZE_MAX_STR"
    and "length white \<le> RSIZE_MAX_STR"
    and "NUL \<notin> set w" and "set w \<inter> set (cstr delims) = {}" and "w \<noteq> [] \<Longrightarrow> last w \<noteq> quotechar"
    and "d \<in> set (cstr delims)" and "set ws \<subseteq> set (cstr white)" and "hd0 post \<notin> set (cstr white)"
  shows "skip_quoted (pre @ w @ d # ws @ post) (length pre) delims white quotechar =
    Some (pre @ w @ NUL # replicate (length ws) NUL @ post, length pre + length w + 1 + length ws, length pre)"
proof -
  let ?m = "pre @ w @ d # ws @ post" and ?e = "length pre + length w"
  have d: "d \<noteq> NUL" and wsn: "NUL \<notin> set ws"
    using assms(7,8) cstr_no_nul [of delims] cstr_no_nul [of white] by auto
  have span: "est_strcspn (w @ d # ws @ post) delims = length w"
    using assms(1,2,4,5,7) by (intro est_strcspn_word) auto
  have wspan: "est_strspn (ws @ post) white = length ws"
  proof -
    have "takeWhile (\<lambda>c. c \<in> set (cstr white)) (cstr post) = []"
      using assms(9) by (cases post) auto
    then show ?thesis
      using assms(1,3,8) wsn by (subst est_strspn_eq) (auto simp: cstr_append takeWhile_append)
  qed
  have loop: "skip_quoted_loop ?m (?e - 1) ?e delims quotechar = Some (?m, ?e - 1, ?e)" if "w \<noteq> []"
  proof -
    obtain w' x where w: "w = w' @ [x]" using \<open>w \<noteq> []\<close> by (cases w rule: rev_cases) auto
    then have "rd ?m (?e - 1) = Some x" and "x \<noteq> quotechar"
      using assms(6) that by (auto simp: rd_def nth_append)
    then show ?thesis by (subst skip_quoted_loop.simps) (simp add: rd_def nth_append)
  qed
  have "zero_range ?m ?e (Suc (length ws)) = pre @ w @ NUL # replicate (length ws) NUL @ post"
    by (subst zero_range_eq) auto
  moreover have "rd ?m ?e = Some d" by (simp add: rd_def nth_append)
  ultimately show ?thesis
    using d span wspan loop by (cases "w = []") (simp_all add: skip_quoted_def Let_def)
qed

lemma skip_word:
  assumes "length (pre @ w @ d # ws @ post) \<le> RSIZE_MAX_STR" and "length delims \<le> RSIZE_MAX_STR"
    and "NUL \<notin> set w" and "set w \<inter> set (cstr delims) = {}"
    and "d \<in> set (cstr delims)" and "set ws \<subseteq> set (cstr delims)" and "hd0 post \<notin> set (cstr delims)"
  shows "skip (pre @ w @ d # ws @ post) (length pre) delims =
    Some (pre @ w @ NUL # replicate (length ws) NUL @ post, length pre + length w + 1 + length ws, length pre)"
proof -
  have "last w \<noteq> NUL" if "w \<noteq> []" using assms(3) that last_in_set by metis
  then show ?thesis unfolding skip_def using assms by (intro skip_quoted_word) auto
qed

text \<open>A word that ends with the string: the cursor stays on the terminator.\<close>

lemma skip_quoted_last:
  assumes "length (pre @ w @ NUL # post) \<le> RSIZE_MAX_STR" and "length delims \<le> RSIZE_MAX_STR"
    and "NUL \<notin> set w" and "set w \<inter> set (cstr delims) = {}" and "w \<noteq> [] \<Longrightarrow> last w \<noteq> quotechar"
  shows "skip_quoted (pre @ w @ NUL # post) (length pre) delims white quotechar =
    Some (pre @ w @ NUL # post, length pre + length w, length pre)"
proof -
  let ?m = "pre @ w @ NUL # post" and ?e = "length pre + length w"
  have span: "est_strcspn (w @ NUL # post) delims = length w"
    using assms(1-4) by (intro est_strcspn_word) auto
  have loop: "skip_quoted_loop ?m (?e - 1) ?e delims quotechar = Some (?m, ?e - 1, ?e)" if "w \<noteq> []"
  proof -
    obtain w' x where w: "w = w' @ [x]" using \<open>w \<noteq> []\<close> by (cases w rule: rev_cases) auto
    then have "rd ?m (?e - 1) = Some x" and "x \<noteq> quotechar"
      using assms(5) that by (auto simp: rd_def nth_append)
    then show ?thesis by (subst skip_quoted_loop.simps) (simp add: rd_def nth_append)
  qed
  have "rd ?m ?e = Some NUL" by (simp add: rd_def nth_append)
  then show ?thesis
    using span loop by (cases "w = []") (simp_all add: skip_quoted_def Let_def)
qed

section \<open>Progress of the cursor\<close>

lemma skip_quoted_loop_mono:
  "skip_quoted_loop m p e d q = Some (m', p', e') \<Longrightarrow> e \<le> e' \<and> length m' = length m"
proof (induction m p e d q rule: skip_quoted_loop.induct)
  case (1 m p e d q)
  from 1(2) obtain pc ec where c: "rd m p = Some pc" "rd m e = Some ec"
    by (subst (asm) skip_quoted_loop.simps) (auto split: option.splits)
  show ?case
  proof (cases "pc \<noteq> q \<or> ec = NUL")
    case True
    with 1(2) c show ?thesis by (subst (asm) skip_quoted_loop.simps) (auto split: if_splits)
  next
    case False
    let ?off = "est_strcspn (drop (e + 1) m) d"
    from 1(2) c False obtain m1 x where
      mv: "memmove_s m (Some p) (?off + 1) (Some e) (?off + 1) = Some (m1, x)"
      and rec: "skip_quoted_loop m1 (p + ?off) (e + ?off + 1) d q = Some (m', p', e')"
      by (subst (asm) skip_quoted_loop.simps) (auto simp: Let_def split: option.splits)
    have "e + ?off + 1 \<le> e' \<and> length m' = length m1"
      using 1(1) c mv rec False by fastforce
    then show ?thesis using memmove_s_length [OF mv] by simp
  qed
qed

text \<open>The cursor never moves back, and stands still only at the end of the string.\<close>

lemma skip_quoted_progress:
  assumes "skip_quoted m b d w q = Some (m', s, b')"
  shows "b' = b \<and> b \<le> s \<and> length m' = length m \<and> (s = b \<longrightarrow> m' = m \<and> rd m b = Some NUL)"
  using assms
  by (auto simp: skip_quoted_def Let_def bind_eq_Some_conv dest!: skip_quoted_loop_mono split: if_splits)

end
