(* ===== verification/Http_Util.thy ===== *)
theory Http_Util
  imports Est_Strings
begin

text \<open>
  The string-level functions of the embedded HTTP server, \<^verbatim>\<open>src/src/est/est_server_http.c\<close>:
  case-insensitive comparison, header lookup, the keep-alive decision, detection of a complete
  request, percent-decoding and the clean-up of paths.
\<close>

section \<open>Definitions\<close>

definition lowercase :: "char \<Rightarrow> int" where
  "lowercase c = int (uchr (tolower c))"

fun mg_strncasecmp :: "string \<Rightarrow> string \<Rightarrow> nat \<Rightarrow> int" where
  "mg_strncasecmp s1 s2 0 = 0"
| "mg_strncasecmp s1 s2 (Suc n) =
     (let diff = lowercase (hd0 s1) - lowercase (hd0 s2) in
      if diff = 0 \<and> hd0 s1 \<noteq> NUL \<and> 0 < n then mg_strncasecmp (tl s1) (tl s2) n else diff)"

fun mg_strcasecmp :: "string \<Rightarrow> string \<Rightarrow> int" where
  "mg_strcasecmp [] s2 = lowercase NUL - lowercase (hd0 s2)"
| "mg_strcasecmp (c # s1) s2 =
     (let diff = lowercase c - lowercase (hd0 s2) in
      if diff = 0 \<and> c \<noteq> NUL then mg_strcasecmp s1 (tl s2) else diff)"

text \<open>
  \<^verbatim>\<open>struct mg_request_info\<close> as the handlers see it: the strings at its pointers. \<open>http_headers\<close> are the
  first \<^verbatim>\<open>num_headers\<close> entries of the array.
\<close>

record mg_request_info =
  request_method :: "string option"
  uri :: "string option"
  http_version :: "string option"
  query_string :: "string option"
  http_headers :: "(string \<times> string) list"

definition get_header :: "mg_request_info \<Rightarrow> string \<Rightarrow> string option" where
  "get_header ri name = kw_find mg_strcasecmp name (http_headers ri)"

text \<open>\<^verbatim>\<open>struct mg_connection\<close>, without the socket; \<^verbatim>\<open>enable_keepalives\<close> is a field of its context.\<close>

record mg_connection =
  request_info :: mg_request_info
  must_close :: bool
  status_code :: int
  enable_keepalives :: bool
  content_len :: int
  request_len :: int
  data_len :: nat
  conn_buf :: mem
  user_id :: string

definition mg_get_header :: "mg_connection \<Rightarrow> string \<Rightarrow> string option" where
  "mg_get_header conn name = get_header (request_info conn) name"

definition should_keep_alive :: "mg_connection \<Rightarrow> bool" where
  "should_keep_alive conn =
     (let version = http_version (request_info conn);
          header = mg_get_header conn ''Connection'' in
      \<not> (must_close conn \<or> status_code conn = 202 \<or> status_code conn \<ge> 400
          \<or> \<not> enable_keepalives conn
          \<or> (case header of Some h \<Rightarrow> mg_strcasecmp h ''keep-alive'' \<noteq> 0 | None \<Rightarrow> False)
          \<or> (header = None \<and> (case version of Some v \<Rightarrow> strncmp v ''1.1'' 3 \<noteq> 0 | None \<Rightarrow> False))))"

definition suggest_connection_header :: "mg_connection \<Rightarrow> string" where
  "suggest_connection_header conn = (if should_keep_alive conn then ''keep-alive'' else ''close'')"

definition isprint :: "char \<Rightarrow> bool" where
  "isprint c \<longleftrightarrow> 32 \<le> uchr c \<and> uchr c \<le> 126"

definition request_char :: "char \<Rightarrow> bool" where
  "request_char c \<longleftrightarrow> isprint c \<or> c = CR \<or> c = LF \<or> 128 \<le> uchr c"

text \<open>
  The scan of \<^verbatim>\<open>get_request_len\<close>: the list is the buffer from \<^verbatim>\<open>s\<close> on, so that the loop condition
  \<^verbatim>\<open>s < e\<close> holds when it has two bytes, and \<^verbatim>\<open>&s[1] < e\<close> when it has three.
\<close>

fun get_request_len_loop :: "string \<Rightarrow> nat \<Rightarrow> int" where
  "get_request_len_loop (c # d # s) i =
     (if \<not> request_char c then -1
      else if c = LF \<and> d = LF then int i + 2
      else if c = LF \<and> s \<noteq> [] \<and> d = CR \<and> hd0 s = LF then int i + 3
      else get_request_len_loop (d # s) (Suc i))"
| "get_request_len_loop s i = 0"

definition get_request_len :: "mem \<Rightarrow> nat \<Rightarrow> int" where
  "get_request_len buf buflen = get_request_len_loop (take buflen buf) 0"

text \<open>
  \<^verbatim>\<open>url_decode\<close> over one memory, because its only caller decodes in place: \<open>src\<close> and \<open>dst\<close> are
  addresses. \<open>hextoi\<close> is the macro \<^verbatim>\<open>HEXTOI\<close> on a lower-case digit.
\<close>

definition hextoi :: "char \<Rightarrow> nat" where
  "hextoi x = (if isdigit x then uchr x - 48 else uchr x - 87)"

definition hex_pair :: "char \<Rightarrow> char \<Rightarrow> char" where
  "hex_pair a b = char_of (hextoi (tolower a) * 16 + hextoi (tolower b))"

text \<open>The test for an escape at an address; a byte is read only when the ones before it fit.\<close>

definition pct_at :: "mem \<Rightarrow> nat \<Rightarrow> char option option" where
  "pct_at m p =
     do { c \<leftarrow> rd m p;
          if c = CHR ''%'' then
            do { a \<leftarrow> rd m (Suc p);
                 if isxdigit a then
                   do { b \<leftarrow> rd m (Suc (Suc p));
                        Some (if isxdigit b then Some (hex_pair a b) else None) }
                 else Some None }
          else Some None }"

function url_decode_loop ::
  "mem \<Rightarrow> nat \<Rightarrow> nat \<Rightarrow> nat \<Rightarrow> nat \<Rightarrow> bool \<Rightarrow> nat \<Rightarrow> nat \<Rightarrow> (mem \<times> nat \<times> nat) option" where
  "url_decode_loop m src src_len dst dst_len form i j =
     (if i < src_len \<and> j + 1 < dst_len then
        do { c \<leftarrow> rd m (src + i);
             pct \<leftarrow> pct_at m (src + i);
             (case pct of
                Some x \<Rightarrow> do { m' \<leftarrow> wr m (dst + j) x;
                               url_decode_loop m' src src_len dst dst_len form (i + 3) (j + 1) }
              | None \<Rightarrow> do { m' \<leftarrow> wr m (dst + j) (if form \<and> c = CHR ''+'' then CHR '' '' else c);
                             url_decode_loop m' src src_len dst dst_len form (i + 1) (j + 1) }) }
      else Some (m, i, j))"
  by pat_completeness auto
termination
  by (relation "measure (\<lambda>(m, src, src_len, dst, dst_len, form, i, j). src_len - i)") auto

declare url_decode_loop.simps [simp del]

definition url_decode ::
  "mem \<Rightarrow> nat \<Rightarrow> nat \<Rightarrow> nat \<Rightarrow> nat \<Rightarrow> bool \<Rightarrow> (mem \<times> int) option" where
  "url_decode m src src_len dst dst_len form =
     do { (m', i, j) \<leftarrow> url_decode_loop m src src_len dst dst_len form 0 0;
          m'' \<leftarrow> wr m' (dst + j) NUL;
          Some (m'', if i \<ge> src_len then int j else -1) }"

text \<open>\<^verbatim>\<open>remove_double_dots_and_double_slashes\<close> on the bytes before the terminator.\<close>

definition is_slash :: "char \<Rightarrow> bool" where
  "is_slash c \<longleftrightarrow> c = CHR ''/'' \<or> c = CHR 0x5C"

fun skip_dots_slashes :: "string \<Rightarrow> string" where
  "skip_dots_slashes [] = []"
| "skip_dots_slashes (c # s) =
     (if is_slash c then skip_dots_slashes s
      else if c = CHR ''.'' \<and> hd0 s = CHR ''.'' then skip_dots_slashes (tl s)
      else c # s)"

lemma skip_dots_slashes_length: "length (skip_dots_slashes s) \<le> length s"
proof (induction s rule: skip_dots_slashes.induct)
  case (2 c s)
  then show ?case using length_tl [of s] by auto
qed simp

function remove_double_dots_and_double_slashes :: "string \<Rightarrow> string" where
  "remove_double_dots_and_double_slashes [] = []"
| "remove_double_dots_and_double_slashes (c # s) =
     c # remove_double_dots_and_double_slashes (if is_slash c then skip_dots_slashes s else s)"
  by pat_completeness auto
termination
  by (relation "measure length") (auto simp: le_imp_less_Suc skip_dots_slashes_length)

definition is_valid_http_method :: "string \<Rightarrow> bool" where
  "is_valid_http_method method \<longleftrightarrow> strncmp method ''GET'' 3 = 0 \<or> strncmp method ''POST'' 4 = 0"

definition is_valid_uri :: "string \<Rightarrow> bool" where
  "is_valid_uri u \<longleftrightarrow> at u 0 = CHR ''/'' \<or> (at u 0 = CHR ''*'' \<and> at u 1 = NUL)"

section \<open>Comparison and header lookup\<close>

lemma uchr_toupper: "uchr (toupper c) = (if 97 \<le> uchr c \<and> uchr c \<le> 122 then uchr c - 32 else uchr c)"
  by (auto simp: toupper_def uchr_def)

lemma uchr_tolower: "uchr (tolower c) = (if 65 \<le> uchr c \<and> uchr c \<le> 90 then uchr c + 32 else uchr c)"
  by (auto simp: tolower_def uchr_def)

lemma tolower_eq_iff: "tolower a = tolower b \<longleftrightarrow> toupper a = toupper b"
proof -
  have "uchr (tolower a) = uchr (tolower b) \<longleftrightarrow> uchr (toupper a) = uchr (toupper b)"
    unfolding uchr_toupper uchr_tolower by (auto simp del: uchr_inj)
  then show ?thesis by simp
qed

lemma lowercase_eq_iff [simp]: "lowercase a = lowercase b \<longleftrightarrow> toupper a = toupper b"
  by (simp add: lowercase_def tolower_eq_iff)

lemma mg_strcasecmp_eq_0: "mg_strcasecmp s t = 0 \<longleftrightarrow> map toupper (cstr s) = map toupper (cstr t)"
proof (induction s t rule: mg_strcasecmp.induct)
  case (1 s2)
  then show ?case by (cases s2) auto
next
  case (2 c s1 s2)
  then show ?case by (cases s2) (auto simp: Let_def)
qed

interpretation mg_cmp: ci_compare mg_strcasecmp "\<lambda>_. True"
  by unfold_locales (rule mg_strcasecmp_eq_0)

lemma mg_strncasecmp_eq_0:
  "mg_strncasecmp s t n = 0 \<longleftrightarrow> take n (map toupper (cstr s)) = take n (map toupper (cstr t))"
proof (induction s t n rule: mg_strncasecmp.induct)
  case (2 s1 s2 n)
  have "mg_strncasecmp s1 s2 (Suc n) = 0 \<longleftrightarrow> toupper (hd0 s1) = toupper (hd0 s2)
      \<and> (hd0 s1 \<noteq> NUL \<and> 0 < n \<longrightarrow> mg_strncasecmp (tl s1) (tl s2) n = 0)"
    by (auto simp: Let_def)
  with 2 show ?case
    by (cases s1; cases s2; cases n) (auto simp: Let_def simp del: mg_strncasecmp.simps(2))
qed simp

lemma get_header_first:
  "get_header (ri\<lparr>http_headers := pre @ (k, v) # post\<rparr>) name = Some v"
  if "map toupper (cstr name) = map toupper (cstr k)"
    and "\<forall>(k', v') \<in> set pre. map toupper (cstr name) \<noteq> map toupper (cstr k')"
  using that(2)
proof (induction pre)
  case Nil
  then show ?case using that(1) by (simp add: get_header_def mg_strcasecmp_eq_0)
next
  case (Cons kv pre)
  then show ?case by (cases kv) (auto simp: get_header_def mg_strcasecmp_eq_0)
qed

section \<open>Complete requests\<close>

lemma get_request_len_loop_extend:
  "get_request_len_loop s i \<noteq> 0 \<Longrightarrow> get_request_len_loop (s @ t) i = get_request_len_loop s i"
proof (induction s i rule: get_request_len_loop.induct)
  case (1 c d s i)
  then show ?case by (cases s) (auto split: if_splits)
qed auto

lemma get_request_len_loop_pos:
  assumes "get_request_len_loop s i > 0"
  shows "\<exists>k. get_request_len_loop s i = int (i + k) \<and> 2 \<le> k \<and> k \<le> length s
    \<and> (\<forall>c \<in> set (take k s). request_char c) \<and> s ! (k - 1) = LF
    \<and> (s ! (k - 2) = LF \<or> (3 \<le> k \<and> s ! (k - 2) = CR \<and> s ! (k - 3) = LF))"
  using assms
proof (induction s i rule: get_request_len_loop.induct)
  case (1 c d s i)
  have rc: "request_char LF" "request_char CR" by (simp_all add: request_char_def)
  consider "\<not> request_char c" | "request_char c" "c = LF" "d = LF"
    | s' where "request_char c" "c = LF" "d = CR" "s = LF # s'"
    | "request_char c" "\<not> (c = LF \<and> d = LF)" "\<not> (c = LF \<and> s \<noteq> [] \<and> d = CR \<and> hd0 s = LF)"
    by (cases s) auto
  then show ?case
  proof cases
    case 1
    then show ?thesis using "1.prems" by simp
  next
    case 2
    then show ?thesis by (intro exI [of _ 2]) (simp add: rc)
  next
    case 3
    then show ?thesis by (intro exI [of _ 3]) (simp add: rc numeral_3_eq_3 numeral_2_eq_2)
  next
    case 4
    then have next_step: "get_request_len_loop (c # d # s) i = get_request_len_loop (d # s) (Suc i)"
      by (simp only: get_request_len_loop.simps(1) if_False simp_thms)
    with 1(1) [of] 4 1(2) obtain k where len: "get_request_len_loop (d # s) (Suc i) = int (Suc i + k)"
      and k: "2 \<le> k" "k \<le> length (d # s)"
      "\<forall>c \<in> set (take k (d # s)). request_char c" "(d # s) ! (k - 1) = LF"
      "(d # s) ! (k - 2) = LF \<or> (3 \<le> k \<and> (d # s) ! (k - 2) = CR \<and> (d # s) ! (k - 3) = LF)"
      by auto
    have shift: "(c # d # s) ! (Suc k - n) = (d # s) ! (k - n)" if "n \<le> k" for n
      using that by (simp add: Suc_diff_le)
    have "get_request_len_loop (c # d # s) i = int (i + Suc k)"
      using next_step len by (simp del: get_request_len_loop.simps)
    moreover have "(c # d # s) ! (Suc k - 2) = LF
        \<or> (3 \<le> Suc k \<and> (c # d # s) ! (Suc k - 2) = CR \<and> (c # d # s) ! (Suc k - 3) = LF)"
      using k(1,5) shift [of 2] shift [of 3] by auto
    moreover have "(c # d # s) ! (Suc k - 1) = LF"
      using k(1,4) shift [of 1] by simp
    ultimately show ?thesis using k 4(1) by (intro exI [of _ "Suc k"]) simp
  qed
qed auto

section \<open>Path clean-up\<close>

fun path_ok :: "string \<Rightarrow> bool" where
  "path_ok (c # s) \<longleftrightarrow> (is_slash c \<longrightarrow> \<not> is_slash (hd0 s) \<and> \<not> (hd0 s = CHR ''.'' \<and> at s 1 = CHR ''.'')) \<and> path_ok s"
| "path_ok [] \<longleftrightarrow> True"

lemma skip_dots_slashes_head:
  "\<not> is_slash (hd0 (skip_dots_slashes s))
   \<and> \<not> (hd0 (skip_dots_slashes s) = CHR ''.'' \<and> at (skip_dots_slashes s) 1 = CHR ''.'')"
  by (induction s rule: skip_dots_slashes.induct) (auto simp: is_slash_def at_def hd0_def split: list.splits)

lemma at_Suc_hd0: "at s (Suc 0) = hd0 (tl s)"
  by (cases s) (auto simp: at_def hd0_def split: list.splits)

lemma remove_head: "hd0 (remove_double_dots_and_double_slashes s) = hd0 s"
  by (cases s) auto

lemma remove_second:
  "\<not> is_slash (hd0 s) \<Longrightarrow> at (remove_double_dots_and_double_slashes s) 1 = at s 1"
  using remove_head by (cases s) (auto simp: at_Suc_hd0)

lemma path_ok_remove: "path_ok (remove_double_dots_and_double_slashes s)"
proof (induction s rule: remove_double_dots_and_double_slashes.induct)
  case (2 c s)
  let ?t = "if is_slash c then skip_dots_slashes s else s"
  have "\<not> is_slash (hd0 ?t) \<and> \<not> (hd0 ?t = CHR ''.'' \<and> at ?t 1 = CHR ''.'')" if "is_slash c"
    using that skip_dots_slashes_head [of s] by simp
  then show ?case
    using 2 by (auto simp: remove_head remove_second [simplified])
qed simp

lemma skip_dots_slashes_id:
  "\<not> is_slash (hd0 s) \<Longrightarrow> \<not> (hd0 s = CHR ''.'' \<and> at s 1 = CHR ''.'') \<Longrightarrow> skip_dots_slashes s = s"
  by (cases s) (auto simp: at_def hd0_def split: list.splits)

lemma path_ok_id: "path_ok s \<Longrightarrow> remove_double_dots_and_double_slashes s = s"
  by (induction s) (auto simp: skip_dots_slashes_id)

section \<open>Percent-decoding in place\<close>

text \<open>The reference: a list function without buffer, index or bound.\<close>

fun pct_decode :: "string \<Rightarrow> string" where
  "pct_decode [] = []"
| "pct_decode (c # s) =
     (if c = CHR ''%'' \<and> isxdigit (hd0 s) \<and> isxdigit (at s 1)
      then hex_pair (hd0 s) (at s 1) # pct_decode (drop 2 s) else c # pct_decode s)"

lemma rd_append2 [mem_simps]: "rd (a @ b @ c) (length a + length b + k) = rd c k"
  by (simp add: rd_def nth_append)

lemma rd_Cons [mem_simps]: "rd (c # s) 0 = Some c" "rd (c # s) (Suc k) = rd s k"
  by (simp_all add: rd_def)

lemma wr_append [mem_simps]: "wr (a @ y # b) (length a) x = Some (a @ x # b)"
  by (simp add: wr_def list_update_append)

lemma not_isxdigit_NUL [simp]: "\<not> isxdigit NUL"
  by (simp add: isxdigit_def isdigit_def uchr_def)

lemma pct_decode_length: "length (pct_decode s) \<le> length s"
  by (induction s rule: pct_decode.induct) auto

lemma url_decode_loop_step:
  assumes "length pre = src + j" and "length gap = i - j" and "j \<le> i" and "i < src_len" and "j + 1 < dst_len"
    and "\<not> (c = CHR ''%'' \<and> isxdigit (hd0 rest) \<and> isxdigit (at rest 1))" and "NUL \<in> set rest"
  shows "url_decode_loop (pre @ gap @ c # rest) src src_len src dst_len False i j =
    url_decode_loop ((pre @ [c]) @ tl (gap @ [c]) @ rest) src src_len src dst_len False (i + 1) (j + 1)"
proof -
  let ?m = "pre @ gap @ c # rest"
  have addr: "src + i = length pre + length gap" using assms(1-3) by simp
  have r: "rd ?m (src + i) = Some c" "rd ?m (Suc (src + i)) = rd rest 0" "rd ?m (Suc (Suc (src + i))) = rd rest 1"
    using rd_append2 [of pre gap "c # rest" 0] rd_append2 [of pre gap "c # rest" 1] rd_append2 [of pre gap "c # rest" 2]
    by (simp_all add: addr mem_simps numeral_2_eq_2)
  obtain y ys where y: "gap @ [c] = y # ys" by (cases "gap @ [c]") auto
  then have m: "?m = pre @ y # ys @ rest" by (metis append_Cons append_Nil append_assoc)
  have w: "wr ?m (src + j) c = Some ((pre @ [c]) @ tl (gap @ [c]) @ rest)"
    unfolding m assms(1) [symmetric] wr_append by (simp add: y)
  obtain d rest' where rest: "rest = d # rest'" using assms(7) by (cases rest) auto
  then have "rest' \<noteq> []" if "isxdigit d" using assms(7) that by (cases rest') auto
  moreover have "rd rest 0 = Some d" "rest' \<noteq> [] \<Longrightarrow> rd rest 1 = Some (at rest 1)"
    using rest by (simp_all add: rd_def at_def)
  ultimately have pct: "pct_at ?m (src + i) = Some None"
    using assms(6) rest unfolding pct_at_def r by (cases "isxdigit d") simp_all
  show ?thesis
    using assms(4,5) by (subst url_decode_loop.simps) (simp add: pct r(1) w)
qed

lemma url_decode_loop_pct:
  assumes "length pre = src + j" and "length gap = i - j" and "j \<le> i" and "i < src_len" and "j + 1 < dst_len"
    and "isxdigit a" and "isxdigit b"
  shows "url_decode_loop (pre @ gap @ CHR ''%'' # a # b # rest) src src_len src dst_len False i j =
    url_decode_loop ((pre @ [hex_pair a b]) @ tl (gap @ [CHR ''%'', a, b]) @ rest) src src_len src dst_len False (i + 3) (j + 1)"
proof -
  let ?m = "pre @ gap @ CHR ''%'' # a # b # rest"
  have addr: "src + i = length pre + length gap" using assms(1-3) by simp
  have r: "rd ?m (src + i) = Some CHR ''%''" "rd ?m (Suc (src + i)) = Some a" "rd ?m (Suc (Suc (src + i))) = Some b"
    using rd_append2 [of pre gap "CHR ''%'' # a # b # rest" 0] rd_append2 [of pre gap "CHR ''%'' # a # b # rest" 1]
      rd_append2 [of pre gap "CHR ''%'' # a # b # rest" 2]
    by (simp_all add: addr mem_simps numeral_2_eq_2)
  obtain y ys where y: "gap @ [CHR ''%'', a, b] = y # ys" by (cases "gap @ [CHR ''%'', a, b]") auto
  then have m: "?m = pre @ y # ys @ rest" by (metis append_Cons append_Nil append_assoc)
  have w: "wr ?m (src + j) (hex_pair a b) = Some ((pre @ [hex_pair a b]) @ tl (gap @ [CHR ''%'', a, b]) @ rest)"
    unfolding m assms(1) [symmetric] wr_append by (simp add: y)
  have "pct_at ?m (src + i) = Some (Some (hex_pair a b))"
    using assms(6,7) unfolding pct_at_def r by simp
  then show ?thesis
    using assms(4-7) by (subst url_decode_loop.simps) (simp add: r w)
qed

lemma url_decode_loop_in_place:
  assumes "length pre = src + j" and "length gap = i - j" and "j \<le> i"
  shows "\<exists>gap'. length gap' = length gap + length rest - length (pct_decode rest)
    \<and> url_decode_loop (pre @ gap @ rest @ NUL # post) src (i + length rest) src (Suc (i + length rest)) False i j =
       Some (pre @ pct_decode rest @ gap' @ NUL # post, i + length rest, j + length (pct_decode rest))"
  using assms
proof (induction rest arbitrary: pre gap i j rule: pct_decode.induct)
  case 1
  then show ?case by (intro exI [of _ gap]) (subst url_decode_loop.simps, simp)
next
  case (2 c s)
  show ?case
  proof (cases "c = CHR ''%'' \<and> isxdigit (hd0 s) \<and> isxdigit (at s 1)")
    case True
    then obtain a b t where s: "s = a # b # t"
      by (cases s; cases "tl s") (auto simp: at_def)
    let ?p = "pre @ [hex_pair a b]" and ?g = "tl (gap @ [c, a, b])"
    have "length ?p = src + (j + 1)" "length ?g = (i + 3) - (j + 1)" "j + 1 \<le> i + 3"
      using "2.prems" by simp_all
    from 2(1) [OF True this] s obtain gap' where "length gap' = length ?g + length t - length (pct_decode t)"
      "url_decode_loop (?p @ ?g @ t @ NUL # post) src (i + 3 + length t) src (Suc (i + 3 + length t)) False (i + 3) (j + 1) =
         Some (?p @ pct_decode t @ gap' @ NUL # post, i + 3 + length t, j + 1 + length (pct_decode t))"
      by auto
    then show ?thesis
      using True "2.prems" s pct_decode_length [of t]
        url_decode_loop_pct [of pre src j gap i "i + length (c # s)" "Suc (i + length (c # s))" a b "t @ NUL # post"]
      by (intro exI [of _ gap']) (simp add: numeral_eq_Suc)
  next
    case False
    let ?p = "pre @ [c]" and ?g = "tl (gap @ [c])"
    have "length ?p = src + (j + 1)" "length ?g = (i + 1) - (j + 1)" "j + 1 \<le> i + 1"
      using "2.prems" by simp_all
    from 2(2) [OF False this] obtain gap' where "length gap' = length ?g + length s - length (pct_decode s)"
      "url_decode_loop (?p @ ?g @ s @ NUL # post) src (i + 1 + length s) src (Suc (i + 1 + length s)) False (i + 1) (j + 1) =
         Some (?p @ pct_decode s @ gap' @ NUL # post, i + 1 + length s, j + 1 + length (pct_decode s))"
      by blast
    moreover have "pct_decode (c # s) = c # pct_decode s" using False by auto
    moreover have "\<not> (c = CHR ''%'' \<and> isxdigit (hd0 (s @ NUL # post)) \<and> isxdigit (at (s @ NUL # post) 1))"
      using False by (cases s; cases "tl s") (auto simp: at_def)
    ultimately show ?thesis
      using "2.prems" pct_decode_length [of s]
        url_decode_loop_step [of pre src j gap i "i + length (c # s)" "Suc (i + length (c # s))" c "s @ NUL # post"]
      by (intro exI [of _ gap']) (simp del: pct_decode.simps)
  qed
qed

section \<open>Properties\<close>

text \<open>\<^verbatim>\<open>get_request_len\<close> can be used incrementally, as \<^verbatim>\<open>read_request\<close> does: a verdict (malformed, or a
  length) reached on a part of the data is the verdict on any longer buffer; and a positive length is
  the position after a blank line, with only permitted bytes before it.\<close>

theorem get_request_len_incremental:
  assumes "k \<le> n" and "get_request_len b k \<noteq> 0"
  shows "get_request_len b n = get_request_len b k
    \<and> (0 < get_request_len b k \<longrightarrow>
        (\<exists>l. get_request_len b k = int l \<and> 2 \<le> l \<and> l \<le> min k (length b) \<and> list_all request_char (take l b)
          \<and> b ! (l - 1) = LF \<and> (b ! (l - 2) = LF \<or> (3 \<le> l \<and> b ! (l - 2) = CR \<and> b ! (l - 3) = LF))))"
proof -
  have "take n b = take k b @ take (n - k) (drop k b)"
    using assms(1) by (metis le_add_diff_inverse take_add)
  then have "get_request_len b n = get_request_len b k"
    using assms(2) by (simp add: get_request_len_def get_request_len_loop_extend)
  moreover have "\<exists>l. get_request_len b k = int l \<and> 2 \<le> l \<and> l \<le> min k (length b) \<and> list_all request_char (take l b)
      \<and> b ! (l - 1) = LF \<and> (b ! (l - 2) = LF \<or> (3 \<le> l \<and> b ! (l - 2) = CR \<and> b ! (l - 3) = LF))"
    if "0 < get_request_len b k"
    using get_request_len_loop_pos [OF that [unfolded get_request_len_def]]
    by (fastforce simp: get_request_len_def list_all_iff min_def split: if_splits)
  ultimately show ?thesis by blast
qed

theorem get_request_len_incremental_witness:
  "get_request_len (''GET'' @ [CR, LF, CR, LF] @ ''xy'') 9 = get_request_len (''GET'' @ [CR, LF, CR, LF] @ ''xy'') 7
   \<and> get_request_len (''GET'' @ [CR, LF, CR, LF] @ ''xy'') 7 = 7"
proof -
  have "get_request_len (''GET'' @ [CR, LF, CR, LF] @ ''xy'') 7 = 7" by code_simp
  then show ?thesis using get_request_len_incremental [of 7 9 "''GET'' @ [CR, LF, CR, LF] @ ''xy''"] by simp
qed

text \<open>C39: after \<^verbatim>\<open>remove_double_dots_and_double_slashes\<close> no slash or backslash of the path is followed by
  another one or by two dots, a path that was already clean is unchanged, and the first byte stays.\<close>

theorem remove_double_dots_and_double_slashes_correct:
  "path_ok (remove_double_dots_and_double_slashes s)
   \<and> (remove_double_dots_and_double_slashes s = s \<longleftrightarrow> path_ok s)
   \<and> hd0 (remove_double_dots_and_double_slashes s) = hd0 s"
  using path_ok_remove path_ok_id remove_head by metis

text \<open>\<^verbatim>\<open>url_decode\<close> of a string in place, as \<^verbatim>\<open>handle_request\<close> calls it, reads and writes only the
  string and its terminator, and leaves there the percent-decoding of the string, terminated.\<close>

theorem url_decode_in_place:
  assumes "length pre = src"
  shows "\<exists>gap. length gap = length u - length (pct_decode u)
    \<and> url_decode (pre @ u @ NUL # post) src (length u) src (length u + 1) False =
       Some (pre @ pct_decode u @ (if gap = [] then NUL # post else NUL # tl gap @ NUL # post), int (length (pct_decode u)))"
proof -
  from url_decode_loop_in_place [of pre src 0 "[]" 0 u post] assms obtain gap
    where g: "length gap = length u - length (pct_decode u)"
      and "url_decode_loop (pre @ u @ NUL # post) src (length u) src (Suc (length u)) False 0 0 =
        Some (pre @ pct_decode u @ gap @ NUL # post, length u, length (pct_decode u))"
    by auto
  moreover obtain y ys where y: "gap @ NUL # post = y # ys" by (cases "gap @ NUL # post") auto
  moreover have "NUL # ys = (if gap = [] then NUL # post else NUL # tl gap @ NUL # post)"
    using y by (cases gap) auto
  ultimately show ?thesis
    using assms wr_append [of "pre @ pct_decode u" y ys NUL]
    by (intro exI [of _ gap]) (simp add: url_decode_def)
qed

theorem url_decode_in_place_witness:
  "\<exists>gap. length gap = length ''%7Ea'' - length (pct_decode ''%7Ea'')
    \<and> url_decode (''>'' @ ''%7Ea'' @ NUL # ''z'') 1 (length ''%7Ea'') 1 (length ''%7Ea'' + 1) False =
       Some (''>'' @ pct_decode ''%7Ea'' @ (if gap = [] then NUL # ''z'' else NUL # tl gap @ NUL # ''z''),
         int (length (pct_decode ''%7Ea'')))"
  using url_decode_in_place [of "''>''" 1 "''%7Ea''" "''z''"] by simp

end
