(* ===== verification/Est_Codec.thy ===== *)
theory Est_Codec
  imports Safe_Lib
begin

text \<open>
  The encoding helpers of \<^verbatim>\<open>src/src/est/est.c\<close>: base64 on top of OpenSSL's BIO chain, and
  hexadecimal. The BIO is a parameter: \<open>bio_read no_nl src\<close> are the bytes the decoding chain
  yields for a buffer, \<open>bio_write no_nl src\<close> the text the encoding chain produces. Allocation
  failures of the BIO are not modelled. Sizes are the C \<^verbatim>\<open>int\<close>s of the code, as \<^typ>\<open>int\<close>.
\<close>

section \<open>Base64\<close>

text \<open>State of the scan: number of non-blank bytes, index of the first newline, length.\<close>

fun est_base64_scan :: "string \<Rightarrow> nat \<Rightarrow> nat option \<Rightarrow> nat \<Rightarrow> nat \<times> nat option \<times> nat" where
  "est_base64_scan [] no_ws temp i = (no_ws, temp, i)"
| "est_base64_scan (c # s) no_ws temp i =
     (if c = NUL then (no_ws, temp, i)
      else if \<not> isspace c then est_base64_scan s (Suc no_ws) temp (Suc i)
      else if c = LF \<and> temp = None then est_base64_scan s no_ws (Some i) (Suc i)
      else est_base64_scan s no_ws temp (Suc i))"

definition est_base64_str_analyze :: "string \<Rightarrow> nat \<times> nat \<times> bool" where
  "est_base64_str_analyze src =
     (let (len_no_whitespace, temp, i) = est_base64_scan src 0 None 0 in
      (len_no_whitespace, i, (case temp of None \<Rightarrow> False | Some t \<Rightarrow> t \<noteq> i - 1)))"

text \<open>The search for the last non-blank byte; the index can run to -1, where the code reads \<^verbatim>\<open>src[-1]\<close>.\<close>

fun last_non_ws :: "string \<Rightarrow> nat \<Rightarrow> int option" where
  "last_non_ws src 0 = None"
| "last_non_ws src (Suc n) = (if isspace (at src n) then last_non_ws src n else Some (int n))"

text \<open>
  \<open>est_base64_decode bio_read src dst_size\<close> is the returned length with the bytes stored in
  \<^verbatim>\<open>dst\<close>. An outer \<^term>\<open>None\<close> is the read of \<^verbatim>\<open>src[-1]\<close> that happens when the text has no
  non-blank byte.
\<close>

definition est_base64_decode ::
  "(bool \<Rightarrow> string \<Rightarrow> string) \<Rightarrow> string \<Rightarrow> int \<Rightarrow> (int \<times> string) option" where
  "est_base64_decode bio_read src dst_size =
     (let (len_no_whitespace, len, contains_newline) = est_base64_str_analyze src;
          max_in = (if dst_size mod 3 \<noteq> 0 then ((dst_size div 3) + 1) * 4 else (dst_size div 3) * 4) in
      if int len_no_whitespace > max_in then Some (0, [])
      else if len_no_whitespace mod 4 \<noteq> 0 then Some (0, [])
      else (case last_non_ws src len of
          None \<Rightarrow> None
        | Some idx \<Rightarrow>
            if idx < 2 then Some (0, [])
            else (let pad = (if at src (nat idx) = CHR ''='' then
                               (if at src (nat idx - 1) = CHR ''='' then 2 else 1) else 0);
                      expected_decode_len = (3 * int len_no_whitespace) div 4 - pad;
                      dst = take (nat dst_size) (bio_read (\<not> contains_newline) (take len src)) in
                  if int (length dst) \<noteq> expected_decode_len then Some (0, dst)
                  else Some (int (length dst), dst))))"

text \<open>
  \<open>est_base64_encode\<close>: the destination has \<open>length dst\<close> bytes. The copy is bounded by
  \<^verbatim>\<open>max_dst_len\<close>, the write of the terminator is not.
\<close>

definition est_base64_encode ::
  "(bool \<Rightarrow> string \<Rightarrow> string) \<Rightarrow> string \<Rightarrow> mem option \<Rightarrow> nat \<Rightarrow> bool \<Rightarrow> (mem option \<times> nat) option" where
  "est_base64_encode bio_write src dst max_dst_len nl =
     (case dst of None \<Rightarrow> Some (None, 0)
      | Some d \<Rightarrow>
          if length src > (max_dst_len * 3) div 4 + 1 then Some (dst, 0)
          else (let bptr = bio_write (\<not> nl) src in
                if src = [] then Some (dst, 0)
                else do { (d1, _) \<leftarrow> memcpy_s (Some d) max_dst_len (Some bptr) (length bptr);
                          d2 \<leftarrow> d1;
                          d3 \<leftarrow> wr d2 (length bptr) NUL;
                          Some (Some d3, length bptr) }))"

section \<open>Hexadecimal\<close>

definition hex_digit :: "nat \<Rightarrow> char" where
  "hex_digit n = ''0123456789abcdef'' ! n"

fun est_hex_to_str :: "string \<Rightarrow> string" where
  "est_hex_to_str [] = []"
| "est_hex_to_str (b # src) =
     hex_digit (uchr b div 16) # hex_digit (uchr b mod 16) # est_hex_to_str src"

section \<open>What the scan computes\<close>

lemma est_base64_scan_eq:
  "est_base64_scan s n t i =
     (n + length (filter (\<lambda>c. \<not> isspace c) (cstr s)),
      (case t of Some x \<Rightarrow> Some x | None \<Rightarrow> map_option ((+) i) (strchr s LF)),
      i + length (cstr s))"
proof (induction s n t i rule: est_base64_scan.induct)
  case (1 n t i)
  then show ?case by (simp add: strchr_def split: option.splits)
next
  case (2 c s n t i)
  have step: "strchr (c # s) LF = (if c = NUL then None else if c = LF then Some 0 else map_option Suc (strchr s LF))"
    by (simp add: strchr_def Let_def)
  have sp: "isspace LF" by (simp add: isspace_def uchr_def)
  have shift: "map_option ((+) i) (map_option Suc u) = map_option ((+) (Suc i)) u" for u
    by (cases u) auto
  consider "c = NUL" | "c \<noteq> NUL" "\<not> isspace c" "c \<noteq> LF" | "c = LF" "t = None" | "c = LF" "t \<noteq> None"
    | "c \<noteq> NUL" "isspace c" "c \<noteq> LF"
    using sp by blast
  then show ?case
  proof cases
    case 1
    then show ?thesis by (simp add: strchr_def split: option.splits)
  next
    case c: 2
    then show ?thesis by (simp add: step 2(1) shift split: option.split)
  next
    case c: 3
    then show ?thesis using sp by (simp add: step [unfolded c] 2(2))
  next
    case c: 4
    then show ?thesis using sp by (auto simp add: step [unfolded c] 2(3))
  next
    case c: 5
    then show ?thesis by (simp add: step 2(3) shift split: option.split)
  qed
qed

lemma est_base64_str_analyze_eq:
  "est_base64_str_analyze s =
     (length (filter (\<lambda>c. \<not> isspace c) (cstr s)), length (cstr s),
      (case strchr s LF of None \<Rightarrow> False | Some t \<Rightarrow> t \<noteq> length (cstr s) - 1))"
  by (simp add: est_base64_str_analyze_def est_base64_scan_eq split: option.splits)

lemma last_non_ws_None: "last_non_ws s n = None \<longleftrightarrow> (\<forall>i < n. isspace (at s i))"
  by (induction n) (auto simp: less_Suc_eq)

lemma last_non_ws_Some:
  "last_non_ws s n = Some k \<Longrightarrow> 0 \<le> k \<and> nat k < n \<and> \<not> isspace (at s (nat k))"
  by (induction n) (auto split: if_splits)

text \<open>The decoder with the scan replaced by what it computes.\<close>

lemma est_base64_decode_eq:
  assumes "n = length (filter (\<lambda>c. \<not> isspace c) (cstr src))" and "l = length (cstr src)"
  obtains no_nl where "est_base64_decode bio_read src dst_size =
     (if int n > 4 * ((dst_size + 2) div 3) then Some (0, [])
      else if n mod 4 \<noteq> 0 then Some (0, [])
      else (case last_non_ws src l of
          None \<Rightarrow> None
        | Some idx \<Rightarrow>
            if idx < 2 then Some (0, [])
            else (let pad = (if at src (nat idx) = CHR ''='' then
                               (if at src (nat idx - 1) = CHR ''='' then 2 else 1) else 0);
                      expected_decode_len = (3 * int n) div 4 - pad;
                      dst = take (nat dst_size) (bio_read no_nl (take l src)) in
                  if int (length dst) \<noteq> expected_decode_len then Some (0, dst)
                  else Some (int (length dst), dst))))"
proof -
  define nl where "nl = (case strchr src LF of None \<Rightarrow> False | Some t \<Rightarrow> t \<noteq> length (cstr src) - 1)"
  have max: "(if dst_size mod 3 \<noteq> 0 then (dst_size div 3 + 1) * 4 else dst_size div 3 * 4) = 4 * ((dst_size + 2) div 3)"
  proof -
    define q r where "q = dst_size div 3" and "r = dst_size mod 3"
    then have d: "dst_size = 3 * q + r" and "0 \<le> r" "r < 3" by simp_all
    then consider "r = 0" | "r = 1" | "r = 2" by linarith
    then show ?thesis by cases (simp_all add: d)
  qed
  have ana: "est_base64_str_analyze src = (n, l, nl)"
    by (simp add: est_base64_str_analyze_eq nl_def assms)
  show ?thesis
    by (rule that [of "\<not> nl"]) (simp only: est_base64_decode_def ana Let_def prod.case max)
qed

section \<open>Properties\<close>

text \<open>for a non-negative destination size, \<^verbatim>\<open>est_base64_decode\<close> stores at most \<^verbatim>\<open>dst_size\<close> bytes;
  a positive result is the number of bytes stored and equals three quarters of the non-blank text
  less the padding; and the text must not be longer than an encoding of \<^verbatim>\<open>dst_size\<close> bytes.\<close>

theorem est_base64_decode_bounds:
  assumes "est_base64_decode bio_read src dst_size = Some (len, dst)" and "0 \<le> dst_size" and "len \<noteq> 0"
  shows "len = int (length dst) \<and> len \<le> dst_size
    \<and> (\<exists>pad \<in> {0, 1, 2}. len = 3 * int (length (filter (\<lambda>c. \<not> isspace c) (cstr src))) div 4 - pad)
    \<and> int (length (filter (\<lambda>c. \<not> isspace c) (cstr src))) \<le> 4 * ((dst_size + 2) div 3)"
proof -
  define n where "n = length (filter (\<lambda>c. \<not> isspace c) (cstr src))"
  define l where "l = length (cstr src)"
  obtain no_nl where run: "est_base64_decode bio_read src dst_size =
     (if int n > 4 * ((dst_size + 2) div 3) then Some (0, [])
      else if n mod 4 \<noteq> 0 then Some (0, [])
      else (case last_non_ws src l of
          None \<Rightarrow> None
        | Some idx \<Rightarrow>
            if idx < 2 then Some (0, [])
            else (let pad = (if at src (nat idx) = CHR ''='' then
                               (if at src (nat idx - 1) = CHR ''='' then 2 else 1) else 0);
                      expected_decode_len = (3 * int n) div 4 - pad;
                      dst = take (nat dst_size) (bio_read no_nl (take l src)) in
                  if int (length dst) \<noteq> expected_decode_len then Some (0, dst)
                  else Some (int (length dst), dst))))"
    by (rule est_base64_decode_eq [OF n_def l_def])
  from assms(1,3) have le: "int n \<le> 4 * ((dst_size + 2) div 3)" and "n mod 4 = 0"
    unfolding run by (simp_all split: if_splits)
  moreover from assms(1,3) run obtain idx where "last_non_ws src l = Some idx" "\<not> idx < 2"
    by (simp split: if_splits option.splits)
  moreover define pad :: int where "pad = (if at src (nat idx) = CHR ''='' then
      (if at src (nat idx - 1) = CHR ''='' then 2 else 1) else 0)"
  ultimately have "pad \<in> {0, 1, 2 :: int}" and "dst = take (nat dst_size) (bio_read no_nl (take l src))"
    and "len = 3 * int n div 4 - pad" and "len = int (length dst)"
    using assms(1,3) unfolding run by (simp_all add: Let_def pad_def [symmetric] del: length_take split: if_split_asm)
      (simp add: pad_def)
  then show ?thesis using assms(2) le unfolding n_def by auto
qed

theorem est_base64_decode_bounds_witness:
  "est_base64_decode (\<lambda>_ s. if s = ''dXNlcg=='' then ''user'' else []) ''dXNlcg=='' 10 = Some (4, ''user'')
   \<and> (4 :: int) \<le> 10"
proof -
  have h: "est_base64_decode (\<lambda>_ s. if s = ''dXNlcg=='' then ''user'' else []) ''dXNlcg=='' 10 = Some (4, ''user'')"
    by code_simp
  show ?thesis using h est_base64_decode_bounds [OF h] by simp
qed

text \<open>a text of blanks only makes \<^verbatim>\<open>est_base64_decode\<close> read the byte before its buffer: the loop
  tests \<^verbatim>\<open>src[last_non_whitespace_idx]\<close> before the index. Any other text is processed within bounds.\<close>

theorem est_base64_decode_underrun:
  "0 \<le> dst_size \<Longrightarrow>
     est_base64_decode bio_read src dst_size = None \<longleftrightarrow> list_all isspace (cstr src)"
proof -
  assume d: "0 \<le> dst_size"
  have all: "(\<forall>i < length (cstr src). isspace (at src i)) \<longleftrightarrow> list_all isspace (cstr src)"
    using length_cstr_le [of src] by (auto simp: list_all_length at_def cstr_def takeWhile_nth)
  have "list_all isspace (cstr src) \<longleftrightarrow> filter (\<lambda>c. \<not> isspace c) (cstr src) = []"
    by (simp add: filter_empty_conv list_all_iff)
  moreover have "last_non_ws src (length (cstr src)) = None \<longleftrightarrow> list_all isspace (cstr src)"
    by (simp only: last_non_ws_None all)
  ultimately show ?thesis using d
    by (rule_tac est_base64_decode_eq [OF refl refl, of bio_read src dst_size])
      (cases "last_non_ws src (length (cstr src))"; simp add: Let_def split: if_split)
qed

theorem est_base64_decode_underrun_witness:
  "est_base64_decode (\<lambda>_ s. s) ''  '' 10 = None \<and> list_all isspace (cstr ''  '')"
  using est_base64_decode_underrun [of 10 "\<lambda>_ s. s" "''  ''"] by (simp add: isspace_def)

text \<open>when the encoded text is as long as base64 makes it (four bytes for every three started),
  \<^verbatim>\<open>est_base64_encode\<close> with a destination of \<^verbatim>\<open>max_dst_len\<close> bytes writes outside it exactly when
  the text leaves no room for the terminator, although the size check has let it through.\<close>

theorem est_base64_encode_overrun:
  assumes "\<And>b s. length (bio_write b s) = 4 * ((length s + 2) div 3)"
    and "length d = n" and "src \<noteq> []" and "length src \<le> (n * 3) div 4 + 1"
  shows "est_base64_encode bio_write src (Some d) n nl = None \<longleftrightarrow> 4 * ((length src + 2) div 3) \<ge> n"
proof -
  let ?k = "4 * ((length src + 2) div 3)"
  have "\<exists>d'. memcpy_s (Some d) n (Some (bio_write (\<not> nl) src)) ?k = Some (Some d', if ?k > n then ESLEMAX else EOK)
      \<and> length d' = n"
    using assms(1,2) by (auto simp: memcpy_s_def rd_block_def wr_block_def)
  then obtain d' e where "memcpy_s (Some d) n (Some (bio_write (\<not> nl) src)) ?k = Some (Some d', e)" "length d' = n"
    by blast
  with assms show ?thesis
    by (auto simp: est_base64_encode_def Let_def wr_def)
qed

theorem est_base64_encode_overrun_witness:
  "est_base64_encode (\<lambda>_ s. replicate (4 * ((length s + 2) div 3)) CHR ''A'') ''abc'' (Some ''wxyz'') 4 False = None"
  using est_base64_encode_overrun [of "\<lambda>_ s. replicate (4 * ((length s + 2) div 3)) CHR ''A''" "''wxyz''" 4 "''abc''" False]
  by simp

text \<open>the hexadecimal string of a digest has two characters per byte, all hexadecimal digits, and
  different digests give different strings.\<close>

theorem est_hex_to_str_correct:
  "length (est_hex_to_str bs) = 2 * length bs \<and> list_all isxdigit (est_hex_to_str bs)
   \<and> (est_hex_to_str bs = est_hex_to_str cs \<longleftrightarrow> bs = cs)"
proof -
  have dig: "isxdigit (hex_digit k)" if "k < 16" for k
  proof -
    have "list_all isxdigit ''0123456789abcdef''" by code_simp
    then show ?thesis using that by (simp add: hex_digit_def list_all_length)
  qed
  have inj: "hex_digit k = hex_digit l \<longleftrightarrow> k = l" if "k < 16" "l < 16" for k l
  proof -
    have "distinct ''0123456789abcdef''" by code_simp
    then show ?thesis using that by (simp add: hex_digit_def nth_eq_iff_index_eq)
  qed
  have lt: "uchr b div 16 < 16" for b using uchr_bound [of b] by linarith
  have "uchr b div 16 = uchr c div 16 \<and> uchr b mod 16 = uchr c mod 16 \<longleftrightarrow> b = c" for b c
    by (metis div_mult_mod_eq uchr_inj)
  then have "est_hex_to_str bs = est_hex_to_str cs \<longleftrightarrow> bs = cs"
  proof (induction bs arbitrary: cs)
    case Nil
    then show ?case by (cases cs) auto
  next
    case (Cons b bs)
    then show ?case by (cases cs) (auto simp: inj lt)
  qed
  moreover have "length (est_hex_to_str bs) = 2 * length bs" by (induction bs) auto
  moreover have "list_all isxdigit (est_hex_to_str bs)" by (induction bs) (auto simp: dig lt)
  ultimately show ?thesis by blast
qed

end
