(* ===== verification/Http_Auth.thy ===== *)
theory Http_Auth
  imports Http_Util Est_Codec
begin

text \<open>
  Parsing of the \<^verbatim>\<open>Authorization\<close> header, \<^verbatim>\<open>src/src/est/est_server_http.c\<close>: Basic, Digest and Bearer
  credentials. The digest parser works in place on a stack copy of the header; it is modelled on that
  buffer, byte for byte, so that a read outside it is visible as \<^term>\<open>None\<close>.
  Allocation failures (\<^verbatim>\<open>malloc\<close>, \<^verbatim>\<open>strndup\<close>) are not modelled.
\<close>

section \<open>Data\<close>

datatype EST_HTTP_AUTH_MODE = AUTH_NONE | AUTH_BASIC | AUTH_DIGEST | AUTH_TOKEN | AUTH_FAIL

datatype EST_HTTP_AUTH_HDR_RESULT =
    EST_AUTH_HDR_GOOD | EST_AUTH_HDR_MISSING | EST_AUTH_HDR_BAD
  | EST_AUTH_ECA_CSR_CHECK_FAIL | EST_AUTH_ECA_CSR_PARSE_FAIL | EST_AUTH_ECA_ERR

record EST_HTTP_AUTH_HDR =
  mode :: EST_HTTP_AUTH_MODE
  user :: "string option"
  pwd :: "string option"
  ah_uri :: "string option"
  cnonce :: "string option"
  qop :: "string option"
  nc :: "string option"
  nonce :: "string option"
  response :: "string option"
  auth_token :: "string option"

definition est_create_ah :: EST_HTTP_AUTH_HDR where
  "est_create_ah = \<lparr>mode = AUTH_NONE, user = None, pwd = None, ah_uri = None, cnonce = None, qop = None,
     nc = None, nonce = None, response = None, auth_token = None\<rparr>"

definition MAX_UIDPWD :: nat where "MAX_UIDPWD = 255"
definition MAX_AUTH_TOKEN_LEN :: nat where "MAX_AUTH_TOKEN_LEN = 512"
definition MAX_AUTH_HDR_LEN :: nat where "MAX_AUTH_HDR_LEN = 256 + 128"

definition strndup :: "string \<Rightarrow> nat \<Rightarrow> string" where
  "strndup s n = take n (cstr s)"

section \<open>Basic\<close>

text \<open>
  The decoder is called on the part of the header after the scheme and blanks; when nothing follows,
  its backward search (\<open>est_base64_decode\<close> without result) stops in the scheme name with an index
  below 2, and it returns 0. The 512 bytes of \<^verbatim>\<open>both\<close> are written up to the terminator at \<^verbatim>\<open>len\<close>.
\<close>

definition base64_credentials :: "(bool \<Rightarrow> string \<Rightarrow> string) \<Rightarrow> string \<Rightarrow> nat \<Rightarrow> int \<times> string" where
  "base64_credentials bio_read value dst_size =
     (case est_base64_decode bio_read value (int dst_size) of None \<Rightarrow> (0, []) | Some r \<Rightarrow> r)"

definition mg_parse_auth_hdr_basic ::
  "(bool \<Rightarrow> string \<Rightarrow> string) \<Rightarrow> string \<Rightarrow> EST_HTTP_AUTH_HDR \<Rightarrow> EST_HTTP_AUTH_HDR option" where
  "mg_parse_auth_hdr_basic bio_read auth_header ah =
     (let value = dropWhile isspace (drop 6 (cstr auth_header));
          (len, dst) = base64_credentials bio_read value (MAX_UIDPWD * 2 + 2);
          both = take (nat len) dst @ [NUL] in
      if len \<le> 0 \<or> len \<ge> int (MAX_UIDPWD * 2 + 2) then Some ah
      else (case strstr_s both (nat len) '':'' 1 of
          (EOK, Some possible_pw) \<Rightarrow>
            if at both 0 = CHR '':'' then
              (if len > 1 then
                 Some (ah\<lparr>pwd := Some (strndup (drop (possible_pw + 1) both) MAX_UIDPWD), mode := AUTH_BASIC\<rparr>)
               else Some ah)
            else
              do { (both', _, save_ptr, value) \<leftarrow> strtok_s both (Some 0) (nat len) (Some '':'') None;
                   (case value of
                      None \<Rightarrow> Some (ah\<lparr>mode := AUTH_BASIC\<rparr>)
                    | Some v \<Rightarrow>
                        do { save \<leftarrow> save_ptr;
                             Some (ah\<lparr>user := Some (strndup (drop v both') MAX_UIDPWD),
                                      pwd := Some (strndup (drop save both') MAX_UIDPWD),
                                      mode := AUTH_BASIC\<rparr>) }) }
        | _ \<Rightarrow> Some ah))"

section \<open>Digest\<close>

function skip_spaces :: "mem \<Rightarrow> nat \<Rightarrow> nat option" where
  "skip_spaces m s = do { c \<leftarrow> rd m s; if isspace c then skip_spaces m (Suc s) else Some s }"
  by pat_completeness auto
termination
  by (relation "measure (\<lambda>(m, s). length m - s)") (auto dest: rd_SomeD)

declare skip_spaces.simps [simp del]

text \<open>\<^verbatim>\<open>memcmp_s(name, n, kw, n, &i)\<close> followed by \<^verbatim>\<open>!i\<close>.\<close>

definition name_is :: "mem \<Rightarrow> nat \<Rightarrow> string \<Rightarrow> bool option" where
  "name_is m name kw =
     do { (_, z) \<leftarrow> memcmp_s (Some (drop name m)) (length kw) (Some kw) (length kw); z }"

definition digest_field :: "mem \<Rightarrow> nat \<Rightarrow> string \<Rightarrow> EST_HTTP_AUTH_HDR \<Rightarrow> EST_HTTP_AUTH_HDR option" where
  "digest_field m name value ah =
     do { b1 \<leftarrow> name_is m name ''username'';
          if b1 then Some (ah\<lparr>user := Some (strndup value MAX_UIDPWD)\<rparr>) else do {
          b2 \<leftarrow> name_is m name ''cnonce'';
          if b2 then Some (ah\<lparr>cnonce := Some (strndup value 64)\<rparr>) else do {
          b3 \<leftarrow> name_is m name ''response'';
          if b3 then Some (ah\<lparr>response := Some (strndup value 64)\<rparr>) else do {
          b4 \<leftarrow> name_is m name ''uri'';
          if b4 then Some (ah\<lparr>ah_uri := Some (strndup value 255)\<rparr>) else do {
          b5 \<leftarrow> name_is m name ''qop'';
          if b5 then Some (ah\<lparr>qop := Some (strndup value 10)\<rparr>) else do {
          b6 \<leftarrow> name_is m name ''nc'';
          if b6 then Some (ah\<lparr>nc := Some (strndup value 9)\<rparr>) else do {
          b7 \<leftarrow> name_is m name ''nonce'';
          if b7 then Some (ah\<lparr>nonce := Some (strndup value 64)\<rparr>) else Some ah }}}}}}}"

text \<open>One \<^verbatim>\<open>name=value\<close> pair: the memory, the addresses of name and value, and the new cursor.\<close>

definition digest_pair :: "mem \<Rightarrow> nat \<Rightarrow> (mem \<times> nat \<times> nat \<times> nat) option" where
  "digest_pair m s0 =
     do { s1 \<leftarrow> skip_spaces m s0;
          (m1, s2, name) \<leftarrow> skip_quoted m s1 ''='' '' '' NUL;
          c \<leftarrow> rd m1 s2;
          if c = DQUOTE then
            do { (m2, s3, value) \<leftarrow> skip_quoted m1 (s2 + 1) [DQUOTE] '' '' (CHR 0x5C);
                 c' \<leftarrow> rd m2 s3;
                 Some (m2, name, value, if c' = CHR '','' then s3 + 1 else s3) }
          else
            do { (m2, s3, value) \<leftarrow> skip_quoted m1 s2 '', '' '' '' NUL;
                 Some (m2, name, value, s3) } }"

lemma skip_spaces_mono: "skip_spaces m s = Some s' \<Longrightarrow> s \<le> s' \<and> s' < length m"
proof (induction m s rule: skip_spaces.induct)
  case (1 m s)
  then show ?case
    by (subst (asm) (2) skip_spaces.simps) (auto simp: bind_eq_Some_conv dest: rd_SomeD split: if_splits)
qed

lemma digest_pair_progress:
  assumes "digest_pair m s0 = Some (m', name, value, s)" and "rd m' name = Some x" and "x \<noteq> NUL"
  shows "length m' = length m \<and> s0 < s \<and> s0 < length m"
proof -
  from assms(1) obtain s1 m1 s2 c where
    s1: "skip_spaces m s0 = Some s1" and q1: "skip_quoted m s1 ''='' '' '' NUL = Some (m1, s2, name)"
    and c: "rd m1 s2 = Some c"
    by (auto simp: digest_pair_def bind_eq_Some_conv split: if_splits)
  note p1 = skip_spaces_mono [OF s1] and p2 = skip_quoted_progress [OF q1]
  show ?thesis
  proof (cases "c = DQUOTE")
    case True
    with assms(1) s1 q1 c obtain s3 where
      "skip_quoted m1 (s2 + 1) [DQUOTE] '' '' (CHR 0x5C) = Some (m', s3, value)" "s3 \<le> s"
      by (auto simp: digest_pair_def bind_eq_Some_conv)
    with p1 p2 skip_quoted_progress show ?thesis by fastforce
  next
    case False
    with assms(1) s1 q1 c have "skip_quoted m1 s2 '', '' '' '' NUL = Some (m', s, value)"
      by (auto simp: digest_pair_def bind_eq_Some_conv)
    note p3 = skip_quoted_progress [OF this]
    have "s \<noteq> s0"
    proof
      assume "s = s0"
      then have "s2 = s1" "s = s2" using p1 p2 p3 by auto
      then show False using p2 p3 assms(2,3) by auto
    qed
    then show ?thesis using p1 p2 p3 by auto
  qed
qed

function digest_loop :: "mem \<Rightarrow> nat \<Rightarrow> EST_HTTP_AUTH_HDR \<Rightarrow> EST_HTTP_AUTH_HDR option" where
  "digest_loop m s ah =
     (case digest_pair m s of
        None \<Rightarrow> None
      | Some (m', name, value, s') \<Rightarrow>
          (case rd m' name of
             None \<Rightarrow> None
           | Some c \<Rightarrow>
               if c = NUL then Some ah
               else (case digest_field m' name (drop value m') ah of
                   None \<Rightarrow> None
                 | Some ah' \<Rightarrow> digest_loop m' s' ah')))"
  by pat_completeness auto
termination
  by (relation "measure (\<lambda>(m, s, ah). length m - s)") (auto dest: digest_pair_progress)

declare digest_loop.simps [simp del]

text \<open>\<open>strcpy_s\<close> into the stack buffer: padded with NULs, or truncated without a terminator.\<close>

definition mg_parse_auth_hdr_digest :: "string \<Rightarrow> EST_HTTP_AUTH_HDR \<Rightarrow> EST_HTTP_AUTH_HDR option" where
  "mg_parse_auth_hdr_digest auth_header ah =
     do { (b, _) \<leftarrow> strcpy_s (Some (replicate MAX_AUTH_HDR_LEN NUL)) MAX_AUTH_HDR_LEN (Some (drop 7 (cstr auth_header)));
          m \<leftarrow> b;
          digest_loop m 0 (ah\<lparr>mode := AUTH_DIGEST\<rparr>) }"

section \<open>Bearer token and dispatch\<close>

definition mg_parse_auth_hdr_token ::
  "(bool \<Rightarrow> string \<Rightarrow> string) \<Rightarrow> string \<Rightarrow> EST_HTTP_AUTH_HDR \<Rightarrow> EST_HTTP_AUTH_HDR" where
  "mg_parse_auth_hdr_token bio_read auth_header ah =
     (let value = dropWhile isspace (drop 6 (cstr auth_header));
          (len, dst) = base64_credentials bio_read value (MAX_AUTH_TOKEN_LEN * 2) in
      if len \<le> 0 \<or> len \<ge> int (MAX_AUTH_TOKEN_LEN * 2) then ah
      else if hd0 value \<noteq> NUL then
        ah\<lparr>auth_token := Some (strndup (take (nat len) dst) MAX_AUTH_TOKEN_LEN), mode := AUTH_TOKEN\<rparr>
      else ah)"

definition mg_parse_auth_header ::
  "(bool \<Rightarrow> string \<Rightarrow> string) \<Rightarrow> EST_HTTP_AUTH_MODE \<Rightarrow> mg_connection \<Rightarrow> EST_HTTP_AUTH_HDR
     \<Rightarrow> (EST_HTTP_AUTH_HDR_RESULT \<times> EST_HTTP_AUTH_HDR \<times> mg_connection) option" where
  "mg_parse_auth_header bio_read auth_mode conn ah =
     (case mg_get_header conn ''Authorization'' of
        None \<Rightarrow> Some (EST_AUTH_HDR_MISSING, ah, conn)
      | Some auth_header \<Rightarrow>
          (let finish = (\<lambda>ah'.
             if mode ah' = AUTH_DIGEST
                 \<and> (ah_uri ah' = None \<or> nonce ah' = None \<or> nc ah' = None \<or> cnonce ah' = None)
             then (EST_AUTH_HDR_BAD, ah', conn)
             else if user ah' = None \<and> mode ah' \<noteq> AUTH_TOKEN then (EST_AUTH_HDR_BAD, ah', conn)
             else (EST_AUTH_HDR_GOOD, ah',
                   if mode ah' \<noteq> AUTH_TOKEN then conn\<lparr>user_id := strndup (the (user ah')) 256\<rparr> else conn)) in
           if mg_strncasecmp auth_header ''Digest '' 7 = 0 then
             (if auth_mode \<noteq> AUTH_DIGEST then Some (EST_AUTH_HDR_BAD, ah, conn)
              else map_option finish (mg_parse_auth_hdr_digest auth_header ah))
           else if mg_strncasecmp auth_header ''Basic '' 6 = 0 then
             (if auth_mode \<noteq> AUTH_BASIC then Some (EST_AUTH_HDR_BAD, ah, conn)
              else map_option finish (mg_parse_auth_hdr_basic bio_read auth_header ah))
           else if mg_strncasecmp auth_header ''Bearer '' 7 = 0 then
             (if auth_mode \<noteq> AUTH_TOKEN then Some (EST_AUTH_HDR_BAD, ah, conn)
              else Some (finish (mg_parse_auth_hdr_token bio_read auth_header ah)))
           else Some (EST_AUTH_HDR_BAD, ah\<lparr>mode := AUTH_FAIL\<rparr>, conn)))"

section \<open>Digest text\<close>

text \<open>
  The text of a digest header: pairs \<open>name="value"\<close> separated by a comma and a blank. The parser is
  followed over such a text with \<open>digest_loop_pairs\<close>.
\<close>

fun digest_text :: "(string \<times> string) list \<Rightarrow> string" where
  "digest_text [] = []"
| "digest_text [(n, v)] = n @ ''='' @ [DQUOTE] @ v @ [DQUOTE]"
| "digest_text ((n, v) # fs) = n @ ''='' @ [DQUOTE] @ v @ [DQUOTE] @ '', '' @ digest_text fs"

definition field_ok :: "string \<times> string \<Rightarrow> bool" where
  "field_ok nv \<longleftrightarrow>
     fst nv \<in> set [''username'', ''realm'', ''nonce'', ''uri'', ''cnonce'', ''nc'', ''qop'', ''response'']
     \<and> NUL \<notin> set (snd nv) \<and> DQUOTE \<notin> set (snd nv) \<and> CHR 0x5C \<notin> set (snd nv)"

text \<open>What the header means: each known name sets its field, bounded by the size of that field.\<close>

definition apply_field :: "EST_HTTP_AUTH_HDR \<Rightarrow> string \<times> string \<Rightarrow> EST_HTTP_AUTH_HDR" where
  "apply_field ah nv = (case nv of (n, v) \<Rightarrow>
     if n = ''username'' then ah\<lparr>user := Some (take 255 v)\<rparr>
     else if n = ''cnonce'' then ah\<lparr>cnonce := Some (take 64 v)\<rparr>
     else if n = ''response'' then ah\<lparr>response := Some (take 64 v)\<rparr>
     else if n = ''uri'' then ah\<lparr>ah_uri := Some (take 255 v)\<rparr>
     else if n = ''qop'' then ah\<lparr>qop := Some (take 10 v)\<rparr>
     else if n = ''nc'' then ah\<lparr>nc := Some (take 9 v)\<rparr>
     else if n = ''nonce'' then ah\<lparr>nonce := Some (take 64 v)\<rparr>
     else ah)"

lemma RSIZE_MAX_STR_384: "n \<le> 384 \<Longrightarrow> n \<le> RSIZE_MAX_STR"
  by (simp add: RSIZE_MAX_STR_def)

lemma skip_spaces_stop: "\<not> isspace c \<Longrightarrow> skip_spaces (pre @ c # post) (length pre) = Some (length pre)"
  by (subst skip_spaces.simps) (simp add: rd_def)

lemma skip_spaces_blank:
  "\<not> isspace c \<Longrightarrow> skip_spaces (pre @ CHR '' '' # c # post) (length pre) = Some (Suc (length pre))"
  by (subst skip_spaces.simps, subst skip_spaces.simps) (auto simp: rd_def nth_append isspace_def)

lemma name_is_eq: "name \<noteq> [] \<Longrightarrow> length name \<le> length m \<Longrightarrow> length m - length name \<ge> a \<Longrightarrow>
    name_is m a name = Some (take (length name) (drop a m) = name)"
  by (auto simp: name_is_def memcmp_s_def rd_block_def)

lemma field_name_props:
  assumes "field_ok (n, v)"
  shows "n \<noteq> [] \<and> CHR ''='' \<notin> set n \<and> NUL \<notin> set n \<and> length n \<le> 8 \<and> \<not> isspace (hd n) \<and> hd n \<noteq> NUL"
  using assms by (auto simp: field_ok_def isspace_def uchr_def)

text \<open>One pair of the text, followed by \<open>rest\<close>.\<close>

lemma digest_pair_text:
  assumes "field_ok (n, v)" and "length (pre @ sp @ n @ ''='' @ [DQUOTE] @ v @ [DQUOTE] @ rest) \<le> 384"
    and "rest \<noteq> []" and "hd0 rest \<noteq> CHR '' ''"
    and "sp = [] \<or> sp = '' ''"
  shows "digest_pair (pre @ sp @ n @ ''='' @ [DQUOTE] @ v @ [DQUOTE] @ rest) (length pre) =
     Some (pre @ sp @ n @ [NUL, DQUOTE] @ v @ [NUL] @ rest, length (pre @ sp), length (pre @ sp @ n) + 2,
           length (pre @ sp @ n @ v) + (if hd0 rest = CHR '','' then 4 else 3))"
proof -
  let ?P = "pre @ sp" and ?m = "pre @ sp @ n @ ''='' @ [DQUOTE] @ v @ [DQUOTE] @ rest"
  let ?Q = "?P @ n @ [NUL, DQUOTE]"
  note n = field_name_props [OF assms(1)]
  have v: "NUL \<notin> set v" "DQUOTE \<notin> set v" "CHR 0x5C \<notin> set v"
    using assms(1) by (simp_all add: field_ok_def)
  have small: "length ''='' \<le> RSIZE_MAX_STR" "length '' '' \<le> RSIZE_MAX_STR" "length [DQUOTE] \<le> RSIZE_MAX_STR"
    by (rule RSIZE_MAX_STR_384, simp)+
  have lv: "last v \<noteq> CHR 0x5C" if "v \<noteq> []" using v(3) that last_in_set by metis
  have lst: "last n \<noteq> NUL" using n last_in_set by metis
  obtain c n' where c: "n = c # n'" "\<not> isspace c" using n by (cases n) auto
  have 1: "skip_spaces ?m (length pre) = Some (length ?P)"
    using assms(5) skip_spaces_stop [OF c(2), of pre] skip_spaces_blank [OF c(2), of pre] c(1) by auto
  have 2: "skip_quoted ?m (length ?P) ''='' '' '' NUL =
      Some (?P @ n @ NUL # DQUOTE # v @ DQUOTE # rest, length ?P + length n + 1, length ?P)"
    using skip_quoted_word [of ?P n "CHR ''=''" "[]" "DQUOTE # v @ DQUOTE # rest" "''=''" "'' ''" NUL]
      assms(2) n lst small RSIZE_MAX_STR_384 [OF assms(2)] by auto
  have 3: "rd (?P @ n @ NUL # DQUOTE # v @ DQUOTE # rest) (length ?P + length n + 1) = Some DQUOTE"
    using rd_append2 [of ?P n "NUL # DQUOTE # v @ DQUOTE # rest" 1] by (simp add: rd_Cons)
  have 4: "skip_quoted (?Q @ v @ DQUOTE # [] @ rest) (length ?Q) [DQUOTE] '' '' (CHR 0x5C) =
      Some (?Q @ v @ NUL # rest, length ?Q + length v + 1, length ?Q)"
    using skip_quoted_word [of ?Q v DQUOTE "[]" rest "[DQUOTE]" "'' ''" "CHR 0x5C"]
      assms(2,4) v lv small RSIZE_MAX_STR_384 [OF assms(2)] by auto
  have 5: "rd (?Q @ v @ NUL # rest) (length ?Q + length v + 1) = Some (hd0 rest)"
    using rd_append2 [of ?Q v "NUL # rest" 1] assms(3) by (cases rest) (simp_all add: rd_Cons)
  show ?thesis
    using 1 2 3 4 5 by (simp add: digest_pair_def add.assoc numeral_eq_Suc)
qed

lemma digest_field_text:
  assumes "field_ok (n, v)" and "length pre + 8 \<le> length (pre @ n @ NUL # DQUOTE # tl_text)"
  shows "digest_field (pre @ n @ NUL # DQUOTE # tl_text) (length pre) (v @ NUL # rest) ah = Some (apply_field ah (n, v))"
proof -
  let ?m = "pre @ n @ NUL # DQUOTE # tl_text"
  define K where "K kw = (take (length kw) (n @ NUL # DQUOTE # tl_text) = kw)" for kw
  have is_kw: "name_is ?m (length pre) kw = Some (K kw)" if "kw \<noteq> []" "length kw \<le> 8" for kw
    using name_is_eq [of kw ?m "length pre"] that assms(2) unfolding K_def by simp
  have v: "strndup (v @ NUL # rest) k = take k v" for k
    using assms(1) by (simp add: strndup_def field_ok_def)
  have "n \<in> set [''username'', ''realm'', ''nonce'', ''uri'', ''cnonce'', ''nc'', ''qop'', ''response'']"
    using assms(1) by (simp add: field_ok_def)
  then have "n = ''username'' \<or> n = ''realm'' \<or> n = ''nonce'' \<or> n = ''uri'' \<or> n = ''cnonce''
      \<or> n = ''nc'' \<or> n = ''qop'' \<or> n = ''response''"
    by (simp only: list.set insert_iff empty_iff simp_thms)
  moreover have "digest_field ?m (length pre) (v @ NUL # rest) ah =
     Some (if K ''username'' then ah\<lparr>user := Some (take 255 v)\<rparr>
       else if K ''cnonce'' then ah\<lparr>cnonce := Some (take 64 v)\<rparr>
       else if K ''response'' then ah\<lparr>response := Some (take 64 v)\<rparr>
       else if K ''uri'' then ah\<lparr>ah_uri := Some (take 255 v)\<rparr>
       else if K ''qop'' then ah\<lparr>qop := Some (take 10 v)\<rparr>
       else if K ''nc'' then ah\<lparr>nc := Some (take 9 v)\<rparr>
       else if K ''nonce'' then ah\<lparr>nonce := Some (take 64 v)\<rparr>
       else ah)"
    unfolding digest_field_def v MAX_UIDPWD_def by (simp add: is_kw)
  ultimately show ?thesis
    by (elim disjE) (simp_all add: apply_field_def K_def)
qed

lemma digest_loop_end:
  assumes "length (pre @ NUL # post) \<le> 384"
  shows "digest_loop (pre @ NUL # post) (length pre) ah = Some ah"
proof -
  have small: "length ''='' \<le> RSIZE_MAX_STR" "length '', '' \<le> RSIZE_MAX_STR"
    by (rule RSIZE_MAX_STR_384, simp)+
  have "skip_quoted (pre @ NUL # post) (length pre) ''='' '' '' NUL = Some (pre @ NUL # post, length pre, length pre)"
    and "skip_quoted (pre @ NUL # post) (length pre) '', '' '' '' NUL = Some (pre @ NUL # post, length pre, length pre)"
    using skip_quoted_last [of pre "[]" post "''=''" NUL "'' ''"] skip_quoted_last [of pre "[]" post "'', ''" NUL "'' ''"]
      RSIZE_MAX_STR_384 [OF assms] small by simp_all
  then have "digest_pair (pre @ NUL # post) (length pre) = Some (pre @ NUL # post, length pre, length pre, length pre)"
    using skip_spaces_stop [of NUL pre post] by (simp add: digest_pair_def rd_def)
  then show ?thesis by (subst digest_loop.simps) (simp add: rd_def)
qed

lemma digest_loop_step:
  assumes "field_ok (n, v)" and "length (pre @ sp @ n @ ''='' @ [DQUOTE] @ v @ [DQUOTE] @ rest) \<le> 384"
    and "rest \<noteq> []" and "hd0 rest \<noteq> CHR '' ''" and "sp = [] \<or> sp = '' ''" and "5 \<le> length rest"
  shows "digest_loop (pre @ sp @ n @ ''='' @ [DQUOTE] @ v @ [DQUOTE] @ rest) (length pre) ah =
    digest_loop ((pre @ sp @ n @ [NUL, DQUOTE] @ v @ [NUL]) @ rest)
      (length (pre @ sp @ n @ [NUL, DQUOTE] @ v @ [NUL]) + (if hd0 rest = CHR '','' then 1 else 0))
      (apply_field ah (n, v))"
proof -
  let ?m = "pre @ sp @ n @ [NUL, DQUOTE] @ v @ [NUL] @ rest"
  have name: "rd ?m (length (pre @ sp)) = Some (hd n)"
    using rd_append2 [of pre sp "n @ [NUL, DQUOTE] @ v @ [NUL] @ rest" 0] field_name_props [OF assms(1)]
    by (cases n) (simp_all add: rd_Cons)
  have "drop (length (pre @ sp @ n) + 2) ?m = v @ NUL # rest" by simp
  moreover have "digest_field ?m (length (pre @ sp)) (v @ NUL # rest) ah = Some (apply_field ah (n, v))"
    using digest_field_text [OF assms(1), of "pre @ sp" "v @ NUL # rest" rest ah] assms(6) field_name_props [OF assms(1)]
    by (cases n) simp_all
  ultimately show ?thesis
    using name field_name_props [OF assms(1)] digest_pair_text [OF assms(1-5)]
    by (subst digest_loop.simps) (simp add: numeral_eq_Suc del: drop_append)
qed

lemma digest_text_Cons: "fs \<noteq> [] \<Longrightarrow> digest_text ((n, v) # fs) = n @ ''='' @ [DQUOTE] @ v @ [DQUOTE] @ '', '' @ digest_text fs"
  by (cases fs) auto

lemma digest_loop_pairs:
  assumes "fs \<noteq> []" and "list_all field_ok fs" and "length (pre @ sp @ digest_text fs @ NUL # post) \<le> 384"
    and "sp = [] \<or> sp = '' ''" and "4 \<le> length post"
  shows "digest_loop (pre @ sp @ digest_text fs @ NUL # post) (length pre) ah = Some (foldl apply_field ah fs)"
  using assms(1-4)
proof (induction fs arbitrary: pre sp ah)
  case Nil
  then show ?case by simp
next
  case (Cons nv fs)
  obtain n v where nv: "nv = (n, v)" by (cases nv)
  let ?P = "pre @ sp @ n @ [NUL, DQUOTE] @ v @ [NUL]"
  have ok: "field_ok (n, v)" using Cons.prems(2) nv by simp
  show ?case
  proof (cases "fs = []")
    case True
    then show ?thesis
      using nv ok Cons.prems(3,4) assms(5) digest_loop_step [of n v pre sp "NUL # post" ah]
        digest_loop_end [of ?P post "apply_field ah (n, v)"] by simp
  next
    case False
    then have shape: "pre @ sp @ digest_text (nv # fs) @ NUL # post =
        pre @ sp @ n @ ''='' @ [DQUOTE] @ v @ [DQUOTE] @ ('', '' @ digest_text fs @ NUL # post)"
      by (simp add: nv digest_text_Cons)
    have "digest_loop ((?P @ '','') @ '' '' @ digest_text fs @ NUL # post) (length (?P @ '','')) (apply_field ah (n, v)) =
        Some (foldl apply_field (apply_field ah (n, v)) fs)"
      using False Cons.prems(2,3) unfolding shape by (intro Cons.IH) (simp_all add: nv)
    moreover have "length (pre @ sp @ n @ ''='' @ [DQUOTE] @ v @ [DQUOTE] @ '', '' @ digest_text fs @ NUL # post) \<le> 384"
      using Cons.prems(3) unfolding shape .
    ultimately show ?thesis
      unfolding shape using nv ok Cons.prems(4) assms(5) digest_loop_step [of n v pre sp "'', '' @ digest_text fs @ NUL # post" ah]
      by simp
  qed
qed

section \<open>Invariants of the parsers\<close>

lemma digest_field_mode: "digest_field m name v ah = Some ah' \<Longrightarrow> mode ah' = mode ah"
  by (auto simp: digest_field_def bind_eq_Some_conv split: if_splits)

lemma digest_loop_mode: "digest_loop m s ah = Some ah' \<Longrightarrow> mode ah' = mode ah"
proof (induction m s ah rule: digest_loop.induct)
  case (1 m s ah)
  from 1(2) obtain m' name v s' c where
    pair: "digest_pair m s = Some (m', name, v, s')" and c: "rd m' name = Some c"
    by (subst (asm) digest_loop.simps) (auto split: option.split_asm)
  show ?case
  proof (cases "c = NUL")
    case True
    with 1(2) pair c show ?thesis by (subst (asm) digest_loop.simps) simp
  next
    case False
    with 1(2) pair c obtain ah1 where
      "digest_field m' name (drop v m') ah = Some ah1" "digest_loop m' s' ah1 = Some ah'"
      by (subst (asm) digest_loop.simps) (auto split: option.split_asm)
    with 1(1) [OF pair refl refl refl c False] show ?thesis
      using digest_field_mode by metis
  qed
qed

lemma mg_parse_auth_hdr_digest_mode: "mg_parse_auth_hdr_digest h ah = Some ah' \<Longrightarrow> mode ah' = AUTH_DIGEST"
  by (auto simp: mg_parse_auth_hdr_digest_def bind_eq_Some_conv dest: digest_loop_mode)

text \<open>The Basic parser with the decoding, the colon search and the tokenizer made explicit.\<close>

lemma mg_parse_auth_hdr_basic_eq:
  assumes "base64_credentials r (dropWhile isspace (drop 6 (cstr h))) (MAX_UIDPWD * 2 + 2) = (len, dst)"
    and "both = take (nat len) dst @ [NUL]"
  shows "mg_parse_auth_hdr_basic r h ah =
     (if len \<le> 0 \<or> len \<ge> int (MAX_UIDPWD * 2 + 2) then Some ah
      else (case strstr both '':'' of
          None \<Rightarrow> Some ah
        | Some possible_pw \<Rightarrow>
            if at both 0 = CHR '':'' then
              (if len > 1 then
                 Some (ah\<lparr>pwd := Some (strndup (drop (possible_pw + 1) both) MAX_UIDPWD), mode := AUTH_BASIC\<rparr>)
               else Some ah)
            else
              do { (both', _, save_ptr, value) \<leftarrow> strtok_s both (Some 0) (nat len) (Some '':'') None;
                   (case value of
                      None \<Rightarrow> Some (ah\<lparr>mode := AUTH_BASIC\<rparr>)
                    | Some v \<Rightarrow>
                        do { save \<leftarrow> save_ptr;
                             Some (ah\<lparr>user := Some (strndup (drop v both') MAX_UIDPWD),
                                      pwd := Some (strndup (drop save both') MAX_UIDPWD),
                                      mode := AUTH_BASIC\<rparr>) }) }))"
  unfolding mg_parse_auth_hdr_basic_def Let_def assms(1) prod.case assms(2) [symmetric]
  by (cases "strstr both '':''") (simp_all only: strstr_s_def option.case prod.case errno_t.case)

lemma mg_parse_auth_hdr_basic_mode:
  assumes "mg_parse_auth_hdr_basic r h ah = Some ah'"
  shows "ah' = ah \<or> mode ah' = AUTH_BASIC"
proof -
  obtain len dst where cred: "base64_credentials r (dropWhile isspace (drop 6 (cstr h))) (MAX_UIDPWD * 2 + 2) = (len, dst)"
    by fastforce
  show ?thesis
    using assms unfolding mg_parse_auth_hdr_basic_eq [OF cred refl]
    by (auto simp: bind_eq_Some_conv split: if_split_asm option.split_asm)
qed

lemma mg_parse_auth_hdr_token_mode:
  "mg_parse_auth_hdr_token r h ah = ah \<or>
   mode (mg_parse_auth_hdr_token r h ah) = AUTH_TOKEN \<and> auth_token (mg_parse_auth_hdr_token r h ah) \<noteq> None"
  by (auto simp: mg_parse_auth_hdr_token_def Let_def split: prod.splits)

lemma strstr_colon: "CHR '':'' \<notin> set u \<Longrightarrow> NUL \<notin> set u \<Longrightarrow> strstr (u @ CHR '':'' # r) '':'' = Some (length u)"
  by (induction u) (auto simp: strstr_def)

lemma basic_user_pwd:
  assumes "v \<noteq> []" and "NUL \<notin> set v" and "\<not> isspace (hd v)"
    and "est_base64_decode bio_read v 512 = Some (int (length (u @ CHR '':'' # p)), u @ CHR '':'' # p)"
    and "length (u @ CHR '':'' # p) < 512" and "u \<noteq> []" and "CHR '':'' \<notin> set u" and "NUL \<notin> set u"
  shows "mg_parse_auth_hdr_basic bio_read (''Basic '' @ v) ah =
    Some (ah\<lparr>user := Some (take 255 u), pwd := Some (take 255 (cstr p)), mode := AUTH_BASIC\<rparr>)"
proof -
  let ?both = "u @ CHR '':'' # p @ [NUL]"
  have "dropWhile isspace (drop 6 (cstr (''Basic '' @ v))) = v"
    using assms(1-3) by (cases v) (auto simp: cstr_id)
  then have cred: "base64_credentials bio_read (dropWhile isspace (drop 6 (cstr (''Basic '' @ v)))) (MAX_UIDPWD * 2 + 2) =
      (int (length (u @ CHR '':'' # p)), u @ CHR '':'' # p)"
    using assms(4) by (simp add: base64_credentials_def MAX_UIDPWD_def)
  have tok: "strtok_s ?both (Some 0) (length (u @ CHR '':'' # p)) (Some '':'') None =
      Some (u @ NUL # p @ [NUL], length p, Some (Suc (length u)), Some 0)"
    using strtok_s_cut [of "[]" "'':''" u "CHR '':''" "length (u @ CHR '':'' # p)" "[]" "p @ [NUL]" None] assms(5-8)
    by (simp add: STRTOK_DELIM_MAX_LEN_def RSIZE_MAX_STR_def)
  have "cstr (p @ [NUL]) = cstr p" by (induction p) auto
  moreover have "at ?both 0 \<noteq> CHR '':''" using assms(6,7) by (cases u) auto
  moreover have "strstr ?both '':'' = Some (length u)" using strstr_colon [of u "p @ [NUL]"] assms(7,8) by simp
  moreover have "nat (1 + (int (length u) + int (length p))) = Suc (length u + length p)" by simp
  ultimately show ?thesis
    using tok assms(5,8) unfolding mg_parse_auth_hdr_basic_eq [OF cred refl]
    by (simp add: strndup_def MAX_UIDPWD_def)
qed

lemma digest_fields:
  assumes "fs \<noteq> []" and "list_all field_ok fs" and "length (digest_text fs) \<le> 379"
  shows "mg_parse_auth_hdr_digest (''Digest '' @ digest_text fs) ah =
    Some (foldl apply_field (ah\<lparr>mode := AUTH_DIGEST\<rparr>) fs)"
proof -
  let ?t = "digest_text fs" and ?k = "379 - length (digest_text fs)"
  have nn: "NUL \<notin> set (digest_text fs)" if "list_all field_ok fs" for fs
    using that
  proof (induction fs rule: digest_text.induct)
    case (2 n v)
    then show ?case using field_name_props [of n v] by (auto simp: field_ok_def)
  next
    case (3 n v f fs)
    then show ?case using field_name_props [of n v] by (auto simp: field_ok_def)
  qed simp
  then have cs: "cstr ?t = ?t" using assms(2) by (simp add: cstr_id)
  have pad: "MAX_AUTH_HDR_LEN - length ?t = Suc (4 + ?k)"
    using assms(3) by (simp add: MAX_AUTH_HDR_LEN_def)
  have "strcpy_s (Some (replicate MAX_AUTH_HDR_LEN NUL)) MAX_AUTH_HDR_LEN (Some ?t) =
      Some (Some (?t @ replicate (MAX_AUTH_HDR_LEN - length ?t) NUL), EOK)"
    using assms(3) cs by (simp add: strcpy_s_def strncpy_def wr_block_def MAX_AUTH_HDR_LEN_def)
  then have cpy: "strcpy_s (Some (replicate MAX_AUTH_HDR_LEN NUL)) MAX_AUTH_HDR_LEN (Some ?t) =
      Some (Some (?t @ NUL # replicate (4 + ?k) NUL), EOK)"
    unfolding pad replicate_Suc .
  have "digest_loop (?t @ NUL # replicate (4 + ?k) NUL) 0 (ah\<lparr>mode := AUTH_DIGEST\<rparr>) =
      Some (foldl apply_field (ah\<lparr>mode := AUTH_DIGEST\<rparr>) fs)"
    using digest_loop_pairs [of fs "[]" "[]" "replicate (4 + ?k) NUL" "ah\<lparr>mode := AUTH_DIGEST\<rparr>"] assms by simp
  with cpy cs show ?thesis by (simp add: mg_parse_auth_hdr_digest_def)
qed

section \<open>Properties\<close>

text \<open>credentials are reported good only in the scheme the server is configured for: the parsed
  header has that scheme; Basic and Digest have a user, Digest also the URI, both nonces and the
  nonce count, and Bearer a token. A header in another scheme never yields credentials.\<close>

theorem mg_parse_auth_header_good:
  assumes "mg_parse_auth_header bio_read auth_mode conn est_create_ah = Some (EST_AUTH_HDR_GOOD, ah, conn')"
  shows "mode ah = auth_mode
    \<and> (auth_mode = AUTH_BASIC \<and> user ah \<noteq> None
      \<or> auth_mode = AUTH_DIGEST \<and> user ah \<noteq> None \<and> ah_uri ah \<noteq> None \<and> nonce ah \<noteq> None \<and> nc ah \<noteq> None \<and> cnonce ah \<noteq> None
      \<or> auth_mode = AUTH_TOKEN \<and> auth_token ah \<noteq> None)"
proof -
  define finish where "finish ah' = (if mode ah' = AUTH_DIGEST
        \<and> (ah_uri ah' = None \<or> nonce ah' = None \<or> nc ah' = None \<or> cnonce ah' = None)
      then (EST_AUTH_HDR_BAD, ah', conn)
      else if user ah' = None \<and> mode ah' \<noteq> AUTH_TOKEN then (EST_AUTH_HDR_BAD, ah', conn)
      else (EST_AUTH_HDR_GOOD, ah',
        if mode ah' \<noteq> AUTH_TOKEN then conn\<lparr>user_id := strndup (the (user ah')) 256\<rparr> else conn))"
    for ah' :: EST_HTTP_AUTH_HDR
  obtain h where h: "mg_get_header conn ''Authorization'' = Some h"
    using assms by (auto simp: mg_parse_auth_header_def split: option.splits)
  have fin: "ah' = ah \<and> (user ah \<noteq> None \<or> mode ah = AUTH_TOKEN)
      \<and> (mode ah = AUTH_DIGEST \<longrightarrow> ah_uri ah \<noteq> None \<and> nonce ah \<noteq> None \<and> nc ah \<noteq> None \<and> cnonce ah \<noteq> None)"
    if "finish ah' = (EST_AUTH_HDR_GOOD, ah, conn')" for ah'
    using that by (auto simp: finish_def split: if_splits)
  have create: "mode est_create_ah = AUTH_NONE" "user est_create_ah = None" by (simp_all add: est_create_ah_def)
  from assms consider
      ah' where "auth_mode = AUTH_DIGEST" "mg_parse_auth_hdr_digest h est_create_ah = Some ah'" "finish ah' = (EST_AUTH_HDR_GOOD, ah, conn')"
    | ah' where "auth_mode = AUTH_BASIC" "mg_parse_auth_hdr_basic bio_read h est_create_ah = Some ah'" "finish ah' = (EST_AUTH_HDR_GOOD, ah, conn')"
    | "auth_mode = AUTH_TOKEN" "finish (mg_parse_auth_hdr_token bio_read h est_create_ah) = (EST_AUTH_HDR_GOOD, ah, conn')"
    unfolding mg_parse_auth_header_def h option.case Let_def finish_def [symmetric]
    by (fastforce split: if_split_asm)
  then show ?thesis
  proof cases
    case 1
    then show ?thesis using fin mg_parse_auth_hdr_digest_mode by fastforce
  next
    case 2
    then show ?thesis using fin create mg_parse_auth_hdr_basic_mode by fastforce
  next
    case 3
    then show ?thesis using fin create mg_parse_auth_hdr_token_mode [of bio_read h est_create_ah] by fastforce
  qed
qed

theorem mg_parse_auth_header_good_witness:
  "\<exists>ah conn'. mg_parse_auth_header (\<lambda>_ s. if s = ''dTpw'' then ''u:p'' else []) AUTH_BASIC
     \<lparr>request_info = \<lparr>request_method = None, uri = None, http_version = None, query_string = None,
        http_headers = [(''Authorization'', ''Basic dTpw'')]\<rparr>,
      must_close = False, status_code = 0, enable_keepalives = False, content_len = 0, request_len = 0,
      data_len = 0, conn_buf = [], user_id = []\<rparr> est_create_ah = Some (EST_AUTH_HDR_GOOD, ah, conn')
   \<and> mode ah = AUTH_BASIC \<and> user ah \<noteq> None"
proof -
  let ?bio = "\<lambda>(_ :: bool) s. if s = ''dTpw'' then ''u:p'' else []"
  let ?conn = "\<lparr>request_info = \<lparr>request_method = None, uri = None, http_version = None, query_string = None,
        http_headers = [(''Authorization'', ''Basic dTpw'')]\<rparr>,
      must_close = False, status_code = 0, enable_keepalives = False, content_len = 0, request_len = 0,
      data_len = 0, conn_buf = [], user_id = []\<rparr>"
  have dec: "est_base64_decode ?bio ''dTpw'' 512 = Some (3, ''u:p'')" by code_simp
  have "mg_parse_auth_hdr_basic ?bio ''Basic dTpw'' est_create_ah =
      Some (est_create_ah\<lparr>user := Some ''u'', pwd := Some ''p'', mode := AUTH_BASIC\<rparr>)"
    using basic_user_pwd [of "''dTpw''" ?bio "''u''" "''p''" est_create_ah] dec by (simp add: isspace_def uchr_def)
  moreover have "mg_strncasecmp ''Basic dTpw'' ''Digest '' 7 \<noteq> 0" "mg_strncasecmp ''Basic dTpw'' ''Basic '' 6 = 0"
    "mg_get_header ?conn ''Authorization'' = Some ''Basic dTpw''"
    by code_simp+
  ultimately have "\<exists>ah conn'. mg_parse_auth_header ?bio AUTH_BASIC ?conn est_create_ah = Some (EST_AUTH_HDR_GOOD, ah, conn')"
    by (simp add: mg_parse_auth_header_def Let_def)
  then show ?thesis using mg_parse_auth_header_good [of ?bio AUTH_BASIC ?conn] by fastforce
qed

text \<open>a Basic header whose base64 text decodes to \<open>user:password\<close> gives exactly that user and that
  password (each cut at 255 bytes; the password may contain colons and ends at a NUL byte).\<close>

theorem mg_parse_auth_hdr_basic_user_pwd:
  assumes "v \<noteq> []" and "NUL \<notin> set v" and "\<not> isspace (hd v)"
    and "est_base64_decode bio_read v 512 = Some (int (length (u @ CHR '':'' # p)), u @ CHR '':'' # p)"
    and "length (u @ CHR '':'' # p) < 512" and "u \<noteq> []" and "CHR '':'' \<notin> set u" and "NUL \<notin> set u"
  shows "mg_parse_auth_hdr_basic bio_read (''Basic '' @ v) ah =
    Some (ah\<lparr>user := Some (take 255 u), pwd := Some (take 255 (cstr p)), mode := AUTH_BASIC\<rparr>)"
  using assms by (rule basic_user_pwd)

theorem mg_parse_auth_hdr_basic_user_pwd_witness:
  "mg_parse_auth_hdr_basic (\<lambda>_ s. ''u:p:q'') (''Basic '' @ ''dTpwOnE='') est_create_ah =
    Some (est_create_ah\<lparr>user := Some ''u'', pwd := Some ''p:q'', mode := AUTH_BASIC\<rparr>)"
proof -
  have "est_base64_decode (\<lambda>_ s. ''u:p:q'') ''dTpwOnE='' 512 = Some (5, ''u:p:q'')" by code_simp
  then show ?thesis
    using mg_parse_auth_hdr_basic_user_pwd [of "''dTpwOnE=''" "\<lambda>_ s. ''u:p:q''" "''u''" "''p:q''" est_create_ah]
    by (simp add: isspace_def uchr_def)
qed

text \<open>a Digest header made of \<open>name="value"\<close> pairs with the eight standard names, values without
  quotes and backslashes, and at most 379 bytes, is parsed without leaving the 384-byte buffer, and
  every field holds the last value given for it, cut at the size of the field.\<close>

theorem mg_parse_auth_hdr_digest_fields:
  assumes "fs \<noteq> []" and "list_all field_ok fs" and "length (digest_text fs) \<le> 379"
  shows "mg_parse_auth_hdr_digest (''Digest '' @ digest_text fs) ah =
    Some (foldl apply_field (ah\<lparr>mode := AUTH_DIGEST\<rparr>) fs)"
  using assms by (rule digest_fields)

theorem mg_parse_auth_hdr_digest_fields_witness:
  "mg_parse_auth_hdr_digest (''Digest '' @ digest_text [(''username'', ''u''), (''nc'', ''00000001'')]) est_create_ah =
    Some (est_create_ah\<lparr>mode := AUTH_DIGEST, user := Some ''u'', nc := Some ''00000001''\<rparr>)"
  using mg_parse_auth_hdr_digest_fields [of "[(''username'', ''u''), (''nc'', ''00000001'')]" est_create_ah]
  by (simp add: field_ok_def apply_field_def)

text \<open>a Digest header longer than the stack buffer fills it without a terminator; if it holds no
  delimiter in its first 384 bytes the parser reads past the buffer.\<close>

theorem mg_parse_auth_hdr_digest_overread:
  "mg_parse_auth_hdr_digest (''Digest '' @ replicate 400 CHR ''a'') est_create_ah = None"
proof -
  have buf: "strcpy_s (Some (replicate MAX_AUTH_HDR_LEN NUL)) MAX_AUTH_HDR_LEN (Some (replicate 400 CHR ''a'')) =
      Some (Some (replicate 384 CHR ''a''), EOK)"
    by (simp add: strcpy_s_def strncpy_def wr_block_def MAX_AUTH_HDR_LEN_def cstr_id)
  let ?m = "replicate 384 CHR ''a''"
  have "rd ?m 0 = Some CHR ''a''" by (simp add: rd_def)
  then have "skip_spaces ?m 0 = Some 0" by (subst skip_spaces.simps) (simp add: isspace_def uchr_def)
  moreover have "skip_quoted ?m 0 ''='' '' '' NUL = None"
  proof -
    have "est_strcspn ?m ''='' = 384"
      by (subst est_strcspn_eq) (simp_all add: RSIZE_MAX_STR_def cstr_id takeWhile_eq_all_conv)
    moreover have "skip_quoted_loop ?m 383 384 ''='' NUL = None"
      by (subst skip_quoted_loop.simps) (simp add: rd_def)
    ultimately show ?thesis by (simp add: skip_quoted_def Let_def)
  qed
  ultimately have "digest_pair ?m 0 = None" by (simp add: digest_pair_def)
  then have "digest_loop ?m 0 ah = None" for ah by (subst digest_loop.simps) simp
  with buf show ?thesis by (simp add: mg_parse_auth_hdr_digest_def cstr_id)
qed

end
