(* ===== verification/Est_Ctx.thy ===== *)
theory Est_Ctx
  imports Http_Auth
begin

text \<open>
  The state of the server: what the library reads from OpenSSL, the EST context
  (\<^verbatim>\<open>struct est_ctx\<close> of \<^verbatim>\<open>src/src/est/est_locl.h\<close>, the members the server operations use), and the
  HTTP side of a request with a log of what was sent and which callbacks ran.

  OpenSSL objects are opaque handles. The OpenSSL functions the code calls are the fields of
  \<open>OPENSSL\<close>, a parameter of every definition that uses them; \<open>SSL\<close> is what the TLS stack answers about
  the current connection. Application callbacks are functions in the context.
\<close>

section \<open>OpenSSL\<close>

type_synonym X509 = nat
type_synonym X509_REQ = nat
type_synonym X509_STORE = nat
type_synonym EVP_PKEY = nat

text \<open>
  \<open>subject_field\<close>: data of the first subject entry with a NID, for a certificate and for a request.
  \<open>challenge_attr\<close>: no \<^verbatim>\<open>challengePassword\<close> index, an index without attribute, or its string data.
  \<open>pem_certs\<close>: for each entry of \<^verbatim>\<open>PEM_X509_INFO_read_bio\<close> whether it has a certificate.
  \<open>req_sign key csr\<close>: the request after \<^verbatim>\<open>X509_REQ_set_pubkey\<close> and \<^verbatim>\<open>X509_REQ_sign_ctx\<close>.
\<close>

record OPENSSL =
  subject_field :: "X509 \<Rightarrow> int \<Rightarrow> string option"
  req_subject_field :: "X509_REQ \<Rightarrow> int \<Rightarrow> string option"
  X509_STORE_CTX_init :: "X509_STORE \<Rightarrow> X509 \<Rightarrow> X509 list \<Rightarrow> bool"
  X509_verify_cert :: "X509_STORE \<Rightarrow> X509 \<Rightarrow> X509 list \<Rightarrow> int"
  d2i_X509_REQ_bio :: "bool \<Rightarrow> string \<Rightarrow> X509_REQ option"
  X509_REQ_get_pubkey :: "X509_REQ \<Rightarrow> EVP_PKEY option"
  X509_REQ_verify :: "X509_REQ \<Rightarrow> EVP_PKEY \<Rightarrow> int"
  ext_key_usage :: "X509 \<Rightarrow> string list option"
  challenge_attr :: "X509_REQ \<Rightarrow> string option option"
  pem_certs :: "string \<Rightarrow> bool list option"
  bio_read :: "bool \<Rightarrow> string \<Rightarrow> string"
  bio_write :: "bool \<Rightarrow> string \<Rightarrow> string"
  i2d_PrivateKey :: "EVP_PKEY \<Rightarrow> string"
  X509_REQ_set_pubkey :: "X509_REQ \<Rightarrow> EVP_PKEY \<Rightarrow> X509_REQ option"
  X509_REQ_sign :: "X509_REQ \<Rightarrow> EVP_PKEY \<Rightarrow> X509_REQ option"
  i2d_X509_REQ_b64 :: "X509_REQ \<Rightarrow> string"

record SSL =
  peer_certificate :: "X509 option"
  verify_result :: int
  srp_username :: "string option"
  peer_cert_chain :: "X509 list option"
  session_reused :: bool
  finished_msg :: string
  peer_finished_msg :: string
  ssl_version :: int

definition X509_V_OK :: int where "X509_V_OK = 0"
definition X509_V_ERR_UNABLE_TO_GET_CRL :: int where "X509_V_ERR_UNABLE_TO_GET_CRL = 3"

section \<open>The context\<close>

datatype EST_MODE = EST_SERVER | EST_CLIENT | EST_PROXY
datatype EST_TRANSPORT_MODE = EST_HTTP | EST_COAP
datatype EST_ENROLL_REQ_TYPE = SIMPLE_ENROLL_REQ | REENROLL_REQ | SERVERKEYGEN_REQ

datatype EST_AUTH_STATE =
    EST_UNAUTHORIZED | EST_CSR_PARSE_FAIL | EST_HTTP_AUTH | EST_HTTP_AUTH_PENDING
  | EST_CERT_AUTH | EST_SRP_AUTH

datatype EST_BRSKI_CALLBACK_RC =
    EST_BRSKI_CB_SUCCESS | EST_BRSKI_CB_RETRY | EST_BRSKI_CB_INVALID_PARAMETER | EST_BRSKI_CB_FAILURE

definition NUM_SUPPORTED_MFG :: nat where "NUM_SUPPORTED_MFG = 4"
definition MFG_NAME_MAX_LEN :: nat where "MFG_NAME_MAX_LEN = 255"

record ENCHD_CERT_MFG_INFO =
  mfg_name :: string
  nid :: int
  truststore :: "X509_STORE option"
  store_ctx :: bool

type_synonym enroll_cb = "string \<Rightarrow> string option \<Rightarrow> X509 option \<Rightarrow> string option \<Rightarrow> EST_ERROR \<times> string"

text \<open>
  A buffer with its length is the list of its bytes, so that \<^verbatim>\<open>cert_len > 0\<close> is that the list is not
  empty. \<open>require_http_auth\<close>, \<open>enhanced_cert_auth_enabled\<close> and \<open>enhanced_cert_auth_csr_check\<close> are
  two-valued enumerations of the code.
\<close>

record EST_CTX =
  est_mode :: EST_MODE
  transport_mode :: EST_TRANSPORT_MODE
  auth_mode :: EST_HTTP_AUTH_MODE
  realm :: string
  require_http_auth :: bool
  est_http_auth_cb :: "(EST_HTTP_AUTH_HDR \<Rightarrow> X509 option \<Rightarrow> string option \<Rightarrow> bool) option"
  enhanced_cert_auth_enabled :: bool
  enhanced_cert_auth_csr_check :: bool
  enchd_cert_mfgs_info_list :: "ENCHD_CERT_MFG_INFO list option"
  enhcd_cert_local_pki_nid :: int
  enhcd_cert_auth_pwd :: string
  server_enable_pop :: bool
  csr_pop_present :: bool
  enforce_csrattrs :: bool
  server_csrattrs :: "string option"
  est_get_csr_cb :: "(string option \<Rightarrow> X509 option \<Rightarrow> string option) option"
  est_enroll_pkcs10_cb :: "enroll_cb option"
  est_reenroll_pkcs10_cb :: "enroll_cb option"
  est_server_keygen_pkcs10_cb :: "(string \<Rightarrow> string \<Rightarrow> string option \<Rightarrow> X509 option \<Rightarrow> string option
     \<Rightarrow> EST_ERROR \<times> string \<times> string) option"
  keygen_cb :: "(EST_ERROR \<times> EVP_PKEY option) option"
  est_get_cacerts_cb :: "(string option \<Rightarrow> string option) option"
  ca_certs :: "string option"
  retry_period :: int
  retry_after_delay :: int
  brski_retry_period :: int
  est_brski_voucher_req_cb :: "(string \<Rightarrow> X509 option \<Rightarrow> EST_BRSKI_CALLBACK_RC \<times> string) option"
  est_brski_voucher_status_cb :: "(string \<Rightarrow> X509 option \<Rightarrow> EST_BRSKI_CALLBACK_RC) option"
  est_brski_enroll_status_cb :: "(string \<Rightarrow> X509 option \<Rightarrow> EST_BRSKI_CALLBACK_RC) option"

section \<open>The HTTP side of a request\<close>

text \<open>
  \<open>Http_Error status reason\<close> marks a call of \<^verbatim>\<open>mg_send_http_error\<close> and \<open>Auth_Request\<close> one of
  \<^verbatim>\<open>mg_send_authorization_request\<close>; \<open>Write\<close> are bytes that \<^verbatim>\<open>mg_write\<close> sent. \<open>Auth_Result\<close> is the event
  callback at the end of authentication, and the \<open>Cb\<close> events record that a callback of the
  application ran. \<open>sock\<close> are the results of the coming calls of \<^verbatim>\<open>SSL_write\<close>; when none is left the
  connection is gone and every call fails. \<open>now\<close> is the time of day.
\<close>

datatype event =
    Http_Error int string
  | Auth_Request EST_HTTP_AUTH_MODE
  | Write string
  | Auth_Result EST_HTTP_AUTH_HDR_RESULT EST_AUTH_STATE
  | Cb_Enroll EST_ENROLL_REQ_TYPE string
  | Cb_Keygen
  | Cb_Voucher string
  | Cb_Status string

record HTTP_CTX =
  conn :: mg_connection
  sock :: "int list"
  now :: nat
  log :: "event list"

definition emit :: "event \<Rightarrow> HTTP_CTX \<Rightarrow> HTTP_CTX" where
  "emit e w = w\<lparr>log := log w @ [e]\<rparr>"

definition set_status :: "int \<Rightarrow> HTTP_CTX \<Rightarrow> HTTP_CTX" where
  "set_status n w = w\<lparr>conn := (conn w)\<lparr>status_code := n\<rparr>\<rparr>"

text \<open>
  \<^verbatim>\<open>push\<close> on a TLS connection: the bytes sent and the results that are left. A result of 0 is tried again;
  \<^verbatim>\<open>mg_write\<close> returns how many bytes went out.
\<close>

fun push :: "int list \<Rightarrow> string \<Rightarrow> string \<times> int list" where
  "push rs [] = ([], rs)"
| "push [] bs = ([], [])"
| "push (n # rs) bs =
     (if n < 0 then ([], rs)
      else (let (sent, rest) = push rs (drop (nat n) bs) in (take (nat n) bs @ sent, rest)))"

definition mg_write :: "string \<Rightarrow> HTTP_CTX \<Rightarrow> nat \<times> HTTP_CTX" where
  "mg_write bs w =
     (let (sent, rest) = push (sock w) bs; w' = w\<lparr>sock := rest\<rparr> in
      (length sent, if sent = [] then w' else emit (Write sent) w'))"

text \<open>
  \<^verbatim>\<open>mg_printf\<close> of a formatted text; a text of exactly \<^verbatim>\<open>MG_BUF_LEN\<close> bytes is cut by \<^verbatim>\<open>vsnprintf\<close> but sent at
  its full length.
\<close>

definition MG_BUF_LEN :: nat where "MG_BUF_LEN = 8192"

definition mg_printf :: "string \<Rightarrow> HTTP_CTX \<Rightarrow> HTTP_CTX" where
  "mg_printf text w =
     (if text = [] then w
      else snd (mg_write (if length text = MG_BUF_LEN then take (MG_BUF_LEN - 1) text @ [NUL] else text) w))"

text \<open>Decimal output of \<^verbatim>\<open>%d\<close>.\<close>

fun digits :: "nat \<Rightarrow> string" where
  "digits n = (if n < 10 then [char_of (48 + n)] else digits (n div 10) @ [char_of (48 + n mod 10)])"

declare digits.simps [simp del]

definition itoa :: "int \<Rightarrow> string" where
  "itoa i = (if i < 0 then CHR ''-'' # digits (nat (- i)) else digits (nat i))"

definition CRLF :: string where
  "CRLF = [CR, LF]"

text \<open>The reasons are short constants of the code, so that only the body can be cut by the buffer.\<close>

definition mg_send_http_error :: "int \<Rightarrow> string \<Rightarrow> string \<Rightarrow> HTTP_CTX \<Rightarrow> HTTP_CTX" where
  "mg_send_http_error status reason body w =
     (let first = ''Error '' @ itoa status @ '': '' @ reason @ [LF];
          buf = (if status > 199 \<and> status \<noteq> 204 \<and> status \<noteq> 304
                 then first @ take (MG_BUF_LEN - length first - 1) body else []);
          w1 = emit (Http_Error status reason) (set_status status w);
          w2 = mg_printf (''HTTP/1.1 '' @ itoa status @ '' '' @ reason @ CRLF
                 @ ''Content-Length: '' @ itoa (int (length buf)) @ CRLF
                 @ ''Connection: '' @ suggest_connection_header (conn w1) @ CRLF @ CRLF) w1
      in mg_printf buf w2)"

text \<open>Only the three authentication modes a server can be configured with send a response.\<close>

definition mg_send_authorization_request :: "EST_CTX \<Rightarrow> HTTP_CTX \<Rightarrow> HTTP_CTX" where
  "mg_send_authorization_request ctx w =
     (let w1 = emit (Auth_Request (auth_mode ctx)) (set_status 401 w);
          hdr = ''HTTP/1.1 401 Unauthorized'' @ CRLF @ ''Content-Length: 0'' @ CRLF @ ''WWW-Authenticate: '';
          realm_par = ''realm='' @ [CHR 0x22] @ realm ctx @ [CHR 0x22] in
      case auth_mode ctx of
        AUTH_BASIC \<Rightarrow> mg_printf (hdr @ ''Basic '' @ realm_par @ CRLF @ CRLF) w1
      | AUTH_DIGEST \<Rightarrow> mg_printf (hdr @ ''Digest qop='' @ [CHR 0x22] @ ''auth'' @ [CHR 0x22] @ '', '' @ realm_par
            @ '', nonce='' @ [CHR 0x22] @ digits (now w) @ [CHR 0x22] @ CRLF @ CRLF) w1
      | AUTH_TOKEN \<Rightarrow> mg_printf (hdr @ ''Bearer '' @ realm_par @ CRLF @ CRLF) w1
      | AUTH_FAIL \<Rightarrow> w1
      | AUTH_NONE \<Rightarrow> w1)"

lemma emit_simps [simp]:
  "log (emit e w) = log w @ [e]" "conn (emit e w) = conn w" "sock (emit e w) = sock w"
  by (simp_all add: emit_def)

lemma set_status_simps [simp]:
  "log (set_status n w) = log w" "sock (set_status n w) = sock w" "status_code (conn (set_status n w)) = n"
  by (simp_all add: set_status_def)

section \<open>Sample values\<close>

text \<open>A concrete library, session, context and connection, on which the hypotheses of theorems are shown to hold.\<close>

definition sample_ossl :: OPENSSL where
  "sample_ossl = \<lparr>subject_field = \<lambda>c n. if n = 13 then Some ''dev'' else None,
     req_subject_field = \<lambda>c n. if n = 13 then Some ''dev'' else None,
     X509_STORE_CTX_init = \<lambda>_ _ _. True, X509_verify_cert = \<lambda>s _ _. if s = 7 then 1 else 0,
     d2i_X509_REQ_bio = \<lambda>_ bs. if bs = ''csr'' then Some 5 else None,
     X509_REQ_get_pubkey = \<lambda>_. Some 1, X509_REQ_verify = \<lambda>_ _. 1, ext_key_usage = \<lambda>_. None,
     challenge_attr = \<lambda>_. None, pem_certs = \<lambda>_. Some [True],
     bio_read = \<lambda>_ s. if s = ''dTpw'' then ''u:p'' else [], bio_write = \<lambda>_ s. s,
     i2d_PrivateKey = \<lambda>_. ''key'', X509_REQ_set_pubkey = \<lambda>r _. Some r, X509_REQ_sign = \<lambda>r _. Some r,
     i2d_X509_REQ_b64 = \<lambda>_. ''csr''\<rparr>"

definition sample_ssl :: SSL where
  "sample_ssl = \<lparr>peer_certificate = Some 3, verify_result = 0, srp_username = None, peer_cert_chain = Some [3],
     session_reused = False, finished_msg = ''abcdefghijkl'', peer_finished_msg = ''abcdefghijkl'', ssl_version = 771\<rparr>"

definition sample_ctx :: EST_CTX where
  "sample_ctx = \<lparr>est_mode = EST_SERVER, transport_mode = EST_HTTP, auth_mode = AUTH_BASIC, realm = ''estrealm'', require_http_auth = False,
     est_http_auth_cb = Some (\<lambda>ah _ _. user ah = Some ''u'' \<and> pwd ah = Some ''p''),
     enhanced_cert_auth_enabled = False, enhanced_cert_auth_csr_check = False, enchd_cert_mfgs_info_list = None,
     enhcd_cert_local_pki_nid = 13, enhcd_cert_auth_pwd = ''cisco'', server_enable_pop = False, csr_pop_present = False,
     enforce_csrattrs = False, server_csrattrs = None, est_get_csr_cb = None,
     est_enroll_pkcs10_cb = Some (\<lambda>_ _ _ _. (EST_ERR_NONE, ''cert'')),
     est_reenroll_pkcs10_cb = Some (\<lambda>_ _ _ _. (EST_ERR_NONE, ''cert'')),
     est_server_keygen_pkcs10_cb = None, keygen_cb = None, est_get_cacerts_cb = None, ca_certs = Some ''pkcs7'',
     retry_period = 3600, retry_after_delay = 0, brski_retry_period = 60,
     est_brski_voucher_req_cb = None, est_brski_voucher_status_cb = None, est_brski_enroll_status_cb = None\<rparr>"

definition sample_http :: HTTP_CTX where
  "sample_http = \<lparr>conn = \<lparr>request_info = \<lparr>request_method = Some ''POST'', uri = Some ''/.well-known/est/simpleenroll'',
       http_version = Some ''1.1'', query_string = None, http_headers = []\<rparr>,
     must_close = False, status_code = 0, enable_keepalives = False, content_len = 0, request_len = 0,
     data_len = 0, conn_buf = [], user_id = []\<rparr>, sock = [1000, 1000, 1000, 1000], now = 0, log = []\<rparr>"

end
