(* ===== verification/Enhcd_Auth.thy ===== *)
theory Enhcd_Auth
  imports Est_Ctx
begin

text \<open>
  Enhanced certificate authentication, \<^verbatim>\<open>src/src/est/est_enhcd_cert_auth.c\<close>, with the certificate
  helpers of \<^verbatim>\<open>src/src/est/est_ossl_util.c\<close> it uses: the table of manufacturers and their trust stores,
  the search for the manufacturer that issued a certificate, the check that the identifying subject
  field is carried over into the request, and the synthetic authentication header.
\<close>

section \<open>Certificate helpers\<close>

text \<open>\<open>bm\<close> is the printed subject name, \<open>name\<close> the caller's buffer and \<open>len\<close> the size it passes.\<close>

definition est_get_subj_fld_from_cert :: "string \<Rightarrow> mem \<Rightarrow> nat \<Rightarrow> (EST_ERROR \<times> mem) option" where
  "est_get_subj_fld_from_cert bm name len =
     do { (d, rc) \<leftarrow> memcpy_s (Some name) len (Some bm) (if length bm > len then len else length bm);
          name' \<leftarrow> d;
          if rc \<noteq> EOK then Some (EST_ERR_SYSCALL, name')
          else do { name'' \<leftarrow> wr name' (if length bm < len then length bm else len) NUL;
                    Some (EST_ERR_NONE, name'') } }"

definition ossl_verify_cb :: "bool \<Rightarrow> int \<Rightarrow> bool" where
  "ossl_verify_cb ok cert_error = (if \<not> ok then cert_error = X509_V_ERR_UNABLE_TO_GET_CRL else ok)"

definition ossl_init_cert_store_from_raw :: "OPENSSL \<Rightarrow> string \<Rightarrow> nat" where
  "ossl_init_cert_store_from_raw ossl raw =
     (case pem_certs ossl raw of None \<Rightarrow> 0 | Some sk \<Rightarrow> length (filter (\<lambda>x509. x509) sk))"

definition ossl_init_cert_store :: "OPENSSL \<Rightarrow> string option \<Rightarrow> EST_ERROR" where
  "ossl_init_cert_store ossl raw1 =
     (case raw1 of None \<Rightarrow> EST_ERR_NONE
      | Some raw \<Rightarrow> if ossl_init_cert_store_from_raw ossl raw = 0 then EST_ERR_NO_CERTS_FOUND else EST_ERR_NONE)"

section \<open>The table of manufacturers\<close>

definition empty_mfg_info :: ENCHD_CERT_MFG_INFO where
  "empty_mfg_info = \<lparr>mfg_name = [], nid = 0, truststore = None, store_ctx = False\<rparr>"

definition est_enhcd_cert_auth_mfg_info_list_create :: "EST_CTX \<Rightarrow> EST_ERROR \<times> EST_CTX" where
  "est_enhcd_cert_auth_mfg_info_list_create ctx =
     (EST_ERR_NONE, ctx\<lparr>enchd_cert_mfgs_info_list := Some (replicate NUM_SUPPORTED_MFG empty_mfg_info)\<rparr>)"

fun next_free :: "ENCHD_CERT_MFG_INFO list \<Rightarrow> nat \<Rightarrow> int" where
  "next_free [] i = -1"
| "next_free (x # xs) i = (if truststore x = None then int i else next_free xs (Suc i))"

definition est_enhcd_cert_get_next_mfg_info_ind :: "EST_CTX \<Rightarrow> EST_ERROR \<times> int" where
  "est_enhcd_cert_get_next_mfg_info_ind ctx =
     (case enchd_cert_mfgs_info_list ctx of
        None \<Rightarrow> (EST_ERR_INVALID_PARAMETERS, -1)
      | Some l \<Rightarrow> (EST_ERR_NONE, next_free l 0))"

text \<open>
  \<open>new_store\<close> and \<open>new_ctx\<close> are the results of \<^verbatim>\<open>X509_STORE_new\<close> and \<^verbatim>\<open>X509_STORE_CTX_new\<close>. The copy of
  the name into its 256 bytes is bounded by 255.
\<close>

definition est_load_enhcd_cert_auth_manufacturer ::
  "OPENSSL \<Rightarrow> X509_STORE option \<Rightarrow> bool \<Rightarrow> EST_CTX \<Rightarrow> string \<Rightarrow> int \<Rightarrow> string \<Rightarrow> EST_ERROR \<times> EST_CTX" where
  "est_load_enhcd_cert_auth_manufacturer ossl new_store new_ctx ctx name subject_field_nid certs =
     (case enchd_cert_mfgs_info_list ctx of
        None \<Rightarrow> (EST_ERR_INVALID_PARAMETERS, ctx)
      | Some l \<Rightarrow>
          (let (rv, i) = est_enhcd_cert_get_next_mfg_info_ind ctx in
           if rv \<noteq> EST_ERR_NONE \<or> i < 0 then (rv, ctx)
           else
             (let upd = (\<lambda>e. ctx\<lparr>enchd_cert_mfgs_info_list := Some (l[nat i := e])\<rparr>);
                  e1 = (l ! nat i)\<lparr>mfg_name := take MFG_NAME_MAX_LEN (cstr name), nid := subject_field_nid,
                                  truststore := new_store\<rparr> in
              (case new_store of
                 None \<Rightarrow> (EST_ERR_MALLOC, upd e1)
               | Some _ \<Rightarrow>
                   (let rv = ossl_init_cert_store ossl (Some certs) in
                    if rv \<noteq> EST_ERR_NONE then (rv, upd (e1\<lparr>truststore := None\<rparr>))
                    else if \<not> new_ctx then (EST_ERR_MALLOC, upd (e1\<lparr>store_ctx := False, truststore := None\<rparr>))
                    else (EST_ERR_NONE, upd (e1\<lparr>store_ctx := True\<rparr>)))))))"

definition mfg_info_list_destroy :: "EST_CTX \<Rightarrow> EST_CTX" where
  "mfg_info_list_destroy ctx = ctx\<lparr>enchd_cert_mfgs_info_list := None\<rparr>"

section \<open>Finding the manufacturer of a certificate\<close>

text \<open>
  The loop keeps \<^verbatim>\<open>rv\<close>: the result 0 of a failed verification is \<^verbatim>\<open>EST_ERR_NONE\<close>, and any other result,
  negative ones included, ends the search at that manufacturer.
\<close>

fun get_mfg_loop ::
  "OPENSSL \<Rightarrow> X509 \<Rightarrow> X509 list \<Rightarrow> ENCHD_CERT_MFG_INFO list \<Rightarrow> nat \<Rightarrow> EST_ERROR \<Rightarrow> EST_ERROR \<times> int" where
  "get_mfg_loop ossl peer chain [] i rv = (rv, -1)"
| "get_mfg_loop ossl peer chain (e # es) i rv =
     (case truststore e of
        None \<Rightarrow> get_mfg_loop ossl peer chain es (Suc i) rv
      | Some store \<Rightarrow>
          if \<not> store_ctx e then get_mfg_loop ossl peer chain es (Suc i) rv
          else if \<not> X509_STORE_CTX_init ossl store peer chain then (EST_ERR_MALLOC, -1)
          else if X509_verify_cert ossl store peer chain = 0
            then get_mfg_loop ossl peer chain es (Suc i) EST_ERR_NONE
          else (EST_ERR_NONE, int i))"

definition est_enhcd_cert_auth_get_mfg :: "OPENSSL \<Rightarrow> EST_CTX \<Rightarrow> X509 \<Rightarrow> X509 list \<Rightarrow> EST_ERROR \<times> int" where
  "est_enhcd_cert_auth_get_mfg ossl ctx peer peer_chain =
     (case enchd_cert_mfgs_info_list ctx of
        None \<Rightarrow> (EST_ERR_NONE, -1)
      | Some l \<Rightarrow> get_mfg_loop ossl peer peer_chain (take NUM_SUPPORTED_MFG l) 0 EST_ERR_VALIDATION)"

section \<open>The CSR check\<close>

definition get_cert_subject_line_field :: "OPENSSL \<Rightarrow> X509 \<Rightarrow> int \<Rightarrow> EST_HTTP_AUTH_HDR_RESULT \<times> string option" where
  "get_cert_subject_line_field ossl cert n =
     (case subject_field ossl cert n of None \<Rightarrow> (EST_AUTH_ECA_ERR, None) | Some f \<Rightarrow> (EST_AUTH_HDR_GOOD, Some f))"

definition get_csr_subject_line_field :: "OPENSSL \<Rightarrow> X509_REQ \<Rightarrow> int \<Rightarrow> EST_HTTP_AUTH_HDR_RESULT \<times> string option" where
  "get_csr_subject_line_field ossl csr n =
     (case req_subject_field ossl csr n of None \<Rightarrow> (EST_AUTH_ECA_ERR, None) | Some f \<Rightarrow> (EST_AUTH_HDR_GOOD, Some f))"

fun csr_check_loop :: "OPENSSL \<Rightarrow> X509 \<Rightarrow> X509_REQ \<Rightarrow> ENCHD_CERT_MFG_INFO list \<Rightarrow> int \<Rightarrow> int" where
  "csr_check_loop ossl peer csr [] cmp_ind = cmp_ind"
| "csr_check_loop ossl peer csr (e # es) cmp_ind =
     (if truststore e = None \<or> \<not> store_ctx e then csr_check_loop ossl peer csr es cmp_ind
      else (case get_cert_subject_line_field ossl peer (nid e) of
          (EST_AUTH_HDR_GOOD, Some cert_field) \<Rightarrow>
            (case get_csr_subject_line_field ossl csr (nid e) of
               (EST_AUTH_HDR_GOOD, Some csr_field) \<Rightarrow>
                 (let cert_len = strnlen_s (Some cert_field) (MAX_UIDPWD + 1);
                      csr_len = strnlen_s (Some csr_field) (MAX_UIDPWD + 1) in
                  if cert_len \<noteq> csr_len then csr_check_loop ossl peer csr es 1
                  else (let cmp_ind' = (case strcmp_s (Some cert_field) cert_len (Some csr_field) of
                                          (_, Some d) \<Rightarrow> d | (_, None) \<Rightarrow> cmp_ind) in
                        if cmp_ind' = 0 then 0 else csr_check_loop ossl peer csr es cmp_ind'))
             | _ \<Rightarrow> csr_check_loop ossl peer csr es 1)
        | _ \<Rightarrow> csr_check_loop ossl peer csr es 1))"

definition perform_enhanced_cert_auth_csr_check ::
  "OPENSSL \<Rightarrow> EST_CTX \<Rightarrow> X509 option \<Rightarrow> X509_REQ option \<Rightarrow> int \<Rightarrow> EST_HTTP_AUTH_HDR_RESULT" where
  "perform_enhanced_cert_auth_csr_check ossl ctx peer_p csr_p mfg_index =
     (case (peer_p, csr_p) of
        (Some peer, Some csr) \<Rightarrow>
          (case enchd_cert_mfgs_info_list ctx of
             None \<Rightarrow> EST_AUTH_ECA_CSR_CHECK_FAIL
           | Some l \<Rightarrow>
               if mfg_index \<ge> 0 then
                 (let subj_field_nid = nid (l ! nat mfg_index) in
                  case get_cert_subject_line_field ossl peer subj_field_nid of
                    (EST_AUTH_HDR_GOOD, Some cert_field) \<Rightarrow>
                      (case get_csr_subject_line_field ossl csr subj_field_nid of
                         (EST_AUTH_HDR_GOOD, Some csr_field) \<Rightarrow>
                           (let cert_len = strnlen_s (Some cert_field) (MAX_UIDPWD + 1);
                                csr_len = strnlen_s (Some csr_field) (MAX_UIDPWD + 1) in
                            if cert_len \<noteq> csr_len then EST_AUTH_ECA_CSR_CHECK_FAIL
                            else (case strcmp_s (Some cert_field) cert_len (Some csr_field) of
                                (EOK, Some cmp_ind) \<Rightarrow>
                                  if cmp_ind \<noteq> 0 then EST_AUTH_ECA_CSR_CHECK_FAIL else EST_AUTH_HDR_GOOD
                              | _ \<Rightarrow> EST_AUTH_ECA_ERR))
                       | _ \<Rightarrow> EST_AUTH_ECA_CSR_CHECK_FAIL)
                  | _ \<Rightarrow> EST_AUTH_ECA_CSR_CHECK_FAIL)
               else if csr_check_loop ossl peer csr (take NUM_SUPPORTED_MFG l) 0 \<noteq> 0
                 then EST_AUTH_ECA_CSR_CHECK_FAIL else EST_AUTH_HDR_GOOD)
      | _ \<Rightarrow> EST_AUTH_ECA_ERR)"

section \<open>The synthetic header\<close>

definition build_enhanced_cert_auth_header ::
  "OPENSSL \<Rightarrow> EST_CTX \<Rightarrow> EST_HTTP_AUTH_HDR \<Rightarrow> X509 option \<Rightarrow> int \<Rightarrow> EST_HTTP_AUTH_HDR_RESULT \<times> EST_HTTP_AUTH_HDR" where
  "build_enhanced_cert_auth_header ossl ctx ah peer_p n =
     (case peer_p of
        None \<Rightarrow> (EST_AUTH_ECA_ERR, ah)
      | Some peer \<Rightarrow>
          (let ah1 = ah\<lparr>mode := AUTH_BASIC\<rparr> in
           case get_cert_subject_line_field ossl peer n of
             (EST_AUTH_HDR_GOOD, Some f) \<Rightarrow>
               (EST_AUTH_HDR_GOOD, ah1\<lparr>user := Some (strndup f (MAX_UIDPWD + 1)),
                                       pwd := Some (strndup (enhcd_cert_auth_pwd ctx) (MAX_UIDPWD + 1))\<rparr>)
           | _ \<Rightarrow> (EST_AUTH_ECA_ERR, ah1)))"

section \<open>Invariant of the table\<close>

text \<open>Four entries; an entry with a trust store has a store context; free entries are at the end.\<close>

definition mfg_table_ok :: "ENCHD_CERT_MFG_INFO list \<Rightarrow> bool" where
  "mfg_table_ok l \<longleftrightarrow> length l = NUM_SUPPORTED_MFG
     \<and> list_all (\<lambda>e. truststore e \<noteq> None \<longrightarrow> store_ctx e) l
     \<and> (\<exists>k. list_all (\<lambda>e. truststore e \<noteq> None) (take k l) \<and> list_all (\<lambda>e. truststore e = None) (drop k l))"

definition mfgs_ok :: "EST_CTX \<Rightarrow> bool" where
  "mfgs_ok ctx \<longleftrightarrow> (case enchd_cert_mfgs_info_list ctx of None \<Rightarrow> True | Some l \<Rightarrow> mfg_table_ok l)"

definition usable :: "ENCHD_CERT_MFG_INFO \<Rightarrow> bool" where
  "usable e \<longleftrightarrow> truststore e \<noteq> None \<and> store_ctx e"

lemma next_free_eq:
  "list_all (\<lambda>e. truststore e \<noteq> None) a \<Longrightarrow> list_all (\<lambda>e. truststore e = None) b \<Longrightarrow>
     next_free (a @ b) i = (if b = [] then -1 else int (i + length a))"
  by (induction a arbitrary: i) (cases b, auto)

lemma table_cases:
  assumes "mfg_table_ok l"
  obtains (full) "next_free l 0 = -1" "list_all usable l"
  | (free) a x b where "l = a @ x # b" "next_free l 0 = int (length a)" "truststore x = None"
      "list_all usable a" "list_all (\<lambda>e. truststore e = None) b"
proof -
  obtain k where k: "list_all (\<lambda>e. truststore e \<noteq> None) (take k l)" "list_all (\<lambda>e. truststore e = None) (drop k l)"
    and st: "list_all (\<lambda>e. truststore e \<noteq> None \<longrightarrow> store_ctx e) l"
    using assms by (auto simp: mfg_table_ok_def)
  have us: "list_all usable (take k l)"
    using k(1) st by (auto simp: list_all_iff usable_def dest: in_set_takeD)
  show ?thesis
  proof (cases "drop k l")
    case Nil
    then show ?thesis using full us next_free_eq [OF k, of 0] by simp
  next
    case (Cons x b)
    then have "l = take k l @ x # b" by (metis append_take_drop_id)
    then show ?thesis using free [of "take k l" x b] k(2) us Cons next_free_eq [OF k, of 0] by simp
  qed
qed

lemma mfg_table_ok_intro:
  "length (a @ b) = NUM_SUPPORTED_MFG \<Longrightarrow> list_all usable a \<Longrightarrow> list_all (\<lambda>e. truststore e = None) b \<Longrightarrow>
     mfg_table_ok (a @ b)"
  unfolding mfg_table_ok_def by (intro conjI exI [of _ "length a"]) (auto simp: list_all_iff usable_def)

section \<open>Properties\<close>

text \<open>creating the table and loading a manufacturer keep its invariant. Loading adds exactly one entry
  at the first free place when it succeeds, and a failed load leaves every usable entry alone. A full
  table is reported as \<^verbatim>\<open>EST_ERR_NONE\<close> although nothing was added.\<close>

theorem est_load_enhcd_cert_auth_manufacturer_table:
  assumes "enchd_cert_mfgs_info_list ctx = Some l" and "mfg_table_ok l"
    and "est_load_enhcd_cert_auth_manufacturer ossl new_store new_ctx ctx name n certs = (rv, ctx')"
  shows "mfgs_ok ctx' \<and> mfgs_ok (snd (est_enhcd_cert_auth_mfg_info_list_create ctx))
    \<and> (\<exists>l'. enchd_cert_mfgs_info_list ctx' = Some l'
        \<and> (list_all usable l \<longrightarrow> rv = EST_ERR_NONE \<and> l' = l)
        \<and> (\<not> list_all usable l \<longrightarrow>
             filter usable l' = filter usable l @
               (if rv = EST_ERR_NONE
                then [\<lparr>mfg_name = take 255 (cstr name), nid = n, truststore = new_store, store_ctx = True\<rparr>] else [])))"
proof -
  have created: "mfgs_ok (snd (est_enhcd_cert_auth_mfg_info_list_create ctx))"
    using mfg_table_ok_intro [of "[]" "replicate NUM_SUPPORTED_MFG empty_mfg_info"]
    by (simp add: mfgs_ok_def est_enhcd_cert_auth_mfg_info_list_create_def empty_mfg_info_def list_all_iff)
  from assms(2) show ?thesis
  proof (cases rule: table_cases)
    case full
    then show ?thesis
      using assms created
      by (simp add: est_load_enhcd_cert_auth_manufacturer_def est_enhcd_cert_get_next_mfg_info_ind_def mfgs_ok_def)
  next
    case (free a x b)
    have len: "Suc (length a + length b) = NUM_SUPPORTED_MFG" using assms(2) free(1) by (simp add: mfg_table_ok_def)
    obtain e where e: "enchd_cert_mfgs_info_list ctx' = Some (a @ e # b)"
      and ev: "truststore e = None \<and> rv \<noteq> EST_ERR_NONE \<or> usable e \<and> rv = EST_ERR_NONE \<and>
          e = \<lparr>mfg_name = take 255 (cstr name), nid = n, truststore = new_store, store_ctx = True\<rparr>"
      using assms(1,3) free(1,2)
      by (cases new_store)
        (auto simp: est_load_enhcd_cert_auth_manufacturer_def est_enhcd_cert_get_next_mfg_info_ind_def Let_def
          usable_def MFG_NAME_MAX_LEN_def split: if_split_asm)
    have "mfg_table_ok (a @ e # b)"
      using ev mfg_table_ok_intro [of a "e # b"] mfg_table_ok_intro [of "a @ [e]" b] free(4,5) len by auto
    moreover have "filter usable (a @ e # b) = a @ (if usable e then [e] else [])" "filter usable l = a"
      using free by (auto simp: usable_def filter_empty_conv list_all_iff)
    moreover have "\<not> list_all usable l" using free by (simp add: usable_def)
    ultimately show ?thesis using created e ev by (auto simp: mfgs_ok_def usable_def)
  qed
qed

theorem est_load_enhcd_cert_auth_manufacturer_table_witness:
  "mfgs_ok (snd (est_load_enhcd_cert_auth_manufacturer sample_ossl (Some 7) True
    (sample_ctx\<lparr>enchd_cert_mfgs_info_list := Some (replicate NUM_SUPPORTED_MFG empty_mfg_info)\<rparr>) ''mfg'' 13 ''pem''))"
proof -
  have ok: "mfg_table_ok (replicate NUM_SUPPORTED_MFG empty_mfg_info)"
    using mfg_table_ok_intro [of "[]" "replicate NUM_SUPPORTED_MFG empty_mfg_info"]
    by (simp add: empty_mfg_info_def list_all_iff)
  let ?ctx = "sample_ctx\<lparr>enchd_cert_mfgs_info_list := Some (replicate NUM_SUPPORTED_MFG empty_mfg_info)\<rparr>"
  have "enchd_cert_mfgs_info_list ?ctx = Some (replicate NUM_SUPPORTED_MFG empty_mfg_info)" by simp
  from est_load_enhcd_cert_auth_manufacturer_table [OF this ok prod.collapse [symmetric]]
  show ?thesis by blast
qed

text \<open>a certificate is attributed to a manufacturer only if that entry is usable and the verification
  against its store did not return 0, and the first such entry is taken; with the documented results
  0 and 1 of the verification it verified. The search fails only when a store context cannot be
  initialised.\<close>

theorem est_enhcd_cert_auth_get_mfg_sound:
  assumes "enchd_cert_mfgs_info_list ctx = Some l" and "mfg_table_ok l"
    and "\<And>s p c. X509_verify_cert ossl s p c \<in> {0, 1}"
    and "est_enhcd_cert_auth_get_mfg ossl ctx peer chain = (rv, i)" and "i \<noteq> -1"
  shows "rv = EST_ERR_NONE \<and> 0 \<le> i \<and> nat i < length l \<and> usable (l ! nat i)
    \<and> X509_verify_cert ossl (the (truststore (l ! nat i))) peer chain = 1
    \<and> (\<forall>j < nat i. usable (l ! j) \<longrightarrow> X509_verify_cert ossl (the (truststore (l ! j))) peer chain = 0)"
proof -
  have gen: "rv = EST_ERR_NONE \<and> (\<exists>k. i = int (j + k) \<and> k < length es \<and> usable (es ! k)
      \<and> X509_verify_cert ossl (the (truststore (es ! k))) peer chain = 1
      \<and> (\<forall>m < k. usable (es ! m) \<longrightarrow> X509_verify_cert ossl (the (truststore (es ! m))) peer chain = 0))"
    if "get_mfg_loop ossl peer chain es j rv0 = (rv, i)" "i \<noteq> -1" for es j rv0
    using that
  proof (induction es arbitrary: j rv0)
    case (Cons e es)
    show ?case
    proof (cases "usable e \<and> X509_verify_cert ossl (the (truststore e)) peer chain \<noteq> 0")
      case True
      then show ?thesis using Cons.prems assms(3) [of "the (truststore e)" peer chain]
        by (intro conjI exI [of _ 0]) (auto simp: usable_def split: if_split_asm)
    next
      case False
      with Cons.prems obtain rv1 where "get_mfg_loop ossl peer chain es (Suc j) rv1 = (rv, i)"
        by (auto simp: usable_def split: option.split_asm if_split_asm)
      with Cons.IH Cons.prems(2) obtain k where
        "rv = EST_ERR_NONE" "i = int (Suc j + k)" "k < length es" "usable (es ! k)"
        "X509_verify_cert ossl (the (truststore (es ! k))) peer chain = 1"
        "\<forall>m < k. usable (es ! m) \<longrightarrow> X509_verify_cert ossl (the (truststore (es ! m))) peer chain = 0"
        by blast
      with False show ?thesis
        by (intro conjI exI [of _ "Suc k"]) (auto simp: nth_Cons split: nat.split)
    qed
  qed auto
  have "take NUM_SUPPORTED_MFG l = l" using assms(2) by (simp add: mfg_table_ok_def)
  with assms(1,4) have "get_mfg_loop ossl peer chain l 0 EST_ERR_VALIDATION = (rv, i)"
    by (simp add: est_enhcd_cert_auth_get_mfg_def)
  from gen [OF this assms(5)] show ?thesis by auto
qed

definition sample_mfgs :: "ENCHD_CERT_MFG_INFO list" where
  "sample_mfgs = \<lparr>mfg_name = ''mfg'', nid = 13, truststore = Some 7, store_ctx = True\<rparr>
     # replicate 3 empty_mfg_info"

lemma sample_mfgs_ok: "mfg_table_ok sample_mfgs"
  using mfg_table_ok_intro [of "[\<lparr>mfg_name = ''mfg'', nid = 13, truststore = Some 7, store_ctx = True\<rparr>]"
      "replicate 3 empty_mfg_info"]
  by (simp add: sample_mfgs_def empty_mfg_info_def list_all_iff usable_def NUM_SUPPORTED_MFG_def)

theorem est_enhcd_cert_auth_get_mfg_sound_witness:
  "est_enhcd_cert_auth_get_mfg sample_ossl (sample_ctx\<lparr>enchd_cert_mfgs_info_list := Some sample_mfgs\<rparr>) 3 [3] = (EST_ERR_NONE, 0)
   \<and> usable (sample_mfgs ! 0)"
proof -
  let ?ctx = "sample_ctx\<lparr>enchd_cert_mfgs_info_list := Some sample_mfgs\<rparr>"
  have run: "est_enhcd_cert_auth_get_mfg sample_ossl ?ctx 3 [3] = (EST_ERR_NONE, 0)"
    by (simp add: est_enhcd_cert_auth_get_mfg_def sample_mfgs_def sample_ossl_def NUM_SUPPORTED_MFG_def)
  have "X509_verify_cert sample_ossl s p c \<in> {0, 1}" for s p c by (simp add: sample_ossl_def)
  with run show ?thesis
    using est_enhcd_cert_auth_get_mfg_sound [of ?ctx sample_mfgs sample_ossl 3 "[3]" EST_ERR_NONE 0] sample_mfgs_ok by simp
qed

section \<open>What the CSR check establishes\<close>

text \<open>The identifying field with this NID is present in certificate and request, and equal (in 256 bytes).\<close>

definition field_carried :: "OPENSSL \<Rightarrow> X509 \<Rightarrow> X509_REQ \<Rightarrow> int \<Rightarrow> bool" where
  "field_carried ossl peer csr n \<longleftrightarrow>
     (case (subject_field ossl peer n, req_subject_field ossl csr n) of
        (Some a, Some b) \<Rightarrow> take 256 (cstr a) = take 256 (cstr b) | _ \<Rightarrow> False)"

lemma fields_equal:
  assumes "strnlen_s (Some a) 256 = strnlen_s (Some b) 256"
  shows "take (strnlen_s (Some a) 256) (cstr a) = take (strnlen_s (Some a) 256) (cstr b)
    \<longleftrightarrow> take 256 (cstr a) = take 256 (cstr b)"
proof -
  have "take (min k n) x = take n x" if "k = length x" for k n and x :: string
    using that by (simp add: min_def)
  then show ?thesis
    using assms by (metis strnlen_def strnlen_s_def option.case(2))
qed

lemma csr_check_loop_zero:
  "csr_check_loop ossl peer csr es cmp_ind = 0 \<Longrightarrow>
     (\<exists>e \<in> set es. usable e \<and> field_carried ossl peer csr (nid e)) \<or> cmp_ind = 0 \<and> \<not> list_ex usable es"
proof (induction es arbitrary: cmp_ind)
  case (Cons e es)
  show ?case
  proof (cases "usable e")
    case False
    then show ?thesis using Cons by (auto simp: usable_def)
  next
    case True
    then have us: "\<not> (truststore e = None \<or> \<not> store_ctx e)" by (auto simp: usable_def)
    show ?thesis
    proof (cases "field_carried ossl peer csr (nid e)")
      case carried: True
      then show ?thesis using True by auto
    next
      case False
      have "\<exists>c. c \<noteq> 0 \<and> csr_check_loop ossl peer csr es c = 0"
      proof (cases "(subject_field ossl peer (nid e), req_subject_field ossl csr (nid e))")
        case (Pair fa fb)
        show ?thesis
        proof (cases "\<exists>a b. fa = Some a \<and> fb = Some b")
          case False
          then have "csr_check_loop ossl peer csr es 1 = 0"
            using Cons.prems us Pair
            by (cases fa; cases fb) (auto simp: get_cert_subject_line_field_def get_csr_subject_line_field_def)
          then show ?thesis by (intro exI [of _ 1]) simp
        next
          case True
          then obtain a b where ab: "fa = Some a" "fb = Some b" by auto
          have ne: "take 256 (cstr a) \<noteq> take 256 (cstr b)" using False Pair ab by (simp add: field_carried_def)
          let ?la = "strnlen_s (Some a) 256" and ?lb = "strnlen_s (Some b) 256"
          show ?thesis
          proof (cases "?la = ?lb")
            case False
            then have "csr_check_loop ossl peer csr es 1 = 0"
              using Cons.prems us Pair ab
              by (simp add: get_cert_subject_line_field_def get_csr_subject_line_field_def MAX_UIDPWD_def)
            then show ?thesis by (intro exI [of _ 1]) simp
          next
            case True
            have d: "strncmp a b ?la \<noteq> 0" using fields_equal [OF True] ne unfolding strncmp_eq_0 by blast
            then have "?la \<noteq> 0" by (cases ?la) simp_all
            then have "csr_check_loop ossl peer csr es (strncmp a b ?la) = 0"
              using Cons.prems us Pair ab True d
              by (simp add: get_cert_subject_line_field_def get_csr_subject_line_field_def MAX_UIDPWD_def strcmp_s_def Let_def)
            then show ?thesis using d by blast
          qed
        qed
      qed
      then obtain c where "c \<noteq> 0" "csr_check_loop ossl peer csr es c = 0" by blast
      then show ?thesis using Cons.IH by fastforce
    qed
  qed
qed simp



text \<open>with an empty table the check of a local-domain certificate passes whatever the request says.\<close>

theorem csr_check_bypassed_without_manufacturers:
  "perform_enhanced_cert_auth_csr_check ossl
     (ctx\<lparr>enchd_cert_mfgs_info_list := Some (replicate NUM_SUPPORTED_MFG empty_mfg_info)\<rparr>) (Some peer) (Some csr) (-1)
   = EST_AUTH_HDR_GOOD"
proof -
  have "csr_check_loop ossl peer csr (replicate n empty_mfg_info) 0 = 0" for n
    by (induction n) (simp_all add: empty_mfg_info_def)
  then show ?thesis by (simp add: perform_enhanced_cert_auth_csr_check_def)
qed

text \<open>\<^verbatim>\<open>ossl_verify_cb\<close> turns a failed certificate verification into a success only when the sole
  complaint is a missing CRL.\<close>

theorem ossl_verify_cb_only_crl:
  "ossl_verify_cb ok cert_error \<longleftrightarrow> ok \<or> cert_error = X509_V_ERR_UNABLE_TO_GET_CRL"
  by (simp add: ossl_verify_cb_def)

text \<open>every caller passes the size of its buffer as the length; a subject name at least that long makes
  \<^verbatim>\<open>est_get_subj_fld_from_cert\<close> write its terminator one byte past the buffer. A shorter name is
  copied and terminated inside it.\<close>

theorem est_get_subj_fld_from_cert_bounds:
  assumes "length name = len"
  shows "if length bm < len
    then est_get_subj_fld_from_cert bm name len = Some (EST_ERR_NONE, bm @ NUL # drop (Suc (length bm)) name)
    else est_get_subj_fld_from_cert bm name len = None"
proof (cases "length bm < len")
  case True
  then have "drop (length bm) name = name ! length bm # drop (Suc (length bm)) name"
    using assms by (simp add: Cons_nth_drop_Suc)
  then show ?thesis
    using True assms
    by (simp add: est_get_subj_fld_from_cert_def memcpy_s_def rd_block_def wr_block_def wr_def list_update_append)
next
  case False
  then show ?thesis using assms
    by (simp add: est_get_subj_fld_from_cert_def memcpy_s_def rd_block_def wr_block_def wr_def)
qed

theorem est_get_subj_fld_from_cert_bounds_witness:
  "est_get_subj_fld_from_cert ''CN=a'' (replicate 4 NUL) 4 = None
   \<and> est_get_subj_fld_from_cert ''CN'' (replicate 4 NUL) 4 = Some (EST_ERR_NONE, ''CN'' @ [NUL, NUL])"
  using est_get_subj_fld_from_cert_bounds [of "replicate 4 NUL" 4 "''CN=a''"]
    est_get_subj_fld_from_cert_bounds [of "replicate 4 NUL" 4 "''CN''"]
  by (simp add: numeral_eq_Suc)

end
