(* ===== verification/Server_Auth.thy ===== *)
theory Server_Auth
  imports Enhcd_Auth
begin

text \<open>
  Authentication and authorisation of a client by the EST server, \<^verbatim>\<open>src/src/est/est_server.c\<close>: TLS
  client certificates, SRP, HTTP authentication through the application callback, enhanced certificate
  authentication, the proof of possession and the check of the request signature. A result
  \<^term>\<open>None\<close> is behaviour the C program does not define (a call of a NULL callback, a read outside a
  buffer).
\<close>

section \<open>Requests\<close>

definition est_server_parse_csr :: "OPENSSL \<Rightarrow> bool \<Rightarrow> string \<Rightarrow> X509_REQ option" where
  "est_server_parse_csr ossl base64_decode pkcs10 = d2i_X509_REQ_bio ossl base64_decode pkcs10"

definition est_server_check_csr :: "OPENSSL \<Rightarrow> X509_REQ \<Rightarrow> int" where
  "est_server_check_csr ossl req =
     (case X509_REQ_get_pubkey ossl req of
        None \<Rightarrow> 1
      | Some pub_key \<Rightarrow>
          (let rc = X509_REQ_verify ossl req pub_key in
           if rc < 0 then 1 else if rc = 0 then 1 else 0))"

definition o_cmcRA :: string where
  "o_cmcRA = ''1.3.6.1.5.5.7.3.28''"

definition est_check_cmcRA :: "OPENSSL \<Rightarrow> X509 \<Rightarrow> bool" where
  "est_check_cmcRA ossl cert =
     (case ext_key_usage ossl cert of None \<Rightarrow> False | Some usages \<Rightarrow> list_ex (\<lambda>obj. obj = o_cmcRA) usages)"

section \<open>Proof of possession\<close>

text \<open>
  \<^verbatim>\<open>est_get_tls_uid\<close>: the base64 text of the first Finished message, without the newline OpenSSL adds. The
  result is NULL (\<open>Some None\<close>) when the text is longer than expected. The constants: \<^verbatim>\<open>MAX_FINISHED\<close> is
  100, \<^verbatim>\<open>TLS1_2_VERSION\<close> 0x0303, \<^verbatim>\<open>EVP_MAX_MD_SIZE\<close> 64, \<^verbatim>\<open>EST_TLS_UID_LEN\<close> 17; \<^verbatim>\<open>(4/3)\<close> is integer division.
\<close>

definition est_get_tls_uid :: "OPENSSL \<Rightarrow> SSL \<Rightarrow> bool \<Rightarrow> string option option" where
  "est_get_tls_uid ossl ssl is_client =
     (let finished = (if (is_client \<and> \<not> session_reused ssl) \<or> (\<not> is_client \<and> session_reused ssl)
                      then take 100 (finished_msg ssl) else take 100 (peer_finished_msg ssl));
          bptr = bio_write ossl False finished;
          max_len = (if ssl_version ssl > 0x0303 then 64 * (4 div 3) + 1 else 17) in
      if length bptr > max_len then Some None
      else if bptr = [] then None
      else Some (Some (if last bptr = LF then butlast bptr else bptr)))"

definition est_tls_uid_auth :: "OPENSSL \<Rightarrow> EST_CTX \<Rightarrow> SSL \<Rightarrow> X509_REQ \<Rightarrow> EST_ERROR option" where
  "est_tls_uid_auth ossl ctx ssl req =
     (case challenge_attr ossl req of
        None \<Rightarrow> Some (if server_enable_pop ctx then EST_ERR_AUTH_FAIL_TLSUID else EST_ERR_NONE)
      | Some None \<Rightarrow> Some EST_ERR_AUTH_FAIL_TLSUID
      | Some (Some bs) \<Rightarrow>
          do { uid \<leftarrow> est_get_tls_uid ossl ssl False;
               case uid of
                 None \<Rightarrow> Some EST_ERR_AUTH_FAIL_TLSUID
               | Some tls_uid \<Rightarrow>
                   do { (i, diff) \<leftarrow> memcmp_s (Some tls_uid) (length tls_uid) (Some bs) (length tls_uid);
                        Some (if i = EOK \<and> diff = Some True then EST_ERR_NONE else EST_ERR_AUTH_FAIL_TLSUID) } })"

section \<open>Client certificates and enhanced certificate authentication\<close>

definition check_for_TLS_cert_auth :: "SSL \<Rightarrow> bool \<times> X509 option \<times> EST_AUTH_STATE" where
  "check_for_TLS_cert_auth ssl =
     (case peer_certificate ssl of
        Some peer \<Rightarrow>
          (let v_result = verify_result ssl in
           if v_result = X509_V_OK then (True, Some peer, EST_CERT_AUTH)
           else if v_result = X509_V_ERR_UNABLE_TO_GET_CRL then (True, Some peer, EST_CERT_AUTH)
           else (False, None, EST_UNAUTHORIZED))
      | None \<Rightarrow> (True, None, EST_UNAUTHORIZED))"

definition handle_enhanced_cert_auth ::
  "OPENSSL \<Rightarrow> EST_CTX \<Rightarrow> SSL \<Rightarrow> X509 option \<Rightarrow> string \<Rightarrow> EST_HTTP_AUTH_HDR \<Rightarrow> bool
     \<Rightarrow> EST_HTTP_AUTH_HDR_RESULT \<times> X509_REQ option \<times> EST_HTTP_AUTH_HDR" where
  "handle_enhanced_cert_auth ossl ctx ssl peer csr_buf ah csr_check_flag =
     (case (peer_cert_chain ssl, peer) of
        (Some peer_chain, Some p) \<Rightarrow>
          (let (err_code, mfg_index) = est_enhcd_cert_auth_get_mfg ossl ctx p peer_chain;
               build = (\<lambda>csr.
                 let n = (if mfg_index \<ge> 0
                          then nid (the (enchd_cert_mfgs_info_list ctx) ! nat mfg_index)
                          else enhcd_cert_local_pki_nid ctx);
                     (r, ah') = build_enhanced_cert_auth_header ossl ctx ah peer n
                 in (r, csr, ah')) in
           if err_code = EST_ERR_NONE \<or> err_code = EST_ERR_VALIDATION then
             (if csr_check_flag then
                (case est_server_parse_csr ossl True csr_buf of
                   None \<Rightarrow> (EST_AUTH_ECA_CSR_PARSE_FAIL, None, ah)
                 | Some csr \<Rightarrow>
                     (let r = perform_enhanced_cert_auth_csr_check ossl ctx peer (Some csr) mfg_index in
                      if r = EST_AUTH_HDR_GOOD then build (Some csr) else (r, Some csr, ah)))
              else build None)
           else (EST_AUTH_HDR_BAD, None, ah))
      | _ \<Rightarrow> (EST_AUTH_ECA_ERR, None, ah))"

section \<open>Authorisation of an enrollment\<close>

definition est_enroll_auth ::
  "OPENSSL \<Rightarrow> EST_CTX \<Rightarrow> SSL \<Rightarrow> string option \<Rightarrow> EST_ENROLL_REQ_TYPE \<Rightarrow> string \<Rightarrow> HTTP_CTX
     \<Rightarrow> (EST_AUTH_STATE \<times> X509_REQ option \<times> HTTP_CTX) option" where
  "est_enroll_auth ossl ctx ssl path_seg enroll_req csr_buf w =
     (let (continue, peer, rv0) = check_for_TLS_cert_auth ssl;
          ret = (\<lambda>pr rv csr w'. Some (rv, csr, emit (Auth_Result pr rv) w')) in
      if \<not> continue then ret EST_AUTH_ECA_ERR rv0 None w
      else
        (let rv = (if rv0 \<noteq> EST_CERT_AUTH \<and> srp_username ssl \<noteq> None then EST_SRP_AUTH else rv0) in
         if transport_mode ctx = EST_HTTP \<and> est_http_auth_cb ctx \<noteq> None
             \<and> (rv = EST_UNAUTHORIZED \<or> require_http_auth ctx) then
           do { (pr, csr, ah, w1) \<leftarrow>
                  (if enhanced_cert_auth_enabled ctx \<and> rv = EST_CERT_AUTH then
                     (let (pr, csr, ah) = handle_enhanced_cert_auth ossl ctx ssl peer csr_buf est_create_ah
                                            (enhanced_cert_auth_csr_check ctx) in Some (pr, csr, ah, w))
                   else do { (pr, ah, c) \<leftarrow> mg_parse_auth_header (bio_read ossl) (auth_mode ctx) (conn w) est_create_ah;
                             Some (pr, None, ah, w\<lparr>conn := c\<rparr>) });
                (case pr of
                   EST_AUTH_HDR_GOOD \<Rightarrow>
                     ret pr (if the (est_http_auth_cb ctx) ah peer path_seg then EST_HTTP_AUTH else EST_UNAUTHORIZED) csr w1
                 | EST_AUTH_HDR_MISSING \<Rightarrow> ret pr EST_HTTP_AUTH_PENDING csr (mg_send_authorization_request ctx w1)
                 | EST_AUTH_ECA_CSR_CHECK_FAIL \<Rightarrow> ret pr EST_UNAUTHORIZED csr w1
                 | EST_AUTH_ECA_CSR_PARSE_FAIL \<Rightarrow> ret pr EST_CSR_PARSE_FAIL csr w1
                 | EST_AUTH_ECA_ERR \<Rightarrow> ret pr EST_UNAUTHORIZED csr w1
                 | EST_AUTH_HDR_BAD \<Rightarrow>
                     ret pr (if enroll_req \<noteq> SIMPLE_ENROLL_REQ \<and> rv = EST_CERT_AUTH then rv else EST_UNAUTHORIZED) csr w1) }
         else if transport_mode ctx = EST_COAP then
           (if rv \<noteq> EST_CERT_AUTH then ret EST_AUTH_ECA_ERR EST_UNAUTHORIZED None w
            else if enhanced_cert_auth_enabled ctx then
              (if csr_buf = [] then ret EST_AUTH_ECA_ERR EST_CSR_PARSE_FAIL None w
               else
                 (let (pr, csr, ah) = handle_enhanced_cert_auth ossl ctx ssl peer csr_buf est_create_ah
                                        (enhanced_cert_auth_csr_check ctx) in
                  case pr of
                    EST_AUTH_HDR_GOOD \<Rightarrow>
                      (case est_http_auth_cb ctx of
                         None \<Rightarrow> None
                       | Some cb \<Rightarrow> ret pr (if cb ah peer path_seg then EST_HTTP_AUTH else EST_UNAUTHORIZED) csr w)
                  | EST_AUTH_ECA_CSR_PARSE_FAIL \<Rightarrow> ret pr EST_CSR_PARSE_FAIL csr w
                  | _ \<Rightarrow> ret pr EST_UNAUTHORIZED csr w))
            else ret EST_AUTH_ECA_ERR rv None w)
         else ret EST_AUTH_ECA_ERR rv None w))"

definition est_brski_auth ::
  "OPENSSL \<Rightarrow> EST_CTX \<Rightarrow> SSL \<Rightarrow> string option \<Rightarrow> HTTP_CTX \<Rightarrow> (EST_AUTH_STATE \<times> HTTP_CTX) option" where
  "est_brski_auth ossl ctx ssl path_seg w =
     (let (continue, peer, rv0) = check_for_TLS_cert_auth ssl;
          ret = (\<lambda>pr rv w'. Some (rv, emit (Auth_Result pr rv) w')) in
      if \<not> continue then ret EST_AUTH_ECA_ERR rv0 w
      else
        (let rv = (if rv0 \<noteq> EST_CERT_AUTH \<and> srp_username ssl \<noteq> None then EST_SRP_AUTH else rv0) in
         if transport_mode ctx = EST_HTTP \<and> est_http_auth_cb ctx \<noteq> None
             \<and> (rv = EST_UNAUTHORIZED \<or> require_http_auth ctx) then
           do { (pr, ah, w1) \<leftarrow>
                  (if enhanced_cert_auth_enabled ctx \<and> rv = EST_CERT_AUTH then
                     (let (pr, _, ah) = handle_enhanced_cert_auth ossl ctx ssl peer [] est_create_ah False
                      in Some (pr, ah, w))
                   else do { (pr, ah, c) \<leftarrow> mg_parse_auth_header (bio_read ossl) (auth_mode ctx) (conn w) est_create_ah;
                             Some (pr, ah, w\<lparr>conn := c\<rparr>) });
                (case pr of
                   EST_AUTH_HDR_GOOD \<Rightarrow>
                     ret pr (if the (est_http_auth_cb ctx) ah peer path_seg then EST_HTTP_AUTH else EST_UNAUTHORIZED) w1
                 | EST_AUTH_HDR_MISSING \<Rightarrow> ret pr EST_HTTP_AUTH_PENDING (mg_send_authorization_request ctx w1)
                 | _ \<Rightarrow> ret pr EST_UNAUTHORIZED w1) }
         else if transport_mode ctx = EST_COAP then
           (if rv \<noteq> EST_CERT_AUTH then ret EST_AUTH_ECA_ERR EST_UNAUTHORIZED w
            else if enhanced_cert_auth_enabled ctx then
              (let (pr, _, ah) = handle_enhanced_cert_auth ossl ctx ssl peer [] est_create_ah False in
               case pr of
                 EST_AUTH_HDR_GOOD \<Rightarrow>
                   (case est_http_auth_cb ctx of
                      None \<Rightarrow> None
                    | Some cb \<Rightarrow> ret pr (if cb ah peer path_seg then rv else EST_UNAUTHORIZED) w)
               | _ \<Rightarrow> ret pr EST_UNAUTHORIZED w)
            else ret EST_AUTH_ECA_ERR rv w)
         else ret EST_AUTH_ECA_ERR rv w))"

section \<open>The authorisation policy\<close>

text \<open>A client certificate that the TLS stack verified, or of which only a CRL was missing.\<close>

definition tls_cert_ok :: "SSL \<Rightarrow> bool" where
  "tls_cert_ok ssl \<longleftrightarrow> peer_certificate ssl \<noteq> None
     \<and> (verify_result ssl = X509_V_OK \<or> verify_result ssl = X509_V_ERR_UNABLE_TO_GET_CRL)"

text \<open>
  The application accepted credentials that came either from a well-formed HTTP header in the
  configured scheme, or from a verified certificate under enhanced certificate authentication.
\<close>

definition credentials_accepted :: "OPENSSL \<Rightarrow> EST_CTX \<Rightarrow> SSL \<Rightarrow> string option \<Rightarrow> mg_connection \<Rightarrow> bool" where
  "credentials_accepted ossl ctx ssl path_seg c \<longleftrightarrow>
     (\<exists>cb ah. est_http_auth_cb ctx = Some cb \<and> cb ah (peer_certificate ssl) path_seg
        \<and> ((\<exists>c'. mg_parse_auth_header (bio_read ossl) (auth_mode ctx) c est_create_ah = Some (EST_AUTH_HDR_GOOD, ah, c'))
           \<or> (enhanced_cert_auth_enabled ctx \<and> tls_cert_ok ssl
               \<and> (\<exists>buf flag csr. handle_enhanced_cert_auth ossl ctx ssl (peer_certificate ssl) buf est_create_ah flag
                     = (EST_AUTH_HDR_GOOD, csr, ah)))))"

lemma check_for_TLS_cert_auth_eq:
  "check_for_TLS_cert_auth ssl =
     (if peer_certificate ssl = None then (True, None, EST_UNAUTHORIZED)
      else if tls_cert_ok ssl then (True, peer_certificate ssl, EST_CERT_AUTH)
      else (False, None, EST_UNAUTHORIZED))"
  by (auto simp: check_for_TLS_cert_auth_def tls_cert_ok_def Let_def split: option.splits)

lemma bad_cert_unauthorized:
  assumes "peer_certificate ssl \<noteq> None" and "\<not> tls_cert_ok ssl"
  shows "est_enroll_auth ossl ctx ssl path_seg enroll_req csr_buf w =
      Some (EST_UNAUTHORIZED, None, emit (Auth_Result EST_AUTH_ECA_ERR EST_UNAUTHORIZED) w)"
    and "est_brski_auth ossl ctx ssl path_seg w =
      Some (EST_UNAUTHORIZED, emit (Auth_Result EST_AUTH_ECA_ERR EST_UNAUTHORIZED) w)"
proof -
  have "check_for_TLS_cert_auth ssl = (False, None, EST_UNAUTHORIZED)"
    using assms by (simp add: check_for_TLS_cert_auth_eq)
  then show "est_enroll_auth ossl ctx ssl path_seg enroll_req csr_buf w =
      Some (EST_UNAUTHORIZED, None, emit (Auth_Result EST_AUTH_ECA_ERR EST_UNAUTHORIZED) w)"
    and "est_brski_auth ossl ctx ssl path_seg w =
      Some (EST_UNAUTHORIZED, emit (Auth_Result EST_AUTH_ECA_ERR EST_UNAUTHORIZED) w)"
    by (simp_all add: est_enroll_auth_def est_brski_auth_def)
qed

lemma no_cert_cases:
  assumes "est_enroll_auth ossl ctx ssl path_seg enroll_req csr_buf w = Some (rv, csr, w')"
    and "peer_certificate ssl = None"
  shows "rv \<noteq> EST_CERT_AUTH
    \<and> (rv = EST_SRP_AUTH \<longrightarrow> srp_username ssl \<noteq> None \<and> transport_mode ctx = EST_HTTP)
    \<and> (rv = EST_HTTP_AUTH \<longrightarrow> credentials_accepted ossl ctx ssl path_seg (conn w))"
proof (cases "transport_mode ctx = EST_HTTP \<and> est_http_auth_cb ctx \<noteq> None
    \<and> (srp_username ssl = None \<or> require_http_auth ctx)")
  case True
  then obtain cb where cb: "est_http_auth_cb ctx = Some cb" by auto
  from assms True obtain pr ah c where
    p: "mg_parse_auth_header (bio_read ossl) (auth_mode ctx) (conn w) est_create_ah = Some (pr, ah, c)"
    by (auto simp: est_enroll_auth_def check_for_TLS_cert_auth_eq bind_eq_Some_conv split: if_split_asm)
  have "rv = (case pr of EST_AUTH_HDR_GOOD \<Rightarrow> if cb ah None path_seg then EST_HTTP_AUTH else EST_UNAUTHORIZED
      | EST_AUTH_HDR_MISSING \<Rightarrow> EST_HTTP_AUTH_PENDING | EST_AUTH_ECA_CSR_PARSE_FAIL \<Rightarrow> EST_CSR_PARSE_FAIL
      | _ \<Rightarrow> EST_UNAUTHORIZED)"
    using assms True p cb
    by (cases pr; cases "srp_username ssl = None") (simp_all add: est_enroll_auth_def check_for_TLS_cert_auth_eq)
  then show ?thesis
    using p cb assms(2) by (auto simp: credentials_accepted_def split: EST_HTTP_AUTH_HDR_RESULT.split_asm if_split_asm)
next
  case False
  then show ?thesis
    using assms by (cases "transport_mode ctx"; cases "srp_username ssl = None")
      (auto simp: est_enroll_auth_def check_for_TLS_cert_auth_eq split: if_split_asm)
qed

lemma good_cert_cases:
  assumes "est_enroll_auth ossl ctx ssl path_seg enroll_req csr_buf w = Some (rv, csr, w')"
    and "peer_certificate ssl = Some p" and "tls_cert_ok ssl"
  shows "rv \<noteq> EST_SRP_AUTH
    \<and> (rv = EST_HTTP_AUTH \<longrightarrow> credentials_accepted ossl ctx ssl path_seg (conn w))
    \<and> (rv = EST_CERT_AUTH \<and> transport_mode ctx = EST_HTTP \<and> est_http_auth_cb ctx \<noteq> None \<and> require_http_auth ctx
        \<longrightarrow> enroll_req \<noteq> SIMPLE_ENROLL_REQ)"
proof -
  have chk: "check_for_TLS_cert_auth ssl = (True, Some p, EST_CERT_AUTH)"
    using assms by (simp add: check_for_TLS_cert_auth_eq)
  consider (http) cb where "transport_mode ctx = EST_HTTP" "est_http_auth_cb ctx = Some cb" "require_http_auth ctx"
    | (coap) "transport_mode ctx = EST_COAP" "enhanced_cert_auth_enabled ctx" "csr_buf \<noteq> []"
    | (other) "\<not> (transport_mode ctx = EST_HTTP \<and> est_http_auth_cb ctx \<noteq> None \<and> require_http_auth ctx)"
      "\<not> (transport_mode ctx = EST_COAP \<and> enhanced_cert_auth_enabled ctx \<and> csr_buf \<noteq> [])"
    by (cases "transport_mode ctx"; cases "est_http_auth_cb ctx") auto
  then show ?thesis
  proof cases
    case http
    show ?thesis
    proof (cases "enhanced_cert_auth_enabled ctx")
      case True
      obtain pr csr0 ah where h: "handle_enhanced_cert_auth ossl ctx ssl (Some p) csr_buf est_create_ah
          (enhanced_cert_auth_csr_check ctx) = (pr, csr0, ah)" by (metis prod_cases3)
      have "rv = (case pr of EST_AUTH_HDR_GOOD \<Rightarrow> if cb ah (Some p) path_seg then EST_HTTP_AUTH else EST_UNAUTHORIZED
          | EST_AUTH_HDR_MISSING \<Rightarrow> EST_HTTP_AUTH_PENDING | EST_AUTH_ECA_CSR_PARSE_FAIL \<Rightarrow> EST_CSR_PARSE_FAIL
          | EST_AUTH_HDR_BAD \<Rightarrow> if enroll_req \<noteq> SIMPLE_ENROLL_REQ then EST_CERT_AUTH else EST_UNAUTHORIZED
          | _ \<Rightarrow> EST_UNAUTHORIZED)"
        using assms(1) chk http True h by (cases pr) (simp_all add: est_enroll_auth_def)
      moreover have "credentials_accepted ossl ctx ssl path_seg (conn w)" if "pr = EST_AUTH_HDR_GOOD" "cb ah (Some p) path_seg"
        unfolding credentials_accepted_def using that http(2) assms(2,3) True h by auto
      ultimately show ?thesis by (cases pr) auto
    next
      case False
      from assms(1) chk http False obtain pr ah c where
        q: "mg_parse_auth_header (bio_read ossl) (auth_mode ctx) (conn w) est_create_ah = Some (pr, ah, c)"
        by (auto simp: est_enroll_auth_def bind_eq_Some_conv)
      have "rv = (case pr of EST_AUTH_HDR_GOOD \<Rightarrow> if cb ah (Some p) path_seg then EST_HTTP_AUTH else EST_UNAUTHORIZED
          | EST_AUTH_HDR_MISSING \<Rightarrow> EST_HTTP_AUTH_PENDING | EST_AUTH_ECA_CSR_PARSE_FAIL \<Rightarrow> EST_CSR_PARSE_FAIL
          | EST_AUTH_HDR_BAD \<Rightarrow> if enroll_req \<noteq> SIMPLE_ENROLL_REQ then EST_CERT_AUTH else EST_UNAUTHORIZED
          | _ \<Rightarrow> EST_UNAUTHORIZED)"
        using assms(1) chk http False q by (cases pr) (simp_all add: est_enroll_auth_def)
      moreover have "credentials_accepted ossl ctx ssl path_seg (conn w)" if "pr = EST_AUTH_HDR_GOOD" "cb ah (Some p) path_seg"
        unfolding credentials_accepted_def using that http(2) assms(2) q by auto
      ultimately show ?thesis by (cases pr) auto
    qed
  next
    case coap
    obtain pr csr0 ah where h: "handle_enhanced_cert_auth ossl ctx ssl (Some p) csr_buf est_create_ah
        (enhanced_cert_auth_csr_check ctx) = (pr, csr0, ah)" by (metis prod_cases3)
    have "\<exists>cb. est_http_auth_cb ctx = Some cb \<and> rv = (if cb ah (Some p) path_seg then EST_HTTP_AUTH else EST_UNAUTHORIZED)"
      if "pr = EST_AUTH_HDR_GOOD"
      using assms(1) chk coap h that by (auto simp: est_enroll_auth_def split: option.split_asm)
    moreover have "rv = EST_CSR_PARSE_FAIL \<or> rv = EST_UNAUTHORIZED" if "pr \<noteq> EST_AUTH_HDR_GOOD"
      using assms(1) chk coap h that by (cases pr) (auto simp: est_enroll_auth_def)
    moreover have "credentials_accepted ossl ctx ssl path_seg (conn w)"
      if "pr = EST_AUTH_HDR_GOOD" "est_http_auth_cb ctx = Some cb" "cb ah (Some p) path_seg" for cb
      unfolding credentials_accepted_def using that assms(2,3) coap(2) h by auto
    ultimately show ?thesis using coap(1) by (cases "pr = EST_AUTH_HDR_GOOD") (auto split: if_split_asm)
  next
    case other
    then have "rv = EST_CERT_AUTH \<or> rv = EST_CSR_PARSE_FAIL"
      using assms(1) chk by (cases "transport_mode ctx") (auto simp: est_enroll_auth_def split: if_split_asm)
    with other(1) show ?thesis by auto
  qed
qed

lemma est_enroll_auth_policy:
  assumes "est_enroll_auth ossl ctx ssl path_seg enroll_req csr_buf w = Some (rv, csr, w')"
  shows "(rv = EST_CERT_AUTH \<longrightarrow> tls_cert_ok ssl)
    \<and> (rv = EST_SRP_AUTH \<longrightarrow> peer_certificate ssl = None \<and> srp_username ssl \<noteq> None \<and> transport_mode ctx = EST_HTTP)
    \<and> (rv = EST_HTTP_AUTH \<longrightarrow> credentials_accepted ossl ctx ssl path_seg (conn w))
    \<and> (peer_certificate ssl \<noteq> None \<and> \<not> tls_cert_ok ssl \<longrightarrow> rv = EST_UNAUTHORIZED)
    \<and> (rv = EST_CERT_AUTH \<and> transport_mode ctx = EST_HTTP \<and> est_http_auth_cb ctx \<noteq> None \<and> require_http_auth ctx
        \<longrightarrow> enroll_req \<noteq> SIMPLE_ENROLL_REQ)"
proof (cases "peer_certificate ssl")
  case None
  then show ?thesis using no_cert_cases [OF assms None] by auto
next
  case (Some p)
  show ?thesis
  proof (cases "tls_cert_ok ssl")
    case True
    then show ?thesis using good_cert_cases [OF assms Some True] Some by auto
  next
    case False
    then show ?thesis using assms Some bad_cert_unauthorized(1) [of ssl ossl ctx path_seg enroll_req csr_buf w] by auto
  qed
qed

lemma est_brski_auth_policy:
  assumes "est_brski_auth ossl ctx ssl path_seg w = Some (rv, w')"
  shows "(rv = EST_CERT_AUTH \<longrightarrow> tls_cert_ok ssl)
    \<and> (rv = EST_SRP_AUTH \<longrightarrow> peer_certificate ssl = None \<and> srp_username ssl \<noteq> None)
    \<and> (rv = EST_HTTP_AUTH \<longrightarrow> credentials_accepted ossl ctx ssl path_seg (conn w))
    \<and> (transport_mode ctx = EST_HTTP \<and> est_http_auth_cb ctx \<noteq> None \<and> require_http_auth ctx
        \<longrightarrow> rv \<in> {EST_UNAUTHORIZED, EST_HTTP_AUTH_PENDING, EST_HTTP_AUTH})"
proof -
  define peer where "peer = (if tls_cert_ok ssl then peer_certificate ssl else None)"
  define rv1 where "rv1 = (if tls_cert_ok ssl then EST_CERT_AUTH else if srp_username ssl \<noteq> None then EST_SRP_AUTH else EST_UNAUTHORIZED)"
  show ?thesis
  proof (cases "peer_certificate ssl \<noteq> None \<and> \<not> tls_cert_ok ssl")
    case True
    then show ?thesis using assms bad_cert_unauthorized(2) [of ssl ossl ctx path_seg w] by simp
  next
    case False
    then have pc: "peer_certificate ssl = peer" by (auto simp: peer_def)
    have chk: "check_for_TLS_cert_auth ssl = (True, peer, if tls_cert_ok ssl then EST_CERT_AUTH else EST_UNAUTHORIZED)"
      using False by (auto simp: check_for_TLS_cert_auth_eq peer_def tls_cert_ok_def)
    have rv1: "(if (if tls_cert_ok ssl then EST_CERT_AUTH else EST_UNAUTHORIZED) \<noteq> EST_CERT_AUTH \<and> srp_username ssl \<noteq> None
        then EST_SRP_AUTH else if tls_cert_ok ssl then EST_CERT_AUTH else EST_UNAUTHORIZED) = rv1"
      by (simp add: rv1_def)
    have srp: "rv1 = EST_SRP_AUTH \<Longrightarrow> peer_certificate ssl = None \<and> srp_username ssl \<noteq> None"
      "rv1 = EST_CERT_AUTH \<longleftrightarrow> tls_cert_ok ssl" "rv1 \<noteq> EST_HTTP_AUTH"
      using False by (auto simp: rv1_def split: if_split_asm)
    note def = est_brski_auth_def [of ossl ctx ssl path_seg w, unfolded chk Let_def prod.case rv1]
    show ?thesis
    proof (cases "transport_mode ctx = EST_HTTP \<and> est_http_auth_cb ctx \<noteq> None \<and> (rv1 = EST_UNAUTHORIZED \<or> require_http_auth ctx)")
      case True
      then obtain cb where cb: "est_http_auth_cb ctx = Some cb" by auto
      have "\<exists>pr ah. (enhanced_cert_auth_enabled ctx \<and> rv1 = EST_CERT_AUTH \<and>
            (\<exists>csr. handle_enhanced_cert_auth ossl ctx ssl peer [] est_create_ah False = (pr, csr, ah))
         \<or> (\<exists>c. mg_parse_auth_header (bio_read ossl) (auth_mode ctx) (conn w) est_create_ah = Some (pr, ah, c)))
        \<and> rv = (case pr of EST_AUTH_HDR_GOOD \<Rightarrow> if cb ah peer path_seg then EST_HTTP_AUTH else EST_UNAUTHORIZED
          | EST_AUTH_HDR_MISSING \<Rightarrow> EST_HTTP_AUTH_PENDING | _ \<Rightarrow> EST_UNAUTHORIZED)"
      proof (cases "enhanced_cert_auth_enabled ctx \<and> rv1 = EST_CERT_AUTH")
        case eca: True
        obtain pr csr ah where h: "handle_enhanced_cert_auth ossl ctx ssl peer [] est_create_ah False = (pr, csr, ah)"
          by (metis prod_cases3)
        have "rv = (case pr of EST_AUTH_HDR_GOOD \<Rightarrow> if cb ah peer path_seg then EST_HTTP_AUTH else EST_UNAUTHORIZED
            | EST_AUTH_HDR_MISSING \<Rightarrow> EST_HTTP_AUTH_PENDING | _ \<Rightarrow> EST_UNAUTHORIZED)"
          using assms True cb eca h unfolding def by (cases pr) simp_all
        with eca h show ?thesis by blast
      next
        case no_eca: False
        then obtain pr ah c where
          q: "mg_parse_auth_header (bio_read ossl) (auth_mode ctx) (conn w) est_create_ah = Some (pr, ah, c)"
          using assms True unfolding def by (auto simp: bind_eq_Some_conv split: if_split_asm)
        have "rv = (case pr of EST_AUTH_HDR_GOOD \<Rightarrow> if cb ah peer path_seg then EST_HTTP_AUTH else EST_UNAUTHORIZED
            | EST_AUTH_HDR_MISSING \<Rightarrow> EST_HTTP_AUTH_PENDING | _ \<Rightarrow> EST_UNAUTHORIZED)"
          using assms True cb no_eca q unfolding def by (cases pr) simp_all
        with q show ?thesis by blast
      qed
      then obtain pr ah where
        "enhanced_cert_auth_enabled ctx \<and> rv1 = EST_CERT_AUTH \<and>
            (\<exists>csr. handle_enhanced_cert_auth ossl ctx ssl peer [] est_create_ah False = (pr, csr, ah))
         \<or> (\<exists>c. mg_parse_auth_header (bio_read ossl) (auth_mode ctx) (conn w) est_create_ah = Some (pr, ah, c))"
        and "rv = (case pr of EST_AUTH_HDR_GOOD \<Rightarrow> if cb ah peer path_seg then EST_HTTP_AUTH else EST_UNAUTHORIZED
          | EST_AUTH_HDR_MISSING \<Rightarrow> EST_HTTP_AUTH_PENDING | _ \<Rightarrow> EST_UNAUTHORIZED)"
        by blast
      then show ?thesis
        using cb srp unfolding credentials_accepted_def pc
        by (auto split: EST_HTTP_AUTH_HDR_RESULT.split_asm if_split_asm)
    next
      case no_http: False
      then have "rv = rv1 \<or> rv = EST_UNAUTHORIZED"
        using assms unfolding def
        by (auto split: if_split_asm option.split_asm EST_HTTP_AUTH_HDR_RESULT.split_asm prod.split_asm)
      then show ?thesis using srp no_http by auto
    qed
  qed
qed

section \<open>Properties\<close>

text \<open>C5: \<^verbatim>\<open>est_enroll_auth\<close> authorises a client only by a certificate that the TLS stack verified (or of which
  only the CRL was missing), by an SRP login without certificate over HTTP, or by credentials that the
  application accepted. A certificate that failed verification is never authorised, whatever else the
  client sends. When HTTP authentication is required and available, a simple enrollment is never
  authorised by certificate or SRP alone.\<close>

theorem est_enroll_auth_sound:
  assumes "est_enroll_auth ossl ctx ssl path_seg enroll_req csr_buf w = Some (rv, csr, w')"
  shows "(rv = EST_CERT_AUTH \<longrightarrow> tls_cert_ok ssl)
    \<and> (rv = EST_SRP_AUTH \<longrightarrow> peer_certificate ssl = None \<and> srp_username ssl \<noteq> None \<and> transport_mode ctx = EST_HTTP)
    \<and> (rv = EST_HTTP_AUTH \<longrightarrow> credentials_accepted ossl ctx ssl path_seg (conn w))
    \<and> (peer_certificate ssl \<noteq> None \<and> \<not> tls_cert_ok ssl \<longrightarrow> rv = EST_UNAUTHORIZED)
    \<and> (rv = EST_CERT_AUTH \<and> transport_mode ctx = EST_HTTP \<and> est_http_auth_cb ctx \<noteq> None \<and> require_http_auth ctx
        \<longrightarrow> enroll_req \<noteq> SIMPLE_ENROLL_REQ)"
  using assms by (rule est_enroll_auth_policy)

theorem est_enroll_auth_sound_witness:
  "\<exists>csr w'. est_enroll_auth sample_ossl sample_ctx sample_ssl None SIMPLE_ENROLL_REQ ''csr'' sample_http = Some (EST_CERT_AUTH, csr, w')
   \<and> tls_cert_ok sample_ssl"
proof -
  have run: "est_enroll_auth sample_ossl sample_ctx sample_ssl None SIMPLE_ENROLL_REQ ''csr'' sample_http
      = Some (EST_CERT_AUTH, None, emit (Auth_Result EST_AUTH_ECA_ERR EST_CERT_AUTH) sample_http)"
    by (simp add: est_enroll_auth_def check_for_TLS_cert_auth_def sample_ssl_def sample_ctx_def X509_V_OK_def)
  then show ?thesis using est_enroll_auth_sound [OF run] by blast
qed

text \<open>C36: for a re-enrollment or a server-side key generation, a malformed \<^verbatim>\<open>Authorization\<close> header together with
  a verified certificate is authorised although HTTP authentication is required, while the same
  request without any header is asked to authenticate.\<close>

theorem est_enroll_auth_bad_header_reenroll:
  assumes "tls_cert_ok ssl" and "transport_mode ctx = EST_HTTP" and "est_http_auth_cb ctx \<noteq> None"
    and "require_http_auth ctx" and "\<not> enhanced_cert_auth_enabled ctx" and "enroll_req \<noteq> SIMPLE_ENROLL_REQ"
    and "mg_parse_auth_header (bio_read ossl) (auth_mode ctx) (conn w) est_create_ah = Some (pr, ah, c)"
  shows "(pr = EST_AUTH_HDR_BAD \<longrightarrow>
      (\<exists>w'. est_enroll_auth ossl ctx ssl path_seg enroll_req csr_buf w = Some (EST_CERT_AUTH, None, w')))
    \<and> (pr = EST_AUTH_HDR_MISSING \<longrightarrow>
      (\<exists>w'. est_enroll_auth ossl ctx ssl path_seg enroll_req csr_buf w = Some (EST_HTTP_AUTH_PENDING, None, w')))"
proof -
  have "check_for_TLS_cert_auth ssl = (True, peer_certificate ssl, EST_CERT_AUTH)"
    using assms(1) by (simp add: check_for_TLS_cert_auth_eq tls_cert_ok_def)
  with assms show ?thesis by (simp add: est_enroll_auth_def)
qed

theorem est_enroll_auth_bad_header_reenroll_witness:
  "\<exists>w'. est_enroll_auth sample_ossl (sample_ctx\<lparr>require_http_auth := True\<rparr>) sample_ssl None REENROLL_REQ ''csr''
     (sample_http\<lparr>conn := (conn sample_http)\<lparr>request_info := (request_info (conn sample_http))\<lparr>http_headers :=
        [(''Authorization'', ''Nonsense'')]\<rparr>\<rparr>\<rparr>) = Some (EST_CERT_AUTH, None, w')"
proof -
  let ?c = "(conn sample_http)\<lparr>request_info := (request_info (conn sample_http))\<lparr>http_headers := [(''Authorization'', ''Nonsense'')]\<rparr>\<rparr>"
  have "mg_get_header ?c ''Authorization'' = Some ''Nonsense''"
    by (simp add: mg_get_header_def get_header_def mg_strcasecmp_eq_0)
  moreover have "mg_strncasecmp ''Nonsense'' ''Digest '' 7 \<noteq> 0" "mg_strncasecmp ''Nonsense'' ''Basic '' 6 \<noteq> 0"
    "mg_strncasecmp ''Nonsense'' ''Bearer '' 7 \<noteq> 0"
    by code_simp+
  ultimately have "mg_parse_auth_header (bio_read sample_ossl) (auth_mode (sample_ctx\<lparr>require_http_auth := True\<rparr>))
      (conn (sample_http\<lparr>conn := ?c\<rparr>)) est_create_ah = Some (EST_AUTH_HDR_BAD, est_create_ah\<lparr>mode := AUTH_FAIL\<rparr>, ?c)"
    by (simp add: mg_parse_auth_header_def Let_def)
  moreover have "tls_cert_ok sample_ssl" by (simp add: tls_cert_ok_def sample_ssl_def X509_V_OK_def)
  ultimately show ?thesis
    using est_enroll_auth_bad_header_reenroll [of sample_ssl "sample_ctx\<lparr>require_http_auth := True\<rparr>" REENROLL_REQ
        sample_ossl "sample_http\<lparr>conn := ?c\<rparr>"]
    by (simp add: sample_ctx_def)
qed

text \<open>C6: \<^verbatim>\<open>est_brski_auth\<close> follows the same policy without the exception for malformed headers: when HTTP
  authentication is required and available, nothing but accepted credentials authorises.\<close>

theorem est_brski_auth_sound:
  assumes "est_brski_auth ossl ctx ssl path_seg w = Some (rv, w')"
  shows "(rv = EST_CERT_AUTH \<longrightarrow> tls_cert_ok ssl)
    \<and> (rv = EST_SRP_AUTH \<longrightarrow> peer_certificate ssl = None \<and> srp_username ssl \<noteq> None)
    \<and> (rv = EST_HTTP_AUTH \<longrightarrow> credentials_accepted ossl ctx ssl path_seg (conn w))
    \<and> (transport_mode ctx = EST_HTTP \<and> est_http_auth_cb ctx \<noteq> None \<and> require_http_auth ctx
        \<longrightarrow> rv \<in> {EST_UNAUTHORIZED, EST_HTTP_AUTH_PENDING, EST_HTTP_AUTH})"
  using assms by (rule est_brski_auth_policy)

theorem est_brski_auth_sound_witness:
  "\<exists>w'. est_brski_auth sample_ossl sample_ctx sample_ssl None sample_http = Some (EST_CERT_AUTH, w') \<and> tls_cert_ok sample_ssl"
proof -
  have run: "est_brski_auth sample_ossl sample_ctx sample_ssl None sample_http
      = Some (EST_CERT_AUTH, emit (Auth_Result EST_AUTH_ECA_ERR EST_CERT_AUTH) sample_http)"
    by (simp add: est_brski_auth_def check_for_TLS_cert_auth_def sample_ssl_def sample_ctx_def X509_V_OK_def)
  then show ?thesis using est_brski_auth_sound [OF run] by blast
qed

text \<open>the proof-of-possession check passes exactly when the request has no challenge password and the server
  does not insist on one, or when its first bytes are the TLS unique id of the connection. Only the
  length of the id is compared: a longer challenge password with the id as prefix passes.\<close>

theorem est_tls_uid_auth_pass:
  "est_tls_uid_auth ossl ctx ssl req = Some EST_ERR_NONE \<longleftrightarrow>
     (case challenge_attr ossl req of
        None \<Rightarrow> \<not> server_enable_pop ctx
      | Some None \<Rightarrow> False
      | Some (Some bs) \<Rightarrow> (\<exists>uid rest. est_get_tls_uid ossl ssl False = Some (Some uid) \<and> uid \<noteq> [] \<and> bs = uid @ rest))"
proof (cases "challenge_attr ossl req")
  case None
  then show ?thesis by (simp add: est_tls_uid_auth_def)
next
  case (Some a)
  show ?thesis
  proof (cases a)
    case None
    with Some show ?thesis by (simp add: est_tls_uid_auth_def)
  next
    case bs: (Some bs)
    have "take (length uid) bs = uid \<and> length uid \<le> length bs \<longleftrightarrow> (\<exists>rest. bs = uid @ rest)" for uid
      by (metis append_take_drop_id append_eq_conv_conj length_append le_add1)
    note prefix = this
    show ?thesis
    proof (cases "\<exists>uid. est_get_tls_uid ossl ssl False = Some (Some uid)")
      case True
      then obtain uid where "est_get_tls_uid ossl ssl False = Some (Some uid)" by blast
      then show ?thesis
        using Some bs prefix [of uid] by (auto simp: est_tls_uid_auth_def memcmp_s_def rd_block_def bind_eq_Some_conv)
    next
      case False
      then have "est_get_tls_uid ossl ssl False = None \<or> est_get_tls_uid ossl ssl False = Some None"
        by (cases "est_get_tls_uid ossl ssl False") auto
      then show ?thesis using Some bs False by (auto simp: est_tls_uid_auth_def)
    qed
  qed
qed

text \<open>the signature check accepts a request only if its public key can be read and verifies its signature
  with a positive result.\<close>

theorem est_server_check_csr_ok:
  "est_server_check_csr ossl req = 0 \<longleftrightarrow> (\<exists>k. X509_REQ_get_pubkey ossl req = Some k \<and> X509_REQ_verify ossl req k > 0)"
  by (auto simp: est_server_check_csr_def Let_def split: option.splits)

end
