(* ===== verification/Est_Asn1.thy ===== *)
theory Est_Asn1
  imports Est_Ctx
begin

text \<open>
  CSR attributes as ASN.1, \<^verbatim>\<open>src/src/est/est.c\<close>: the sanity test, the search for the
  \<^verbatim>\<open>challengePassword\<close> attribute and its insertion. OpenSSL's \<^verbatim>\<open>ASN1_get_object\<close> and
  \<^verbatim>\<open>d2i_ASN1_OBJECT\<close> are parameters: the first yields for the bytes at a pointer and the length \<^verbatim>\<open>omax\<close> it is told the result \<^verbatim>\<open>j\<close>, the tag,
  the class, the header length and the content length; the second the NID, the printed OID and the
  number of bytes it consumed. Loops over them carry fuel: one unit per object, and \<open>asn1_ok\<close>, which
  says that both functions consume at least one byte, makes the length of the data enough.
\<close>

record asn1_hdr =
  hdr_j :: nat
  hdr_tag :: int
  hdr_xclass :: int
  hdr_hl :: nat
  hdr_len :: nat

record ASN1 =
  ASN1_get_object :: "int \<Rightarrow> string \<Rightarrow> asn1_hdr"
  d2i_ASN1_OBJECT :: "string \<Rightarrow> (int \<times> string \<times> nat) option"

definition asn1_ok :: "ASN1 \<Rightarrow> bool" where
  "asn1_ok a \<longleftrightarrow>
     (\<forall>omax s. bit (hdr_j (ASN1_get_object a omax s)) 7 \<or> 0 < hdr_hl (ASN1_get_object a omax s))
     \<and> (\<forall>s n t k. d2i_ASN1_OBJECT a s = Some (n, t, k) \<longrightarrow> 0 < k)"

abbreviation V_ASN1_OBJECT :: int where "V_ASN1_OBJECT \<equiv> 6"
abbreviation V_ASN1_SEQUENCE :: int where "V_ASN1_SEQUENCE \<equiv> 16"
abbreviation V_ASN1_SET :: int where "V_ASN1_SET \<equiv> 17"
abbreviation NID_pkcs9_challengePassword :: int where "NID_pkcs9_challengePassword \<equiv> 54"

section \<open>Sanity test\<close>

text \<open>The offset after one object of the loop, and whether the object was the challenge password.\<close>

definition sanity_step :: "ASN1 \<Rightarrow> string \<Rightarrow> nat \<Rightarrow> nat \<times> bool" where
  "sanity_step a s off =
     (let h = ASN1_get_object a (int (length s - off)) (drop off s) in
      if hdr_tag h = V_ASN1_OBJECT then
        (case d2i_ASN1_OBJECT a (drop off s) of
           Some (n, _, used) \<Rightarrow> (off + used, n = NID_pkcs9_challengePassword)
         | None \<Rightarrow> (off + hdr_hl h, False))
      else if hdr_tag h = V_ASN1_SET \<or> hdr_tag h = V_ASN1_SEQUENCE then (off + hdr_hl h, False)
      else (off + hdr_hl h + hdr_len h, False))"

fun sanity_loop :: "ASN1 \<Rightarrow> nat \<Rightarrow> string \<Rightarrow> nat \<Rightarrow> bool \<Rightarrow> (EST_ERROR \<times> bool) option" where
  "sanity_loop a 0 s off pop_present = None"
| "sanity_loop a (Suc fuel) s off pop_present =
     (if off < length s then
        (if bit (hdr_j (ASN1_get_object a (int (length s - off)) (drop off s))) 7 then Some (EST_ERR_BAD_ASN1_HEX, pop_present)
         else (let (off', pop) = sanity_step a s off in sanity_loop a fuel s off' (pop_present \<or> pop)))
      else if off \<noteq> length s then Some (EST_ERR_BAD_ASN1_HEX, pop_present)
      else if length s > (if pop_present then 1035 else 1024) then Some (EST_ERR_BAD_ASN1_HEX_TOO_LONG, pop_present)
      else Some (EST_ERR_NONE, pop_present))"

definition est_asn1_sanity_test :: "ASN1 \<Rightarrow> string \<Rightarrow> (EST_ERROR \<times> bool) option" where
  "est_asn1_sanity_test a s =
     (if length s < 2 then Some (EST_ERR_BAD_ASN1_HEX_TOO_SHORT, False)
      else sanity_loop a (Suc (length s)) s 0 False)"

definition est_asn1_parse_attributes ::
  "OPENSSL \<Rightarrow> ASN1 \<Rightarrow> string \<Rightarrow> (EST_ERROR \<times> bool) option" where
  "est_asn1_parse_attributes ossl a p =
     (if length p < 4 then Some (EST_ERR_INVALID_PARAMETERS, False)
      else do { (der_len, der) \<leftarrow> est_base64_decode (bio_read ossl) p (int (length p) * 2);
                if der_len \<le> 0 then Some (EST_ERR_BAD_BASE64, False) else est_asn1_sanity_test a der })"

definition est_is_challengePassword_present ::
  "OPENSSL \<Rightarrow> ASN1 \<Rightarrow> string option \<Rightarrow> (EST_ERROR \<times> bool) option" where
  "est_is_challengePassword_present ossl a base64_ptr =
     (case base64_ptr of None \<Rightarrow> Some (EST_ERR_NONE, False)
      | Some p \<Rightarrow> if p = [] then Some (EST_ERR_NONE, False) else est_asn1_parse_attributes ossl a p)"

section \<open>Insertion of the challenge password\<close>

definition byte :: "nat \<Rightarrow> char" where
  "byte n = char_of n"

definition hex_chpw :: string where
  "hex_chpw = map byte [0x06, 0x09, 0x2a, 0x86, 0x48, 0x86, 0xf7, 0x0d, 0x01, 0x09, 0x07]"

text \<open>The new encoding: the header is chosen by the length of the content.\<close>

definition chpw_der :: "string \<Rightarrow> nat \<Rightarrow> string" where
  "chpw_der der hl =
     (let content = drop hl der; n = length content + length hex_chpw in
      (if n \<ge> 256 then
         (let new_len = n + 4 in [byte 0x30, byte 0x82, byte ((new_len - 4) div 256), byte ((new_len - 4) mod 256)])
       else if n \<ge> 128 then (let new_len = n + 3 in [byte 0x30, byte 0x81, byte (new_len - 3)])
       else (let new_len = n + 2 in [byte 0x30, byte (new_len - 2)])) @ content @ hex_chpw)"

definition est_add_challengePassword ::
  "OPENSSL \<Rightarrow> ASN1 \<Rightarrow> string \<Rightarrow> (EST_ERROR \<times> string) option" where
  "est_add_challengePassword ossl a base64_ptr =
     do { (der_len, der) \<leftarrow> est_base64_decode (bio_read ossl) base64_ptr (int (length base64_ptr) * 2);
          if der_len \<le> 0 then Some (EST_ERR_MALLOC, [])
          else (let h = ASN1_get_object a der_len der in
                if hdr_tag h \<noteq> V_ASN1_SEQUENCE then Some (EST_ERR_BAD_ASN1_HEX, [])
                else (let new_der = chpw_der der (hdr_hl h); new_len = length new_der in
                      do { (csrattrs, enc_len) \<leftarrow>
                             est_base64_encode (bio_write ossl) new_der (Some (replicate (new_len * 2) NUL)) (new_len * 2) False;
                           if enc_len \<le> 0 then Some (EST_ERR_BAD_BASE64, [])
                           else Some (EST_ERR_NONE, cstr (the csrattrs)) })) }"

section \<open>The loop ends\<close>

lemma sanity_step_progress:
  assumes "asn1_ok a" and "off < length s" and "\<not> bit (hdr_j (ASN1_get_object a (int (length s - off)) (drop off s))) 7"
  shows "off < fst (sanity_step a s off)"
proof -
  have "0 < hdr_hl (ASN1_get_object a (int (length s - off)) (drop off s))"
    using assms(1,3) unfolding asn1_ok_def by metis
  then show ?thesis
    using assms(1) by (fastforce simp: sanity_step_def Let_def asn1_ok_def split: option.splits)
qed

lemma sanity_loop_total:
  "asn1_ok a \<Longrightarrow> length s - off < fuel \<Longrightarrow> sanity_loop a fuel s off pop \<noteq> None"
proof (induction a fuel s off pop rule: sanity_loop.induct)
  case (2 a fuel s off pop_present)
  show ?case
  proof (cases "off < length s \<and> \<not> bit (hdr_j (ASN1_get_object a (int (length s - off)) (drop off s))) 7")
    case True
    obtain off' pop where st: "sanity_step a s off = (off', pop)" by fastforce
    have "off < off'" using sanity_step_progress [of a off s] 2(2) True st by (metis fst_conv)
    then have "sanity_loop a fuel s off' (pop_present \<or> pop) \<noteq> None"
      using 2(1) 2(2,3) True st by fastforce
    then show ?thesis using True st by simp
  next
    case False
    then show ?thesis by auto
  qed
qed simp

text \<open>The offsets the walk visits: it starts at 0 and ends at the end of the data.\<close>

inductive asn1_walk :: "ASN1 \<Rightarrow> string \<Rightarrow> nat \<Rightarrow> bool \<Rightarrow> bool" for a s where
  walk_end: "asn1_walk a s (length s) False"
| walk_step: "off < length s \<Longrightarrow> \<not> bit (hdr_j (ASN1_get_object a (int (length s - off)) (drop off s))) 7 \<Longrightarrow>
    sanity_step a s off = (off', pop) \<Longrightarrow> asn1_walk a s off' rest \<Longrightarrow> asn1_walk a s off (pop \<or> rest)"

lemma sanity_loop_walk:
  "sanity_loop a fuel s off pop = Some (EST_ERR_NONE, res) \<Longrightarrow> \<exists>r. asn1_walk a s off r \<and> res = (pop \<or> r)"
proof (induction a fuel s off pop rule: sanity_loop.induct)
  case (2 a fuel s off pop_present)
  show ?case
  proof (cases "off < length s")
    case True
    obtain off' pop where st: "sanity_step a s off = (off', pop)" by fastforce
    from 2(2) True st have nb: "\<not> bit (hdr_j (ASN1_get_object a (int (length s - off)) (drop off s))) 7"
      and rec: "sanity_loop a fuel s off' (pop_present \<or> pop) = Some (EST_ERR_NONE, res)"
      by (auto split: if_split_asm)
    from 2(1) [OF True nb st [symmetric] refl rec] obtain r where "asn1_walk a s off' r" "res = ((pop_present \<or> pop) \<or> r)"
      by blast
    then show ?thesis using asn1_walk.walk_step [OF True nb st] by blast
  next
    case False
    then show ?thesis using 2(2) asn1_walk.walk_end [of a s] by (auto split: if_split_asm)
  qed
qed simp

section \<open>A DER header decoder\<close>

text \<open>
  A concrete decoder for one-byte tags and lengths of up to two bytes: the instance of the parameter on
  which the hypotheses are shown to hold, and the reading under which an encoding is judged.
\<close>

definition der_error :: asn1_hdr where
  "der_error = \<lparr>hdr_j = 0x80, hdr_tag = 0, hdr_xclass = 0, hdr_hl = 0, hdr_len = 0\<rparr>"

definition der_hdr :: "int \<Rightarrow> string \<Rightarrow> asn1_hdr" where
  "der_hdr omax s =
     (case s of
        t # l # rest \<Rightarrow>
          (let (hl, len) = (if uchr l < 128 then (2, uchr l)
                            else if uchr l = 0x81 then (3, uchr (at rest 0))
                            else if uchr l = 0x82 then (4, uchr (at rest 0) * 256 + uchr (at rest 1))
                            else (0, 0)) in
           if hl = 0 \<or> hl + len > nat omax then der_error
           else \<lparr>hdr_j = uchr t mod 128 div 32 * 32, hdr_tag = int (uchr t mod 32),
                 hdr_xclass = int (uchr t div 64 * 64), hdr_hl = hl, hdr_len = len\<rparr>)
      | _ \<Rightarrow> der_error)"

definition der_object :: "string \<Rightarrow> (int \<times> string \<times> nat) option" where
  "der_object s =
     (let h = der_hdr (int (length s)) s in
      if hdr_j h = 0x80 \<or> hdr_tag h \<noteq> 6 then None
      else (let c = take (hdr_len h) (drop (hdr_hl h) s) in
            Some (if take (hdr_hl h + hdr_len h) s = hex_chpw then NID_pkcs9_challengePassword else 0, c, hdr_hl h + hdr_len h)))"

definition der_asn1 :: ASN1 where
  "der_asn1 = \<lparr>ASN1_get_object = der_hdr, d2i_ASN1_OBJECT = der_object\<rparr>"

lemma der_hdr_ok: "hdr_j (der_hdr omax s) = 0x80 \<or> 0 < hdr_hl (der_hdr omax s)"
  by (auto simp: der_hdr_def der_error_def Let_def split: list.splits if_splits)

lemma bit_128: "bit (0x80 :: nat) 7"
  by (simp add: bit_iff_odd)

lemma der_asn1_ok: "asn1_ok der_asn1"
proof -
  have "bit (hdr_j (der_hdr omax s)) 7 \<or> 0 < hdr_hl (der_hdr omax s)" for omax s
    using der_hdr_ok [of omax s] bit_128 by auto
  moreover have "0 < k" if "der_object s = Some (n, t, k)" for s n t k
    using that der_hdr_ok [of "int (length s)" s] by (auto simp: der_object_def Let_def split: if_split_asm)
  ultimately show ?thesis by (auto simp: asn1_ok_def der_asn1_def)
qed

lemma uchr_byte [simp]: "uchr (byte n) = n mod 256"
  by (simp add: byte_def uchr_def)

lemma length_hex_chpw [simp]: "length hex_chpw = 11"
  by (simp add: hex_chpw_def)

section \<open>Properties\<close>

text \<open>the sanity test always ends when the ASN.1 functions consume input. It succeeds only on data of 2 to 1024
  bytes (1035 with a challenge password) that a sequence of objects covers exactly, and it reports a
  challenge password exactly when one of these objects is that attribute.\<close>

theorem est_asn1_sanity_test_correct:
  assumes "asn1_ok a"
  shows "\<exists>rv pop. est_asn1_sanity_test a s = Some (rv, pop)
    \<and> (rv = EST_ERR_NONE \<longrightarrow> 2 \<le> length s \<and> length s \<le> (if pop then 1035 else 1024) \<and> asn1_walk a s 0 pop)"
proof -
  have "\<exists>rv pop. est_asn1_sanity_test a s = Some (rv, pop)"
    using sanity_loop_total [OF assms, of s 0 "Suc (length s)" False] by (auto simp: est_asn1_sanity_test_def)
  then obtain rv pop where run: "est_asn1_sanity_test a s = Some (rv, pop)" by blast
  have bound: "length s \<le> (if q then 1035 else 1024)" if "sanity_loop a f s o' p = Some (EST_ERR_NONE, q)" for f o' p q
    using that
  proof (induction a f s o' p rule: sanity_loop.induct)
    case (2 a fuel s off pop_present)
    then show ?case by (cases "sanity_step a s off") (auto split: if_split_asm)
  qed simp
  show ?thesis
    using run bound [of "Suc (length s)" 0 False] sanity_loop_walk [of a "Suc (length s)" s 0 False]
    by (auto simp: est_asn1_sanity_test_def simp del: sanity_loop.simps split: if_split_asm)
qed

theorem est_asn1_sanity_test_correct_witness:
  "est_asn1_sanity_test der_asn1 (byte 0x30 # byte 0x0b # hex_chpw) = Some (EST_ERR_NONE, True)
   \<and> asn1_walk der_asn1 (byte 0x30 # byte 0x0b # hex_chpw) 0 True"
proof -
  have "est_asn1_sanity_test der_asn1 (byte 0x30 # byte 0x0b # hex_chpw) = Some (EST_ERR_NONE, True)"
    by code_simp
  then show ?thesis
    using est_asn1_sanity_test_correct [OF der_asn1_ok, of "byte 0x30 # byte 0x0b # hex_chpw"] by auto
qed

text \<open>inserting the challenge password gives one well-formed SEQUENCE: its DER header is read back with the
  sequence tag and a length that covers exactly the rest of the data, which is the old content
  followed by the challenge password OID (for contents below 64 KiB).\<close>

theorem chpw_der_roundtrip:
  assumes "length der - hl + 11 < 65536"
  shows "let new = chpw_der der hl; h = der_hdr (int (length new)) new in
    hdr_j h = 0x20 \<and> hdr_tag h = V_ASN1_SEQUENCE \<and> hdr_xclass h = 0
    \<and> hdr_hl h + hdr_len h = length new \<and> drop (hdr_hl h) new = drop hl der @ hex_chpw"
proof -
  define k where "k = length der - hl"
  let ?c = "drop hl der @ hex_chpw" and ?n = "k + 11"
  have len: "length (drop hl der) = k" by (simp add: k_def)
  have "?n < 65536" using assms by (simp add: k_def)
  consider "?n < 128" | "128 \<le> ?n" "?n < 256" | "256 \<le> ?n" by linarith
  then show ?thesis
  proof cases
    case 1
    then have "chpw_der der hl = byte 0x30 # byte ?n # ?c"
      unfolding chpw_der_def Let_def len by (simp add: add.commute)
    then show ?thesis using 1 len by (simp add: der_hdr_def Let_def nat_add_distrib)
  next
    case 2
    then have "chpw_der der hl = byte 0x30 # byte 0x81 # byte ?n # ?c"
      unfolding chpw_der_def Let_def len by (simp add: add.commute)
    then show ?thesis using 2 len by (simp add: der_hdr_def Let_def nat_add_distrib)
  next
    case 3
    then have "chpw_der der hl = byte 0x30 # byte 0x82 # byte (?n div 256) # byte (?n mod 256) # ?c"
      unfolding chpw_der_def Let_def len by (simp add: add.commute)
    moreover have "?n div 256 < 256" using \<open>?n < 65536\<close> by simp
    moreover have "?n div 256 * 256 + ?n mod 256 = ?n" by simp
    ultimately show ?thesis using len by (simp add: der_hdr_def Let_def nat_add_distrib)
  qed
qed

theorem chpw_der_roundtrip_witness:
  "let new = chpw_der (byte 0x30 # byte 0x01 # ''x'') 2; h = der_hdr (int (length new)) new in
   hdr_hl h + hdr_len h = length new"
  using chpw_der_roundtrip [of "byte 0x30 # byte 0x01 # ''x''" 2] by (simp add: Let_def)

end
