(* ===== verification/Server_Csrattrs.thy ===== *)
theory Server_Csrattrs
  imports Est_Asn1
begin

text \<open>
  Enforcement of CSR attributes by the server, \<^verbatim>\<open>src/src/est/est_server.c\<close>: the OIDs of every object in the
  client's request are collected by a recursive walk over its DER encoding, and each attribute
  configured on the server must be among them.

  The walk is modelled on the decoded bytes with absolute offsets: a header or an object that reaches
  past the end of the buffer is \<open>Fault\<close>. Its recursion is bounded by fuel; running out of it is \<open>Fuel\<close>.
\<close>

datatype 'a outcome = Done 'a | Fault | Fuel

section \<open>The walk over the request\<close>

definition est_server_add_oid_to_list :: "string list \<Rightarrow> string \<Rightarrow> string list" where
  "est_server_add_oid_to_list list new_entry = list @ [new_entry]"

text \<open>
  The body of the loop of \<^verbatim>\<open>est_server_csr_asn1_parse\<close> with its local variables, over the two recursive
  calls it makes: \<open>parse\<close> (itself, as \<open>l tot op ptr length\<close>) and \<open>inner\<close>, the loop over the content of a
  constructed object (\<open>l ep ptr len\<close>). The result is the return value 0, 1 or 2 with the list and the
  advanced pointer.
\<close>

type_synonym csr_result = "(nat \<times> string list \<times> nat) outcome"
type_synonym csr_parse_fun = "string list \<Rightarrow> int \<Rightarrow> int \<Rightarrow> nat \<Rightarrow> int \<Rightarrow> csr_result"
type_synonym csr_inner_fun = "string list \<Rightarrow> nat \<Rightarrow> nat \<Rightarrow> nat \<Rightarrow> csr_result"

definition csr_loop_body :: "ASN1 \<Rightarrow> string \<Rightarrow> csr_parse_fun \<Rightarrow> csr_inner_fun \<Rightarrow> csr_parse_fun" where
  "csr_loop_body a d parse inner l tot op ptr length0 =
     (if int ptr < tot \<and> op < int ptr then
        (let h = ASN1_get_object a length0 (drop ptr d);
             j = hdr_j h; hl = hdr_hl h; len = hdr_len h;
             length1 = length0 - int hl; ptr1 = ptr + hl;
             continue = (\<lambda>l' ptr'. parse l' tot (int ptr) ptr' (length1 - int len)) in
         if ptr1 > length d then Fault
         else if bit j 7 then Done (0, l, ptr1)
         else if bit j 5 then
           (if int len > length1 then Done (0, l, ptr1)
            else if j = 0x21 \<and> len = 0 then
              (case parse l tot (int ptr1 - 1) ptr1 (tot - int ptr1) of
                 Done (r, l', ptr') \<Rightarrow>
                   if r = 0 then Done (0, l', ptr')
                   else if r = 2 \<or> int ptr' \<ge> tot then Done (1, l', ptr')
                   else continue l' ptr'
               | x \<Rightarrow> x)
            else
              (case inner l (ptr1 + len) ptr1 len of
                 Done (r, l', ptr') \<Rightarrow> if r = 0 then Done (0, l', ptr') else continue l' ptr'
               | x \<Rightarrow> x))
         else if hdr_xclass h \<noteq> 0 then continue l (ptr1 + len)
         else if hdr_tag h = V_ASN1_OBJECT then
           (if ptr1 + len > length d then Fault
            else (case d2i_ASN1_OBJECT a (take (hl + len) (drop ptr d)) of
                None \<Rightarrow> Done (0, l, ptr1)
              | Some (_, oid, _) \<Rightarrow> continue (est_server_add_oid_to_list l oid) (ptr1 + len)))
         else if hdr_tag h = 0 then Done (2, l, ptr1 + len)
         else continue l (ptr1 + len))
      else Done (1, l, ptr))"

definition csr_inner_body :: "csr_parse_fun \<Rightarrow> csr_inner_fun \<Rightarrow> csr_inner_fun" where
  "csr_inner_body parse inner l ep ptr len =
     (if ptr < ep then
        (case parse l (int ptr + int len) (int ptr - 1) ptr (int len) of
           Done (r, l', ptr') \<Rightarrow> if r = 0 then Done (0, l', ptr') else inner l' ep ptr' len
         | x \<Rightarrow> x)
      else Done (1, l, ptr))"

fun csr_parse :: "ASN1 \<Rightarrow> string \<Rightarrow> nat \<Rightarrow> csr_parse_fun" and
  csr_inner :: "ASN1 \<Rightarrow> string \<Rightarrow> nat \<Rightarrow> csr_inner_fun" where
  "csr_parse a d 0 l tot op ptr k = Fuel"
| "csr_parse a d (Suc n) l tot op ptr k = csr_loop_body a d (csr_parse a d n) (csr_inner a d n) l tot op ptr k"
| "csr_inner a d 0 l ep ptr len = Fuel"
| "csr_inner a d (Suc n) l ep ptr len = csr_inner_body (csr_parse a d n) (csr_inner a d n) l ep ptr len"

definition est_server_csr_asn1_parse :: "ASN1 \<Rightarrow> nat \<Rightarrow> string \<Rightarrow> (nat \<times> string list \<times> nat) outcome" where
  "est_server_csr_asn1_parse a fuel d = csr_parse a d fuel [] (int (length d)) (-1) 0 (int (length d))"

text \<open>Twice the length of the data is enough fuel: the walk moves by at least one byte every second call.\<close>

definition csr_fuel :: "string \<Rightarrow> nat" where
  "csr_fuel d = 2 * length d + 4"

definition est_server_build_csr_oid_list :: "OPENSSL \<Rightarrow> ASN1 \<Rightarrow> string \<Rightarrow> (EST_ERROR \<times> string list) outcome" where
  "est_server_build_csr_oid_list ossl a body =
     (case est_base64_decode (bio_read ossl) body (int (length body) * 2) of
        None \<Rightarrow> Fault
      | Some (der_len, der) \<Rightarrow>
          if der_len \<le> 0 then Done (EST_ERR_BAD_BASE64, [])
          else (case est_server_csr_asn1_parse a (csr_fuel der) der of
              Done (r, l, _) \<Rightarrow> if r = 0 then Done (EST_ERR_UNKNOWN, []) else Done (EST_ERR_NONE, l)
            | Fault \<Rightarrow> Fault | Fuel \<Rightarrow> Fuel))"

section \<open>Comparison with the configured attributes\<close>

text \<open>
  One configured object: skip it, fail, or require its OID. The printed OID and the entries of the
  list are strings of fewer than 128 bytes, so the bounded comparison is equality of C strings.
\<close>

fun attrs_loop :: "ASN1 \<Rightarrow> nat \<Rightarrow> string list \<Rightarrow> string \<Rightarrow> nat \<Rightarrow> EST_ERROR outcome" where
  "attrs_loop a 0 oids s off = Fuel"
| "attrs_loop a (Suc fuel) oids s off =
     (if off < length s then
        (let h = ASN1_get_object a (int (length s - off)) (drop off s) in
         if bit (hdr_j h) 7 then Done EST_ERR_BAD_ASN1_HEX
         else if hdr_tag h = V_ASN1_OBJECT then
           (case d2i_ASN1_OBJECT a (drop off s) of
              None \<Rightarrow> Done EST_ERR_UNKNOWN
            | Some (n, tbuf, used) \<Rightarrow>
                if n = NID_pkcs9_challengePassword then attrs_loop a fuel oids s (off + used)
                else if oids = [] then Done EST_ERR_CSR_ATTR_MISSING
                else if \<not> list_ex (\<lambda>oid. strncmp oid tbuf 128 = 0) oids then Done EST_ERR_CSR_ATTR_MISSING
                else attrs_loop a fuel oids s (off + used))
         else if hdr_tag h = V_ASN1_SET \<or> hdr_tag h = V_ASN1_SEQUENCE then attrs_loop a fuel oids s (off + hdr_hl h)
         else attrs_loop a fuel oids s (off + hdr_hl h + hdr_len h))
      else if off \<noteq> length s then Done EST_ERR_BAD_ASN1_HEX
      else Done EST_ERR_NONE)"

definition est_server_all_csrattrs_present ::
  "OPENSSL \<Rightarrow> ASN1 \<Rightarrow> EST_CTX \<Rightarrow> string \<Rightarrow> X509 option \<Rightarrow> EST_ERROR outcome" where
  "est_server_all_csrattrs_present ossl a ctx body peer_cert =
     (if server_csrattrs ctx = None \<and> est_get_csr_cb ctx = None then Done EST_ERR_NONE
      else
        (case est_server_build_csr_oid_list ossl a body of
           Fault \<Rightarrow> Fault | Fuel \<Rightarrow> Fuel
         | Done (rv, oids) \<Rightarrow>
             if rv \<noteq> EST_ERR_NONE then Done rv
             else
               (case (case est_get_csr_cb ctx of Some cb \<Rightarrow> cb None peer_cert | None \<Rightarrow> server_csrattrs ctx) of
                  None \<Rightarrow> Done EST_ERR_CB_FAILED
                | Some csr_data \<Rightarrow>
                    if length csr_data < 4 then Done EST_ERR_INVALID_PARAMETERS
                    else
                      (case est_base64_decode (bio_read ossl) csr_data (int (length csr_data) * 2) of
                         None \<Rightarrow> Fault
                       | Some (der_len, der) \<Rightarrow>
                           if der_len \<le> 0 then Done EST_ERR_BAD_BASE64
                           else if length der > 1024 then Done EST_ERR_INVALID_PARAMETERS
                           else if length der < 2 then Done EST_ERR_INVALID_PARAMETERS
                           else attrs_loop a (Suc (length der)) oids der 0))))"

section \<open>Termination\<close>

text \<open>
  Calls at a pointer never move it back, and a pass of the loop that does not fail moves it forward;
  with fuel of twice the remaining bytes none of them runs dry.
\<close>

definition fine :: "nat \<Rightarrow> csr_result \<Rightarrow> bool" where
  "fine lo x \<longleftrightarrow> x \<noteq> Fuel \<and> (\<forall>r l p. x = Done (r, l, p) \<longrightarrow> lo \<le> p)"

lemma fine_mono: "fine lo x \<Longrightarrow> lo' \<le> lo \<Longrightarrow> fine lo' x"
  by (auto simp: fine_def)

lemma fine_simps [simp]: "fine lo Fault" "fine lo (Done (r, l, p)) \<longleftrightarrow> lo \<le> p" "\<not> fine lo Fuel"
  by (auto simp: fine_def)

lemma fine_case:
  assumes "fine lo x" and "\<And>r l p. x = Done (r, l, p) \<Longrightarrow> lo \<le> p \<Longrightarrow> fine lo' (f r l p)"
  shows "fine lo' (case x of Done (r, l, p) \<Rightarrow> f r l p | y \<Rightarrow> y)"
  using assms by (cases x) auto

lemma csr_loop_body_fine:
  assumes ok: "asn1_ok a"
    and P: "\<And>l tot op p k. ptr < p \<Longrightarrow> ptr < length d \<Longrightarrow> fine p (parse l tot op p k)"
    and I: "\<And>l p len. ptr < p \<Longrightarrow> ptr < length d \<Longrightarrow> fine p (inner l (p + len) p len)"
  shows "fine (if int ptr < tot \<and> op < int ptr then Suc ptr else ptr) (csr_loop_body a d parse inner l tot op ptr k)
    \<or> (\<exists>l' p. csr_loop_body a d parse inner l tot op ptr k = Done (0, l', p) \<and> ptr \<le> p)"
proof (cases "int ptr < tot \<and> op < int ptr")
  case False
  then have "csr_loop_body a d parse inner l tot op ptr k = Done (1, l, ptr)"
    unfolding csr_loop_body_def by (rule if_not_P)
  with False show ?thesis by simp
next
  case True
  define h where "h = ASN1_get_object a k (drop ptr d)"
  let ?p1 = "ptr + hdr_hl h"
  show ?thesis
  proof (cases "?p1 > length d \<or> bit (hdr_j h) 7")
    case stop: True
    then show ?thesis using True by (auto simp: csr_loop_body_def Let_def h_def [symmetric])
  next
    case False
    then have hl: "0 < hdr_hl h" using ok by (auto simp: asn1_ok_def h_def)
    then have lt: "ptr < length d" "ptr < ?p1" using False by simp_all
    have cont: "fine (Suc ptr) (parse l' tot' op' p' k')" if "?p1 \<le> p'" for l' tot' op' p' k'
      using P [of p' l' tot' op' k'] that lt by (auto intro: fine_mono)
    have nest: "fine (Suc ptr) (case parse l' tot' op' ?p1 k' of
        Done (r, l'', p') \<Rightarrow> if r = 0 then Done (0, l'', p') else if r = 2 \<or> int p' \<ge> tot then Done (1, l'', p')
          else parse l'' tot (int ptr) p' k'' | y \<Rightarrow> y)" for l' tot' op' k' k''
      by (rule fine_case [OF P [OF lt(2,1)]]) (use lt(2) cont in auto)
    have nest2: "fine (Suc ptr) (case inner l' (?p1 + len) ?p1 len of
        Done (r, l'', p') \<Rightarrow> if r = 0 then Done (0, l'', p') else parse l'' tot (int ptr) p' k'' | y \<Rightarrow> y)" for l' len k''
      by (rule fine_case [OF I [OF lt(2,1)]]) (use lt(2) cont in auto)
    have "fine (Suc ptr) (csr_loop_body a d parse inner l tot op ptr k)"
      using True False lt cont nest nest2
      by (auto simp: csr_loop_body_def Let_def h_def [symmetric] split: option.split)
    then show ?thesis using True by simp
  qed
qed

lemma csr_parse_fine:
  assumes "asn1_ok a"
  shows "(\<forall>l tot op ptr k. 2 * (length d - ptr) + 2 \<le> n \<longrightarrow>
        fine ptr (csr_parse a d n l tot op ptr k)
        \<and> (int ptr < tot \<and> op < int ptr \<longrightarrow>
            (\<forall>r l' p. csr_parse a d n l tot op ptr k = Done (r, l', p) \<and> r \<noteq> 0 \<longrightarrow> ptr < p)))
    \<and> (\<forall>l ep ptr len. 2 * (length d - ptr) + 3 \<le> n \<and> (ptr < ep \<longrightarrow> 0 < len) \<longrightarrow>
        fine ptr (csr_inner a d n l ep ptr len))"
proof (induction n)
  case (Suc n)
  let ?P = "csr_parse a d n" and ?I = "csr_inner a d n"
  have "fine ptr (csr_loop_body a d ?P ?I l tot op ptr k)
      \<and> (int ptr < tot \<and> op < int ptr \<longrightarrow>
          (\<forall>r l' p. csr_loop_body a d ?P ?I l tot op ptr k = Done (r, l', p) \<and> r \<noteq> 0 \<longrightarrow> ptr < p))"
    if fuel: "2 * (length d - ptr) + 2 \<le> Suc n" for l tot op ptr k
  proof -
    have "fine p (?P l' tot' op' p k')" if "ptr < p" "ptr < length d" for l' tot' op' p k'
      using Suc.IH that fuel by auto
    moreover have "fine p (?I l' (p + len) p len)" if "ptr < p" "ptr < length d" for l' p len
      using Suc.IH that fuel by auto
    ultimately have "fine (if int ptr < tot \<and> op < int ptr then Suc ptr else ptr) (csr_loop_body a d ?P ?I l tot op ptr k)
        \<or> (\<exists>l' p. csr_loop_body a d ?P ?I l tot op ptr k = Done (0, l', p) \<and> ptr \<le> p)"
      by (rule csr_loop_body_fine [OF assms])
    then show ?thesis by (auto split: if_split_asm intro: fine_mono)
  qed
  moreover have "fine ptr (csr_inner_body ?P ?I l ep ptr len)"
    if fuel: "2 * (length d - ptr) + 3 \<le> Suc n" and len: "ptr < ep \<Longrightarrow> 0 < len" for l ep ptr len
  proof (cases "ptr < ep")
    case True
    let ?x = "?P l (int ptr + int len) (int ptr - 1) ptr (int len)"
    have "2 * (length d - ptr) + 2 \<le> n" using fuel by simp
    with Suc.IH have "fine ptr ?x \<and> (int ptr < int ptr + int len \<and> int ptr - 1 < int ptr \<longrightarrow>
        (\<forall>r l' p. ?x = Done (r, l', p) \<and> r \<noteq> 0 \<longrightarrow> ptr < p))"
      by blast
    then have x: "fine ptr ?x" "\<And>r l' p. ?x = Done (r, l', p) \<Longrightarrow> r \<noteq> 0 \<Longrightarrow> ptr < p"
      using len [OF True] by auto
    show ?thesis
    proof (cases "ptr < length d")
      case lt: True
      have rec: "fine ptr (?I l' ep p len)" if "ptr < p" for l' p
      proof -
        have "2 * (length d - p) + 3 \<le> n" using that fuel lt by linarith
        then have "fine p (?I l' ep p len)" using Suc.IH len True by blast
        then show ?thesis using that by (auto intro: fine_mono)
      qed
      then show ?thesis
        using True x by (cases ?x) (auto simp: csr_inner_body_def)
    next
      case False
      have "r = 0" if "?x = Done (r, l', p)" for r l' p
      proof (rule ccontr)
        assume "r \<noteq> 0"
        obtain m where n: "n = Suc m" using fuel by (cases n) auto
        define g where "g = ASN1_get_object a (int len) (drop ptr d)"
        have "bit (hdr_j g) 7 \<or> 0 < hdr_hl g" using assms unfolding asn1_ok_def g_def by metis
        then have "bit (hdr_j g) 7 \<or> ptr + hdr_hl g > length d" using False by auto
        then have "?x = Fault \<or> (\<exists>q. ?x = Done (0, l, q))"
          using len [OF True] unfolding n by (auto simp: csr_loop_body_def Let_def g_def [symmetric])
        then show False using that \<open>r \<noteq> 0\<close> by auto
      qed
      then show ?thesis using True x by (cases ?x) (auto simp: csr_inner_body_def)
    qed
  qed (simp add: csr_inner_body_def)
  ultimately show ?case by simp
qed simp

section \<open>Where the collected and the required OIDs come from\<close>

text \<open>The OIDs that objects anywhere in the data decode to.\<close>

definition oids_in :: "ASN1 \<Rightarrow> string \<Rightarrow> string set" where
  "oids_in a d = {oid. \<exists>off m n k. d2i_ASN1_OBJECT a (take m (drop off d)) = Some (n, oid, k)}"

definition within :: "string set \<Rightarrow> csr_result \<Rightarrow> bool" where
  "within S x \<longleftrightarrow> (\<forall>r l p. x = Done (r, l, p) \<longrightarrow> set l \<subseteq> S)"

lemma within_simps [simp]: "within S Fault" "within S Fuel" "within S (Done (r, l, p)) \<longleftrightarrow> set l \<subseteq> S"
  by (auto simp: within_def)

lemma within_case:
  assumes "within S x" and "\<And>r l p. set l \<subseteq> S \<Longrightarrow> within S (f r l p)"
  shows "within S (case x of Done (r, l, p) \<Rightarrow> f r l p | y \<Rightarrow> y)"
  using assms by (cases x) auto

lemma csr_loop_body_within:
  assumes P: "\<And>l tot op p k. set l \<subseteq> oids_in a d \<Longrightarrow> within (oids_in a d) (parse l tot op p k)"
    and I: "\<And>l ep p len. set l \<subseteq> oids_in a d \<Longrightarrow> within (oids_in a d) (inner l ep p len)"
    and l: "set l \<subseteq> oids_in a d"
  shows "within (oids_in a d) (csr_loop_body a d parse inner l tot op ptr k)"
proof -
  define h where "h = ASN1_get_object a k (drop ptr d)"
  have obj: "within (oids_in a d) (case d2i_ASN1_OBJECT a (take m (drop ptr d)) of
      None \<Rightarrow> Done (0, l, p) | Some (n, oid, u) \<Rightarrow> parse (est_server_add_oid_to_list l oid) tot op' p' k')" for m p op' p' k'
  proof (cases "d2i_ASN1_OBJECT a (take m (drop ptr d))")
    case (Some x)
    then obtain n oid u where x: "d2i_ASN1_OBJECT a (take m (drop ptr d)) = Some (n, oid, u)" by (cases x) auto
    then have "oid \<in> oids_in a d" unfolding oids_in_def by blast
    then show ?thesis using l x P [of "l @ [oid]"] by (simp add: est_server_add_oid_to_list_def)
  qed (use l in simp)
  have nest: "within (oids_in a d) (case parse l tot1 op1 p1 k1 of
      Done (r, l', p') \<Rightarrow> if r = 0 then Done (0, l', p') else if r = 2 \<or> int p' \<ge> tot then Done (1, l', p')
        else parse l' tot op2 p' k2 | y \<Rightarrow> y)" for tot1 op1 p1 k1 op2 k2
    by (rule within_case [OF P [OF l]]) (simp add: P)
  have nest2: "within (oids_in a d) (case inner l ep p1 len of
      Done (r, l', p') \<Rightarrow> if r = 0 then Done (0, l', p') else parse l' tot op2 p' k2 | y \<Rightarrow> y)" for ep p1 len op2 k2
    by (rule within_case [OF I [OF l]]) (simp add: P)
  show ?thesis
    unfolding csr_loop_body_def Let_def h_def [symmetric]
    using l P obj nest nest2 by simp
qed

lemma csr_parse_within:
  "(\<forall>l tot op ptr k. set l \<subseteq> oids_in a d \<longrightarrow> within (oids_in a d) (csr_parse a d n l tot op ptr k))
   \<and> (\<forall>l ep ptr len. set l \<subseteq> oids_in a d \<longrightarrow> within (oids_in a d) (csr_inner a d n l ep ptr len))"
proof (induction n)
  case (Suc n)
  have "within (oids_in a d) (csr_inner_body (csr_parse a d n) (csr_inner a d n) l ep ptr len)"
    if "set l \<subseteq> oids_in a d" for l ep ptr len
    using that Suc.IH unfolding csr_inner_body_def by (auto intro!: within_case)
  then show ?case using Suc.IH by (simp add: csr_loop_body_within)
qed simp

text \<open>The OIDs the walk over the configured attributes requires, from an offset on.\<close>

inductive required_oid :: "ASN1 \<Rightarrow> string \<Rightarrow> nat \<Rightarrow> string \<Rightarrow> bool" for a s where
  req_here: "off < length s \<Longrightarrow> hdr_tag (ASN1_get_object a (int (length s - off)) (drop off s)) = V_ASN1_OBJECT \<Longrightarrow>
    d2i_ASN1_OBJECT a (drop off s) = Some (n, tbuf, used) \<Longrightarrow> n \<noteq> NID_pkcs9_challengePassword \<Longrightarrow>
    required_oid a s off tbuf"
| req_next: "off < length s \<Longrightarrow> sanity_step a s off = (off', pop) \<Longrightarrow> required_oid a s off' t \<Longrightarrow> required_oid a s off t"

lemma attrs_loop_ok:
  assumes "required_oid a s off t" and "attrs_loop a fuel oids s off = Done EST_ERR_NONE"
  shows "\<exists>oid \<in> set oids. strncmp oid t 128 = 0"
  using assms
proof (induction arbitrary: fuel rule: required_oid.induct)
  case (req_here off n tbuf used)
  then show ?case by (cases fuel) (auto simp: Let_def list_ex_iff split: if_split_asm)
next
  case (req_next off off' pop t)
  obtain f where f: "fuel = Suc f" using req_next.prems by (cases fuel) auto
  have "attrs_loop a f oids s off' = Done EST_ERR_NONE"
    using req_next.prems req_next.hyps(1,2) unfolding f
    by (auto simp: Let_def sanity_step_def split: if_split_asm option.splits)
  then show ?case by (rule req_next.IH)
qed

section \<open>Properties\<close>

text \<open>the recursive walk over a request ends: with the fuel of the model it never runs dry.\<close>

theorem est_server_csr_asn1_parse_terminates:
  assumes "asn1_ok a" and "csr_fuel d \<le> n"
  shows "est_server_csr_asn1_parse a n d \<noteq> Fuel"
proof -
  have "fine 0 (csr_parse a d n [] (int (length d)) (-1) 0 (int (length d)))"
    using csr_parse_fine [OF assms(1), of d n] assms(2) by (simp add: csr_fuel_def)
  then show ?thesis unfolding est_server_csr_asn1_parse_def by auto
qed

theorem est_server_csr_asn1_parse_terminates_witness:
  "est_server_csr_asn1_parse der_asn1 100 (byte 0x30 # byte 0x0b # hex_chpw) \<noteq> Fuel"
  using est_server_csr_asn1_parse_terminates [OF der_asn1_ok, of "byte 0x30 # byte 0x0b # hex_chpw" 100]
  by (simp add: csr_fuel_def)

text \<open>C37: enforcement of CSR attributes. When a server with static attributes accepts a request, every OID that
  the configured DER requires (the challenge password apart) compares equal to the OID of an object
  that occurs in the decoded request.\<close>

theorem est_server_all_csrattrs_present_enforces:
  assumes "est_server_all_csrattrs_present ossl a ctx body peer = Done EST_ERR_NONE"
    and "est_get_csr_cb ctx = None" and "server_csrattrs ctx = Some conf"
    and "est_base64_decode (bio_read ossl) conf (int (length conf) * 2) = Some (n, attrs)"
    and "required_oid a attrs 0 t"
  shows "\<exists>m der. est_base64_decode (bio_read ossl) body (int (length body) * 2) = Some (m, der)
    \<and> (\<exists>oid \<in> oids_in a der. strncmp oid t 128 = 0)"
proof -
  obtain oids where build: "est_server_build_csr_oid_list ossl a body = Done (EST_ERR_NONE, oids)"
    and loop: "attrs_loop a (Suc (length attrs)) oids attrs 0 = Done EST_ERR_NONE"
    using assms(1-4) unfolding est_server_all_csrattrs_present_def
    by (cases "est_server_build_csr_oid_list ossl a body")
      (auto simp del: attrs_loop.simps split: if_split_asm)
  from build obtain m der r p where dec: "est_base64_decode (bio_read ossl) body (int (length body) * 2) = Some (m, der)"
    and parse: "est_server_csr_asn1_parse a (csr_fuel der) der = Done (r, oids, p)"
    unfolding est_server_build_csr_oid_list_def
    by (auto split: option.splits if_split_asm outcome.splits)
  have "within (oids_in a der) (est_server_csr_asn1_parse a (csr_fuel der) der)"
    using csr_parse_within [of a der "csr_fuel der"] by (simp add: est_server_csr_asn1_parse_def)
  then have "set oids \<subseteq> oids_in a der" by (simp add: parse)
  then show ?thesis using attrs_loop_ok [OF assms(5) loop] dec by blast
qed

definition sample_attr_ossl :: OPENSSL where
  "sample_attr_ossl = sample_ossl\<lparr>bio_read := \<lambda>_ s. map byte [0x30, 0x03, 0x06, 0x01, 0x2a]\<rparr>"

theorem est_server_all_csrattrs_present_enforces_witness:
  "\<exists>m der. est_base64_decode (bio_read sample_attr_ossl) ''MAMGASo='' 16 = Some (m, der)
    \<and> (\<exists>oid \<in> oids_in der_asn1 der. strncmp oid [byte 0x2a] 128 = 0)"
proof -
  let ?ctx = "sample_ctx\<lparr>server_csrattrs := Some ''MAMGASo=''\<rparr>" and ?s = "map byte [0x30, 0x03, 0x06, 0x01, 0x2a]"
  have dec: "est_base64_decode (bio_read sample_attr_ossl) ''MAMGASo='' 16 = Some (5, ?s)" by code_simp
  have ok: "est_server_all_csrattrs_present sample_attr_ossl der_asn1 ?ctx ''MAMGASo='' None = Done EST_ERR_NONE" by code_simp
  have st: "sanity_step der_asn1 ?s 0 = (2, False)" by code_simp
  have tag: "hdr_tag (ASN1_get_object der_asn1 (int (length ?s - 2)) (drop 2 ?s)) = V_ASN1_OBJECT" by code_simp
  have obj: "d2i_ASN1_OBJECT der_asn1 (drop 2 ?s) = Some (0, [byte 0x2a], 3)" by code_simp
  have "required_oid der_asn1 ?s 0 [byte 0x2a]"
    by (rule required_oid.req_next [OF _ st required_oid.req_here [OF _ tag obj]]) simp_all
  then show ?thesis
    using est_server_all_csrattrs_present_enforces [of sample_attr_ossl der_asn1 ?ctx "''MAMGASo=''" None "''MAMGASo=''" 5 ?s]
      dec ok by (simp add: sample_ctx_def)
qed

text \<open>the walk passes the full content length of a constructed object to every pass over its content, also to
  a second one after an end-of-contents marker inside it. So on the eight bytes below (a SEQUENCE of
  six bytes that starts with such a marker) the object after the marker may claim four bytes of
  content where two are left, and its decoding reads past the buffer.\<close>

theorem est_server_csr_asn1_parse_overread:
  "let d = map byte [0x30, 0x06, 0x00, 0x00, 0x06, 0x04, 0x2a, 0x03] in
   est_server_csr_asn1_parse der_asn1 (csr_fuel d) d = Fault"
  by code_simp

end
