(* ===== verification/Est_Uri.thy ===== *)
theory Est_Uri
  imports Est_Strings
begin

text \<open>
  The request URI: \<^verbatim>\<open>est_parse_operation\<close>, the two builds of \<^verbatim>\<open>est_parse_uri\<close> and the checks on
  a path segment, from \<^verbatim>\<open>src/src/est/est.c\<close>. The uriparser library is a parameter: a function from
  the URI to its list of path segments, each the bytes from the segment's \<^verbatim>\<open>text.first\<close> to the end of
  the object it lies in, with the offset of \<^verbatim>\<open>text.afterLast\<close> (\<^term>\<open>None\<close> is NULL). The flag \<open>brski\<close>
  is the build option \<^verbatim>\<open>ENABLE_BRSKI\<close>.
\<close>

section \<open>Names of operations\<close>

definition EST_MAX_PATH_SEGMENT_LEN :: nat where
  "EST_MAX_PATH_SEGMENT_LEN = 128"

definition EST_URI_MAX_LEN :: nat where
  "EST_URI_MAX_LEN = 16 + EST_MAX_PATH_SEGMENT_LEN + EST_MAX_PATH_SEGMENT_LEN"

definition est_op_names :: "bool \<Rightarrow> (string \<times> EST_OPERATION) list" where
  "est_op_names brski =
     [(''cacerts'', EST_OP_CACERTS), (''csrattrs'', EST_OP_CSRATTRS),
      (''simpleenroll'', EST_OP_SIMPLE_ENROLL), (''simplereenroll'', EST_OP_SIMPLE_REENROLL),
      (''serverkeygen'', EST_OP_SERVER_KEYGEN)] @
     (if brski then
        [(''requestvoucher'', EST_OP_BRSKI_REQ_VOUCHER), (''voucher_status'', EST_OP_BRSKI_VOUCHER_STATUS),
         (''enrollstatus'', EST_OP_BRSKI_ENROLL_STATUS)]
      else [])"

definition est_parse_operation :: "bool \<Rightarrow> string \<Rightarrow> EST_OPERATION" where
  "est_parse_operation brski op_path =
     (case kw_find est_strcasecmp_s op_path (est_op_names brski) of
        Some operation \<Rightarrow> operation | None \<Rightarrow> EST_OP_MAX)"

section \<open>The build without the uriparser library\<close>

definition EST_PATH_PREFIX :: string where
  "EST_PATH_PREFIX = ''/.well-known/est''"

definition est_parse_uri_fixed :: "bool \<Rightarrow> string \<Rightarrow> EST_ERROR \<times> EST_OPERATION \<times> string option" where
  "est_parse_uri_fixed brski uri =
     (let is = (\<lambda>u. strncmp uri u EST_URI_MAX_LEN = 0) in
      if is ''/.well-known/est/cacerts'' then (EST_ERR_NONE, EST_OP_CACERTS, None)
      else if is ''/.well-known/est/simpleenroll'' then (EST_ERR_NONE, EST_OP_SIMPLE_ENROLL, None)
      else if is ''/.well-known/est/simplereenroll'' then (EST_ERR_NONE, EST_OP_SIMPLE_REENROLL, None)
      else if is ''/.well-known/est/csrattrs'' then (EST_ERR_NONE, EST_OP_CSRATTRS, None)
      else if is ''/.well-known/est/serverkeygen'' then (EST_ERR_NONE, EST_OP_SERVER_KEYGEN, None)
      else if brski \<and> is (EST_PATH_PREFIX @ ''/requestvoucher'')
        then (EST_ERR_NONE, EST_OP_BRSKI_REQ_VOUCHER, None)
      else if brski \<and> is (EST_PATH_PREFIX @ ''/voucher_status'')
        then (EST_ERR_NONE, EST_OP_BRSKI_VOUCHER_STATUS, None)
      else if brski \<and> is (EST_PATH_PREFIX @ ''/enrollstatus'')
        then (EST_ERR_NONE, EST_OP_BRSKI_ENROLL_STATUS, None)
      else (EST_ERR_HTTP_INVALID_PATH_SEGMENT, EST_OP_MAX, None))"

section \<open>The build with the uriparser library\<close>

type_synonym uri_seg = "string \<times> nat option"

definition strndup :: "string \<Rightarrow> nat \<Rightarrow> string" where
  "strndup s n = take n (cstr s)"

text \<open>\<^verbatim>\<open>memcmp_s(seg, len, name, len, &diff)\<close> and the test on its outcome.\<close>

definition seg_is :: "uri_seg \<Rightarrow> string \<Rightarrow> bool option" where
  "seg_is seg name =
     do { r \<leftarrow> memcmp_s (Some (fst seg)) (length name) (Some name) (length name);
          Some (r = (EOK, Some True)) }"

text \<open>A segment is the last one when \<^verbatim>\<open>afterLast\<close> is NULL or points at a NUL.\<close>

definition seg_more :: "uri_seg \<Rightarrow> bool" where
  "seg_more seg = (case snd seg of None \<Rightarrow> False | Some k \<Rightarrow> at (fst seg) k \<noteq> NUL)"

text \<open>
  The third segment: the operation, or a path segment followed by the operation. The result is the
  error, the operation and the path segment; \<^term>\<open>None\<close> when the code reads past the URI.
\<close>

definition est_parse_uri_seg :: "bool \<Rightarrow> uri_seg \<Rightarrow> (EST_ERROR \<times> EST_OPERATION option \<times> string option) option" where
  "est_parse_uri_seg brski seg =
     (let cur_seg_str = fst seg;
          cur_seg_len = (case snd seg of Some k \<Rightarrow> k
                         | None \<Rightarrow> strnlen_s (Some cur_seg_str) (EST_MAX_PATH_SEGMENT_LEN + 1)) in
      if cur_seg_len > EST_MAX_PATH_SEGMENT_LEN then Some (EST_ERR_HTTP_INVALID_PATH_SEGMENT, None, None)
      else (let segment = strndup cur_seg_str (if seg_more seg then cur_seg_len else EST_MAX_PATH_SEGMENT_LEN);
                operation = est_parse_operation brski segment in
            if operation = EST_OP_MAX
            then (let path_seg = take cur_seg_len segment in
                  if cur_seg_len + 1 > length cur_seg_str then None
                  else (let operation' = est_parse_operation brski (drop (cur_seg_len + 1) cur_seg_str) in
                        if operation' = EST_OP_MAX then Some (EST_ERR_HTTP_BAD_REQ, Some EST_OP_MAX, None)
                        else Some (EST_ERR_NONE, Some operation', Some path_seg)))
            else if seg_more seg then Some (EST_ERR_HTTP_INVALID_PATH_SEGMENT, Some EST_OP_MAX, None)
            else Some (EST_ERR_NONE, Some operation, None)))"

definition est_parse_uri ::
  "(string \<Rightarrow> uri_seg list option) \<Rightarrow> bool \<Rightarrow> string \<Rightarrow>
     (EST_ERROR \<times> EST_OPERATION option \<times> string option) option" where
  "est_parse_uri uriParseUriA brski uri =
     (case uriParseUriA uri of
        None \<Rightarrow> Some (EST_ERR_HTTP_INVALID_PATH_SEGMENT, None, None)
      | Some [] \<Rightarrow> Some (EST_ERR_NONE, None, None)
      | Some (seg0 # segs) \<Rightarrow>
          do { b0 \<leftarrow> seg_is seg0 ''.well-known'';
               if \<not> b0 then Some (EST_ERR_HTTP_INVALID_PATH_SEGMENT, None, None)
               else (case segs of [] \<Rightarrow> None
                 | seg1 # segs' \<Rightarrow>
                     do { b1 \<leftarrow> seg_is seg1 ''est'';
                          if \<not> b1 then Some (EST_ERR_HTTP_INVALID_PATH_SEGMENT, None, None)
                          else (case segs' of [] \<Rightarrow> None | seg2 # _ \<Rightarrow> est_parse_uri_seg brski seg2) }) })"

definition est_parse_path_seg ::
  "(string \<Rightarrow> uri_seg list option) \<Rightarrow> bool \<Rightarrow> string \<Rightarrow> EST_ERROR option" where
  "est_parse_path_seg uriParseUriA brski path_seg =
     do { b0 \<leftarrow> wr_block (replicate EST_URI_MAX_LEN NUL) 0 (replicate EST_URI_MAX_LEN NUL);
          (b1, _) \<leftarrow> strcpy_s (Some b0) EST_URI_MAX_LEN (Some ''/.well-known/est/'');
          (b2, _) \<leftarrow> strcat_s b1 EST_URI_MAX_LEN (Some path_seg);
          canned_uri \<leftarrow> b2;
          (case uriParseUriA (cstr canned_uri) of
             None \<Rightarrow> Some EST_ERR_HTTP_INVALID_PATH_SEGMENT
           | Some [] \<Rightarrow> Some EST_ERR_HTTP_INVALID_PATH_SEGMENT
           | Some (_ # _ # cur_seg # rest) \<Rightarrow>
               if est_parse_operation brski (fst cur_seg) \<noteq> EST_OP_MAX
               then Some EST_ERR_HTTP_INVALID_PATH_SEGMENT
               else if rest \<noteq> [] then Some EST_ERR_HTTP_INVALID_PATH_SEGMENT
               else (case snd cur_seg of None \<Rightarrow> None
                 | Some k \<Rightarrow> if at (fst cur_seg) k \<noteq> NUL then Some EST_ERR_HTTP_INVALID_PATH_SEGMENT
                             else Some EST_ERR_NONE)
           | _ \<Rightarrow> None) }"

text \<open>
  \<^verbatim>\<open>est_store_path_segment\<close>: the cached segment is freed, a buffer of \<^verbatim>\<open>strnlen + 1\<close> bytes is
  allocated (its contents unspecified: \<open>init\<close>) and filled. The result is the buffer and the error;
  \<^term>\<open>None\<close> when a write leaves the buffer.
\<close>

definition est_store_path_segment ::
  "char \<Rightarrow> string \<Rightarrow> nat \<Rightarrow> (mem \<times> EST_ERROR) option" where
  "est_store_path_segment init path_segment path_segment_len =
     (let buf = replicate (strnlen_s (Some path_segment) path_segment_len + 1) init in
      do { (b, e) \<leftarrow> strcpy_s (Some buf) (path_segment_len + 1) (Some path_segment);
           b' \<leftarrow> b;
           if e \<noteq> EOK then Some (b', EST_ERR_HTTP_INVALID_PATH_SEGMENT)
           else do { b'' \<leftarrow> wr b' path_segment_len NUL; Some (b'', EST_ERR_NONE) } })"

section \<open>Recognising operations\<close>

text \<open>The table has one entry per operation and no two names differ only in case.\<close>

lemma est_op_names_distinct:
  "distinct (map (\<lambda>(k, v). map toupper (cstr k)) (est_op_names brski))"
proof (cases brski)
  case True
  then show ?thesis by simp code_simp
next
  case False
  then show ?thesis by simp code_simp
qed

lemma est_parse_operation_iff:
  assumes "cmp_valid s" and "op \<noteq> EST_OP_MAX"
  shows "est_parse_operation brski s = op \<longleftrightarrow>
    (\<exists>name. (name, op) \<in> set (est_op_names brski) \<and> map toupper (cstr s) = map toupper name)"
proof -
  have "cstr name = name" if "(name, op) \<in> set (est_op_names brski)" for name
    using that by (auto simp: est_op_names_def split: if_splits)
  moreover have "(op', v) \<in> set (est_op_names brski) \<Longrightarrow> v \<noteq> EST_OP_MAX" for op' v
    by (auto simp: est_op_names_def split: if_splits)
  ultimately show ?thesis
    using assms(2) est_cmp.kw_find_Some [OF assms(1) est_op_names_distinct, of brski op]
    by (auto simp: est_parse_operation_def split: option.splits)
qed

lemma est_parse_operation_case:
  assumes "cmp_valid s" and "cmp_valid s'" and "map toupper (cstr s) = map toupper (cstr s')"
  shows "est_parse_operation brski s = est_parse_operation brski s'"
  by (simp add: est_parse_operation_def est_cmp.kw_find_case [OF assms])

text \<open>The lookup with the comparison replaced by equality in upper case, for concrete names.\<close>

lemma est_parse_operation_eval:
  assumes "cmp_valid s"
  shows "est_parse_operation brski s =
    (case map_of (map (\<lambda>(k, v). (map toupper (cstr k), v)) (est_op_names brski)) (map toupper (cstr s)) of
       Some operation \<Rightarrow> operation | None \<Rightarrow> EST_OP_MAX)"
proof -
  have "kw_find est_strcasecmp_s s tbl =
      map_of (map (\<lambda>(k, v). (map toupper (cstr k), v)) tbl) (map toupper (cstr s))"
    for tbl :: "(string \<times> EST_OPERATION) list"
    by (induction tbl) (auto simp: est_strcasecmp_s_eq_0 [OF assms])
  then show ?thesis by (simp add: est_parse_operation_def)
qed

lemma cmp_valid_small: "cstr s \<noteq> [] \<Longrightarrow> length s \<le> 1000 \<Longrightarrow> cmp_valid s"
  by (simp add: cmp_valid_def RSIZE_MAX_STR_def)

lemma est_parse_operation_empty [simp]: "est_parse_operation brski [] = EST_OP_CACERTS"
  by (simp add: est_parse_operation_def est_op_names_def est_strcasecmp_s_empty)

lemma take_eq_short: "length (v :: 'a list) < n \<Longrightarrow> take n u = v \<longleftrightarrow> u = v"
  by (cases "length u < n") auto

lemma strncmp_uri:
  "NUL \<notin> set u \<Longrightarrow> length u < 272 \<Longrightarrow> strncmp s u EST_URI_MAX_LEN = 0 \<longleftrightarrow> cstr s = u"
  by (simp add: strncmp_eq_0 cstr_id take_eq_short EST_URI_MAX_LEN_def EST_MAX_PATH_SEGMENT_LEN_def)

section \<open>What the code relies on of the URI parser\<close>

text \<open>
  For an absolute path of non-empty segments of unreserved characters, the parser returns the
  segments in order, each pointing into the URI.
\<close>

definition unreserved :: "char \<Rightarrow> bool" where
  "unreserved c \<longleftrightarrow> isalnum c \<or> c = CHR ''-'' \<or> c = CHR ''.'' \<or> c = CHR ''_''"

definition plain_seg :: "string \<Rightarrow> bool" where
  "plain_seg s \<longleftrightarrow> s \<noteq> [] \<and> list_all unreserved s"

definition path_text :: "string list \<Rightarrow> string" where
  "path_text ss = concat (map ((#) CHR ''/'') ss)"

fun path_segs :: "string list \<Rightarrow> uri_seg list" where
  "path_segs [] = []"
| "path_segs (s # ss) = (s @ path_text ss, Some (length s)) # path_segs ss"

definition uri_path_parser :: "(string \<Rightarrow> uri_seg list option) \<Rightarrow> bool" where
  "uri_path_parser parse \<longleftrightarrow>
     (\<forall>ss. ss \<noteq> [] \<longrightarrow> list_all plain_seg ss \<longrightarrow> parse (path_text ss) = Some (path_segs ss))"

text \<open>An executable parser of such paths, to show that the assumption can be met.\<close>

fun split_path :: "string \<Rightarrow> uri_seg list" where
  "split_path [] = []"
| "split_path (c # s) =
     (if c = CHR ''/'' then (s, Some (length (takeWhile (\<lambda>x. x \<noteq> CHR ''/'') s))) # split_path s
      else split_path s)"

lemma path_text_simps [simp]: "path_text [] = []" "path_text (s # ss) = CHR ''/'' # s @ path_text ss"
  by (simp_all add: path_text_def)

lemma plain_seg_no_slash: "plain_seg s \<Longrightarrow> CHR ''/'' \<notin> set s"
  by (auto simp: plain_seg_def list_all_iff unreserved_def isalnum_def isalpha_def isdigit_def uchr_def)

lemma plain_seg_no_nul: "plain_seg s \<Longrightarrow> NUL \<notin> set s"
  by (auto simp: plain_seg_def list_all_iff unreserved_def isalnum_def isalpha_def isdigit_def uchr_def)

lemma split_path_skip: "CHR ''/'' \<notin> set s \<Longrightarrow> split_path (s @ t) = split_path t"
  by (induction s) auto

lemma split_path_path_text:
  "list_all plain_seg ss \<Longrightarrow> split_path (path_text ss) = path_segs ss"
proof (induction ss)
  case (Cons s ss)
  then have "CHR ''/'' \<notin> set s" by (simp add: plain_seg_no_slash)
  moreover from this have "takeWhile (\<lambda>x. x \<noteq> CHR ''/'') (s @ path_text ss) = s"
    by (cases ss) (auto simp: takeWhile_append)
  ultimately show ?case using Cons by (simp add: split_path_skip)
qed simp

lemma uri_path_parser_split_path: "uri_path_parser (\<lambda>u. Some (split_path u))"
  by (simp add: uri_path_parser_def split_path_path_text)

section \<open>Parsing a request URI\<close>

lemma seg_is_prefix: "name \<noteq> [] \<Longrightarrow> seg_is (name @ t, k) name = Some True"
  by (simp add: seg_is_def memcmp_s_def rd_block_def)

lemma est_parse_uri_prefix:
  assumes "uri_path_parser P" and "list_all plain_seg (s # ss)"
  shows "est_parse_uri P brski (path_text (''.well-known'' # ''est'' # s # ss)) =
    est_parse_uri_seg brski (s @ path_text ss, Some (length s))"
proof -
  have "list_all plain_seg (''.well-known'' # ''est'' # s # ss)"
    using assms(2)
    by (simp add: plain_seg_def unreserved_def isalnum_def isalpha_def isdigit_def uchr_def)
  with assms(1) have "P (path_text (''.well-known'' # ''est'' # s # ss)) =
      Some (path_segs (''.well-known'' # ''est'' # s # ss))"
    unfolding uri_path_parser_def by blast
  then show ?thesis
    using seg_is_prefix [of "''.well-known''"] seg_is_prefix [of "''est''"]
    by (simp add: est_parse_uri_def)
qed

lemma est_op_names_plain:
  "(name, op) \<in> set (est_op_names brski) \<Longrightarrow> plain_seg name \<and> length name \<le> 14 \<and> op \<noteq> EST_OP_MAX"
  by (auto simp: est_op_names_def plain_seg_def unreserved_def isalnum_def isalpha_def isdigit_def
      uchr_def split: if_splits)

lemma plain_seg_valid: "plain_seg s \<Longrightarrow> length s \<le> RSIZE_MAX_STR \<Longrightarrow> cmp_valid s"
  by (auto simp: cmp_valid_def cstr_id plain_seg_no_nul) (simp add: plain_seg_def)

lemma est_parse_operation_name:
  assumes "(name, op) \<in> set (est_op_names brski)"
  shows "est_parse_operation brski name = op"
proof -
  have "cmp_valid name"
    using est_op_names_plain [OF assms] by (intro plain_seg_valid) (auto simp: RSIZE_MAX_STR_def)
  moreover have "cstr name = name"
    using est_op_names_plain [OF assms] by (simp add: cstr_id plain_seg_no_nul)
  ultimately show ?thesis
    using assms est_op_names_plain [OF assms] by (subst est_parse_operation_iff) auto
qed

lemma est_parse_uri_seg_op:
  assumes "(name, op) \<in> set (est_op_names brski)"
  shows "est_parse_uri_seg brski (name, Some (length name)) = Some (EST_ERR_NONE, Some op, None)"
  using est_op_names_plain [OF assms] est_parse_operation_name [OF assms]
  by (simp add: est_parse_uri_seg_def Let_def seg_more_def at_def strndup_def cstr_id plain_seg_no_nul
      EST_MAX_PATH_SEGMENT_LEN_def)

lemma est_parse_uri_seg_two:
  assumes "plain_seg seg" and "length seg \<le> EST_MAX_PATH_SEGMENT_LEN"
    and "est_parse_operation brski seg = EST_OP_MAX" and "NUL \<notin> set rest"
  shows "est_parse_uri_seg brski (seg @ CHR ''/'' # rest, Some (length seg)) =
    (if est_parse_operation brski rest = EST_OP_MAX then Some (EST_ERR_HTTP_BAD_REQ, Some EST_OP_MAX, None)
     else Some (EST_ERR_NONE, Some (est_parse_operation brski rest), Some seg))"
  using assms
  by (simp add: est_parse_uri_seg_def Let_def seg_more_def strndup_def cstr_append plain_seg_no_nul)

lemma est_parse_operation_iot: "est_parse_operation brski ''iot'' = EST_OP_MAX"
proof -
  have "cmp_valid ''iot''" by (intro cmp_valid_small) simp_all
  moreover have "map_of (map (\<lambda>(k, v). (map toupper (cstr k), v)) (est_op_names b)) (map toupper (cstr ''iot'')) = None"
    for b by (cases b) (simp_all only:, code_simp+)
  ultimately show ?thesis by (simp only: est_parse_operation_eval option.case)
qed

lemma est_uri_prefix_inj: "EST_PATH_PREFIX @ ''/'' @ a = EST_PATH_PREFIX @ ''/'' @ b \<longleftrightarrow> a = b"
  by simp

lemma est_parse_uri_fixed_map:
  "est_parse_uri_fixed brski uri =
     (case map_of (map (\<lambda>(k, v). (EST_PATH_PREFIX @ ''/'' @ k, v)) (est_op_names brski)) (cstr uri) of
        Some operation \<Rightarrow> (EST_ERR_NONE, operation, None)
      | None \<Rightarrow> (EST_ERR_HTTP_INVALID_PATH_SEGMENT, EST_OP_MAX, None))"
  by (simp add: est_parse_uri_fixed_def Let_def strncmp_uri EST_PATH_PREFIX_def est_op_names_def)

lemma est_op_uris_distinct:
  "distinct (map fst (map (\<lambda>(k, v). (EST_PATH_PREFIX @ ''/'' @ k, v)) (est_op_names brski)))"
proof -
  have "distinct (map fst (est_op_names brski))"
    by (cases brski) (simp_all add: est_op_names_def)
  then show ?thesis
    by (simp add: distinct_map inj_on_def split_beta comp_def)
qed

text \<open>the build without uriparser accepts a URI exactly when it is the EST prefix followed by
  the name of an operation, and then returns that operation with no path segment.\<close>

theorem est_parse_uri_fixed_iff:
  "est_parse_uri_fixed brski uri = (EST_ERR_NONE, op, ps) \<longleftrightarrow>
     ps = None \<and> (\<exists>name. (name, op) \<in> set (est_op_names brski) \<and> cstr uri = EST_PATH_PREFIX @ ''/'' @ name)"
  using map_of_eq_Some_iff [OF est_op_uris_distinct [of brski], of "cstr uri" op]
  by (auto simp: est_parse_uri_fixed_map image_iff split: option.splits)

text \<open>C40: with a URI parser that splits plain paths, \<^verbatim>\<open>est_parse_uri\<close> recognises
  \<^verbatim>\<open>/.well-known/est/<op>\<close> and \<^verbatim>\<open>/.well-known/est/<segment>/<op>\<close>: it returns the operation, and the
  path segment unchanged, for every segment of at most 128 plain characters that is not itself the
  name of an operation.\<close>

theorem est_parse_uri_roundtrip:
  assumes "uri_path_parser P" and "(name, op) \<in> set (est_op_names brski)"
    and "plain_seg seg" and "length seg \<le> EST_MAX_PATH_SEGMENT_LEN"
    and "est_parse_operation brski seg = EST_OP_MAX"
  shows "est_parse_uri P brski (path_text [''.well-known'', ''est'', name]) =
           Some (EST_ERR_NONE, Some op, None)
    \<and> est_parse_uri P brski (path_text [''.well-known'', ''est'', seg, name]) =
           Some (EST_ERR_NONE, Some op, Some seg)"
proof -
  have pn: "plain_seg name" and "op \<noteq> EST_OP_MAX" using est_op_names_plain [OF assms(2)] by auto
  moreover have "est_parse_operation brski name = op" by (rule est_parse_operation_name [OF assms(2)])
  moreover have "est_parse_uri_seg brski (seg @ CHR ''/'' # name, Some (length seg)) =
      Some (EST_ERR_NONE, Some op, Some seg)"
    using calculation assms plain_seg_no_nul [OF pn] by (subst est_parse_uri_seg_two) auto
  ultimately show ?thesis
    using est_parse_uri_prefix [OF assms(1), of name "[]" brski] assms(3)
      est_parse_uri_prefix [OF assms(1), of seg "[name]" brski] est_parse_uri_seg_op [OF assms(2)]
    by simp
qed

theorem est_parse_uri_roundtrip_witness:
  "est_parse_uri (\<lambda>u. Some (split_path u)) True (path_text [''.well-known'', ''est'', ''cacerts'']) =
     Some (EST_ERR_NONE, Some EST_OP_CACERTS, None)
   \<and> est_parse_uri (\<lambda>u. Some (split_path u)) True (path_text [''.well-known'', ''est'', ''iot'', ''cacerts'']) =
     Some (EST_ERR_NONE, Some EST_OP_CACERTS, Some ''iot'')"
proof (rule est_parse_uri_roundtrip)
  show "uri_path_parser (\<lambda>u. Some (split_path u))" by (rule uri_path_parser_split_path)
  show "(''cacerts'', EST_OP_CACERTS) \<in> set (est_op_names True)" by (simp add: est_op_names_def)
  show "plain_seg ''iot''" by code_simp
  show "length ''iot'' \<le> EST_MAX_PATH_SEGMENT_LEN" by (simp add: EST_MAX_PATH_SEGMENT_LEN_def)
  show "est_parse_operation True ''iot'' = EST_OP_MAX" by (rule est_parse_operation_iot)
qed

text \<open>whatever the URI parser returns, a successful parse that sets an operation sets a real one,
  and a path segment it returns is at most 128 bytes long.\<close>

theorem est_parse_uri_sound:
  assumes "est_parse_uri P brski uri = Some (EST_ERR_NONE, Some op, ps)"
  shows "op \<noteq> EST_OP_MAX \<and> (case ps of None \<Rightarrow> True | Some s \<Rightarrow> length s \<le> EST_MAX_PATH_SEGMENT_LEN)"
proof -
  obtain seg where "est_parse_uri_seg brski seg = Some (EST_ERR_NONE, Some op, ps)"
    using assms by (auto simp: est_parse_uri_def bind_eq_Some_conv split: option.splits list.splits if_splits)
  then show ?thesis
    by (auto simp: est_parse_uri_seg_def Let_def split: if_splits option.splits)
qed

theorem est_parse_uri_sound_witness:
  "est_parse_uri (\<lambda>u. Some (split_path u)) False (path_text [''.well-known'', ''est'', ''csrattrs'']) =
     Some (EST_ERR_NONE, Some EST_OP_CSRATTRS, None) \<and> EST_OP_CSRATTRS \<noteq> EST_OP_MAX"
proof -
  have n: "(''csrattrs'', EST_OP_CSRATTRS) \<in> set (est_op_names False)" by (simp add: est_op_names_def)
  have h: "est_parse_uri (\<lambda>u. Some (split_path u)) False (path_text [''.well-known'', ''est'', ''csrattrs'']) =
      Some (EST_ERR_NONE, Some EST_OP_CSRATTRS, None)"
    using est_parse_uri_prefix [OF uri_path_parser_split_path, of "''csrattrs''" "[]"]
      est_parse_uri_seg_op [OF n] est_op_names_plain [OF n] by simp
  show ?thesis using h est_parse_uri_sound [OF h] by simp
qed

text \<open>three inputs on which \<^verbatim>\<open>est_parse_uri\<close> goes wrong: a URI that stops at \<^verbatim>\<open>/.well-known\<close> makes
  it follow a NULL \<^verbatim>\<open>next\<close> pointer; a path segment with nothing behind it makes it read past the URI;
  a path segment with a trailing slash is taken for a \<^verbatim>\<open>cacerts\<close> request, because the comparison of an
  empty operation name reports equality.\<close>

theorem est_parse_uri_defects:
  assumes "uri_path_parser P" and "plain_seg seg" and "length seg \<le> EST_MAX_PATH_SEGMENT_LEN"
    and "est_parse_operation brski seg = EST_OP_MAX"
  shows "est_parse_uri P brski (path_text [''.well-known'']) = None
    \<and> est_parse_uri P brski (path_text [''.well-known'', ''est'', seg]) = None
    \<and> est_parse_uri_seg brski (seg @ ''/'', Some (length seg)) =
        Some (EST_ERR_NONE, Some EST_OP_CACERTS, Some seg)"
proof -
  have "list_all plain_seg [''.well-known'']"
    by (simp add: plain_seg_def unreserved_def isalnum_def isalpha_def isdigit_def uchr_def)
  with assms(1) have "P (path_text [''.well-known'']) = Some (path_segs [''.well-known''])"
    unfolding uri_path_parser_def by blast
  then have "est_parse_uri P brski (path_text [''.well-known'']) = None"
    using seg_is_prefix [of "''.well-known''" "[]"] by (simp add: est_parse_uri_def)
  moreover have "est_parse_uri_seg brski (seg, Some (length seg)) = None"
    using assms
    by (simp add: est_parse_uri_seg_def Let_def seg_more_def at_def strndup_def cstr_id plain_seg_no_nul)
  ultimately show ?thesis
    using est_parse_uri_prefix [OF assms(1), of seg "[]" brski] assms(2)
      est_parse_uri_seg_two [OF assms(2-4), of "[]"] by simp
qed

theorem est_parse_uri_defects_witness:
  "est_parse_uri (\<lambda>u. Some (split_path u)) False (path_text [''.well-known'']) = None
    \<and> est_parse_uri (\<lambda>u. Some (split_path u)) False (path_text [''.well-known'', ''est'', ''iot'']) = None
    \<and> est_parse_uri_seg False (''iot'' @ ''/'', Some (length ''iot'')) =
        Some (EST_ERR_NONE, Some EST_OP_CACERTS, Some ''iot'')"
proof (rule est_parse_uri_defects)
  show "uri_path_parser (\<lambda>u. Some (split_path u))" by (rule uri_path_parser_split_path)
  show "plain_seg ''iot''" by code_simp
  show "length ''iot'' \<le> EST_MAX_PATH_SEGMENT_LEN" by (simp add: EST_MAX_PATH_SEGMENT_LEN_def)
  show "est_parse_operation False ''iot'' = EST_OP_MAX" by (rule est_parse_operation_iot)
qed

text \<open>\<^verbatim>\<open>est_store_path_segment\<close> stores the terminated segment when the length it is given is the
  length of the segment; given a larger length it writes past the buffer it has just allocated.\<close>

theorem est_store_path_segment_exact:
  "est_store_path_segment init s n =
     (if n \<le> length (cstr s) then Some (take n (cstr s) @ [NUL], EST_ERR_NONE) else None)"
proof (cases "n \<le> length (cstr s)")
  case True
  define x where "x = take (n + 1) (cstr s) @ replicate (n + 1 - length (cstr s)) NUL"
  have len: "length x = n + 1" using True by (simp add: x_def)
  have "strnlen_s (Some s) n = n" using True by (simp add: strnlen_s_def strnlen_def)
  moreover have "strcpy_s (Some (replicate (n + 1) init)) (n + 1) (Some s) = Some (Some x, EOK)"
    using len by (simp add: strcpy_s_def strncpy_def wr_block_def x_def)
  moreover have "x[n := NUL] = take n x @ [NUL]"
    using len by (simp add: upd_conv_take_nth_drop)
  moreover have "take n x = take n (cstr s)" using True by (simp add: x_def)
  ultimately show ?thesis
    using True len by (simp add: est_store_path_segment_def wr_def)
next
  case False
  then show ?thesis
    by (simp add: est_store_path_segment_def strnlen_s_def strnlen_def strcpy_s_def strncpy_def
        wr_block_def min_def)
qed

end
