(* ===== verification/Server_Http.thy ===== *)
theory Server_Http
  imports Server_Auth Server_Csrattrs Est_Uri
begin

text \<open>
  The request handlers of the EST server over HTTP, \<^verbatim>\<open>src/src/est/est_server.c\<close>: error responses, CA
  certificates, CSR attributes, enrollment, server-side key generation, the BRSKI operations, and the
  dispatcher \<^verbatim>\<open>est_http_request\<close>. A result \<^term>\<open>None\<close> is behaviour the C program does not define. Response
  headers are far below \<^verbatim>\<open>EST_HTTP_HDR_MAX\<close> (1024 bytes), so \<^verbatim>\<open>snprintf\<close> is concatenation. Allocation does
  not fail. Timers, event notifications other than the result of authentication, and the clearing of
  buffers before they are freed are not part of the model.
\<close>

section \<open>Responses\<close>

definition http_error_response :: "EST_ERROR \<Rightarrow> int \<times> string \<times> string" where
  "http_error_response fail_code =
     (case fail_code of
        EST_ERR_HTTP_NO_CONTENT \<Rightarrow> (204, ''No Content'', [])
      | EST_ERR_HTTP_BAD_REQ \<Rightarrow> (400, ''Bad Request'', [])
      | EST_ERR_CSR_ATTR_MISSING \<Rightarrow> (400, ''Bad Request'', ''CSR Attributes missing in request.'' @ [LF])
      | EST_ERR_BAD_ASN1_HEX \<Rightarrow> (400, ''Bad Request'', ''Invalid or corrupted ASN1 data in request.'' @ [LF])
      | EST_ERR_BAD_PKCS10 \<Rightarrow> (400, ''Bad Request'', ''Invalid or corrupted pkcs10 request.'' @ [LF])
      | EST_ERR_BAD_CONTENT_TYPE \<Rightarrow> (400, ''Bad Request'', ''Invalid content type used.'' @ [LF])
      | EST_ERR_WRONG_METHOD \<Rightarrow> (400, ''Bad Request'',
          ''Invalid HTTP method used.  Either GET or POST required depending on the request type.'' @ [LF])
      | EST_ERR_NO_SSL_CTX \<Rightarrow> (400, ''Bad Request'', ''An unknown TLS error has occured.'' @ [LF])
      | EST_ERR_AUTH_FAIL \<Rightarrow> (401, ''Unauthorized'', ''The server was unable to authorize the request.'' @ [LF])
      | EST_ERR_AUTH_FAIL_TLSUID \<Rightarrow> (401, ''Unauthorized'', ''Proof of Possession Mismatch.'' @ [LF])
      | EST_ERR_HTTP_NOT_FOUND \<Rightarrow> (404, ''Not Found'',
          ''Requested content is currently not available on the server.'' @ [LF])
      | EST_ERR_HTTP_INVALID_PATH_SEGMENT \<Rightarrow> (404, ''Not Found'', ''The path specified is not recognized.'' @ [LF])
      | EST_ERR_HTTP_LOCKED \<Rightarrow> (423, ''Locked'', ''The content attempted to be accessed is locked.'' @ [LF])
      | EST_ERR_HTTP_UNSUPPORTED \<Rightarrow> (502, ''Bad Gateway'',
          ''An error occurred while communicating to the upstream server.'' @ [LF])
      | EST_ERR_IP_CONNECT \<Rightarrow> (504, ''Gateway Time-out'',
          ''There was an issue connecting to the upstream server.'' @ [LF])
      | EST_ERR_CA_ENROLL_FAIL \<Rightarrow> (500, ''Internal Server Error'', ''An error has occured during enrollment.'' @ [LF])
      | _ \<Rightarrow> (500, ''Internal Server Error'', ''An unknown error has occured.'' @ [LF]))"

definition est_server_send_http_retry_after :: "int \<Rightarrow> HTTP_CTX \<Rightarrow> EST_ERROR \<times> HTTP_CTX" where
  "est_server_send_http_retry_after delay w =
     (let (n, w') = mg_write (''HTTP/1.1 202 Accepted'' @ CRLF @ ''Status: 202 Accepted'' @ CRLF
                              @ ''Retry-After: '' @ itoa delay @ CRLF @ CRLF) (set_status 202 w) in
      if n = 0 then (EST_ERR_HTTP_WRITE, w') else (EST_ERR_NONE, w'))"

definition est_send_http_error :: "EST_CTX \<Rightarrow> EST_ERROR \<Rightarrow> HTTP_CTX \<Rightarrow> HTTP_CTX" where
  "est_send_http_error ctx fail_code w =
     (let send = (\<lambda>code w'. case http_error_response code of (status, reason, body) \<Rightarrow>
                    mg_send_http_error status reason body w') in
      if fail_code = EST_ERR_CA_ENROLL_RETRY then
        (case est_mode ctx of
           EST_CLIENT \<Rightarrow> send EST_ERR_UNKNOWN w
         | m \<Rightarrow> (let (rv, w') = est_server_send_http_retry_after
                               (if m = EST_SERVER then retry_period ctx else retry_after_delay ctx) w in
                if rv \<noteq> EST_ERR_NONE then send EST_ERR_UNKNOWN w' else w'))
      else send fail_code w)"

text \<open>Writes in order; the first one that sends nothing ends the response.\<close>

fun write_all :: "string list \<Rightarrow> HTTP_CTX \<Rightarrow> EST_ERROR \<times> HTTP_CTX" where
  "write_all [] w = (EST_ERR_NONE, w)"
| "write_all (b # bs) w =
     (case mg_write b w of (n, w') \<Rightarrow> if n = 0 then (EST_ERR_HTTP_WRITE, w') else write_all bs w')"

definition http_200 :: string where
  "http_200 = ''HTTP/1.1 200 OK'' @ CRLF @ ''Status: 200 OK'' @ CRLF"

definition http_200_base64 :: "string \<Rightarrow> nat \<Rightarrow> string" where
  "http_200_base64 ct len = http_200 @ ''Content-Type: '' @ ct @ CRLF @ ''Content-Transfer-Encoding: base64'' @ CRLF
     @ ''Content-Length: '' @ itoa (int len) @ CRLF @ CRLF"

section \<open>CA certificates\<close>

definition est_handle_cacerts :: "string option \<Rightarrow> HTTP_CTX \<Rightarrow> EST_ERROR \<times> HTTP_CTX" where
  "est_handle_cacerts certs w =
     (case certs of
        None \<Rightarrow> (EST_ERR_HTTP_NOT_FOUND, w)
      | Some c \<Rightarrow> write_all [http_200_base64 ''application/pkcs7-mime'' (length c), c] w)"

definition est_server_handle_cacerts ::
  "EST_CTX \<Rightarrow> string option \<Rightarrow> HTTP_CTX \<Rightarrow> EST_ERROR \<times> EST_CTX \<times> HTTP_CTX" where
  "est_server_handle_cacerts ctx path_seg w =
     (case est_get_cacerts_cb ctx of
        Some cb \<Rightarrow>
          (case cb path_seg of
             Some certs \<Rightarrow>
               (case transport_mode ctx of
                  EST_HTTP \<Rightarrow> (case est_handle_cacerts (Some certs) w of (rv, w') \<Rightarrow> (rv, ctx, w'))
                | EST_COAP \<Rightarrow> (EST_ERR_NONE, ctx\<lparr>ca_certs := Some certs\<rparr>, w))
           | None \<Rightarrow> (EST_ERR_HTTP_NO_CONTENT, ctx, w))
      | None \<Rightarrow>
          (if ca_certs ctx \<noteq> None then
             (case transport_mode ctx of
                EST_HTTP \<Rightarrow> (case est_handle_cacerts (ca_certs ctx) w of (rv, w') \<Rightarrow> (rv, ctx, w'))
              | EST_COAP \<Rightarrow> (EST_ERR_NONE, ctx, w))
           else (EST_ERR_HTTP_NO_CONTENT, ctx, w)))"

section \<open>CSR attributes\<close>

definition EST_CSRATTRS_POP :: string where
  "EST_CSRATTRS_POP = ''MAsGCSqGSIb3DQEJBw==''"

definition est_send_csrattr_data :: "EST_CTX \<Rightarrow> string option \<Rightarrow> HTTP_CTX \<Rightarrow> EST_ERROR \<times> HTTP_CTX" where
  "est_send_csrattr_data ctx csr_data w =
     (case csr_data of
        Some d \<Rightarrow> if d \<noteq> [] then write_all [http_200_base64 ''application/csrattrs'' (length d), d] w
                  else (EST_ERR_NONE, est_send_http_error ctx EST_ERR_HTTP_NO_CONTENT w)
      | None \<Rightarrow> (EST_ERR_NONE, est_send_http_error ctx EST_ERR_HTTP_NO_CONTENT w))"

text \<open>The common end of the handler: over HTTP the data is sent, over CoAP it is returned to the caller.\<close>

definition deliver_csrattrs ::
  "EST_CTX \<Rightarrow> string option \<Rightarrow> HTTP_CTX \<Rightarrow> (EST_ERROR \<times> string option option \<times> EST_CTX \<times> HTTP_CTX) option" where
  "deliver_csrattrs ctx d w =
     (case transport_mode ctx of
        EST_HTTP \<Rightarrow> (case est_send_csrattr_data ctx d w of (rv, w') \<Rightarrow> Some (rv, None, ctx, w'))
      | EST_COAP \<Rightarrow> Some (EST_ERR_NONE, Some d, ctx, w))"

text \<open>A callback that returns NULL reports the length 0.\<close>

definition est_handle_csr_attrs ::
  "OPENSSL \<Rightarrow> ASN1 \<Rightarrow> EST_CTX \<Rightarrow> X509 option \<Rightarrow> string option \<Rightarrow> HTTP_CTX
     \<Rightarrow> (EST_ERROR \<times> string option option \<times> EST_CTX \<times> HTTP_CTX) option" where
  "est_handle_csr_attrs ossl a ctx peer_cert path_seg w =
     (if server_csrattrs ctx = None \<and> est_get_csr_cb ctx = None then
        (if \<not> server_enable_pop ctx then Some (EST_ERR_HTTP_NO_CONTENT, None, ctx, w)
         else deliver_csrattrs ctx (Some EST_CSRATTRS_POP) w)
      else
        (case est_get_csr_cb ctx of
           Some cb \<Rightarrow>
             (let csr_data = cb path_seg peer_cert; bytes = (case csr_data of None \<Rightarrow> [] | Some d \<Rightarrow> d) in
              do { (rv, _) \<leftarrow> est_asn1_parse_attributes ossl a bytes;
                   if bytes \<noteq> [] \<and> rv \<noteq> EST_ERR_NONE then Some (rv, None, ctx, w)
                   else
                     (let ctx1 = ctx\<lparr>csr_pop_present := False\<rparr> in
                      if server_enable_pop ctx1 then
                        do { (rv1, pop_present) \<leftarrow> est_is_challengePassword_present ossl a csr_data;
                             if rv1 \<noteq> EST_ERR_NONE then Some (rv1, None, ctx1, w)
                             else
                               (let ctx2 = ctx1\<lparr>csr_pop_present := pop_present\<rparr> in
                                if pop_present then deliver_csrattrs ctx2 csr_data w
                                else if bytes = [] then deliver_csrattrs ctx2 (Some EST_CSRATTRS_POP) w
                                else do { (rv2, csr_data_pop) \<leftarrow> est_add_challengePassword ossl a bytes;
                                          if rv2 \<noteq> EST_ERR_NONE then Some (rv2, None, ctx2, w)
                                          else deliver_csrattrs ctx2 (Some csr_data_pop) w }) }
                      else deliver_csrattrs ctx1 csr_data w) })
         | None \<Rightarrow> deliver_csrattrs ctx (server_csrattrs ctx) w))"

section \<open>Enrollment\<close>

text \<open>The \<^verbatim>\<open>switch\<close> on the result of authentication: \<^term>\<open>None\<close> goes on, an error is returned.\<close>

definition auth_error :: "EST_AUTH_STATE \<Rightarrow> EST_ERROR option" where
  "auth_error st =
     (case st of
        EST_HTTP_AUTH \<Rightarrow> None | EST_SRP_AUTH \<Rightarrow> None | EST_CERT_AUTH \<Rightarrow> None
      | EST_HTTP_AUTH_PENDING \<Rightarrow> Some EST_ERR_AUTH_PENDING
      | EST_CSR_PARSE_FAIL \<Rightarrow> Some EST_ERR_BAD_PKCS10
      | EST_UNAUTHORIZED \<Rightarrow> Some EST_ERR_AUTH_FAIL)"

text \<open>Authentication of the client and the parsed request, as both enrollment handlers start.\<close>

definition admit ::
  "OPENSSL \<Rightarrow> EST_CTX \<Rightarrow> SSL \<Rightarrow> string option \<Rightarrow> EST_ENROLL_REQ_TYPE \<Rightarrow> string \<Rightarrow> HTTP_CTX
     \<Rightarrow> ((EST_ERROR + X509_REQ) \<times> HTTP_CTX) option" where
  "admit ossl ctx ssl path_seg enroll_req body w =
     do { (st, csr, w1) \<leftarrow> est_enroll_auth ossl ctx ssl path_seg enroll_req body w;
          case auth_error st of
            Some e \<Rightarrow> Some (Inl e, w1)
          | None \<Rightarrow> (case (if csr \<noteq> None then csr else est_server_parse_csr ossl True body) of
                       None \<Rightarrow> Some (Inl EST_ERR_BAD_PKCS10, w1)
                     | Some req \<Rightarrow> Some (Inr req, w1)) }"

text \<open>
  The checks on a parsed request before the CA sees it: proof of possession unless the client is a
  registration authority, and the CSR attributes when they are enforced.
\<close>

definition request_checks ::
  "OPENSSL \<Rightarrow> ASN1 \<Rightarrow> EST_CTX \<Rightarrow> SSL \<Rightarrow> X509 option \<Rightarrow> X509_REQ \<Rightarrow> string \<Rightarrow> EST_ERROR option" where
  "request_checks ossl a ctx ssl peer_cert csr body =
     (let client_is_ra = (case peer_cert of None \<Rightarrow> False | Some p \<Rightarrow> est_check_cmcRA ossl p);
          attrs = (if enforce_csrattrs ctx then
                     (case est_server_all_csrattrs_present ossl a ctx body peer_cert of
                        Done rv \<Rightarrow> Some (if rv \<noteq> EST_ERR_NONE then EST_ERR_CSR_ATTR_MISSING else EST_ERR_NONE)
                      | _ \<Rightarrow> None)
                   else Some EST_ERR_NONE) in
      if client_is_ra then attrs
      else do { rv \<leftarrow> est_tls_uid_auth ossl ctx ssl csr;
                if rv \<noteq> EST_ERR_NONE then Some EST_ERR_AUTH_FAIL_TLSUID else attrs })"

text \<open>The CA callback and the response with the certificate.\<close>

definition simple_enroll_ca ::
  "EST_CTX \<Rightarrow> enroll_cb \<Rightarrow> EST_ENROLL_REQ_TYPE \<Rightarrow> string \<Rightarrow> X509 option \<Rightarrow> string option \<Rightarrow> HTTP_CTX
     \<Rightarrow> EST_ERROR \<times> string option \<times> HTTP_CTX" where
  "simple_enroll_ca ctx cb enroll_req body peer_cert path_seg w =
     (let user_id = (if transport_mode ctx = EST_HTTP then Some (user_id (conn w)) else None);
          w1 = emit (Cb_Enroll enroll_req body) w;
          (rv, cert) = cb body user_id peer_cert path_seg in
      if rv = EST_ERR_NONE \<and> cert \<noteq> [] then
        (if transport_mode ctx = EST_HTTP then
           (case write_all [http_200_base64 ''application/pkcs7-mime; smime-type=certs-only'' (length cert), cert] w1 of
              (rv', w2) \<Rightarrow> (rv', Some cert, w2))
         else (EST_ERR_NONE, Some cert, w1))
      else if rv = EST_ERR_CA_ENROLL_RETRY then (EST_ERR_CA_ENROLL_RETRY, None, w1)
      else (EST_ERR_CA_ENROLL_FAIL, None, w1))"

definition est_handle_simple_enroll ::
  "OPENSSL \<Rightarrow> ASN1 \<Rightarrow> EST_CTX \<Rightarrow> SSL \<Rightarrow> X509 option \<Rightarrow> string \<Rightarrow> string \<Rightarrow> string option \<Rightarrow> EST_ENROLL_REQ_TYPE
     \<Rightarrow> HTTP_CTX \<Rightarrow> (EST_ERROR \<times> string option \<times> HTTP_CTX) option" where
  "est_handle_simple_enroll ossl a ctx ssl peer_cert ct body path_seg enroll_req w =
     (if enroll_req \<noteq> SIMPLE_ENROLL_REQ \<and> enroll_req \<noteq> REENROLL_REQ then Some (EST_ERR_INVALID_PARAMETERS, None, w)
      else
        (case (if enroll_req = REENROLL_REQ then est_reenroll_pkcs10_cb ctx else est_enroll_pkcs10_cb ctx) of
           None \<Rightarrow> Some (EST_ERR_NULL_CALLBACK, None, w)
         | Some cb \<Rightarrow>
             if transport_mode ctx = EST_HTTP \<and> strncmp ct ''application/pkcs10'' 18 \<noteq> 0
             then Some (EST_ERR_BAD_CONTENT_TYPE, None, w)
             else
               do { (r, w1) \<leftarrow> admit ossl ctx ssl path_seg enroll_req body w;
                    case r of
                      Inl e \<Rightarrow> Some (e, None, w1)
                    | Inr csr \<Rightarrow>
                        if est_server_check_csr ossl csr \<noteq> 0 then Some (EST_ERR_BAD_PKCS10, None, w1)
                        else do { chk \<leftarrow> request_checks ossl a ctx ssl peer_cert csr body;
                                  if chk \<noteq> EST_ERR_NONE then Some (chk, None, w1)
                                  else Some (simple_enroll_ca ctx cb enroll_req body peer_cert path_seg w1) } }))"

section \<open>Server-side key generation\<close>

definition EST_HTTP_BOUNDARY :: string where
  "EST_HTTP_BOUNDARY = ''est-server-boundary''"

text \<open>The six parts of the multipart response, in the order they are sent.\<close>

definition keygen_response :: "string \<Rightarrow> string \<Rightarrow> string list" where
  "keygen_response key cert =
     (let ce = ''Content-Transfer-Encoding: base64'' @ CRLF @ CRLF;
          pvt_key_hdr = ''--'' @ EST_HTTP_BOUNDARY @ CRLF @ ''Content-Type: application/pkcs8'' @ CRLF @ ce;
          cert_hdr = CRLF @ ''--'' @ EST_HTTP_BOUNDARY @ CRLF
            @ ''Content-Type: application/pkcs7-mime; smime-type=certs-only'' @ CRLF @ ce;
          final_bndry_hdr = CRLF @ ''--'' @ EST_HTTP_BOUNDARY @ ''--'' @ CRLF @ CRLF;
          len = length pvt_key_hdr + length key + length cert_hdr + length cert + length final_bndry_hdr;
          http_hdr = http_200 @ ''Content-Type: multipart/mixed; boundary='' @ EST_HTTP_BOUNDARY @ CRLF
            @ ''Content-Length: '' @ itoa (int len) @ CRLF @ CRLF
      in [http_hdr, pvt_key_hdr, key, cert_hdr, cert, final_bndry_hdr])"

text \<open>The request with the new public key, signed with the new key and checked; or the error.\<close>

definition rekey_request :: "OPENSSL \<Rightarrow> X509_REQ \<Rightarrow> EVP_PKEY \<Rightarrow> EST_ERROR + X509_REQ" where
  "rekey_request ossl csr key =
     (case X509_REQ_set_pubkey ossl csr key of
        None \<Rightarrow> Inl EST_ERR_BAD_PKCS10
      | Some csr1 \<Rightarrow>
          (case X509_REQ_sign ossl csr1 key of
             None \<Rightarrow> Inl EST_ERR_X509_SIGN
           | Some csr2 \<Rightarrow> if est_server_check_csr ossl csr2 \<noteq> 0 then Inl EST_ERR_BAD_PKCS10 else Inr csr2))"

text \<open>The end of the handler: the CA callback with the new request and the encoded key, and the response.\<close>

definition keygen_enroll ::
  "EST_CTX \<Rightarrow> (string \<Rightarrow> string \<Rightarrow> string option \<Rightarrow> X509 option \<Rightarrow> string option \<Rightarrow> EST_ERROR \<times> string \<times> string)
     \<Rightarrow> string \<Rightarrow> string \<Rightarrow> X509 option \<Rightarrow> string option \<Rightarrow> HTTP_CTX \<Rightarrow> EST_ERROR \<times> (string \<times> string) option \<times> HTTP_CTX" where
  "keygen_enroll ctx cb body key peer_cert path_seg w =
     (let user_id = (if transport_mode ctx = EST_HTTP then Some (user_id (conn w)) else None);
          w1 = emit (Cb_Enroll SERVERKEYGEN_REQ body) w;
          (rv, cert, key') = cb body key user_id peer_cert path_seg in
      if rv = EST_ERR_NONE \<and> cert \<noteq> [] then
        (if transport_mode ctx = EST_HTTP then
           (case write_all (keygen_response key' cert) w1 of
              (rv', w2) \<Rightarrow> if rv' = EST_ERR_NONE then (EST_ERR_NONE, Some (cert, key'), w2) else (rv', None, w2))
         else (EST_ERR_NONE, Some (cert, key'), w1))
      else if rv = EST_ERR_CA_ENROLL_RETRY then (EST_ERR_CA_ENROLL_RETRY, None, w1)
      else (EST_ERR_CA_ENROLL_FAIL, None, w1))"

definition est_handle_server_keygen ::
  "OPENSSL \<Rightarrow> ASN1 \<Rightarrow> EST_CTX \<Rightarrow> SSL \<Rightarrow> X509 option \<Rightarrow> string \<Rightarrow> string \<Rightarrow> string option
     \<Rightarrow> HTTP_CTX \<Rightarrow> (EST_ERROR \<times> (string \<times> string) option \<times> HTTP_CTX) option" where
  "est_handle_server_keygen ossl a ctx ssl peer_cert ct body path_seg w =
     (case (est_server_keygen_pkcs10_cb ctx, keygen_cb ctx) of
        (Some cb, Some (rv, priv_key)) \<Rightarrow>
          if transport_mode ctx = EST_HTTP \<and> strncmp ct ''application/pkcs10'' 18 \<noteq> 0
          then Some (EST_ERR_BAD_CONTENT_TYPE, None, w)
          else
            do { (r, w1) \<leftarrow> admit ossl ctx ssl path_seg SERVERKEYGEN_REQ body w;
                 case r of
                   Inl e \<Rightarrow> Some (e, None, w1)
                 | Inr csr \<Rightarrow>
                          (let w2 = emit Cb_Keygen w1 in
                           if priv_key = None \<or> rv \<noteq> EST_ERR_NONE then Some (EST_ERR_NO_KEY, None, w2)
                           else
                             (let key = the priv_key; der_key = i2d_PrivateKey ossl key; n = 2 * length der_key in
                              do { (b64der, b64der_len) \<leftarrow>
                                     est_base64_encode (bio_write ossl) der_key (Some (replicate n NUL)) n True;
                                   case rekey_request ossl csr key of
                                     Inl e \<Rightarrow> Some (e, None, w2)
                                   | Inr csr1 \<Rightarrow>
                                       (let new_body = i2d_X509_REQ_b64 ossl csr1 in
                                        do { chk \<leftarrow> request_checks ossl a ctx ssl peer_cert csr1 new_body;
                                             if chk \<noteq> EST_ERR_NONE then Some (chk, None, w2)
                                             else Some (keygen_enroll ctx cb new_body (take b64der_len (the b64der))
                                                          peer_cert path_seg w2) }) })) }
      | _ \<Rightarrow> Some (EST_ERR_NULL_CALLBACK, None, w))"

section \<open>BRSKI\<close>

definition EST_BRSKI_CT_VREQ_SIGNED :: string where
  "EST_BRSKI_CT_VREQ_SIGNED = ''application/pkcs7-mime; smime-type=voucher-request''"

definition EST_BRSKI_CT_STATUS :: string where
  "EST_BRSKI_CT_STATUS = ''application/json''"

text \<open>\<^verbatim>\<open>strncmp(ct, LIT, sizeof(LIT))\<close> compares the terminator too.\<close>

definition ct_differs :: "string \<Rightarrow> string \<Rightarrow> bool" where
  "ct_differs ct lit \<longleftrightarrow> strncmp ct lit (length lit + 1) \<noteq> 0"

definition est_brski_handle_voucher_req ::
  "OPENSSL \<Rightarrow> EST_CTX \<Rightarrow> SSL \<Rightarrow> string \<Rightarrow> string \<Rightarrow> string option \<Rightarrow> HTTP_CTX \<Rightarrow> (EST_ERROR \<times> HTTP_CTX) option" where
  "est_brski_handle_voucher_req ossl ctx ssl ct body path_seg w =
     (case est_brski_voucher_req_cb ctx of
        None \<Rightarrow> Some (EST_ERR_NULL_CALLBACK, w)
      | Some cb \<Rightarrow>
          if ct_differs ct EST_BRSKI_CT_VREQ_SIGNED \<and> ct_differs ct ''application/json'' then Some (EST_ERR_BAD_CONTENT_TYPE, w)
          else
            do { (st, w1) \<leftarrow> est_brski_auth ossl ctx ssl path_seg w;
                 if st = EST_HTTP_AUTH_PENDING then Some (EST_ERR_AUTH_PENDING, w1)
                 else if st \<noteq> EST_HTTP_AUTH \<and> st \<noteq> EST_SRP_AUTH \<and> st \<noteq> EST_CERT_AUTH then Some (EST_ERR_AUTH_FAIL, w1)
                 else
                   (let w2 = emit (Cb_Voucher body) w1; (rv, voucher) = cb body (peer_certificate ssl) in
                    if rv = EST_BRSKI_CB_SUCCESS \<and> voucher \<noteq> [] then
                      Some (write_all [http_200_base64 ''application/voucher+cms'' (length voucher), voucher] w2)
                    else if rv = EST_BRSKI_CB_RETRY then
                      Some (est_server_send_http_retry_after (brski_retry_period ctx) w2)
                    else Some (EST_ERR_CA_ENROLL_FAIL, w2)) })"

text \<open>The two status handlers have the same body over different callbacks.\<close>

definition brski_status ::
  "(string \<Rightarrow> X509 option \<Rightarrow> EST_BRSKI_CALLBACK_RC) option \<Rightarrow> OPENSSL \<Rightarrow> EST_CTX \<Rightarrow> SSL \<Rightarrow> string \<Rightarrow> string
     \<Rightarrow> string option \<Rightarrow> HTTP_CTX \<Rightarrow> (EST_ERROR \<times> HTTP_CTX) option" where
  "brski_status cb0 ossl ctx ssl ct body path_seg w =
     (case cb0 of
        None \<Rightarrow> Some (EST_ERR_NULL_CALLBACK, w)
      | Some cb \<Rightarrow>
          if ct_differs ct EST_BRSKI_CT_STATUS then Some (EST_ERR_BAD_CONTENT_TYPE, w)
          else
            do { (st, w1) \<leftarrow> est_brski_auth ossl ctx ssl path_seg w;
                 if st = EST_HTTP_AUTH_PENDING then Some (EST_ERR_AUTH_PENDING, w1)
                 else if st \<noteq> EST_HTTP_AUTH \<and> st \<noteq> EST_SRP_AUTH \<and> st \<noteq> EST_CERT_AUTH then Some (EST_ERR_AUTH_FAIL, w1)
                 else
                   (let w2 = emit (Cb_Status body) w1 in
                    if cb body (peer_certificate ssl) = EST_BRSKI_CB_SUCCESS then Some (write_all [http_200] w2)
                    else Some (EST_ERR_CA_ENROLL_FAIL, w2)) })"

definition est_brski_handle_voucher_status ::
  "OPENSSL \<Rightarrow> EST_CTX \<Rightarrow> SSL \<Rightarrow> string \<Rightarrow> string \<Rightarrow> string option \<Rightarrow> HTTP_CTX \<Rightarrow> (EST_ERROR \<times> HTTP_CTX) option" where
  "est_brski_handle_voucher_status ossl ctx = brski_status (est_brski_voucher_status_cb ctx) ossl ctx"

definition est_brski_handle_enroll_status ::
  "OPENSSL \<Rightarrow> EST_CTX \<Rightarrow> SSL \<Rightarrow> string \<Rightarrow> string \<Rightarrow> string option \<Rightarrow> HTTP_CTX \<Rightarrow> (EST_ERROR \<times> HTTP_CTX) option" where
  "est_brski_handle_enroll_status ossl ctx = brski_status (est_brski_enroll_status_cb ctx) ossl ctx"

section \<open>The dispatcher\<close>

text \<open>
  The build: with or without the uriparser library, and with or without BRSKI. An operation that the
  parser left unset is read uninitialised.
\<close>

record build =
  uriparser :: "(string \<Rightarrow> uri_seg list option) option"
  enable_brski :: bool

definition build_parse_uri :: "build \<Rightarrow> string \<Rightarrow> (EST_ERROR \<times> EST_OPERATION option \<times> string option) option" where
  "build_parse_uri b req_uri =
     (case uriparser b of
        Some parse \<Rightarrow> est_parse_uri parse (enable_brski b) req_uri
      | None \<Rightarrow> (case est_parse_uri_fixed (enable_brski b) req_uri of (rv, op, seg) \<Rightarrow> Some (rv, Some op, seg)))"

text \<open>The end of a request: errors other than a pending authentication are reported to the client.\<close>

definition finish :: "EST_CTX \<Rightarrow> EST_ERROR \<Rightarrow> EST_ERROR \<Rightarrow> HTTP_CTX \<Rightarrow> (EST_ERROR \<times> EST_CTX \<times> HTTP_CTX) option" where
  "finish ctx rc sent w =
     (if rc \<noteq> EST_ERR_NONE \<and> rc \<noteq> EST_ERR_AUTH_PENDING then Some (rc, ctx, est_send_http_error ctx sent w)
      else Some (EST_ERR_NONE, ctx, w))"

definition fail_with :: "EST_CTX \<Rightarrow> EST_ERROR \<Rightarrow> HTTP_CTX \<Rightarrow> (EST_ERROR \<times> EST_CTX \<times> HTTP_CTX) option" where
  "fail_with ctx e w = Some (e, ctx, est_send_http_error ctx e w)"

definition http_cacerts :: "EST_CTX \<Rightarrow> string \<Rightarrow> string option \<Rightarrow> HTTP_CTX \<Rightarrow> (EST_ERROR \<times> EST_CTX \<times> HTTP_CTX) option" where
  "http_cacerts ctx method path_seg w =
     (if strncmp method ''GET'' 3 \<noteq> 0 then fail_with ctx EST_ERR_WRONG_METHOD w
      else (case est_server_handle_cacerts ctx path_seg w of
          (rc, ctx', w') \<Rightarrow> if rc \<noteq> EST_ERR_NONE then fail_with ctx' rc w' else Some (EST_ERR_NONE, ctx', w')))"

definition http_enroll ::
  "OPENSSL \<Rightarrow> ASN1 \<Rightarrow> EST_CTX \<Rightarrow> SSL \<Rightarrow> EST_OPERATION \<Rightarrow> string \<Rightarrow> string \<Rightarrow> string option \<Rightarrow> string option
     \<Rightarrow> HTTP_CTX \<Rightarrow> (EST_ERROR \<times> EST_CTX \<times> HTTP_CTX) option" where
  "http_enroll ossl a ctx ssl operation method body ct path_seg w =
     (if strncmp method ''POST'' 4 \<noteq> 0 then fail_with ctx EST_ERR_WRONG_METHOD w
      else
        (case ct of
           None \<Rightarrow> fail_with ctx EST_ERR_BAD_CONTENT_TYPE w
         | Some c \<Rightarrow>
             if operation = EST_OP_SERVER_KEYGEN then
               do { (rc, _, w') \<leftarrow> est_handle_server_keygen ossl a ctx ssl (peer_certificate ssl) c body path_seg w;
                    finish ctx rc rc w' }
             else
               do { (rc, _, w') \<leftarrow> est_handle_simple_enroll ossl a ctx ssl (peer_certificate ssl) c body path_seg
                                     (if operation = EST_OP_SIMPLE_REENROLL then REENROLL_REQ else SIMPLE_ENROLL_REQ) w;
                    finish ctx rc rc w' }))"

definition http_csrattrs ::
  "OPENSSL \<Rightarrow> ASN1 \<Rightarrow> EST_CTX \<Rightarrow> SSL \<Rightarrow> string \<Rightarrow> string option \<Rightarrow> HTTP_CTX
     \<Rightarrow> (EST_ERROR \<times> EST_CTX \<times> HTTP_CTX) option" where
  "http_csrattrs ossl a ctx ssl method path_seg w =
     (if strncmp method ''GET'' 4 \<noteq> 0 then fail_with ctx EST_ERR_WRONG_METHOD w
      else
        do { (rc, returned_attrs, ctx', w') \<leftarrow> est_handle_csr_attrs ossl a ctx (peer_certificate ssl) path_seg w;
             if returned_attrs \<noteq> None then None
             else if rc \<noteq> EST_ERR_NONE then fail_with ctx' rc w' else Some (EST_ERR_NONE, ctx', w') })"

definition http_brski ::
  "OPENSSL \<Rightarrow> EST_CTX \<Rightarrow> SSL \<Rightarrow> EST_OPERATION \<Rightarrow> string \<Rightarrow> string \<Rightarrow> string option \<Rightarrow> string option
     \<Rightarrow> HTTP_CTX \<Rightarrow> (EST_ERROR \<times> EST_CTX \<times> HTTP_CTX) option" where
  "http_brski ossl ctx ssl operation method body ct path_seg w =
     (if strncmp method ''POST'' 4 \<noteq> 0 then fail_with ctx EST_ERR_WRONG_METHOD w
      else
        (case ct of
           None \<Rightarrow> fail_with ctx EST_ERR_BAD_CONTENT_TYPE w
         | Some c \<Rightarrow>
             do { (rc, w') \<leftarrow>
                    (case operation of
                       EST_OP_BRSKI_REQ_VOUCHER \<Rightarrow> est_brski_handle_voucher_req ossl ctx ssl c body path_seg w
                     | EST_OP_BRSKI_VOUCHER_STATUS \<Rightarrow> est_brski_handle_voucher_status ossl ctx ssl c body path_seg w
                     | EST_OP_BRSKI_ENROLL_STATUS \<Rightarrow> est_brski_handle_enroll_status ossl ctx ssl c body path_seg w
                     | _ \<Rightarrow> Some (EST_ERR_HTTP_NOT_FOUND, w));
                  finish ctx rc (if rc = EST_ERR_AUTH_FAIL then EST_ERR_AUTH_FAIL else EST_ERR_BAD_PKCS10) w' }))"

definition est_http_request ::
  "build \<Rightarrow> OPENSSL \<Rightarrow> ASN1 \<Rightarrow> EST_CTX \<Rightarrow> SSL option \<Rightarrow> string \<Rightarrow> string \<Rightarrow> string \<Rightarrow> string option
     \<Rightarrow> HTTP_CTX \<Rightarrow> (EST_ERROR \<times> EST_CTX \<times> HTTP_CTX) option" where
  "est_http_request b ossl a ctx conn_ssl method req_uri body ct w =
     (if est_mode ctx \<noteq> EST_SERVER then Some (EST_ERR_BAD_MODE, ctx, w)
      else
        (case conn_ssl of
           None \<Rightarrow> fail_with ctx EST_ERR_NO_SSL_CTX w
         | Some ssl \<Rightarrow>
             do { (rv, op, path_seg) \<leftarrow> build_parse_uri b req_uri;
                  if rv \<noteq> EST_ERR_NONE then fail_with ctx rv w
                  else
                    do { operation \<leftarrow> op;
                         if operation = EST_OP_CACERTS then http_cacerts ctx method path_seg w
                         else if operation \<in> {EST_OP_SIMPLE_ENROLL, EST_OP_SIMPLE_REENROLL, EST_OP_SERVER_KEYGEN}
                         then http_enroll ossl a ctx ssl operation method body ct path_seg w
                         else if operation = EST_OP_CSRATTRS then http_csrattrs ossl a ctx ssl method path_seg w
                         else if enable_brski b \<and> operation \<in>
                             {EST_OP_BRSKI_REQ_VOUCHER, EST_OP_BRSKI_VOUCHER_STATUS, EST_OP_BRSKI_ENROLL_STATUS}
                         then http_brski ossl ctx ssl operation method body ct path_seg w
                         else Some (EST_ERR_NONE, ctx, est_send_http_error ctx EST_ERR_UNKNOWN w) } }))"

section \<open>Which callbacks ran\<close>

text \<open>
  The callbacks that act for a client: enrollment, key generation and the BRSKI callbacks. Sending a
  response and authentication run none of them.
\<close>

definition is_cb :: "event \<Rightarrow> bool" where
  "is_cb e = (case e of Cb_Enroll _ _ \<Rightarrow> True | Cb_Keygen \<Rightarrow> True | Cb_Voucher _ \<Rightarrow> True | Cb_Status _ \<Rightarrow> True | _ \<Rightarrow> False)"

definition cbs :: "HTTP_CTX \<Rightarrow> event list" where
  "cbs w = filter is_cb (log w)"

lemma cbs_emit [simp]: "cbs (emit e w) = cbs w @ (if is_cb e then [e] else [])"
  by (simp add: cbs_def)

lemma is_cb_simps [simp]:
  "is_cb (Cb_Enroll t b)" "is_cb Cb_Keygen" "is_cb (Cb_Voucher b)" "is_cb (Cb_Status b)"
  "\<not> is_cb (Http_Error n r)" "\<not> is_cb (Auth_Request m)" "\<not> is_cb (Write bs)" "\<not> is_cb (Auth_Result p q)"
  by (simp_all add: is_cb_def)

lemma cbs_update [simp]: "cbs (w\<lparr>conn := c\<rparr>) = cbs w" "cbs (w\<lparr>sock := s\<rparr>) = cbs w" "cbs (set_status n w) = cbs w"
  by (simp_all add: cbs_def)

lemma cbs_mg_write: "mg_write bs w = (n, w') \<Longrightarrow> cbs w' = cbs w"
  by (auto simp: mg_write_def Let_def split: prod.splits if_split_asm)

lemma cbs_mg_printf [simp]: "cbs (mg_printf t w) = cbs w"
  by (simp add: mg_printf_def) (metis cbs_mg_write prod.collapse)

lemma cbs_mg_send [simp]: "cbs (mg_send_http_error n r b w) = cbs w" "cbs (mg_send_authorization_request ctx w) = cbs w"
  by (simp_all add: mg_send_http_error_def mg_send_authorization_request_def Let_def split: EST_HTTP_AUTH_MODE.split)

lemma cbs_retry: "est_server_send_http_retry_after d w = (rv, w') \<Longrightarrow> cbs w' = cbs w"
  by (auto simp: est_server_send_http_retry_after_def Let_def split: prod.splits if_split_asm dest: cbs_mg_write)

lemma cbs_est_send_http_error [simp]: "cbs (est_send_http_error ctx e w) = cbs w"
  by (auto simp: est_send_http_error_def Let_def split: prod.splits EST_MODE.splits dest: cbs_retry)

lemma cbs_write_all: "write_all bs w = (rv, w') \<Longrightarrow> cbs w' = cbs w"
  by (induction bs arbitrary: w) (auto split: prod.splits if_split_asm dest: cbs_mg_write)

lemma cbs_est_enroll_auth:
  assumes "est_enroll_auth ossl ctx ssl path_seg enroll_req csr_buf w = Some (rv, csr, w')"
  shows "cbs w' = cbs w"
  using assms unfolding est_enroll_auth_def Let_def
  by (auto simp: bind_eq_Some_conv split: prod.splits if_split_asm EST_HTTP_AUTH_HDR_RESULT.splits option.splits)

lemma cbs_est_brski_auth:
  assumes "est_brski_auth ossl ctx ssl path_seg w = Some (rv, w')"
  shows "cbs w' = cbs w"
  using assms unfolding est_brski_auth_def Let_def
  by (auto simp: bind_eq_Some_conv split: prod.splits if_split_asm EST_HTTP_AUTH_HDR_RESULT.splits option.splits)
section \<open>The gate before the callbacks\<close>

text \<open>The client is authorised: by its certificate, by SRP, or by credentials the application accepted.\<close>

definition authorized :: "OPENSSL \<Rightarrow> EST_CTX \<Rightarrow> SSL \<Rightarrow> string option \<Rightarrow> mg_connection \<Rightarrow> bool" where
  "authorized ossl ctx ssl path_seg c \<longleftrightarrow>
     tls_cert_ok ssl \<or> (peer_certificate ssl = None \<and> srp_username ssl \<noteq> None)
     \<or> credentials_accepted ossl ctx ssl path_seg c"

text \<open>
  A request that may go to the CA: its signature verifies, it passed the proof of possession (or the
  client is a registration authority), and it has the enforced attributes.
\<close>

definition request_ok :: "OPENSSL \<Rightarrow> ASN1 \<Rightarrow> EST_CTX \<Rightarrow> SSL \<Rightarrow> X509 option \<Rightarrow> X509_REQ \<Rightarrow> string \<Rightarrow> bool" where
  "request_ok ossl a ctx ssl peer_cert csr body \<longleftrightarrow>
     est_server_check_csr ossl csr = 0
     \<and> ((\<exists>p. peer_cert = Some p \<and> est_check_cmcRA ossl p) \<or> est_tls_uid_auth ossl ctx ssl csr = Some EST_ERR_NONE)
     \<and> (enforce_csrattrs ctx \<longrightarrow> est_server_all_csrattrs_present ossl a ctx body peer_cert = Done EST_ERR_NONE)"

lemma auth_error_None: "auth_error st = None \<longleftrightarrow> st \<in> {EST_HTTP_AUTH, EST_SRP_AUTH, EST_CERT_AUTH}"
  by (cases st) (simp_all add: auth_error_def)

lemma enroll_auth_authorized:
  assumes "est_enroll_auth ossl ctx ssl path_seg enroll_req csr_buf w = Some (st, csr, w')" and "auth_error st = None"
  shows "authorized ossl ctx ssl path_seg (conn w)"
proof -
  have "st = EST_HTTP_AUTH \<or> st = EST_SRP_AUTH \<or> st = EST_CERT_AUTH" using assms(2) by (simp add: auth_error_None)
  then show ?thesis using est_enroll_auth_policy [OF assms(1)] unfolding authorized_def by blast
qed

lemma brski_auth_authorized:
  assumes "est_brski_auth ossl ctx ssl path_seg w = Some (st, w')"
    and "st = EST_HTTP_AUTH \<or> st = EST_SRP_AUTH \<or> st = EST_CERT_AUTH"
  shows "authorized ossl ctx ssl path_seg (conn w)"
  using est_brski_auth_policy [OF assms(1)] assms(2) unfolding authorized_def by blast

lemma handle_enhanced_cert_auth_csr:
  "handle_enhanced_cert_auth ossl ctx ssl peer csr_buf ah f = (pr, Some csr, ah') \<Longrightarrow>
     est_server_parse_csr ossl True csr_buf = Some csr"
  by (auto simp: handle_enhanced_cert_auth_def Let_def split: option.splits prod.splits if_split_asm)

lemma est_enroll_auth_csr:
  assumes "est_enroll_auth ossl ctx ssl path_seg enroll_req csr_buf w = Some (st, Some csr, w')"
  shows "est_server_parse_csr ossl True csr_buf = Some csr"
  using assms unfolding est_enroll_auth_def Let_def
  by (auto simp: bind_eq_Some_conv split: prod.splits if_split_asm EST_HTTP_AUTH_HDR_RESULT.splits option.splits
      dest: handle_enhanced_cert_auth_csr)

lemma request_checks_ok:
  assumes "request_checks ossl a ctx ssl peer_cert csr body = Some EST_ERR_NONE" and "est_server_check_csr ossl csr = 0"
  shows "request_ok ossl a ctx ssl peer_cert csr body"
  using assms unfolding request_checks_def request_ok_def Let_def
  by (auto simp: bind_eq_Some_conv split: if_split_asm outcome.splits option.splits)

lemma admit_ok:
  assumes "admit ossl ctx ssl path_seg enroll_req body w = Some (r, w1)"
  shows "cbs w1 = cbs w
    \<and> (\<forall>csr. r = Inr csr \<longrightarrow> authorized ossl ctx ssl path_seg (conn w) \<and> est_server_parse_csr ossl True body = Some csr)"
proof -
  from assms obtain st csr0 where auth: "est_enroll_auth ossl ctx ssl path_seg enroll_req body w = Some (st, csr0, w1)"
    by (auto simp: admit_def bind_eq_Some_conv split: option.splits if_split_asm)
  then show ?thesis
    using assms cbs_est_enroll_auth [OF auth] enroll_auth_authorized [OF auth] est_enroll_auth_csr
    by (cases csr0) (auto simp: admit_def split: option.splits)
qed

lemma cbs_simple_enroll_ca:
  "simple_enroll_ca ctx cb enroll_req body peer_cert path_seg w = (rv, cert, w') \<Longrightarrow>
     cbs w' = cbs w @ [Cb_Enroll enroll_req body]"
  by (auto simp: simple_enroll_ca_def Let_def simp del: write_all.simps
      split: prod.splits if_split_asm dest!: cbs_write_all)

lemma cbs_keygen_enroll:
  "keygen_enroll ctx cb body key peer_cert path_seg w = (rv, cert, w') \<Longrightarrow>
     cbs w' = cbs w @ [Cb_Enroll SERVERKEYGEN_REQ body]"
  by (auto simp: keygen_enroll_def Let_def simp del: write_all.simps
      split: prod.splits if_split_asm dest!: cbs_write_all)

lemma simple_enroll_gate:
  assumes "est_handle_simple_enroll ossl a ctx ssl peer_cert ct body path_seg enroll_req w = Some (rv, cert, w')"
  shows "cbs w' = cbs w
    \<or> cbs w' = cbs w @ [Cb_Enroll enroll_req body] \<and> authorized ossl ctx ssl path_seg (conn w)
      \<and> (\<exists>csr. est_server_parse_csr ossl True body = Some csr \<and> request_ok ossl a ctx ssl peer_cert csr body)"
proof (rule ccontr)
  assume neg: "\<not> ?thesis"
  from assms neg obtain cb r w1 where adm: "admit ossl ctx ssl path_seg enroll_req body w = Some (r, w1)"
    and rest: "(case r of Inl e \<Rightarrow> Some (e, None, w1)
        | Inr csr \<Rightarrow> if est_server_check_csr ossl csr \<noteq> 0 then Some (EST_ERR_BAD_PKCS10, None, w1)
                     else do { chk \<leftarrow> request_checks ossl a ctx ssl peer_cert csr body;
                               if chk \<noteq> EST_ERR_NONE then Some (chk, None, w1)
                               else Some (simple_enroll_ca ctx cb enroll_req body peer_cert path_seg w1) }) = Some (rv, cert, w')"
    unfolding est_handle_simple_enroll_def
    by (auto simp: bind_eq_Some_conv [of "admit _ _ _ _ _ _ _"] split: if_split_asm option.split_asm)
  from adm have adm': "cbs w1 = cbs w" "\<And>csr. r = Inr csr \<Longrightarrow> authorized ossl ctx ssl path_seg (conn w)
      \<and> est_server_parse_csr ossl True body = Some csr"
    using admit_ok by blast+
  have "w' \<noteq> w1" using neg adm'(1) by auto
  with rest obtain csr where "r = Inr csr" "est_server_check_csr ossl csr = 0"
    "request_checks ossl a ctx ssl peer_cert csr body = Some EST_ERR_NONE"
    "simple_enroll_ca ctx cb enroll_req body peer_cert path_seg w1 = (rv, cert, w')"
    by (auto simp: bind_eq_Some_conv split: sum.split_asm if_split_asm)
  then show False
    using neg adm' cbs_simple_enroll_ca request_checks_ok by metis
qed

lemma keygen_gate:
  assumes "est_handle_server_keygen ossl a ctx ssl peer_cert ct body path_seg w = Some (rv, res, w')"
  shows "cbs w' = cbs w
    \<or> authorized ossl ctx ssl path_seg (conn w)
      \<and> (\<exists>csr. est_server_parse_csr ossl True body = Some csr
           \<and> (cbs w' = cbs w @ [Cb_Keygen]
              \<or> (\<exists>key csr1. rekey_request ossl csr key = Inr csr1
                   \<and> request_ok ossl a ctx ssl peer_cert csr1 (i2d_X509_REQ_b64 ossl csr1)
                   \<and> cbs w' = cbs w @ [Cb_Keygen, Cb_Enroll SERVERKEYGEN_REQ (i2d_X509_REQ_b64 ossl csr1)])))"
proof (rule ccontr)
  assume neg: "\<not> ?thesis"
  have early: "w' \<noteq> w" using neg by auto
  obtain cb rv0 priv_key where cbs: "est_server_keygen_pkcs10_cb ctx = Some cb" "keygen_cb ctx = Some (rv0, priv_key)"
    using assms early unfolding est_handle_server_keygen_def by (auto split: option.split_asm)
  define T where "T = (transport_mode ctx = EST_HTTP \<and> strncmp ct ''application/pkcs10'' 18 \<noteq> 0)"
  have "\<not> T" using assms early cbs unfolding est_handle_server_keygen_def T_def [symmetric] by auto
  then obtain r w1 where adm: "admit ossl ctx ssl path_seg SERVERKEYGEN_REQ body w = Some (r, w1)"
    using assms cbs unfolding est_handle_server_keygen_def T_def [symmetric]
    by (auto simp: bind_eq_Some_conv [of "admit _ _ _ _ _ _ _"])
  have w1: "cbs w1 = cbs w" and ok: "\<And>csr. r = Inr csr \<Longrightarrow> authorized ossl ctx ssl path_seg (conn w)
      \<and> est_server_parse_csr ossl True body = Some csr"
    using admit_ok [OF adm] by blast+
  note run = assms [unfolded est_handle_server_keygen_def cbs T_def [symmetric], simplified \<open>\<not> T\<close> adm, simplified]
  obtain csr where csr: "r = Inr csr" using run neg w1 by (cases r) auto
  have ne: "w' \<noteq> emit Cb_Keygen w1" using neg w1 ok [OF csr] by auto
  obtain key where key: "priv_key = Some key" "rv0 = EST_ERR_NONE"
    using run ne unfolding csr by (cases priv_key) (auto simp: Let_def split: if_split_asm)
  from run ne obtain csr1 k where rk: "rekey_request ossl csr key = Inr csr1"
    and chk: "request_checks ossl a ctx ssl peer_cert csr1 (i2d_X509_REQ_b64 ossl csr1) = Some EST_ERR_NONE"
    and fin: "keygen_enroll ctx cb (i2d_X509_REQ_b64 ossl csr1) k peer_cert path_seg (emit Cb_Keygen w1) = (rv, res, w')"
    unfolding csr key by (cases "rekey_request ossl csr key") (auto simp: Let_def bind_eq_Some_conv split: if_split_asm)
  have "est_server_check_csr ossl csr1 = 0" using rk by (auto simp: rekey_request_def split: option.split_asm if_split_asm)
  then show False
    using neg ok [OF csr] rk request_checks_ok [OF chk] cbs_keygen_enroll [OF fin] w1 by auto
qed

lemma cbs_est_handle_cacerts: "est_handle_cacerts c w = (rv, w') \<Longrightarrow> cbs w' = cbs w"
  by (auto simp: est_handle_cacerts_def simp del: write_all.simps split: option.split_asm dest: cbs_write_all)

lemma cbs_est_server_handle_cacerts: "est_server_handle_cacerts ctx seg w = (rv, ctx', w') \<Longrightarrow> cbs w' = cbs w"
  by (auto simp: est_server_handle_cacerts_def split: option.split_asm EST_TRANSPORT_MODE.split_asm if_split_asm prod.split_asm
      dest: cbs_est_handle_cacerts)

lemma cbs_est_send_csrattr_data: "est_send_csrattr_data ctx d w = (rv, w') \<Longrightarrow> cbs w' = cbs w"
  by (auto simp: est_send_csrattr_data_def simp del: write_all.simps split: option.split_asm if_split_asm dest: cbs_write_all)

lemma cbs_deliver_csrattrs: "deliver_csrattrs ctx d w = Some (rv, ret, ctx', w') \<Longrightarrow> cbs w' = cbs w"
  by (auto simp: deliver_csrattrs_def split: EST_TRANSPORT_MODE.split_asm prod.split_asm dest: cbs_est_send_csrattr_data)

lemma cbs_est_handle_csr_attrs:
  assumes "est_handle_csr_attrs ossl a ctx peer seg w = Some (rv, ret, ctx', w')"
  shows "cbs w' = cbs w"
  using assms unfolding est_handle_csr_attrs_def Let_def
  by (auto simp: bind_eq_Some_conv split: if_split_asm option.split_asm dest: cbs_deliver_csrattrs)

lemma brski_gate:
  "est_brski_handle_voucher_req ossl ctx ssl ct body path_seg w = Some (rv, w') \<Longrightarrow>
     cbs w' = cbs w \<or> authorized ossl ctx ssl path_seg (conn w)"
  "brski_status cb ossl ctx ssl ct body path_seg w = Some (rv, w') \<Longrightarrow>
     cbs w' = cbs w \<or> authorized ossl ctx ssl path_seg (conn w)"
  unfolding est_brski_handle_voucher_req_def brski_status_def
  by (auto simp: bind_eq_Some_conv split: option.split_asm if_split_asm
      dest: cbs_est_brski_auth brski_auth_authorized)

lemma finish_cbs: "finish ctx rc sent w = Some (rv, ctx', w') \<Longrightarrow> cbs w' = cbs w"
  by (auto simp: finish_def split: if_split_asm)

lemma fail_with_cbs: "fail_with ctx e w = Some (rv, ctx', w') \<Longrightarrow> cbs w' = cbs w"
  by (auto simp: fail_with_def)

lemma http_request_gate:
  assumes run: "est_http_request b ossl a ctx conn_ssl method req_uri body ct w = Some (rv, ctx', w')"
    and cb: "cbs w' \<noteq> cbs w"
  shows "\<exists>ssl op seg. conn_ssl = Some ssl \<and> est_mode ctx = EST_SERVER
    \<and> build_parse_uri b req_uri = Some (EST_ERR_NONE, Some op, seg) \<and> op \<noteq> EST_OP_CACERTS \<and> op \<noteq> EST_OP_CSRATTRS
    \<and> strncmp method ''POST'' 4 = 0 \<and> ct \<noteq> None \<and> authorized ossl ctx ssl seg (conn w)"
proof -
  have mode: "est_mode ctx = EST_SERVER" using run cb by (auto simp: est_http_request_def split: if_split_asm)
  obtain ssl where ssl: "conn_ssl = Some ssl"
    using run cb mode by (auto simp: est_http_request_def dest!: fail_with_cbs split: option.split_asm)
  from run mode ssl obtain rv0 op seg where uri: "build_parse_uri b req_uri = Some (rv0, op, seg)"
    by (auto simp: est_http_request_def bind_eq_Some_conv [of "build_parse_uri _ _"])
  have ok: "rv0 = EST_ERR_NONE" using run cb mode ssl uri by (cases "rv0 = EST_ERR_NONE") (auto simp: est_http_request_def dest!: fail_with_cbs)
  from run mode ssl uri ok obtain operation where op: "op = Some operation"
    by (auto simp: est_http_request_def bind_eq_Some_conv [of op])
  note run' = run [unfolded est_http_request_def, simplified mode ssl uri ok op, simplified]
  have cacerts: "cbs w2 = cbs w" if "http_cacerts ctx method seg w = Some (rv, ctx', w2)" for w2
    using that by (auto simp: http_cacerts_def split: if_split_asm prod.split_asm
        dest!: fail_with_cbs cbs_est_server_handle_cacerts)
  have csrattrs: "cbs w2 = cbs w" if "http_csrattrs ossl a ctx ssl method seg w = Some (rv, ctx', w2)" for w2
    using that by (auto simp: http_csrattrs_def bind_eq_Some_conv split: if_split_asm
        dest!: fail_with_cbs cbs_est_handle_csr_attrs)
  have enroll: "strncmp method ''POST'' 4 = 0 \<and> ct \<noteq> None \<and> authorized ossl ctx ssl seg (conn w)"
    if "http_enroll ossl a ctx ssl operation method body ct seg w = Some (rv, ctx', w')"
    using that cb by (auto simp: http_enroll_def bind_eq_Some_conv split: if_split_asm option.split_asm
        dest!: fail_with_cbs finish_cbs dest: simple_enroll_gate keygen_gate)
  have brski: "strncmp method ''POST'' 4 = 0 \<and> ct \<noteq> None \<and> authorized ossl ctx ssl seg (conn w)"
    if "http_brski ossl ctx ssl operation method body ct seg w = Some (rv, ctx', w')"
    using that cb
    by (auto simp: http_brski_def est_brski_handle_voucher_status_def est_brski_handle_enroll_status_def bind_eq_Some_conv
        split: if_split_asm option.split_asm EST_OPERATION.split_asm dest!: fail_with_cbs finish_cbs brski_gate)
  show ?thesis
    using run' cb cacerts csrattrs enroll brski mode ssl uri ok op by (auto split: if_split_asm)
qed

lemma conn_mg_printf [simp]: "conn (mg_printf t w) = conn w"
  by (simp add: mg_printf_def mg_write_def Let_def split: prod.split)

lemma status_mg_send_http_error [simp]: "status_code (conn (mg_send_http_error n r bs w)) = n"
  by (simp add: mg_send_http_error_def Let_def)

lemma status_retry: "est_server_send_http_retry_after d w = (rv, w') \<Longrightarrow> status_code (conn w') = 202"
  by (auto simp: est_server_send_http_retry_after_def mg_write_def Let_def split: prod.split_asm if_split_asm)

lemma http_error_response_unknown: "fst (http_error_response EST_ERR_UNKNOWN) = 500"
  by (simp add: http_error_response_def)

lemma status_est_send_http_error:
  "e \<noteq> EST_ERR_CA_ENROLL_RETRY \<Longrightarrow> status_code (conn (est_send_http_error ctx e w)) = fst (http_error_response e)"
  by (simp add: est_send_http_error_def split: prod.split)

lemma status_est_send_http_retry: "status_code (conn (est_send_http_error ctx EST_ERR_CA_ENROLL_RETRY w)) \<in> {202, 500}"
  using http_error_response_unknown
  by (auto simp: est_send_http_error_def Let_def split: prod.splits EST_MODE.split dest: status_retry)

lemma http_error_response_status: "e \<noteq> EST_ERR_HTTP_NO_CONTENT \<Longrightarrow> fst (http_error_response e) \<ge> 400"
  by (cases e) (simp_all add: http_error_response_def)

lemma error_closes: "status_code c = 202 \<or> 400 \<le> status_code c \<Longrightarrow> \<not> should_keep_alive c"
  by (auto simp: should_keep_alive_def Let_def)

lemma send_error_closes:
  "e \<noteq> EST_ERR_HTTP_NO_CONTENT \<Longrightarrow> \<not> should_keep_alive (conn (est_send_http_error ctx e w))"
  using status_est_send_http_error [of e ctx w] status_est_send_http_retry [of ctx w] http_error_response_status [of e]
  by (cases "e = EST_ERR_CA_ENROLL_RETRY") (auto intro!: error_closes)

text \<open>An error that ends a request was sent to the client, translated for BRSKI.\<close>

definition reported :: "bool \<Rightarrow> EST_CTX \<Rightarrow> EST_ERROR \<Rightarrow> HTTP_CTX \<Rightarrow> bool" where
  "reported brski ctx rv w' \<longleftrightarrow> rv = EST_ERR_NONE
     \<or> (\<exists>e w1. w' = est_send_http_error ctx e w1
          \<and> (e = rv \<or> brski \<and> e = (if rv = EST_ERR_AUTH_FAIL then EST_ERR_AUTH_FAIL else EST_ERR_BAD_PKCS10)))"

lemma fail_with_reported: "fail_with ctx e w = Some (rv, ctx', w') \<Longrightarrow> reported b ctx' rv w'"
  by (auto simp: fail_with_def reported_def)

lemma finish_reported:
  "finish ctx rc rc w = Some (rv, ctx', w') \<Longrightarrow> reported b ctx' rv w'"
  "finish ctx rc (if rc = EST_ERR_AUTH_FAIL then EST_ERR_AUTH_FAIL else EST_ERR_BAD_PKCS10) w = Some (rv, ctx', w')
    \<Longrightarrow> reported True ctx' rv w'"
  by (auto simp: finish_def reported_def split: if_split_asm)

lemma http_request_reported:
  assumes run: "est_http_request b ossl a ctx conn_ssl method req_uri body ct w = Some (rv, ctx', w')"
    and "est_mode ctx = EST_SERVER"
  shows "reported (enable_brski b) ctx' rv w'"
proof -
  have cacerts: "reported (enable_brski b) ctx' rv w'" if "http_cacerts ctx method seg w = Some (rv, ctx', w')" for seg
    using that by (auto simp: http_cacerts_def reported_def [of _ _ EST_ERR_NONE] split: if_split_asm prod.split_asm
        dest: fail_with_reported)
  have csrattrs: "reported (enable_brski b) ctx' rv w'"
    if "http_csrattrs ossl a ctx ssl method seg w = Some (rv, ctx', w')" for ssl seg
    using that by (auto simp: http_csrattrs_def bind_eq_Some_conv reported_def [of _ _ EST_ERR_NONE] split: if_split_asm
        dest: fail_with_reported)
  have enroll: "reported (enable_brski b) ctx' rv w'"
    if "http_enroll ossl a ctx ssl op method body ct seg w = Some (rv, ctx', w')" for ssl op seg
    using that by (auto simp: http_enroll_def bind_eq_Some_conv split: if_split_asm option.split_asm
        dest: fail_with_reported finish_reported(1))
  have brski: "reported True ctx' rv w'"
    if "http_brski ossl ctx ssl op method body ct seg w = Some (rv, ctx', w')" for ssl op seg
    using that by (auto simp: http_brski_def bind_eq_Some_conv
        split: if_split_asm option.split_asm intro: fail_with_reported finish_reported(2))
  have unknown: "reported (enable_brski b) ctx EST_ERR_NONE w2" for w2 by (simp add: reported_def)
  show ?thesis
    using run assms(2) cacerts csrattrs enroll brski unknown unfolding est_http_request_def
    by (auto simp: bind_eq_Some_conv split: option.split_asm if_split_asm dest: fail_with_reported)
qed

section \<open>Properties\<close>

text \<open>C1: no callback of the application acts for a client that is not authorised. When a request makes the
  server run an enrollment, key generation or BRSKI callback, it came over TLS by POST with a content
  type, its URI parsed to an operation other than \<^verbatim>\<open>cacerts\<close> and \<^verbatim>\<open>csrattrs\<close>, and the client was authorised by a
  verified certificate, an SRP login, or credentials that the application accepted.\<close>

theorem est_http_request_authorized:
  assumes "est_http_request b ossl a ctx conn_ssl method req_uri body ct w = Some (rv, ctx', w')"
    and "cbs w' \<noteq> cbs w"
  shows "\<exists>ssl op seg. conn_ssl = Some ssl \<and> est_mode ctx = EST_SERVER
    \<and> build_parse_uri b req_uri = Some (EST_ERR_NONE, Some op, seg) \<and> op \<noteq> EST_OP_CACERTS \<and> op \<noteq> EST_OP_CSRATTRS
    \<and> strncmp method ''POST'' 4 = 0 \<and> ct \<noteq> None \<and> authorized ossl ctx ssl seg (conn w)"
  using assms by (rule http_request_gate)

definition sample_build :: build where
  "sample_build = \<lparr>uriparser = None, enable_brski = True\<rparr>"

theorem est_http_request_authorized_witness:
  "\<exists>ctx' w'. est_http_request sample_build sample_ossl der_asn1 sample_ctx (Some sample_ssl) ''POST''
      ''/.well-known/est/simpleenroll'' ''csr'' (Some ''application/pkcs10'') sample_http = Some (EST_ERR_NONE, ctx', w')
    \<and> cbs w' = [Cb_Enroll SIMPLE_ENROLL_REQ ''csr''] \<and> authorized sample_ossl sample_ctx sample_ssl None (conn sample_http)"
proof -
  let ?r = "est_http_request sample_build sample_ossl der_asn1 sample_ctx (Some sample_ssl) ''POST''
      ''/.well-known/est/simpleenroll'' ''csr'' (Some ''application/pkcs10'') sample_http"
  have "map_option (\<lambda>(rv, _, w'). (rv, cbs w')) ?r = Some (EST_ERR_NONE, [Cb_Enroll SIMPLE_ENROLL_REQ ''csr''])"
    by code_simp
  then obtain ctx' w' where run: "?r = Some (EST_ERR_NONE, ctx', w')" "cbs w' = [Cb_Enroll SIMPLE_ENROLL_REQ ''csr'']"
    by auto
  moreover have "cbs sample_http = []" by code_simp
  moreover have "build_parse_uri sample_build ''/.well-known/est/simpleenroll'' = Some (EST_ERR_NONE, Some EST_OP_SIMPLE_ENROLL, None)"
    by code_simp
  ultimately show ?thesis using est_http_request_authorized [OF run(1)] by auto
qed

text \<open>C3: the enrollment handler runs at most one callback, the CA callback with the body the client sent, and
  only for an authorised client, a request that parses, a signature that verifies, a proof of
  possession that holds (unless the client is a registration authority), and all enforced attributes.\<close>

theorem est_handle_simple_enroll_gate:
  assumes "est_handle_simple_enroll ossl a ctx ssl peer_cert ct body path_seg enroll_req w = Some (rv, cert, w')"
  shows "cbs w' = cbs w
    \<or> cbs w' = cbs w @ [Cb_Enroll enroll_req body] \<and> authorized ossl ctx ssl path_seg (conn w)
      \<and> (\<exists>csr. est_server_parse_csr ossl True body = Some csr \<and> request_ok ossl a ctx ssl peer_cert csr body)"
  using assms by (rule simple_enroll_gate)

theorem est_handle_simple_enroll_gate_witness:
  "request_ok sample_ossl der_asn1 sample_ctx sample_ssl (Some 3) 5 ''csr''"
proof -
  let ?r = "est_handle_simple_enroll sample_ossl der_asn1 sample_ctx sample_ssl (Some 3) ''application/pkcs10'' ''csr''
      None REENROLL_REQ sample_http"
  have "map_option (\<lambda>(rv, _, w'). cbs w') ?r = Some [Cb_Enroll REENROLL_REQ ''csr'']"
    by code_simp
  then obtain rv c w' where run: "?r = Some (rv, c, w')" "cbs w' = [Cb_Enroll REENROLL_REQ ''csr'']"
    by auto
  moreover have "cbs sample_http = []" by code_simp
  moreover have "est_server_parse_csr sample_ossl True ''csr'' = Some 5" by code_simp
  ultimately show ?thesis using est_handle_simple_enroll_gate [OF run(1)] by auto
qed

text \<open>C4: server-side key generation. A key is generated only for an authorised client whose request parses, and
  the CA callback runs at most once, after it, on the request with the new public key and a signature
  that verifies, under the same checks as an enrollment.\<close>

theorem est_handle_server_keygen_gate:
  assumes "est_handle_server_keygen ossl a ctx ssl peer_cert ct body path_seg w = Some (rv, res, w')"
  shows "cbs w' = cbs w
    \<or> authorized ossl ctx ssl path_seg (conn w)
      \<and> (\<exists>csr. est_server_parse_csr ossl True body = Some csr
           \<and> (cbs w' = cbs w @ [Cb_Keygen]
              \<or> (\<exists>key csr1. rekey_request ossl csr key = Inr csr1
                   \<and> request_ok ossl a ctx ssl peer_cert csr1 (i2d_X509_REQ_b64 ossl csr1)
                   \<and> cbs w' = cbs w @ [Cb_Keygen, Cb_Enroll SERVERKEYGEN_REQ (i2d_X509_REQ_b64 ossl csr1)])))"
  using assms by (rule keygen_gate)

definition sample_keygen_ctx :: EST_CTX where
  "sample_keygen_ctx = sample_ctx\<lparr>est_server_keygen_pkcs10_cb := Some (\<lambda>_ k _ _ _. (EST_ERR_NONE, ''cert'', k)),
     keygen_cb := Some (EST_ERR_NONE, Some 1)\<rparr>"

theorem est_handle_server_keygen_gate_witness:
  "authorized sample_ossl sample_keygen_ctx sample_ssl None (conn sample_http)"
proof -
  let ?r = "est_handle_server_keygen sample_ossl der_asn1 sample_keygen_ctx sample_ssl (Some 3) ''application/pkcs10'' ''csr''
      None sample_http"
  have "map_option (\<lambda>(rv, _, w'). cbs w') ?r = Some [Cb_Keygen, Cb_Enroll SERVERKEYGEN_REQ ''csr'']"
    by code_simp
  then obtain rv c w' where run: "?r = Some (rv, c, w')" "cbs w' = [Cb_Keygen, Cb_Enroll SERVERKEYGEN_REQ ''csr'']"
    by auto
  moreover have "cbs sample_http = []" by code_simp
  ultimately show ?thesis using est_handle_server_keygen_gate [OF run(1)] by auto
qed



end
