(* ===== verification/Http_Client.thy ===== *)
theory Http_Client
  imports Est_Ctx
begin

text \<open>
  The HTTP side of the client (\<^verbatim>\<open>src/src/est/est_client_http.c\<close>): reading a response, its status line and
  headers, the authentication request, the retry delay and the content headers.

  \<^verbatim>\<open>raw_buf\<close> is a memory of \<^verbatim>\<open>EST_CA_MAX\<close> bytes, zero behind the bytes that were read. A header is a
  pair of addresses in it; \<open>hdr_strings\<close> are the strings that start there. \<^term>\<open>None\<close> is an access outside
  the buffer, or a number that C leaves undefined. The members of \<^verbatim>\<open>EST_CTX\<close> that this part uses are
  \<open>CLIENT_CTX\<close>.
\<close>

section \<open>The context\<close>

definition MAX_REALM :: nat where "MAX_REALM = 255"
definition MAX_NONCE :: nat where "MAX_NONCE = 64"
definition MAX_TOKEN_ERROR :: nat where "MAX_TOKEN_ERROR = 255"
definition MAX_TOKEN_ERROR_DESC :: nat where "MAX_TOKEN_ERROR_DESC = 255"
definition EST_CA_MAX :: nat where "EST_CA_MAX = 2000000"
definition MAX_HEADERS :: nat where "MAX_HEADERS = 16"
definition INT_MAX :: int where "INT_MAX = 2 ^ 31 - 1"
definition INT_MIN :: int where "INT_MIN = - (2 ^ 31)"
definition LLONG_MAX :: int where "LLONG_MAX = 2 ^ 63 - 1"

record CLIENT_CTX =
  cl_auth_mode :: EST_HTTP_AUTH_MODE
  cl_realm :: mem
  s_nonce :: mem
  token_error :: mem
  token_error_desc :: mem
  cl_retry_after_delay :: int
  retry_after_date :: int
  last_http_status :: int

section \<open>Fields of a header\<close>

definition field_delim :: "char \<Rightarrow> bool" where
  "field_delim c \<longleftrightarrow> isspace c \<or> c = CHR '','' \<or> c = CHR '';'' \<or> c = CHR ''=''"

text \<open>The scans of \<^verbatim>\<open>HTNextField\<close>: over delimiters, over a quoted text, over a word.\<close>

function skip_delims :: "mem \<Rightarrow> nat \<Rightarrow> nat option" where
  "skip_delims m p =
     (if p < length m then if m ! p \<noteq> NUL \<and> field_delim (m ! p) then skip_delims m (p + 1) else Some p
      else None)"
  by pat_completeness auto
termination by (relation "measure (\<lambda>(m, p). length m - p)") auto

function skip_word_chars :: "mem \<Rightarrow> nat \<Rightarrow> nat option" where
  "skip_word_chars m p =
     (if p < length m then if m ! p \<noteq> NUL \<and> \<not> field_delim (m ! p) then skip_word_chars m (p + 1) else Some p
      else None)"
  by pat_completeness auto
termination by (relation "measure (\<lambda>(m, p). length m - p)") auto

function skip_to :: "char \<Rightarrow> mem \<Rightarrow> nat \<Rightarrow> nat option" where
  "skip_to close m p =
     (if p < length m then
        if m ! p = NUL \<or> m ! p = close then Some p
        else if m ! p = CHR 0x5C then
          if p + 1 < length m then skip_to close m (if m ! (p + 1) \<noteq> NUL then p + 2 else p + 1) else None
        else skip_to close m (p + 1)
      else None)"
  by pat_completeness auto
termination by (relation "measure (\<lambda>(close, m, p). length m - p)") auto

declare skip_delims.simps [simp del] skip_word_chars.simps [simp del] skip_to.simps [simp del]

lemma skip_delims_ge: "skip_delims m p = Some q \<Longrightarrow> p \<le> q \<and> q < length m"
proof (induction m p rule: skip_delims.induct)
  case (1 m p)
  from 1(2) show ?case by (subst (asm) skip_delims.simps) (use 1(1) in \<open>fastforce split: if_splits\<close>)
qed

lemma skip_to_ge: "skip_to c m p = Some q \<Longrightarrow> p \<le> q \<and> q < length m"
proof (induction c m p rule: skip_to.induct)
  case (1 c m p)
  from 1(3) show ?case by (subst (asm) skip_to.simps) (use 1(1,2) in \<open>fastforce split: if_splits\<close>)
qed

text \<open>
  The loop of \<^verbatim>\<open>HTNextField\<close>: the end of the field and its start. After a comment the scan goes on one
  byte behind its closing parenthesis, or behind the terminator when there is none.
\<close>

function next_field :: "mem \<Rightarrow> nat \<Rightarrow> (nat \<times> nat option) option" where
  "next_field m p =
     (case skip_delims m p of
        None \<Rightarrow> None
      | Some q \<Rightarrow>
          if m ! q = NUL then Some (q, None)
          else if m ! q = DQUOTE then map_option (\<lambda>e. (e, Some (q + 1))) (skip_to DQUOTE m (q + 1))
          else if m ! q = CHR ''<'' then map_option (\<lambda>e. (e, Some (q + 1))) (skip_to (CHR ''>'') m (q + 1))
          else if m ! q = CHR ''('' then (case skip_to (CHR '')'') m q of None \<Rightarrow> None | Some e \<Rightarrow> next_field m (e + 1))
          else map_option (\<lambda>e. (e, Some q)) (skip_word_chars m q))"
  by pat_completeness auto
termination
proof (relation "measure (\<lambda>(m, p). length m - p)", goal_cases)
  case (2 m p q e)
  then show ?case using skip_delims_ge [of m p q] skip_to_ge [of "CHR '')''" m q e] by auto
qed auto

declare next_field.simps [simp del]

text \<open>The memory with the field cut out, the new cursor and the start of the field.\<close>

definition HTNextField :: "mem \<Rightarrow> nat \<Rightarrow> (mem \<times> nat \<times> nat option) option" where
  "HTNextField m p =
     (case next_field m p of
        None \<Rightarrow> None
      | Some (e, None) \<Rightarrow> Some (m, e, None)
      | Some (e, Some start) \<Rightarrow>
          if e < length m then if m ! e \<noteq> NUL then Some (m[e := NUL], e + 1, Some start) else Some (m, e, Some start)
          else None)"

section \<open>The authentication request\<close>

text \<open>One token: the memory and the cursor behind it, whether it is valid, and the context.\<close>

definition copy_token ::
  "(mem \<Rightarrow> CLIENT_CTX \<Rightarrow> CLIENT_CTX) \<Rightarrow> mem \<Rightarrow> nat \<Rightarrow> mem \<Rightarrow> nat \<Rightarrow> CLIENT_CTX
     \<Rightarrow> (mem \<times> nat \<times> bool \<times> CLIENT_CTX) option" where
  "copy_token upd dest dmax m p ctx =
     (case HTNextField m p of
        None \<Rightarrow> None
      | Some (m', p', None) \<Rightarrow> Some (m', p', False, ctx)
      | Some (m', p', Some v) \<Rightarrow>
          (case strcpy_s (Some dest) dmax (Some (drop v m')) of
             Some (Some d, EOK) \<Rightarrow> Some (m', p', True, upd d ctx)
           | Some _ \<Rightarrow> Some (m', p', False, ctx)
           | None \<Rightarrow> None))"

definition auth_param :: "mem \<Rightarrow> nat \<Rightarrow> string \<Rightarrow> CLIENT_CTX \<Rightarrow> (mem \<times> nat \<times> bool \<times> CLIENT_CTX) option" where
  "auth_param m p token ctx =
     (if est_strcasecmp_s token ''realm'' = 0
        then copy_token (\<lambda>d c. c\<lparr>cl_realm := d\<rparr>) (cl_realm ctx) MAX_REALM m p ctx
      else if est_strcasecmp_s token ''nonce'' = 0
        then copy_token (\<lambda>d c. c\<lparr>s_nonce := d\<rparr>) (s_nonce ctx) MAX_NONCE m p ctx
      else if est_strcasecmp_s token ''qop'' = 0 then
        (case HTNextField m p of
           None \<Rightarrow> None
         | Some (m', p', None) \<Rightarrow> Some (m', p', False, ctx)
         | Some (m', p', Some v) \<Rightarrow>
             if rd m' v = Some NUL then Some (m', p', True, ctx)
             else (case memcmp_s (Some (drop v m')) 5 (Some (''auth'' @ [NUL])) 5 of
                     None \<Rightarrow> None | Some _ \<Rightarrow> Some (m', p', True, ctx)))
      else if est_strcasecmp_s token ''algorithm'' = 0 then
        (case HTNextField m p of
           None \<Rightarrow> None
         | Some (m', p', None) \<Rightarrow> Some (m', p', True, ctx)
         | Some (m', p', Some v) \<Rightarrow> Some (m', p', est_strcasecmp_s (drop v m') ''md5'' = 0, ctx))
      else if est_strcasecmp_s token ''error'' = 0
        then copy_token (\<lambda>d c. c\<lparr>token_error := d\<rparr>) (token_error ctx) MAX_TOKEN_ERROR m p ctx
      else if est_strcasecmp_s token ''error_description'' = 0
        then copy_token (\<lambda>d c. c\<lparr>token_error_desc := d\<rparr>) (token_error_desc ctx) MAX_TOKEN_ERROR_DESC m p ctx
      else Some (m, p, True, ctx))"

lemma skip_word_chars_ge: "skip_word_chars m p = Some q \<Longrightarrow> p \<le> q \<and> q < length m"
proof (induction m p rule: skip_word_chars.induct)
  case (1 m p)
  from 1(2) show ?case by (subst (asm) skip_word_chars.simps) (use 1(1) in \<open>fastforce split: if_splits\<close>)
qed

lemma field_delim_NUL [simp]: "\<not> field_delim NUL"
  by (simp add: field_delim_def)

lemma skip_delims_stop: "skip_delims m p = Some q \<Longrightarrow> \<not> field_delim (m ! q)"
proof (induction m p rule: skip_delims.induct)
  case (1 m p)
  from 1(2) show ?case by (subst (asm) skip_delims.simps) (use 1(1) in \<open>auto split: if_splits\<close>)
qed

lemma next_field_ge: "next_field m p = Some (e, s) \<Longrightarrow> p \<le> e \<and> e < length m \<and> (s \<noteq> None \<longrightarrow> p < e \<or> m ! e \<noteq> NUL)"
proof (induction m p rule: next_field.induct)
  case (1 m p)
  obtain q where q: "skip_delims m p = Some q" using 1(2) by (subst (asm) next_field.simps) (auto split: option.splits)
  note le = skip_delims_ge [OF q]
  have word: "q < e" if "skip_word_chars m q = Some e" "m ! q \<noteq> NUL" for e
    using that skip_delims_stop [OF q] skip_word_chars_ge [of m "q + 1" e] le
    by (subst (asm) skip_word_chars.simps) (auto split: if_splits)
  show ?case
  proof (cases "m ! q = CHR ''(''")
    case True
    then obtain e' where e': "skip_to (CHR '')'') m q = Some e'" "next_field m (e' + 1) = Some (e, s)"
      using 1(2) q by (subst (asm) next_field.simps) (auto split: option.splits)
    with 1(1) [OF q _ _ _ True e'(1) e'(2)] True skip_to_ge [OF e'(1)] le show ?thesis by auto
  next
    case False
    then show ?thesis
      using 1(2) q le skip_to_ge [of _ m "q + 1" e] skip_word_chars_ge [of m q e] word [of e]
      by (subst (asm) next_field.simps) (force split: if_splits)
  qed
qed

lemma HTNextField_progress:
  assumes "HTNextField m p = Some (m', p', s)"
  shows "length m' = length m" "p \<le> p'" "p' \<le> length m" "s \<noteq> None \<Longrightarrow> p < p' \<and> p < length m"
proof -
  obtain e s' where n: "next_field m p = Some (e, s')"
    using assms by (cases "next_field m p") (auto simp: HTNextField_def)
  note ge = next_field_ge [OF n]
  show "length m' = length m" "p \<le> p'" "p' \<le> length m" "s \<noteq> None \<Longrightarrow> p < p' \<and> p < length m"
    using assms n ge by (cases s'; auto simp: HTNextField_def split: if_splits)+
qed

lemma HTNextField_mono: "HTNextField m p = Some (m', p', s) \<Longrightarrow> length m' = length m \<and> p \<le> p'"
  using HTNextField_progress(1,2) by blast

lemma copy_token_mono: "copy_token upd d n m p ctx = Some (m', p', ok, ctx') \<Longrightarrow> length m' = length m \<and> p \<le> p'"
  by (auto simp: copy_token_def dest!: HTNextField_mono split: option.splits prod.splits errno_t.splits)

lemma auth_param_mono: "auth_param m p token ctx = Some (m', p', ok, ctx') \<Longrightarrow> length m' = length m \<and> p \<le> p'"
  unfolding auth_param_def
  by (auto dest!: HTNextField_mono copy_token_mono split: option.splits prod.splits if_split_asm)

function auth_tokens_loop :: "mem \<Rightarrow> nat \<Rightarrow> CLIENT_CTX \<Rightarrow> (EST_ERROR \<times> CLIENT_CTX) option" where
  "auth_tokens_loop m p ctx =
     (case HTNextField m p of
        None \<Rightarrow> None
      | Some (m1, p1, None) \<Rightarrow> Some (EST_ERR_NONE, ctx)
      | Some (m1, p1, Some t) \<Rightarrow>
          (case auth_param m1 p1 (drop t m1) ctx of
             None \<Rightarrow> None
           | Some (m2, p2, True, ctx') \<Rightarrow> auth_tokens_loop m2 p2 ctx'
           | Some (m2, p2, False, ctx') \<Rightarrow>
               (case memzero_s (Some (s_nonce ctx')) (MAX_NONCE + 1) of
                  Some (Some z, _) \<Rightarrow> Some (EST_ERR_INVALID_TOKEN, ctx'\<lparr>s_nonce := z\<rparr>)
                | _ \<Rightarrow> None)))"
  by pat_completeness auto
termination
proof (relation "measure (\<lambda>(m, p, ctx). length m - p)", goal_cases)
  case (2 m p ctx a m1 b p1 t0 t x m2 y p2 z ok ctx')
  then have "HTNextField m p = Some (m1, p1, Some t)" "auth_param m1 p1 (drop t m1) ctx = Some (m2, p2, True, ctx')"
    by auto
  then show ?case using HTNextField_progress [of m p m1 p1 "Some t"] auth_param_mono by fastforce
qed auto

declare auth_tokens_loop.simps [simp del]

definition est_io_parse_auth_tokens :: "CLIENT_CTX \<Rightarrow> mem \<Rightarrow> (EST_ERROR \<times> CLIENT_CTX) option" where
  "est_io_parse_auth_tokens ctx hdr =
     (case HTNextField hdr 0 of None \<Rightarrow> None | Some (m, p, _) \<Rightarrow> auth_tokens_loop m p ctx)"

text \<open>The first \<^verbatim>\<open>WWW-Authenticate\<close> header decides. The mode is set before the tokens are parsed.\<close>

definition auth_request :: "CLIENT_CTX \<Rightarrow> EST_HTTP_AUTH_MODE \<Rightarrow> mem \<Rightarrow> CLIENT_CTX option" where
  "auth_request ctx am v =
     (case est_io_parse_auth_tokens (ctx\<lparr>cl_auth_mode := am\<rparr>) v of
        None \<Rightarrow> None
      | Some (rv, ctx') \<Rightarrow> Some (if rv \<noteq> EST_ERR_NONE then ctx'\<lparr>cl_auth_mode := AUTH_FAIL\<rparr> else ctx'))"

fun est_io_parse_http_auth_request :: "CLIENT_CTX \<Rightarrow> (mem \<times> mem) list \<Rightarrow> CLIENT_CTX option" where
  "est_io_parse_http_auth_request ctx [] = Some (ctx\<lparr>cl_auth_mode := AUTH_FAIL\<rparr>)"
| "est_io_parse_http_auth_request ctx ((n, v) # hdrs) =
     (if strncmp n ''WWW-Authenticate'' 16 = 0 then
        (if strncmp v ''Basic'' 5 = 0 then auth_request ctx AUTH_BASIC v
         else if strncmp v ''Digest'' 6 = 0 then auth_request ctx AUTH_DIGEST v
         else if strncmp v ''Bearer'' 6 = 0 then auth_request ctx AUTH_TOKEN v
         else Some (ctx\<lparr>cl_auth_mode := AUTH_FAIL\<rparr>))
      else est_io_parse_http_auth_request ctx hdrs)"

section \<open>Numbers, the retry delay and the content headers\<close>

text \<open>
  \<^verbatim>\<open>atoll\<close> and \<^verbatim>\<open>atoi\<close>: white space, a sign, digits. A value outside the type is undefined.
\<close>

fun digits_value :: "string \<Rightarrow> int \<Rightarrow> int" where
  "digits_value [] acc = acc"
| "digits_value (c # s) acc = (if isdigit c then digits_value s (10 * acc + (int (uchr c) - 48)) else acc)"

definition number :: "string \<Rightarrow> int" where
  "number s =
     (let t = dropWhile isspace (cstr s) in
      if hd0 t = CHR ''-'' then - digits_value (tl t) 0
      else if hd0 t = CHR ''+'' then digits_value (tl t) 0 else digits_value t 0)"

definition atoi :: "string \<Rightarrow> int option" where
  "atoi s = (if INT_MIN \<le> number s \<and> number s \<le> INT_MAX then Some (number s) else None)"

definition atoll :: "string \<Rightarrow> int option" where
  "atoll s = (if - LLONG_MAX - 1 \<le> number s \<and> number s \<le> LLONG_MAX then Some (number s) else None)"

fun retry_loop :: "(mem \<times> mem) list \<Rightarrow> EST_ERROR \<Rightarrow> CLIENT_CTX \<Rightarrow> (EST_ERROR \<times> CLIENT_CTX) option" where
  "retry_loop [] rv ctx = Some (rv, ctx)"
| "retry_loop ((n, v) # hdrs) rv ctx =
     (if strcasecmp_s (Some n) 12 (Some ''Retry-After'') False = (EOK, Some 0) then
        if isalpha (hd0 v) then retry_loop hdrs rv ctx
        else if strisdigit_s (Some v) 10 then
          (case atoll v of
             None \<Rightarrow> None
           | Some x \<Rightarrow>
               if x \<le> INT_MAX then retry_loop hdrs EST_ERR_CA_ENROLL_RETRY (ctx\<lparr>cl_retry_after_delay := x\<rparr>)
               else retry_loop hdrs rv ctx)
        else retry_loop hdrs rv ctx
      else retry_loop hdrs rv ctx)"

definition est_io_parse_http_retry_after_resp ::
  "CLIENT_CTX \<Rightarrow> (mem \<times> mem) list \<Rightarrow> (EST_ERROR \<times> CLIENT_CTX) option" where
  "est_io_parse_http_retry_after_resp ctx hdrs =
     retry_loop hdrs EST_ERR_INVALID_RETRY_VALUE (ctx\<lparr>cl_retry_after_delay := 0, retry_after_date := 0\<rparr>)"

text \<open>The content type of the entry of \<^verbatim>\<open>est_op_map\<close> that the operation's number selects.\<close>

fun op_content_type :: "EST_OPERATION \<Rightarrow> string" where
  "op_content_type EST_OP_SIMPLE_ENROLL = ''application/pkcs7-mime; smime-type=certs-only''"
| "op_content_type EST_OP_SIMPLE_REENROLL = ''application/pkcs7-mime; smime-type=certs-only''"
| "op_content_type EST_OP_CACERTS = ''application/pkcs7-mime''"
| "op_content_type EST_OP_CSRATTRS = ''application/csrattrs''"
| "op_content_type EST_OP_SERVER_KEYGEN = ''application/pkcs8''"
| "op_content_type EST_DUMMY_KEYGEN_MAP = ''application/pkcs7-mime''"
| "op_content_type EST_OP_BRSKI_REQ_VOUCHER = ''application/voucher+cms''"
| "op_content_type EST_OP_BRSKI_VOUCHER_STATUS = ''application/json''"
| "op_content_type EST_OP_BRSKI_ENROLL_STATUS = ''application/json''"
| "op_content_type EST_OP_MAX = []"

text \<open>
  The loop over the headers: whether the content type and the length were seen, and the length. A
  comparison covers the terminator of the name.
\<close>

fun check_hdrs_loop :: "string \<Rightarrow> (mem \<times> mem) list \<Rightarrow> bool \<Rightarrow> int option \<Rightarrow> (EST_ERROR \<times> bool \<times> int option) option" where
  "check_hdrs_loop ct [] ct_seen cl = Some (EST_ERR_NONE, ct_seen, cl)"
| "check_hdrs_loop ct ((n, v) # hdrs) ct_seen cl =
     do { (_, is_ct) \<leftarrow> memcmp_s (Some n) 13 (Some (''Content-Type'' @ [NUL])) 13;
          if is_ct = Some True then
            do { (_, same) \<leftarrow> memcmp_s (Some v) (length ct) (Some ct) (length ct);
                 if same \<noteq> Some True then Some (EST_ERR_HTTP_UNSUPPORTED, True, cl)
                 else check_hdrs_loop ct hdrs True cl }
          else
            do { (_, is_cl) \<leftarrow> memcmp_s (Some n) 15 (Some (''Content-Length'' @ [NUL])) 15;
                 if is_cl = Some True then do { x \<leftarrow> atoi v; check_hdrs_loop ct hdrs ct_seen (Some x) }
                 else check_hdrs_loop ct hdrs ct_seen cl } }"

definition est_io_check_http_hdrs :: "(mem \<times> mem) list \<Rightarrow> EST_OPERATION \<Rightarrow> (EST_ERROR \<times> int) option" where
  "est_io_check_http_hdrs hdrs op =
     do { (rv, ct_seen, cl) \<leftarrow> check_hdrs_loop (op_content_type op) hdrs False None;
          let len = (case cl of Some x \<Rightarrow> x | None \<Rightarrow> - 1) in
          Some (if rv \<noteq> EST_ERR_NONE then (rv, len)
                else if \<not> ct_seen then (EST_ERR_HTTP_UNSUPPORTED, len)
                else if cl = None then (EST_ERR_HTTP_UNSUPPORTED, len) else (EST_ERR_NONE, len)) }"

section \<open>Reading a response\<close>

text \<open>
  One call of \<^verbatim>\<open>est_ssl_read\<close>: the result of \<^verbatim>\<open>poll\<close>, and the bytes of \<^verbatim>\<open>SSL_read\<close> or its error. The reads
  that a connection will answer are a list; behind it the connection is closed and a read gives 0 bytes.
\<close>

datatype ssl_read = Poll_Timeout | Poll_Error | Read_Error | Read_Bytes string

definition est_ssl_read :: "ssl_read \<Rightarrow> nat \<Rightarrow> string option" where
  "est_ssl_read r buf_max =
     (case r of Poll_Timeout \<Rightarrow> None | Poll_Error \<Rightarrow> None | Read_Error \<Rightarrow> None
      | Read_Bytes bs \<Rightarrow> Some (take buf_max bs))"

fun read_loop :: "ssl_read list \<Rightarrow> nat \<Rightarrow> string \<Rightarrow> EST_ERROR \<times> string" where
  "read_loop [] buf_max got = (EST_ERR_NONE, got)"
| "read_loop (r # rs) buf_max got =
     (if length got \<ge> buf_max then (EST_ERR_NONE, got)
      else (case est_ssl_read r (buf_max - length got) of
              None \<Rightarrow> (EST_ERR_SSL_READ, got)
            | Some bs \<Rightarrow> if bs = [] then (EST_ERR_NONE, got) else read_loop rs buf_max (got @ bs)))"

text \<open>\<open>peek\<close> is whether \<^verbatim>\<open>SSL_peek\<close> finds (or fails to look for) another byte once the buffer is full.\<close>

definition est_io_read_raw :: "ssl_read list \<Rightarrow> bool \<Rightarrow> nat \<Rightarrow> EST_ERROR \<times> string" where
  "est_io_read_raw rs peek buf_max =
     (let (rv, got) = read_loop rs buf_max [] in
      if rv \<noteq> EST_ERR_NONE then (rv, got)
      else if length got = buf_max \<and> peek then (EST_ERR_READ_BUFFER_TOO_SMALL, got)
      else (EST_ERR_NONE, got))"

text \<open>The status line; the reason phrase of a 202 is copied to a local array that nothing reads.\<close>

definition http_statuses :: "(string \<times> int) list" where
  "http_statuses = [(''HTTP/1.1 200'', 200), (''HTTP/1.1 202'', 202), (''HTTP/1.1 204'', 204), (''HTTP/1.1 400'', 400),
     (''HTTP/1.1 401'', 401), (''HTTP/1.1 404'', 404), (''HTTP/1.1 423'', 423), (''HTTP/1.1 500'', 500),
     (''HTTP/1.1 502'', 502), (''HTTP/1.1 504'', 504)]"

definition est_io_parse_response_status_code :: "mem \<Rightarrow> int" where
  "est_io_parse_response_status_code buf =
     (case kw_find (\<lambda>s k. strncmp s k (length k)) buf http_statuses of Some n \<Rightarrow> n | None \<Rightarrow> - 1)"

fun headers_loop ::
  "nat option \<Rightarrow> nat \<Rightarrow> mem \<Rightarrow> nat \<Rightarrow> (mem \<times> nat \<times> (nat \<times> nat) list) option" where
  "headers_loop hdr_end 0 m p = Some (m, p, [])"
| "headers_loop hdr_end (Suc n) m p =
     do { (m1, p1, name) \<leftarrow> skip_quoted m p '':'' '' '' NUL;
          (m2, p2, val) \<leftarrow> skip m1 p1 CRLF;
          c \<leftarrow> rd m2 name;
          if c = NUL then Some (m2, p2, [])
          else if (case hdr_end of None \<Rightarrow> True | Some e \<Rightarrow> p2 > e) then Some (m2, p2, [(name, val)])
          else do { (m3, p3, hs) \<leftarrow> headers_loop hdr_end n m2 p2; Some (m3, p3, (name, val) # hs) } }"

text \<open>The memory with the headers cut apart, the address of the payload and the headers.\<close>

definition parse_http_headers :: "mem \<Rightarrow> (mem \<times> nat \<times> (nat \<times> nat) list) option" where
  "parse_http_headers m =
     do { (m1, p1, _) \<leftarrow> skip m 0 CRLF;
          headers_loop (snd (strstr_s m (strnlen_s (Some m) RSIZE_MAX_STR) (CRLF @ CRLF) 4)) MAX_HEADERS m1 p1 }"

definition hdr_strings :: "mem \<Rightarrow> (nat \<times> nat) list \<Rightarrow> (mem \<times> mem) list" where
  "hdr_strings m hs = map (\<lambda>(n, v). (drop n m, drop v m)) hs"

text \<open>
  What the status makes of the response before its content is looked at: the error and the context.
\<close>

definition status_result :: "int \<Rightarrow> CLIENT_CTX \<Rightarrow> (mem \<times> mem) list \<Rightarrow> (EST_ERROR \<times> CLIENT_CTX) option" where
  "status_result status ctx hdrs =
     (if status = 200 then Some (EST_ERR_NONE, ctx)
      else if status = 204 then Some (EST_ERR_HTTP_NO_CONTENT, ctx)
      else if status = 404 then Some (EST_ERR_HTTP_NOT_FOUND, ctx)
      else if status = 202 then est_io_parse_http_retry_after_resp ctx hdrs
      else if status = 400 then Some (EST_ERR_HTTP_BAD_REQ, ctx)
      else if status = 401 then
        (if cl_auth_mode ctx = AUTH_DIGEST \<or> cl_auth_mode ctx = AUTH_BASIC \<or> cl_auth_mode ctx = AUTH_TOKEN
         then Some (EST_ERR_AUTH_FAIL, ctx\<lparr>cl_auth_mode := AUTH_FAIL\<rparr>)
         else map_option (Pair EST_ERR_AUTH_FAIL) (est_io_parse_http_auth_request ctx hdrs))
      else if status = 423 then Some (EST_ERR_HTTP_LOCKED, ctx)
      else if status = 500 \<or> status = 502 \<or> status = 504 \<or> status = - 1 then Some (EST_ERR_UNKNOWN, ctx)
      else Some (EST_ERR_HTTP_UNSUPPORTED, ctx))"

text \<open>The content of a response to any operation but server key generation: the error and the payload.\<close>

definition response_content ::
  "EST_OPERATION \<Rightarrow> (mem \<times> mem) list \<Rightarrow> nat \<Rightarrow> mem \<Rightarrow> nat \<Rightarrow> (EST_ERROR \<times> string option) option" where
  "response_content op hdrs raw_len m payload =
     (if op = EST_OP_BRSKI_VOUCHER_STATUS \<or> op = EST_OP_BRSKI_ENROLL_STATUS then Some (EST_ERR_NONE, None)
      else do {
        (rv, len) \<leftarrow> est_io_check_http_hdrs hdrs op;
        if rv \<noteq> EST_ERR_NONE then Some (rv, None)
        else if len > int EST_CA_MAX then Some (EST_ERR_HTTP_UNSUPPORTED, None)
        else if len < 0 then Some (EST_ERR_HTTP_UNSUPPORTED, None)
        else if len \<noteq> int raw_len - int payload then Some (EST_ERR_HTTP_UNSUPPORTED, None)
        else if len = 0 then Some (EST_ERR_NONE, None)
        else do { bs \<leftarrow> rd_block m payload (nat len); Some (EST_ERR_NONE, Some bs) } })"

text \<open>
  \<^verbatim>\<open>est_io_get_response\<close>, which calls \<^verbatim>\<open>est_io_get_response_internal\<close> without a key buffer, for the operations other than server key generation.
\<close>

definition est_io_get_response ::
  "CLIENT_CTX \<Rightarrow> ssl_read list \<Rightarrow> bool \<Rightarrow> EST_OPERATION \<Rightarrow> (EST_ERROR \<times> CLIENT_CTX \<times> string option) option" where
  "est_io_get_response ctx rs peek op =
     (let (rv, got) = est_io_read_raw rs peek EST_CA_MAX; raw_len = length got;
          raw_buf = got @ replicate (EST_CA_MAX - raw_len) NUL in
      if rv \<noteq> EST_ERR_NONE then Some (rv, ctx, None)
      else if raw_len = 0 then Some (EST_ERR_HTTP_NOT_FOUND, ctx, None)
      else (let status = est_io_parse_response_status_code raw_buf; ctx1 = ctx\<lparr>last_http_status := status\<rparr> in
        do { (m, payload, hs) \<leftarrow> parse_http_headers raw_buf;
             (rv1, ctx2) \<leftarrow> status_result status ctx1 (hdr_strings m hs);
             if rv1 \<noteq> EST_ERR_NONE then Some (rv1, ctx2, None)
             else do { (rv2, buf) \<leftarrow> response_content op (hdr_strings m hs) raw_len m payload;
                       Some (rv2, ctx2, buf) } }))"

section \<open>Headers of a well-formed response\<close>

lemma cstr_CRLF [simp]: "cstr CRLF = CRLF" "set CRLF = {CR, LF}" "length CRLF = 2"
  by (simp_all add: CRLF_def)

definition line_ok :: "string \<Rightarrow> bool" where
  "line_ok s \<longleftrightarrow> NUL \<notin> set s \<and> CR \<notin> set s \<and> LF \<notin> set s"

definition hdr_ok :: "string \<times> string \<Rightarrow> bool" where
  "hdr_ok h \<longleftrightarrow> fst h \<noteq> [] \<and> line_ok (fst h) \<and> line_ok (snd h) \<and> CHR '':'' \<notin> set (fst h) \<and> hd0 (snd h) \<noteq> CHR '' ''"

definition render_hdr :: "string \<times> string \<Rightarrow> string" where
  "render_hdr h = fst h @ '': '' @ snd h @ CRLF"

definition cut_hdr :: "string \<times> string \<Rightarrow> string" where
  "cut_hdr h = fst h @ [NUL, NUL] @ snd h @ [NUL, NUL]"

fun hdr_addrs :: "nat \<Rightarrow> (string \<times> string) list \<Rightarrow> (nat \<times> nat) list" where
  "hdr_addrs off [] = []"
| "hdr_addrs off (h # hs) = (off, off + length (fst h) + 2) # hdr_addrs (off + length (fst h) + length (snd h) + 4) hs"

lemma length_render_cut: "length (cut_hdr h) = length (render_hdr h)" "length (render_hdr h) = length (fst h) + length (snd h) + 4"
  by (simp_all add: cut_hdr_def render_hdr_def CRLF_def)

text \<open>The end of the headers is the first empty line.\<close>

abbreviation EOH :: string where "EOH \<equiv> [CR, LF, CR, LF]"

lemma find_sub_line:
  assumes "CR \<notin> set w"
  shows "find_sub EOH (w @ t) = map_option ((+) (length w)) (find_sub EOH t)"
  using assms by (induction w; cases "find_sub EOH t") simp_all

lemma find_sub_EOH:
  assumes "CR \<notin> set line" and "\<forall>h \<in> set hs. hdr_ok h"
  shows "find_sub EOH (line @ CRLF @ concat (map render_hdr hs) @ CRLF @ rest) =
    Some (length line + length (concat (map render_hdr hs)))"
  using assms
proof (induction hs arbitrary: line)
  case Nil
  then show ?case by (subst find_sub_line) (simp_all add: CRLF_def)
next
  case (Cons h hs)
  let ?l = "fst h @ '': '' @ snd h" and ?t = "concat (map render_hdr hs) @ CRLF @ rest"
  have ok: "hdr_ok h" using Cons.prems(2) by simp
  then have l: "CR \<notin> set ?l" by (auto simp: hdr_ok_def line_ok_def)
  obtain c s where c: "?l = c # s" "c \<noteq> CR" using ok l by (cases "fst h") (auto simp: hdr_ok_def)
  have "find_sub EOH (CRLF @ ?l @ CRLF @ ?t) = map_option ((+) 2) (find_sub EOH (?l @ CRLF @ ?t))"
    unfolding c(1) using c(2) by (simp add: CRLF_def option.map_comp comp_def)
  also have "find_sub EOH (?l @ CRLF @ ?t) = Some (length ?l + length (concat (map render_hdr hs)))"
    using Cons.IH [OF l] Cons.prems(2) by simp
  finally have "find_sub EOH (line @ CRLF @ ?l @ CRLF @ ?t) = Some (length line + (2 + (length ?l + length (concat (map render_hdr hs)))))"
    using find_sub_line [OF Cons.prems(1)] by simp
  then show ?case by (simp add: render_hdr_def [of h])
qed

lemma header_line_skips:
  assumes "hdr_ok h" and "m = pre @ render_hdr h @ gap @ rest" and "set gap \<subseteq> {CR, LF}"
    and "hd0 rest \<noteq> CR" "hd0 rest \<noteq> LF" and "length m \<le> RSIZE_MAX_STR"
  shows "skip_quoted m (length pre) '':'' '' '' NUL =
      Some (pre @ fst h @ [NUL, NUL] @ snd h @ CRLF @ gap @ rest, length pre + length (fst h) + 2, length pre)"
    and "skip (pre @ fst h @ [NUL, NUL] @ snd h @ CRLF @ gap @ rest) (length pre + length (fst h) + 2) CRLF =
      Some (pre @ cut_hdr h @ replicate (length gap) NUL @ rest, length (pre @ cut_hdr h) + length gap, length pre + length (fst h) + 2)"
    and "rd (pre @ cut_hdr h @ x) (length pre) = Some (hd (fst h)) \<and> hd (fst h) \<noteq> NUL"
proof -
  obtain nm v where h: "h = (nm, v)" by (cases h)
  have ok: "nm \<noteq> []" "line_ok nm" "line_ok v" "CHR '':'' \<notin> set nm" "hd0 v \<noteq> CHR '' ''"
    using assms(1) h by (auto simp: hdr_ok_def)
  have RS: "length '':'' \<le> RSIZE_MAX_STR" "length '' '' \<le> RSIZE_MAX_STR" "length CRLF \<le> RSIZE_MAX_STR"
    by (simp_all add: RSIZE_MAX_STR_def CRLF_def)
  have m: "m = pre @ nm @ CHR '':'' # '' '' @ (v @ CRLF @ gap @ rest)"
    using assms(2) h by (simp add: render_hdr_def)
  have "last nm \<noteq> NUL" using ok(2) last_in_set [OF ok(1)] unfolding line_ok_def by metis
  moreover have "hd0 (v @ CRLF @ gap @ rest) \<noteq> CHR '' ''" using ok(5) by (cases v) (simp_all add: CRLF_def)
  ultimately show "skip_quoted m (length pre) '':'' '' '' NUL =
      Some (pre @ fst h @ [NUL, NUL] @ snd h @ CRLF @ gap @ rest, length pre + length (fst h) + 2, length pre)"
    unfolding m using assms(6) ok(1,2,4) RS m h
    by (subst skip_quoted_word) (auto simp: line_ok_def)
  have v: "NUL \<notin> set v" "set v \<inter> set (cstr CRLF) = {}" using ok(3) by (auto simp: line_ok_def)
  let ?q = "pre @ nm @ [NUL, NUL]"
  have "skip (?q @ v @ CR # (LF # gap) @ rest) (length ?q) CRLF =
      Some (?q @ v @ NUL # replicate (length (LF # gap)) NUL @ rest, length ?q + length v + 1 + length (LF # gap), length ?q)"
    using v assms(3-6) RS m by (intro skip_word) (auto simp: CRLF_def)
  then show "skip (pre @ fst h @ [NUL, NUL] @ snd h @ CRLF @ gap @ rest) (length pre + length (fst h) + 2) CRLF =
      Some (pre @ cut_hdr h @ replicate (length gap) NUL @ rest, length (pre @ cut_hdr h) + length gap, length pre + length (fst h) + 2)"
    using h by (simp add: CRLF_def cut_hdr_def)
  show "rd (pre @ cut_hdr h @ x) (length pre) = Some (hd (fst h)) \<and> hd (fst h) \<noteq> NUL"
    using ok(1,2) h by (cases nm) (auto simp: rd_def nth_append cut_hdr_def line_ok_def)
qed

lemma headers_loop_render:
  assumes "\<forall>h \<in> set hs. hdr_ok h" and "hs \<noteq> []" and "length hs \<le> n"
    and "hd0 rest \<noteq> CR" "hd0 rest \<noteq> LF"
    and "m = pre @ concat (map render_hdr hs) @ CRLF @ rest" and "length m \<le> RSIZE_MAX_STR"
    and "e + 2 = length pre + length (concat (map render_hdr hs))"
  shows "headers_loop (Some e) n m (length pre) =
    Some (pre @ concat (map cut_hdr hs) @ [NUL, NUL] @ rest, e + 4, hdr_addrs (length pre) hs)"
  using assms
proof (induction hs arbitrary: n m pre)
  case (Cons h hs)
  obtain k where n: "n = Suc k" using Cons.prems(3) by (cases n) auto
  have ok: "hdr_ok h" using Cons.prems(1) by simp
  have cat: "length (concat (map render_hdr (h # hs))) = length (cut_hdr h) + length (concat (map render_hdr hs))"
    by (simp add: length_render_cut)
  show ?case
  proof (cases "hs = []")
    case True
    then have "m = pre @ render_hdr h @ CRLF @ rest" using Cons.prems(6) by simp
    note s = header_line_skips [OF ok this _ Cons.prems(4,5,7)]
    have e: "e + 4 = length (pre @ cut_hdr h) + length CRLF" using Cons.prems(8) cat True by simp
    show ?thesis
      unfolding n headers_loop.simps using s e True by (simp add: numeral_eq_Suc cut_hdr_def)
  next
    case False
    define post where "post = concat (map render_hdr hs) @ CRLF @ rest"
    obtain h' hs' where hs: "hs = h' # hs'" using False by (cases hs) auto
    then have hd: "hd0 post \<noteq> CR" "hd0 post \<noteq> LF"
      using Cons.prems(1) by (cases "fst h'"; auto simp: post_def render_hdr_def hdr_ok_def line_ok_def)+
    have "m = pre @ render_hdr h @ [] @ post" using Cons.prems(6) by (simp add: post_def)
    note s = header_line_skips [OF ok this _ hd Cons.prems(7)]
    have before: "\<not> length (pre @ cut_hdr h) > e" using Cons.prems(8) cat hs by (simp add: length_render_cut)
    have IH: "headers_loop (Some e) k ((pre @ cut_hdr h) @ post) (length (pre @ cut_hdr h)) =
        Some ((pre @ cut_hdr h) @ concat (map cut_hdr hs) @ [NUL, NUL] @ rest, e + 4, hdr_addrs (length (pre @ cut_hdr h)) hs)"
    proof (rule Cons.IH)
      show "length ((pre @ cut_hdr h) @ post) \<le> RSIZE_MAX_STR"
        using Cons.prems(6,7) by (simp add: length_render_cut post_def)
      show "e + 2 = length (pre @ cut_hdr h) + length (concat (map render_hdr hs))" using Cons.prems(8) cat by simp
    qed (use Cons.prems False n post_def in auto)
    show ?thesis
      unfolding n headers_loop.simps using s before IH by (simp add: cut_hdr_def [of h] add.assoc numeral_eq_Suc)
  qed
qed simp

text \<open>A response as the server sends it, in the buffer of the client.\<close>

definition response_text :: "string \<Rightarrow> (string \<times> string) list \<Rightarrow> string \<Rightarrow> string" where
  "response_text line hs body = line @ CRLF @ concat (map render_hdr hs) @ CRLF @ body"

lemma first_line_skips:
  assumes "line_ok line" and "\<forall>h \<in> set hs. hdr_ok h" and "hs \<noteq> []"
    and "length (response_text line hs body @ pad) \<le> RSIZE_MAX_STR"
  shows "skip (response_text line hs body @ pad) 0 CRLF =
      Some ((line @ [NUL, NUL]) @ concat (map render_hdr hs) @ CRLF @ body @ pad, length (line @ [NUL, NUL]), 0)"
    and "snd (strstr_s (response_text line hs body @ pad) (strnlen_s (Some (response_text line hs body @ pad)) RSIZE_MAX_STR) (CRLF @ CRLF) 4) =
      Some (length line + length (concat (map render_hdr hs)))"
proof -
  let ?B = "concat (map render_hdr hs)" and ?m = "response_text line hs body @ pad"
  have ne: "?B \<noteq> []" "hd0 (?B @ x) \<noteq> CR" "hd0 (?B @ x) \<noteq> LF" for x
    using assms(2,3) by (cases hs; cases "fst (hd hs)"; auto simp: render_hdr_def hdr_ok_def line_ok_def)+
  have l: "CR \<notin> set line" "NUL \<notin> set line" "set line \<inter> {CR, LF} = {}" using assms(1) by (auto simp: line_ok_def)
  have nul: "NUL \<notin> set ?B" using assms(2) by (auto simp: hdr_ok_def line_ok_def render_hdr_def)
  have "cstr ?m = line @ CRLF @ ?B @ CRLF @ cstr (body @ pad)"
    using l nul by (simp add: response_text_def cstr_append CRLF_def)
  then have "strstr ?m EOH = Some (length line + length ?B)"
    using find_sub_EOH [OF l(1) assms(2)] by (simp add: strstr_def)
  then show "snd (strstr_s ?m (strnlen_s (Some ?m) RSIZE_MAX_STR) (CRLF @ CRLF) 4) = Some (length line + length ?B)"
    by (simp add: strstr_s_def CRLF_def)
  have m: "?m = [] @ line @ CR # [LF] @ (?B @ CRLF @ body @ pad)" by (simp add: response_text_def CRLF_def)
  have "length CRLF \<le> RSIZE_MAX_STR" by (simp add: RSIZE_MAX_STR_def)
  then have "skip ([] @ line @ CR # [LF] @ (?B @ CRLF @ body @ pad)) (length ([] :: string)) CRLF =
      Some ([] @ line @ NUL # replicate (length [LF]) NUL @ (?B @ CRLF @ body @ pad),
            length ([] :: string) + length line + 1 + length [LF], length ([] :: string))"
    using assms(4) m l ne by (intro skip_word) auto
  then show "skip ?m 0 CRLF = Some ((line @ [NUL, NUL]) @ ?B @ CRLF @ body @ pad, length (line @ [NUL, NUL]), 0)"
    using m by (simp add: CRLF_def)
qed

lemma parse_http_headers_render:
  assumes "line_ok line" and "\<forall>h \<in> set hs. hdr_ok h" and "hs \<noteq> []" and "length hs \<le> MAX_HEADERS"
    and "hd0 (body @ pad) \<noteq> CR" "hd0 (body @ pad) \<noteq> LF"
    and "length (response_text line hs body @ pad) \<le> RSIZE_MAX_STR"
  shows "parse_http_headers (response_text line hs body @ pad) =
    Some (line @ [NUL, NUL] @ concat (map cut_hdr hs) @ [NUL, NUL] @ body @ pad,
          length (response_text line hs []), hdr_addrs (length line + 2) hs)"
proof -
  let ?B = "concat (map render_hdr hs)"
  obtain e where e: "e = length line + length ?B" by simp
  have "headers_loop (Some e) MAX_HEADERS ((line @ [NUL, NUL]) @ ?B @ CRLF @ body @ pad) (length (line @ [NUL, NUL])) =
      Some ((line @ [NUL, NUL]) @ concat (map cut_hdr hs) @ [NUL, NUL] @ body @ pad, e + 4, hdr_addrs (length (line @ [NUL, NUL])) hs)"
    using assms by (intro headers_loop_render) (auto simp: e response_text_def CRLF_def)
  then show ?thesis
    unfolding parse_http_headers_def using first_line_skips [OF assms(1-3,7)] e
    by (simp add: response_text_def CRLF_def)
qed

text \<open>The strings of the headers are the names and the values.\<close>

lemma hdr_strings_cut:
  assumes "\<forall>h \<in> set hs. hdr_ok h"
  shows "\<exists>tails. hdr_strings (pre @ concat (map cut_hdr hs) @ post) (hdr_addrs (length pre) hs) =
      map2 (\<lambda>h (t, u). (fst h @ [NUL, NUL] @ t, snd h @ [NUL, NUL] @ u)) hs tails \<and> length tails = length hs
      \<and> (\<forall>(t, u) \<in> set tails. length post \<le> length t \<and> length post \<le> length u)"
  using assms
proof (induction hs arbitrary: pre)
  case (Cons h hs)
  have L: "length (pre @ cut_hdr h) = length pre + length (fst h) + length (snd h) + 4" by (simp add: cut_hdr_def)
  have "\<forall>h \<in> set hs. hdr_ok h" using Cons.prems by simp
  from Cons.IH [OF this, of "pre @ cut_hdr h", unfolded L] obtain tails where
    t: "hdr_strings ((pre @ cut_hdr h) @ concat (map cut_hdr hs) @ post) (hdr_addrs (length pre + length (fst h) + length (snd h) + 4) hs) =
      map2 (\<lambda>h (t, u). (fst h @ [NUL, NUL] @ t, snd h @ [NUL, NUL] @ u)) hs tails" "length tails = length hs"
      "\<forall>(t, u) \<in> set tails. length post \<le> length t \<and> length post \<le> length u"
    by blast
  let ?t = "(snd h @ [NUL, NUL] @ concat (map cut_hdr hs) @ post, concat (map cut_hdr hs) @ post)"
  have "hdr_strings (pre @ concat (map cut_hdr (h # hs)) @ post) (hdr_addrs (length pre) (h # hs)) =
      map2 (\<lambda>h (t, u). (fst h @ [NUL, NUL] @ t, snd h @ [NUL, NUL] @ u)) (h # hs) (?t # tails)"
    using t(1) by (simp add: hdr_strings_def cut_hdr_def [of h])
  then show ?case using t(2,3) by (intro exI [of _ "?t # tails"]) simp
qed (simp add: hdr_strings_def)

lemma hdr_strings_render:
  assumes "\<forall>h \<in> set hs. hdr_ok h"
  shows "map (\<lambda>(n, v). (cstr n, cstr v)) (hdr_strings (pre @ concat (map cut_hdr hs) @ post) (hdr_addrs (length pre) hs)) = hs"
proof -
  obtain tails where t: "hdr_strings (pre @ concat (map cut_hdr hs) @ post) (hdr_addrs (length pre) hs) =
      map2 (\<lambda>h (t, u). (fst h @ [NUL, NUL] @ t, snd h @ [NUL, NUL] @ u)) hs tails" "length tails = length hs"
    using hdr_strings_cut [OF assms] by blast
  have "\<forall>h \<in> set hs. NUL \<notin> set (fst h) \<and> NUL \<notin> set (snd h)" using assms by (auto simp: hdr_ok_def line_ok_def)
  with t(2) have "map (\<lambda>(n, v). (cstr n, cstr v)) (map2 (\<lambda>h (t, u). (fst h @ [NUL, NUL] @ t, snd h @ [NUL, NUL] @ u)) hs tails) = hs"
    by (induction hs tails rule: list_induct2') auto
  then show ?thesis using t(1) by simp
qed

text \<open>
  Parsing a response whose headers are well formed gives back its headers, in order, and the
  address of its body: names and values are the texts the server sent, and the bytes from that
  address on are unchanged.
\<close>

theorem parse_http_headers_roundtrip:
  assumes "line_ok line" and "\<forall>h \<in> set hs. hdr_ok h" and "hs \<noteq> []" and "length hs \<le> MAX_HEADERS"
    and "hd0 (body @ pad) \<noteq> CR" "hd0 (body @ pad) \<noteq> LF"
    and "length (response_text line hs body @ pad) \<le> RSIZE_MAX_STR"
  shows "\<exists>m addrs. parse_http_headers (response_text line hs body @ pad) = Some (m, length (response_text line hs []), addrs)
    \<and> map (\<lambda>(n, v). (cstr n, cstr v)) (hdr_strings m addrs) = hs
    \<and> drop (length (response_text line hs [])) m = body @ pad"
proof -
  let ?m = "(line @ [NUL, NUL]) @ concat (map cut_hdr hs) @ [NUL, NUL] @ body @ pad"
  have "length (line @ [NUL, NUL] @ concat (map cut_hdr hs) @ [NUL, NUL]) = length (response_text line hs [])"
    by (simp add: response_text_def length_concat length_render_cut(1) comp_def CRLF_def)
  then have "drop (length (response_text line hs [])) ?m = body @ pad" by (metis append_assoc append_eq_conv_conj)
  moreover have "map (\<lambda>(n, v). (cstr n, cstr v)) (hdr_strings ?m (hdr_addrs (length line + 2) hs)) = hs"
    using hdr_strings_render [OF assms(2), of "line @ [NUL, NUL]"] by simp
  ultimately show ?thesis using parse_http_headers_render [OF assms] by simp
qed

section \<open>The content of a response\<close>

lemma memcmp_s_prefix:
  assumes "0 < length k" and "length k \<le> length s"
  shows "memcmp_s (Some s) (length k) (Some k) (length k) = Some (EOK, Some (take (length k) s = k))"
  using assms by (simp add: memcmp_s_def rd_block_def)

text \<open>Comparing with a terminated constant.\<close>

lemma memcmp_s_const:
  assumes "NUL \<notin> set k" and "NUL \<notin> set s" and "n = length k + 1" and "n \<le> length (s @ NUL # t)"
  shows "memcmp_s (Some (s @ NUL # t)) n (Some (k @ [NUL])) n = Some (EOK, Some (s = k))"
proof -
  have "take n (s @ NUL # t) = k @ [NUL] \<longleftrightarrow> s = k"
  proof
    assume *: "take n (s @ NUL # t) = k @ [NUL]"
    have "cstr (take n (s @ NUL # t)) = take n s"
    proof (cases "n \<le> length s")
      case True
      then show ?thesis using assms(2) by (simp add: cstr_id) (metis assms(2) cstr_id in_set_takeD)
    next
      case False
      then obtain j where "n - length s = Suc j" by (cases "n - length s") auto
      then show ?thesis using False assms(2) by (simp add: cstr_append)
    qed
    moreover have "cstr (k @ [NUL]) = k" using assms(1) by simp
    ultimately have k: "take n s = k" using * by simp
    then show "s = k" using assms(3) by (metis add.right_neutral add_le_cancel_left length_take min_def not_one_le_zero take_all_iff nat_le_linear)
  qed (use assms(3) in simp)
  then show ?thesis using assms by (simp add: memcmp_s_def rd_block_def)
qed

text \<open>Decimal numbers are read back.\<close>

lemma isdigit_digit: "d < 10 \<Longrightarrow> isdigit (char_of (48 + d)) \<and> uchr (char_of (48 + d) :: char) = 48 + d"
  by (simp add: isdigit_def uchr_def)

lemma digits_value_digits:
  "digits_value (digits n @ t) acc = digits_value t (acc * 10 ^ length (digits n) + int n)"
proof (induction n arbitrary: acc t rule: digits.induct)
  case (1 n)
  show ?case
  proof (cases "n < 10")
    case True
    then show ?thesis using isdigit_digit [of n] by (simp add: digits.simps [of n] mult.commute)
  next
    case False
    have d: "digits n = digits (n div 10) @ [char_of (48 + n mod 10)]" using False by (simp add: digits.simps [of n])
    have "digits_value (digits n @ t) acc =
        digits_value t (10 * (acc * 10 ^ length (digits (n div 10)) + int (n div 10)) + int (n mod 10))"
      unfolding d using 1 [OF False] isdigit_digit [of "n mod 10"] by simp
    also have "10 * (acc * 10 ^ length (digits (n div 10)) + int (n div 10)) + int (n mod 10) = acc * 10 ^ length (digits n) + int n"
      unfolding d by (simp add: algebra_simps zdiv_int zmod_int)
    finally show ?thesis .
  qed
qed

lemma digits_all: "c \<in> set (digits n) \<Longrightarrow> isdigit c"
proof (induction n rule: digits.induct)
  case (1 n)
  then show ?case using isdigit_digit [of n] isdigit_digit [of "n mod 10"]
    by (subst (asm) (2) digits.simps) (auto split: if_splits)
qed

lemma isdigit_facts: "isdigit c \<Longrightarrow> c \<noteq> NUL \<and> \<not> isspace c \<and> c \<noteq> CHR ''-'' \<and> c \<noteq> CHR ''+'' \<and> \<not> isalpha c"
proof -
  assume d: "isdigit c"
  have "uchr NUL = 0" "uchr (CHR '' '') = 32" "uchr (CHR ''-'') = 45" "uchr (CHR ''+'') = 43" by (simp_all add: uchr_def)
  then show ?thesis using d by (auto simp: isdigit_def isspace_def isalpha_def)
qed

lemma digits_nonempty: "digits n \<noteq> []"
  by (subst digits.simps) simp

lemma number_digits: "cstr s = digits n \<Longrightarrow> number s = int n"
proof -
  assume s: "cstr s = digits n"
  obtain c t where ct: "digits n = c # t" using digits_nonempty by (cases "digits n") auto
  then have "isdigit c" using digits_all [of c n] by simp
  with isdigit_facts [of c] ct have "number s = digits_value (digits n) 0" by (simp add: number_def s Let_def)
  then show ?thesis using digits_value_digits [of n "[]" 0] by simp
qed

text \<open>The reference for the content headers: the first wrong content type stops, the last length counts.\<close>

fun content_spec :: "string \<Rightarrow> (string \<times> string) list \<Rightarrow> bool \<Rightarrow> int option \<Rightarrow> EST_ERROR \<times> bool \<times> int option" where
  "content_spec ct [] seen cl = (EST_ERR_NONE, seen, cl)"
| "content_spec ct ((n, v) # hs) seen cl =
     (if n = ''Content-Type'' then
        if take (length ct) v = ct then content_spec ct hs True cl else (EST_ERR_HTTP_UNSUPPORTED, True, cl)
      else if n = ''Content-Length'' then content_spec ct hs seen (Some (number v))
      else content_spec ct hs seen cl)"

definition int_range :: "string \<Rightarrow> bool" where
  "int_range v \<longleftrightarrow> INT_MIN \<le> number v \<and> number v \<le> INT_MAX"

lemma number_cstr: "number (cstr s) = number s"
  by (simp add: number_def)

lemma take_prefix_nul:
  assumes "NUL \<notin> set ct"
  shows "take (length ct) (v @ NUL # t) = ct \<longleftrightarrow> take (length ct) v = ct"
proof (cases "length ct \<le> length v")
  case False
  then obtain j where j: "length ct - length v = Suc j" by (cases "length ct - length v") auto
  then have "take (length ct) (v @ NUL # t) = v @ NUL # take j t" using False by simp
  then have "take (length ct) (v @ NUL # t) \<noteq> ct" using assms by auto
  moreover have "length (take (length ct) v) < length ct" using False by simp
  then have "take (length ct) v \<noteq> ct" by (metis less_irrefl)
  ultimately show ?thesis by simp
qed simp

lemma check_hdrs_loop_eq:
  assumes "\<forall>h \<in> set hs. hdr_ok h" and "length tails = length hs"
    and "\<forall>(t, u) \<in> set tails. 15 \<le> length t \<and> length ct \<le> length u" and "NUL \<notin> set ct" and "ct \<noteq> []"
    and "\<forall>(n, v) \<in> set hs. n = ''Content-Length'' \<longrightarrow> int_range v"
  shows "check_hdrs_loop ct (map2 (\<lambda>h (t, u). (fst h @ [NUL, NUL] @ t, snd h @ [NUL, NUL] @ u)) hs tails) seen cl =
    Some (content_spec ct hs seen cl)"
  using assms
proof (induction hs arbitrary: tails seen cl)
  case (Cons h hs)
  obtain n v where h: "h = (n, v)" by (cases h)
  obtain t u ts where tails: "tails = (t, u) # ts" using Cons.prems(2) by (cases tails) auto
  have nul: "NUL \<notin> set n" "NUL \<notin> set v" using Cons.prems(1) h by (auto simp: hdr_ok_def line_ok_def)
  have lens: "15 \<le> length t" "length ct \<le> length u" using Cons.prems(3) tails by auto
  have IH: "check_hdrs_loop ct (map2 (\<lambda>h (t, u). (fst h @ [NUL, NUL] @ t, snd h @ [NUL, NUL] @ u)) hs ts) seen cl =
      Some (content_spec ct hs seen cl)" for seen cl
    using Cons.prems tails by (intro Cons.IH) auto
  have isct: "memcmp_s (Some (n @ NUL # NUL # t)) 13 (Some (''Content-Type'' @ [NUL])) 13 = Some (EOK, Some (n = ''Content-Type''))"
    using nul lens by (intro memcmp_s_const) auto
  have iscl: "memcmp_s (Some (n @ NUL # NUL # t)) 15 (Some (''Content-Length'' @ [NUL])) 15 = Some (EOK, Some (n = ''Content-Length''))"
    using nul lens by (intro memcmp_s_const) auto
  have val: "memcmp_s (Some (v @ NUL # NUL # u)) (length ct) (Some ct) (length ct) = Some (EOK, Some (take (length ct) v = ct))"
    using memcmp_s_prefix [of ct "v @ NUL # NUL # u"] take_prefix_nul [OF Cons.prems(4), of v "NUL # u"] Cons.prems(5) lens by simp
  have num: "atoi (v @ NUL # NUL # u) = Some (number v)" if "n = ''Content-Length''"
  proof -
    have "number (v @ NUL # NUL # u) = number v"
      using number_cstr [of "v @ NUL # NUL # u"] nul(2) by simp
    then show ?thesis using Cons.prems(6) h that by (simp add: atoi_def int_range_def)
  qed
  show ?case
    using h tails isct iscl val num IH by simp
qed simp

section \<open>From the connection to the payload\<close>

lemma read_loop_chunks:
  assumes "\<forall>c \<in> set chunks. c \<noteq> []" and "length (got @ concat chunks) < buf_max"
  shows "read_loop (map Read_Bytes chunks) buf_max got = (EST_ERR_NONE, got @ concat chunks)"
  using assms
proof (induction chunks arbitrary: got)
  case (Cons c chunks)
  then show ?case by (simp add: est_ssl_read_def)
qed simp

lemma kw_find_prefix:
  assumes "\<forall>(k, v) \<in> set tbl. length k = n \<and> NUL \<notin> set k"
  shows "kw_find (\<lambda>s k. strncmp s k (length k)) s tbl = map_of tbl (take n (cstr s))"
  using assms by (induction tbl) (auto simp: strncmp_eq_0 cstr_id simp del: strncmp.simps)

lemma response_status_eq:
  "est_io_parse_response_status_code buf =
     (case map_of http_statuses (take 12 (cstr buf)) of Some n \<Rightarrow> n | None \<Rightarrow> - 1)"
  unfolding est_io_parse_response_status_code_def
  by (subst kw_find_prefix [of _ 12]) (simp_all add: http_statuses_def)

lemma response_status_line:
  assumes "NUL \<notin> set line" and "12 \<le> length line" and "map_of http_statuses (take 12 line) = Some n"
  shows "est_io_parse_response_status_code (line @ t) = n"
  using assms by (simp add: response_status_eq cstr_append)

lemma op_content_type_ok: "op \<noteq> EST_OP_MAX \<Longrightarrow> NUL \<notin> set (op_content_type op) \<and> op_content_type op \<noteq> []
    \<and> length (op_content_type op) \<le> 45"
  by (cases op) simp_all

lemma get_response_delivers:
  assumes "concat chunks = response_text line hs body" and "\<forall>c \<in> set chunks. c \<noteq> []"
    and "take 12 line = ''HTTP/1.1 200''" and "line_ok line"
    and "\<forall>h \<in> set hs. hdr_ok h" and "hs \<noteq> []" and "length hs \<le> MAX_HEADERS"
    and "\<forall>(n, v) \<in> set hs. n = ''Content-Length'' \<longrightarrow> int_range v"
    and "content_spec (op_content_type op) hs False None = (EST_ERR_NONE, True, Some (int (length body)))"
    and "body \<noteq> []" and "hd0 body \<noteq> CR" "hd0 body \<noteq> LF"
    and "length (response_text line hs body) + 64 \<le> EST_CA_MAX"
    and "op \<notin> {EST_OP_SERVER_KEYGEN, EST_OP_BRSKI_VOUCHER_STATUS, EST_OP_BRSKI_ENROLL_STATUS, EST_OP_MAX}"
  shows "est_io_get_response ctx (map Read_Bytes chunks) peek op = Some (EST_ERR_NONE, ctx\<lparr>last_http_status := 200\<rparr>, Some body)"
proof -
  let ?T = "response_text line hs body"
  define pad where "pad = replicate (EST_CA_MAX - length ?T) NUL"
  let ?p = "length (response_text line hs [])" and ?m = "line @ [NUL, NUL] @ concat (map cut_hdr hs) @ [NUL, NUL] @ body @ pad"
  have T0: "?T \<noteq> []" using assms(10) by (simp add: response_text_def)
  have "EST_CA_MAX \<le> RSIZE_MAX_STR" by (simp add: EST_CA_MAX_def RSIZE_MAX_STR_def)
  then have rsz: "length (?T @ pad) \<le> RSIZE_MAX_STR" using assms(13) by (simp add: pad_def)
  have pad64: "64 \<le> length pad" using assms(13) by (simp add: pad_def)
  have read: "est_io_read_raw (map Read_Bytes chunks) peek EST_CA_MAX = (EST_ERR_NONE, ?T)"
    using read_loop_chunks [of chunks "[]" EST_CA_MAX] assms(1,2,13) by (simp add: est_io_read_raw_def)
  have st: "est_io_parse_response_status_code (?T @ pad) = 200"
  proof -
    have "length (take 12 line) = 12" using assms(3) by simp
    then have "12 \<le> length line" by simp
    then show ?thesis
      using response_status_line [of line 200 "CRLF @ concat (map render_hdr hs) @ CRLF @ body @ pad"] assms(3,4)
      by (simp add: response_text_def line_ok_def http_statuses_def)
  qed
  have hd: "hd0 (body @ pad) \<noteq> CR" "hd0 (body @ pad) \<noteq> LF" using assms(10-12) by (cases body; simp)+
  have parse: "parse_http_headers (?T @ pad) = Some (?m, ?p, hdr_addrs (length line + 2) hs)"
    using parse_http_headers_render [OF assms(4-7) hd rsz] .
  obtain tails where t: "hdr_strings ?m (hdr_addrs (length line + 2) hs) =
      map2 (\<lambda>h (t, u). (fst h @ [NUL, NUL] @ t, snd h @ [NUL, NUL] @ u)) hs tails" "length tails = length hs"
      "\<forall>(t, u) \<in> set tails. length pad \<le> length t \<and> length pad \<le> length u"
    using hdr_strings_cut [OF assms(5), of "line @ [NUL, NUL]" "[NUL, NUL] @ body @ pad"] by fastforce
  have ct: "NUL \<notin> set (op_content_type op)" "op_content_type op \<noteq> []" "length (op_content_type op) \<le> 45"
    using op_content_type_ok [of op] assms(14) by auto
  have "check_hdrs_loop (op_content_type op) (hdr_strings ?m (hdr_addrs (length line + 2) hs)) False None =
      Some (EST_ERR_NONE, True, Some (int (length body)))"
    unfolding t(1) assms(9) [symmetric] using t(2,3) ct pad64 assms(5,8) by (intro check_hdrs_loop_eq) fastforce+
  then have chk: "est_io_check_http_hdrs (hdr_strings ?m (hdr_addrs (length line + 2) hs)) op = Some (EST_ERR_NONE, int (length body))"
    by (simp add: est_io_check_http_hdrs_def)
  have len: "length ?T = ?p + length body" by (simp add: response_text_def)
  have "length (line @ [NUL, NUL] @ concat (map cut_hdr hs) @ [NUL, NUL]) = ?p"
    by (simp add: response_text_def length_concat length_render_cut(1) comp_def)
  then have "drop ?p ?m = body @ pad" by (metis append_assoc append_eq_conv_conj)
  moreover have "length ?m = ?p + length body + length pad" using \<open>length (line @ _) = ?p\<close> by simp
  ultimately have blk: "rd_block ?m ?p (length body) = Some body" by (simp add: rd_block_def)
  have cnt: "response_content op (hdr_strings ?m (hdr_addrs (length line + 2) hs)) (length ?T) ?m ?p = Some (EST_ERR_NONE, Some body)"
    unfolding response_content_def chk using assms(10,13,14) len blk by auto
  show ?thesis
    unfolding est_io_get_response_def read
    using T0 st parse cnt by (simp add: pad_def [symmetric] Let_def status_result_def)
qed

text \<open>
  C20: A successful response is delivered. If the server's bytes, however they are split into reads, are a
  status line 200, well-formed headers whose content type is the one of the operation and whose
  Content-Length is the length of the body, and the body, then est_io_get_response returns the body.
\<close>

theorem est_io_get_response_delivers:
  assumes "concat chunks = response_text line hs body" and "\<forall>c \<in> set chunks. c \<noteq> []"
    and "take 12 line = ''HTTP/1.1 200''" and "line_ok line"
    and "\<forall>h \<in> set hs. hdr_ok h" and "hs \<noteq> []" and "length hs \<le> MAX_HEADERS"
    and "\<forall>(n, v) \<in> set hs. n = ''Content-Length'' \<longrightarrow> int_range v"
    and "content_spec (op_content_type op) hs False None = (EST_ERR_NONE, True, Some (int (length body)))"
    and "body \<noteq> []" and "hd0 body \<noteq> CR" "hd0 body \<noteq> LF"
    and "length (response_text line hs body) + 64 \<le> EST_CA_MAX"
    and "op \<notin> {EST_OP_SERVER_KEYGEN, EST_OP_BRSKI_VOUCHER_STATUS, EST_OP_BRSKI_ENROLL_STATUS, EST_OP_MAX}"
  shows "est_io_get_response ctx (map Read_Bytes chunks) peek op = Some (EST_ERR_NONE, ctx\<lparr>last_http_status := 200\<rparr>, Some body)"
  using assms by (rule get_response_delivers)

definition sample_client :: CLIENT_CTX where
  "sample_client = \<lparr>cl_auth_mode = AUTH_NONE, cl_realm = replicate (MAX_REALM + 1) NUL, s_nonce = replicate (MAX_NONCE + 1) NUL,
     token_error = replicate (MAX_TOKEN_ERROR + 1) NUL, token_error_desc = replicate (MAX_TOKEN_ERROR_DESC + 1) NUL,
     cl_retry_after_delay = 0, retry_after_date = 0, last_http_status = 0\<rparr>"

definition sample_hdrs :: "(string \<times> string) list" where
  "sample_hdrs = [(''Status'', ''200 OK''), (''Content-Type'', ''application/pkcs7-mime''), (''Content-Length'', ''4'')]"

lemma sample_hdrs_ok: "\<forall>h \<in> set sample_hdrs. hdr_ok h" "sample_hdrs \<noteq> []" "length sample_hdrs \<le> MAX_HEADERS"
  by (simp_all add: sample_hdrs_def hdr_ok_def line_ok_def MAX_HEADERS_def)

theorem parse_http_headers_roundtrip_witness:
  "\<exists>m addrs. parse_http_headers (response_text ''HTTP/1.1 200 OK'' sample_hdrs ''MIIB'' @ [NUL]) =
       Some (m, length (response_text ''HTTP/1.1 200 OK'' sample_hdrs []), addrs)
     \<and> map (\<lambda>(n, v). (cstr n, cstr v)) (hdr_strings m addrs) = sample_hdrs
     \<and> drop (length (response_text ''HTTP/1.1 200 OK'' sample_hdrs [])) m = ''MIIB'' @ [NUL]"
  using parse_http_headers_roundtrip [OF _ sample_hdrs_ok, of "''HTTP/1.1 200 OK''" "''MIIB''" "[NUL]"]
  by (simp add: line_ok_def response_text_def sample_hdrs_def render_hdr_def RSIZE_MAX_STR_def)

lemma number_4: "number ''4'' = 4"
  by (simp add: number_def isspace_def uchr_def isdigit_def)

lemmas sample_response_simps = line_ok_def int_range_def INT_MAX_def INT_MIN_def sample_hdrs_def render_hdr_def
  response_text_def EST_CA_MAX_def number_4

theorem est_io_get_response_delivers_witness:
  "est_io_get_response sample_client (map Read_Bytes [''HTTP/1.1 20'', drop 11 (response_text ''HTTP/1.1 200 OK'' sample_hdrs ''MIIB'')])
     False EST_OP_CACERTS = Some (EST_ERR_NONE, sample_client\<lparr>last_http_status := 200\<rparr>, Some ''MIIB'')"
proof -
  let ?r = "response_text ''HTTP/1.1 200 OK'' sample_hdrs ''MIIB''"
  have "concat [''HTTP/1.1 20'', drop 11 ?r] = ?r" by (simp add: response_text_def)
  then show ?thesis
    using sample_hdrs_ok
    by (intro est_io_get_response_delivers [where hs = sample_hdrs and line = "''HTTP/1.1 200 OK''"])
      (simp_all add: sample_response_simps)
qed

section \<open>What a client accepts\<close>

text \<open>Cutting a word changes nothing behind the cursor.\<close>

lemma drop_wr_block: "wr_block m a bs = Some m' \<Longrightarrow> a + length bs \<le> k \<Longrightarrow> drop k m' = drop k m"
  by (auto dest!: wr_block_SomeD)

lemma drop_le: "drop a m' = drop a m \<Longrightarrow> a \<le> k \<Longrightarrow> drop k m' = drop k m"
  by (metis drop_drop le_add_diff_inverse2)

lemma memmove_s_drop:
  assumes "memmove_s m (Some d) n (Some s) n = Some (m', e)" and "d + n \<le> k"
  shows "drop k m' = drop k m"
proof -
  have "drop (d + n) m' = drop (d + n) m"
    using assms(1) by (auto simp: memmove_s_def bind_eq_Some_conv rd_block_def split: if_splits dest!: drop_wr_block)
  then show ?thesis using assms(2) by (rule drop_le)
qed

lemma skip_quoted_loop_drop:
  "skip_quoted_loop m p e d q = Some (m', p', e') \<Longrightarrow> p < e \<Longrightarrow> p' < e' \<and> drop e' m' = drop e' m"
proof (induction m p e d q rule: skip_quoted_loop.induct)
  case (1 m p e d q)
  from 1(2) obtain pc ec where c: "rd m p = Some pc" "rd m e = Some ec"
    by (subst (asm) skip_quoted_loop.simps) (auto split: option.splits)
  show ?case
  proof (cases "pc \<noteq> q \<or> ec = NUL")
    case True
    with 1(2,3) c show ?thesis by (subst (asm) skip_quoted_loop.simps) (auto split: if_splits)
  next
    case False
    let ?off = "est_strcspn (drop (e + 1) m) d"
    from 1(2) c False obtain m1 x where
      mv: "memmove_s m (Some p) (?off + 1) (Some e) (?off + 1) = Some (m1, x)"
      and rec: "skip_quoted_loop m1 (p + ?off) (e + ?off + 1) d q = Some (m', p', e')"
      by (subst (asm) skip_quoted_loop.simps) (auto simp: Let_def split: option.splits)
    have "p' < e' \<and> drop e' m' = drop e' m1" using 1(1) c mv rec False 1(3) by fastforce
    moreover have "e + ?off + 1 \<le> e'" using skip_quoted_loop_mono [OF rec] by simp
    then have "drop e' m1 = drop e' m" using 1(3) by (intro memmove_s_drop [OF mv]) simp
    ultimately show ?thesis by simp
  qed
qed

lemma drop_zero_range: "a + n \<le> k \<Longrightarrow> drop k (zero_range m a n) = drop k m"
  by (induction n arbitrary: a m) auto

lemma skip_quoted_drop:
  assumes "skip_quoted m b d w q = Some (m', s, b')"
  shows "drop s m' = drop s m"
proof -
  define e0 where "e0 = b + est_strcspn (drop b m) d"
  obtain m1 e where pre: "drop e m1 = drop e m"
    and fin: "m' = m1 \<and> s = e \<or> (\<exists>k \<ge> e. s = k \<and> m' = zero_range m1 e (k - e))"
  proof (cases "e0 > b")
    case True
    with assms obtain ml p e where l: "skip_quoted_loop m (e0 - 1) e0 d q = Some (ml, p, e)"
      and f: "zero_range ml (p + 1) (e - (p + 1)) = m' \<and> s = e
        \<or> (\<exists>k \<ge> e. s = k \<and> m' = zero_range (zero_range ml (p + 1) (e - (p + 1))) e (k - e))"
      by (auto simp: skip_quoted_def Let_def bind_eq_Some_conv e0_def split: if_splits)
    have "p < e" "drop e ml = drop e m" using skip_quoted_loop_drop [OF l] True by auto
    then show thesis using that [of e "zero_range ml (p + 1) (e - (p + 1))"] f drop_zero_range [of "p + 1" "e - (p + 1)" e ml] by auto
  next
    case False
    with assms have "m' = m \<and> s = e0 \<or> (\<exists>k \<ge> e0. s = k \<and> m' = zero_range m e0 (k - e0))"
      by (auto simp: skip_quoted_def Let_def bind_eq_Some_conv e0_def split: if_splits)
    then show thesis using that [of e0 m] by blast
  qed
  from fin show ?thesis
  proof
    assume "\<exists>k \<ge> e. s = k \<and> m' = zero_range m1 e (k - e)"
    then obtain k where "e \<le> k" "s = k" "m' = zero_range m1 e (k - e)" by blast
    moreover from this have "drop k m1 = drop k m" using pre by (metis drop_drop le_add_diff_inverse2)
    ultimately show ?thesis using drop_zero_range [of e "k - e" k m1] by simp
  qed (use pre in simp)
qed

lemma skip_drop: "skip m b d = Some (m', s, b') \<Longrightarrow> drop s m' = drop s m \<and> b \<le> s \<and> length m' = length m"
  unfolding skip_def by (metis skip_quoted_drop skip_quoted_progress)

lemma headers_loop_drop:
  "headers_loop e n m p = Some (m', p', hs) \<Longrightarrow> drop p' m' = drop p' m \<and> p \<le> p' \<and> length m' = length m"
proof (induction e n m p arbitrary: m' p' hs rule: headers_loop.induct)
  case (2 e n m p)
  from 2(2) obtain m1 p1 nm m2 p2 v c where s: "skip_quoted m p '':'' '' '' NUL = Some (m1, p1, nm)" "skip m1 p1 CRLF = Some (m2, p2, v)"
    "rd m2 nm = Some c"
    by (auto simp: bind_eq_Some_conv)
  have a: "drop p2 m2 = drop p2 m1" "p1 \<le> p2" "length m2 = length m1" using skip_drop [OF s(2)] by auto
  have b: "drop p1 m1 = drop p1 m" "p \<le> p1" "length m1 = length m"
    using skip_quoted_drop [OF s(1)] skip_quoted_progress [OF s(1)] by auto
  have ab: "drop k m2 = drop k m" if "p2 \<le> k" for k
    using drop_le [OF a(1) that] drop_le [OF b(1), of k] a(2) that by simp
  show ?case
  proof (cases "c = NUL \<or> (case e of None \<Rightarrow> True | Some e \<Rightarrow> p2 > e)")
    case True
    then have "m' = m2 \<and> p' = p2" using 2(2) s by (auto split: if_splits)
    then show ?thesis using ab a b by auto
  next
    case False
    then obtain hs' where r: "headers_loop e n m2 p2 = Some (m', p', hs')"
      using 2(2) s by (auto simp: bind_eq_Some_conv)
    from 2(1) [OF s(1) refl refl s(2) refl refl s(3) _ _ r] False
    have "drop p' m' = drop p' m2 \<and> p2 \<le> p' \<and> length m' = length m2" by auto
    then show ?thesis using ab a b by auto
  qed
qed simp

lemma parse_http_headers_drop:
  "parse_http_headers m = Some (m', p, hs) \<Longrightarrow> drop p m' = drop p m \<and> length m' = length m"
  by (auto simp: parse_http_headers_def bind_eq_Some_conv dest!: skip_drop headers_loop_drop) (metis drop_le)

lemma cstr_pad: "cstr (s @ replicate n NUL) = cstr s"
  by (induction s) (auto simp: cstr_def)

lemma status_result_NONE: "status_result st ctx hdrs = Some (EST_ERR_NONE, ctx') \<Longrightarrow> st = 200 \<and> ctx' = ctx"
proof -
  have r: "retry_loop hs rv c = Some (x, c') \<Longrightarrow> x = rv \<or> x = EST_ERR_CA_ENROLL_RETRY" for hs rv c x c'
    by (induction hs arbitrary: rv c) (auto split: if_splits option.splits)
  assume "status_result st ctx hdrs = Some (EST_ERR_NONE, ctx')"
  then show ?thesis
    using r [of hdrs EST_ERR_INVALID_RETRY_VALUE]
    by (auto simp: status_result_def est_io_parse_http_retry_after_resp_def split: if_splits)
qed

lemma response_status_200: "est_io_parse_response_status_code buf = 200 \<Longrightarrow> take 12 (cstr buf) = ''HTTP/1.1 200''"
  by (auto simp: response_status_eq http_statuses_def split: if_splits)



section \<open>Reading the authentication request\<close>

lemma skip_delims_run:
  "\<forall>c \<in> set ds. c \<noteq> NUL \<and> field_delim c \<Longrightarrow> post \<noteq> [] \<Longrightarrow> \<not> field_delim (hd0 post) \<Longrightarrow>
     skip_delims (pre @ ds @ post) (length pre) = Some (length pre + length ds)"
proof (induction ds arbitrary: pre)
  case Nil
  then show ?case by (cases post) (simp_all add: skip_delims.simps nth_append)
next
  case (Cons d ds)
  have "skip_delims ((pre @ [d]) @ ds @ post) (length (pre @ [d])) = Some (length (pre @ [d]) + length ds)"
    using Cons.prems by (intro Cons.IH) auto
  then show ?case using Cons.prems(1) by (subst skip_delims.simps) (simp add: nth_append)
qed

lemma skip_to_run:
  "\<forall>c \<in> set v. c \<noteq> NUL \<and> c \<noteq> q \<and> c \<noteq> CHR 0x5C \<Longrightarrow> skip_to q (pre @ v @ q # post) (length pre) = Some (length pre + length v)"
proof (induction v arbitrary: pre)
  case Nil
  then show ?case by (simp add: skip_to.simps nth_append)
next
  case (Cons c v)
  have "skip_to q ((pre @ [c]) @ v @ q # post) (length (pre @ [c])) = Some (length (pre @ [c]) + length v)"
    using Cons.prems by (intro Cons.IH) auto
  then show ?case using Cons.prems by (subst skip_to.simps) (simp add: nth_append)
qed

lemma skip_word_run:
  "\<forall>c \<in> set w. c \<noteq> NUL \<and> \<not> field_delim c \<Longrightarrow> d = NUL \<or> field_delim d \<Longrightarrow>
     skip_word_chars (pre @ w @ d # post) (length pre) = Some (length pre + length w)"
proof (induction w arbitrary: pre)
  case Nil
  then show ?case by (subst skip_word_chars.simps) (auto simp: nth_append)
next
  case (Cons c w)
  have "skip_word_chars ((pre @ [c]) @ w @ d # post) (length (pre @ [c])) = Some (length (pre @ [c]) + length w)"
    using Cons.prems by (intro Cons.IH) auto
  then show ?case using Cons.prems by (subst skip_word_chars.simps) (simp add: nth_append)
qed

text \<open>A quoted field, a word, and the end of the header.\<close>

definition quotable :: "string \<Rightarrow> bool" where
  "quotable v \<longleftrightarrow> (\<forall>c \<in> set v. c \<noteq> NUL \<and> c \<noteq> DQUOTE \<and> c \<noteq> CHR 0x5C)"

definition wordlike :: "string \<Rightarrow> bool" where
  "wordlike w \<longleftrightarrow> w \<noteq> [] \<and> (\<forall>c \<in> set w. isalpha c)"

lemma isalpha_facts: "isalpha c \<Longrightarrow> c \<noteq> NUL \<and> \<not> field_delim c \<and> c \<noteq> DQUOTE \<and> c \<noteq> CHR ''<'' \<and> c \<noteq> CHR ''(''"
proof -
  assume d: "isalpha c"
  have ne: "c \<noteq> x" if "uchr x < 65" for x
  proof
    assume "c = x"
    then show False using d that by (simp add: isalpha_def)
  qed
  have "c \<noteq> NUL" "c \<noteq> CHR '' ''" "c \<noteq> DQUOTE" "c \<noteq> CHR ''<''" "c \<noteq> CHR ''(''" "c \<noteq> CHR '',''" "c \<noteq> CHR '';''" "c \<noteq> CHR ''=''"
    by (rule ne, simp add: uchr_def)+
  moreover have "\<not> (9 \<le> uchr c \<and> uchr c \<le> 13)" using d by (auto simp: isalpha_def)
  ultimately show ?thesis unfolding field_delim_def isspace_def by blast
qed

lemma DQUOTE_not_delim: "\<not> field_delim DQUOTE"
  by (simp add: field_delim_def isspace_def uchr_def)

lemma HTNextField_quoted:
  assumes "\<forall>c \<in> set ds. c \<noteq> NUL \<and> field_delim c" and "quotable v"
  shows "HTNextField (pre @ ds @ DQUOTE # v @ DQUOTE # post) (length pre) =
    Some (pre @ ds @ DQUOTE # v @ NUL # post, length pre + length ds + length v + 2, Some (length pre + length ds + 1))"
proof -
  let ?m = "pre @ ds @ DQUOTE # v @ DQUOTE # post"
  have "skip_delims ?m (length pre) = Some (length pre + length ds)"
    using assms(1) DQUOTE_not_delim by (intro skip_delims_run) auto
  moreover have "skip_to DQUOTE ((pre @ ds @ [DQUOTE]) @ v @ DQUOTE # post) (length (pre @ ds @ [DQUOTE])) = Some (length (pre @ ds @ [DQUOTE]) + length v)"
    using assms(2) by (intro skip_to_run) (auto simp: quotable_def)
  ultimately have "next_field ?m (length pre) = Some (length pre + length ds + 1 + length v, Some (length pre + length ds + 1))"
    by (subst next_field.simps) (simp add: nth_append)
  then show ?thesis by (simp add: HTNextField_def nth_append list_update_append)
qed

lemma HTNextField_word:
  assumes "\<forall>c \<in> set ds. c \<noteq> NUL \<and> field_delim c" and "wordlike w" and "d \<noteq> NUL" "field_delim d"
  shows "HTNextField (pre @ ds @ w @ d # post) (length pre) =
    Some (pre @ ds @ w @ NUL # post, length pre + length ds + length w + 1, Some (length pre + length ds))"
proof -
  let ?m = "pre @ ds @ w @ d # post"
  obtain c w' where w: "w = c # w'" "isalpha c" using assms(2) by (cases w) (auto simp: wordlike_def)
  have "skip_delims ?m (length pre) = Some (length pre + length ds)"
    using assms(1) w isalpha_facts by (intro skip_delims_run) auto
  moreover have "skip_word_chars ((pre @ ds) @ w @ d # post) (length (pre @ ds)) = Some (length (pre @ ds) + length w)"
    using assms isalpha_facts by (intro skip_word_run) (auto simp: wordlike_def)
  ultimately have "next_field ?m (length pre) = Some (length pre + length ds + length w, Some (length pre + length ds))"
    using isalpha_facts [OF w(2)] w(1) by (subst next_field.simps) (simp add: nth_append)
  then show ?thesis using assms(3) by (simp add: HTNextField_def nth_append list_update_append)
qed

lemma HTNextField_end:
  "HTNextField (pre @ NUL # post) (length pre) = Some (pre @ NUL # post, length pre, None)"
  using skip_delims_run [of "[]" "NUL # post" pre]
  by (simp add: HTNextField_def next_field.simps [of _ "length pre"] nth_append)

text \<open>A parameter \<^verbatim>\<open>name="value"\<close>.\<close>

lemma auth_tokens_param:
  assumes "\<forall>c \<in> set ds. c \<noteq> NUL \<and> field_delim c" and "wordlike w" and "quotable v"
    and "m = pre @ ds @ w @ CHR ''='' # DQUOTE # v @ DQUOTE # post"
  shows "auth_tokens_loop m (length pre) ctx =
    (case auth_param (pre @ ds @ w @ NUL # DQUOTE # v @ DQUOTE # post) (length (pre @ ds @ w @ [NUL])) (w @ NUL # DQUOTE # v @ DQUOTE # post) ctx of
       None \<Rightarrow> None
     | Some (m2, p2, True, ctx') \<Rightarrow> auth_tokens_loop m2 p2 ctx'
     | Some (m2, p2, False, ctx') \<Rightarrow>
         (case memzero_s (Some (s_nonce ctx')) (MAX_NONCE + 1) of
            Some (Some z, _) \<Rightarrow> Some (EST_ERR_INVALID_TOKEN, ctx'\<lparr>s_nonce := z\<rparr>)
          | _ \<Rightarrow> None))"
proof -
  have eq: "field_delim (CHR ''='')" by (simp add: field_delim_def)
  have "HTNextField m (length pre) =
      Some (pre @ ds @ w @ NUL # DQUOTE # v @ DQUOTE # post, length pre + length ds + length w + 1, Some (length pre + length ds))"
    using HTNextField_word [OF assms(1,2) _ eq, of pre "DQUOTE # v @ DQUOTE # post"] assms(4) by simp
  moreover have "length (pre @ ds @ w @ [NUL]) = length pre + length ds + length w + 1" by simp
  ultimately show ?thesis by (subst auth_tokens_loop.simps) (simp del: length_append)
qed

text \<open>The arrays of the context that hold strings of the server: one byte longer than what is copied, the last one NUL.\<close>

definition array_ok :: "nat \<Rightarrow> mem \<Rightarrow> bool" where
  "array_ok n d \<longleftrightarrow> length d = n + 1 \<and> d ! n = NUL"

definition client_ok :: "CLIENT_CTX \<Rightarrow> bool" where
  "client_ok ctx \<longleftrightarrow> array_ok MAX_REALM (cl_realm ctx) \<and> array_ok MAX_NONCE (s_nonce ctx)
     \<and> array_ok MAX_TOKEN_ERROR (token_error ctx) \<and> array_ok MAX_TOKEN_ERROR_DESC (token_error_desc ctx)"

lemma strcpy_s_array:
  assumes "array_ok n d" and "0 < n"
  shows "\<exists>d'. strcpy_s (Some d) n (Some v) = Some (Some d', EOK) \<and> array_ok n d' \<and> cstr d' = take n (cstr v)"
proof -
  define b where "b = take n (cstr v) @ replicate (n - length (cstr v)) NUL"
  have len: "length b = n" by (simp add: b_def)
  have d: "drop n d = [NUL]"
    using assms(1) Cons_nth_drop_Suc [of n d, symmetric] by (simp add: array_ok_def)
  have "cstr (b @ [NUL]) = take n (cstr v)"
  proof -
    have "NUL \<notin> set (take n (cstr v))" using cstr_no_nul [of v] by (metis in_set_takeD)
    moreover have "b @ [NUL] = take n (cstr v) @ NUL # replicate (n - length (cstr v)) NUL"
      by (simp add: b_def replicate_append_same)
    ultimately show ?thesis by (metis cstr_append_nul)
  qed
  moreover have "strncpy d v n = Some (b @ [NUL])"
    unfolding strncpy_def b_def [symmetric] using assms(1) len d by (simp add: wr_block_def array_ok_def)
  moreover have "array_ok n (b @ [NUL])" using len by (simp add: array_ok_def nth_append)
  ultimately show ?thesis
    using assms(2) by (simp add: strcpy_s_def)
qed

lemma copy_token_quoted:
  assumes "quotable v" and "array_ok n dest" and "0 < n"
  shows "\<exists>d. copy_token upd dest n (pre @ DQUOTE # v @ DQUOTE # post) (length pre) ctx =
      Some ((pre @ DQUOTE # v @ [NUL]) @ post, length (pre @ DQUOTE # v @ [NUL]), True, upd d ctx)
    \<and> array_ok n d \<and> cstr d = take n v"
proof -
  have f: "HTNextField (pre @ DQUOTE # v @ DQUOTE # post) (length pre) =
      Some (pre @ DQUOTE # v @ NUL # post, length pre + length v + 2, Some (length pre + 1))"
    using HTNextField_quoted [of "[]" v pre post] assms(1) by simp
  have "NUL \<notin> set v" using assms(1) by (auto simp: quotable_def)
  then have "cstr (v @ NUL # post) = v" by simp
  moreover obtain d where "strcpy_s (Some dest) n (Some (v @ NUL # post)) = Some (Some d, EOK)" "array_ok n d"
    "cstr d = take n (cstr (v @ NUL # post))"
    using strcpy_s_array [OF assms(2,3)] by blast
  ultimately show ?thesis by (intro exI [of _ d]) (simp add: copy_token_def f)
qed

text \<open>Which parameter a word names.\<close>

lemma param_name:
  assumes "wordlike w" and "length (w @ NUL # t) \<le> RSIZE_MAX_STR"
  shows "est_strcasecmp_s (w @ NUL # t) k = 0 \<longleftrightarrow> map toupper w = map toupper (cstr k)"
proof -
  have "NUL \<notin> set w" "w \<noteq> []" using assms(1) isalpha_facts by (auto simp: wordlike_def)
  then show ?thesis using assms(2) by (subst est_strcasecmp_s_eq_0) (auto simp: cmp_valid_def)
qed

lemma param_words:
  "wordlike ''realm''" "wordlike ''nonce''" "wordlike ''qop''"
  "map toupper ''realm'' \<noteq> map toupper ''nonce''" "map toupper ''qop'' \<noteq> map toupper ''realm''"
  "map toupper ''qop'' \<noteq> map toupper ''nonce''" "map toupper ''nonce'' \<noteq> map toupper ''realm''"
  unfolding wordlike_def by code_simp+

text \<open>A parameter that is copied into an array, and the quality of protection, which is only looked at.\<close>

lemma param_copy:
  assumes "\<forall>c \<in> set ds. c \<noteq> NUL \<and> field_delim c" and "wordlike w" and "quotable v"
    and "m = pre @ ds @ w @ CHR ''='' # DQUOTE # v @ DQUOTE # post"
    and "array_ok n dest" and "0 < n"
    and "auth_param (pre @ ds @ w @ NUL # DQUOTE # v @ DQUOTE # post) (length (pre @ ds @ w @ [NUL])) (w @ NUL # DQUOTE # v @ DQUOTE # post) ctx
      = copy_token upd dest n (pre @ ds @ w @ NUL # DQUOTE # v @ DQUOTE # post) (length (pre @ ds @ w @ [NUL])) ctx"
  obtains pre' d where "auth_tokens_loop m (length pre) ctx = auth_tokens_loop (pre' @ post) (length pre') (upd d ctx)"
    "array_ok n d" "cstr d = take n v" "length (pre' @ post) = length m"
proof -
  let ?t = "DQUOTE # v @ DQUOTE # post" and ?pre = "pre @ ds @ w @ [NUL]"
  obtain d where d: "copy_token upd dest n (?pre @ ?t) (length ?pre) ctx =
      Some ((?pre @ DQUOTE # v @ [NUL]) @ post, length (?pre @ DQUOTE # v @ [NUL]), True, upd d ctx)"
      "array_ok n d" "cstr d = take n v"
    using copy_token_quoted [OF assms(3,5,6)] by blast
  then have "auth_tokens_loop m (length pre) ctx = auth_tokens_loop ((?pre @ DQUOTE # v @ [NUL]) @ post) (length (?pre @ DQUOTE # v @ [NUL])) (upd d ctx)"
    using auth_tokens_param [OF assms(1-4), of ctx] assms(7) by simp
  then show thesis by (rule that) (use assms(4) d in simp_all)
qed

lemma param_realm:
  assumes "\<forall>c \<in> set ds. c \<noteq> NUL \<and> field_delim c" and "quotable v" and "client_ok ctx"
    and "m = pre @ ds @ ''realm'' @ CHR ''='' # DQUOTE # v @ DQUOTE # post" and "length m \<le> RSIZE_MAX_STR"
  obtains pre' d where "auth_tokens_loop m (length pre) ctx = auth_tokens_loop (pre' @ post) (length pre') (ctx\<lparr>cl_realm := d\<rparr>)"
    "client_ok (ctx\<lparr>cl_realm := d\<rparr>)" "cstr d = take MAX_REALM v" "length (pre' @ post) = length m"
proof -
  have "est_strcasecmp_s (''realm'' @ NUL # DQUOTE # v @ DQUOTE # post) ''realm'' = 0"
    using param_name [OF param_words(1), of "DQUOTE # v @ DQUOTE # post" "''realm''"] assms(4,5) by simp
  then show thesis
    using param_copy [OF assms(1) param_words(1) assms(2,4), of MAX_REALM "cl_realm ctx" ctx "\<lambda>d c. c\<lparr>cl_realm := d\<rparr>"] that assms(3)
    by (auto simp: auth_param_def client_ok_def MAX_REALM_def)
qed

lemma param_nonce:
  assumes "\<forall>c \<in> set ds. c \<noteq> NUL \<and> field_delim c" and "quotable v" and "client_ok ctx"
    and "m = pre @ ds @ ''nonce'' @ CHR ''='' # DQUOTE # v @ DQUOTE # post" and "length m \<le> RSIZE_MAX_STR"
  obtains pre' d where "auth_tokens_loop m (length pre) ctx = auth_tokens_loop (pre' @ post) (length pre') (ctx\<lparr>s_nonce := d\<rparr>)"
    "client_ok (ctx\<lparr>s_nonce := d\<rparr>)" "cstr d = take MAX_NONCE v" "length (pre' @ post) = length m"
proof -
  have "est_strcasecmp_s (''nonce'' @ NUL # DQUOTE # v @ DQUOTE # post) ''nonce'' = 0"
    "est_strcasecmp_s (''nonce'' @ NUL # DQUOTE # v @ DQUOTE # post) ''realm'' \<noteq> 0"
    using param_name [OF param_words(2), of "DQUOTE # v @ DQUOTE # post"] assms(4,5) param_words(7) by simp_all
  then show thesis
    using param_copy [OF assms(1) param_words(2) assms(2,4), of MAX_NONCE "s_nonce ctx" ctx "\<lambda>d c. c\<lparr>s_nonce := d\<rparr>"] that assms(3)
    by (auto simp: auth_param_def client_ok_def MAX_NONCE_def)
qed

lemma param_qop:
  assumes "\<forall>c \<in> set ds. c \<noteq> NUL \<and> field_delim c"
    and "m = pre @ ds @ ''qop'' @ CHR ''='' # DQUOTE # ''auth'' @ DQUOTE # post" and "length m \<le> RSIZE_MAX_STR"
  obtains pre' where "auth_tokens_loop m (length pre) ctx = auth_tokens_loop (pre' @ post) (length pre') ctx"
    "length (pre' @ post) = length m"
proof -
  let ?t = "DQUOTE # ''auth'' @ DQUOTE # post" and ?pre = "pre @ ds @ ''qop'' @ [NUL]"
  have q: "quotable ''auth''" by (simp add: quotable_def)
  have n: "est_strcasecmp_s (''qop'' @ NUL # ?t) ''qop'' = 0" "est_strcasecmp_s (''qop'' @ NUL # ?t) ''realm'' \<noteq> 0"
    "est_strcasecmp_s (''qop'' @ NUL # ?t) ''nonce'' \<noteq> 0"
    using param_name [OF param_words(3), of ?t] assms(2,3) param_words(5,6) by simp_all
  have f: "HTNextField (?pre @ ?t) (length ?pre) =
      Some ((?pre @ DQUOTE # ''auth'' @ [NUL]) @ post, length (?pre @ DQUOTE # ''auth'' @ [NUL]), Some (length ?pre + 1))"
    using HTNextField_quoted [of "[]" "''auth''" ?pre post] q by simp
  have "auth_param (?pre @ ?t) (length ?pre) (''qop'' @ NUL # ?t) ctx =
      Some ((?pre @ DQUOTE # ''auth'' @ [NUL]) @ post, length (?pre @ DQUOTE # ''auth'' @ [NUL]), True, ctx)"
    unfolding auth_param_def f using n by (simp add: rd_def nth_append memcmp_s_def rd_block_def)
  then have "auth_tokens_loop m (length pre) ctx = auth_tokens_loop ((?pre @ DQUOTE # ''auth'' @ [NUL]) @ post) (length (?pre @ DQUOTE # ''auth'' @ [NUL])) ctx"
    using auth_tokens_param [OF assms(1) param_words(3) q assms(2), of ctx] by simp
  then show thesis by (rule that) (use assms(2) in simp)
qed

lemma auth_tokens_end: "auth_tokens_loop (pre @ NUL # post) (length pre) ctx = Some (EST_ERR_NONE, ctx)"
  by (subst auth_tokens_loop.simps) (simp add: HTNextField_end)

text \<open>The value of the header as \<^verbatim>\<open>mg_send_authorization_request\<close> of the server writes it.\<close>

definition auth_challenge :: "EST_HTTP_AUTH_MODE \<Rightarrow> string \<Rightarrow> string \<Rightarrow> string" where
  "auth_challenge am r n =
     (let realm_par = ''realm='' @ [DQUOTE] @ r @ [DQUOTE] in
      case am of
        AUTH_BASIC \<Rightarrow> ''Basic '' @ realm_par
      | AUTH_DIGEST \<Rightarrow> ''Digest qop='' @ [DQUOTE] @ ''auth'' @ [DQUOTE] @ '', '' @ realm_par @ '', nonce='' @ [DQUOTE] @ n @ [DQUOTE]
      | AUTH_TOKEN \<Rightarrow> ''Bearer '' @ realm_par
      | _ \<Rightarrow> [])"

lemma delims: "\<forall>c \<in> set [CHR '','', CHR '' '']. c \<noteq> NUL \<and> field_delim c" "\<forall>c \<in> set ([] :: string). c \<noteq> NUL \<and> field_delim c"
  "field_delim (CHR '' '')"
  by (simp_all add: field_delim_def isspace_def)

lemma scheme_words: "wordlike ''Basic''" "wordlike ''Digest''" "wordlike ''Bearer''"
  unfolding wordlike_def by code_simp+

lemma scheme_skip:
  assumes "wordlike w"
  shows "est_io_parse_auth_tokens ctx (w @ CHR '' '' # t) = auth_tokens_loop ((w @ [NUL]) @ t) (length (w @ [NUL])) ctx"
  using HTNextField_word [OF delims(2) assms, of "CHR '' ''" "[]" t] delims(3) by (simp add: est_io_parse_auth_tokens_def)

lemma tokens_realm:
  assumes "wordlike w" and "client_ok ctx" and "quotable r"
    and "length (w @ '' realm='' @ DQUOTE # r @ DQUOTE # NUL # u) \<le> RSIZE_MAX_STR"
  shows "\<exists>d. est_io_parse_auth_tokens ctx (w @ '' realm='' @ DQUOTE # r @ DQUOTE # NUL # u) = Some (EST_ERR_NONE, ctx\<lparr>cl_realm := d\<rparr>)
    \<and> client_ok (ctx\<lparr>cl_realm := d\<rparr>) \<and> cstr d = take MAX_REALM r"
proof -
  let ?pre = "w @ [NUL]" and ?m = "(w @ [NUL]) @ [] @ ''realm'' @ CHR ''='' # DQUOTE # r @ DQUOTE # NUL # u"
  have L: "length ?m \<le> RSIZE_MAX_STR" using assms(4) by simp
  obtain pre' d where "auth_tokens_loop ?m (length ?pre) ctx = auth_tokens_loop (pre' @ NUL # u) (length pre') (ctx\<lparr>cl_realm := d\<rparr>)"
    "client_ok (ctx\<lparr>cl_realm := d\<rparr>)" "cstr d = take MAX_REALM r"
    by (rule param_realm [OF delims(2) assms(3,2) refl L])
  then show ?thesis
    using scheme_skip [OF assms(1), of ctx "''realm='' @ DQUOTE # r @ DQUOTE # NUL # u"] auth_tokens_end by auto
qed

lemma tokens_digest:
  assumes "client_ok ctx" and "quotable r" and "quotable n"
    and "length (auth_challenge AUTH_DIGEST r n @ NUL # u) \<le> RSIZE_MAX_STR"
  shows "\<exists>d e. est_io_parse_auth_tokens ctx (auth_challenge AUTH_DIGEST r n @ NUL # u) = Some (EST_ERR_NONE, ctx\<lparr>cl_realm := d, s_nonce := e\<rparr>)
    \<and> client_ok (ctx\<lparr>cl_realm := d, s_nonce := e\<rparr>) \<and> cstr d = take MAX_REALM r \<and> cstr e = take MAX_NONCE n"
proof -
  let ?n = "'', '' @ ''nonce'' @ CHR ''='' # DQUOTE # n @ DQUOTE # NUL # u"
  let ?r = "'', '' @ ''realm'' @ CHR ''='' # DQUOTE # r @ DQUOTE # ?n"
  let ?m = "(''Digest'' @ [NUL]) @ [] @ ''qop'' @ CHR ''='' # DQUOTE # ''auth'' @ DQUOTE # ?r"
  have L: "length ?m \<le> RSIZE_MAX_STR" using assms(4) by (simp add: auth_challenge_def)
  obtain p1 where s1: "auth_tokens_loop ?m (length (''Digest'' @ [NUL])) ctx = auth_tokens_loop (p1 @ ?r) (length p1) ctx"
    "length (p1 @ ?r) = length ?m"
    by (rule param_qop [OF delims(2) refl L])
  then have L1: "length (p1 @ ?r) \<le> RSIZE_MAX_STR" using L by metis
  obtain p2 d where s2: "auth_tokens_loop (p1 @ ?r) (length p1) ctx = auth_tokens_loop (p2 @ ?n) (length p2) (ctx\<lparr>cl_realm := d\<rparr>)"
    "client_ok (ctx\<lparr>cl_realm := d\<rparr>)" "cstr d = take MAX_REALM r" "length (p2 @ ?n) = length (p1 @ ?r)"
    by (rule param_realm [OF delims(1) assms(2,1) refl L1])
  then have L2: "length (p2 @ ?n) \<le> RSIZE_MAX_STR" using L1 by metis
  obtain p3 e where s3: "auth_tokens_loop (p2 @ ?n) (length p2) (ctx\<lparr>cl_realm := d\<rparr>) = auth_tokens_loop (p3 @ NUL # u) (length p3) (ctx\<lparr>cl_realm := d, s_nonce := e\<rparr>)"
    "client_ok (ctx\<lparr>cl_realm := d, s_nonce := e\<rparr>)" "cstr e = take MAX_NONCE n"
    by (rule param_nonce [OF delims(1) assms(3) s2(2) refl L2])
  have "auth_challenge AUTH_DIGEST r n @ NUL # u = ''Digest'' @ CHR '' '' # drop 7 ?m" by (simp add: auth_challenge_def)
  then have "est_io_parse_auth_tokens ctx (auth_challenge AUTH_DIGEST r n @ NUL # u) = auth_tokens_loop ?m (length (''Digest'' @ [NUL])) ctx"
    using scheme_skip [OF scheme_words(2), of ctx "drop 7 ?m"] by simp
  then show ?thesis using s1(1) s2(1,3) s3 auth_tokens_end [of p3 u] by auto
qed

lemma auth_request_challenge:
  assumes "client_ok ctx" and "quotable r" and "quotable n" and "am \<in> {AUTH_BASIC, AUTH_DIGEST, AUTH_TOKEN}"
    and "length (auth_challenge am r n @ NUL # u) \<le> RSIZE_MAX_STR"
  shows "\<exists>ctx'. est_io_parse_http_auth_request ctx ((''WWW-Authenticate'' @ NUL # t, auth_challenge am r n @ NUL # u) # hs) = Some ctx'
    \<and> client_ok ctx' \<and> cl_auth_mode ctx' = am \<and> cstr (cl_realm ctx') = take MAX_REALM r
    \<and> (am = AUTH_DIGEST \<longrightarrow> cstr (s_nonce ctx') = take MAX_NONCE n)"
proof -
  let ?c = "ctx\<lparr>cl_auth_mode := am\<rparr>" and ?v = "auth_challenge am r n @ NUL # u"
  have ok: "client_ok ?c" using assms(1) by (simp add: client_ok_def)
  have "\<exists>d e. est_io_parse_auth_tokens ?c ?v = Some (EST_ERR_NONE, ?c\<lparr>cl_realm := d, s_nonce := e\<rparr>)
      \<and> client_ok (?c\<lparr>cl_realm := d, s_nonce := e\<rparr>) \<and> cstr d = take MAX_REALM r \<and> (am = AUTH_DIGEST \<longrightarrow> cstr e = take MAX_NONCE n)"
  proof (cases "am = AUTH_DIGEST")
    case True
    then show ?thesis using tokens_digest [OF ok assms(2,3), of u] assms(5) by auto
  next
    case False
    then obtain w where w: "wordlike w" "?v = w @ '' realm='' @ DQUOTE # r @ DQUOTE # NUL # u"
      using assms(4) scheme_words by (auto simp: auth_challenge_def)
    from tokens_realm [OF w(1) ok assms(2), of u] assms(5) w(2) obtain d where
      d: "est_io_parse_auth_tokens ?c ?v = Some (EST_ERR_NONE, ?c\<lparr>cl_realm := d\<rparr>)" "client_ok (?c\<lparr>cl_realm := d\<rparr>)" "cstr d = take MAX_REALM r"
      by auto
    have "?c\<lparr>cl_realm := d\<rparr> = ?c\<lparr>cl_realm := d, s_nonce := s_nonce ctx\<rparr>" by simp
    then show ?thesis using d False by metis
  qed
  then obtain d e where de: "est_io_parse_auth_tokens ?c ?v = Some (EST_ERR_NONE, ?c\<lparr>cl_realm := d, s_nonce := e\<rparr>)"
    "client_ok (?c\<lparr>cl_realm := d, s_nonce := e\<rparr>)" "cstr d = take MAX_REALM r" "am = AUTH_DIGEST \<longrightarrow> cstr e = take MAX_NONCE n" by blast
  have "est_io_parse_http_auth_request ctx ((''WWW-Authenticate'' @ NUL # t, ?v) # hs) = auth_request ctx am ?v"
    using assms(4) by (cases am) (simp_all add: auth_challenge_def strncmp_eq_0 del: strncmp.simps)
  also have "\<dots> = Some (?c\<lparr>cl_realm := d, s_nonce := e\<rparr>)" by (simp add: auth_request_def de(1))
  finally show ?thesis using de by auto
qed

text \<open>
  The client understands the authentication request of the server. For the header that the server
  sends in Basic, Digest or Bearer mode the client ends in that mode, with the server's realm (its
  first 255 bytes) and, for Digest, the server's nonce (its first 64 bytes) in terminated strings;
  the arrays of the context keep their terminators.
\<close>

theorem est_io_parse_http_auth_request_challenge:
  assumes "client_ok ctx" and "quotable r" and "quotable n" and "am \<in> {AUTH_BASIC, AUTH_DIGEST, AUTH_TOKEN}"
    and "length (auth_challenge am r n @ NUL # u) \<le> RSIZE_MAX_STR"
  shows "\<exists>ctx'. est_io_parse_http_auth_request ctx ((''WWW-Authenticate'' @ NUL # t, auth_challenge am r n @ NUL # u) # hs) = Some ctx'
    \<and> client_ok ctx' \<and> cl_auth_mode ctx' = am \<and> cstr (cl_realm ctx') = take MAX_REALM r
    \<and> (am = AUTH_DIGEST \<longrightarrow> cstr (s_nonce ctx') = take MAX_NONCE n)"
  using assms by (rule auth_request_challenge)

theorem est_io_parse_http_auth_request_challenge_witness:
  "\<exists>ctx'. est_io_parse_http_auth_request sample_client [(''WWW-Authenticate'' @ [NUL], auth_challenge AUTH_DIGEST ''estrealm'' ''42'' @ [NUL])] = Some ctx'
     \<and> cl_auth_mode ctx' = AUTH_DIGEST \<and> cstr (cl_realm ctx') = ''estrealm'' \<and> cstr (s_nonce ctx') = ''42''"
proof -
  have ok: "client_ok sample_client"
    by (simp add: client_ok_def array_ok_def sample_client_def nth_append del: replicate.simps)
  have "quotable ''estrealm''" "quotable ''42''" by (simp_all add: quotable_def)
  moreover have "length (auth_challenge AUTH_DIGEST ''estrealm'' ''42'' @ [NUL]) \<le> RSIZE_MAX_STR"
    by (simp add: auth_challenge_def RSIZE_MAX_STR_def)
  ultimately show ?thesis
    using est_io_parse_http_auth_request_challenge [OF ok, of "''estrealm''" "''42''" AUTH_DIGEST "[]" "[]" "[]"]
    by (auto simp: MAX_REALM_def MAX_NONCE_def simp del: est_io_parse_http_auth_request.simps)
qed

section \<open>Responses that are not successful\<close>

text \<open>The strings of well-formed headers in the buffer: each is followed by more bytes than any comparison reads.\<close>

definition raw_headers :: "(string \<times> string) list \<Rightarrow> (mem \<times> mem) list \<Rightarrow> bool" where
  "raw_headers hs raw \<longleftrightarrow> list_all2 (\<lambda>h r. \<exists>t u. r = (fst h @ NUL # t, snd h @ NUL # u)
     \<and> 64 \<le> length t \<and> 64 \<le> length u \<and> length (snd h @ NUL # u) \<le> EST_CA_MAX \<and> length (fst h @ NUL # t) \<le> EST_CA_MAX) hs raw"

lemma raw_headersI:
  assumes "length tails = length hs" and "\<forall>(t, u) \<in> set tails. 64 \<le> length t \<and> 64 \<le> length u"
    and "\<forall>(a, b) \<in> set (map2 (\<lambda>h (t, u). (fst h @ [NUL, NUL] @ t, snd h @ [NUL, NUL] @ u)) hs tails). length a \<le> EST_CA_MAX \<and> length b \<le> EST_CA_MAX"
  shows "raw_headers hs (map2 (\<lambda>h (t, u). (fst h @ [NUL, NUL] @ t, snd h @ [NUL, NUL] @ u)) hs tails)"
  unfolding raw_headers_def using assms
proof (induction tails hs rule: list_induct2)
  case (Cons x xs h hs)
  obtain t u where x: "x = (t, u)" by (cases x)
  show ?case using Cons x by simp
qed simp

lemma get_response_status:
  assumes "concat chunks = response_text line hs body" and "\<forall>c \<in> set chunks. c \<noteq> []"
    and "line_ok line" and "12 \<le> length line" and "map_of http_statuses (take 12 line) = Some st"
    and "\<forall>h \<in> set hs. hdr_ok h" and "hs \<noteq> []" and "length hs \<le> MAX_HEADERS"
    and "hd0 body \<noteq> CR" "hd0 body \<noteq> LF"
    and "length (response_text line hs body) + 64 \<le> EST_CA_MAX"
    and result: "\<And>raw. raw_headers hs raw \<Longrightarrow>
      \<exists>ctx'. status_result st (ctx\<lparr>last_http_status := st\<rparr>) raw = Some (rv, ctx') \<and> P ctx'"
    and "rv \<noteq> EST_ERR_NONE"
  shows "\<exists>ctx'. est_io_get_response ctx (map Read_Bytes chunks) peek op = Some (rv, ctx', None) \<and> P ctx'"
proof -
  let ?T = "response_text line hs body"
  define pad where "pad = replicate (EST_CA_MAX - length ?T) NUL"
  let ?m = "line @ [NUL, NUL] @ concat (map cut_hdr hs) @ [NUL, NUL] @ body @ pad"
  let ?raw = "hdr_strings ?m (hdr_addrs (length line + 2) hs)"
  have T0: "?T \<noteq> []" by (simp add: response_text_def CRLF_def)
  have pad64: "64 \<le> length pad" using assms(11) by (simp add: pad_def)
  have "EST_CA_MAX \<le> RSIZE_MAX_STR" by (simp add: EST_CA_MAX_def RSIZE_MAX_STR_def)
  then have rsz: "length (?T @ pad) \<le> RSIZE_MAX_STR" using assms(11) by (simp add: pad_def)
  have read: "est_io_read_raw (map Read_Bytes chunks) peek EST_CA_MAX = (EST_ERR_NONE, ?T)"
    using read_loop_chunks [of chunks "[]" EST_CA_MAX] assms(1,2,11) by (simp add: est_io_read_raw_def)
  have st: "est_io_parse_response_status_code (?T @ pad) = st"
    using response_status_line [of line st "CRLF @ concat (map render_hdr hs) @ CRLF @ body @ pad"] assms(3-5)
    by (simp add: response_text_def line_ok_def)
  obtain k where "length pad = Suc k" using pad64 by (cases "length pad") auto
  then have hd: "hd0 (body @ pad) \<noteq> CR" "hd0 (body @ pad) \<noteq> LF" using assms(9,10) by (cases body; auto simp: pad_def)+
  have parse: "parse_http_headers (?T @ pad) = Some (?m, length (response_text line hs []), hdr_addrs (length line + 2) hs)"
    using parse_http_headers_render [OF assms(3,6-8) hd rsz] .
  obtain tails where t: "?raw = map2 (\<lambda>h (t, u). (fst h @ [NUL, NUL] @ t, snd h @ [NUL, NUL] @ u)) hs tails" "length tails = length hs"
      "\<forall>(t, u) \<in> set tails. length pad \<le> length t \<and> length pad \<le> length u"
    using hdr_strings_cut [OF assms(6), of "line @ [NUL, NUL]" "[NUL, NUL] @ body @ pad"] by fastforce
  have "length ?m = length ?T + length pad"
    by (simp add: response_text_def length_concat length_render_cut(1) comp_def)
  then have small: "length ?m \<le> EST_CA_MAX" using assms(11) by (simp add: pad_def)
  have "\<forall>(a, b) \<in> set ?raw. length a \<le> EST_CA_MAX \<and> length b \<le> EST_CA_MAX"
    using small by (auto simp: hdr_strings_def)
  moreover have "\<forall>(t, u) \<in> set tails. 64 \<le> length t \<and> 64 \<le> length u" using t(3) pad64 by fastforce
  ultimately have "raw_headers hs ?raw" unfolding t(1) using t(2) by (intro raw_headersI)
  from result [OF this] obtain ctx' where "status_result st (ctx\<lparr>last_http_status := st\<rparr>) ?raw = Some (rv, ctx')" "P ctx'" by blast
  then show ?thesis
    unfolding est_io_get_response_def read
    using T0 st parse assms(13) by (simp add: pad_def [symmetric] Let_def)
qed

text \<open>A Retry-After header with a number of seconds.\<close>

lemma strcasecmp_s_12:
  assumes "length n = 11" and "NUL \<notin> set n"
  shows "strcasecmp_s (Some (n @ NUL # t)) 12 (Some ''Retry-After'') False = (EOK, Some 0) \<longleftrightarrow> map toupper n = map toupper ''Retry-After''"
  using strcasecmp_loop_eq_0 [where d = "n @ NUL # t" and s = "''Retry-After''" and n = 12] assms
  by (simp add: strcasecmp_s_def RSIZE_MAX_STR_def)

lemma strisdigit_digits: "strisdigit_s (Some (digits n @ NUL # u)) 10"
proof -
  have "all_digits (ds @ NUL # u)" if "\<forall>c \<in> set ds. isdigit c" for ds
  using that
  proof (induction ds)
    case (Cons c ds)
    then have "48 \<le> schr c" "schr c \<le> 57" using schr_digit_iff [of c] by auto
    with Cons show ?case by simp
  qed simp
  then have "all_digits (digits n @ NUL # u)" using digits_all by simp
  moreover obtain c t where c: "digits n = c # t" using digits_nonempty by (cases "digits n") auto
  then have "hd0 (digits n @ NUL # u) \<noteq> NUL" using digits_all [of c n] isdigit_facts [of c] by simp
  ultimately show ?thesis by (simp add: strisdigit_s_def RSIZE_MAX_STR_def)
qed

lemma retry_loop_digits:
  assumes "int d \<le> INT_MAX"
  shows "retry_loop ((''Retry-After'' @ NUL # t, digits d @ NUL # u) # hs) rv ctx =
    retry_loop hs EST_ERR_CA_ENROLL_RETRY (ctx\<lparr>cl_retry_after_delay := int d\<rparr>)"
proof -
  obtain c s where c: "digits d = c # s" using digits_nonempty by (cases "digits d") auto
  have dg: "isdigit x" if "x \<in> set (digits d)" for x using that digits_all by simp
  then have na: "\<not> isalpha (hd0 (digits d @ NUL # u))" using isdigit_facts [of c] c by simp
  have "NUL \<notin> set (digits d)" using dg isdigit_facts by blast
  then have "number (digits d @ NUL # u) = int d" by (intro number_digits) simp
  then have at: "atoll (digits d @ NUL # u) = Some (int d)"
    using assms by (simp add: atoll_def INT_MAX_def LLONG_MAX_def)
  have "strcasecmp_s (Some (''Retry-After'' @ NUL # t)) 12 (Some ''Retry-After'') False = (EOK, Some 0)"
    by (subst strcasecmp_s_12) simp_all
  then show ?thesis using na at strisdigit_digits [of d u] assms by simp
qed

end
