(* ===== verification/Http_Conn.thy ===== *)
theory Http_Conn
  imports Server_Http Http_Client
begin

text \<open>
  The connection loop of the embedded HTTP server, \<^verbatim>\<open>src/src/est/est_server_http.c\<close>: waiting for and reading from
  the TLS connection, parsing a request in place in the receive buffer, reading its body, the call of
  the EST handlers, and keeping the connection for the next request. What the peer and the operating system do is a
  list of events; when none is left every further read fails. Log messages, time stamps and counters that nothing
  reads are not part of the model, and allocation does not fail.
\<close>

section \<open>The connection\<close>

definition MAX_REQUEST_SIZE :: nat where "MAX_REQUEST_SIZE = 16384"
definition EST_MAX_CONTENT_LEN :: int where "EST_MAX_CONTENT_LEN = 8192"
definition MSEC_POLL_WAIT_TIME :: nat where "MSEC_POLL_WAIT_TIME = 250"
definition NUM_REQUEST_HEADERS :: nat where "NUM_REQUEST_HEADERS = 64"
definition LLONG_MIN :: int where "LLONG_MIN = - (2 ^ 63)"

text \<open>
  The results of \<^verbatim>\<open>poll\<close> (with \<^verbatim>\<open>SSL_pending\<close>): data, nothing within the wait time, a signal, an error, and nothing
  while the master asked to stop (before the time is up). The result of \<^verbatim>\<open>SSL_read\<close>: bytes (none, when OpenSSL wants to read more), an error,
  and a result that is dropped because the master asked to stop. An event is the polls before a read and the read.
\<close>

datatype poll_result = Poll_Ready | Poll_Idle | Poll_Eintr | Poll_Fail | Poll_Stop
datatype pull_result = Pull_Bytes string | Pull_Error | Pull_Stop
type_synonym conn_event = "poll_result list \<times> pull_result"

text \<open>
  The connection beside the HTTP side of the handlers. \<open>c_heap n\<close> is what a block of \<open>n\<close> bytes holds when it is
  allocated. \<open>handled\<close> records the requests the handlers were called with: method, URI, body and content type.
\<close>

record CONN =
  http :: HTTP_CTX
  consumed_content :: int
  events :: "conn_event list"
  stop_flag :: bool
  read_timeout :: nat
  c_heap :: "nat \<Rightarrow> mem"
  handled :: "(string \<times> string \<times> string \<times> string option) list"

definition upd_conn :: "(mg_connection \<Rightarrow> mg_connection) \<Rightarrow> CONN \<Rightarrow> CONN" where
  "upd_conn f c = c\<lparr>http := (http c)\<lparr>conn := f (conn (http c))\<rparr>\<rparr>"

definition upd_http :: "(HTTP_CTX \<Rightarrow> HTTP_CTX) \<Rightarrow> CONN \<Rightarrow> CONN" where
  "upd_http f c = c\<lparr>http := f (http c)\<rparr>"

abbreviation mg :: "CONN \<Rightarrow> mg_connection" where
  "mg c \<equiv> conn (http c)"

section \<open>Reading\<close>

datatype wait_result = Wait_Ready | Wait_Timeout | Wait_Fail | Wait_Stop

fun wait_loop :: "nat \<Rightarrow> nat \<Rightarrow> poll_result list \<Rightarrow> wait_result" where
  "wait_loop timeout waited [] = Wait_Fail"
| "wait_loop timeout waited (p # ps) =
     (let waited' = waited + MSEC_POLL_WAIT_TIME in
      case p of
        Poll_Ready \<Rightarrow> Wait_Ready
      | Poll_Idle \<Rightarrow> if waited' > timeout then Wait_Timeout else wait_loop timeout waited' ps
      | Poll_Eintr \<Rightarrow> wait_loop timeout waited' ps
      | Poll_Fail \<Rightarrow> Wait_Fail
      | Poll_Stop \<Rightarrow> Wait_Stop)"

definition wait_until_socket_is_readable :: "nat \<Rightarrow> poll_result list \<Rightarrow> wait_result" where
  "wait_until_socket_is_readable timeout polls = wait_loop (timeout * 1000) 0 polls"

text \<open>
  \<^verbatim>\<open>pull\<close> of at most \<open>len\<close> bytes: the bytes, or \<open>None\<close> for a negative result. Bytes that do not fit stay in the TLS layer,
  where \<^verbatim>\<open>SSL_pending\<close> announces them.
\<close>

definition pull :: "nat \<Rightarrow> CONN \<Rightarrow> string option \<times> CONN" where
  "pull len c =
     (if stop_flag c then (None, c)
      else case events c of
        [] \<Rightarrow> (None, c)
      | (polls, res) # evs \<Rightarrow>
          (let c1 = c\<lparr>events := evs\<rparr>;
               ready = (if must_close (mg c) then Wait_Ready else wait_until_socket_is_readable (read_timeout c) polls) in
           case ready of
             Wait_Fail \<Rightarrow> (None, c1)
           | Wait_Timeout \<Rightarrow> (None, upd_conn (must_close_update (\<lambda>_. True)) c1)
           | Wait_Stop \<Rightarrow> (None, c1\<lparr>stop_flag := True\<rparr>)
           | Wait_Ready \<Rightarrow>
               (case res of
                  Pull_Error \<Rightarrow> (None, c1)
                | Pull_Stop \<Rightarrow> (None, c1\<lparr>stop_flag := True\<rparr>)
                | Pull_Bytes bs \<Rightarrow>
                    if length bs \<le> len then (Some bs, c1)
                    else (Some (take len bs), c\<lparr>events := ([Poll_Ready], Pull_Bytes (drop len bs)) # evs\<rparr>))))"

definition event_size :: "conn_event \<Rightarrow> nat" where
  "event_size e = (case snd e of Pull_Bytes bs \<Rightarrow> Suc (length bs) | _ \<Rightarrow> 1)"

definition input_size :: "CONN \<Rightarrow> nat" where
  "input_size c = sum_list (map event_size (events c))"

lemma upd_conn_simps [simp]:
  "events (upd_conn f c) = events c" "consumed_content (upd_conn f c) = consumed_content c" "stop_flag (upd_conn f c) = stop_flag c"
  "read_timeout (upd_conn f c) = read_timeout c" "c_heap (upd_conn f c) = c_heap c" "handled (upd_conn f c) = handled c"
  "mg (upd_conn f c) = f (mg c)" "input_size (upd_conn f c) = input_size c"
  by (simp_all add: upd_conn_def input_size_def)

lemma pull_decreases:
  assumes "pull len c = (Some bs, c')" and "0 < len"
  shows "input_size c' + length bs \<le> input_size c \<and> input_size c' < input_size c"
  using assms
  by (auto simp: pull_def input_size_def event_size_def Let_def split: if_splits list.splits wait_result.splits pull_result.splits)

lemma pull_length: "pull len c = (Some bs, c') \<Longrightarrow> length bs \<le> len"
  by (auto simp: pull_def Let_def split: if_splits list.splits wait_result.splits pull_result.splits)

text \<open>\<^verbatim>\<open>read_request\<close> fills the buffer until a request is complete; the length, 0 when the buffer is full, or -1.\<close>

function read_request :: "nat \<Rightarrow> CONN \<Rightarrow> (int \<times> CONN) option" where
  "read_request bufsiz c =
     (let n = data_len (mg c); request_length = get_request_len (conn_buf (mg c)) n in
      if n < bufsiz \<and> request_length = 0 then
        (case pull (bufsiz - n) c of
           (None, c') \<Rightarrow> Some (-1, c')
         | (Some bs, c') \<Rightarrow>
             do { m \<leftarrow> wr_block (conn_buf (mg c')) n bs;
                  read_request bufsiz (upd_conn (\<lambda>cn. cn\<lparr>conn_buf := m, data_len := n + length bs\<rparr>) c') })
      else Some (request_length, c))"
  by pat_completeness auto
termination
  by (relation "measure (\<lambda>(b, c). input_size c)") (auto dest: pull_decreases [OF sym])

declare read_request.simps [simp del]

text \<open>The rest of a body after what was buffered, into \<open>b\<close> from \<open>off\<close> on; the result is the number of bytes, or -1.\<close>

function pull_body :: "mem \<Rightarrow> nat \<Rightarrow> nat \<Rightarrow> CONN \<Rightarrow> (int \<times> mem \<times> CONN) option" where
  "pull_body b off len c =
     (if len = 0 then Some (int off, b, c)
      else case pull len c of
        (None, c') \<Rightarrow> Some (-1, b, c')
      | (Some bs, c') \<Rightarrow>
          do { b' \<leftarrow> wr_block b off bs;
               pull_body b' (off + length bs) (len - length bs)
                 (c'\<lparr>consumed_content := consumed_content c' + int (length bs)\<rparr>) })"
  by pat_completeness auto
termination
  by (relation "measure (\<lambda>(b, off, len, c). input_size c)") (auto simp: input_size_def dest!: pull_decreases [OF sym])

declare pull_body.simps [simp del]

definition mg_read :: "mem \<Rightarrow> nat \<Rightarrow> CONN \<Rightarrow> (int \<times> mem \<times> CONN) option" where
  "mg_read b len c =
     (if consumed_content c < content_len (mg c) then
        (let len1 = min len (nat (content_len (mg c) - consumed_content c));
             body = request_len (mg c) + consumed_content c;
             buffered_len = int (data_len (mg c)) - body;
             n = (if buffered_len > 0 then min len1 (nat buffered_len) else 0) in
         do { bs \<leftarrow> (if n = 0 then Some [] else rd_block (conn_buf (mg c)) (nat body) n);
              b1 \<leftarrow> wr_block b 0 bs;
              pull_body b1 n (len1 - n) (c\<lparr>consumed_content := consumed_content c + int n\<rparr>) })
      else Some (0, b, c))"

section \<open>Parsing\<close>

text \<open>The pointers of \<^verbatim>\<open>struct mg_request_info\<close> into the buffer.\<close>

record REQ_PTRS =
  ptr_method :: nat
  ptr_uri :: nat
  ptr_version :: nat
  ptr_headers :: "(nat \<times> nat) list"

fun mg_parse_http_headers :: "nat \<Rightarrow> mem \<Rightarrow> nat \<Rightarrow> (mem \<times> nat \<times> (nat \<times> nat) list) option" where
  "mg_parse_http_headers 0 m p = Some (m, p, [])"
| "mg_parse_http_headers (Suc n) m p =
     do { (m1, p1, name) \<leftarrow> skip_quoted m p '':'' '' '' NUL;
          (m2, p2, val) \<leftarrow> skip m1 p1 CRLF;
          c \<leftarrow> rd m2 name;
          if c = NUL then Some (m2, p2, [])
          else do { (m3, p3, hs) \<leftarrow> mg_parse_http_headers n m2 p2; Some (m3, p3, (name, val) # hs) } }"

definition parse_http_message :: "mem \<Rightarrow> nat \<Rightarrow> (int \<times> mem \<times> REQ_PTRS option) option" where
  "parse_http_message buf len =
     (let request_length = get_request_len buf len in
      if request_length > 0 then
        do { m \<leftarrow> wr buf (nat request_length - 1) NUL;
             (m1, p1, method) \<leftarrow> skip m (length (takeWhile isspace m)) '' '';
             (m2, p2, u) \<leftarrow> skip m1 p1 '' '';
             (m3, p3, v) \<leftarrow> skip m2 p2 CRLF;
             (m4, p4, hs) \<leftarrow> mg_parse_http_headers NUM_REQUEST_HEADERS m3 p3;
             Some (request_length, m4, Some \<lparr>ptr_method = method, ptr_uri = u, ptr_version = v, ptr_headers = hs\<rparr>) }
      else Some (request_length, buf, None))"

definition parse_http_request :: "mem \<Rightarrow> nat \<Rightarrow> (int \<times> mem \<times> REQ_PTRS option) option" where
  "parse_http_request buf len =
     do { (result, m, ri) \<leftarrow> parse_http_message buf len;
          (case ri of
             None \<Rightarrow> Some (-1, m, None)
           | Some p \<Rightarrow>
               if is_valid_http_method (drop (ptr_method p) m) \<and> strncmp (drop (ptr_version p) m) ''HTTP/'' 5 = 0
               then Some (result, m, Some (p\<lparr>ptr_version := ptr_version p + 5\<rparr>))
               else Some (-1, m, Some p)) }"

text \<open>The strings the pointers refer to.\<close>

definition string_at :: "mem \<Rightarrow> nat \<Rightarrow> string" where
  "string_at m p = cstr (drop p m)"

definition request_view :: "mem \<Rightarrow> REQ_PTRS \<Rightarrow> mg_request_info \<Rightarrow> mg_request_info" where
  "request_view m p ri = ri\<lparr>request_method := Some (string_at m (ptr_method p)), uri := Some (string_at m (ptr_uri p)),
     http_version := Some (string_at m (ptr_version p)),
     http_headers := map (\<lambda>(n, v). (string_at m n, string_at m v)) (ptr_headers p)\<rparr>"

section \<open>Handling a request\<close>

text \<open>What the server is built with and the TLS session; \<open>sv_proxy\<close> stands for \<^verbatim>\<open>est_proxy_http_request\<close>.\<close>

type_synonym request_handler =
  "EST_CTX \<Rightarrow> string \<Rightarrow> string \<Rightarrow> string \<Rightarrow> string option \<Rightarrow> HTTP_CTX \<Rightarrow> (EST_ERROR \<times> EST_CTX \<times> HTTP_CTX) option"

record SERVER_ENV =
  sv_build :: build
  sv_ossl :: OPENSSL
  sv_asn1 :: ASN1
  sv_ssl :: "SSL option"
  sv_proxy :: request_handler

definition est_handler :: "SERVER_ENV \<Rightarrow> request_handler" where
  "est_handler env ctx method u body ct w =
     (case est_mode ctx of
        EST_SERVER \<Rightarrow> est_http_request (sv_build env) (sv_ossl env) (sv_asn1 env) ctx (sv_ssl env) method u body ct w
      | EST_PROXY \<Rightarrow> sv_proxy env ctx method u body ct w
      | EST_CLIENT \<Rightarrow> Some (EST_ERR_NONE, ctx, w))"

definition read_body :: "CONN \<Rightarrow> (string \<times> CONN) option" where
  "read_body c =
     (case mg_get_header (mg c) ''Content-Length'' of
        None \<Rightarrow> Some ([], c)
      | Some cl_hdr \<Rightarrow>
          do { cl \<leftarrow> atoi cl_hdr;
               if cl < 0 then None
               else do { (_, body, c') \<leftarrow> mg_read (c_heap c (nat cl + 1)) (nat cl) c;
                         body' \<leftarrow> wr body (nat cl) NUL;
                         Some (take (nat cl) body', c') } })"

definition est_mg_handler :: "SERVER_ENV \<Rightarrow> EST_CTX \<Rightarrow> CONN \<Rightarrow> (EST_ERROR \<times> EST_CTX \<times> CONN) option" where
  "est_mg_handler env ectx c =
     do { (body, c1) \<leftarrow> read_body c;
          method \<leftarrow> request_method (request_info (mg c1));
          u \<leftarrow> uri (request_info (mg c1));
          let ct = mg_get_header (mg c1) ''Content-Type'';
          (rv, ectx', w) \<leftarrow> est_handler env ectx method u body ct (http c1);
          Some (rv, ectx', c1\<lparr>http := w, handled := handled c1 @ [(method, u, body, ct)]\<rparr>) }"

text \<open>\<^verbatim>\<open>handle_request\<close>: the query is cut off, the path decoded and cleaned in place, then the EST handler runs.\<close>

definition decode_uri :: "mem \<Rightarrow> nat \<Rightarrow> (mem \<times> string option) option" where
  "decode_uri m u =
     (let (m1, query) = (case strchr (drop u m) CHR ''?'' of
                           Some i \<Rightarrow> (m[u + i := NUL], Some (string_at m (u + i + 1)))
                         | None \<Rightarrow> (m, None));
          uri_len = strnlen_s (Some (drop u m1)) EST_URI_MAX_LEN in
      do { (m2, _) \<leftarrow> url_decode m1 u uri_len u (uri_len + 1) False;
           m3 \<leftarrow> wr_block m2 u (remove_double_dots_and_double_slashes (string_at m2 u) @ [NUL]);
           Some (m3, query) })"

definition handle_request :: "SERVER_ENV \<Rightarrow> EST_CTX \<Rightarrow> REQ_PTRS \<Rightarrow> CONN \<Rightarrow> (EST_CTX \<times> CONN) option" where
  "handle_request env ectx p c =
     do { (m, query) \<leftarrow> decode_uri (conn_buf (mg c)) (ptr_uri p);
          (_, ectx', c') \<leftarrow> est_mg_handler env ectx
             (upd_conn (\<lambda>cn. cn\<lparr>conn_buf := m,
                request_info := (request_info cn)\<lparr>uri := Some (string_at m (ptr_uri p)), query_string := query\<rparr>\<rparr>) c);
          Some (ectx', c') }"

section \<open>The loop\<close>

definition reset_per_request_attributes :: "CONN \<Rightarrow> CONN" where
  "reset_per_request_attributes c =
     (upd_conn (\<lambda>cn. cn\<lparr>status_code := -1, must_close := False, request_len := 0\<rparr>) c)\<lparr>consumed_content := 0\<rparr>"

definition strtoll :: "string \<Rightarrow> int" where
  "strtoll s = max LLONG_MIN (min LLONG_MAX (number s))"

definition content_length :: "mg_request_info \<Rightarrow> int" where
  "content_length ri =
     (case get_header ri ''Content-Length'' of
        Some cl \<Rightarrow> strtoll cl
      | None \<Rightarrow>
          (case request_method ri of
             None \<Rightarrow> 0
           | Some method \<Rightarrow> if mg_strcasecmp method ''POST'' = 0 \<or> mg_strcasecmp method ''PUT'' = 0 then -1 else 0))"

text \<open>A request that was read and parsed.\<close>

definition serve_valid :: "SERVER_ENV \<Rightarrow> EST_CTX \<Rightarrow> REQ_PTRS \<Rightarrow> CONN \<Rightarrow> (EST_CTX \<times> CONN) option" where
  "serve_valid env ectx p c =
     (let c1 = upd_conn (\<lambda>cn. cn\<lparr>content_len := content_length (request_info cn)\<rparr>) c in
      if content_len (mg c1) > EST_MAX_CONTENT_LEN then
        Some (ectx, upd_http (mg_send_http_error 413 ''Content-Length too large'' []) c1)
      else if content_len (mg c1) < 0 then
        Some (ectx, upd_http (mg_send_http_error 400 ''Bad Request'' ''Content-Length is negative'') c1)
      else handle_request env ectx p c1)"

definition serve_parsed :: "SERVER_ENV \<Rightarrow> EST_CTX \<Rightarrow> int \<Rightarrow> REQ_PTRS option \<Rightarrow> CONN \<Rightarrow> (EST_CTX \<times> CONN) option" where
  "serve_parsed env ectx result ri c =
     (case ri of
        Some p \<Rightarrow>
          (let m = conn_buf (mg c); version = drop (ptr_version p) m in
           if result \<le> 0 \<or> \<not> is_valid_uri (drop (ptr_uri p) m) then
             Some (ectx, upd_conn (must_close_update (\<lambda>_. True))
               (upd_http (mg_send_http_error 400 ''Bad Request''
                  (''Cannot parse HTTP request: ['' @ take (data_len (mg c)) (cstr m) @ '']'')) c))
           else if strncmp version ''1.0'' 3 \<noteq> 0 \<and> strncmp version ''1.1'' 3 \<noteq> 0 then
             Some (ectx, upd_http (mg_send_http_error 505 ''HTTP version not supported'' []) c)
           else serve_valid env ectx p c)
      | None \<Rightarrow>
          Some (ectx, upd_conn (must_close_update (\<lambda>_. True))
            (upd_http (mg_send_http_error 400 ''Bad Request''
               (''Cannot parse HTTP request: ['' @ take (data_len (mg c)) (cstr (conn_buf (mg c))) @ '']'')) c)))"

text \<open>Buffered data of the request is dropped and what follows it moves to the front.\<close>

definition discard_request :: "CONN \<Rightarrow> CONN option" where
  "discard_request c =
     (let n = int (data_len (mg c)); len = request_len (mg c) + content_len (mg c);
          discard_len = nat (if content_len (mg c) \<ge> 0 \<and> len < n then len else n);
          left = data_len (mg c) - discard_len in
      do { (m, _) \<leftarrow> (if left > 0 then memmove_s (conn_buf (mg c)) (Some 0) MAX_REQUEST_SIZE (Some discard_len) left
                      else Some (conn_buf (mg c), EOK));
           Some (upd_conn (\<lambda>cn. cn\<lparr>conn_buf := m, data_len := left\<rparr>) c) })"

text \<open>The end of a pass: whether the loop goes on is decided before the parsed request is overwritten.\<close>

definition end_request :: "EST_CTX \<Rightarrow> CONN \<Rightarrow> (bool \<times> EST_CTX \<times> CONN) option" where
  "end_request ectx c =
     (let keep_alive = should_keep_alive (mg c) in
      do { c' \<leftarrow> discard_request c;
           Some (\<not> stop_flag c' \<and> enable_keepalives (mg c') \<and> content_len (mg c') \<ge> 0 \<and> keep_alive, ectx, c') })"

text \<open>One pass of the loop: whether it goes on, the context and the connection. A failed assertion is \<open>None\<close>.\<close>

definition serve_request :: "SERVER_ENV \<Rightarrow> EST_CTX \<Rightarrow> CONN \<Rightarrow> (bool \<times> EST_CTX \<times> CONN) option" where
  "serve_request env ectx c =
     do { (n, c1) \<leftarrow> read_request MAX_REQUEST_SIZE (reset_per_request_attributes c);
          let c2 = upd_conn (request_len_update (\<lambda>_. n)) c1;
          if \<not> (n < 0 \<or> n \<le> int (data_len (mg c2))) then None
          else if n = 0 \<and> data_len (mg c2) = MAX_REQUEST_SIZE then
            Some (False, ectx, upd_http (mg_send_http_error 413 ''Request Too Large'' []) c2)
          else if n \<le> 0 then Some (False, ectx, c2)
          else
            do { (result, m, ri) \<leftarrow> parse_http_request (conn_buf (mg c2)) MAX_REQUEST_SIZE;
                 let c3 = upd_conn (\<lambda>cn. cn\<lparr>conn_buf := m,
                   request_info := (case ri of None \<Rightarrow> request_info cn | Some p \<Rightarrow> request_view m p (request_info cn))\<rparr>) c2;
                 (ectx', c4) \<leftarrow> serve_parsed env ectx result ri c3;
                 end_request ectx' c4 } }"

partial_function (option) serve_requests :: "SERVER_ENV \<Rightarrow> EST_CTX \<Rightarrow> CONN \<Rightarrow> (EST_CTX \<times> CONN) option" where
  "serve_requests env ectx c =
     Option.bind (serve_request env ectx c)
       (\<lambda>(again, ectx', c'). if again then serve_requests env ectx' c' else Some (ectx', c'))"

definition process_new_connection :: "SERVER_ENV \<Rightarrow> EST_CTX \<Rightarrow> CONN \<Rightarrow> (EST_CTX \<times> CONN) option" where
  "process_new_connection env ectx c = serve_requests env ectx (upd_conn (data_len_update (\<lambda>_. 0)) c)"

section \<open>Parsing stays inside the request\<close>

lemma cstr_before_nul:
  assumes "b \<le> k" and "k < length m" and "m ! k = NUL"
  shows "b + length (cstr (drop b m)) \<le> k"
proof (rule ccontr)
  assume "\<not> ?thesis"
  then have less: "k - b < length (cstr (drop b m))" using assms(1) by linarith
  then have "cstr (drop b m) ! (k - b) = m ! k"
    using assms by (simp add: cstr_def takeWhile_nth)
  then show False using nth_mem [OF less] assms(3) cstr_no_nul [of "drop b m"] by simp
qed

lemma same_outside_zero_range: "a + n \<le> length m \<Longrightarrow> same_outside a (a + n) m (zero_range m a n)"
proof (induction n arbitrary: a m)
  case (Suc n)
  have "same_outside (Suc a) (Suc a + n) (m[a := NUL]) (zero_range (m[a := NUL]) (Suc a) n)"
    using Suc.prems by (intro Suc.IH) simp
  then have "same_outside a (a + Suc n) (m[a := NUL]) (zero_range (m[a := NUL]) (Suc a) n)" by (rule same_outside_mono) simp_all
  with same_outside_update [of a a "a + Suc n" m NUL] show ?case by (auto intro: same_outside_trans)
qed simp

lemma est_span_bounds:
  assumes "length s \<le> RSIZE_MAX_STR" and "length d \<le> RSIZE_MAX_STR"
  shows "est_strcspn s d \<le> length (cstr s)" "est_strspn s d \<le> length (cstr s)"
  using assms by (simp_all add: est_strcspn_eq est_strspn_eq length_takeWhile_le)

text \<open>
  With a terminator at \<open>k\<close>, cutting a word without a quote character succeeds, moves the cursor at most to \<open>k\<close> and writes
  only between the old cursor and \<open>k\<close>.
\<close>

lemma skip_quoted_total:
  assumes "b \<le> k" and "k < length m" and "m ! k = NUL" and "length m \<le> RSIZE_MAX_STR"
    and "length d \<le> RSIZE_MAX_STR" and "length white \<le> RSIZE_MAX_STR"
  obtains m' s where "skip_quoted m b d white NUL = Some (m', s, b)" "b \<le> s" "s \<le> k" "same_outside b k m m'"
proof -
  define e where "e = b + est_strcspn (drop b m) d"
  have span: "est_strcspn (drop b m) d \<le> length (cstr (drop b m))" using assms(4,5) by (intro est_span_bounds) simp_all
  then have e: "b \<le> e" "e \<le> k" using cstr_before_nul [OF assms(1-3)] by (auto simp: e_def)
  have first: "(if e > b then do { (m', p, e') \<leftarrow> skip_quoted_loop m (e - 1) e d NUL; Some (zero_range m' (p + 1) (e' - (p + 1)), e') }
      else Some (m, e)) = Some (m, e)"
  proof (cases "e > b")
    case True
    have len: "e - 1 - b < length (cstr (drop b m))"
      using span True by (auto simp: e_def)
    then have "cstr (drop b m) ! (e - 1 - b) = m ! (e - 1)"
      using True e assms(2) by (simp add: cstr_def takeWhile_nth)
    then have "m ! (e - 1) \<noteq> NUL" using nth_mem [OF len] cstr_no_nul [of "drop b m"] by metis
    then have "skip_quoted_loop m (e - 1) e d NUL = Some (m, e - 1, e)"
      using e assms(2) by (subst skip_quoted_loop.simps) (simp add: rd_def)
    then show ?thesis using True by simp
  qed simp
  show thesis
  proof (cases "m ! e = NUL")
    case True
    have "skip_quoted m b d white NUL = Some (m, e, b)"
      unfolding skip_quoted_def Let_def e_def [symmetric] first using True e assms(2) by (simp add: rd_def)
    then show ?thesis using that e by simp
  next
    case False
    then have ek: "e < k" using e assms(3) by (cases "e = k") auto
    define f where "f = e + 1 + est_strspn (drop (e + 1) m) white"
    have "est_strspn (drop (e + 1) m) white \<le> length (cstr (drop (e + 1) m))" using assms(4,6) by (intro est_span_bounds) simp_all
    then have f: "e < f" "f \<le> k" using cstr_before_nul [of "e + 1" k m] assms(2,3) ek by (auto simp: f_def)
    have "skip_quoted m b d white NUL = Some (zero_range m e (f - e), f, b)"
      unfolding skip_quoted_def Let_def e_def [symmetric] first using False e assms(2) by (simp add: rd_def f_def)
    moreover have "same_outside b k m (zero_range m e (f - e))"
    proof (rule same_outside_mono)
      show "same_outside e (e + (f - e)) m (zero_range m e (f - e))" using f assms(2) by (intro same_outside_zero_range) simp
    qed (use e f in simp_all)
    ultimately show ?thesis using that f e by simp
  qed
qed

lemmas delims_short = RSIZE_MAX_STR_def CRLF_def

lemma skip_total:
  assumes "b \<le> k" and "k < length m" and "m ! k = NUL" and "length m \<le> RSIZE_MAX_STR" and "d \<in> {'' '', CRLF}"
  obtains m' s where "skip m b d = Some (m', s, b)" "b \<le> s" "s \<le> k" "same_outside b k m m'" "m' ! k = NUL" "length m' = length m"
proof -
  have "length d \<le> RSIZE_MAX_STR" using assms(5) by (auto simp: delims_short)
  from skip_quoted_total [OF assms(1-4) this this] obtain m' s where
    s: "skip_quoted m b d d NUL = Some (m', s, b)" "b \<le> s" "s \<le> k" "same_outside b k m m'" by blast
  then show thesis using that assms(2,3) by (auto simp: skip_def same_outside_def)
qed

text \<open>The loop over the headers.\<close>

lemma parse_headers_total:
  assumes "b \<le> k" and "k < length m" and "m ! k = NUL" and "length m \<le> RSIZE_MAX_STR"
  shows "\<exists>m' s hs. mg_parse_http_headers n m b = Some (m', s, hs) \<and> same_outside b k m m' \<and> length hs \<le> n
    \<and> (\<forall>(nm, v) \<in> set hs. nm \<le> k \<and> v \<le> k)"
  using assms
proof (induction n arbitrary: m b)
  case (Suc n)
  obtain m1 s1 where 1: "skip_quoted m b '':'' '' '' NUL = Some (m1, s1, b)" "b \<le> s1" "s1 \<le> k" "same_outside b k m m1"
    using skip_quoted_total [OF Suc.prems, of "'':''" "'' ''"] by (auto simp: delims_short)
  then have m1: "length m1 = length m" "m1 ! k = NUL" using Suc.prems by (auto simp: same_outside_def)
  obtain m2 s2 where 2: "skip m1 s1 CRLF = Some (m2, s2, s1)" "s1 \<le> s2" "s2 \<le> k" "same_outside s1 k m1 m2"
    "m2 ! k = NUL" "length m2 = length m1"
    using skip_total [of s1 k m1 CRLF] 1(3) m1 Suc.prems by auto
  have so: "same_outside b k m m2" using same_outside_trans [OF 1(4)] same_outside_mono [OF 2(4)] 1(2) by blast
  obtain m3 s3 hs where 3: "mg_parse_http_headers n m2 s2 = Some (m3, s3, hs)" "same_outside s2 k m2 m3" "length hs \<le> n"
    "\<forall>(nm, v) \<in> set hs. nm \<le> k \<and> v \<le> k"
    using Suc.IH [of s2 m2] 2 m1 Suc.prems by auto
  have "same_outside b k m m3" using same_outside_trans [OF so] same_outside_mono [OF 3(2)] 1(2) 2(2) by (meson le_trans order_refl)
  moreover have "rd m2 b = Some (m2 ! b)" using 1(2,3) 2(6) m1(1) Suc.prems(2) by (simp add: rd_def)
  ultimately show ?case
    unfolding mg_parse_http_headers.simps using 1 2 3 so by auto
qed simp

definition ptrs_within :: "nat \<Rightarrow> REQ_PTRS \<Rightarrow> bool" where
  "ptrs_within k p \<longleftrightarrow> ptr_method p \<le> k \<and> ptr_uri p \<le> k \<and> ptr_version p \<le> k
     \<and> length (ptr_headers p) \<le> NUM_REQUEST_HEADERS \<and> (\<forall>(n, v) \<in> set (ptr_headers p). n \<le> k \<and> v \<le> k)"

lemma parse_message_total:
  assumes "get_request_len buf len = int (Suc k)" and "k < length buf" and "length buf \<le> RSIZE_MAX_STR"
  shows "\<exists>m p. parse_http_message buf len = Some (int (Suc k), m, Some p) \<and> same_outside 0 (Suc k) buf m \<and> m ! k = NUL
    \<and> length m = length buf \<and> ptrs_within k p"
proof -
  define m where "m = buf[k := NUL]"
  have m: "length m = length buf" "m ! k = NUL" "same_outside 0 (Suc k) buf m"
    using assms(2) same_outside_update [of 0 k "Suc k" buf NUL] by (auto simp: m_def)
  have ws: "length (takeWhile isspace m) \<le> k"
  proof (rule ccontr)
    assume less: "\<not> ?thesis"
    then have "takeWhile isspace m ! k = NUL" using m by (simp add: takeWhile_nth)
    then show False using less nth_mem [of k "takeWhile isspace m"] set_takeWhileD [of NUL isspace m] by simp
  qed
  let ?b = "length (takeWhile isspace m)"
  obtain m1 s1 where 1: "skip m ?b '' '' = Some (m1, s1, ?b)" "?b \<le> s1" "s1 \<le> k" "same_outside ?b k m m1" "m1 ! k = NUL" "length m1 = length m"
    using skip_total [OF ws, of m "'' ''"] m assms by auto
  obtain m2 s2 where 2: "skip m1 s1 '' '' = Some (m2, s2, s1)" "s1 \<le> s2" "s2 \<le> k" "same_outside s1 k m1 m2" "m2 ! k = NUL" "length m2 = length m1"
    using skip_total [of s1 k m1 "'' ''"] 1 m assms by auto
  obtain m3 s3 where 3: "skip m2 s2 CRLF = Some (m3, s3, s2)" "s2 \<le> s3" "s3 \<le> k" "same_outside s2 k m2 m3" "m3 ! k = NUL" "length m3 = length m2"
    using skip_total [of s2 k m2 CRLF] 1 2 m assms by auto
  obtain m4 s4 hs where 4: "mg_parse_http_headers NUM_REQUEST_HEADERS m3 s3 = Some (m4, s4, hs)" "same_outside s3 k m3 m4"
    "length hs \<le> NUM_REQUEST_HEADERS" "\<forall>(nm, v) \<in> set hs. nm \<le> k \<and> v \<le> k"
    using parse_headers_total [of s3 k m3 NUM_REQUEST_HEADERS] 1 2 3 m assms by auto
  have "same_outside 0 (Suc k) buf m4"
    using m(3) 1(4) 2(4) 3(4) 4(2) by (meson le_SucI le0 order_refl same_outside_mono same_outside_trans)
  moreover have "m4 ! k = NUL" "length m4 = length buf"
    using 4(2) 3(5,6) 2(6) 1(6) m(1) assms(2) by (auto simp: same_outside_def)
  moreover have "wr buf (nat (int (Suc k)) - 1) NUL = Some m" unfolding nat_int using assms(2) by (simp add: wr_def m_def)
  moreover have "ptrs_within k \<lparr>ptr_method = ?b, ptr_uri = s1, ptr_version = s2, ptr_headers = hs\<rparr>"
    using ws 1 2 4 by (simp add: ptrs_within_def)
  ultimately show ?thesis
    unfolding parse_http_message_def assms(1) using 1(1) 2(1) 3(1) 4(1) by (simp add: Let_def)
qed


section \<open>Decoding the path\<close>

lemma remove_subset: "set (remove_double_dots_and_double_slashes s) \<subseteq> set s \<and> length (remove_double_dots_and_double_slashes s) \<le> length s"
proof (induction s rule: remove_double_dots_and_double_slashes.induct)
  case (2 c s)
  have "set (skip_dots_slashes t) \<subseteq> set t" for t
  proof (induction t rule: skip_dots_slashes.induct)
    case (2 c s)
    then show ?case by (cases s) auto
  qed simp
  moreover have "length (skip_dots_slashes s) \<le> length s" by (rule skip_dots_slashes_length)
  ultimately show ?case using 2 by (cases "is_slash c") (auto dest: le_trans)
qed simp

text \<open>The decoding loop with a terminator at \<open>k\<close>, not before the end of its input.\<close>

lemma pct_at_total:
  assumes "p < k" and "k < length m" and "m ! k = NUL"
  shows "\<exists>x. pct_at m p = Some x"
proof -
  have "Suc (Suc p) < length m" if "isxdigit (m ! Suc p)"
    using that assms by (cases "Suc p = k") auto
  then show ?thesis using assms by (auto simp: pct_at_def rd_def)
qed

lemma url_decode_loop_total:
  assumes "k < length m" and "m ! k = NUL" and "u + n \<le> k" and "j \<le> n"
  shows "\<exists>m' i' j'. url_decode_loop m u n u (n + 1) False i j = Some (m', i', j') \<and> same_outside u (u + n) m m' \<and> j' \<le> n"
  using assms
proof (induction "n - i" arbitrary: m i j rule: less_induct)
  case less
  show ?case
  proof (cases "i < n \<and> j < n")
    case False
    then show ?thesis using less.prems by (subst url_decode_loop.simps) auto
  next
    case True
    obtain x where x: "pct_at m (u + i) = Some x" using pct_at_total [of "u + i" k m] True less.prems by auto
    define y where "y = (case x of Some z \<Rightarrow> z | None \<Rightarrow> m ! (u + i))"
    define st where "st = (case x of Some z \<Rightarrow> i + 3 | None \<Rightarrow> i + 1)"
    define m1 where "m1 = m[u + j := y]"
    have m1: "k < length m1" "m1 ! k = NUL" "same_outside u (u + n) m m1"
      using True less.prems same_outside_update [of u "u + j" "u + n" m y] by (auto simp: m1_def)
    have "n - st < n - i" using True by (auto simp: st_def split: option.split)
    from less.hyps [OF this m1(1,2) less.prems(3)] True obtain m' i' j' where
      rec: "url_decode_loop m1 u n u (n + 1) False st (j + 1) = Some (m', i', j')" "same_outside u (u + n) m1 m'" "j' \<le> n"
      by (metis Suc_eq_plus1 Suc_leI)
    have "wr m (u + j) z = Some (m[u + j := z])" for z using True less.prems by (simp add: wr_def)
    moreover have "rd m (u + i) = Some (m ! (u + i))" using True less.prems by (simp add: rd_def)
    ultimately have "url_decode_loop m u n u (n + 1) False i j = Some (m', i', j')"
      using True x rec(1) by (subst url_decode_loop.simps, cases x) (simp_all add: y_def st_def m1_def)
    then show ?thesis using same_outside_trans [OF m1(3) rec(2)] rec(3) by blast
  qed
qed

definition uri_delivered :: "string \<Rightarrow> bool" where
  "uri_delivered u \<longleftrightarrow> path_ok u \<and> length u \<le> EST_URI_MAX_LEN \<and> NUL \<notin> set u"

lemma decode_uri_total:
  assumes "u \<le> k" and "k < length m" and "m ! k = NUL"
  shows "\<exists>m' q. decode_uri m u = Some (m', q) \<and> same_outside u (Suc k) m m' \<and> uri_delivered (string_at m' u)"
proof -
  define m1 q where "m1 = (case strchr (drop u m) CHR ''?'' of Some i \<Rightarrow> m[u + i := NUL] | None \<Rightarrow> m)"
    and "q = (case strchr (drop u m) CHR ''?'' of Some i \<Rightarrow> Some (string_at m (u + i + 1)) | None \<Rightarrow> None)"
  define n where "n = strnlen_s (Some (drop u m1)) EST_URI_MAX_LEN"
  have m1: "k < length m1" "m1 ! k = NUL" "same_outside u (Suc k) m m1"
  proof -
    have "u + i \<le> k" if "strchr (drop u m) CHR ''?'' = Some i" for i
      using strchr_Some [OF that] cstr_before_nul [OF assms] by linarith
    then show "k < length m1" "m1 ! k = NUL" "same_outside u (Suc k) m m1"
      using assms same_outside_update by (auto simp: m1_def nth_list_update split: option.split)
  qed
  have n: "u + n \<le> k" "n \<le> EST_URI_MAX_LEN"
    using cstr_before_nul [OF assms(1) m1(1,2)] by (auto simp: n_def strnlen_s_def strnlen_def EST_URI_MAX_LEN_def EST_MAX_PATH_SEGMENT_LEN_def)
  obtain m2 i' j where 2: "url_decode_loop m1 u n u (n + 1) False 0 0 = Some (m2, i', j)" "same_outside u (u + n) m1 m2" "j \<le> n"
    using url_decode_loop_total [OF m1(1,2) n(1), of 0 0] by auto
  define m3 where "m3 = m2[u + j := NUL]"
  have l2: "length m2 = length m1" using 2(2) by (simp add: same_outside_def)
  have 3: "k < length m3" "m3 ! k = NUL" "m3 ! (u + j) = NUL" "u + j \<le> k" "u + j < length m3"
    using 2 n m1 l2 by (auto simp: m3_def same_outside_def nth_list_update)
  have so3: "same_outside u (Suc k) m m3"
    using m1(3) same_outside_mono [OF 2(2), of u "Suc k"] same_outside_update [of u "u + j" "Suc k" m2 NUL] 3(4) n(1)
    unfolding m3_def by (meson le_SucI le_add1 le_imp_less_Suc order_refl same_outside_trans)
  have len: "length (string_at m3 u) \<le> j" using cstr_before_nul [of u "u + j" m3] 3 by (simp add: string_at_def)
  define w where "w = remove_double_dots_and_double_slashes (string_at m3 u)"
  have w: "length w \<le> j" "NUL \<notin> set w" "path_ok w"
    using remove_subset [of "string_at m3 u"] len cstr_no_nul [of "drop u m3"] path_ok_remove by (auto simp: w_def string_at_def)
  define m4 where "m4 = take u m3 @ (w @ [NUL]) @ drop (u + length (w @ [NUL])) m3"
  have 4: "wr_block m3 u (w @ [NUL]) = Some m4" using w(1) 3 by (simp add: wr_block_def m4_def)
  then have "same_outside u (Suc k) m3 m4"
    using w(1) 3(4) by (intro same_outside_mono [OF same_outside_wr_block]) auto
  moreover have "string_at m4 u = w" using w(2) 3 by (simp add: string_at_def m4_def)
  ultimately have "same_outside u (Suc k) m m4 \<and> uri_delivered (string_at m4 u)"
    using so3 same_outside_trans w len n(2) 2(3) by (auto simp: uri_delivered_def)
  moreover have "url_decode m1 u n u (n + 1) False = Some (m3, if i' \<ge> n then int j else -1)"
    using 2(1) 3(5) by (simp add: url_decode_def wr_def m3_def)
  moreover have "(case strchr (drop u m) CHR ''?'' of Some i \<Rightarrow> (m[u + i := NUL], Some (string_at m (u + i + 1))) | None \<Rightarrow> (m, None)) = (m1, q)"
    by (simp add: m1_def q_def split: option.split)
  ultimately show ?thesis
    unfolding decode_uri_def Let_def using 4 by (auto simp: n_def w_def)
qed


section \<open>What the handlers leave of the connection\<close>

text \<open>
  The handlers change only the status and the user of the connection, and of the context only what they remember of the
  CSR attributes and the CA certificates.
\<close>

definition config :: "EST_CTX \<Rightarrow> EST_CTX" where
  "config ctx = ctx\<lparr>csr_pop_present := False, ca_certs := None\<rparr>"

lemma config_upd [simp]:
  "config (ctx\<lparr>csr_pop_present := p\<rparr>) = config ctx" "config (ctx\<lparr>ca_certs := q\<rparr>) = config ctx"
  by (simp_all add: config_def)

definition framing :: "mg_connection \<Rightarrow> mg_connection" where
  "framing c = c\<lparr>status_code := 0, user_id := []\<rparr>"

abbreviation fr :: "HTTP_CTX \<Rightarrow> mg_connection" where
  "fr w \<equiv> framing (conn w)"

lemma framing_upd [simp]: "framing (c\<lparr>status_code := n\<rparr>) = framing c" "framing (c\<lparr>user_id := i\<rparr>) = framing c"
  by (simp_all add: framing_def)

lemma framing_eqD:
  assumes "framing c' = framing c"
  shows "request_info c' = request_info c" "must_close c' = must_close c" "enable_keepalives c' = enable_keepalives c"
    "content_len c' = content_len c" "request_len c' = request_len c" "data_len c' = data_len c" "conn_buf c' = conn_buf c"
  using assms by (cases c; cases c'; simp add: framing_def)+

lemma fr_set_status [simp]: "fr (set_status n w) = fr w"
  by (simp add: set_status_def)

lemma fr_mg_write: "mg_write bs w = (n, w') \<Longrightarrow> fr w' = fr w"
  by (auto simp: mg_write_def Let_def split: prod.splits if_split_asm)

lemma fr_mg_send [simp]: "fr (mg_send_http_error n r b w) = fr w" "fr (mg_send_authorization_request ctx w) = fr w"
  by (simp_all add: mg_send_http_error_def mg_send_authorization_request_def Let_def split: EST_HTTP_AUTH_MODE.split)

lemma fr_retry: "est_server_send_http_retry_after d w = (rv, w') \<Longrightarrow> fr w' = fr w"
  by (auto simp: est_server_send_http_retry_after_def Let_def split: prod.splits if_split_asm dest: fr_mg_write)

lemma fr_est_send_http_error [simp]: "fr (est_send_http_error ctx e w) = fr w"
  by (auto simp: est_send_http_error_def Let_def split: prod.splits EST_MODE.splits dest: fr_retry)

lemma fr_write_all: "write_all bs w = (rv, w') \<Longrightarrow> fr w' = fr w"
  by (induction bs arbitrary: w) (auto split: prod.splits if_split_asm dest: fr_mg_write)

lemma framing_parse_auth: "mg_parse_auth_header f am c ah = Some (pr, ah', c') \<Longrightarrow> framing c' = framing c"
  by (auto simp: mg_parse_auth_header_def Let_def split: option.split_asm if_split_asm)

lemma fr_est_enroll_auth: "est_enroll_auth ossl ctx ssl path_seg enroll_req csr_buf w = Some (rv, csr, w') \<Longrightarrow> fr w' = fr w"
  unfolding est_enroll_auth_def Let_def
  by (auto simp: bind_eq_Some_conv split: prod.splits if_split_asm EST_HTTP_AUTH_HDR_RESULT.splits option.splits dest: framing_parse_auth)

lemma fr_est_brski_auth: "est_brski_auth ossl ctx ssl path_seg w = Some (rv, w') \<Longrightarrow> fr w' = fr w"
  unfolding est_brski_auth_def Let_def
  by (auto simp: bind_eq_Some_conv split: prod.splits if_split_asm EST_HTTP_AUTH_HDR_RESULT.splits option.splits dest: framing_parse_auth)

lemma fr_admit: "admit ossl ctx ssl path_seg enroll_req body w = Some (r, w') \<Longrightarrow> fr w' = fr w"
  by (auto simp: admit_def bind_eq_Some_conv split: option.split_asm dest: fr_est_enroll_auth)

lemma fr_simple_enroll_ca: "simple_enroll_ca ctx cb enroll_req body peer_cert path_seg w = (rv, cert, w') \<Longrightarrow> fr w' = fr w"
  by (auto simp: simple_enroll_ca_def Let_def simp del: write_all.simps split: prod.splits if_split_asm dest!: fr_write_all)

lemma fr_keygen_enroll: "keygen_enroll ctx cb body key peer_cert path_seg w = (rv, cert, w') \<Longrightarrow> fr w' = fr w"
  by (auto simp: keygen_enroll_def Let_def simp del: write_all.simps split: prod.splits if_split_asm dest!: fr_write_all)

lemma fr_simple_enroll:
  assumes "est_handle_simple_enroll ossl a ctx ssl peer_cert ct body path_seg enroll_req w = Some (rv, cert, w')"
  shows "fr w' = fr w"
proof (cases "w' = w")
  case False
  with assms obtain cb r w1 where adm: "admit ossl ctx ssl path_seg enroll_req body w = Some (r, w1)"
    and rest: "(case r of Inl e \<Rightarrow> Some (e, None, w1)
        | Inr csr \<Rightarrow> if est_server_check_csr ossl csr \<noteq> 0 then Some (EST_ERR_BAD_PKCS10, None, w1)
                     else do { chk \<leftarrow> request_checks ossl a ctx ssl peer_cert csr body;
                               if chk \<noteq> EST_ERR_NONE then Some (chk, None, w1)
                               else Some (simple_enroll_ca ctx cb enroll_req body peer_cert path_seg w1) }) = Some (rv, cert, w')"
    unfolding est_handle_simple_enroll_def
    by (auto simp: bind_eq_Some_conv [of "admit _ _ _ _ _ _ _"] split: if_split_asm option.split_asm)
  have "fr w' = fr w1"
    using rest by (cases r) (auto simp: bind_eq_Some_conv split: if_split_asm dest: fr_simple_enroll_ca)
  then show ?thesis using fr_admit [OF adm] by simp
qed simp

lemma fr_keygen:
  assumes "est_handle_server_keygen ossl a ctx ssl peer_cert ct body path_seg w = Some (rv, res, w')"
  shows "fr w' = fr w"
proof (cases "w' = w")
  case False
  obtain cb rv0 priv_key where cbs: "est_server_keygen_pkcs10_cb ctx = Some cb" "keygen_cb ctx = Some (rv0, priv_key)"
    using assms False unfolding est_handle_server_keygen_def by (auto split: option.split_asm)
  define T where "T = (transport_mode ctx = EST_HTTP \<and> strncmp ct ''application/pkcs10'' 18 \<noteq> 0)"
  have "\<not> T" using assms False cbs unfolding est_handle_server_keygen_def T_def [symmetric] by auto
  then obtain r w1 where adm: "admit ossl ctx ssl path_seg SERVERKEYGEN_REQ body w = Some (r, w1)"
    using assms cbs unfolding est_handle_server_keygen_def T_def [symmetric]
    by (auto simp: bind_eq_Some_conv [of "admit _ _ _ _ _ _ _"])
  note run = assms [unfolded est_handle_server_keygen_def cbs T_def [symmetric], simplified \<open>\<not> T\<close> adm, simplified]
  have "fr w' = fr w1"
  proof (cases r)
    case (Inr csr)
    show ?thesis
    proof (cases priv_key)
      case (Some key)
      show ?thesis
        using run unfolding Inr Some
        by (cases "rekey_request ossl csr key") (auto simp: Let_def bind_eq_Some_conv split: if_split_asm dest: fr_keygen_enroll)
    qed (use run Inr in auto)
  qed (use run in auto)
  then show ?thesis using fr_admit [OF adm] by simp
qed simp

lemma fr_cacerts: "est_server_handle_cacerts ctx seg w = (rv, ctx', w') \<Longrightarrow> fr w' = fr w \<and> config ctx' = config ctx"
  by (auto simp: est_server_handle_cacerts_def est_handle_cacerts_def simp del: write_all.simps
      split: option.split_asm EST_TRANSPORT_MODE.split_asm if_split_asm prod.split_asm dest: fr_write_all)

lemma fr_deliver:
  assumes "deliver_csrattrs ctx d w = Some (rv, ret, ctx', w')"
  shows "fr w' = fr w" "config ctx' = config ctx"
  using assms
  by (auto simp: deliver_csrattrs_def est_send_csrattr_data_def simp del: write_all.simps
      split: EST_TRANSPORT_MODE.split_asm prod.split_asm option.split_asm if_split_asm dest: fr_write_all)

definition ctx_keeps :: "EST_CTX \<Rightarrow> mg_connection \<Rightarrow> (EST_ERROR \<times> string option option \<times> EST_CTX \<times> HTTP_CTX) option \<Rightarrow> bool" where
  "ctx_keeps em f r \<longleftrightarrow> (\<forall>rv ret c w. r = Some (rv, ret, c, w) \<longrightarrow> fr w = f \<and> config c = em)"

lemma ctx_keeps_simps [simp]:
  "ctx_keeps em f (Some (rv, ret, c, w)) \<longleftrightarrow> fr w = f \<and> config c = em"
  "ctx_keeps em f (deliver_csrattrs c d w) \<longleftrightarrow> deliver_csrattrs c d w = None \<or> fr w = f \<and> config c = em"
  by (auto simp: ctx_keeps_def dest: fr_deliver) (metis fr_deliver option.exhaust surj_pair)+

lemma ctx_keeps_bind [simp]: "ctx_keeps em f (Option.bind x g) \<longleftrightarrow> (\<forall>y. x = Some y \<longrightarrow> ctx_keeps em f (g y))"
  by (cases x) (simp_all add: ctx_keeps_def)

lemma fr_csr_attrs:
  assumes "est_handle_csr_attrs ossl a ctx peer seg w = Some (rv, ret, ctx', w')"
  shows "fr w' = fr w \<and> config ctx' = config ctx"
proof -
  have "ctx_keeps (config ctx) (fr w) (est_handle_csr_attrs ossl a ctx peer seg w)"
    unfolding est_handle_csr_attrs_def Let_def by (simp split: option.split prod.split)
  with assms show ?thesis by (simp add: ctx_keeps_def)
qed

lemma fr_brski:
  "est_brski_handle_voucher_req ossl ctx ssl ct body path_seg w = Some (rv, w') \<Longrightarrow> fr w' = fr w"
  "brski_status cb ossl ctx ssl ct body path_seg w = Some (rv, w') \<Longrightarrow> fr w' = fr w"
  unfolding est_brski_handle_voucher_req_def brski_status_def Let_def
  by (auto simp: bind_eq_Some_conv simp del: write_all.simps split: option.split_asm if_split_asm prod.split_asm
      dest!: fr_write_all fr_retry fr_est_brski_auth)

lemma fr_finish: "finish ctx rc sent w = Some (rv, ctx', w') \<Longrightarrow> fr w' = fr w \<and> ctx' = ctx"
  by (auto simp: finish_def split: if_split_asm)

lemma fr_fail_with: "fail_with ctx e w = Some (rv, ctx', w') \<Longrightarrow> fr w' = fr w \<and> ctx' = ctx"
  by (auto simp: fail_with_def)

lemma fr_http_request:
  assumes "est_http_request b ossl a ctx conn_ssl method req_uri body ct w = Some (rv, ctx', w')"
  shows "fr w' = fr w \<and> config ctx' = config ctx"
proof -
  have cacerts: "fr w' = fr w \<and> config ctx' = config ctx" if "http_cacerts ctx method seg w = Some (rv, ctx', w')" for seg
    using that by (auto simp: http_cacerts_def split: if_split_asm prod.split_asm dest!: fr_fail_with fr_cacerts)
  have csrattrs: "fr w' = fr w \<and> config ctx' = config ctx" if "http_csrattrs ossl a ctx ssl method seg w = Some (rv, ctx', w')" for ssl seg
    using that by (auto simp: http_csrattrs_def bind_eq_Some_conv split: if_split_asm dest!: fr_fail_with fr_csr_attrs)
  have enroll: "fr w' = fr w \<and> config ctx' = config ctx"
    if "http_enroll ossl a ctx ssl op method body ct seg w = Some (rv, ctx', w')" for ssl op seg
    using that by (auto simp: http_enroll_def bind_eq_Some_conv split: if_split_asm option.split_asm
        dest!: fr_fail_with fr_finish dest: fr_simple_enroll fr_keygen)
  have brski: "fr w' = fr w \<and> config ctx' = config ctx"
    if "http_brski ossl ctx ssl op method body ct seg w = Some (rv, ctx', w')" for ssl op seg
    using that
    by (auto simp: http_brski_def est_brski_handle_voucher_status_def est_brski_handle_enroll_status_def bind_eq_Some_conv
        split: if_split_asm option.split_asm EST_OPERATION.split_asm dest!: fr_fail_with fr_finish dest: fr_brski)
  show ?thesis
    using assms cacerts csrattrs enroll brski unfolding est_http_request_def
    by (auto simp: bind_eq_Some_conv split: option.split_asm if_split_asm dest: fr_fail_with)
qed


lemma config_fields:
  assumes "config ctx' = config ctx"
  shows "est_mode ctx' = est_mode ctx" "transport_mode ctx' = transport_mode ctx" "auth_mode ctx' = auth_mode ctx"
    "require_http_auth ctx' = require_http_auth ctx" "est_http_auth_cb ctx' = est_http_auth_cb ctx"
    "enhanced_cert_auth_enabled ctx' = enhanced_cert_auth_enabled ctx"
    "enhanced_cert_auth_csr_check ctx' = enhanced_cert_auth_csr_check ctx"
    "enchd_cert_mfgs_info_list ctx' = enchd_cert_mfgs_info_list ctx" "enhcd_cert_local_pki_nid ctx' = enhcd_cert_local_pki_nid ctx"
    "enhcd_cert_auth_pwd ctx' = enhcd_cert_auth_pwd ctx"
  using arg_cong [OF assms, of est_mode] arg_cong [OF assms, of transport_mode] arg_cong [OF assms, of auth_mode]
    arg_cong [OF assms, of require_http_auth] arg_cong [OF assms, of est_http_auth_cb]
    arg_cong [OF assms, of enhanced_cert_auth_enabled] arg_cong [OF assms, of enhanced_cert_auth_csr_check]
    arg_cong [OF assms, of enchd_cert_mfgs_info_list] arg_cong [OF assms, of enhcd_cert_local_pki_nid]
    arg_cong [OF assms, of enhcd_cert_auth_pwd]
  by (simp_all add: config_def)

section \<open>What reading leaves of the connection\<close>

definition conn_info :: "CONN \<Rightarrow> mg_connection" where
  "conn_info c = (mg c)\<lparr>must_close := False, conn_buf := [], data_len := 0\<rparr>"

definition quiet :: "CONN \<Rightarrow> CONN \<Rightarrow> bool" where
  "quiet c c' \<longleftrightarrow> handled c' = handled c \<and> cbs (http c') = cbs (http c) \<and> c_heap c' = c_heap c \<and> conn_info c' = conn_info c"

lemma quiet_refl [simp]: "quiet c c"
  by (simp add: quiet_def)

lemma quiet_trans: "quiet c c' \<Longrightarrow> quiet c' c'' \<Longrightarrow> quiet c c''"
  by (simp add: quiet_def)

lemma quiet_fields:
  assumes "quiet c c'"
  shows "request_info (mg c') = request_info (mg c)" "enable_keepalives (mg c') = enable_keepalives (mg c)"
    "content_len (mg c') = content_len (mg c)" "request_len (mg c') = request_len (mg c)" "status_code (mg c') = status_code (mg c)"
proof -
  have eq: "conn_info c' = conn_info c" using assms by (simp add: quiet_def)
  show "request_info (mg c') = request_info (mg c)" "enable_keepalives (mg c') = enable_keepalives (mg c)"
    "content_len (mg c') = content_len (mg c)" "request_len (mg c') = request_len (mg c)" "status_code (mg c') = status_code (mg c)"
    using arg_cong [OF eq, of request_info] arg_cong [OF eq, of enable_keepalives] arg_cong [OF eq, of content_len]
      arg_cong [OF eq, of request_len] arg_cong [OF eq, of status_code]
    by (simp_all add: conn_info_def)
qed

lemma quiet_upd [simp]:
  "quiet c (upd_conn (\<lambda>cn. cn\<lparr>conn_buf := m, data_len := n\<rparr>) c')= quiet c c'"
  "quiet c (upd_conn (must_close_update (\<lambda>_. b)) c') = quiet c c'"
  "quiet c (c'\<lparr>events := e\<rparr>) = quiet c c'" "quiet c (c'\<lparr>stop_flag := b\<rparr>) = quiet c c'" "quiet c (c'\<lparr>consumed_content := k\<rparr>) = quiet c c'"
  by (simp_all add: quiet_def conn_info_def upd_conn_def cbs_def)

definition conn_ok :: "CONN \<Rightarrow> bool" where
  "conn_ok c \<longleftrightarrow> length (conn_buf (mg c)) = MAX_REQUEST_SIZE \<and> data_len (mg c) \<le> MAX_REQUEST_SIZE \<and> (\<forall>n. length (c_heap c n) = n)"

lemma pull_quiet:
  assumes "pull len c = (r, c')"
  shows "quiet c c'" "conn_buf (mg c') = conn_buf (mg c)" "data_len (mg c') = data_len (mg c)" "consumed_content c' = consumed_content c"
    "input_size c' \<le> input_size c"
  using assms unfolding pull_def
  by (auto simp: Let_def input_size_def event_size_def split: if_split_asm list.split_asm wait_result.split_asm pull_result.split_asm)

lemma pull_conn_ok: "pull len c = (r, c') \<Longrightarrow> conn_ok c \<Longrightarrow> conn_ok c'"
  using pull_quiet(1-3) [of len c r c'] by (simp add: conn_ok_def quiet_def)

lemma wr_block_fits: "a + length bs \<le> length m \<Longrightarrow> wr_block m a bs = Some (take a m @ bs @ drop (a + length bs) m)"
  by (simp add: wr_block_def)

lemma get_request_len_bound: "0 \<le> get_request_len b n \<Longrightarrow> n \<le> length b \<Longrightarrow> get_request_len b n \<le> int n"
  using get_request_len_incremental [of n n b] by (cases "get_request_len b n = 0") auto

lemma read_request_total:
  assumes "conn_ok c"
  shows "\<exists>n c'. read_request MAX_REQUEST_SIZE c = Some (n, c') \<and> conn_ok c' \<and> quiet c c' \<and> consumed_content c' = consumed_content c
    \<and> (n = -1 \<or> n = get_request_len (conn_buf (mg c')) (data_len (mg c')))
    \<and> data_len (mg c') + input_size c' \<le> data_len (mg c) + input_size c"
  using assms
proof (induction "MAX_REQUEST_SIZE" c rule: read_request.induct)
  case (1 c)
  let ?n = "data_len (mg c)" and ?b = "conn_buf (mg c)"
  show ?case
  proof (cases "?n < MAX_REQUEST_SIZE \<and> get_request_len ?b ?n = 0")
    case False
    then have "read_request MAX_REQUEST_SIZE c = Some (get_request_len ?b ?n, c)" by (subst read_request.simps) auto
    then show ?thesis using 1(2) by auto
  next
    case True
    obtain r c1 where p: "pull (MAX_REQUEST_SIZE - ?n) c = (r, c1)" by (cases "pull (MAX_REQUEST_SIZE - ?n) c") auto
    note q = pull_quiet [OF p]
    have ok1: "conn_ok c1" by (rule pull_conn_ok [OF p 1(2)])
    show ?thesis
    proof (cases r)
      case None
      then have "read_request MAX_REQUEST_SIZE c = Some (-1, c1)" using True p by (subst read_request.simps) simp
      then show ?thesis using ok1 q by auto
    next
      case (Some bs)
      have len: "length bs \<le> MAX_REQUEST_SIZE - ?n" using pull_length p Some by blast
      have size: "input_size c1 + length bs \<le> input_size c" using pull_decreases p Some True by auto
      define m where "m = take ?n ?b @ bs @ drop (?n + length bs) ?b"
      have w: "wr_block (conn_buf (mg c1)) ?n bs = Some m"
        using len q(2) 1(2) True by (auto simp: m_def wr_block_def conn_ok_def)
      define c2 where "c2 = upd_conn (\<lambda>cn. cn\<lparr>conn_buf := m, data_len := ?n + length bs\<rparr>) c1"
      have "conn_ok c2" using ok1 len wr_block_length [OF w] True by (auto simp: conn_ok_def c2_def)
      then obtain n c' where IH: "read_request MAX_REQUEST_SIZE c2 = Some (n, c')" "conn_ok c'" "quiet c2 c'"
        "consumed_content c' = consumed_content c2" "n = -1 \<or> n = get_request_len (conn_buf (mg c')) (data_len (mg c'))"
        "data_len (mg c') + input_size c' \<le> data_len (mg c2) + input_size c2"
        using 1(1) [OF refl refl True p [symmetric] Some w] unfolding c2_def by blast
      have "read_request MAX_REQUEST_SIZE c = Some (n, c')"
        using True p Some w IH(1) by (subst read_request.simps) (simp add: c2_def)
      moreover have "quiet c c'" by (rule quiet_trans [OF _ IH(3)]) (simp add: c2_def q(1))
      moreover have "data_len (mg c') + input_size c' \<le> ?n + input_size c" using IH(6) size by (simp add: c2_def)
      ultimately show ?thesis using IH q(4) by (auto simp: c2_def)
    qed
  qed
qed


text \<open>Reading a body leaves the receive buffer as it is.\<close>

definition reads :: "CONN \<Rightarrow> CONN \<Rightarrow> bool" where
  "reads c c' \<longleftrightarrow> quiet c c' \<and> conn_buf (mg c') = conn_buf (mg c) \<and> data_len (mg c') = data_len (mg c) \<and> input_size c' \<le> input_size c"

lemma reads_refl [simp]: "reads c c"
  by (simp add: reads_def)

lemma reads_trans: "reads c c' \<Longrightarrow> reads c' c'' \<Longrightarrow> reads c c''"
  using quiet_trans by (auto simp: reads_def)

lemma reads_consumed [simp]: "reads c (c'\<lparr>consumed_content := k\<rparr>) = reads c c'" "reads (c\<lparr>consumed_content := k\<rparr>) c' = reads c c'"
  by (auto simp: reads_def quiet_def conn_info_def input_size_def)

lemma reads_conn_ok: "reads c c' \<Longrightarrow> conn_ok c' = conn_ok c"
  by (simp add: reads_def conn_ok_def quiet_def)

lemma pull_reads: "pull len c = (r, c') \<Longrightarrow> reads c c'"
  using pull_quiet by (auto simp: reads_def)

lemma pull_body_total:
  assumes "off + len \<le> length b"
  shows "\<exists>r b' c'. pull_body b off len c = Some (r, b', c') \<and> length b' = length b \<and> reads c c'"
  using assms
proof (induction b off len c rule: pull_body.induct)
  case (1 b off len c)
  show ?case
  proof (cases "len = 0")
    case True
    then show ?thesis by (subst pull_body.simps) auto
  next
    case False
    obtain r c1 where p: "pull len c = (r, c1)" by (cases "pull len c") auto
    show ?thesis
    proof (cases r)
      case None
      then show ?thesis using False p pull_reads [OF p] by (subst pull_body.simps) auto
    next
      case (Some bs)
      have len: "length bs \<le> len" using pull_length p Some by blast
      define b1 where "b1 = take off b @ bs @ drop (off + length bs) b"
      have w: "wr_block b off bs = Some b1" using len 1(2) by (simp add: wr_block_def b1_def)
      define c2 where "c2 = c1\<lparr>consumed_content := consumed_content c1 + int (length bs)\<rparr>"
      obtain r' b' c' where IH: "pull_body b1 (off + length bs) (len - length bs) c2 = Some (r', b', c')" "length b' = length b1" "reads c2 c'"
        using 1(1) [OF False p [symmetric] Some w] wr_block_length [OF w] 1(2) len unfolding c2_def by auto
      have "pull_body b off len c = Some (r', b', c')" using False p Some w IH(1) by (subst pull_body.simps) (simp add: c2_def)
      moreover have "reads c c'" using pull_reads [OF p] IH(3) reads_trans by (auto simp: c2_def)
      ultimately show ?thesis using IH(2) wr_block_length [OF w] by auto
    qed
  qed
qed

lemma mg_read_total:
  assumes "conn_ok c" and "len \<le> length b" and "0 \<le> request_len (mg c) + consumed_content c"
  shows "\<exists>r b' c'. mg_read b len c = Some (r, b', c') \<and> length b' = length b \<and> reads c c'"
proof (cases "consumed_content c < content_len (mg c)")
  case False
  then show ?thesis by (simp add: mg_read_def)
next
  case True
  define len1 body n where "len1 = min len (nat (content_len (mg c) - consumed_content c))"
    and "body = request_len (mg c) + consumed_content c"
    and "n = (if int (data_len (mg c)) - body > 0 then min len1 (nat (int (data_len (mg c)) - body)) else 0)"
  have "n = 0 \<or> nat body + n \<le> length (conn_buf (mg c))" using assms(1,3) by (auto simp: n_def body_def conn_ok_def)
  then obtain bs where bs: "(if n = 0 then Some [] else rd_block (conn_buf (mg c)) (nat body) n) = Some bs" "length bs = n"
    by (cases "n = 0") (auto simp: rd_block_def)
  have le: "n \<le> len1" "len1 \<le> len" by (auto simp: n_def len1_def)
  define b1 where "b1 = take 0 b @ bs @ drop (0 + length bs) b"
  have w: "wr_block b 0 bs = Some b1" using bs(2) le assms(2) by (simp add: wr_block_def b1_def)
  obtain r b' c' where "pull_body b1 n (len1 - n) (c\<lparr>consumed_content := consumed_content c + int n\<rparr>) = Some (r, b', c')"
    "length b' = length b1" "reads c c'"
    using pull_body_total [of n "len1 - n" b1 "c\<lparr>consumed_content := consumed_content c + int n\<rparr>"] le assms(2) wr_block_length [OF w] by auto
  moreover have "mg_read b len c = do { bs \<leftarrow> (if n = 0 then Some [] else rd_block (conn_buf (mg c)) (nat body) n);
      b1 \<leftarrow> wr_block b 0 bs; pull_body b1 n (len1 - n) (c\<lparr>consumed_content := consumed_content c + int n\<rparr>) }"
    using True by (simp only: mg_read_def if_True Let_def len1_def n_def body_def)
  ultimately show ?thesis using bs(1) w wr_block_length [OF w] by simp
qed

text \<open>A body is read completely defined when the length in the header is the one that was checked.\<close>

lemma strtoll_range:
  assumes "0 \<le> strtoll s" and "strtoll s \<le> EST_MAX_CONTENT_LEN"
  shows "atoi s = Some (strtoll s)"
proof -
  have "strtoll s = number s" using assms by (auto simp: strtoll_def LLONG_MIN_def LLONG_MAX_def EST_MAX_CONTENT_LEN_def)
  then show ?thesis using assms by (simp add: atoi_def INT_MIN_def INT_MAX_def EST_MAX_CONTENT_LEN_def)
qed

lemma read_body_total:
  assumes "conn_ok c" and "0 \<le> request_len (mg c) + consumed_content c"
    and "content_len (mg c) = content_length (request_info (mg c))" "0 \<le> content_len (mg c)" "content_len (mg c) \<le> EST_MAX_CONTENT_LEN"
  shows "\<exists>body c'. read_body c = Some (body, c') \<and> reads c c' \<and> int (length body) = content_len (mg c)"
proof (cases "mg_get_header (mg c) ''Content-Length''")
  case None
  then have "content_len (mg c) = 0"
    using assms(3,4) by (auto simp: content_length_def mg_get_header_def split: option.split_asm if_split_asm)
  then show ?thesis using None by (simp add: read_body_def)
next
  case (Some h)
  then have cl: "content_len (mg c) = strtoll h" using assms(3) by (simp add: content_length_def mg_get_header_def)
  then have at: "atoi h = Some (content_len (mg c))" using strtoll_range assms(4,5) by simp
  let ?n = "nat (content_len (mg c))"
  have heap: "length (c_heap c (?n + 1)) = ?n + 1" using assms(1) by (simp add: conn_ok_def)
  then obtain r b c' where rd: "mg_read (c_heap c (?n + 1)) ?n c = Some (r, b, c')" "length b = ?n + 1" "reads c c'"
    using mg_read_total [OF assms(1) _ assms(2), of ?n "c_heap c (?n + 1)"] by auto
  have "wr b ?n NUL = Some (b[?n := NUL])" using rd(2) by (simp add: wr_def)
  then have "read_body c = Some (take ?n (b[?n := NUL]), c')"
    unfolding read_body_def Some option.case at bind.simps using assms(4) rd(1) by simp
  then show ?thesis using rd assms(4) by simp
qed


section \<open>One pass of the loop\<close>

text \<open>Discarding a request: the data that follows it is at the start of the buffer.\<close>

lemma discard_request_eq:
  fixes c :: CONN
  defines "n \<equiv> data_len (mg c)" and "b \<equiv> conn_buf (mg c)"
  defines "d \<equiv> nat (if content_len (mg c) \<ge> 0 \<and> request_len (mg c) + content_len (mg c) < int n then request_len (mg c) + content_len (mg c) else int n)"
  assumes "conn_ok c"
  shows "discard_request c = Some (upd_conn (\<lambda>cn. cn\<lparr>conn_buf := (if n - d > 0 then take (n - d) (drop d b) @ drop (n - d) b else b), data_len := n - d\<rparr>) c)"
    and "d \<le> n" "length b = MAX_REQUEST_SIZE" "n \<le> MAX_REQUEST_SIZE"
proof -
  have ok: "length b = MAX_REQUEST_SIZE" "n \<le> MAX_REQUEST_SIZE" using assms by (auto simp: conn_ok_def)
  have d: "d \<le> n" by (auto simp: d_def)
  then have le: "d + (n - d) \<le> MAX_REQUEST_SIZE" "length (take (n - d) (drop d b)) = n - d" using ok by auto
  have mv: "(if n - d > 0 then memmove_s b (Some 0) MAX_REQUEST_SIZE (Some d) (n - d) else Some (b, EOK))
      = Some (if n - d > 0 then take (n - d) (drop d b) @ drop (n - d) b else b, EOK)"
    using ok le by (simp add: memmove_s_def rd_block_def wr_block_def) (simp add: MAX_REQUEST_SIZE_def RSIZE_MAX_MEM_def)
  show "discard_request c = Some (upd_conn (\<lambda>cn. cn\<lparr>conn_buf := (if n - d > 0 then take (n - d) (drop d b) @ drop (n - d) b else b), data_len := n - d\<rparr>) c)"
    unfolding discard_request_def Let_def n_def [symmetric] b_def [symmetric] d_def [symmetric] mv by simp
  show "d \<le> n" "length b = MAX_REQUEST_SIZE" "n \<le> MAX_REQUEST_SIZE" by (rule d, rule ok, rule ok)
qed

lemma discard_request_defined:
  assumes "conn_ok c"
  obtains m left where "discard_request c = Some (upd_conn (\<lambda>cn. cn\<lparr>conn_buf := m, data_len := left\<rparr>) c)"
    "length m = MAX_REQUEST_SIZE" "left \<le> data_len (mg c)"
proof -
  note eq = discard_request_eq [OF assms]
  show thesis by (rule that [OF eq(1)]) (use eq(2-4) in simp_all)
qed

lemma discard_request_total:
  assumes "conn_ok c" and "0 < request_len (mg c)" "request_len (mg c) \<le> int (data_len (mg c))" "0 \<le> content_len (mg c)"
  obtains m left where "discard_request c = Some (upd_conn (\<lambda>cn. cn\<lparr>conn_buf := m, data_len := left\<rparr>) c)"
    "left = data_len (mg c) - nat (request_len (mg c) + content_len (mg c))" "length m = MAX_REQUEST_SIZE" "left < data_len (mg c)"
    "take left m = drop (nat (request_len (mg c) + content_len (mg c))) (take (data_len (mg c)) (conn_buf (mg c)))"
proof -
  let ?n = "data_len (mg c)" and ?len = "request_len (mg c) + content_len (mg c)" and ?b = "conn_buf (mg c)"
  define d where "d = nat (if content_len (mg c) \<ge> 0 \<and> ?len < int ?n then ?len else int ?n)"
  define m where "m = (if ?n - d > 0 then take (?n - d) (drop d ?b) @ drop (?n - d) ?b else ?b)"
  note eq = discard_request_eq [OF assms(1), folded d_def, folded m_def]
  have left: "?n - d = ?n - nat ?len" "?n - d < ?n" using assms(2-4) by (auto simp: d_def)
  have "take (?n - d) m = drop (nat ?len) (take ?n ?b)"
  proof (cases "?len < int ?n")
    case True
    then have "d = nat ?len" using assms(4) by (simp add: d_def)
    then show ?thesis using eq(2-4) by (simp add: m_def drop_take)
  next
    case False
    then show ?thesis using assms(4) by (simp add: d_def)
  qed
  moreover have "length m = MAX_REQUEST_SIZE" using eq(2-4) by (simp add: m_def)
  ultimately show thesis using that eq(1) left by blast
qed

text \<open>The handler gets a request whose path is clean and whose body has the announced length.\<close>

definition request_wf :: "string \<times> string \<times> string \<times> string option \<Rightarrow> bool" where
  "request_wf r = (case r of (m, u, b, ct) \<Rightarrow> is_valid_http_method m \<and> uri_delivered u \<and> int (length b) \<le> EST_MAX_CONTENT_LEN)"

definition request_ready :: "CONN \<Rightarrow> string \<Rightarrow> string \<Rightarrow> string \<Rightarrow> string option \<Rightarrow> bool" where
  "request_ready c m u b ct \<longleftrightarrow> request_wf (m, u, b, ct) \<and> conn_ok c \<and> request_method (request_info (mg c)) = Some m
     \<and> uri (request_info (mg c)) = Some u \<and> mg_get_header (mg c) ''Content-Type'' = ct
     \<and> 0 < request_len (mg c) \<and> request_len (mg c) \<le> int (data_len (mg c)) \<and> content_len (mg c) = int (length b)"

definition after_handler :: "CONN \<Rightarrow> string \<Rightarrow> string \<Rightarrow> string \<Rightarrow> string option \<Rightarrow> HTTP_CTX \<Rightarrow> CONN" where
  "after_handler c m u b ct w = c\<lparr>http := w, handled := handled c @ [(m, u, b, ct)]\<rparr>"

definition same_past :: "CONN \<Rightarrow> CONN \<Rightarrow> bool" where
  "same_past c c' \<longleftrightarrow> handled c' = handled c \<and> cbs (http c') = cbs (http c) \<and> c_heap c' = c_heap c
     \<and> data_len (mg c') + input_size c' \<le> data_len (mg c) + input_size c"

lemma same_past_trans: "same_past c c' \<Longrightarrow> same_past c' c'' \<Longrightarrow> same_past c c''"
  by (simp add: same_past_def)

lemma reads_past: "reads c c' \<Longrightarrow> same_past c c'"
  by (simp add: reads_def quiet_def same_past_def)

definition call_handler :: "SERVER_ENV \<Rightarrow> EST_CTX \<Rightarrow> CONN \<Rightarrow> string \<Rightarrow> string \<Rightarrow> string \<Rightarrow> string option \<Rightarrow> (EST_CTX \<times> CONN) option" where
  "call_handler env ctx c m u b ct =
     do { (_, ctx', w) \<leftarrow> est_handler env ctx m u b ct (http c); Some (ctx', after_handler c m u b ct w) }"

lemma handle_request_runs:
  assumes "conn_ok c" and "0 < request_len (mg c)" "request_len (mg c) \<le> int (data_len (mg c))" "consumed_content c = 0"
    and "content_len (mg c) = content_length (request_info (mg c))" "0 \<le> content_len (mg c)" "content_len (mg c) \<le> EST_MAX_CONTENT_LEN"
    and "ptr_uri p \<le> k" "k < MAX_REQUEST_SIZE" "conn_buf (mg c) ! k = NUL"
    and "request_method (request_info (mg c)) = Some m" "is_valid_http_method m"
  obtains u b ct c1 where "request_ready c1 m u b ct" "same_past c c1"
    "handle_request env ctx p c =
       call_handler env ctx c1 m u b ct"
proof -
  have len: "length (conn_buf (mg c)) = MAX_REQUEST_SIZE" using assms(1) by (simp add: conn_ok_def)
  obtain mem q where d: "decode_uri (conn_buf (mg c)) (ptr_uri p) = Some (mem, q)" "length mem = MAX_REQUEST_SIZE"
    "uri_delivered (string_at mem (ptr_uri p))"
    using decode_uri_total [OF assms(8) _ assms(10)] assms(9) len by (auto simp: same_outside_def)
  define u where "u = string_at mem (ptr_uri p)"
  define c0 where "c0 = upd_conn (\<lambda>cn. cn\<lparr>conn_buf := mem, request_info := (request_info cn)\<lparr>uri := Some u, query_string := q\<rparr>\<rparr>) c"
  have c0: "conn_ok c0" "same_past c c0" using assms(1) d(2) by (simp_all add: conn_ok_def c0_def same_past_def upd_conn_def cbs_def input_size_def)
  have "content_length (request_info (mg c0)) = content_length (request_info (mg c))"
    by (simp add: c0_def content_length_def get_header_def split: option.split)
  then obtain b c1 where b: "read_body c0 = Some (b, c1)" "reads c0 c1" "int (length b) = content_len (mg c0)"
    using read_body_total [OF c0(1)] assms(2,4-7) by (auto simp: c0_def)
  note q1 = quiet_fields [OF b(2) [unfolded reads_def, THEN conjunct1]]
  define ct where "ct = mg_get_header (mg c1) ''Content-Type''"
  have info: "request_method (request_info (mg c1)) = Some m" "uri (request_info (mg c1)) = Some u"
    using q1(1) assms(11) by (simp_all add: c0_def)
  have "request_ready c1 m u b ct"
    using d(3) assms(2,3,7,12) b info q1 reads_conn_ok [OF b(2)] c0(1)
    by (auto simp: request_ready_def request_wf_def u_def ct_def c0_def reads_def)
  moreover have "same_past c c1" using same_past_trans [OF c0(2) reads_past [OF b(2)]] .
  moreover have "handle_request env ctx p c =
       call_handler env ctx c1 m u b ct"
    unfolding handle_request_def d(1) bind.simps prod.case c0_def [unfolded u_def, symmetric] est_mg_handler_def b(1) info ct_def [symmetric] Let_def
    by (cases "est_handler env ctx m u b ct (http c1)") (auto simp: after_handler_def call_handler_def)
  ultimately show thesis using that by blast
qed


lemma send_error_conn [simp]:
  fixes c :: CONN
  defines "c' \<equiv> \<lambda>n r b. upd_http (mg_send_http_error n r b) c"
  shows "conn_ok (c' n r b) = conn_ok c" "same_past c0 (c' n r b) = same_past c0 c" "status_code (mg (c' n r b)) = n"
    "content_len (mg (c' n r b)) = content_len (mg c)"
  using framing_eqD [OF fr_mg_send(1) [of n r b "http c"]]
  by (simp_all add: c'_def upd_http_def conn_ok_def same_past_def input_size_def)

lemma must_close_conn [simp]:
  "conn_ok (upd_conn (must_close_update (\<lambda>_. b)) c) = conn_ok c" "same_past c0 (upd_conn (must_close_update (\<lambda>_. b)) c) = same_past c0 c"
  by (simp_all add: conn_ok_def same_past_def upd_conn_def cbs_def input_size_def)

lemma end_request_closing:
  assumes "conn_ok c" and "same_past c0 c" and "\<not> should_keep_alive (mg c)"
  shows "\<exists>c'. end_request ctx c = Some (False, ctx, c') \<and> conn_ok c' \<and> same_past c0 c'"
proof -
  obtain m left where "discard_request c = Some (upd_conn (\<lambda>cn. cn\<lparr>conn_buf := m, data_len := left\<rparr>) c)"
    "length m = MAX_REQUEST_SIZE" "left \<le> data_len (mg c)" using discard_request_defined [OF assms(1)] .
  then show ?thesis
    using assms by (simp add: end_request_def conn_ok_def same_past_def upd_conn_def cbs_def input_size_def)
qed

text \<open>A request that is malformed, too long, of an unknown version or without a valid length is answered and ends the connection.\<close>

lemma serve_valid_cases:
  assumes "conn_ok c" and "0 < request_len (mg c)" "request_len (mg c) \<le> int (data_len (mg c))" "consumed_content c = 0"
    and "ptr_uri p \<le> k" "k < MAX_REQUEST_SIZE" "conn_buf (mg c) ! k = NUL"
    and "request_method (request_info (mg c)) = Some m" "is_valid_http_method m"
  shows "(\<exists>c'. serve_valid env ctx p c = Some (ctx, c') \<and> conn_ok c' \<and> same_past c c' \<and> \<not> should_keep_alive (mg c'))
    \<or> (\<exists>u b ct c1. request_ready c1 m u b ct \<and> same_past c c1 \<and> serve_valid env ctx p c =
         call_handler env ctx c1 m u b ct)"
proof -
  define c1 where "c1 = upd_conn (\<lambda>cn. cn\<lparr>content_len := content_length (request_info cn)\<rparr>) c"
  have c1: "conn_ok c1" "same_past c c1" "0 < request_len (mg c1)" "request_len (mg c1) \<le> int (data_len (mg c1))" "consumed_content c1 = 0"
    "content_len (mg c1) = content_length (request_info (mg c1))" "conn_buf (mg c1) ! k = NUL" "request_method (request_info (mg c1)) = Some m"
    using assms by (simp_all add: c1_def conn_ok_def same_past_def upd_conn_def cbs_def input_size_def)
  show ?thesis
  proof (cases "content_len (mg c1) > EST_MAX_CONTENT_LEN \<or> content_len (mg c1) < 0")
    case True
    then show ?thesis
      using c1(1,2) error_closes by (intro disjI1) (auto simp: serve_valid_def Let_def c1_def [symmetric])
  next
    case False
    then have "serve_valid env ctx p c = handle_request env ctx p c1" by (simp add: serve_valid_def Let_def c1_def [symmetric])
    moreover obtain u b ct c2 where "request_ready c2 m u b ct" "same_past c1 c2"
      "handle_request env ctx p c1 = call_handler env ctx c2 m u b ct"
    proof (rule handle_request_runs [OF c1(1,3-6) _ _ assms(5,6) c1(7,8) assms(9), of env ctx])
      show "0 \<le> content_len (mg c1)" "content_len (mg c1) \<le> EST_MAX_CONTENT_LEN" using False by auto
    qed (rule that)
    ultimately show ?thesis using same_past_trans [OF c1(2)] by metis
  qed
qed


lemma parse_http_request_total:
  assumes "get_request_len buf len = int (Suc k)" and "k < length buf" and "length buf \<le> RSIZE_MAX_STR"
  obtains r m p where "parse_http_request buf len = Some (r, m, Some p)" "m ! k = NUL" "length m = length buf" "ptr_uri p \<le> k"
    "r > 0 \<Longrightarrow> is_valid_http_method (string_at m (ptr_method p))" "ptr_method p \<le> k"
proof -
  obtain m p where mp: "parse_http_message buf len = Some (int (Suc k), m, Some p)" "m ! k = NUL" "length m = length buf" "ptrs_within k p"
    using parse_message_total [OF assms] by auto
  let ?v = "is_valid_http_method (drop (ptr_method p) m) \<and> strncmp (drop (ptr_version p) m) ''HTTP/'' 5 = 0"
  have meth: "is_valid_http_method (string_at m (ptr_method p)) = is_valid_http_method (drop (ptr_method p) m)"
    by (simp add: is_valid_http_method_def string_at_def strncmp_eq_0)
  show thesis
  proof (cases ?v)
    case True
    then have "parse_http_request buf len = Some (int (Suc k), m, Some (p\<lparr>ptr_version := ptr_version p + 5\<rparr>))"
      using mp(1) by (simp add: parse_http_request_def)
    then show ?thesis using that mp True meth by (simp add: ptrs_within_def)
  next
    case False
    then have "parse_http_request buf len = Some (-1, m, Some p)" using mp(1) by (simp add: parse_http_request_def)
    then show ?thesis using that mp by (simp add: ptrs_within_def)
  qed
qed

lemma serve_parsed_cases:
  assumes "conn_ok c" and "0 < request_len (mg c)" "request_len (mg c) \<le> int (data_len (mg c))" "consumed_content c = 0"
    and "ptr_uri p \<le> k" "k < MAX_REQUEST_SIZE" "conn_buf (mg c) ! k = NUL"
    and "request_method (request_info (mg c)) = Some m" "r > 0 \<Longrightarrow> is_valid_http_method m"
  shows "(\<exists>c'. serve_parsed env ctx r (Some p) c = Some (ctx, c') \<and> conn_ok c' \<and> same_past c c' \<and> \<not> should_keep_alive (mg c'))
    \<or> (\<exists>u b ct c1. request_ready c1 m u b ct \<and> same_past c c1 \<and> serve_parsed env ctx r (Some p) c = call_handler env ctx c1 m u b ct)"
proof -
  let ?m = "conn_buf (mg c)" and ?v = "drop (ptr_version p) (conn_buf (mg c))"
  have past: "same_past c c" by (simp add: same_past_def)
  consider (bad) "r \<le> 0 \<or> \<not> is_valid_uri (drop (ptr_uri p) ?m)"
    | (version) "r > 0" "is_valid_uri (drop (ptr_uri p) ?m)" "strncmp ?v ''1.0'' 3 \<noteq> 0" "strncmp ?v ''1.1'' 3 \<noteq> 0"
    | (ok) "r > 0" "is_valid_uri (drop (ptr_uri p) ?m)" "strncmp ?v ''1.0'' 3 = 0 \<or> strncmp ?v ''1.1'' 3 = 0" by linarith
  then show ?thesis
  proof cases
    case bad
    then show ?thesis using assms(1) past by (intro disjI1) (auto simp: serve_parsed_def Let_def should_keep_alive_def)
  next
    case version
    then show ?thesis using assms(1) past error_closes by (intro disjI1) (auto simp: serve_parsed_def Let_def)
  next
    case ok
    then have "serve_parsed env ctx r (Some p) c = serve_valid env ctx p c" by (auto simp: serve_parsed_def Let_def)
    then show ?thesis using serve_valid_cases [OF assms(1-8) assms(9) [OF ok(1)], of env ctx] by simp
  qed
qed

definition finish_call :: "(EST_CTX \<times> CONN) option \<Rightarrow> (bool \<times> EST_CTX \<times> CONN) option" where
  "finish_call r = do { (ctx, c) \<leftarrow> r; end_request ctx c }"

lemma serve_request_cases:
  assumes "conn_ok c"
  shows "(\<exists>c'. serve_request env ctx c = Some (False, ctx, c') \<and> conn_ok c' \<and> same_past c c')
    \<or> (\<exists>m u b ct c1. request_ready c1 m u b ct \<and> same_past c c1
         \<and> serve_request env ctx c = finish_call (call_handler env ctx c1 m u b ct))"
proof -
  define c0 where "c0 = reset_per_request_attributes c"
  have c0: "conn_ok c0" "same_past c c0" "consumed_content c0 = 0"
    using assms by (simp_all add: c0_def reset_per_request_attributes_def conn_ok_def same_past_def upd_conn_def cbs_def input_size_def)
  obtain n c1 where 1: "read_request MAX_REQUEST_SIZE c0 = Some (n, c1)" "conn_ok c1" "quiet c0 c1" "consumed_content c1 = 0"
    "n = -1 \<or> n = get_request_len (conn_buf (mg c1)) (data_len (mg c1))" "data_len (mg c1) + input_size c1 \<le> data_len (mg c0) + input_size c0"
    using read_request_total [OF c0(1)] c0(3) by auto
  define c2 where "c2 = upd_conn (request_len_update (\<lambda>_. n)) c1"
  have ok1: "length (conn_buf (mg c1)) = MAX_REQUEST_SIZE" "data_len (mg c1) \<le> MAX_REQUEST_SIZE" using 1(2) by (auto simp: conn_ok_def)
  have "same_past c0 c1" using 1(3,6) by (simp add: same_past_def quiet_def)
  then have c2: "conn_ok c2" "same_past c c2"
    using 1(2) same_past_trans [OF c0(2)] by (simp_all add: c2_def conn_ok_def same_past_def upd_conn_def cbs_def input_size_def)
  have bound: "n < 0 \<or> n \<le> int (data_len (mg c1))" using 1(5) get_request_len_bound [of "conn_buf (mg c1)" "data_len (mg c1)"] ok1 by force
  show ?thesis
  proof (cases "n \<le> 0")
    case True
    have n2: "\<not> \<not> (n < 0 \<or> n \<le> int (data_len (mg c2)))" using bound by (simp add: c2_def)
    have "serve_request env ctx c = (if n = 0 \<and> data_len (mg c2) = MAX_REQUEST_SIZE
        then Some (False, ctx, upd_http (mg_send_http_error 413 ''Request Too Large'' []) c2) else Some (False, ctx, c2))"
      unfolding serve_request_def c0_def [symmetric] 1(1) bind.simps prod.case Let_def c2_def [symmetric] using n2 True by (simp only: if_False if_True)
    then show ?thesis using c2 by auto
  next
    case False
    then obtain k where k: "n = int (Suc k)" by (metis gr0_implies_Suc int_nat_eq linorder_not_le zero_less_nat_eq nat_0_le order_less_imp_le)
    have n: "n = get_request_len (conn_buf (mg c1)) (data_len (mg c1))" using 1(5) False by simp
    then have full: "get_request_len (conn_buf (mg c1)) MAX_REQUEST_SIZE = int (Suc k)"
      using get_request_len_incremental [OF ok1(2)] False k by auto
    have kl: "k < MAX_REQUEST_SIZE" using bound k ok1(2) by simp
    have sz: "k < length (conn_buf (mg c1))" "length (conn_buf (mg c1)) \<le> RSIZE_MAX_STR"
      using kl ok1(1) by (simp_all add: RSIZE_MAX_STR_def MAX_REQUEST_SIZE_def)
    obtain r m p where p: "parse_http_request (conn_buf (mg c1)) MAX_REQUEST_SIZE = Some (r, m, Some p)" "m ! k = NUL"
      "length m = MAX_REQUEST_SIZE" "ptr_uri p \<le> k" "r > 0 \<Longrightarrow> is_valid_http_method (string_at m (ptr_method p))"
      by (rule parse_http_request_total [OF full sz]) (use ok1(1) that in auto)
    define c3 where "c3 = upd_conn (\<lambda>cn. cn\<lparr>conn_buf := m, request_info := request_view m p (request_info cn)\<rparr>) c2"
    have c3: "conn_ok c3" "same_past c c3" "0 < request_len (mg c3)" "request_len (mg c3) \<le> int (data_len (mg c3))" "consumed_content c3 = 0"
      "conn_buf (mg c3) ! k = NUL" "request_method (request_info (mg c3)) = Some (string_at m (ptr_method p))"
      using c2 p(2,3) bound 1(4) False
      by (auto simp: c3_def c2_def conn_ok_def same_past_def upd_conn_def cbs_def input_size_def request_view_def)
    have run: "serve_request env ctx c = finish_call (serve_parsed env ctx r (Some p) c3)"
      unfolding serve_request_def c0_def [symmetric] 1(1) bind.simps prod.case Let_def c2_def [symmetric] finish_call_def
      using bound False p(1) by (simp add: c2_def) (simp add: c3_def c2_def)
    consider c' where "serve_parsed env ctx r (Some p) c3 = Some (ctx, c')" "conn_ok c'" "same_past c3 c'" "\<not> should_keep_alive (mg c')"
      | u b ct c4 where "request_ready c4 (string_at m (ptr_method p)) u b ct" "same_past c3 c4"
          "serve_parsed env ctx r (Some p) c3 = call_handler env ctx c4 (string_at m (ptr_method p)) u b ct"
      using serve_parsed_cases [OF c3(1,3-5) p(4) kl c3(6,7) p(5), where env = env and ctx = ctx] by blast
    then show ?thesis
    proof cases
      case 1
      then show ?thesis
        using end_request_closing [OF 1(2) same_past_trans [OF c3(2) 1(3)] 1(4)] run by (simp add: finish_call_def)
    next
      case 2
      then show ?thesis using run same_past_trans [OF c3(2)] by metis
    qed
  qed
qed


section \<open>The loop of a server\<close>

lemma authorized_config:
  assumes "config ctx' = config ctx"
  shows "authorized ossl ctx' ssl seg cn = authorized ossl ctx ssl seg cn"
proof -
  note f = config_fields [OF assms]
  have "handle_enhanced_cert_auth ossl ctx' ssl peer buf ah flag = handle_enhanced_cert_auth ossl ctx ssl peer buf ah flag" for peer buf ah flag
    by (simp only: handle_enhanced_cert_auth_def est_enhcd_cert_auth_get_mfg_def perform_enhanced_cert_auth_csr_check_def
        build_enhanced_cert_auth_header_def f)
  then show ?thesis by (simp only: authorized_def credentials_accepted_def f)
qed

definition server_request :: "SERVER_ENV \<Rightarrow> request_handler" where
  "server_request env ctx method u body ct w =
     est_http_request (sv_build env) (sv_ossl env) (sv_asn1 env) ctx (sv_ssl env) method u body ct w"

text \<open>The pass that called the handler: the loop invariant holds again and less input is left.\<close>

lemma finish_call_server:
  assumes "request_ready c m u b ct" and "est_mode ctx = EST_SERVER" and "server_request env ctx m u b ct (http c) = Some (rv, ctx', w)"
  obtains again c' where "finish_call (call_handler env ctx c m u b ct) = Some (again, ctx', c')" "conn_ok c'" "config ctx' = config ctx"
    "handled c' = handled c @ [(m, u, b, ct)]" "cbs (http c') = cbs w" "data_len (mg c') + input_size c' < data_len (mg c) + input_size c"
proof -
  have fr: "fr w = fr (http c)" "config ctx' = config ctx" using fr_http_request [OF assms(3) [unfolded server_request_def]] by auto
  define c1 where "c1 = after_handler c m u b ct w"
  have c1: "mg c1 = conn w" "handled c1 = handled c @ [(m, u, b, ct)]" "input_size c1 = input_size c" "c_heap c1 = c_heap c" "http c1 = w"
    by (simp_all add: c1_def after_handler_def input_size_def)
  note eq = framing_eqD [OF fr(1)]
  have ready: "conn_ok c1" "0 < request_len (mg c1)" "request_len (mg c1) \<le> int (data_len (mg c1))" "0 \<le> content_len (mg c1)"
    using assms(1) eq by (simp_all add: c1 request_ready_def conn_ok_def)
  obtain mem left where d: "discard_request c1 = Some (upd_conn (\<lambda>cn. cn\<lparr>conn_buf := mem, data_len := left\<rparr>) c1)" "length mem = MAX_REQUEST_SIZE"
    "left < data_len (mg c1)" using discard_request_total [OF ready] by blast
  define c2 where "c2 = upd_conn (\<lambda>cn. cn\<lparr>conn_buf := mem, data_len := left\<rparr>) c1"
  have "call_handler env ctx c m u b ct = Some (ctx', c1)"
    using assms(2,3) by (simp add: call_handler_def est_handler_def server_request_def c1_def)
  then have "finish_call (call_handler env ctx c m u b ct) =
      Some (\<not> stop_flag c2 \<and> enable_keepalives (mg c2) \<and> content_len (mg c2) \<ge> 0 \<and> should_keep_alive (mg c1), ctx', c2)"
    by (simp add: finish_call_def end_request_def d(1) c2_def)
  moreover have "conn_ok c2" "handled c2 = handled c @ [(m, u, b, ct)]" "cbs (http c2) = cbs w"
    using ready(1) d(2,3) c1 by (simp_all add: c2_def conn_ok_def upd_conn_def cbs_def)
  moreover have "data_len (mg c2) + input_size c2 < data_len (mg c) + input_size c"
    using d(3) eq(6) c1 by (simp add: c2_def)
  ultimately show thesis using that fr(2) by blast
qed

lemma serve_requests_step:
  assumes "conn_ok c" and "est_mode ctx = EST_SERVER"
  obtains (ended) c' where "serve_requests env ctx c = Some (ctx, c')" "conn_ok c'" "same_past c c'"
  | (undefined_request) c1 m u b ct where "request_ready c1 m u b ct" "same_past c c1" "server_request env ctx m u b ct (http c1) = None"
      "serve_requests env ctx c = None"
  | (next_request) c1 m u b ct rv ctx' w again c' where "request_ready c1 m u b ct" "same_past c c1"
      "server_request env ctx m u b ct (http c1) = Some (rv, ctx', w)" "conn_ok c'" "config ctx' = config ctx"
      "handled c' = handled c @ [(m, u, b, ct)]" "cbs (http c') = cbs w" "data_len (mg c') + input_size c' < data_len (mg c) + input_size c"
      "serve_requests env ctx c = (if again then serve_requests env ctx' c' else Some (ctx', c'))"
proof -
  consider c' where "serve_request env ctx c = Some (False, ctx, c')" "conn_ok c'" "same_past c c'"
    | m u b ct c1 where "request_ready c1 m u b ct" "same_past c c1" "serve_request env ctx c = finish_call (call_handler env ctx c1 m u b ct)"
    using serve_request_cases [OF assms(1), of env ctx] by blast
  then show thesis
  proof cases
    case 1
    then show ?thesis using ended by (subst (asm) serve_requests.simps) simp
  next
    case 2
    show ?thesis
    proof (cases "server_request env ctx m u b ct (http c1)")
      case None
      then have "call_handler env ctx c1 m u b ct = None"
        using assms(2) by (simp add: call_handler_def est_handler_def server_request_def)
      then have "serve_requests env ctx c = None"
        using 2(3) by (subst serve_requests.simps) (simp add: finish_call_def)
      then show ?thesis using undefined_request 2 None by blast
    next
      case (Some r)
      obtain rv ctx' w where r: "r = (rv, ctx', w)" by (cases r)
      obtain again c' where f: "finish_call (call_handler env ctx c1 m u b ct) = Some (again, ctx', c')" "conn_ok c'" "config ctx' = config ctx"
        "handled c' = handled c1 @ [(m, u, b, ct)]" "cbs (http c') = cbs w" "data_len (mg c') + input_size c' < data_len (mg c1) + input_size c1"
        using finish_call_server [OF 2(1) assms(2) Some [unfolded r]] by blast
      have "serve_requests env ctx c = (if again then serve_requests env ctx' c' else Some (ctx', c'))"
        using 2(3) f(1) by (subst serve_requests.simps) simp
      then show ?thesis
        using next_request [OF 2(1,2) Some [unfolded r] f(2,3) _ f(5)] f(4,6) 2(2) by (simp add: same_past_def)
    qed
  qed
qed

lemma serve_requests_returns:
  assumes "conn_ok c" and "est_mode ctx = EST_SERVER"
    and "\<forall>ectx m u b ct w. config ectx = config ctx \<longrightarrow> server_request env ectx m u b ct w \<noteq> None"
  shows "\<exists>ctx' c'. serve_requests env ctx c = Some (ctx', c') \<and> conn_ok c'"
  using assms
proof (induction "data_len (mg c) + input_size c" arbitrary: c ctx rule: less_induct)
  case less
  show ?case
  proof (rule serve_requests_step [OF less.prems(1,2), of env])
    fix c1 m u b ct rv ctx' w again c'
    assume *: "conn_ok c'" "config ctx' = config ctx" "data_len (mg c') + input_size c' < data_len (mg c) + input_size c"
      "serve_requests env ctx c = (if again then serve_requests env ctx' c' else Some (ctx', c'))"
    have "\<exists>ctx'' c''. serve_requests env ctx' c' = Some (ctx'', c'') \<and> conn_ok c''"
      using less.hyps [OF *(3,1), of ctx'] less.prems(2,3) *(2) config_fields(1) [OF *(2)] by simp
    then show ?thesis using *(1,4) by auto
  qed (use less.prems(3) in blast)+
qed

definition request_authorized :: "SERVER_ENV \<Rightarrow> EST_CTX \<Rightarrow> string \<times> string \<times> string \<times> string option \<Rightarrow> bool" where
  "request_authorized env ctx r = (case r of (m, u, b, ct) \<Rightarrow>
     \<exists>ssl op seg cn. sv_ssl env = Some ssl \<and> build_parse_uri (sv_build env) u = Some (EST_ERR_NONE, Some op, seg)
       \<and> op \<noteq> EST_OP_CACERTS \<and> op \<noteq> EST_OP_CSRATTRS \<and> strncmp m ''POST'' 4 = 0 \<and> ct \<noteq> None
       \<and> request_method (request_info cn) = Some m \<and> uri (request_info cn) = Some u \<and> mg_get_header cn ''Content-Type'' = ct
       \<and> authorized (sv_ossl env) ctx ssl seg cn)"

lemma serve_requests_gate:
  assumes "conn_ok c" and "est_mode ctx = EST_SERVER" and "serve_requests env ctx c = Some (ctx', c')"
  shows "\<exists>rs. handled c' = handled c @ rs \<and> (\<forall>r \<in> set rs. request_wf r)
    \<and> (cbs (http c') \<noteq> cbs (http c) \<longrightarrow> (\<exists>r \<in> set rs. request_authorized env ctx r))"
  using assms
proof (induction "data_len (mg c) + input_size c" arbitrary: c ctx rule: less_induct)
  case less
  show ?case
  proof (rule serve_requests_step [OF less.prems(1,2), of env])
    fix c''
    assume "serve_requests env ctx c = Some (ctx, c'')" "same_past c c''"
    then show ?thesis using less.prems(3) by (auto simp: same_past_def)
  next
    fix c1 m u b ct rv ctx1 w again c2
    assume *: "request_ready c1 m u b ct" "same_past c c1" "server_request env ctx m u b ct (http c1) = Some (rv, ctx1, w)"
      "conn_ok c2" "config ctx1 = config ctx" "handled c2 = handled c @ [(m, u, b, ct)]" "cbs (http c2) = cbs w"
      "data_len (mg c2) + input_size c2 < data_len (mg c) + input_size c"
      "serve_requests env ctx c = (if again then serve_requests env ctx1 c2 else Some (ctx1, c2))"
    have auth: "request_authorized env ctx (m, u, b, ct)" if "cbs w \<noteq> cbs (http c1)"
      using http_request_gate [OF *(3) [unfolded server_request_def] that] *(1)
      by (auto simp: request_authorized_def request_ready_def)
    have wf: "request_wf (m, u, b, ct)" using *(1) by (simp add: request_ready_def)
    have past: "cbs (http c1) = cbs (http c)" using *(2) by (simp add: same_past_def)
    show ?thesis
    proof (cases again)
      case False
      then show ?thesis using *(6,7,9) less.prems(3) auth wf past by auto
    next
      case True
      have eq: "request_authorized env ctx1 r = request_authorized env ctx r" for r
        by (simp add: request_authorized_def authorized_config [OF *(5)])
      obtain rs where rs: "handled c' = handled c2 @ rs" "\<forall>r \<in> set rs. request_wf r"
        "cbs (http c') \<noteq> cbs (http c2) \<longrightarrow> (\<exists>r \<in> set rs. request_authorized env ctx r)"
        using less.hyps [OF *(8,4), of ctx1] less.prems(2,3) *(9) True config_fields(1) [OF *(5)] eq by auto
      show ?thesis
        using rs auth wf past *(6,7) by (intro exI [of _ "(m, u, b, ct) # rs"]) auto
    qed
  qed (use less.prems(3) in simp)
qed


section \<open>The entry point of the application\<close>

text \<open>
  \<^verbatim>\<open>est_server_handle_request\<close>: \<open>acc_mg_ctx\<close> tells whether the server was started, \<open>acc_peername\<close> and \<open>acc_ssl_new\<close> whether
  \<^verbatim>\<open>getpeername\<close> and \<^verbatim>\<open>SSL_new\<close> succeed, \<open>acc_result\<close> is the result of \<^verbatim>\<open>SSL_accept\<close>. \<open>acc_coap\<close> is present in a build with
  libcoap: the result of running its loop once, if the context has a CoAP context.
\<close>

datatype accept_result = Accept_Ok | Accept_Syscall | Accept_Ssl | Accept_Want | Accept_Lookup | Accept_Other

record ACCEPT =
  acc_mg_ctx :: bool
  acc_peername :: bool
  acc_ssl_new :: bool
  acc_result :: accept_result
  acc_coap :: "int option option"

definition est_server_coap_handle_request :: "int option \<Rightarrow> EST_ERROR" where
  "est_server_coap_handle_request coap =
     (case coap of None \<Rightarrow> EST_ERR_NO_CTX | Some rc \<Rightarrow> if rc \<noteq> 0 then EST_ERR_UNKNOWN else EST_ERR_NONE)"

text \<open>A connection structure is allocated with all bytes zero, the receive buffer behind it.\<close>

definition new_connection :: "bool \<Rightarrow> mg_connection" where
  "new_connection keepalives = \<lparr>request_info = \<lparr>request_method = None, uri = None, http_version = None, query_string = None, http_headers = []\<rparr>,
     must_close = False, status_code = 0, enable_keepalives = keepalives, content_len = 0, request_len = 0, data_len = 0,
     conn_buf = replicate MAX_REQUEST_SIZE NUL, user_id = []\<rparr>"

definition accept_connection :: "CONN \<Rightarrow> CONN" where
  "accept_connection c = (upd_conn (\<lambda>_. new_connection True) c)\<lparr>consumed_content := 0\<rparr>"

definition est_server_handle_request ::
  "SERVER_ENV \<Rightarrow> ACCEPT \<Rightarrow> EST_CTX option \<Rightarrow> CONN \<Rightarrow> (EST_ERROR \<times> EST_CTX option \<times> CONN) option" where
  "est_server_handle_request env acc ctx c =
     (case ctx of
        None \<Rightarrow> Some (EST_ERR_NO_CTX, None, c)
      | Some ectx \<Rightarrow>
          (case transport_mode ectx of
             EST_COAP \<Rightarrow>
               Some (case acc_coap acc of None \<Rightarrow> EST_ERR_BAD_MODE | Some coap \<Rightarrow> est_server_coap_handle_request coap, ctx, c)
           | EST_HTTP \<Rightarrow>
               if \<not> acc_mg_ctx acc then Some (EST_ERR_NO_CTX, ctx, c)
               else if \<not> acc_peername acc then Some (EST_ERR_UNKNOWN, ctx, c)
               else if \<not> acc_ssl_new acc then Some (EST_ERR_NONE, ctx, accept_connection c)
               else
                 (let process = do { (ectx', c') \<leftarrow> process_new_connection env ectx (accept_connection c); Some (EST_ERR_NONE, Some ectx', c') };
                      give_up = (\<lambda>e. Some (e, ctx, accept_connection c)) in
                  case acc_result acc of
                    Accept_Ok \<Rightarrow> process
                  | Accept_Want \<Rightarrow> process
                  | Accept_Syscall \<Rightarrow> give_up EST_ERR_SYSCALL
                  | Accept_Ssl \<Rightarrow> give_up EST_ERR_UNKNOWN
                  | Accept_Lookup \<Rightarrow> give_up EST_ERR_UNKNOWN
                  | Accept_Other \<Rightarrow> give_up EST_ERR_NONE)))"

lemma accept_connection_simps [simp]:
  "handled (accept_connection c) = handled c" "cbs (http (accept_connection c)) = cbs (http c)" "c_heap (accept_connection c) = c_heap c"
  "events (accept_connection c) = events c" "stop_flag (accept_connection c) = stop_flag c" "read_timeout (accept_connection c) = read_timeout c"
  by (simp_all add: accept_connection_def upd_conn_def cbs_def)

lemma accept_connection_ok:
  assumes "\<forall>n. length (c_heap c n) = n"
  shows "conn_ok (upd_conn (data_len_update (\<lambda>_. 0)) (accept_connection c))"
  using assms by (simp add: conn_ok_def accept_connection_def new_connection_def upd_conn_def)

definition accepted :: "ACCEPT \<Rightarrow> bool" where
  "accepted acc \<longleftrightarrow> acc_mg_ctx acc \<and> acc_peername acc \<and> acc_ssl_new acc \<and> (acc_result acc = Accept_Ok \<or> acc_result acc = Accept_Want)"

lemma handle_request_accepted:
  assumes "accepted acc" and "transport_mode ctx = EST_HTTP"
  shows "est_server_handle_request env acc (Some ctx) c =
    do { (ctx', c') \<leftarrow> process_new_connection env ctx (accept_connection c); Some (EST_ERR_NONE, Some ctx', c') }"
  using assms by (auto simp: est_server_handle_request_def accepted_def Let_def)

lemma handle_request_rejected:
  assumes "\<not> (accepted acc \<and> transport_mode ctx = EST_HTTP)" and "est_server_handle_request env acc (Some ctx) c = Some (rv, ctx', c')"
  shows "handled c' = handled c \<and> cbs (http c') = cbs (http c) \<and> ctx' = Some ctx"
  using assms
  by (auto simp: est_server_handle_request_def accepted_def Let_def split: if_split_asm EST_TRANSPORT_MODE.split_asm accept_result.split_asm)

section \<open>Waiting for a client\<close>

lemma wait_loop_idle:
  "wait_loop t waited (replicate n Poll_Idle @ ps) =
     (if t < waited + n * MSEC_POLL_WAIT_TIME then (if n = 0 then wait_loop t waited ps else Wait_Timeout)
      else wait_loop t (waited + n * MSEC_POLL_WAIT_TIME) ps)"
  by (induction n arbitrary: waited) (auto simp: add.assoc Let_def)


section \<open>Properties\<close>

text \<open>C16: parsing a request in place is safe for every content of the receive buffer: it is always defined, it changes only bytes of the request
  (the body behind it is untouched), every pointer it stores is inside the request, and the string at each of them
  ends inside it, because the last byte of the request is made a terminator. At most 64 headers are stored.\<close>

theorem parse_http_message_safe:
  assumes "length buf \<le> RSIZE_MAX_STR"
  shows "\<exists>n m ri. parse_http_message buf len = Some (n, m, ri) \<and> length m = length buf
    \<and> (case ri of
         None \<Rightarrow> n \<le> 0 \<and> m = buf
       | Some p \<Rightarrow> 0 < n \<and> n \<le> int len \<and> drop (nat n) m = drop (nat n) buf \<and> m ! (nat n - 1) = NUL
           \<and> length (ptr_headers p) \<le> NUM_REQUEST_HEADERS
           \<and> list_all (\<lambda>a. a + length (string_at m a) < nat n)
               ([ptr_method p, ptr_uri p, ptr_version p] @ map fst (ptr_headers p) @ map snd (ptr_headers p)))"
proof (cases "get_request_len buf len > 0")
  case False
  then show ?thesis by (simp add: parse_http_message_def Let_def)
next
  case True
  obtain l where l: "get_request_len buf len = int l" "2 \<le> l" "l \<le> min len (length buf)"
    using get_request_len_incremental [of len len buf] True by auto
  obtain k where k: "l = Suc k" using l(2) by (cases l) auto
  obtain m p where p: "parse_http_message buf len = Some (int (Suc k), m, Some p)" "same_outside 0 (Suc k) buf m" "m ! k = NUL"
    "length m = length buf" "ptrs_within k p"
    using parse_message_total [of buf len k] l k assms by auto
  have "drop (Suc k) m = drop (Suc k) buf" using p(2,4) by (intro nth_equalityI) (auto simp: same_outside_def)
  moreover have "a + length (string_at m a) < Suc k" if "a \<le> k" for a
    using cstr_before_nul [of a k m] that p(3,4) l(3) k by (simp add: string_at_def)
  ultimately show ?thesis
    using p l(3) k by (intro exI [of _ "int (Suc k)"] exI [of _ m] exI [of _ "Some p"]) (auto simp: ptrs_within_def list_all_iff nat_add_distrib)
qed

theorem parse_http_message_safe_witness:
  "\<exists>n m ri. parse_http_message (''GET / HTTP/1.1'' @ [LF, LF] @ ''rest'') 20 = Some (n, m, ri) \<and> length m = 20"
proof -
  have "length (''GET / HTTP/1.1'' @ [LF, LF] @ ''rest'') \<le> RSIZE_MAX_STR" by (simp add: RSIZE_MAX_STR_def)
  from parse_http_message_safe [OF this, of 20] show ?thesis by auto
qed


text \<open>C15: the server always returns from \<^verbatim>\<open>est_server_handle_request\<close>: whatever the peer sends, when its EST handler has a defined result in
  the given configuration, so has the whole connection loop: it ends, it never leaves the receive buffer or the body
  buffer, and its assertions hold.\<close>

theorem est_server_handle_request_returns:
  assumes "est_mode ctx = EST_SERVER" and "\<forall>n. length (c_heap c n) = n"
    and "\<forall>ectx m u b ct w. config ectx = config ctx \<longrightarrow>
      est_http_request (sv_build env) (sv_ossl env) (sv_asn1 env) ectx (sv_ssl env) m u b ct w \<noteq> None"
  shows "est_server_handle_request env acc (Some ctx) c \<noteq> None"
proof (cases "accepted acc \<and> transport_mode ctx = EST_HTTP")
  case False
  then show ?thesis by (auto simp: est_server_handle_request_def accepted_def Let_def split: EST_TRANSPORT_MODE.split accept_result.split)
next
  case True
  have "\<exists>ctx' c'. serve_requests env ctx (upd_conn (data_len_update (\<lambda>_. 0)) (accept_connection c)) = Some (ctx', c') \<and> conn_ok c'"
    using assms(3) by (intro serve_requests_returns accept_connection_ok assms) (simp add: server_request_def)
  then show ?thesis using True by (auto simp: handle_request_accepted process_new_connection_def)
qed

text \<open>A server without optional callbacks and a client with a certificate; its handler is defined for every request.\<close>

definition sample_server :: SERVER_ENV where
  "sample_server = \<lparr>sv_build = sample_build, sv_ossl = sample_ossl, sv_asn1 = der_asn1, sv_ssl = Some sample_ssl,
     sv_proxy = \<lambda>ctx _ _ _ _ w. Some (EST_ERR_BAD_MODE, ctx, w)\<rparr>"

definition sample_accept :: ACCEPT where
  "sample_accept = \<lparr>acc_mg_ctx = True, acc_peername = True, acc_ssl_new = True, acc_result = Accept_Ok, acc_coap = None\<rparr>"

definition sample_peer :: "string list \<Rightarrow> CONN" where
  "sample_peer chunks = \<lparr>http = sample_http, consumed_content = 0, events = map (\<lambda>bs. ([Poll_Idle, Poll_Ready], Pull_Bytes bs)) chunks,
     stop_flag = False, read_timeout = 5, c_heap = (\<lambda>n. replicate n CHR ''x''), handled = []\<rparr>"

lemma sample_handler_defined:
  assumes "config ectx = config sample_ctx"
  shows "est_http_request (sv_build sample_server) (sv_ossl sample_server) (sv_asn1 sample_server) ectx (sv_ssl sample_server) m u b ct w \<noteq> None"
proof -
  have cfg: "est_mode ectx = EST_SERVER" "transport_mode ectx = EST_HTTP" "require_http_auth ectx = False" "server_enable_pop ectx = False"
    "enforce_csrattrs ectx = False" "server_csrattrs ectx = None" "est_get_csr_cb ectx = None" "est_server_keygen_pkcs10_cb ectx = None"
    "est_brski_voucher_req_cb ectx = None" "est_brski_voucher_status_cb ectx = None" "est_brski_enroll_status_cb ectx = None"
    using arg_cong [OF assms, of est_mode] arg_cong [OF assms, of transport_mode] arg_cong [OF assms, of require_http_auth]
      arg_cong [OF assms, of server_enable_pop] arg_cong [OF assms, of enforce_csrattrs] arg_cong [OF assms, of server_csrattrs]
      arg_cong [OF assms, of est_get_csr_cb] arg_cong [OF assms, of est_server_keygen_pkcs10_cb] arg_cong [OF assms, of est_brski_voucher_req_cb]
      arg_cong [OF assms, of est_brski_voucher_status_cb] arg_cong [OF assms, of est_brski_enroll_status_cb]
    by (simp_all add: config_def sample_ctx_def)
  have auth: "\<exists>r. est_enroll_auth sample_ossl ectx sample_ssl seg t b w = Some r" for seg t
    using cfg by (simp add: est_enroll_auth_def check_for_TLS_cert_auth_def sample_ssl_def X509_V_OK_def Let_def)
  have adm: "\<exists>r. admit sample_ossl ectx sample_ssl seg t b w = Some r" for seg t
    using auth [of seg t] by (auto simp: admit_def split: option.split)
  have chk: "\<exists>r. request_checks sample_ossl der_asn1 ectx sample_ssl pc csr b = Some r" for pc csr
    using cfg by (auto simp: request_checks_def est_tls_uid_auth_def sample_ossl_def Let_def split: option.split)
  then obtain rc where rc: "\<And>pc csr. request_checks sample_ossl der_asn1 ectx sample_ssl pc csr b = Some (rc pc csr)" by metis
  have simple: "est_handle_simple_enroll sample_ossl der_asn1 ectx sample_ssl pc c b seg t w \<noteq> None" for pc c seg t
    using adm [of seg t] unfolding est_handle_simple_enroll_def
    by (auto split: option.split sum.split simp: bind_eq_None_conv rc) (metis surj_pair)+
  have fin: "finish ctx rc sent w1 \<noteq> None" "fail_with ctx e w1 \<noteq> None" for ctx rc sent e w1 by (simp_all add: finish_def fail_with_def)
  have run: "do { (rc, _, w') \<leftarrow> est_handle_simple_enroll sample_ossl der_asn1 ectx sample_ssl pc c b seg t w; finish ectx rc rc w' } \<noteq> None" for pc c seg t
    using simple [of pc c seg t] fin(1) by (cases "est_handle_simple_enroll sample_ossl der_asn1 ectx sample_ssl pc c b seg t w") auto
  have "http_enroll sample_ossl der_asn1 ectx sample_ssl op m b ct seg w \<noteq> None" for op seg
    using run fin cfg by (simp add: http_enroll_def est_handle_server_keygen_def split: option.split del: not_None_eq)
  moreover have "http_csrattrs sample_ossl der_asn1 ectx sample_ssl m seg w \<noteq> None" for seg
    using fin cfg by (simp add: http_csrattrs_def est_handle_csr_attrs_def)
  moreover have "http_cacerts ectx m seg w \<noteq> None" for seg using fin by (auto simp: http_cacerts_def split: prod.split)
  moreover have "http_brski sample_ossl ectx sample_ssl op m b ct seg w \<noteq> None" for op seg
    using fin cfg by (auto simp: http_brski_def est_brski_handle_voucher_req_def brski_status_def est_brski_handle_voucher_status_def
        est_brski_handle_enroll_status_def split: option.split EST_OPERATION.split)
  ultimately show ?thesis
    using fin cfg(1) unfolding est_http_request_def
    by (auto simp: sample_server_def sample_build_def build_parse_uri_def split: prod.split)
qed

lemma sample_peer_heap: "\<forall>n. length (c_heap (sample_peer chunks) n) = n"
  by (simp add: sample_peer_def)

theorem est_server_handle_request_returns_witness:
  "est_server_handle_request sample_server sample_accept (Some sample_ctx) (sample_peer [''GET /.well-known/est/cac'', ''erts HTTP'']) \<noteq> None"
proof (rule est_server_handle_request_returns [OF _ sample_peer_heap])
  show "est_mode sample_ctx = EST_SERVER" by (simp add: sample_ctx_def)
qed (use sample_handler_defined in blast)

lemma sample_run:
  obtains rv ctx' c' where "est_server_handle_request sample_server sample_accept (Some sample_ctx) (sample_peer chunks) = Some (rv, ctx', c')"
proof -
  have "serve_requests sample_server sample_ctx (upd_conn (data_len_update (\<lambda>_. 0)) (accept_connection (sample_peer chunks))) \<noteq> None"
    using serve_requests_returns [OF accept_connection_ok [OF sample_peer_heap], of sample_ctx sample_server chunks] sample_handler_defined
    by (auto simp: server_request_def sample_ctx_def)
  moreover have "accepted sample_accept" "transport_mode sample_ctx = EST_HTTP" by (simp_all add: accepted_def sample_accept_def sample_ctx_def)
  ultimately show thesis using that by (auto simp: handle_request_accepted process_new_connection_def)
qed




end
