(* ===== verification/Http_Stream.thy ===== *)
theory Http_Stream
  imports Http_Conn
begin

text \<open>
  The connection loop on the bytes of well-formed requests: the parser inverts the text a client writes, and requests
  that arrive in pieces of any size reach the EST handlers one by one and in order.
\<close>

section \<open>Requests as a client writes them\<close>

text \<open>A request: method, path, headers and body.\<close>

type_synonym request = "string \<times> string \<times> (string \<times> string) list \<times> string"

definition request_head :: "string \<Rightarrow> string \<Rightarrow> (string \<times> string) list \<Rightarrow> string" where
  "request_head meth u hs = meth @ '' '' @ u @ '' HTTP/1.1'' @ CRLF @ concat (map render_hdr hs) @ CRLF"

definition visible :: "string \<Rightarrow> bool" where
  "visible s \<longleftrightarrow> list_all request_char s \<and> line_ok s"

text \<open>
  Requests that need no decoding: a plain clean path, well-formed headers, and a length that is announced (or no body and
  no length, for a GET).
\<close>

definition head_ok :: "string \<Rightarrow> string \<Rightarrow> (string \<times> string) list \<Rightarrow> bool" where
  "head_ok meth u hs \<longleftrightarrow> meth \<in> {''GET'', ''POST''} \<and> visible u \<and> hd0 u = CHR ''/'' \<and> CHR '' '' \<notin> set u
     \<and> length hs \<le> NUM_REQUEST_HEADERS \<and> (\<forall>h \<in> set hs. hdr_ok h \<and> visible (fst h) \<and> visible (snd h))
     \<and> length (request_head meth u hs) \<le> MAX_REQUEST_SIZE"

lemma head_okD:
  assumes "head_ok meth u hs"
  shows "meth = ''GET'' \<or> meth = ''POST''" "u \<noteq> []" "visible u" "CHR '' '' \<notin> set u" "\<forall>h \<in> set hs. hdr_ok h"
    "\<forall>h \<in> set hs. visible (fst h) \<and> visible (snd h)" "length hs \<le> NUM_REQUEST_HEADERS" "length (request_head meth u hs) \<le> MAX_REQUEST_SIZE"
    "hd0 u = CHR ''/''"
  using assms by (auto simp: head_ok_def)

text \<open>The scan for the empty line.\<close>

lemma request_len_line:
  assumes "\<forall>c \<in> set w. request_char c \<and> c \<noteq> LF" and "t \<noteq> []"
  shows "get_request_len_loop (w @ t) i = get_request_len_loop t (i + length w)"
  using assms
proof (induction w arbitrary: i)
  case (Cons c w)
  obtain d s where ds: "w @ t = d # s" using assms(2) by (cases "w @ t") auto
  have "get_request_len_loop (c # d # s) i = get_request_len_loop (d # s) (Suc i)" using Cons.prems(1) by simp
  then show ?case using Cons ds [symmetric] by simp
qed simp

lemma request_char_CRLF [simp]: "request_char CR" "request_char LF"
  by (simp_all add: request_char_def)

lemma render_hdr_line:
  assumes "visible (fst h)" "visible (snd h)"
  shows "\<forall>c \<in> set (fst h @ '': '' @ snd h @ [CR]). request_char c \<and> c \<noteq> LF"
  using assms by (auto simp: visible_def line_ok_def list_all_iff request_char_def isprint_def uchr_def)

lemma request_len_headers:
  assumes "\<forall>h \<in> set hs. hdr_ok h \<and> visible (fst h) \<and> visible (snd h)"
  shows "get_request_len_loop (LF # concat (map render_hdr hs) @ CRLF @ x) i = int (i + length (concat (map render_hdr hs)) + 3)"
  using assms
proof (induction hs arbitrary: i)
  case Nil
  then show ?case by (simp add: CRLF_def)
next
  case (Cons h hs)
  have ok: "hdr_ok h" "visible (fst h)" "visible (snd h)" using Cons.prems by auto
  let ?l = "fst h @ '': '' @ snd h @ [CR]" and ?t = "LF # concat (map render_hdr hs) @ CRLF @ x"
  obtain d s where d: "fst h = d # s" "d \<noteq> CR" "d \<noteq> LF" using ok(1) by (cases "fst h") (auto simp: hdr_ok_def line_ok_def)
  have eq: "concat (map render_hdr (h # hs)) @ CRLF @ x = ?l @ ?t" by (simp add: render_hdr_def CRLF_def)
  have "get_request_len_loop (LF # ?l @ ?t) i = get_request_len_loop (?l @ ?t) (Suc i)" using d by simp
  also have "\<dots> = get_request_len_loop ?t (Suc i + length ?l)" by (rule request_len_line [OF render_hdr_line [OF ok(2,3)]]) simp
  also have "\<dots> = int (Suc i + length ?l + length (concat (map render_hdr hs)) + 3)" using Cons by simp
  finally show ?case unfolding eq by (simp add: length_render_cut(2))
qed

lemma request_len_head:
  assumes "head_ok meth u hs"
  shows "get_request_len_loop (request_head meth u hs @ x) 0 = int (length (request_head meth u hs))"
proof -
  note ok = head_okD [OF assms]
  let ?l = "meth @ '' '' @ u @ '' HTTP/1.1'' @ [CR]" and ?t = "LF # concat (map render_hdr hs) @ CRLF @ x"
  have "\<forall>c \<in> set ?l. request_char c \<and> c \<noteq> LF"
    using ok(1,3) by (auto simp: visible_def line_ok_def list_all_iff request_char_def isprint_def uchr_def)
  then have "get_request_len_loop (?l @ ?t) 0 = get_request_len_loop ?t (0 + length ?l)" by (rule request_len_line) simp
  also have "\<dots> = int (0 + length ?l + length (concat (map render_hdr hs)) + 3)" using ok(5,6) by (intro request_len_headers) blast
  finally show ?thesis by (simp add: request_head_def CRLF_def)
qed

text \<open>The headers in place, up to the terminator that ends them.\<close>

lemma mg_headers_end:
  assumes "length (pre @ NUL # z) \<le> RSIZE_MAX_STR"
  shows "mg_parse_http_headers n (pre @ NUL # z) (length pre) = Some (pre @ NUL # z, length pre, [])"
proof (cases n)
  case (Suc k)
  have "skip_quoted (pre @ [] @ NUL # z) (length pre) '':'' '' '' NUL = Some (pre @ [] @ NUL # z, length pre + length ([] :: string), length pre)"
    "skip_quoted (pre @ [] @ NUL # z) (length pre) CRLF CRLF NUL = Some (pre @ [] @ NUL # z, length pre + length ([] :: string), length pre)"
    using assms by (intro skip_quoted_last; simp add: delims_short)+
  then show ?thesis by (simp add: Suc skip_def rd_def)
qed simp

lemma mg_headers_render:
  assumes "\<forall>h \<in> set hs. hdr_ok h" and "hs \<noteq> []" and "length hs \<le> n"
    and "m = pre @ concat (map render_hdr hs) @ [CR] @ NUL # z" and "length m \<le> RSIZE_MAX_STR"
  shows "\<exists>p. mg_parse_http_headers n m (length pre) = Some (pre @ concat (map cut_hdr hs) @ [NUL] @ NUL # z, p, hdr_addrs (length pre) hs)"
  using assms
proof (induction hs arbitrary: n m pre)
  case (Cons h hs)
  obtain k where n: "n = Suc k" using Cons.prems(3) by (cases n) auto
  have ok: "hdr_ok h" using Cons.prems(1) by simp
  define gap where "gap = (if hs = [] then [CR] else [])"
  define post where "post = (if hs = [] then NUL # z else concat (map render_hdr hs) @ [CR] @ NUL # z)"
  have m: "m = pre @ render_hdr h @ gap @ post" using Cons.prems(4) by (simp add: gap_def post_def)
  have gap: "set gap \<subseteq> {CR, LF}" by (auto simp: gap_def)
  have hd: "hd0 post \<noteq> CR" "hd0 post \<noteq> LF"
    using Cons.prems(1) by (cases hs; cases "fst (hd hs)"; auto simp: post_def render_hdr_def hdr_ok_def line_ok_def)+
  note s = header_line_skips [OF ok m gap hd Cons.prems(5)]
  let ?pre = "pre @ cut_hdr h @ replicate (length gap) NUL"
  have "\<exists>p. mg_parse_http_headers k (?pre @ post) (length ?pre)
      = Some (pre @ concat (map cut_hdr (h # hs)) @ [NUL] @ NUL # z, p, hdr_addrs (length pre + length (fst h) + length (snd h) + 4) hs)"
  proof (cases "hs = []")
    case True
    have "length (?pre @ NUL # z) \<le> RSIZE_MAX_STR" using Cons.prems(5) m True by (simp add: gap_def post_def length_render_cut)
    from mg_headers_end [OF this, of k] show ?thesis using True by (simp add: gap_def post_def)
  next
    case False
    have "\<exists>p. mg_parse_http_headers k ((pre @ cut_hdr h) @ concat (map render_hdr hs) @ [CR] @ NUL # z) (length (pre @ cut_hdr h))
      = Some ((pre @ cut_hdr h) @ concat (map cut_hdr hs) @ [NUL] @ NUL # z, p, hdr_addrs (length (pre @ cut_hdr h)) hs)"
      using Cons.prems False n by (intro Cons.IH) (auto simp: length_render_cut)
    then show ?thesis using False by (simp add: gap_def post_def cut_hdr_def [of h] add.assoc numeral_eq_Suc)
  qed
  then obtain p where "mg_parse_http_headers k (?pre @ post) (length ?pre)
      = Some (pre @ concat (map cut_hdr (h # hs)) @ [NUL] @ NUL # z, p, hdr_addrs (length pre + length (fst h) + length (snd h) + 4) hs)" by blast
  then show ?case
    unfolding n mg_parse_http_headers.simps using s by (simp add: add.assoc)
qed simp


text \<open>A request in the buffer and its pointers after parsing.\<close>

definition cut_head :: "string \<Rightarrow> string \<Rightarrow> (string \<times> string) list \<Rightarrow> string" where
  "cut_head meth u hs = (meth @ [NUL] @ u @ [NUL] @ ''HTTP/1.1'' @ [NUL, NUL]) @ concat (map cut_hdr hs) @ [NUL, NUL]"

definition head_ptrs :: "string \<Rightarrow> string \<Rightarrow> (string \<times> string) list \<Rightarrow> REQ_PTRS" where
  "head_ptrs meth u hs = \<lparr>ptr_method = 0, ptr_uri = length meth + 1, ptr_version = length meth + 1 + length u + 1,
     ptr_headers = hdr_addrs (length meth + length u + 12) hs\<rparr>"

lemma length_cut_head: "length (cut_head meth u hs) = length (request_head meth u hs)"
proof -
  have "length (concat (map cut_hdr hs)) = length (concat (map render_hdr hs))" by (simp add: length_concat length_render_cut(1) comp_def)
  then show ?thesis by (simp add: cut_head_def request_head_def CRLF_def)
qed

lemma parse_message_render:
  assumes "head_ok meth u hs" and "length (request_head meth u hs @ z) \<le> RSIZE_MAX_STR"
    and "length (request_head meth u hs) \<le> len"
  shows "parse_http_message (request_head meth u hs @ z) len =
    Some (int (length (request_head meth u hs)), cut_head meth u hs @ z, Some (head_ptrs meth u hs))"
proof -
  note ok = head_okD [OF assms(1)]
  let ?H = "request_head meth u hs" and ?B = "concat (map render_hdr hs)"
  have len: "get_request_len (?H @ z) len = int (length ?H)"
    using request_len_head [OF assms(1), of "take (len - length ?H) z"] assms(3) by (simp add: get_request_len_def)
  define m0 where "m0 = meth @ CHR '' '' # u @ CHR '' '' # ''HTTP/1.1'' @ CRLF @ ?B @ [CR] @ NUL # z"
  have pos: "0 < length ?H" by (simp add: request_head_def)
  have "(?H @ z)[length ?H - 1 := NUL] = m0"
    by (simp add: request_head_def m0_def CRLF_def list_update_append)
  moreover have "length ?H - 1 < length (?H @ z)" using pos unfolding length_append by linarith
  ultimately have w: "wr (?H @ z) (nat (int (length ?H)) - 1) NUL = Some m0" by (simp add: wr_def del: length_append)
  have l0: "length m0 \<le> RSIZE_MAX_STR" using assms(2) by (simp add: m0_def request_head_def CRLF_def)
  have meth: "takeWhile isspace m0 = []" "NUL \<notin> set meth" "CHR '' '' \<notin> set meth"
    using ok(1) by (auto simp: m0_def isspace_def uchr_def)
  have u: "NUL \<notin> set u" "hd0 (u @ x) = CHR ''/''" for x using ok(2,3,9) by (cases u; auto simp: visible_def line_ok_def)+
  have d: "length '' '' \<le> RSIZE_MAX_STR" "length CRLF \<le> RSIZE_MAX_STR" by (simp_all add: delims_short)
  have 1: "skip m0 0 '' '' = Some (meth @ NUL # u @ CHR '' '' # ''HTTP/1.1'' @ CRLF @ ?B @ [CR] @ NUL # z, length meth + 1, 0)"
    using skip_word [of "[]" meth "CHR '' ''" "[]" "u @ CHR '' '' # ''HTTP/1.1'' @ CRLF @ ?B @ [CR] @ NUL # z" "'' ''"] l0 d meth(2,3) u(2)
    by (simp add: m0_def)
  have 2: "skip (meth @ NUL # u @ CHR '' '' # ''HTTP/1.1'' @ CRLF @ ?B @ [CR] @ NUL # z) (length meth + 1) '' ''
      = Some (meth @ NUL # u @ NUL # ''HTTP/1.1'' @ CRLF @ ?B @ [CR] @ NUL # z, length meth + 1 + length u + 1, length meth + 1)"
    using skip_word [of "meth @ [NUL]" u "CHR '' ''" "[]" "''HTTP/1.1'' @ CRLF @ ?B @ [CR] @ NUL # z" "'' ''"] l0 d ok(4) u(1)
    by (simp add: m0_def)
  define pre where "pre = meth @ NUL # u @ [NUL]"
  define gap where "gap = (if hs = [] then [CR] else [])"
  define post where "post = (if hs = [] then NUL # z else ?B @ [CR] @ NUL # z)"
  have m2: "meth @ NUL # u @ NUL # ''HTTP/1.1'' @ CRLF @ ?B @ [CR] @ NUL # z = pre @ ''HTTP/1.1'' @ CR # (LF # gap) @ post"
    by (simp add: pre_def gap_def post_def CRLF_def)
  have hd: "hd0 post \<notin> {CR, LF}" using ok(5) by (cases hs; cases "fst (hd hs)"; auto simp: post_def render_hdr_def hdr_ok_def line_ok_def)
  have 3: "skip (pre @ ''HTTP/1.1'' @ CR # (LF # gap) @ post) (length pre) CRLF
      = Some (pre @ ''HTTP/1.1'' @ NUL # replicate (length (LF # gap)) NUL @ post, length pre + length ''HTTP/1.1'' + 1 + length (LF # gap), length pre)"
    using l0 d hd m2 by (intro skip_word) (auto simp: m0_def gap_def pre_def CRLF_def split: if_split_asm)
  have 4: "\<exists>p. mg_parse_http_headers NUM_REQUEST_HEADERS (pre @ ''HTTP/1.1'' @ NUL # replicate (length (LF # gap)) NUL @ post)
      (length pre + length ''HTTP/1.1'' + 1 + length (LF # gap)) = Some (cut_head meth u hs @ z, p, hdr_addrs (length meth + length u + 12) hs)"
  proof (cases "hs = []")
    case True
    have "length ((pre @ ''HTTP/1.1'' @ [NUL, NUL, NUL]) @ NUL # z) \<le> RSIZE_MAX_STR" using l0 True by (simp add: m0_def pre_def CRLF_def)
    from mg_headers_end [OF this, of NUM_REQUEST_HEADERS] show ?thesis using True by (simp add: gap_def post_def cut_head_def pre_def)
  next
    case False
    have "\<exists>p. mg_parse_http_headers NUM_REQUEST_HEADERS ((pre @ ''HTTP/1.1'' @ [NUL, NUL]) @ ?B @ [CR] @ NUL # z) (length (pre @ ''HTTP/1.1'' @ [NUL, NUL]))
      = Some ((pre @ ''HTTP/1.1'' @ [NUL, NUL]) @ concat (map cut_hdr hs) @ [NUL] @ NUL # z, p, hdr_addrs (length (pre @ ''HTTP/1.1'' @ [NUL, NUL])) hs)"
      using ok(5,7) False l0 by (intro mg_headers_render) (auto simp: m0_def pre_def CRLF_def)
    then show ?thesis using False by (simp add: gap_def post_def cut_head_def pre_def numeral_eq_Suc)
  qed
  then obtain p where 4: "mg_parse_http_headers NUM_REQUEST_HEADERS (pre @ ''HTTP/1.1'' @ NUL # replicate (length (LF # gap)) NUL @ post)
      (length pre + length ''HTTP/1.1'' + 1 + length (LF # gap)) = Some (cut_head meth u hs @ z, p, hdr_addrs (length meth + length u + 12) hs)" by blast
  have lp: "length meth + 1 + length u + 1 = length pre" by (simp add: pre_def)
  have pos': "0 < int (length ?H)" using pos by simp
  have ws: "length (takeWhile isspace m0) = 0" by (simp add: meth(1))
  show ?thesis
    unfolding parse_http_message_def Let_def len if_P [OF pos'] w bind.simps prod.case ws 1 2 m2 lp 3 4
    by (simp add: head_ptrs_def pre_def)
qed

lemma parse_request_render:
  assumes "head_ok meth u hs" and "length (request_head meth u hs @ z) \<le> RSIZE_MAX_STR" and "length (request_head meth u hs) \<le> len"
  defines "p \<equiv> (head_ptrs meth u hs)\<lparr>ptr_version := length meth + 1 + length u + 6\<rparr>"
  shows "parse_http_request (request_head meth u hs @ z) len = Some (int (length (request_head meth u hs)), cut_head meth u hs @ z, Some p)"
    and "request_view (cut_head meth u hs @ z) p ri =
      ri\<lparr>request_method := Some meth, uri := Some u, http_version := Some ''1.1'', http_headers := hs\<rparr>"
proof -
  note ok = head_okD [OF assms(1)]
  let ?m = "cut_head meth u hs @ z"
  have nul: "NUL \<notin> set meth" "NUL \<notin> set u" using ok(1,3) by (auto simp: visible_def line_ok_def)
  have meth: "drop 0 ?m = meth @ NUL # u @ [NUL] @ ''HTTP/1.1'' @ [NUL, NUL] @ concat (map cut_hdr hs) @ [NUL, NUL] @ z"
    and u: "drop (length meth + 1) ?m = u @ NUL # ''HTTP/1.1'' @ [NUL, NUL] @ concat (map cut_hdr hs) @ [NUL, NUL] @ z"
    and v: "drop (length meth + 1 + length u + 1) ?m = ''HTTP/1.1'' @ [NUL, NUL] @ concat (map cut_hdr hs) @ [NUL, NUL] @ z"
    and v5: "drop (length meth + 1 + length u + 6) ?m = ''1.1'' @ [NUL, NUL] @ concat (map cut_hdr hs) @ [NUL, NUL] @ z"
    by (simp_all add: cut_head_def numeral_eq_Suc)
  have "is_valid_http_method (drop 0 ?m)" unfolding meth using ok(1) by (auto simp: is_valid_http_method_def strncmp_eq_0)
  moreover have "strncmp (drop (length meth + 1 + length u + 1) ?m) ''HTTP/'' 5 = 0" unfolding v by (simp add: strncmp_eq_0)
  ultimately show "parse_http_request (request_head meth u hs @ z) len = Some (int (length (request_head meth u hs)), ?m, Some p)"
    unfolding parse_http_request_def parse_message_render [OF assms(1-3)] bind.simps prod.case option.case
    by (simp add: head_ptrs_def p_def)
  let ?pre = "meth @ [NUL] @ u @ [NUL] @ ''HTTP/1.1'' @ [NUL, NUL]"
  have "map (\<lambda>(n, v). (cstr n, cstr v)) (hdr_strings (?pre @ concat (map cut_hdr hs) @ [NUL, NUL] @ z) (hdr_addrs (length ?pre) hs)) = hs"
    using ok(5) by (intro hdr_strings_render) blast
  then have "map (\<lambda>(n, v). (string_at ?m n, string_at ?m v)) (ptr_headers p) = hs"
    by (simp add: p_def head_ptrs_def hdr_strings_def string_at_def cut_head_def comp_def case_prod_unfold numeral_eq_Suc)
  moreover have "string_at ?m (ptr_method p) = meth" "string_at ?m (ptr_uri p) = u" "string_at ?m (ptr_version p) = ''1.1''"
    unfolding string_at_def p_def head_ptrs_def REQ_PTRS.simps meth u v5 using nul by simp_all
  ultimately show "request_view ?m p ri = ri\<lparr>request_method := Some meth, uri := Some u, http_version := Some ''1.1'', http_headers := hs\<rparr>"
    by (simp add: request_view_def)
qed


section \<open>A connection that delivers bytes\<close>

text \<open>Every event delivers bytes; \<open>pending\<close> is what the server has not discarded yet: its buffer and what will come.\<close>

definition ev_bytes :: "conn_event \<Rightarrow> string" where
  "ev_bytes e = (case snd e of Pull_Bytes bs \<Rightarrow> bs | _ \<Rightarrow> [])"

definition feeding :: "CONN \<Rightarrow> bool" where
  "feeding c \<longleftrightarrow> \<not> stop_flag c \<and> (\<forall>e \<in> set (events c). wait_until_socket_is_readable (read_timeout c) (fst e) = Wait_Ready
     \<and> (\<exists>bs. snd e = Pull_Bytes bs))"

definition coming :: "CONN \<Rightarrow> string" where
  "coming c = concat (map ev_bytes (events c))"

definition pending :: "CONN \<Rightarrow> string" where
  "pending c = take (data_len (mg c)) (conn_buf (mg c)) @ coming c"

lemma feeding_upd [simp]:
  "feeding (upd_conn f c) = feeding c" "coming (upd_conn f c) = coming c"
  "feeding (c\<lparr>consumed_content := k\<rparr>) = feeding c" "coming (c\<lparr>consumed_content := k\<rparr>) = coming c"
  by (simp_all add: feeding_def coming_def)

lemma wait_ready: "wait_until_socket_is_readable t [Poll_Ready] = Wait_Ready"
  by (simp add: wait_until_socket_is_readable_def)

text \<open>A read that happens while bytes are coming.\<close>

lemma pull_feeds:
  assumes "feeding c" and "coming c \<noteq> []"
  obtains bs evs where "pull len c = (Some bs, c\<lparr>events := evs\<rparr>)" "feeding (c\<lparr>events := evs\<rparr>)" "coming c = bs @ coming (c\<lparr>events := evs\<rparr>)"
proof -
  obtain polls res es where e: "events c = (polls, res) # es" using assms(2) by (cases "events c") (auto simp: coming_def)
  obtain bs where bs: "res = Pull_Bytes bs" and rdy: "wait_until_socket_is_readable (read_timeout c) polls = Wait_Ready"
    using assms(1) e by (auto simp: feeding_def)
  define evs where "evs = (if length bs \<le> len then es else ([Poll_Ready], Pull_Bytes (drop len bs)) # es)"
  have "pull len c = (Some (take len bs), c\<lparr>events := evs\<rparr>)"
    using assms(1) e bs rdy by (simp add: pull_def feeding_def evs_def Let_def)
  moreover have "feeding (c\<lparr>events := evs\<rparr>)" using assms(1) e bs by (auto simp: feeding_def evs_def wait_ready)
  moreover have "coming c = take len bs @ coming (c\<lparr>events := evs\<rparr>)" by (simp add: coming_def evs_def e bs ev_bytes_def)
  ultimately show thesis by (rule that)
qed

text \<open>\<^verbatim>\<open>read_request\<close> stops once the head of a request is in the buffer, whatever the sizes of the pieces.\<close>

lemma request_len_prefix:
  assumes "get_request_len_loop (H @ x) 0 = int (length H)" and "H @ x = s @ t" and "H \<noteq> []" "\<And>y. get_request_len_loop (H @ y) 0 = int (length H)"
  shows "get_request_len_loop s 0 = (if length H \<le> length s then int (length H) else 0)"
proof (cases "length H \<le> length s")
  case True
  then obtain y where "s = H @ y" using assms(2) by (metis append_eq_append_conv_if append_take_drop_id)
  then show ?thesis using assms(4) by simp
next
  case False
  have "get_request_len_loop s 0 = 0"
  proof (rule ccontr)
    assume ne: "get_request_len_loop s 0 \<noteq> 0"
    then have eq: "get_request_len_loop s 0 = int (length H)" using get_request_len_loop_extend [OF ne, of t] assms(1,2) by simp
    then have "0 < get_request_len_loop s 0" using assms(3) by simp
    from get_request_len_loop_pos [OF this] eq False show False by auto
  qed
  then show ?thesis using False by simp
qed

lemma read_request_feeds:
  assumes "conn_ok c" and "feeding c" and "pending c = H @ x" and "H \<noteq> []" "length H \<le> MAX_REQUEST_SIZE"
    and H: "\<And>y. get_request_len_loop (H @ y) 0 = int (length H)"
  shows "\<exists>m n evs. read_request MAX_REQUEST_SIZE c = Some (int (length H), upd_conn (\<lambda>cn. cn\<lparr>conn_buf := m, data_len := n\<rparr>) (c\<lparr>events := evs\<rparr>))
    \<and> length H \<le> n \<and> n \<le> MAX_REQUEST_SIZE \<and> length m = MAX_REQUEST_SIZE \<and> feeding (c\<lparr>events := evs\<rparr>) \<and> take n m @ coming (c\<lparr>events := evs\<rparr>) = H @ x"
  using assms(1-3)
proof (induction "MAX_REQUEST_SIZE" c rule: read_request.induct)
  case (1 c)
  let ?n = "data_len (mg c)" and ?b = "conn_buf (mg c)"
  have ok: "length ?b = MAX_REQUEST_SIZE" "?n \<le> MAX_REQUEST_SIZE" using 1(2) by (auto simp: conn_ok_def)
  have "get_request_len_loop (take ?n ?b) 0 = (if length H \<le> length (take ?n ?b) then int (length H) else 0)"
    by (rule request_len_prefix [OF H _ assms(4) H, of x _ "coming c"]) (simp add: 1(4) [unfolded pending_def])
  then have len: "get_request_len ?b ?n = (if length H \<le> ?n then int (length H) else 0)" using ok by (simp add: get_request_len_def)
  show ?case
  proof (cases "length H \<le> ?n")
    case True
    have "read_request MAX_REQUEST_SIZE c = Some (int (length H), c)" using True len assms(4) by (subst read_request.simps) simp
    moreover have "upd_conn (\<lambda>cn. cn\<lparr>conn_buf := ?b, data_len := ?n\<rparr>) (c\<lparr>events := events c\<rparr>) = c" by (simp add: upd_conn_def)
    ultimately show ?thesis using True ok 1(3,4) by (intro exI [of _ ?b] exI [of _ ?n] exI [of _ "events c"]) (simp add: pending_def)
  next
    case False
    have cond: "?n < MAX_REQUEST_SIZE \<and> get_request_len ?b ?n = 0" using False len assms(5) by simp
    have "coming c \<noteq> []"
    proof
      assume "coming c = []"
      then have "take ?n ?b = H @ x" using 1(4) by (simp add: pending_def)
      then have "length H + length x = length (take ?n ?b)" by simp
      then show False using False ok by simp
    qed
    then obtain bs evs where p: "pull (MAX_REQUEST_SIZE - ?n) c = (Some bs, c\<lparr>events := evs\<rparr>)" "feeding (c\<lparr>events := evs\<rparr>)"
      "coming c = bs @ coming (c\<lparr>events := evs\<rparr>)" using pull_feeds [OF 1(3)] by blast
    have bl: "length bs \<le> MAX_REQUEST_SIZE - ?n" using pull_length [OF p(1)] .
    define m where "m = take ?n ?b @ bs @ drop (?n + length bs) ?b"
    have w: "wr_block (conn_buf (mg (c\<lparr>events := evs\<rparr>))) ?n bs = Some m" using bl ok cond by (auto simp: m_def wr_block_def)
    have m: "length m = MAX_REQUEST_SIZE" "take (?n + length bs) m = take ?n ?b @ bs" using bl ok cond by (auto simp: m_def)
    define c2 where "c2 = upd_conn (\<lambda>cn. cn\<lparr>conn_buf := m, data_len := ?n + length bs\<rparr>) (c\<lparr>events := evs\<rparr>)"
    have "conn_ok c2" using 1(2) bl cond m by (auto simp: conn_ok_def c2_def)
    moreover have "feeding c2" using p(2) by (simp add: c2_def)
    moreover have "pending c2 = H @ x" using 1(4) p(3) m by (simp add: pending_def c2_def)
    ultimately obtain m' n' evs' where IH: "read_request MAX_REQUEST_SIZE c2 = Some (int (length H), upd_conn (\<lambda>cn. cn\<lparr>conn_buf := m', data_len := n'\<rparr>) (c2\<lparr>events := evs'\<rparr>))"
      "length H \<le> n'" "n' \<le> MAX_REQUEST_SIZE" "length m' = MAX_REQUEST_SIZE" "feeding (c2\<lparr>events := evs'\<rparr>)" "take n' m' @ coming (c2\<lparr>events := evs'\<rparr>) = H @ x"
      using 1(1) [OF refl refl cond p(1) [symmetric] refl w] unfolding c2_def by blast
    have "read_request MAX_REQUEST_SIZE c = read_request MAX_REQUEST_SIZE c2"
      using cond p(1) w by (subst read_request.simps) (simp add: c2_def)
    moreover have "upd_conn (\<lambda>cn. cn\<lparr>conn_buf := m', data_len := n'\<rparr>) (c2\<lparr>events := evs'\<rparr>) = upd_conn (\<lambda>cn. cn\<lparr>conn_buf := m', data_len := n'\<rparr>) (c\<lparr>events := evs'\<rparr>)"
      "feeding (c2\<lparr>events := evs'\<rparr>) = feeding (c\<lparr>events := evs'\<rparr>)" "coming (c2\<lparr>events := evs'\<rparr>) = coming (c\<lparr>events := evs'\<rparr>)"
      by (simp_all add: c2_def upd_conn_def feeding_def coming_def)
    ultimately show ?thesis using IH by (intro exI [of _ m'] exI [of _ n'] exI [of _ evs']) simp
  qed
qed

text \<open>Reading the body.\<close>

lemma pull_body_feeds:
  assumes "feeding c" and "coming c = B @ x" and "off + length B \<le> length b"
  shows "\<exists>evs k. pull_body b off (length B) c = Some (int (off + length B), take off b @ B @ drop (off + length B) b, c\<lparr>events := evs, consumed_content := k\<rparr>)
    \<and> feeding (c\<lparr>events := evs\<rparr>) \<and> coming (c\<lparr>events := evs\<rparr>) = x"
  using assms
proof (induction b off "length B" c arbitrary: B rule: pull_body.induct)
  case (1 b off c)
  show ?case
  proof (cases "B = []")
    case True
    have "pull_body b off (length B) c = Some (int off, b, c\<lparr>events := events c, consumed_content := consumed_content c\<rparr>)"
      using True by (subst pull_body.simps) simp
    then show ?thesis using True 1(2,3) by (intro exI [of _ "events c"] exI [of _ "consumed_content c"]) simp
  next
    case False
    then have "coming c \<noteq> []" using 1(3) by simp
    then obtain bs evs where p: "pull (length B) c = (Some bs, c\<lparr>events := evs\<rparr>)" "feeding (c\<lparr>events := evs\<rparr>)"
      "coming c = bs @ coming (c\<lparr>events := evs\<rparr>)" using pull_feeds [OF 1(2)] by blast
    have bl: "length bs \<le> length B" using pull_length [OF p(1)] .
    then obtain B' where B: "B = bs @ B'" using p(3) 1(3) by (metis append_eq_append_conv_if append_take_drop_id)
    define b1 where "b1 = take off b @ bs @ drop (off + length bs) b"
    have w: "wr_block b off bs = Some b1" using 1(4) bl by (simp add: wr_block_def b1_def)
    define c2 where "c2 = (c\<lparr>events := evs\<rparr>)\<lparr>consumed_content := consumed_content (c\<lparr>events := evs\<rparr>) + int (length bs)\<rparr>"
    have "feeding c2" "coming c2 = B' @ x" "off + length bs + length B' \<le> length b1" "length B - length bs = length B'"
      using p(2,3) 1(3,4) B wr_block_length [OF w] by (simp_all add: c2_def)
    then obtain evs' k where IH: "pull_body b1 (off + length bs) (length B') c2 = Some (int (off + length bs + length B'),
        take (off + length bs) b1 @ B' @ drop (off + length bs + length B') b1, c2\<lparr>events := evs', consumed_content := k\<rparr>)"
      "feeding (c2\<lparr>events := evs'\<rparr>)" "coming (c2\<lparr>events := evs'\<rparr>) = x"
      using 1(1) [OF _ p(1) [symmetric] refl w, of B'] False unfolding c2_def by auto
    have "pull_body b off (length B) c = pull_body b1 (off + length bs) (length B') c2"
      using False p(1) w \<open>length B - length bs = length B'\<close> by (subst pull_body.simps) (simp add: c2_def)
    moreover have "take (off + length bs) b1 @ B' @ drop (off + length bs + length B') b1 = take off b @ B @ drop (off + length B) b"
      using 1(4) bl by (simp add: b1_def B add.commute add.left_commute)
    moreover have "c2\<lparr>events := evs', consumed_content := k\<rparr> = c\<lparr>events := evs', consumed_content := k\<rparr>" by (simp add: c2_def)
    moreover have "feeding (c2\<lparr>events := evs'\<rparr>) = feeding (c\<lparr>events := evs'\<rparr>)" "coming (c2\<lparr>events := evs'\<rparr>) = coming (c\<lparr>events := evs'\<rparr>)"
      by (simp_all add: c2_def feeding_def coming_def)
    ultimately show ?thesis using IH B by (intro exI [of _ evs'] exI [of _ k]) simp
  qed
qed


lemma mg_read_feeds:
  assumes "conn_ok c" and "feeding c" and "request_len (mg c) = int n" "n \<le> data_len (mg c)" "consumed_content c = 0"
    and "drop n (take (data_len (mg c)) (conn_buf (mg c))) @ coming c = B @ x" "content_len (mg c) = int (length B)" "length B \<le> length b"
  shows "\<exists>r evs k. mg_read b (length B) c = Some (r, B @ drop (length B) b, c\<lparr>events := evs, consumed_content := k\<rparr>)
    \<and> feeding (c\<lparr>events := evs\<rparr>) \<and> drop (n + length B) (take (data_len (mg c)) (conn_buf (mg c))) @ coming (c\<lparr>events := evs\<rparr>) = x"
proof (cases "B = []")
  case True
  have "mg_read b (length B) c = Some (0, B @ drop (length B) b, c\<lparr>events := events c, consumed_content := consumed_content c\<rparr>)"
    using True assms(5,7) by (simp add: mg_read_def)
  then show ?thesis using True assms(2,6) by (intro exI [of _ 0] exI [of _ "events c"] exI [of _ "consumed_content c"]) simp
next
  case False
  let ?buf = "conn_buf (mg c)" and ?dl = "data_len (mg c)"
  define D where "D = drop n (take ?dl ?buf)"
  have ok: "length ?buf = MAX_REQUEST_SIZE" "?dl \<le> MAX_REQUEST_SIZE" using assms(1) by (auto simp: conn_ok_def)
  then have lD: "length D = ?dl - n" using assms(4) by (simp add: D_def)
  define k where "k = min (length B) (length D)"
  define B2 where "B2 = drop k B"
  define x2 where "x2 = (if length B \<le> length D then coming c else x)"
  have split: "B @ x = D @ coming c" using assms(6) by (simp add: D_def)
  have tk: "take k B = take k D" using arg_cong [OF split, of "take k"] by (simp add: k_def)
  have B: "B = take k D @ B2" using tk append_take_drop_id [of k B] by (simp add: B2_def)
  have come: "coming c = B2 @ x2" and x: "drop (length B) D @ x2 = x"
  proof -
    show "coming c = B2 @ x2"
      using arg_cong [OF split, of "drop (length D)"] by (auto simp: B2_def x2_def k_def)
    show "drop (length B) D @ x2 = x"
      using arg_cong [OF split, of "drop (length B)"] by (auto simp: x2_def)
  qed
  have len1: "min (length B) (nat (content_len (mg c) - consumed_content c)) = length B" using assms(5,7) by simp
  have kk: "(if int ?dl - (request_len (mg c) + consumed_content c) > 0
      then min (length B) (nat (int ?dl - (request_len (mg c) + consumed_content c))) else 0) = k"
    using assms(3-5) lD by (auto simp: k_def)
  have rdb: "(if k = 0 then Some [] else rd_block ?buf (nat (request_len (mg c) + consumed_content c)) k) = Some (take k D)"
    using assms(3-5) ok lD by (auto simp: rd_block_def D_def k_def take_drop)
  have lk: "length (take k D) = k" by (simp add: k_def)
  have wrb: "wr_block b 0 (take k D) = Some (take k D @ drop k b)" using lk assms(8) by (simp add: wr_block_def k_def)
  have rest: "length B - k = length B2" by (simp add: B2_def)
  define c1 where "c1 = c\<lparr>consumed_content := consumed_content c + int k\<rparr>"
  have lb: "k + length B2 \<le> length (take k D @ drop k b)" using assms(8) lk rest by (simp add: k_def)
  have "feeding c1" "coming c1 = B2 @ x2" using assms(2) come by (simp_all add: c1_def)
  from pull_body_feeds [OF this lb] obtain evs j where
    p: "pull_body (take k D @ drop k b) k (length B2) c1 = Some (int (k + length B2),
        take k (take k D @ drop k b) @ B2 @ drop (k + length B2) (take k D @ drop k b), c1\<lparr>events := evs, consumed_content := j\<rparr>)"
      "feeding (c1\<lparr>events := evs\<rparr>)" "coming (c1\<lparr>events := evs\<rparr>) = x2" by blast
  have "mg_read b (length B) c = pull_body (take k D @ drop k b) k (length B2) c1"
    using False assms(5,7) unfolding mg_read_def Let_def len1 kk rdb bind.simps wrb rest c1_def by simp
  moreover have "take k (take k D @ drop k b) @ B2 @ drop (k + length B2) (take k D @ drop k b) = B @ drop (length B) b"
  proof -
    have "drop (k + length B2) (take k D @ drop k b) = drop (length B) b" using lk B by (metis (no_types) add.commute add_diff_cancel_left' append_Nil drop_append drop_drop drop_all le_add1 length_append)
    moreover have "take k (take k D @ drop k b) = take k D" using lk by simp
    ultimately show ?thesis using B by (metis append_assoc)
  qed
  moreover have "c1\<lparr>events := evs, consumed_content := j\<rparr> = c\<lparr>events := evs, consumed_content := j\<rparr>" by (simp add: c1_def)
  moreover have "feeding (c1\<lparr>events := evs\<rparr>) = feeding (c\<lparr>events := evs\<rparr>)" "coming (c1\<lparr>events := evs\<rparr>) = coming (c\<lparr>events := evs\<rparr>)"
    by (simp_all add: c1_def feeding_def coming_def)
  moreover have "drop (n + length B) (take ?dl ?buf) = drop (length B) D" by (simp add: D_def add.commute)
  ultimately show ?thesis
    using p x by (intro exI [of _ "int (k + length B2)"] exI [of _ evs] exI [of _ j]) simp
qed

text \<open>The length header of a request and its body.\<close>

definition framed :: "string \<Rightarrow> (string \<times> string) list \<Rightarrow> string \<Rightarrow> bool" where
  "framed meth hs body \<longleftrightarrow> (case kw_find mg_strcasecmp ''Content-Length'' hs of
     Some h \<Rightarrow> h = digits (length body) \<and> int (length body) \<le> EST_MAX_CONTENT_LEN
   | None \<Rightarrow> meth = ''GET'' \<and> body = [])"

lemma number_of_digits: "number (digits n) = int n"
  using number_digits [of "digits n" n] digits_all [of _ n] isdigit_facts cstr_id by blast

lemma framed_length:
  assumes "framed meth (http_headers ri) body" and "request_method ri = Some meth"
  shows "content_length ri = int (length body)" "int (length body) \<le> EST_MAX_CONTENT_LEN"
proof -
  have "mg_strcasecmp ''GET'' ''POST'' \<noteq> 0" "mg_strcasecmp ''GET'' ''PUT'' \<noteq> 0" by code_simp+
  then show "content_length ri = int (length body)" "int (length body) \<le> EST_MAX_CONTENT_LEN"
    using assms
    by (auto simp: framed_def content_length_def get_header_def strtoll_def number_of_digits LLONG_MIN_def LLONG_MAX_def
        EST_MAX_CONTENT_LEN_def split: option.split_asm)
qed

lemma read_body_feeds:
  assumes "conn_ok c" and "feeding c" and "request_len (mg c) = int n" "n \<le> data_len (mg c)" "consumed_content c = 0"
    and "drop n (take (data_len (mg c)) (conn_buf (mg c))) @ coming c = B @ x" "content_len (mg c) = int (length B)"
    and "framed meth (http_headers (request_info (mg c))) B"
  shows "\<exists>evs k. read_body c = Some (B, c\<lparr>events := evs, consumed_content := k\<rparr>)
    \<and> feeding (c\<lparr>events := evs\<rparr>) \<and> drop (n + length B) (take (data_len (mg c)) (conn_buf (mg c))) @ coming (c\<lparr>events := evs\<rparr>) = x"
proof (cases "mg_get_header (mg c) ''Content-Length''")
  case None
  then have "B = []" using assms(8) by (simp add: framed_def mg_get_header_def get_header_def)
  moreover have "read_body c = Some ([], c\<lparr>events := events c, consumed_content := consumed_content c\<rparr>)" using None by (simp add: read_body_def)
  ultimately show ?thesis using assms(2,6) by (intro exI [of _ "events c"] exI [of _ "consumed_content c"]) simp
next
  case (Some h)
  then have h: "h = digits (length B)" "int (length B) \<le> EST_MAX_CONTENT_LEN"
    using assms(8) by (auto simp: framed_def mg_get_header_def get_header_def)
  have at: "atoi h = Some (int (length B))" using h by (simp add: atoi_def number_of_digits INT_MIN_def INT_MAX_def EST_MAX_CONTENT_LEN_def)
  let ?b = "c_heap c (length B + 1)"
  have lb: "length ?b = length B + 1" using assms(1) by (simp add: conn_ok_def)
  from mg_read_feeds [OF assms(1-7), of ?b] lb obtain r evs k where
    m: "mg_read ?b (length B) c = Some (r, B @ drop (length B) ?b, c\<lparr>events := evs, consumed_content := k\<rparr>)"
      "feeding (c\<lparr>events := evs\<rparr>)" "drop (n + length B) (take (data_len (mg c)) (conn_buf (mg c))) @ coming (c\<lparr>events := evs\<rparr>) = x" by auto
  have "wr (B @ drop (length B) ?b) (length B) NUL = Some ((B @ drop (length B) ?b)[length B := NUL])" using lb by (simp add: wr_def)
  then have "read_body c = Some (B, c\<lparr>events := evs, consumed_content := k\<rparr>)"
    unfolding read_body_def Some option.case at bind.simps using m(1) by simp
  then show ?thesis using m(2,3) by blast
qed

text \<open>A plain path is not changed.\<close>

lemma pct_decode_id: "CHR ''%'' \<notin> set u \<Longrightarrow> pct_decode u = u"
  by (induction u rule: pct_decode.induct) auto

definition plain_path :: "string \<Rightarrow> bool" where
  "plain_path u \<longleftrightarrow> CHR ''%'' \<notin> set u \<and> CHR ''?'' \<notin> set u \<and> path_ok u \<and> length u \<le> EST_URI_MAX_LEN"

lemma decode_uri_plain:
  assumes "plain_path u" and "NUL \<notin> set u"
  shows "decode_uri (pre @ u @ NUL # post) (length pre) = Some (pre @ u @ NUL # post, None)"
proof -
  let ?m = "pre @ u @ NUL # post"
  have s: "strchr (drop (length pre) ?m) CHR ''?'' = None" using assms by (simp add: strchr_None plain_path_def)
  have n: "strnlen_s (Some (drop (length pre) ?m)) EST_URI_MAX_LEN = length u"
    using assms by (simp add: strnlen_s_def strnlen_def plain_path_def EST_URI_MAX_LEN_def EST_MAX_PATH_SEGMENT_LEN_def)
  obtain gap where g: "length gap = length u - length (pct_decode u)"
    "url_decode ?m (length pre) (length u) (length pre) (length u + 1) False =
       Some (pre @ pct_decode u @ (if gap = [] then NUL # post else NUL # tl gap @ NUL # post), int (length (pct_decode u)))"
    using url_decode_in_place [of pre "length pre" u post] by blast
  have id: "pct_decode u = u" "remove_double_dots_and_double_slashes u = u"
    using assms(1) path_ok_id by (simp_all add: plain_path_def pct_decode_id)
  then have "url_decode ?m (length pre) (length u) (length pre) (length u + 1) False = Some (?m, int (length u))" using g by simp
  moreover have "wr_block ?m (length pre) (remove_double_dots_and_double_slashes (string_at ?m (length pre)) @ [NUL]) = Some ?m"
    using id assms(2) by (simp add: string_at_def wr_block_def)
  ultimately show ?thesis unfolding decode_uri_def s option.case Let_def prod.case n by simp
qed


section \<open>Requests reach the handler\<close>

lemma mg_upd: "c\<lparr>http := (http c)\<lparr>conn := f (mg c)\<rparr>\<rparr> = upd_conn f c"
  by (simp add: upd_conn_def)

definition request_parsed :: "mg_connection \<Rightarrow> string \<Rightarrow> string \<Rightarrow> (string \<times> string) list \<Rightarrow> bool" where
  "request_parsed cn meth u hs \<longleftrightarrow> request_method (request_info cn) = Some meth \<and> uri (request_info cn) = Some u
     \<and> http_version (request_info cn) = Some ''1.1'' \<and> http_headers (request_info cn) = hs"

text \<open>
  A connection on which a request was read completely: what follows it is still to be read, and beside the connection the
  HTTP side is as it was.
\<close>

definition request_read :: "CONN \<Rightarrow> CONN \<Rightarrow> string \<Rightarrow> string \<Rightarrow> (string \<times> string) list \<Rightarrow> string \<Rightarrow> string \<Rightarrow> bool" where
  "request_read c c1 meth u hs body x \<longleftrightarrow> request_parsed (mg c1) meth u hs \<and> conn_ok c1 \<and> feeding c1
     \<and> 0 < request_len (mg c1) \<and> request_len (mg c1) \<le> int (data_len (mg c1)) \<and> content_len (mg c1) = int (length body)
     \<and> drop (nat (request_len (mg c1) + content_len (mg c1))) (take (data_len (mg c1)) (conn_buf (mg c1))) @ coming c1 = x
     \<and> http c1 = (http c)\<lparr>conn := mg c1\<rparr> \<and> handled c1 = handled c \<and> must_close (mg c1) = False \<and> status_code (mg c1) = -1
     \<and> enable_keepalives (mg c1) = enable_keepalives (mg c) \<and> read_timeout c1 = read_timeout c \<and> c_heap c1 = c_heap c"

lemma handle_request_feeds:
  assumes "conn_ok c" and "feeding c" and "head_ok meth u hs" and "plain_path u" and "framed meth hs body"
    and buf: "conn_buf (mg c) = cut_head meth u hs @ z" and "request_len (mg c) = int (length (request_head meth u hs))"
    and dl: "length (request_head meth u hs) \<le> data_len (mg c)" and "consumed_content c = 0" and "content_len (mg c) = int (length body)"
    and p: "ptr_uri p = length meth + 1" and pend: "drop (length (request_head meth u hs)) (take (data_len (mg c)) (conn_buf (mg c))) @ coming c = body @ x"
    and info: "request_parsed (mg c) meth u hs" and "must_close (mg c) = False" "status_code (mg c) = -1"
  obtains c1 where "handle_request env ctx p c = call_handler env ctx c1 meth u body (kw_find mg_strcasecmp ''Content-Type'' hs)"
    "request_read c c1 meth u hs body x"
proof -
  note ok = head_okD [OF assms(3)]
  have u: "NUL \<notin> set u" using ok(3) by (simp add: visible_def line_ok_def)
  let ?pre = "meth @ [NUL]" and ?H = "request_head meth u hs"
  obtain post where post: "conn_buf (mg c) = ?pre @ u @ NUL # post" by (simp add: buf cut_head_def)
  have dec: "decode_uri (conn_buf (mg c)) (ptr_uri p) = Some (conn_buf (mg c), None)"
    using decode_uri_plain [OF assms(4) u, of ?pre post] post p by simp
  define c0 where "c0 = upd_conn (\<lambda>cn. cn\<lparr>conn_buf := conn_buf (mg c), request_info := (request_info cn)\<lparr>uri := Some u, query_string := None\<rparr>\<rparr>) c"
  have at: "string_at (conn_buf (mg c)) (ptr_uri p) = u" using post p u by (simp add: string_at_def)
  have "\<exists>evs k. read_body c0 = Some (body, c0\<lparr>events := evs, consumed_content := k\<rparr>) \<and> feeding (c0\<lparr>events := evs\<rparr>)
      \<and> drop (length ?H + length body) (take (data_len (mg c0)) (conn_buf (mg c0))) @ coming (c0\<lparr>events := evs\<rparr>) = x"
    by (rule read_body_feeds [where meth = meth]) (use assms in \<open>simp_all add: c0_def conn_ok_def request_parsed_def\<close>)
  then obtain evs k where b: "read_body c0 = Some (body, c0\<lparr>events := evs, consumed_content := k\<rparr>)" "feeding (c0\<lparr>events := evs\<rparr>)"
      "drop (length ?H + length body) (take (data_len (mg c0)) (conn_buf (mg c0))) @ coming (c0\<lparr>events := evs\<rparr>) = x" by blast
  define c1 where "c1 = c0\<lparr>events := evs, consumed_content := k\<rparr>"
  have m1: "mg c1 = (mg c)\<lparr>request_info := (request_info (mg c))\<lparr>uri := Some u, query_string := None\<rparr>\<rparr>"
    by (simp add: c1_def c0_def upd_conn_def)
  have parsed: "request_parsed (mg c1) meth u hs" using info by (simp add: request_parsed_def m1)
  have ct: "mg_get_header (mg c1) ''Content-Type'' = kw_find mg_strcasecmp ''Content-Type'' hs"
    using parsed by (simp add: request_parsed_def mg_get_header_def get_header_def)
  have "handle_request env ctx p c = call_handler env ctx c1 meth u body (kw_find mg_strcasecmp ''Content-Type'' hs)"
    unfolding handle_request_def dec bind.simps prod.case at c0_def [symmetric] est_mg_handler_def b(1) c1_def [symmetric]
      parsed [unfolded request_parsed_def, THEN conjunct1] parsed [unfolded request_parsed_def, THEN conjunct2, THEN conjunct1] ct Let_def call_handler_def
    by (cases "est_handler env ctx meth u body (kw_find mg_strcasecmp ''Content-Type'' hs) (http c1)") (auto simp: after_handler_def)
  moreover have "0 < length ?H" by (simp add: request_head_def)
  then have "request_read c c1 meth u hs body x"
    using assms(1,7,8,10,14,15) b(2,3) parsed
    by (auto simp: request_read_def m1 conn_ok_def c1_def c0_def nat_add_distrib feeding_def coming_def upd_conn_def)
  ultimately show thesis by (rule that)
qed

lemma serve_request_feeds:
  assumes "conn_ok c" and "feeding c" and "pending c = request_head meth u hs @ body @ x"
    and "head_ok meth u hs" and "plain_path u" and "framed meth hs body"
  obtains c1 where "serve_request env ctx c = finish_call (call_handler env ctx c1 meth u body (kw_find mg_strcasecmp ''Content-Type'' hs))"
    "request_read c c1 meth u hs body x"
proof -
  note ok = head_okD [OF assms(4)]
  let ?H = "request_head meth u hs"
  define c0 where "c0 = reset_per_request_attributes c"
  have c0: "conn_ok c0" "feeding c0" "pending c0 = ?H @ body @ x"
    using assms(1-3) by (simp_all add: c0_def reset_per_request_attributes_def conn_ok_def pending_def)
  have ne: "?H \<noteq> []" by (simp add: request_head_def)
  obtain m n evs where r: "read_request MAX_REQUEST_SIZE c0 = Some (int (length ?H), upd_conn (\<lambda>cn. cn\<lparr>conn_buf := m, data_len := n\<rparr>) (c0\<lparr>events := evs\<rparr>))"
    "length ?H \<le> n" "n \<le> MAX_REQUEST_SIZE" "length m = MAX_REQUEST_SIZE" "feeding (c0\<lparr>events := evs\<rparr>)" "take n m @ coming (c0\<lparr>events := evs\<rparr>) = ?H @ body @ x"
    using read_request_feeds [OF c0 ne ok(8) request_len_head [OF assms(4)]] by blast
  define z where "z = drop (length ?H) m"
  have tk: "take (length ?H) m = ?H"
    using arg_cong [OF r(6), of "take (length ?H)"] r(2-4) by simp
  then have m: "m = ?H @ z" using append_take_drop_id [of "length ?H" m] by (simp add: z_def)
  define c2 where "c2 = upd_conn (request_len_update (\<lambda>_. int (length ?H))) (upd_conn (\<lambda>cn. cn\<lparr>conn_buf := m, data_len := n\<rparr>) (c0\<lparr>events := evs\<rparr>))"
  have sz: "length (?H @ z) \<le> RSIZE_MAX_STR" using r(4) m by (simp add: RSIZE_MAX_STR_def MAX_REQUEST_SIZE_def)
  define p where "p = (head_ptrs meth u hs)\<lparr>ptr_version := length meth + 1 + length u + 6\<rparr>"
  note parse = parse_request_render [OF assms(4) sz ok(8), folded p_def]
  define c3 where "c3 = upd_conn (\<lambda>cn. cn\<lparr>conn_buf := cut_head meth u hs @ z, request_info := request_view (cut_head meth u hs @ z) p (request_info cn)\<rparr>) c2"
  have m3: "mg c3 = (mg c)\<lparr>status_code := -1, must_close := False, request_len := int (length ?H), conn_buf := cut_head meth u hs @ z, data_len := n,
      request_info := (request_info (mg c))\<lparr>request_method := Some meth, uri := Some u, http_version := Some ''1.1'', http_headers := hs\<rparr>\<rparr>"
    by (simp add: c3_def c2_def c0_def reset_per_request_attributes_def parse(2) upd_conn_def)
  have run: "serve_request env ctx c = finish_call (serve_parsed env ctx (int (length ?H)) (Some p) c3)"
  proof -
    have n2: "\<not> \<not> (int (length ?H) < 0 \<or> int (length ?H) \<le> int (data_len (mg c2)))" using r(2) by (simp add: c2_def)
    have n3: "\<not> (int (length ?H) = 0 \<and> data_len (mg c2) = MAX_REQUEST_SIZE)" "\<not> int (length ?H) \<le> 0" using ne by simp_all
    have buf: "conn_buf (mg c2) = ?H @ z" by (simp add: c2_def m)
    show ?thesis
      unfolding serve_request_def c0_def [symmetric] r(1) bind.simps prod.case Let_def c2_def [symmetric] if_not_P [OF n2] if_not_P [OF n3(1)]
        if_not_P [OF n3(2)] buf parse(1) option.case c3_def [symmetric] finish_call_def
      by simp
  qed
  define c4 where "c4 = upd_conn (\<lambda>cn. cn\<lparr>content_len := content_length (request_info cn)\<rparr>) c3"
  have cl: "content_length (request_info (mg c3)) = int (length body)" "int (length body) \<le> EST_MAX_CONTENT_LEN"
    using framed_length [of meth "request_info (mg c3)" body] assms(6) by (simp_all add: m3)
  have uri: "is_valid_uri (drop (ptr_uri p) (conn_buf (mg c3)))" and ver: "strncmp (drop (ptr_version p) (conn_buf (mg c3))) ''1.1'' 3 = 0"
  proof -
    have "drop (ptr_uri p) (conn_buf (mg c3)) = u @ NUL # ''HTTP/1.1'' @ [NUL, NUL] @ concat (map cut_hdr hs) @ [NUL, NUL] @ z"
      "drop (ptr_version p) (conn_buf (mg c3)) = ''1.1'' @ [NUL, NUL] @ concat (map cut_hdr hs) @ [NUL, NUL] @ z"
      by (simp_all add: m3 p_def head_ptrs_def cut_head_def numeral_eq_Suc)
    then show "is_valid_uri (drop (ptr_uri p) (conn_buf (mg c3)))" "strncmp (drop (ptr_version p) (conn_buf (mg c3))) ''1.1'' 3 = 0"
      using ok(2,9) by (cases u; simp add: is_valid_uri_def strncmp_eq_0)+
  qed
  have "\<not> (int (length ?H) \<le> 0 \<or> \<not> is_valid_uri (drop (ptr_uri p) (conn_buf (mg c3))))" using uri ne by simp
  moreover have "\<not> (content_len (mg c4) > EST_MAX_CONTENT_LEN)" "\<not> (content_len (mg c4) < 0)" using cl by (simp_all add: c4_def)
  ultimately have sp: "serve_parsed env ctx (int (length ?H)) (Some p) c3 = handle_request env ctx p c4"
    unfolding serve_parsed_def option.case Let_def serve_valid_def c4_def [symmetric] using ver by (simp only: if_False simp_thms)
  have m4: "mg c4 = (mg c3)\<lparr>content_len := int (length body)\<rparr>" using cl by (simp add: c4_def)
  have rest: "drop (length ?H) (take n m) @ coming (c0\<lparr>events := evs\<rparr>) = body @ x"
    using arg_cong [OF r(6), of "drop (length ?H)"] r(2-4) by simp
  have "drop (length ?H) (take n (cut_head meth u hs @ z)) = drop (length ?H) (take n m)"
    by (simp add: m drop_take length_cut_head)
  with rest have pend: "drop (length ?H) (take (data_len (mg c4)) (conn_buf (mg c4))) @ coming c4 = body @ x"
    by (simp add: m4 m3 c4_def c3_def c2_def)
  have len: "length (cut_head meth u hs @ z) = MAX_REQUEST_SIZE" using r(4) m by (simp add: length_cut_head)
  obtain c1 where h: "handle_request env ctx p c4 = call_handler env ctx c1 meth u body (kw_find mg_strcasecmp ''Content-Type'' hs)"
    "request_read c4 c1 meth u hs body x"
  proof (rule handle_request_feeds [OF _ _ assms(4-6) _ _ _ _ _ _ pend])
    show "conn_ok c4" using c0(1) r(3) len by (simp add: conn_ok_def m4 m3) (simp add: c4_def c3_def c2_def)
    show "feeding c4" using r(5) by (simp add: c4_def c3_def c2_def)
    show "consumed_content c4 = 0" by (simp add: c4_def c3_def c2_def c0_def reset_per_request_attributes_def)
    show "ptr_uri p = length meth + 1" by (simp add: p_def head_ptrs_def)
  qed (use r(2) that in \<open>simp_all add: m4 m3 request_parsed_def\<close>)
  have "request_read c c1 meth u hs body x"
  proof -
    have e: "(http c4)\<lparr>conn := y\<rparr> = (http c)\<lparr>conn := y\<rparr>" "handled c4 = handled c" "enable_keepalives (mg c4) = enable_keepalives (mg c)"
      "read_timeout c4 = read_timeout c" "c_heap c4 = c_heap c" for y
      by (simp_all add: c4_def c3_def c2_def c0_def reset_per_request_attributes_def upd_conn_def)
    show ?thesis using h(2) unfolding request_read_def e .
  qed
  then show thesis using that run sp h(1) by simp
qed


text \<open>The end of a pass over a well-formed request: what follows the request is pending.\<close>

lemma finish_call_feeds:
  assumes "request_read c c1 meth u hs body x" and "est_mode ctx = EST_SERVER"
    and "server_request env ctx meth u body ct (http c1) = Some (rv, ctx', w)"
  obtains c2 where "finish_call (call_handler env ctx c1 meth u body ct) = Some (should_keep_alive (mg c2), ctx', c2)"
    "conn_ok c2" "feeding c2" "pending c2 = x" "handled c2 = handled c @ [(meth, u, body, ct)]" "request_parsed (mg c2) meth u hs"
    "http c2 = w\<lparr>conn := mg c2\<rparr>" "status_code (mg c2) = status_code (conn w)"
proof -
  have fr: "fr w = fr (http c1)" using fr_http_request [OF assms(3) [unfolded server_request_def]] by simp
  note eq = framing_eqD [OF fr]
  note rr = assms(1) [unfolded request_read_def]
  define c3 where "c3 = after_handler c1 meth u body ct w"
  have c3: "mg c3 = conn w" "handled c3 = handled c @ [(meth, u, body, ct)]" "feeding c3" "coming c3 = coming c1" "http c3 = w" "conn_ok c3"
    "stop_flag c3 = False"
    using rr eq by (auto simp: c3_def after_handler_def feeding_def coming_def conn_ok_def)
  have ready: "0 < request_len (mg c3)" "request_len (mg c3) \<le> int (data_len (mg c3))" "0 \<le> content_len (mg c3)"
    using rr eq c3(1) by auto
  obtain m left where d: "discard_request c3 = Some (upd_conn (\<lambda>cn. cn\<lparr>conn_buf := m, data_len := left\<rparr>) c3)"
    "length m = MAX_REQUEST_SIZE" "left < data_len (mg c3)"
    "take left m = drop (nat (request_len (mg c3) + content_len (mg c3))) (take (data_len (mg c3)) (conn_buf (mg c3)))"
    using discard_request_total [OF c3(6) ready] by blast
  define c2 where "c2 = upd_conn (\<lambda>cn. cn\<lparr>conn_buf := m, data_len := left\<rparr>) c3"
  have m2: "mg c2 = (conn w)\<lparr>conn_buf := m, data_len := left\<rparr>" by (simp add: c2_def c3(1))
  have ka: "should_keep_alive (mg c2) = should_keep_alive (mg c3)" by (simp add: should_keep_alive_def mg_get_header_def Let_def c2_def)
  have "call_handler env ctx c1 meth u body ct = Some (ctx', c3)"
    using assms(2,3) by (simp add: call_handler_def est_handler_def server_request_def c3_def)
  moreover have "(\<not> stop_flag c2 \<and> enable_keepalives (mg c2) \<and> content_len (mg c2) \<ge> 0 \<and> should_keep_alive (mg c3)) = should_keep_alive (mg c2)"
    unfolding ka using c3(7) ready(3) by (auto simp: c2_def should_keep_alive_def Let_def)
  ultimately have "finish_call (call_handler env ctx c1 meth u body ct) = Some (should_keep_alive (mg c2), ctx', c2)"
    by (simp add: finish_call_def end_request_def d(1) c2_def [symmetric])
  moreover have "conn_ok c2" "feeding c2" using c3 d(2,3) by (auto simp: c2_def conn_ok_def)
  moreover have "pending c2 = x"
  proof -
    have "drop (nat (request_len (mg c1) + content_len (mg c1))) (take (data_len (mg c1)) (conn_buf (mg c1))) @ coming c1 = x" using rr by blast
    then have "take left m @ coming c1 = x" unfolding d(4) c3(1) eq .
    then show ?thesis using c3(4) by (simp add: pending_def m2) (simp add: c2_def)
  qed
  moreover have "handled c2 = handled c @ [(meth, u, body, ct)]" using c3(2) by (simp add: c2_def)
  moreover have "request_parsed (mg c2) meth u hs" "http c2 = w\<lparr>conn := mg c2\<rparr>" "status_code (mg c2) = status_code (conn w)"
    using rr eq(1) c3(5) by (simp_all add: request_parsed_def m2) (simp add: c2_def upd_conn_def c3(5))
  ultimately show thesis by (rule that)
qed

lemma read_request_nothing:
  assumes "conn_ok c" and "feeding c" and "pending c = []"
  shows "\<exists>evs. read_request MAX_REQUEST_SIZE c = Some (-1, c\<lparr>events := evs\<rparr>)"
  using assms
proof (induction "MAX_REQUEST_SIZE" c rule: read_request.induct)
  case (1 c)
  have dl: "data_len (mg c) = 0" using 1(2,4) by (auto simp: pending_def conn_ok_def MAX_REQUEST_SIZE_def)
  then have cond: "data_len (mg c) < MAX_REQUEST_SIZE \<and> get_request_len (conn_buf (mg c)) (data_len (mg c)) = 0"
    by (simp add: get_request_len_def MAX_REQUEST_SIZE_def)
  show ?case
  proof (cases "events c")
    case Nil
    then have "pull (MAX_REQUEST_SIZE - data_len (mg c)) c = (None, c)" by (simp add: pull_def)
    then have "read_request MAX_REQUEST_SIZE c = Some (-1, c\<lparr>events := events c\<rparr>)" using cond by (subst read_request.simps) simp
    then show ?thesis by blast
  next
    case (Cons e es)
    then have e: "snd e = Pull_Bytes []" "wait_until_socket_is_readable (read_timeout c) (fst e) = Wait_Ready" "\<not> stop_flag c"
      using 1(3,4) by (auto simp: feeding_def pending_def coming_def ev_bytes_def)
    have p: "pull (MAX_REQUEST_SIZE - data_len (mg c)) c = (Some [], c\<lparr>events := es\<rparr>)"
      using Cons e by (cases e) (simp add: pull_def Let_def)
    have w: "wr_block (conn_buf (mg (c\<lparr>events := es\<rparr>))) (data_len (mg c)) [] = Some (conn_buf (mg c))"
      using 1(2) by (simp add: wr_block_def conn_ok_def)
    define c2 where "c2 = upd_conn (\<lambda>cn. cn\<lparr>conn_buf := conn_buf (mg c), data_len := data_len (mg c) + length ([] :: string)\<rparr>) (c\<lparr>events := es\<rparr>)"
    have c2: "c2 = c\<lparr>events := es\<rparr>" by (simp add: c2_def upd_conn_def)
    have "conn_ok c2" "feeding c2" "pending c2 = []"
      using 1(2-4) Cons by (auto simp: c2 conn_ok_def feeding_def pending_def coming_def)
    then obtain evs where "read_request MAX_REQUEST_SIZE c2 = Some (-1, c2\<lparr>events := evs\<rparr>)"
      using 1(1) [OF refl refl cond p [symmetric] refl w] unfolding c2_def by blast
    moreover have "read_request MAX_REQUEST_SIZE c = read_request MAX_REQUEST_SIZE c2"
      using cond p w by (subst read_request.simps) (simp add: c2_def)
    ultimately show ?thesis by (auto simp: c2)
  qed
qed

lemma serve_request_nothing:
  assumes "conn_ok c" and "feeding c" and "pending c = []"
  shows "\<exists>c'. serve_requests env ctx c = Some (ctx, c') \<and> handled c' = handled c"
proof -
  define c0 where "c0 = reset_per_request_attributes c"
  have "conn_ok c0" "feeding c0" "pending c0 = []"
    using assms by (simp_all add: c0_def reset_per_request_attributes_def conn_ok_def pending_def)
  then obtain evs where r: "read_request MAX_REQUEST_SIZE c0 = Some (-1, c0\<lparr>events := evs\<rparr>)" using read_request_nothing by blast
  define c2 where "c2 = upd_conn (request_len_update (\<lambda>_. -1)) (c0\<lparr>events := evs\<rparr>)"
  have "serve_request env ctx c = Some (False, ctx, c2)"
    unfolding serve_request_def c0_def [symmetric] r bind.simps prod.case Let_def c2_def [symmetric] by simp
  moreover have "handled c2 = handled c" by (simp add: c2_def c0_def reset_per_request_attributes_def)
  ultimately show ?thesis by (subst serve_requests.simps) simp
qed

definition request_text :: "request \<Rightarrow> string" where
  "request_text r = (case r of (meth, u, hs, body) \<Rightarrow> request_head meth u hs @ body)"

definition request_good :: "request \<Rightarrow> bool" where
  "request_good r = (case r of (meth, u, hs, body) \<Rightarrow> head_ok meth u hs \<and> plain_path u \<and> framed meth hs body)"

definition as_handled :: "request \<Rightarrow> string \<times> string \<times> string \<times> string option" where
  "as_handled r = (case r of (meth, u, hs, body) \<Rightarrow> (meth, u, body, kw_find mg_strcasecmp ''Content-Type'' hs))"

lemma serve_requests_first:
  assumes "conn_ok c" and "feeding c" and "est_mode ctx = EST_SERVER" and "pending c = request_text (meth, u, hs, body) @ x"
    and "request_good (meth, u, hs, body)" and "serve_requests env ctx c = Some (ctx', c')"
  obtains c1 ctx2 c2 rv w where "request_read c c1 meth u hs body x"
    "server_request env ctx meth u body (kw_find mg_strcasecmp ''Content-Type'' hs) (http c1) = Some (rv, ctx2, w)"
    "conn_ok c2" "feeding c2" "pending c2 = x" "handled c2 = handled c @ [as_handled (meth, u, hs, body)]" "est_mode ctx2 = EST_SERVER"
    "request_parsed (mg c2) meth u hs" "http c2 = w\<lparr>conn := mg c2\<rparr>" "status_code (mg c2) = status_code (conn w)"
    "serve_requests env ctx c = (if should_keep_alive (mg c2) then serve_requests env ctx2 c2 else Some (ctx2, c2))"
proof -
  let ?ct = "kw_find mg_strcasecmp ''Content-Type'' hs"
  have good: "head_ok meth u hs" "plain_path u" "framed meth hs body" and pend: "pending c = request_head meth u hs @ body @ x"
    using assms(4,5) by (simp_all add: request_good_def request_text_def)
  obtain c1 where s: "serve_request env ctx c = finish_call (call_handler env ctx c1 meth u body ?ct)" "request_read c c1 meth u hs body x"
    using serve_request_feeds [OF assms(1,2) pend good] by blast
  have "server_request env ctx meth u body ?ct (http c1) \<noteq> None"
  proof
    assume "server_request env ctx meth u body ?ct (http c1) = None"
    then have "call_handler env ctx c1 meth u body ?ct = None"
      using assms(3) by (simp add: call_handler_def est_handler_def server_request_def)
    then show False using assms(6) s(1) by (subst (asm) serve_requests.simps) (simp add: finish_call_def)
  qed
  then obtain rv ctx2 w where sr: "server_request env ctx meth u body ?ct (http c1) = Some (rv, ctx2, w)" by auto
  have "config ctx2 = config ctx" using fr_http_request [OF sr [unfolded server_request_def]] by simp
  from config_fields(1) [OF this] have mode: "est_mode ctx2 = EST_SERVER" using assms(3) by simp
  obtain c2 where f: "finish_call (call_handler env ctx c1 meth u body ?ct) = Some (should_keep_alive (mg c2), ctx2, c2)"
    "conn_ok c2" "feeding c2" "pending c2 = x" "handled c2 = handled c @ [(meth, u, body, ?ct)]" "request_parsed (mg c2) meth u hs"
    "http c2 = w\<lparr>conn := mg c2\<rparr>" "status_code (mg c2) = status_code (conn w)"
    using finish_call_feeds [OF s(2) assms(3) sr] by blast
  have eq: "serve_requests env ctx c = (if should_keep_alive (mg c2) then serve_requests env ctx2 c2 else Some (ctx2, c2))"
    using s(1) f(1) by (subst serve_requests.simps) simp
  show thesis by (rule that [OF s(2) sr f(2-4) _ mode f(6-8) eq]) (simp add: f(5) as_handled_def)
qed

lemma serve_requests_in_order:
  assumes "conn_ok c" and "feeding c" and "est_mode ctx = EST_SERVER" and "pending c = concat (map request_text rs)"
    and "\<forall>r \<in> set rs. request_good r" and "serve_requests env ctx c = Some (ctx', c')"
  shows "\<exists>k \<le> length rs. handled c' = handled c @ take k (map as_handled rs) \<and> (k = length rs \<or> 0 < k \<and> \<not> should_keep_alive (mg c'))"
  using assms
proof (induction rs arbitrary: c ctx)
  case Nil
  then show ?case using serve_request_nothing [of c env ctx] by auto
next
  case (Cons r rs)
  obtain meth u hs body where r: "r = (meth, u, hs, body)" by (cases r)
  have first: "pending c = request_text (meth, u, hs, body) @ concat (map request_text rs)" "request_good (meth, u, hs, body)"
    using Cons.prems(4,5) r by simp_all
  obtain ctx2 c2 where f: "conn_ok c2" "feeding c2" "pending c2 = concat (map request_text rs)" "handled c2 = handled c @ [as_handled (meth, u, hs, body)]"
    "est_mode ctx2 = EST_SERVER" "serve_requests env ctx c = (if should_keep_alive (mg c2) then serve_requests env ctx2 c2 else Some (ctx2, c2))"
    by (rule serve_requests_first [OF Cons.prems(1-3) first Cons.prems(6)]) (rule that)
  show ?case
  proof (cases "should_keep_alive (mg c2)")
    case True
    obtain k where k: "k \<le> length rs" "handled c' = handled c2 @ take k (map as_handled rs)" "k = length rs \<or> 0 < k \<and> \<not> should_keep_alive (mg c')"
      using Cons.IH [OF f(1,2,5,3)] Cons.prems(5,6) f(6) True by auto
    then show ?thesis using f(4) r by (intro exI [of _ "Suc k"]) auto
  next
    case False
    then show ?thesis using Cons.prems(6) f(4,6) r by (intro exI [of _ 1]) auto
  qed
qed


lemma accept_feeding [simp]: "feeding (accept_connection c) = feeding c" "coming (accept_connection c) = coming c"
  by (simp_all add: feeding_def coming_def)

lemma accept_pending: "pending (upd_conn (data_len_update (\<lambda>_. 0)) (accept_connection c)) = coming c"
  by (simp add: pending_def)

section \<open>A body that is cut short\<close>

lemma pull_body_short:
  assumes "feeding c" and "coming c = B" and "length B < len" and "off + len \<le> length b"
  shows "\<exists>c'. pull_body b off len c = Some (-1, take off b @ B @ drop (off + length B) b, c')"
  using assms
proof (induction b off len c arbitrary: B rule: pull_body.induct)
  case (1 b off len c)
  have len0: "len \<noteq> 0" using 1(4) by simp
  show ?case
  proof (cases "events c")
    case Nil
    then have "pull len c = (None, c)" "B = []" using 1(3) by (simp_all add: pull_def coming_def)
    then show ?thesis using len0 by (subst pull_body.simps) simp
  next
    case (Cons e es)
    then obtain bs where e: "snd e = Pull_Bytes bs" "wait_until_socket_is_readable (read_timeout c) (fst e) = Wait_Ready" "\<not> stop_flag c"
      using 1(2) by (auto simp: feeding_def)
    have B: "B = bs @ concat (map ev_bytes es)" using 1(3) Cons e(1) by (simp add: coming_def ev_bytes_def)
    then have bl: "length bs \<le> len" using 1(4) by simp
    have p: "pull len c = (Some bs, c\<lparr>events := es\<rparr>)" using Cons e bl by (cases e) (simp add: pull_def Let_def)
    define b1 where "b1 = take off b @ bs @ drop (off + length bs) b"
    have w: "wr_block b off bs = Some b1" using bl 1(5) by (simp add: wr_block_def b1_def)
    define c2 where "c2 = (c\<lparr>events := es\<rparr>)\<lparr>consumed_content := consumed_content (c\<lparr>events := es\<rparr>) + int (length bs)\<rparr>"
    have "feeding c2" "coming c2 = concat (map ev_bytes es)" using 1(2) Cons by (auto simp: c2_def feeding_def coming_def)
    moreover have "length (concat (map ev_bytes es)) < len - length bs" "off + length bs + (len - length bs) \<le> length b1"
      using 1(4,5) B bl wr_block_length [OF w] by simp_all
    ultimately obtain c' where IH: "pull_body b1 (off + length bs) (len - length bs) c2 = Some (-1, take (off + length bs) b1
        @ concat (map ev_bytes es) @ drop (off + length bs + length (concat (map ev_bytes es))) b1, c')"
      using 1(1) [OF len0 p [symmetric] refl w] unfolding c2_def by blast
    have "pull_body b off len c = pull_body b1 (off + length bs) (len - length bs) c2"
      using len0 p w by (subst pull_body.simps) (simp add: c2_def)
    moreover have "take (off + length bs) b1 @ concat (map ev_bytes es) @ drop (off + length bs + length (concat (map ev_bytes es))) b1
        = take off b @ B @ drop (off + length B) b"
      using 1(5) bl by (simp add: b1_def B add.commute add.left_commute add.assoc)
    ultimately show ?thesis using IH by auto
  qed
qed

lemma read_body_short:
  assumes "conn_ok c" and "feeding c" and "request_len (mg c) = int n" "n \<le> data_len (mg c)" "consumed_content c = 0"
    and "drop n (take (data_len (mg c)) (conn_buf (mg c))) @ coming c = B" "content_len (mg c) = int len" "length B < len" "int len \<le> EST_MAX_CONTENT_LEN"
    and "mg_get_header (mg c) ''Content-Length'' = Some (digits len)"
  shows "\<exists>c'. read_body c = Some (B @ drop (length B) (take len (c_heap c (len + 1))), c')"
proof -
  let ?buf = "conn_buf (mg c)" and ?dl = "data_len (mg c)" and ?b = "c_heap c (len + 1)"
  define D where "D = drop n (take ?dl ?buf)"
  have ok: "length ?buf = MAX_REQUEST_SIZE" "?dl \<le> MAX_REQUEST_SIZE" "length ?b = len + 1" using assms(1) by (auto simp: conn_ok_def)
  then have lD: "length D = ?dl - n" using assms(4) by (simp add: D_def)
  have B: "B = D @ coming c" using assms(6) by (simp add: D_def)
  have le: "length D \<le> length B" by (simp add: B)
  define k where "k = length D"
  have len1: "min len (nat (content_len (mg c) - consumed_content c)) = len" using assms(5,7) by simp
  have kk: "(if int ?dl - (request_len (mg c) + consumed_content c) > 0
      then min len (nat (int ?dl - (request_len (mg c) + consumed_content c))) else 0) = k"
    using assms(3-5,8) lD le by (auto simp: k_def)
  have rdb: "(if k = 0 then Some [] else rd_block ?buf (nat (request_len (mg c) + consumed_content c)) k) = Some D"
    using assms(3-5) ok lD by (auto simp: rd_block_def D_def k_def take_drop)
  have wrb: "wr_block ?b 0 D = Some (D @ drop k ?b)" using ok le assms(8) by (simp add: wr_block_def k_def)
  define c1 where "c1 = c\<lparr>consumed_content := consumed_content c + int k\<rparr>"
  have pb: "\<exists>c'. pull_body (D @ drop k ?b) k (len - k) c1 = Some (-1, take k (D @ drop k ?b) @ coming c @ drop (k + length (coming c)) (D @ drop k ?b), c')"
    by (rule pull_body_short) (use assms(2,8) B ok le in \<open>simp_all add: c1_def k_def\<close>)
  have eq: "take k (D @ drop k ?b) @ coming c @ drop (k + length (coming c)) (D @ drop k ?b) = B @ drop (length B) ?b"
    by (simp add: B k_def add.commute)
  obtain c' where "pull_body (D @ drop k ?b) k (len - k) c1 = Some (-1, B @ drop (length B) ?b, c')" using pb unfolding eq by blast
  moreover have "mg_read ?b len c = pull_body (D @ drop k ?b) k (len - k) c1"
    using assms(5,7,8) unfolding mg_read_def Let_def len1 kk rdb bind.simps wrb c1_def by simp
  ultimately have rd: "mg_read ?b len c = Some (-1, B @ drop (length B) ?b, c')" by simp
  have at: "atoi (digits len) = Some (int len)" using assms(9) by (simp add: atoi_def number_of_digits INT_MIN_def INT_MAX_def EST_MAX_CONTENT_LEN_def)
  have "wr (B @ drop (length B) ?b) len NUL = Some ((B @ drop (length B) ?b)[len := NUL])" using ok assms(8) by (simp add: wr_def)
  then have "read_body c = Some (take len ((B @ drop (length B) ?b)[len := NUL]), c')"
    unfolding read_body_def assms(10) option.case at bind.simps using rd by simp
  moreover have "take len ((B @ drop (length B) ?b)[len := NUL]) = B @ drop (length B) (take len ?b)"
    using assms(8) by (simp add: drop_take)
  ultimately show ?thesis by auto
qed


section \<open>Properties\<close>

text \<open>C17: the server's parser inverts what a client writes: for every well-formed request head, followed by any bytes, parsing in place
  finds its length and leaves, at the pointers it stores, the method, the path, the version and all headers in order,
  while the bytes behind the head are unchanged.\<close>

theorem parse_http_request_roundtrip:
  assumes "head_ok meth u hs" and "length (request_head meth u hs @ z) \<le> MAX_REQUEST_SIZE"
  shows "\<exists>m p. parse_http_request (request_head meth u hs @ z) MAX_REQUEST_SIZE = Some (int (length (request_head meth u hs)), m, Some p)
    \<and> drop (length (request_head meth u hs)) m = z
    \<and> string_at m (ptr_method p) = meth \<and> string_at m (ptr_uri p) = u \<and> string_at m (ptr_version p) = ''1.1''
    \<and> map (\<lambda>(n, v). (string_at m n, string_at m v)) (ptr_headers p) = hs"
proof -
  have sz: "length (request_head meth u hs @ z) \<le> RSIZE_MAX_STR" "length (request_head meth u hs) \<le> MAX_REQUEST_SIZE"
    using assms(2) by (simp_all add: RSIZE_MAX_STR_def MAX_REQUEST_SIZE_def)
  note parse = parse_request_render [OF assms(1) sz]
  let ?ri = "request_info (new_connection True)"
  let ?p = "(head_ptrs meth u hs)\<lparr>ptr_version := length meth + 1 + length u + 6\<rparr>"
  have eq: "request_view (cut_head meth u hs @ z) ?p ?ri = ?ri\<lparr>request_method := Some meth, uri := Some u, http_version := Some ''1.1'', http_headers := hs\<rparr>"
    by (rule parse(2))
  have "string_at (cut_head meth u hs @ z) (ptr_method ?p) = meth" "string_at (cut_head meth u hs @ z) (ptr_uri ?p) = u"
    "string_at (cut_head meth u hs @ z) (ptr_version ?p) = ''1.1''"
    "map (\<lambda>(n, v). (string_at (cut_head meth u hs @ z) n, string_at (cut_head meth u hs @ z) v)) (ptr_headers ?p) = hs"
    using arg_cong [OF eq, of request_method] arg_cong [OF eq, of uri] arg_cong [OF eq, of http_version] arg_cong [OF eq, of http_headers]
    by (simp_all add: request_view_def)
  then show ?thesis
    using parse(1) by (intro exI [of _ "cut_head meth u hs @ z"] exI [of _ ?p]) (simp add: length_cut_head [symmetric])
qed

definition sample_get :: request where
  "sample_get = (''GET'', ''/.well-known/est/cacerts'', [(''Host'', ''h'')], [])"

definition sample_post :: request where
  "sample_post = (''POST'', ''/.well-known/est/simpleenroll'', [(''Content-Type'', ''application/pkcs10''), (''Content-Length'', ''3'')], ''csr'')"

lemma visible_eval: "visible s = list_all (\<lambda>c. request_char c \<and> c \<noteq> NUL \<and> c \<noteq> CR \<and> c \<noteq> LF) s"
  by (auto simp: visible_def line_ok_def list_all_iff)

lemma visible_samples: "visible ''/.well-known/est/cacerts''" "visible ''/.well-known/est/simpleenroll''" "visible ''Host''" "visible ''h''"
  "visible ''Content-Type''" "visible ''application/pkcs10''" "visible ''Content-Length''" "visible ''3''"
  unfolding visible_eval by code_simp+

lemma path_samples: "path_ok ''/.well-known/est/cacerts''" "path_ok ''/.well-known/est/simpleenroll''"
  by code_simp+

lemma sample_framing: "kw_find mg_strcasecmp ''Content-Length'' [(''Host'', ''h'')] = None"
  "kw_find mg_strcasecmp ''Content-Length'' [(''Content-Type'', ''application/pkcs10''), (''Content-Length'', ''3'')] = Some ''3''"
  "kw_find mg_strcasecmp ''Content-Type'' [(''Host'', ''h'')] = None"
  "kw_find mg_strcasecmp ''Content-Type'' [(''Content-Type'', ''application/pkcs10''), (''Content-Length'', ''3'')] = Some ''application/pkcs10''"
  "digits (length ''csr'') = ''3''"
  by code_simp+

lemma sample_head:
  "head_ok ''GET'' ''/.well-known/est/cacerts'' [(''Host'', ''h'')]"
  "head_ok ''POST'' ''/.well-known/est/simpleenroll'' [(''Content-Type'', ''application/pkcs10''), (''Content-Length'', ''3'')]"
  using visible_samples
  by (simp_all add: head_ok_def hdr_ok_def line_ok_def NUM_REQUEST_HEADERS_def MAX_REQUEST_SIZE_def request_head_def render_hdr_def CRLF_def)

lemma sample_plain: "plain_path ''/.well-known/est/cacerts''" "plain_path ''/.well-known/est/simpleenroll''"
  unfolding plain_path_def EST_URI_MAX_LEN_def EST_MAX_PATH_SEGMENT_LEN_def using path_samples by (simp_all del: path_ok.simps)

lemma sample_requests_good: "request_good sample_get" "request_good sample_post"
proof -
  have "int (length ''csr'') \<le> EST_MAX_CONTENT_LEN" by (simp add: EST_MAX_CONTENT_LEN_def)
  then show "request_good sample_get" "request_good sample_post"
    unfolding request_good_def sample_get_def sample_post_def prod.case framed_def sample_framing option.case
    using sample_head sample_plain by (simp_all only: simp_thms)
qed

theorem parse_http_request_roundtrip_witness:
  "\<exists>m p. parse_http_request (request_head ''GET'' ''/.well-known/est/cacerts'' [(''Host'', ''h'')] @ ''zz'') MAX_REQUEST_SIZE = Some (50, m, Some p)
    \<and> map (\<lambda>(n, v). (string_at m n, string_at m v)) (ptr_headers p) = [(''Host'', ''h'')]"
proof -
  have l: "length (request_head ''GET'' ''/.well-known/est/cacerts'' [(''Host'', ''h'')]) = 50"
    by (simp add: request_head_def render_hdr_def CRLF_def)
  then have "length (request_head ''GET'' ''/.well-known/est/cacerts'' [(''Host'', ''h'')] @ ''zz'') \<le> MAX_REQUEST_SIZE"
    by (simp add: MAX_REQUEST_SIZE_def)
  from parse_http_request_roundtrip [OF sample_head(1) this] l show ?thesis by auto
qed

text \<open>C14: the connection loop delivers requests faithfully. When a client writes well-formed requests one after the other, and their
  bytes arrive in pieces of any size, with idle polls in between, the EST handler is called with exactly these requests, in
  this order and with exactly their bodies: with all of them, or with the first \<open>k\<close> when the \<open>k\<close>-th response closed the
  connection.\<close>

theorem est_server_handle_request_in_order:
  assumes "est_server_handle_request env acc (Some ctx) c = Some (rv, ctx', c')" and "accepted acc"
    and "est_mode ctx = EST_SERVER" "transport_mode ctx = EST_HTTP" and "\<forall>n. length (c_heap c n) = n"
    and "feeding c" and "coming c = concat (map request_text rs)" and "\<forall>r \<in> set rs. request_good r"
  shows "\<exists>k \<le> length rs. handled c' = handled c @ take k (map as_handled rs) \<and> (k = length rs \<or> 0 < k \<and> \<not> should_keep_alive (mg c'))"
proof -
  let ?c = "upd_conn (data_len_update (\<lambda>_. 0)) (accept_connection c)"
  from assms(1) obtain ctx1 where run: "serve_requests env ctx ?c = Some (ctx1, c')"
    by (auto simp: handle_request_accepted [OF assms(2,4)] process_new_connection_def bind_eq_Some_conv)
  have "pending ?c = concat (map request_text rs)" "feeding ?c" using assms(6,7) by (simp_all add: accept_pending)
  from serve_requests_in_order [OF accept_connection_ok [OF assms(5)] this(2) assms(3) this(1) assms(8) run] show ?thesis by simp
qed

theorem est_server_handle_request_in_order_witness:
  "\<exists>rv ctx' c'. est_server_handle_request sample_server sample_accept (Some sample_ctx)
      (sample_peer [take 9 (request_text sample_get), drop 9 (request_text sample_get) @ request_text sample_post]) = Some (rv, ctx', c')
    \<and> (handled c' = [as_handled sample_get] \<or> handled c' = [as_handled sample_get, as_handled sample_post])"
proof -
  let ?c = "sample_peer [take 9 (request_text sample_get), drop 9 (request_text sample_get) @ request_text sample_post]"
  obtain rv ctx' c' where run: "est_server_handle_request sample_server sample_accept (Some sample_ctx) ?c = Some (rv, ctx', c')"
    by (rule sample_run)
  have feed: "feeding ?c" by (auto simp: feeding_def sample_peer_def wait_until_socket_is_readable_def MSEC_POLL_WAIT_TIME_def)
  have come: "coming ?c = concat (map request_text [sample_get, sample_post])" by (simp add: coming_def sample_peer_def ev_bytes_def)
  have acc: "accepted sample_accept" "est_mode sample_ctx = EST_SERVER" "transport_mode sample_ctx = EST_HTTP"
    by (simp_all add: accepted_def sample_accept_def sample_ctx_def)
  have good: "\<forall>r \<in> set [sample_get, sample_post]. request_good r" using sample_requests_good by simp
  obtain k where "k \<le> length [sample_get, sample_post]" "handled c' = handled ?c @ take k (map as_handled [sample_get, sample_post])"
    "k = length [sample_get, sample_post] \<or> 0 < k \<and> \<not> should_keep_alive (mg c')"
    using est_server_handle_request_in_order [OF run acc sample_peer_heap feed come good] by blast
  moreover have "handled ?c = []" by (simp add: sample_peer_def)
  ultimately have "handled c' = [as_handled sample_get] \<or> handled c' = [as_handled sample_get, as_handled sample_post]"
    by (cases "k = 1") (auto simp: take_Suc_Cons numeral_2_eq_2 le_Suc_eq)
  then show ?thesis using run by blast
qed

text \<open>C28: a body that is cut short is not noticed. When the connection ends before the announced number of bytes has arrived, the result of
  \<^verbatim>\<open>mg_read\<close> is ignored, and the EST handler gets the bytes that came, followed by whatever the allocated block held
  before, as a body of the announced length.\<close>

theorem read_body_cut_short:
  assumes "conn_ok c" and "feeding c" and "request_len (mg c) = int n" "n \<le> data_len (mg c)" "consumed_content c = 0"
    and "drop n (take (data_len (mg c)) (conn_buf (mg c))) @ coming c = B" "content_len (mg c) = int len" "length B < len" "int len \<le> EST_MAX_CONTENT_LEN"
    and "mg_get_header (mg c) ''Content-Length'' = Some (digits len)"
  shows "\<exists>c'. read_body c = Some (B @ drop (length B) (take len (c_heap c (len + 1))), c')"
  using assms by (rule read_body_short)

theorem read_body_cut_short_witness:
  "\<exists>c c'. coming c = ''cs'' \<and> read_body c = Some (''csxxx'', c')"
proof -
  define c where "c = upd_conn (\<lambda>_. (new_connection True)\<lparr>request_info := \<lparr>request_method = Some ''POST'', uri = Some ''/'',
    http_version = Some ''1.1'', query_string = None, http_headers = [(''Content-Length'', ''5'')]\<rparr>, content_len := 5\<rparr>) (sample_peer [''c'', ''s''])"
  have "digits 5 = ''5''" "kw_find mg_strcasecmp ''Content-Length'' [(''Content-Length'', ''5'')] = Some ''5''" by code_simp+
  then have hdr: "mg_get_header (mg c) ''Content-Length'' = Some (digits 5)" by (simp add: c_def mg_get_header_def get_header_def)
  have heap: "c_heap c n = replicate n CHR ''x''" for n by (simp add: c_def sample_peer_def)
  have ok: "conn_ok c" using sample_peer_heap by (simp add: conn_ok_def c_def new_connection_def)
  have feed: "feeding c" by (auto simp: c_def feeding_def sample_peer_def wait_until_socket_is_readable_def MSEC_POLL_WAIT_TIME_def)
  have come: "coming c = ''cs''" by (simp add: c_def coming_def sample_peer_def ev_bytes_def)
  have st: "request_len (mg c) = int 0" "0 \<le> data_len (mg c)" "consumed_content c = 0" "content_len (mg c) = int 5"
    "drop 0 (take (data_len (mg c)) (conn_buf (mg c))) @ coming c = ''cs''"
    using come by (simp_all add: c_def new_connection_def sample_peer_def)
  have "\<exists>c'. read_body c = Some (''cs'' @ drop (length ''cs'') (take 5 (c_heap c (5 + 1))), c')"
    by (rule read_body_cut_short [OF ok feed st(1-3) st(5,4) _ _ hdr]) (simp_all add: EST_MAX_CONTENT_LEN_def)
  moreover have "''cs'' @ drop (length ''cs'') (take 5 (c_heap c (5 + 1))) = ''csxxx''" unfolding heap by (simp add: numeral_eq_Suc)
  ultimately show ?thesis using come by auto
qed


end
