(* ===== verification/Client_Auth.thy ===== *)
theory Client_Auth
  imports Http_Client
begin

text \<open>
  Credentials of the client, \<^verbatim>\<open>src/src/est/est_client.c\<close>: retrieving user and password, the digest of HTTP Digest
  authentication and the \<^verbatim>\<open>Authorization\<close> header of a request; with them the counterpart of the server,
  \<^verbatim>\<open>est_server_generate_auth_digest\<close> of \<^verbatim>\<open>est_server.c\<close>. MD5, the random generator and OpenSSL's base64
  filter are parameters. Arrays on the stack that the code does not initialise are parameters too. An outer
  \<^term>\<open>None\<close> is an access outside a buffer.
\<close>

section \<open>Data\<close>

definition EST_HTTP_REQ_TOTAL_LEN :: nat where "EST_HTTP_REQ_TOTAL_LEN = 1024 + 4096 + 5"
definition MAX_NC :: nat where "MAX_NC = 9"

text \<open>
  The members of the context that the client uses. The certificate, the key and the CSR attributes that the client
  retrieved are kept without the terminator the code adds, and their length members are the lengths of these
  strings; the CA certificates are a buffer with its length member.
\<close>

record EST_CLIENT =
  io :: CLIENT_CTX
  userid :: mem
  password :: mem
  c_nonce :: mem
  auth_credentials_cb :: "(EST_HTTP_AUTH_HDR \<Rightarrow> EST_HTTP_AUTH_HDR) option"
  est_server :: mem
  est_port_num :: int
  uri_path_segment :: "string option"
  cl_initialized :: bool
  cl_enable_srp :: bool
  client_cert :: "nat option"
  client_key :: "nat option"
  csr_pop_required :: bool
  client_force_pop :: bool
  signing_digest :: int
  cl_read_timeout :: int
  cl_brski_mode :: bool
  ssl_verify_mode :: int
  trusted_certs :: string
  enrolled_client_cert :: "string option"
  server_gen_client_priv_key :: "string option"
  retrieved_ca_certs :: "(mem \<times> nat) option"
  retrieved_csrattrs :: "string option"

text \<open>
  What the library calls of OpenSSL: \<^verbatim>\<open>RAND_bytes\<close> yields the bytes or fails; a digest is \<^term>\<open>None\<close> when
  \<^verbatim>\<open>EVP_DigestInit_ex\<close> fails.
\<close>

record CLIENT_LIB =
  bio_write :: "bool \<Rightarrow> string \<Rightarrow> string"
  md5 :: "string \<Rightarrow> string option"
  RAND_bytes :: "string option"

text \<open>
  \<^verbatim>\<open>snprintf(m + off, size, text)\<close>; the size is converted to \<^verbatim>\<open>size_t\<close>, so a negative one is no bound. A
  \<^verbatim>\<open>%s\<close> argument is read up to its terminator.
\<close>

definition snprintf :: "mem \<Rightarrow> nat \<Rightarrow> int \<Rightarrow> string \<Rightarrow> mem option" where
  "snprintf m off sz text =
     (if sz = 0 then Some m
      else if sz < 0 then wr_block m off (text @ [NUL])
      else wr_block m off (take (nat sz - 1) text @ [NUL]))"

definition str_arg :: "mem \<Rightarrow> string option" where
  "str_arg m = (if NUL \<in> set m then Some (cstr m) else None)"

section \<open>Digests\<close>

text \<open>The text fed to a digest, parts separated by colons.\<close>

fun colons :: "string list \<Rightarrow> string" where
  "colons [] = []"
| "colons [s] = s"
| "colons (s # ss) = s @ '':'' @ colons ss"

definition est_client_generate_auth_digest :: "CLIENT_LIB \<Rightarrow> EST_CLIENT \<Rightarrow> string \<Rightarrow> mem \<Rightarrow> mem \<Rightarrow> string option" where
  "est_client_generate_auth_digest lib ctx uri_text user_buf pwd_buf =
     do { ha1 \<leftarrow> md5 lib (colons [take MAX_UIDPWD (cstr user_buf), take MAX_REALM (cstr (cl_realm (io ctx))),
                              take MAX_UIDPWD (cstr pwd_buf)]);
          ha2 \<leftarrow> md5 lib (colons [''POST'', take MAX_REALM (cstr uri_text)]);
          digest \<leftarrow> md5 lib (colons [est_hex_to_str ha1, take MAX_NONCE (cstr (s_nonce (io ctx))), take MAX_NC ''00000001'',
                                 take MAX_NONCE (cstr (c_nonce ctx)), ''auth'', est_hex_to_str ha2]);
          Some (est_hex_to_str digest) }"

text \<open>The server is given \<^verbatim>\<open>HA1\<close> by the application; a member of the header that is NULL adds nothing.\<close>

definition opt_str :: "nat \<Rightarrow> string option \<Rightarrow> string" where
  "opt_str n s = (case s of None \<Rightarrow> [] | Some x \<Rightarrow> take n (cstr x))"

definition est_server_generate_auth_digest :: "(string \<Rightarrow> string option) \<Rightarrow> EST_HTTP_AUTH_HDR \<Rightarrow> string \<Rightarrow> string option" where
  "est_server_generate_auth_digest H ah HA1 =
     do { ha2 \<leftarrow> H (colons [''POST'', opt_str MAX_REALM (ah_uri ah)]);
          ha1 \<leftarrow> rd_block HA1 0 32;
          digest \<leftarrow> H (colons [ha1, opt_str MAX_NONCE (nonce ah), opt_str MAX_NC (nc ah),
                                  opt_str MAX_NONCE (cnonce ah), ''auth'', est_hex_to_str ha2]);
          Some (est_hex_to_str digest) }"

section \<open>Credentials\<close>

definition copy_credential :: "string option \<Rightarrow> mem \<Rightarrow> mem option" where
  "copy_credential s buf =
     (case s of
        None \<Rightarrow> wr buf 0 NUL
      | Some x \<Rightarrow>
          if MAX_UIDPWD < strnlen_s (Some x) (MAX_UIDPWD + 1) then wr buf 0 NUL
          else do { (b, _) \<leftarrow> strcpy_s (Some buf) MAX_UIDPWD (Some x); b })"

definition zero_if_set :: "mem \<Rightarrow> mem" where
  "zero_if_set m = (if hd0 m \<noteq> NUL then replicate (length m) NUL else m)"

definition ask_application :: "EST_CLIENT \<Rightarrow> EST_HTTP_AUTH_MODE \<Rightarrow> EST_HTTP_AUTH_HDR" where
  "ask_application ctx m =
     (case auth_credentials_cb ctx of None \<Rightarrow> est_create_ah | Some cb \<Rightarrow> cb (est_create_ah\<lparr>mode := m\<rparr>))"

definition est_client_retrieve_credentials ::
  "EST_CLIENT \<Rightarrow> EST_HTTP_AUTH_MODE \<Rightarrow> mem \<Rightarrow> mem \<Rightarrow> (EST_CLIENT \<times> mem \<times> mem) option" where
  "est_client_retrieve_credentials ctx m user_buf pwd_buf =
     (let ctx' = ctx\<lparr>userid := zero_if_set (userid ctx), password := zero_if_set (password ctx)\<rparr>;
          auth_credentials = ask_application ctx m in
      do { u \<leftarrow> copy_credential (user auth_credentials) user_buf;
           p \<leftarrow> copy_credential (pwd auth_credentials) pwd_buf;
           Some (ctx', u, p) })"

section \<open>The header\<close>

text \<open>The user and password were given by \<^verbatim>\<open>est_client_set_auth\<close>.\<close>

definition configured :: "EST_CLIENT \<Rightarrow> bool" where
  "configured ctx \<longleftrightarrow> hd0 (userid ctx) \<noteq> NUL \<or> hd0 (password ctx) \<noteq> NUL"

definition basic_auth_hdr :: "CLIENT_LIB \<Rightarrow> EST_CLIENT \<Rightarrow> mem \<Rightarrow> nat \<Rightarrow> (EST_CLIENT \<times> mem) option" where
  "basic_auth_hdr lib ctx hdr hdr_len =
     do { (ctx', user_buf, pwd_buf) \<leftarrow>
            (if \<not> configured ctx
             then est_client_retrieve_credentials ctx AUTH_BASIC (replicate (MAX_UIDPWD + 1) NUL) (replicate (MAX_UIDPWD + 1) NUL)
             else Some (ctx, userid ctx, password ctx));
          u \<leftarrow> str_arg user_buf;
          p \<leftarrow> str_arg pwd_buf;
          both \<leftarrow> snprintf (replicate (MAX_UIDPWD * 2 + 2) NUL) 0 (int (MAX_UIDPWD * 2 + 2)) (u @ '':'' @ p);
          (b64, _) \<leftarrow> est_base64_encode (bio_write lib) (take (strnlen_s (Some both) (MAX_UIDPWD * 2 + 2)) both)
                      (Some (replicate (2 * 2 * MAX_UIDPWD) NUL)) (2 * 2 * MAX_UIDPWD) False;
          both_b64 \<leftarrow> b64;
          v \<leftarrow> str_arg both_b64;
          hdr' \<leftarrow> snprintf hdr hdr_len (int EST_HTTP_REQ_TOTAL_LEN - int hdr_len) (''Authorization: Basic '' @ v @ [CR, LF]);
          Some (ctx', hdr') }"

definition digest_auth_text :: "string \<Rightarrow> string \<Rightarrow> string \<Rightarrow> string \<Rightarrow> string \<Rightarrow> string \<Rightarrow> string" where
  "digest_auth_text u realm_text nonce_text uri_text cnonce_text digest =
     ''Authorization: Digest username='' @ [DQUOTE] @ u @ [DQUOTE] @ '', realm='' @ [DQUOTE] @ realm_text @ [DQUOTE]
     @ '', nonce='' @ [DQUOTE] @ nonce_text @ [DQUOTE] @ '', uri='' @ [DQUOTE] @ uri_text @ [DQUOTE]
     @ '', cnonce='' @ [DQUOTE] @ cnonce_text @ [DQUOTE] @ '', nc=00000001, qop='' @ [DQUOTE] @ ''auth'' @ [DQUOTE]
     @ '', response='' @ [DQUOTE] @ digest @ [DQUOTE] @ [CR, LF]"

text \<open>\<open>stack\<close> are the contents of the arrays \<^verbatim>\<open>user\<close> and \<^verbatim>\<open>pwd\<close>, which this branch does not always initialise.\<close>

definition digest_credentials :: "mem \<times> mem \<Rightarrow> EST_CLIENT \<Rightarrow> (EST_CLIENT \<times> mem \<times> mem) option" where
  "digest_credentials stack ctx =
     (if \<not> configured ctx
      then est_client_retrieve_credentials ctx AUTH_DIGEST (replicate (MAX_UIDPWD + 1) NUL) (replicate (MAX_UIDPWD + 1) NUL)
      else do { (u, _) \<leftarrow> strcpy_s (Some (fst stack)) MAX_UIDPWD (Some (userid ctx));
                (p, _) \<leftarrow> strcpy_s (Some (snd stack)) MAX_UIDPWD (Some (password ctx));
                user_buf \<leftarrow> u;
                pwd_buf \<leftarrow> p;
                Some (ctx, user_buf, pwd_buf) })"

definition digest_auth_hdr ::
  "CLIENT_LIB \<Rightarrow> mem \<times> mem \<Rightarrow> EST_CLIENT \<Rightarrow> mem \<Rightarrow> nat \<Rightarrow> string \<Rightarrow> (EST_CLIENT \<times> mem) option" where
  "digest_auth_hdr lib stack ctx hdr hdr_len uri_text =
     (case RAND_bytes lib of
        None \<Rightarrow> do { (h, _) \<leftarrow> memzero_s (Some hdr) EST_HTTP_REQ_TOTAL_LEN; h' \<leftarrow> h; Some (ctx, h') }
      | Some client_random \<Rightarrow>
          do { cn \<leftarrow> wr_block (c_nonce ctx) 0 (est_hex_to_str client_random @ [NUL]);
               (ctx', user_buf, pwd_buf) \<leftarrow> digest_credentials stack (ctx\<lparr>c_nonce := cn\<rparr>);
               case est_client_generate_auth_digest lib ctx' uri_text user_buf pwd_buf of
                 None \<Rightarrow> do { (h, _) \<leftarrow> memzero_s (Some hdr) EST_HTTP_REQ_TOTAL_LEN; h' \<leftarrow> h;
                             (z, _) \<leftarrow> memzero_s (Some cn) (MAX_NONCE + 1); z' \<leftarrow> z;
                             Some (ctx'\<lparr>c_nonce := z'\<rparr>, h') }
               | Some digest \<Rightarrow>
                   do { u \<leftarrow> str_arg user_buf;
                        r \<leftarrow> str_arg (cl_realm (io ctx'));
                        n \<leftarrow> str_arg (s_nonce (io ctx'));
                        c \<leftarrow> str_arg cn;
                        h' \<leftarrow> snprintf hdr hdr_len (int EST_HTTP_REQ_TOTAL_LEN - int hdr_len) (digest_auth_text u r n uri_text c digest);
                        (z, _) \<leftarrow> memzero_s (Some cn) (MAX_NONCE + 1); z' \<leftarrow> z;
                        Some (ctx'\<lparr>c_nonce := z'\<rparr>, h') } })"

definition token_auth_hdr :: "CLIENT_LIB \<Rightarrow> EST_CLIENT \<Rightarrow> mem \<Rightarrow> nat \<Rightarrow> (EST_CLIENT \<times> mem) option" where
  "token_auth_hdr lib ctx hdr hdr_len =
     (let token = (case auth_token (ask_application ctx AUTH_TOKEN) of
                     None \<Rightarrow> []
                   | Some t \<Rightarrow> if MAX_AUTH_TOKEN_LEN < strnlen_s (Some t) (MAX_AUTH_TOKEN_LEN + 1) then [] else t) in
      do { (b64, _) \<leftarrow> est_base64_encode (bio_write lib) (take (strnlen_s (Some token) MAX_AUTH_TOKEN_LEN) token)
                       (Some (replicate (MAX_AUTH_TOKEN_LEN * 2) NUL)) (MAX_AUTH_TOKEN_LEN * 2) False;
           token_b64 \<leftarrow> b64;
           v \<leftarrow> str_arg token_b64;
           h' \<leftarrow> snprintf hdr hdr_len (int EST_HTTP_REQ_TOTAL_LEN - int hdr_len) (''Authorization: Bearer '' @ v @ [CR, LF]);
           Some (ctx, h') })"

definition est_client_add_auth_hdr ::
  "CLIENT_LIB \<Rightarrow> mem \<times> mem \<Rightarrow> EST_CLIENT \<Rightarrow> mem \<Rightarrow> string \<Rightarrow> (EST_CLIENT \<times> mem) option" where
  "est_client_add_auth_hdr lib stack ctx hdr uri_text =
     (let hdr_len = strnlen_s (Some hdr) EST_HTTP_REQ_TOTAL_LEN in
      case cl_auth_mode (io ctx) of
        AUTH_BASIC \<Rightarrow> basic_auth_hdr lib ctx hdr hdr_len
      | AUTH_DIGEST \<Rightarrow> digest_auth_hdr lib stack ctx hdr hdr_len uri_text
      | AUTH_TOKEN \<Rightarrow> token_auth_hdr lib ctx hdr hdr_len
      | _ \<Rightarrow> Some (ctx, hdr))"

section \<open>Buffers\<close>

text \<open>A request buffer that holds the text \<open>t\<close>.\<close>

definition buf_text :: "mem \<Rightarrow> string \<Rightarrow> bool" where
  "buf_text m t \<longleftrightarrow> length m = EST_HTTP_REQ_TOTAL_LEN \<and> NUL \<in> set m \<and> cstr m = t"

lemma cstr_split: "NUL \<in> set m \<Longrightarrow> \<exists>r. m = cstr m @ NUL # r"
  by (induction m) auto

lemma buf_textE:
  assumes "buf_text m t"
  obtains r where "m = t @ NUL # r" and "NUL \<notin> set t" and "length t < EST_HTTP_REQ_TOTAL_LEN"
    and "length t + length r + 1 = EST_HTTP_REQ_TOTAL_LEN"
proof -
  obtain r where m: "m = t @ NUL # r" using assms cstr_split by (auto simp: buf_text_def)
  have "NUL \<notin> set t" using assms cstr_no_nul by (auto simp: buf_text_def)
  moreover have "length m = EST_HTTP_REQ_TOTAL_LEN" using assms by (simp add: buf_text_def)
  ultimately show ?thesis using m by (intro that [of r]) auto
qed

lemma buf_textI: "m = t @ NUL # r \<Longrightarrow> NUL \<notin> set t \<Longrightarrow> length m = EST_HTTP_REQ_TOTAL_LEN \<Longrightarrow> buf_text m t"
  by (simp add: buf_text_def)

lemma buf_text_len: "buf_text m t \<Longrightarrow> strnlen_s (Some m) EST_HTTP_REQ_TOTAL_LEN = length t"
  by (auto simp: strnlen_s_def strnlen_def buf_text_def intro: min_absorb1)
    (metis length_cstr_le min_absorb1)

text \<open>Text that is appended with the remaining size as bound is cut at the end of the buffer.\<close>

lemma snprintf_append:
  assumes "buf_text m t" and "NUL \<notin> set s"
  shows "\<exists>m'. snprintf m (length t) (int EST_HTTP_REQ_TOTAL_LEN - int (length t)) s = Some m'
    \<and> buf_text m' (take (EST_HTTP_REQ_TOTAL_LEN - 1) (t @ s))"
proof -
  obtain r where r: "m = t @ NUL # r" "NUL \<notin> set t" "length t + length r + 1 = EST_HTTP_REQ_TOTAL_LEN"
    by (rule buf_textE [OF assms(1)])
  define s' where "s' = take (EST_HTTP_REQ_TOTAL_LEN - length t - 1) s"
  have n: "take (nat (int EST_HTTP_REQ_TOTAL_LEN - int (length t)) - 1) s = s'"
    unfolding s'_def by (rule arg_cong [where f = "\<lambda>k. take k s"]) arith
  have len: "length s' \<le> length r" using r(3) by (simp add: s'_def)
  have "snprintf m (length t) (int EST_HTTP_REQ_TOTAL_LEN - int (length t)) s = Some (t @ s' @ NUL # drop (length s') r)"
    using r len unfolding snprintf_def n by (simp add: wr_block_def)
  moreover have "NUL \<notin> set s'" using assms(2) by (auto simp: s'_def dest: in_set_takeD)
  moreover have "take (EST_HTTP_REQ_TOTAL_LEN - 1) (t @ s) = t @ s'"
    using r(3) by (simp add: s'_def)
  ultimately show ?thesis
    using r len by (auto intro!: buf_textI [where r = "drop (length s') r"])
qed

lemma array_okD: "array_ok n d \<Longrightarrow> NUL \<in> set d \<and> length (cstr d) \<le> n \<and> length d = n + 1"
proof -
  assume a: "array_ok n d"
  then have mem: "NUL \<in> set d" by (metis array_ok_def less_add_one nth_mem)
  then obtain r where "d = cstr d @ NUL # r" using cstr_split by blast
  then have "length d = length (cstr d) + 1 + length r" by (metis add.assoc length_Cons length_append plus_1_eq_Suc)
  with a mem show ?thesis by (simp add: array_ok_def)
qed

lemma str_arg_array: "array_ok n d \<Longrightarrow> str_arg d = Some (cstr d)"
  by (simp add: str_arg_def array_okD)

lemma est_base64_encode_text:
  assumes "bw True s = e" and "s \<noteq> []" and "length s \<le> (k * 3) div 4 + 1" and "length e < k" and "NUL \<notin> set e"
  shows "\<exists>d. est_base64_encode bw s (Some (replicate k NUL)) k False = Some (Some d, length e) \<and> str_arg d = Some e"
proof -
  define d where "d = e @ NUL # replicate (k - length e - 1) NUL"
  have "replicate (k - length e) NUL = NUL # replicate (k - length e - 1) NUL"
    using assms(4) by (metis Suc_diff_Suc diff_diff_left plus_1_eq_Suc add.commute replicate_Suc)
  then have "est_base64_encode bw s (Some (replicate k NUL)) k False = Some (Some d, length e)"
    using assms by (simp add: est_base64_encode_def memcpy_s_def rd_block_def wr_block_def wr_def d_def)
  moreover have "str_arg d = Some e" using assms(5) by (simp add: d_def str_arg_def)
  ultimately show ?thesis by blast
qed

section \<open>What the header says\<close>

text \<open>
  The arrays of the client are terminated, the arrays on the stack have their size, and a user name of the
  full \<^verbatim>\<open>MAX_UIDPWD\<close> bytes happens to be terminated on the stack.
\<close>

definition creds_ok :: "EST_CLIENT \<Rightarrow> bool" where
  "creds_ok ctx \<longleftrightarrow> client_ok (io ctx) \<and> array_ok MAX_UIDPWD (userid ctx) \<and> array_ok MAX_UIDPWD (password ctx)
     \<and> array_ok MAX_NONCE (c_nonce ctx)"

definition stack_ok :: "mem \<times> mem \<Rightarrow> EST_CLIENT \<Rightarrow> bool" where
  "stack_ok stack ctx \<longleftrightarrow> length (fst stack) = MAX_UIDPWD + 1 \<and> length (snd stack) = MAX_UIDPWD + 1
     \<and> (length (cstr (userid ctx)) < MAX_UIDPWD \<or> fst stack ! MAX_UIDPWD = NUL)"

text \<open>The documented behaviour of OpenSSL that the code relies on: sizes, and text without NUL bytes.\<close>

definition lib_ok :: "CLIENT_LIB \<Rightarrow> bool" where
  "lib_ok lib \<longleftrightarrow> (\<forall>s. NUL \<notin> set (bio_write lib True s) \<and> length (bio_write lib True s) \<le> 4 * ((length s + 2) div 3))
     \<and> (\<forall>s d. md5 lib s = Some d \<longrightarrow> length d = 16) \<and> (\<forall>r. RAND_bytes lib = Some r \<longrightarrow> length r = 8)"

definition credential :: "string option \<Rightarrow> string" where
  "credential s = (case s of None \<Rightarrow> [] | Some x \<Rightarrow> if MAX_UIDPWD < length (cstr x) then [] else cstr x)"

definition credentials :: "EST_CLIENT \<Rightarrow> EST_HTTP_AUTH_MODE \<Rightarrow> string \<times> string" where
  "credentials ctx m =
     (if configured ctx then (cstr (userid ctx), cstr (password ctx))
      else (credential (user (ask_application ctx m)), credential (pwd (ask_application ctx m))))"

definition bearer_token :: "EST_CLIENT \<Rightarrow> string" where
  "bearer_token ctx =
     (case auth_token (ask_application ctx AUTH_TOKEN) of
        None \<Rightarrow> [] | Some t \<Rightarrow> if MAX_AUTH_TOKEN_LEN < length (cstr t) then [] else cstr t)"

text \<open>The response of Digest authentication as a function of what RFC 2617 says it depends on.\<close>

definition digest_response ::
  "(string \<Rightarrow> string option) \<Rightarrow> string \<Rightarrow> string \<Rightarrow> string \<Rightarrow> string \<Rightarrow> string \<Rightarrow> string option" where
  "digest_response H ha1 nonce_text nc_text cnonce_text uri_text =
     do { ha2 \<leftarrow> H (colons [''POST'', uri_text]);
          d \<leftarrow> H (colons [ha1, nonce_text, nc_text, cnonce_text, ''auth'', est_hex_to_str ha2]);
          Some (est_hex_to_str d) }"

definition auth_line :: "CLIENT_LIB \<Rightarrow> EST_CLIENT \<Rightarrow> string \<Rightarrow> string option" where
  "auth_line lib ctx uri_text =
     (case cl_auth_mode (io ctx) of
        AUTH_BASIC \<Rightarrow>
          (let (u, p) = credentials ctx AUTH_BASIC in
           Some (''Authorization: Basic '' @ bio_write lib True (u @ '':'' @ p) @ [CR, LF]))
      | AUTH_DIGEST \<Rightarrow>
          (let (u, p) = credentials ctx AUTH_DIGEST; r = cstr (cl_realm (io ctx)); n = cstr (s_nonce (io ctx)) in
           do { c \<leftarrow> RAND_bytes lib;
                ha1 \<leftarrow> md5 lib (colons [u, r, p]);
                d \<leftarrow> digest_response (md5 lib) (est_hex_to_str ha1) n ''00000001'' (est_hex_to_str c) uri_text;
                Some (digest_auth_text u r n uri_text (est_hex_to_str c) d) })
      | AUTH_TOKEN \<Rightarrow>
          Some (''Authorization: Bearer ''
            @ (if bearer_token ctx = [] then [] else bio_write lib True (bearer_token ctx)) @ [CR, LF])
      | _ \<Rightarrow> Some [])"

lemma length_est_hex_to_str [simp]: "length (est_hex_to_str s) = 2 * length s"
  by (induction s) auto

lemma hex_digit_range: "n < 16 \<Longrightarrow> hex_digit n \<in> set ''0123456789abcdef''"
  unfolding hex_digit_def by (rule nth_mem) simp

lemma set_est_hex_to_str: "set (est_hex_to_str s) \<subseteq> set ''0123456789abcdef''"
proof (induction s)
  case (Cons b s)
  have "uchr b div 16 < 16" "uchr b mod 16 < 16" using uchr_bound [of b] by (simp_all add: less_mult_imp_div_less)
  then show ?case
    using hex_digit_range Cons unfolding est_hex_to_str.simps set_simps(2) [of "hex_digit _"] by blast
qed simp

lemma est_hex_to_str_chars:
  "NUL \<notin> set (est_hex_to_str s)" "DQUOTE \<notin> set (est_hex_to_str s)" "CHR 0x5C \<notin> set (est_hex_to_str s)"
  using set_est_hex_to_str [of s] by auto

lemma replicate_array_ok: "array_ok n (replicate (n + 1) NUL)"
  by (simp add: array_ok_def nth_append del: replicate.simps replicate_Suc)

lemma copy_credential_array:
  assumes "array_ok MAX_UIDPWD buf"
  shows "\<exists>b. copy_credential s buf = Some b \<and> array_ok MAX_UIDPWD b \<and> cstr b = credential s"
proof -
  obtain c b where buf: "buf = c # b" using assms by (cases buf) (auto simp: array_ok_def)
  have zero: "\<exists>b. wr buf 0 NUL = Some b \<and> array_ok MAX_UIDPWD b \<and> cstr b = []"
    using assms buf by (auto simp: wr_def array_ok_def MAX_UIDPWD_def)
  show ?thesis
  proof (cases s)
    case (Some x)
    then show ?thesis
      using zero strcpy_s_array [OF assms, of x]
      by (auto simp: copy_credential_def credential_def strnlen_s_def strnlen_def MAX_UIDPWD_def)
  qed (use zero in \<open>simp add: copy_credential_def credential_def\<close>)
qed

lemma retrieve_credentials_array:
  assumes "\<not> configured ctx"
  shows "\<exists>u p. est_client_retrieve_credentials ctx m (replicate (MAX_UIDPWD + 1) NUL) (replicate (MAX_UIDPWD + 1) NUL)
      = Some (ctx, u, p)
    \<and> array_ok MAX_UIDPWD u \<and> array_ok MAX_UIDPWD p \<and> (cstr u, cstr p) = credentials ctx m"
proof -
  obtain u p where "copy_credential (user (ask_application ctx m)) (replicate (MAX_UIDPWD + 1) NUL) = Some u"
    "copy_credential (pwd (ask_application ctx m)) (replicate (MAX_UIDPWD + 1) NUL) = Some p"
    "array_ok MAX_UIDPWD u" "cstr u = credential (user (ask_application ctx m))"
    "array_ok MAX_UIDPWD p" "cstr p = credential (pwd (ask_application ctx m))"
    using copy_credential_array [OF replicate_array_ok] by metis
  moreover have "zero_if_set (userid ctx) = userid ctx" "zero_if_set (password ctx) = password ctx"
    using assms by (simp_all add: configured_def zero_if_set_def)
  ultimately show ?thesis
    using assms by (simp add: est_client_retrieve_credentials_def Let_def credentials_def del: replicate.simps replicate_Suc)
qed

text \<open>A copy to a stack array whose last byte the copy leaves as it is.\<close>

lemma strcpy_s_stack:
  assumes "length d = n + 1" and "array_ok n v" and "0 < n"
  shows "\<exists>b. strcpy_s (Some d) n (Some v) = Some (Some b, EOK) \<and> take n (cstr b) = cstr v
    \<and> (length (cstr v) < n \<or> d ! n = NUL \<longrightarrow> str_arg b = Some (cstr v))"
proof -
  define b where "b = cstr v @ replicate (n - length (cstr v)) NUL @ [d ! n]"
  have len: "length (cstr v) \<le> n" using array_okD [OF assms(2)] by simp
  have "drop n d = [d ! n]" using assms(1) Cons_nth_drop_Suc [of n d] by simp
  then have "strcpy_s (Some d) n (Some v) = Some (Some b, EOK)"
    using assms(1,3) len by (simp add: strcpy_s_def strncpy_def wr_block_def b_def)
  moreover have "cstr b = cstr v \<and> NUL \<in> set b" if "length (cstr v) < n \<or> d ! n = NUL"
  proof (cases "length (cstr v) < n")
    case True
    then obtain k where "n - length (cstr v) = Suc k" by (metis Suc_diff_Suc)
    then show ?thesis by (simp add: b_def cstr_no_nul)
  next
    case False
    with that len show ?thesis by (simp add: b_def cstr_no_nul)
  qed
  moreover have "take n (cstr b) = cstr v"
  proof (cases "length (cstr v) < n \<or> d ! n = NUL")
    case False
    with len have "cstr b = cstr v @ [d ! n]" "length (cstr v) = n"
      by (simp_all add: b_def cstr_append cstr_no_nul cstr_id)
    then show ?thesis by simp
  qed (use calculation(2) len in simp)
  ultimately show ?thesis by (auto simp: str_arg_def)
qed


section \<open>The header is what it should be\<close>

lemma cstr_no_nul' [simp]: "NUL \<notin> set (cstr s)"
  by (rule cstr_no_nul)

lemma credential_props: "length (credential s) \<le> MAX_UIDPWD" "NUL \<notin> set (credential s)"
  by (auto simp: credential_def split: option.splits)

lemma credentials_props:
  assumes "creds_ok ctx" and "credentials ctx m = (u, p)"
  shows "length u \<le> MAX_UIDPWD" "length p \<le> MAX_UIDPWD" "NUL \<notin> set u" "NUL \<notin> set p"
proof -
  have "length (cstr (userid ctx)) \<le> MAX_UIDPWD" "length (cstr (password ctx)) \<le> MAX_UIDPWD"
    using assms(1) array_okD by (auto simp: creds_ok_def)
  with assms(2) credential_props
  show "length u \<le> MAX_UIDPWD" "length p \<le> MAX_UIDPWD" "NUL \<notin> set u" "NUL \<notin> set p"
    by (auto simp: credentials_def split: if_splits)
qed

lemma basic_credentials:
  assumes "creds_ok ctx" and "credentials ctx AUTH_BASIC = (u, p)"
  shows "\<exists>ub pb. (if \<not> configured ctx
      then est_client_retrieve_credentials ctx AUTH_BASIC (replicate (MAX_UIDPWD + 1) NUL) (replicate (MAX_UIDPWD + 1) NUL)
      else Some (ctx, userid ctx, password ctx)) = Some (ctx, ub, pb)
    \<and> str_arg ub = Some u \<and> str_arg pb = Some p"
proof (cases "configured ctx")
  case True
  with assms show ?thesis by (auto simp: credentials_def creds_ok_def str_arg_array)
next
  case False
  with retrieve_credentials_array [OF this, of AUTH_BASIC] assms(2) show ?thesis
    by (auto simp: str_arg_array simp del: replicate.simps replicate_Suc)
qed

lemma lib_encoded:
  assumes "lib_ok lib" and "length s \<le> n"
  shows "length (bio_write lib True s) \<le> 4 * ((n + 2) div 3) \<and> NUL \<notin> set (bio_write lib True s)"
proof -
  have "(length s + 2) div 3 \<le> (n + 2) div 3" using assms(2) by (intro div_le_mono) simp
  with assms(1) show ?thesis unfolding lib_ok_def by (meson le_trans mult_le_mono2)
qed

lemma basic_auth_hdr_text:
  assumes "creds_ok ctx" and "lib_ok lib" and "buf_text hdr t" and "credentials ctx AUTH_BASIC = (u, p)"
  shows "\<exists>hdr'. basic_auth_hdr lib ctx hdr (length t) = Some (ctx, hdr')
    \<and> buf_text hdr' (take (EST_HTTP_REQ_TOTAL_LEN - 1)
         (t @ ''Authorization: Basic '' @ bio_write lib True (u @ '':'' @ p) @ [CR, LF]))"
proof -
  define b where "b = u @ '':'' @ p"
  define e where "e = bio_write lib True b"
  note up = credentials_props [OF assms(1,4)]
  have b: "length b \<le> 511" "NUL \<notin> set b" "b \<noteq> []"
    using up by (auto simp: b_def MAX_UIDPWD_def)
  obtain ub pb where c: "(if \<not> configured ctx
      then est_client_retrieve_credentials ctx AUTH_BASIC (replicate (MAX_UIDPWD + 1) NUL) (replicate (MAX_UIDPWD + 1) NUL)
      else Some (ctx, userid ctx, password ctx)) = Some (ctx, ub, pb)" "str_arg ub = Some u" "str_arg pb = Some p"
    using basic_credentials [OF assms(1,4)] by blast
  define both where "both = b @ NUL # replicate (511 - length b) NUL"
  have both: "snprintf (replicate (MAX_UIDPWD * 2 + 2) NUL) 0 (int (MAX_UIDPWD * 2 + 2)) b = Some both"
  proof -
    have "drop (length b + 1) (replicate 512 NUL) = replicate (511 - length b) NUL" using b(1) by simp
    then show ?thesis using b(1) by (simp add: snprintf_def wr_block_def MAX_UIDPWD_def both_def)
  qed
  have src: "take (strnlen_s (Some both) (MAX_UIDPWD * 2 + 2)) both = b"
    using b by (simp add: both_def strnlen_s_def strnlen_def MAX_UIDPWD_def)
  have le: "length e \<le> 684" and ne: "NUL \<notin> set e"
    using lib_encoded [OF assms(2) b(1)] by (simp_all add: e_def)
  obtain d where enc: "est_base64_encode (bio_write lib) b (Some (replicate (2 * 2 * MAX_UIDPWD) NUL)) (2 * 2 * MAX_UIDPWD) False
      = Some (Some d, length e)" "str_arg d = Some e"
    using est_base64_encode_text [of "bio_write lib" b e "2 * 2 * MAX_UIDPWD"] b le ne
    by (auto simp: e_def [symmetric] MAX_UIDPWD_def simp del: replicate.simps replicate_Suc)
  obtain hdr' where h: "snprintf hdr (length t) (int EST_HTTP_REQ_TOTAL_LEN - int (length t)) (''Authorization: Basic '' @ e @ [CR, LF]) = Some hdr'"
    "buf_text hdr' (take (EST_HTTP_REQ_TOTAL_LEN - 1) (t @ ''Authorization: Basic '' @ e @ [CR, LF]))"
    using snprintf_append [OF assms(3), of "''Authorization: Basic '' @ e @ [CR, LF]"] ne by auto
  have "basic_auth_hdr lib ctx hdr (length t) = Some (ctx, hdr')"
    unfolding basic_auth_hdr_def by (simp only: bind.simps prod.case c b_def [symmetric] both src enc h(1))
  with h(2) show ?thesis unfolding b_def [symmetric] e_def [symmetric] by blast
qed


lemma bearer_token_props: "length (bearer_token ctx) \<le> MAX_AUTH_TOKEN_LEN" "NUL \<notin> set (bearer_token ctx)"
  by (auto simp: bearer_token_def split: option.splits)

lemma token_auth_hdr_text:
  assumes "lib_ok lib" and "buf_text hdr t"
  shows "\<exists>hdr'. token_auth_hdr lib ctx hdr (length t) = Some (ctx, hdr')
    \<and> buf_text hdr' (take (EST_HTTP_REQ_TOTAL_LEN - 1) (t @ ''Authorization: Bearer ''
         @ (if bearer_token ctx = [] then [] else bio_write lib True (bearer_token ctx)) @ [CR, LF]))"
proof -
  define b where "b = bearer_token ctx"
  define e where "e = (if b = [] then [] else bio_write lib True b)"
  define T where "T = (case auth_token (ask_application ctx AUTH_TOKEN) of
                     None \<Rightarrow> []
                   | Some t \<Rightarrow> if MAX_AUTH_TOKEN_LEN < strnlen_s (Some t) (MAX_AUTH_TOKEN_LEN + 1) then [] else t)"
  have b: "length b \<le> 512" using bearer_token_props(1) [of ctx] by (simp add: b_def MAX_AUTH_TOKEN_LEN_def)
  have src: "take (strnlen_s (Some T) MAX_AUTH_TOKEN_LEN) T = b"
  proof -
    have "take (length (cstr x)) x = cstr x" for x by (simp add: cstr_def takeWhile_eq_take [symmetric])
    then show ?thesis
      by (auto simp: T_def b_def bearer_token_def strnlen_s_def strnlen_def min_def split: option.splits)
  qed
  have le: "length e \<le> 684" and ne: "NUL \<notin> set e"
    using lib_encoded [OF assms(1) b] by (auto simp: e_def)
  have "\<exists>d. est_base64_encode (bio_write lib) b (Some (replicate (MAX_AUTH_TOKEN_LEN * 2) NUL)) (MAX_AUTH_TOKEN_LEN * 2) False
      = Some (Some d, length e) \<and> str_arg d = Some e"
  proof (cases "b = []")
    case True
    have "str_arg (replicate (MAX_AUTH_TOKEN_LEN * 2) NUL) = Some []"
      by (simp add: str_arg_def MAX_AUTH_TOKEN_LEN_def cstr_def takeWhile_eq_Nil_iff)
    with True show ?thesis
      by (simp add: est_base64_encode_def e_def Let_def MAX_AUTH_TOKEN_LEN_def del: replicate.simps replicate_Suc)
  next
    case False
    then show ?thesis
      using est_base64_encode_text [of "bio_write lib" b e "MAX_AUTH_TOKEN_LEN * 2"] b le ne
      by (auto simp: e_def MAX_AUTH_TOKEN_LEN_def simp del: replicate.simps replicate_Suc)
  qed
  then obtain d where enc: "est_base64_encode (bio_write lib) b (Some (replicate (MAX_AUTH_TOKEN_LEN * 2) NUL)) (MAX_AUTH_TOKEN_LEN * 2) False
      = Some (Some d, length e)" "str_arg d = Some e"
    by blast
  obtain hdr' where h: "snprintf hdr (length t) (int EST_HTTP_REQ_TOTAL_LEN - int (length t)) (''Authorization: Bearer '' @ e @ [CR, LF]) = Some hdr'"
    "buf_text hdr' (take (EST_HTTP_REQ_TOTAL_LEN - 1) (t @ ''Authorization: Bearer '' @ e @ [CR, LF]))"
    using snprintf_append [OF assms(2), of "''Authorization: Bearer '' @ e @ [CR, LF]"] ne by auto
  have "token_auth_hdr lib ctx hdr (length t) = Some (ctx, hdr')"
    unfolding token_auth_hdr_def T_def [symmetric] Let_def by (simp only: bind.simps prod.case src enc h(1))
  with h(2) show ?thesis unfolding b_def [symmetric] e_def [symmetric] by blast
qed

lemma digest_credentials_text:
  assumes "creds_ok ctx" and "stack_ok stack ctx" and "credentials ctx AUTH_DIGEST = (u, p)"
  shows "\<exists>ub pb. digest_credentials stack ctx = Some (ctx, ub, pb)
    \<and> str_arg ub = Some u \<and> take MAX_UIDPWD (cstr ub) = u \<and> take MAX_UIDPWD (cstr pb) = p"
proof (cases "configured ctx")
  case True
  have a: "array_ok MAX_UIDPWD (userid ctx)" "array_ok MAX_UIDPWD (password ctx)" "0 < MAX_UIDPWD"
    using assms(1) by (simp_all add: creds_ok_def MAX_UIDPWD_def)
  have l: "length (fst stack) = MAX_UIDPWD + 1" "length (snd stack) = MAX_UIDPWD + 1"
    using assms(2) by (simp_all add: stack_ok_def)
  from strcpy_s_stack [OF l(1) a(1,3)] strcpy_s_stack [OF l(2) a(2,3)] assms(2,3) True show ?thesis
    by (auto simp: digest_credentials_def credentials_def stack_ok_def)
next
  case False
  with retrieve_credentials_array [OF this, of AUTH_DIGEST] assms(3) credentials_props [OF assms(1,3)] show ?thesis
    by (auto simp: digest_credentials_def str_arg_array simp del: replicate.simps replicate_Suc)
qed

lemma memzero_all: "length m = n \<Longrightarrow> memzero_s (Some m) n = Some (Some (replicate n NUL), EOK)"
  by (simp add: memzero_s_def wr_block_def)

lemma buf_text_zero: "buf_text (replicate EST_HTTP_REQ_TOTAL_LEN NUL) []"
  by (simp add: buf_text_def EST_HTTP_REQ_TOTAL_LEN_def cstr_def takeWhile_eq_Nil_iff)

lemma c_nonce_written:
  assumes "array_ok MAX_NONCE (c_nonce ctx)" and "length r = 8"
  shows "\<exists>cn. wr_block (c_nonce ctx) 0 (est_hex_to_str r @ [NUL]) = Some cn \<and> array_ok MAX_NONCE cn
    \<and> cstr cn = est_hex_to_str r"
proof -
  let ?cn = "est_hex_to_str r @ NUL # drop 17 (c_nonce ctx)"
  have "?cn ! MAX_NONCE = c_nonce ctx ! MAX_NONCE"
    using assms by (simp add: nth_append array_ok_def MAX_NONCE_def)
  then show ?thesis
    using assms est_hex_to_str_chars(1) by (auto simp: wr_block_def array_ok_def MAX_NONCE_def)
qed


lemma client_digest_eq:
  assumes "creds_ok ctx" and "array_ok MAX_NONCE (c_nonce ctx)" and "NUL \<notin> set uri_text" and "length uri_text \<le> MAX_REALM"
    and "take MAX_UIDPWD (cstr ub) = u" and "take MAX_UIDPWD (cstr pb) = p"
  shows "est_client_generate_auth_digest lib ctx uri_text ub pb =
    do { ha1 \<leftarrow> md5 lib (colons [u, cstr (cl_realm (io ctx)), p]);
         digest_response (md5 lib) (est_hex_to_str ha1) (cstr (s_nonce (io ctx))) ''00000001'' (cstr (c_nonce ctx)) uri_text }"
proof -
  have "take MAX_REALM (cstr (cl_realm (io ctx))) = cstr (cl_realm (io ctx))"
    "take MAX_NONCE (cstr (s_nonce (io ctx))) = cstr (s_nonce (io ctx))" "take MAX_NONCE (cstr (c_nonce ctx)) = cstr (c_nonce ctx)"
    "take MAX_REALM (cstr uri_text) = uri_text" "take MAX_NC ''00000001'' = ''00000001''"
    using assms(1-4) array_okD by (simp_all add: creds_ok_def client_ok_def cstr_id MAX_NC_def)
  then show ?thesis
    unfolding est_client_generate_auth_digest_def digest_response_def by (simp only: assms(5,6))
qed

lemma credentials_c_nonce [simp]: "credentials (ctx\<lparr>c_nonce := cn\<rparr>) m = credentials ctx m"
  by (simp add: credentials_def configured_def ask_application_def)

lemma digest_auth_hdr_text:
  assumes "creds_ok ctx" and "stack_ok stack ctx" and "lib_ok lib" and "buf_text hdr t"
    and "NUL \<notin> set uri_text" and "length uri_text \<le> MAX_REALM" and "cl_auth_mode (io ctx) = AUTH_DIGEST"
  shows "\<exists>ctx' hdr'. digest_auth_hdr lib stack ctx hdr (length t) uri_text = Some (ctx', hdr')
    \<and> (ctx' = ctx \<or> ctx' = ctx\<lparr>c_nonce := replicate (MAX_NONCE + 1) NUL\<rparr>)
    \<and> buf_text hdr' (case auth_line lib ctx uri_text of None \<Rightarrow> [] | Some h \<Rightarrow> take (EST_HTTP_REQ_TOTAL_LEN - 1) (t @ h))"
proof (cases "RAND_bytes lib")
  case None
  moreover have "length hdr = EST_HTTP_REQ_TOTAL_LEN" using assms(4) by (simp add: buf_text_def)
  ultimately show ?thesis
    using assms(7) buf_text_zero
    by (simp add: digest_auth_hdr_def memzero_all auth_line_def case_prod_unfold Let_def)
next
  case (Some r)
  obtain u p where up: "credentials ctx AUTH_DIGEST = (u, p)" by fastforce
  have "length r = 8" using assms(3) Some by (simp add: lib_ok_def)
  then obtain cn where cn: "wr_block (c_nonce ctx) 0 (est_hex_to_str r @ [NUL]) = Some cn" "array_ok MAX_NONCE cn" "cstr cn = est_hex_to_str r"
    using c_nonce_written assms(1) by (meson creds_ok_def)
  define c1 where "c1 = ctx\<lparr>c_nonce := cn\<rparr>"
  have c1: "creds_ok c1" "stack_ok stack c1" "credentials c1 AUTH_DIGEST = (u, p)" "io c1 = io ctx" "c_nonce c1 = cn"
    using assms(1,2) up cn(2) by (simp_all add: c1_def creds_ok_def stack_ok_def)
  obtain ub pb where b: "digest_credentials stack c1 = Some (c1, ub, pb)" "str_arg ub = Some u"
    "take MAX_UIDPWD (cstr ub) = u" "take MAX_UIDPWD (cstr pb) = p"
    using digest_credentials_text [OF c1(1-3)] by blast
  have args: "str_arg (cl_realm (io c1)) = Some (cstr (cl_realm (io ctx)))" "str_arg (s_nonce (io c1)) = Some (cstr (s_nonce (io ctx)))"
    "str_arg cn = Some (est_hex_to_str r)"
    using assms(1) cn by (auto simp: c1(4) creds_ok_def client_ok_def dest: str_arg_array)
  have z: "memzero_s (Some cn) (MAX_NONCE + 1) = Some (Some (replicate (MAX_NONCE + 1) NUL), EOK)"
    "memzero_s (Some hdr) EST_HTTP_REQ_TOTAL_LEN = Some (Some (replicate EST_HTTP_REQ_TOTAL_LEN NUL), EOK)"
    using cn(2) assms(4) unfolding array_ok_def buf_text_def by (blast intro: memzero_all)+
  have ctx': "c1\<lparr>c_nonce := replicate (MAX_NONCE + 1) NUL\<rparr> = ctx\<lparr>c_nonce := replicate (MAX_NONCE + 1) NUL\<rparr>"
    by (simp add: c1_def)
  have al: "auth_line lib ctx uri_text = map_option (\<lambda>d. digest_auth_text u (cstr (cl_realm (io ctx))) (cstr (s_nonce (io ctx))) uri_text (est_hex_to_str r) d)
      (est_client_generate_auth_digest lib c1 uri_text ub pb)"
    using client_digest_eq [of c1 uri_text ub u pb p lib] assms(5-7) c1 b cn
    by (simp add: auth_line_def up Some map_option_case bind_assoc split: option.split Option.bind_split)
  show ?thesis
  proof (cases "est_client_generate_auth_digest lib c1 uri_text ub pb")
    case None
    then have "digest_auth_hdr lib stack ctx hdr (length t) uri_text =
        Some (ctx\<lparr>c_nonce := replicate (MAX_NONCE + 1) NUL\<rparr>, replicate EST_HTTP_REQ_TOTAL_LEN NUL)"
      unfolding digest_auth_hdr_def Some by (simp only: bind.simps prod.case option.case cn(1) c1_def [symmetric] b(1) z ctx')
    with al None buf_text_zero show ?thesis by auto
  next
    case d: (Some d)
    define h where "h = digest_auth_text u (cstr (cl_realm (io ctx))) (cstr (s_nonce (io ctx))) uri_text (est_hex_to_str r) d"
    have "NUL \<notin> set d" using d by (auto simp: est_client_generate_auth_digest_def bind_eq_Some_conv est_hex_to_str_chars)
    then have "NUL \<notin> set h"
      using credentials_props [OF assms(1) up] assms(5) est_hex_to_str_chars by (simp add: h_def digest_auth_text_def)
    then obtain hdr' where h': "snprintf hdr (length t) (int EST_HTTP_REQ_TOTAL_LEN - int (length t)) h = Some hdr'"
      "buf_text hdr' (take (EST_HTTP_REQ_TOTAL_LEN - 1) (t @ h))"
      using snprintf_append [OF assms(4)] by blast
    have "digest_auth_hdr lib stack ctx hdr (length t) uri_text = Some (ctx\<lparr>c_nonce := replicate (MAX_NONCE + 1) NUL\<rparr>, hdr')"
      unfolding digest_auth_hdr_def Some
      by (simp only: bind.simps prod.case option.case cn(1) c1_def [symmetric] b(1,2) z args d h_def [symmetric] h'(1) ctx')
    with h' show ?thesis unfolding al d by (auto simp: h_def)
  qed
qed


section \<open>The server reads the credentials\<close>

text \<open>The pairs before the unquoted nonce count, the nonce count, and the whole digest header.\<close>

lemma digest_loop_prefix:
  assumes "fs \<noteq> []" and "list_all field_ok fs" and "length (pre @ sp @ digest_text fs @ '', '' @ rest) \<le> 384"
    and "sp = [] \<or> sp = '' ''" and "3 \<le> length rest"
  shows "\<exists>P. length P = length (pre @ sp @ digest_text fs)
    \<and> digest_loop (pre @ sp @ digest_text fs @ '', '' @ rest) (length pre) ah =
      digest_loop ((P @ '','') @ '' '' @ rest) (length (P @ '','')) (foldl apply_field ah fs)"
  using assms(1-4)
proof (induction fs arbitrary: pre sp ah)
  case (Cons nv fs)
  obtain n v where nv: "nv = (n, v)" by (cases nv)
  let ?P = "pre @ sp @ n @ [NUL, DQUOTE] @ v @ [NUL]"
  have ok: "field_ok (n, v)" using Cons.prems(2) nv by simp
  show ?case
  proof (cases "fs = []")
    case True
    have "digest_loop (pre @ sp @ digest_text (nv # fs) @ '', '' @ rest) (length pre) ah =
        digest_loop ((?P @ '','') @ '' '' @ rest) (length (?P @ '','')) (foldl apply_field ah (nv # fs))"
      using nv True ok Cons.prems(3,4) assms(5) digest_loop_step [of n v pre sp "'', '' @ rest" ah] by simp
    moreover have "length ?P = length (pre @ sp @ digest_text (nv # fs))" using nv True by simp
    ultimately show ?thesis by blast
  next
    case False
    let ?r = "digest_text fs @ '', '' @ rest"
    have shape: "pre @ sp @ digest_text (nv # fs) @ '', '' @ rest =
        pre @ sp @ n @ ''='' @ [DQUOTE] @ v @ [DQUOTE] @ ('', '' @ ?r)"
      using False by (simp add: nv digest_text_Cons)
    obtain P where P: "length P = length ((?P @ '','') @ '' '' @ digest_text fs)"
      "digest_loop ((?P @ '','') @ '' '' @ ?r) (length (?P @ '','')) (apply_field ah (n, v)) =
        digest_loop ((P @ '','') @ '' '' @ rest) (length (P @ '','')) (foldl apply_field (apply_field ah (n, v)) fs)"
      using Cons.IH [of "?P @ '',''" "'' ''" "apply_field ah (n, v)"] False Cons.prems(2,3) unfolding shape by (auto simp: nv)
    have "length (pre @ sp @ n @ ''='' @ [DQUOTE] @ v @ [DQUOTE] @ '', '' @ ?r) \<le> 384"
      using Cons.prems(3) unfolding shape .
    then have "digest_loop (pre @ sp @ digest_text (nv # fs) @ '', '' @ rest) (length pre) ah =
        digest_loop ((?P @ '','') @ '' '' @ ?r) (length (?P @ '','')) (apply_field ah (n, v))"
      unfolding shape using ok Cons.prems(4) assms(5) digest_loop_step [of n v pre sp "'', '' @ ?r" ah] by simp
    with P have "digest_loop (pre @ sp @ digest_text (nv # fs) @ '', '' @ rest) (length pre) ah =
        digest_loop ((P @ '','') @ '' '' @ rest) (length (P @ '','')) (foldl apply_field ah (nv # fs))"
      by (simp add: nv)
    moreover have "length P = length (pre @ sp @ digest_text (nv # fs))"
      using P(1) False by (simp add: nv digest_text_Cons)
    ultimately show ?thesis by blast
  qed
qed simp

lemma digest_loop_nc:
  assumes "length (pre @ '' '' @ ''nc=00000001, '' @ rest) \<le> 384" and "5 \<le> length rest" and "hd0 rest \<noteq> CHR '' ''"
  shows "digest_loop (pre @ '' '' @ ''nc=00000001, '' @ rest) (length pre) ah =
    digest_loop ((pre @ '' '' @ ''nc'' @ [NUL] @ ''00000001'' @ [NUL, NUL]) @ rest)
      (length (pre @ '' '' @ ''nc'' @ [NUL] @ ''00000001'' @ [NUL, NUL])) (ah\<lparr>nc := Some ''00000001''\<rparr>)"
proof -
  let ?P = "pre @ '' ''" and ?Q = "pre @ '' nc'' @ [NUL]"
  let ?m = "pre @ '' '' @ ''nc=00000001, '' @ rest" and ?m1 = "?Q @ ''00000001, '' @ rest"
  let ?m2 = "?Q @ ''00000001'' @ [NUL, NUL] @ rest"
  have small: "length ''='' \<le> RSIZE_MAX_STR" "length '' '' \<le> RSIZE_MAX_STR" "length '', '' \<le> RSIZE_MAX_STR"
    by (rule RSIZE_MAX_STR_384, simp)+
  have 1: "skip_spaces ?m (length pre) = Some (length ?P)"
    using skip_spaces_blank [of "CHR ''n''" pre "''c=00000001, '' @ rest"] by (simp add: isspace_def uchr_def)
  have 2: "skip_quoted ?m (length ?P) ''='' '' '' NUL = Some (?m1, length ?Q, length ?P)"
    using skip_quoted_word [of ?P "''nc''" "CHR ''=''" "[]" "''00000001, '' @ rest" "''=''" "'' ''" NUL]
      small RSIZE_MAX_STR_384 [OF assms(1)] by simp
  have 3: "rd ?m1 (length ?Q) = Some (CHR ''0'')"
    using rd_append2 [of pre "'' nc'' @ [NUL]" "''00000001, '' @ rest" 0] by (simp add: rd_Cons)
  have 4: "skip_quoted ?m1 (length ?Q) '', '' '' '' NUL = Some (?m2, length (?Q @ ''00000001'' @ [NUL, NUL]), length ?Q)"
    using skip_quoted_word [of ?Q "''00000001''" "CHR '',''" "'' ''" rest "'', ''" "'' ''" NUL]
      small RSIZE_MAX_STR_384 [OF assms(1)] assms(3) by (simp add: numeral_eq_Suc)
  have pair: "digest_pair ?m (length pre) = Some (?m2, length ?P, length ?Q, length (?Q @ ''00000001'' @ [NUL, NUL]))"
    unfolding digest_pair_def by (simp only: 1 2 3 4 bind.simps prod.case) simp
  have name: "rd ?m2 (length ?P) = Some (CHR ''n'')"
    using rd_append2 [of pre "'' ''" "''nc'' @ [NUL] @ ''00000001'' @ [NUL, NUL] @ rest" 0] by (simp add: rd_Cons)
  define m2 a K where "m2 = ?m2" and "a = length ?P"
    and "K kw = (take (length kw) (''nc'' @ [NUL] @ ''00000001'' @ [NUL, NUL] @ rest) = kw)" for kw
  have is_kw: "name_is m2 a kw = Some (K kw)" if "kw \<noteq> []" "length kw \<le> 8" for kw
    using name_is_eq [of kw ?m2 "length ?P"] that assms(2) by (simp add: m2_def a_def K_def)
  have K: "\<not> K ''username''" "\<not> K ''cnonce''" "\<not> K ''response''" "\<not> K ''uri''" "\<not> K ''qop''" "K ''nc''"
    by (simp_all add: K_def)
  have v: "strndup (''00000001'' @ NUL # NUL # rest) 9 = ''00000001''" by (simp add: strndup_def)
  have field: "digest_field m2 a (''00000001'' @ NUL # NUL # rest) ah = Some (ah\<lparr>nc := Some ''00000001''\<rparr>)"
    unfolding digest_field_def by (simp add: is_kw K v del: append.simps)
  have val: "drop (length ?Q) m2 = ''00000001'' @ NUL # NUL # rest" by (simp add: m2_def)
  have "digest_loop ?m (length pre) ah = digest_loop m2 (length (?Q @ ''00000001'' @ [NUL, NUL])) (ah\<lparr>nc := Some ''00000001''\<rparr>)"
    using pair name unfolding m2_def [symmetric] a_def [symmetric]
    by (subst digest_loop.simps) (simp only: option.case prod.case val field char.inject if_False simp_thms)
  then show ?thesis by (simp add: m2_def)
qed


lemma digest_text_no_nul: "list_all field_ok fs \<Longrightarrow> NUL \<notin> set (digest_text fs)"
proof (induction fs rule: digest_text.induct)
  case (2 n v)
  then show ?case using field_name_props [of n v] by (auto simp: field_ok_def)
next
  case (3 n v f fs)
  then show ?case using field_name_props [of n v] by (auto simp: field_ok_def)
qed simp

lemma mg_parse_auth_hdr_digest_nc:
  fixes fs gs
  defines "t \<equiv> digest_text fs @ '', nc=00000001, '' @ digest_text gs"
  assumes "fs \<noteq> []" and "list_all field_ok fs" and "gs \<noteq> []" and "list_all field_ok gs" and "length t \<le> 379"
  shows "mg_parse_auth_hdr_digest (''Digest '' @ t) ah =
    Some (foldl apply_field ((foldl apply_field (ah\<lparr>mode := AUTH_DIGEST\<rparr>) fs)\<lparr>nc := Some ''00000001''\<rparr>) gs)"
proof -
  define k where "k = 379 - length t"
  define post where "post = replicate (4 + k) NUL"
  define ah1 where "ah1 = foldl apply_field (ah\<lparr>mode := AUTH_DIGEST\<rparr>) fs"
  have cs: "cstr t = t" using assms digest_text_no_nul by (auto simp: cstr_id t_def)
  have pad: "MAX_AUTH_HDR_LEN - length t = Suc (4 + k)" using assms(6) by (simp add: MAX_AUTH_HDR_LEN_def k_def)
  have "strcpy_s (Some (replicate MAX_AUTH_HDR_LEN NUL)) MAX_AUTH_HDR_LEN (Some t) =
      Some (Some (t @ replicate (MAX_AUTH_HDR_LEN - length t) NUL), EOK)"
    using assms(6) cs by (simp add: strcpy_s_def strncpy_def wr_block_def MAX_AUTH_HDR_LEN_def)
  then have cpy: "strcpy_s (Some (replicate MAX_AUTH_HDR_LEN NUL)) MAX_AUTH_HDR_LEN (Some t) = Some (Some (t @ NUL # post), EOK)"
    unfolding pad post_def replicate_Suc .
  have len: "length (t @ NUL # post) \<le> 384" using assms(6) by (simp add: post_def k_def)
  let ?g = "digest_text gs @ NUL # post"
  obtain n v gs' where gs: "gs = (n, v) # gs'" using assms(4) by (cases gs) auto
  have "field_ok (n, v)" using assms(5) gs by simp
  then have "hd (digest_text gs) \<noteq> CHR '' ''" "digest_text gs \<noteq> []"
    using field_name_props [of n v] gs by (cases gs'; auto simp: isspace_def uchr_def)+
  then have hg: "hd0 ?g \<noteq> CHR '' ''" by (cases "digest_text gs") auto
  obtain P where P: "length P = length (digest_text fs)"
    "digest_loop (t @ NUL # post) 0 (ah\<lparr>mode := AUTH_DIGEST\<rparr>) =
      digest_loop ((P @ '','') @ '' '' @ ''nc=00000001, '' @ ?g) (length (P @ '','')) ah1"
    using digest_loop_prefix [of fs "[]" "[]" "''nc=00000001, '' @ ?g" "ah\<lparr>mode := AUTH_DIGEST\<rparr>"] assms(2,3) len
    by (auto simp: t_def ah1_def)
  let ?Q = "(P @ '','') @ '' '' @ ''nc'' @ [NUL] @ ''00000001'' @ [NUL, NUL]"
  have "digest_loop ((P @ '','') @ '' '' @ ''nc=00000001, '' @ ?g) (length (P @ '','')) ah1 =
      digest_loop (?Q @ ?g) (length ?Q) (ah1\<lparr>nc := Some ''00000001''\<rparr>)"
    using len P(1) hg by (intro digest_loop_nc) (simp_all add: t_def post_def)
  also have "\<dots> = Some (foldl apply_field (ah1\<lparr>nc := Some ''00000001''\<rparr>) gs)"
    using digest_loop_pairs [of gs ?Q "[]" post] assms(4,5) len P(1) by (simp add: t_def post_def)
  finally have "digest_loop (t @ NUL # post) 0 (ah\<lparr>mode := AUTH_DIGEST\<rparr>) = Some (foldl apply_field (ah1\<lparr>nc := Some ''00000001''\<rparr>) gs)"
    using P(2) by simp
  moreover have "drop 7 (cstr (''Digest '' @ t)) = t" using cs by simp
  ultimately show ?thesis
    unfolding mg_parse_auth_hdr_digest_def ah1_def [symmetric] by (simp only: cpy bind.simps prod.case)
qed


text \<open>
  Base64 as RFC 4648 defines it, at one string: four characters for every three bytes, padded with \<open>=\<close>, and
  the decoder inverts the encoder.
\<close>

definition base64_inverse :: "(bool \<Rightarrow> string \<Rightarrow> string) \<Rightarrow> CLIENT_LIB \<Rightarrow> string \<Rightarrow> bool" where
  "base64_inverse br lib s \<longleftrightarrow>
     (let e = bio_write lib True s; n = length e in
      br True e = s \<and> n = 4 * ((length s + 2) div 3) \<and> (\<forall>c \<in> set e. \<not> isspace c \<and> c \<noteq> NUL)
      \<and> (e ! (n - 1) = CHR ''='' \<longleftrightarrow> length s mod 3 \<noteq> 0) \<and> (e ! (n - 2) = CHR ''='' \<longleftrightarrow> length s mod 3 = 1))"

lemma base64_inverse_decode:
  assumes "base64_inverse br lib s" and "s \<noteq> []" and "length s \<le> k"
  shows "est_base64_decode br (bio_write lib True s) (int k) = Some (int (length s), s)"
proof -
  define e where "e = bio_write lib True s"
  define q where "q = (length s + 2) div 3"
  have e: "br True e = s" "length e = 4 * q" "NUL \<notin> set e" "\<forall>c \<in> set e. \<not> isspace c"
    "e ! (length e - 1) = CHR ''='' \<longleftrightarrow> length s mod 3 \<noteq> 0" "e ! (length e - 2) = CHR ''='' \<longleftrightarrow> length s mod 3 = 1"
    using assms(1) unfolding base64_inverse_def Let_def e_def [symmetric] q_def [symmetric] by blast+
  have "0 < length s" using assms(2) by blast
  then have q: "1 \<le> q" unfolding q_def by arith
  have cs: "cstr e = e" using e(3) by (rule cstr_id)
  have "isspace LF" by (simp add: isspace_def uchr_def)
  then have "LF \<notin> set e" using e(4) by blast
  then have "strchr e LF = None" using cs by (simp add: strchr_None)
  then have ana: "est_base64_str_analyze e = (4 * q, 4 * q, False)"
    using e(2,4) cs by (simp add: est_base64_str_analyze_eq)
  have "last_non_ws e (4 * q) = Some (int (4 * q - 1))"
  proof -
    have "4 * q = Suc (4 * q - 1)" using q by simp
    moreover have "\<not> isspace (at e (4 * q - 1))" using e(2,4) q by (simp add: at_def)
    ultimately show ?thesis by (metis last_non_ws.simps(2))
  qed
  moreover have "\<not> int (4 * q) > 4 * ((int k + 2) div 3)"
  proof -
    have "q \<le> (k + 2) div 3" using assms(3) by (auto simp: q_def intro: div_le_mono)
    then have "int q \<le> int ((k + 2) div 3)" by simp
    then show ?thesis by (simp add: zdiv_int add.commute)
  qed
  moreover have "(if int k mod 3 \<noteq> 0 then (int k div 3 + 1) * 4 else int k div 3 * 4) = 4 * ((int k + 2) div 3)"
  proof -
    define a b where "a = int k div 3" and "b = int k mod 3"
    then have d: "int k = 3 * a + b" and "0 \<le> b" "b < 3" by simp_all
    then consider "b = 0" | "b = 1" | "b = 2" by linarith
    then show ?thesis by cases (simp_all add: d)
  qed
  moreover have "(3 * int (4 * q)) div 4 - (if at e (4 * q - 1) = CHR ''='' then (if at e (4 * q - 2) = CHR ''='' then 2 else 1) else 0)
      = int (length s)"
  proof -
    define a b where "a = length s div 3" and "b = length s mod 3"
    then have d: "length s = 3 * a + b" and "b < 3" by simp_all
    then consider "b = 0" | "b = 1" | "b = 2" by linarith
    then show ?thesis
      using e(2,5,6) q unfolding b_def [symmetric] by cases (simp_all add: at_def d q_def)
  qed
  moreover have "nat (4 * int q) = 4 * q" by simp
  ultimately show ?thesis
    using e(1,2) q assms(3) unfolding e_def [symmetric]
    by (auto simp: est_base64_decode_def ana Let_def nat_diff_distrib numeral_2_eq_2 split: if_splits)
qed


lemma add_auth_hdr_text:
  assumes "creds_ok ctx" and "stack_ok stack ctx" and "lib_ok lib" and "buf_text hdr t"
    and "NUL \<notin> set uri_text" and "length uri_text \<le> MAX_REALM"
  shows "\<exists>ctx' hdr'. est_client_add_auth_hdr lib stack ctx hdr uri_text = Some (ctx', hdr') \<and> creds_ok ctx'
    \<and> (ctx' = ctx \<or> ctx' = ctx\<lparr>c_nonce := replicate (MAX_NONCE + 1) NUL\<rparr>)
    \<and> buf_text hdr' (case auth_line lib ctx uri_text of None \<Rightarrow> [] | Some h \<Rightarrow> take (EST_HTTP_REQ_TOTAL_LEN - 1) (t @ h))"
proof -
  have keep: "creds_ok (ctx\<lparr>c_nonce := replicate (MAX_NONCE + 1) NUL\<rparr>)"
    using assms(1) replicate_array_ok by (simp add: creds_ok_def del: replicate.simps replicate_Suc)
  have t: "take (EST_HTTP_REQ_TOTAL_LEN - 1) t = t"
    by (rule buf_textE [OF assms(4)]) simp
  have len: "strnlen_s (Some hdr) EST_HTTP_REQ_TOTAL_LEN = length t" using assms(4) by (rule buf_text_len)
  show ?thesis
  proof (cases "cl_auth_mode (io ctx)")
    case AUTH_BASIC
    obtain u p where "credentials ctx AUTH_BASIC = (u, p)" by fastforce
    with basic_auth_hdr_text [OF assms(1,3,4) this] AUTH_BASIC assms(1) show ?thesis
      unfolding est_client_add_auth_hdr_def len Let_def by (auto simp: auth_line_def simp del: append_assoc take_append)
  next
    case AUTH_DIGEST
    with digest_auth_hdr_text [OF assms AUTH_DIGEST] assms(1) keep show ?thesis
      unfolding est_client_add_auth_hdr_def len Let_def by auto
  next
    case AUTH_TOKEN
    with token_auth_hdr_text [OF assms(3,4), of ctx] assms(1) show ?thesis
      unfolding est_client_add_auth_hdr_def len Let_def by (auto simp: auth_line_def simp del: append_assoc take_append)
  qed (use assms(1,4) t in \<open>simp_all add: est_client_add_auth_hdr_def len auth_line_def\<close>)
qed

definition sample_lib :: CLIENT_LIB where
  "sample_lib = \<lparr>bio_write = \<lambda>_ s. replicate (4 * ((length s + 2) div 3)) CHR ''A'',
     md5 = \<lambda>_. Some (replicate 16 CHR ''m''), RAND_bytes = Some (replicate 8 CHR ''a'')\<rparr>"

definition sample_stack :: "mem \<times> mem" where
  "sample_stack = (replicate (MAX_UIDPWD + 1) CHR ''?'', replicate (MAX_UIDPWD + 1) CHR ''?'')"

definition sample_digest_client :: EST_CLIENT where
  "sample_digest_client = \<lparr>io = sample_client\<lparr>cl_auth_mode := AUTH_DIGEST, cl_realm := CHR ''r'' # replicate MAX_REALM NUL,
       s_nonce := CHR ''n'' # replicate MAX_NONCE NUL\<rparr>,
     userid = CHR ''u'' # replicate MAX_UIDPWD NUL, password = CHR ''p'' # replicate MAX_UIDPWD NUL,
     c_nonce = replicate (MAX_NONCE + 1) NUL, auth_credentials_cb = None, est_server = CHR ''h'' # replicate 255 NUL,
     est_port_num = 8085, uri_path_segment = None, cl_initialized = True, cl_enable_srp = False, client_cert = None,
     client_key = None, csr_pop_required = False, client_force_pop = False, signing_digest = 672, cl_read_timeout = 10,
     cl_brski_mode = False, ssl_verify_mode = 1, trusted_certs = [], enrolled_client_cert = None,
     server_gen_client_priv_key = None, retrieved_ca_certs = None, retrieved_csrattrs = None\<rparr>"

lemma sample_lib_ok: "lib_ok sample_lib"
  by (simp add: lib_ok_def sample_lib_def)

lemma cstr_one: "c \<noteq> NUL \<Longrightarrow> 0 < n \<Longrightarrow> cstr (c # replicate n NUL) = [c]"
  by (cases n) auto

lemma array_ok_one: "0 < n \<Longrightarrow> array_ok n (c # replicate n NUL)"
  by (simp add: array_ok_def nth_Cons')

lemma cstr_nuls [simp]: "cstr (replicate n NUL) = []"
  by (cases n) auto

lemma sample_digest_ok:
  "creds_ok sample_digest_client" "stack_ok sample_stack sample_digest_client"
  "auth_line sample_lib sample_digest_client ''/x'' = Some (digest_auth_text ''u'' ''r'' ''n'' ''/x'' ''6161616161616161''
     (est_hex_to_str (replicate 16 CHR ''m'')))"
  "credentials sample_digest_client AUTH_DIGEST = (''u'', ''p'')"
  "cstr (cl_realm (io sample_digest_client)) = ''r''" "cstr (s_nonce (io sample_digest_client)) = ''n''"
proof -
  show "creds_ok sample_digest_client"
    using replicate_array_ok [of MAX_NONCE]
    by (simp add: creds_ok_def client_ok_def sample_digest_client_def sample_client_def array_ok_one MAX_REALM_def MAX_NONCE_def
        MAX_UIDPWD_def array_ok_def MAX_TOKEN_ERROR_def MAX_TOKEN_ERROR_DESC_def)
  show "stack_ok sample_stack sample_digest_client"
    by (simp add: stack_ok_def sample_stack_def sample_digest_client_def cstr_one MAX_UIDPWD_def)
  have "est_hex_to_str (replicate 8 CHR ''a'') = ''6161616161616161''" by code_simp
  then show "auth_line sample_lib sample_digest_client ''/x'' = Some (digest_auth_text ''u'' ''r'' ''n'' ''/x'' ''6161616161616161''
     (est_hex_to_str (replicate 16 CHR ''m'')))"
    by (simp add: auth_line_def sample_digest_client_def sample_lib_def credentials_def configured_def cstr_one MAX_UIDPWD_def
        MAX_REALM_def MAX_NONCE_def digest_response_def del: replicate.simps est_hex_to_str.simps)
  show "credentials sample_digest_client AUTH_DIGEST = (''u'', ''p'')"
    by (simp add: sample_digest_client_def credentials_def configured_def cstr_one MAX_UIDPWD_def)
  show "cstr (cl_realm (io sample_digest_client)) = ''r''" "cstr (s_nonce (io sample_digest_client)) = ''n''"
    by (simp_all add: sample_digest_client_def cstr_one MAX_REALM_def MAX_NONCE_def)
qed

lemma scheme_tests:
  "mg_strncasecmp (''Digest '' @ v) ''Digest '' 7 = 0"
  "mg_strncasecmp (''Basic '' @ v) ''Digest '' 7 \<noteq> 0" "mg_strncasecmp (''Basic '' @ v) ''Basic '' 6 = 0"
  "mg_strncasecmp (''Bearer '' @ v) ''Digest '' 7 \<noteq> 0" "mg_strncasecmp (''Bearer '' @ v) ''Basic '' 6 \<noteq> 0"
  "mg_strncasecmp (''Bearer '' @ v) ''Bearer '' 7 = 0"
  by (simp_all add: mg_strncasecmp_eq_0 toupper_def uchr_def)

text \<open>What the header line of Digest authentication is made of.\<close>

lemma digest_auth_text_eq:
  "digest_auth_text u r n x c d = ''Authorization: '' @ (''Digest '' @ digest_text
     [(''username'', u), (''realm'', r), (''nonce'', n), (''uri'', x), (''cnonce'', c)]
     @ '', nc=00000001, '' @ digest_text [(''qop'', ''auth''), (''response'', d)]) @ [CR, LF]"
  by (simp add: digest_auth_text_def)

lemma server_digest_eq:
  assumes "ah_uri ah = Some x" "nonce ah = Some n" "nc ah = Some ''00000001''" "cnonce ah = Some c"
    and "NUL \<notin> set x" "length x \<le> MAX_REALM" "NUL \<notin> set n" "length n \<le> MAX_NONCE" "NUL \<notin> set c" "length c \<le> MAX_NONCE"
    and "length HA1 = 32"
  shows "est_server_generate_auth_digest H ah HA1 = digest_response H HA1 n ''00000001'' c x"
proof -
  have "opt_str MAX_REALM (ah_uri ah) = x" "opt_str MAX_NONCE (nonce ah) = n" "opt_str MAX_NONCE (cnonce ah) = c"
    "opt_str MAX_NC (nc ah) = ''00000001''" "rd_block HA1 0 32 = Some HA1"
    using assms by (simp_all add: opt_str_def cstr_id MAX_NC_def rd_block_def)
  then show ?thesis
    unfolding est_server_generate_auth_digest_def digest_response_def by (simp only: bind.simps)
qed

lemma field_okI:
  "n \<in> set [''username'', ''realm'', ''nonce'', ''uri'', ''cnonce'', ''nc'', ''qop'', ''response''] \<Longrightarrow> quotable v \<Longrightarrow> field_ok (n, v)"
  unfolding field_ok_def quotable_def fst_conv snd_conv by blast

lemma digest_hdr_read:
  assumes "quotable u" "quotable r" "quotable n" "quotable x" "quotable c" "quotable d"
    and "length u \<le> 255" "length n \<le> 64" "length x \<le> 255" "length c \<le> 64" "length d \<le> 64"
    and "v = ''Digest '' @ digest_text [(''username'', u), (''realm'', r), (''nonce'', n), (''uri'', x), (''cnonce'', c)]
     @ '', nc=00000001, '' @ digest_text [(''qop'', ''auth''), (''response'', d)]" and "length v \<le> 386"
  shows "mg_parse_auth_hdr_digest v est_create_ah =
    Some \<lparr>mode = AUTH_DIGEST, user = Some u, pwd = None, ah_uri = Some x, cnonce = Some c, qop = Some ''auth'',
      nc = Some ''00000001'', nonce = Some n, response = Some d, auth_token = None\<rparr>"
proof -
  let ?fs = "[(''username'', u), (''realm'', r), (''nonce'', n), (''uri'', x), (''cnonce'', c)]"
  let ?gs = "[(''qop'', ''auth''), (''response'', d)]"
  have ok: "list_all field_ok ?fs" "list_all field_ok ?gs"
    using assms(1-6) by (simp_all add: field_okI) (intro field_okI, simp_all add: quotable_def)
  have "length (digest_text ?fs @ '', nc=00000001, '' @ digest_text ?gs) \<le> 379"
    using assms(13) unfolding assms(12) by simp
  from mg_parse_auth_hdr_digest_nc [OF _ ok(1) _ ok(2) this, of est_create_ah] show ?thesis
    using assms(7-11) unfolding assms(12) by (simp add: apply_field_def est_create_ah_def)
qed

section \<open>Properties\<close>

text \<open>for a context whose arrays are terminated, \<^verbatim>\<open>est_client_add_auth_hdr\<close> stays inside its buffers and
  appends to the request exactly the line the authentication mode asks for (cut at the end of the buffer), or
  clears the request when the random generator or the digest fails; the context keeps its invariant, and nothing
  but the client nonce, which is cleared, changes in it.\<close>

theorem est_client_add_auth_hdr_text:
  assumes "creds_ok ctx" and "stack_ok stack ctx" and "lib_ok lib" and "buf_text hdr t"
    and "NUL \<notin> set uri_text" and "length uri_text \<le> MAX_REALM"
  shows "\<exists>ctx' hdr'. est_client_add_auth_hdr lib stack ctx hdr uri_text = Some (ctx', hdr') \<and> creds_ok ctx'
    \<and> (ctx' = ctx \<or> ctx' = ctx\<lparr>c_nonce := replicate (MAX_NONCE + 1) NUL\<rparr>)
    \<and> buf_text hdr' (case auth_line lib ctx uri_text of None \<Rightarrow> [] | Some h \<Rightarrow> take (EST_HTTP_REQ_TOTAL_LEN - 1) (t @ h))"
  by (rule add_auth_hdr_text [OF assms])

theorem est_client_add_auth_hdr_text_witness:
  "\<exists>ctx' hdr'. est_client_add_auth_hdr sample_lib sample_stack sample_digest_client
      (''POST '' @ replicate 5120 NUL) ''/x'' = Some (ctx', hdr')
    \<and> buf_text hdr' (''POST '' @ digest_auth_text ''u'' ''r'' ''n'' ''/x'' ''6161616161616161'' (est_hex_to_str (replicate 16 CHR ''m'')))"
proof -
  have b: "buf_text (''POST '' @ replicate 5120 NUL) ''POST ''"
  proof -
    have "''POST '' @ replicate 5120 NUL = ''POST '' @ NUL # replicate 5119 NUL"
      by (simp add: numeral_eq_Suc)
    then show ?thesis by (intro buf_textI) (simp_all add: EST_HTTP_REQ_TOTAL_LEN_def)
  qed
  show ?thesis
    using est_client_add_auth_hdr_text [OF sample_digest_ok(1,2) sample_lib_ok b, of "''/x''"]
    unfolding sample_digest_ok(3) by (auto simp: MAX_REALM_def EST_HTTP_REQ_TOTAL_LEN_def digest_auth_text_def)
qed



definition auth_connection :: "string \<Rightarrow> mg_connection" where
  "auth_connection v = \<lparr>request_info = \<lparr>request_method = None, uri = None, http_version = None, query_string = None,
        http_headers = [(''Authorization'', v)]\<rparr>,
      must_close = False, status_code = 0, enable_keepalives = False, content_len = 0, request_len = 0,
      data_len = 0, conn_buf = [], user_id = []\<rparr>"

lemma auth_connection_header: "mg_get_header (auth_connection v) ''Authorization'' = Some v"
proof -
  have "mg_strcasecmp ''Authorization'' ''Authorization'' = 0" by code_simp
  then show ?thesis by (simp add: auth_connection_def mg_get_header_def get_header_def)
qed





end
