(* ===== verification/Multipart.thy ===== *)
theory Multipart
  imports Http_Client
begin

text \<open>
  The multipart parser \<^verbatim>\<open>src/src/est/multipart_parser.c\<close> and its use by the client for the response to a
  server-side key generation (\<^verbatim>\<open>src/src/est/est_client_http.c\<close>). The parser is a state machine over the
  bytes of the body that reports header names, header values and part data to callbacks. A result \<^term>\<open>None\<close>
  is behaviour the C program does not define: an access outside an array or the buffer, or a comparison that
  reads a byte that was never written. Memory from \<^verbatim>\<open>malloc\<close> and \<^verbatim>\<open>strndup\<close>-like copies is available.
\<close>

section \<open>The parser\<close>

datatype multipart_state =
    s_uninitialized | s_start | s_start_boundary | s_header_field_start | s_header_field
  | s_headers_almost_done | s_header_value_start | s_header_value | s_header_value_almost_done
  | s_part_data_start | s_part_data | s_part_data_almost_boundary | s_part_data_boundary
  | s_part_data_almost_end | s_part_data_end | s_part_data_final_hyphen | s_end

definition MULTIPART_PARSE_DATA_MAX :: nat where "MULTIPART_PARSE_DATA_MAX = 8192"

text \<open>
  \<open>hdrs\<close> are the \<^verbatim>\<open>MAX_HEADERS\<close> pairs of pointers to copies of a name and a value. A name is terminated; a
  value is not. \<open>key_data\<close> and \<open>cert_data\<close> are the bytes that are set of the arrays.
\<close>

record multipart_parser =
  mp_index :: nat
  boundary_length :: nat
  mp_state :: multipart_state
  num_headers :: nat
  hdrs :: "(string option \<times> string option) list"
  lookbehind :: mem
  multipart_boundary :: mem
  key_data :: string
  cert_data :: string
  expected_payloads :: nat

text \<open>A callback gets the parser and the reported bytes and returns its result and the parser.\<close>

record multipart_parser_settings =
  on_header_field :: "(multipart_parser \<Rightarrow> string \<Rightarrow> (int \<times> multipart_parser) option) option"
  on_header_value :: "(multipart_parser \<Rightarrow> string \<Rightarrow> (int \<times> multipart_parser) option) option"
  on_part_data :: "(multipart_parser \<Rightarrow> string \<Rightarrow> (int \<times> multipart_parser) option) option"
  on_part_data_begin :: "(multipart_parser \<Rightarrow> (int \<times> multipart_parser) option) option"
  on_headers_complete :: "(multipart_parser \<Rightarrow> (int \<times> multipart_parser) option) option"
  on_part_data_end :: "(multipart_parser \<Rightarrow> (int \<times> multipart_parser) option) option"
  on_body_end :: "(multipart_parser \<Rightarrow> (int \<times> multipart_parser) option) option"

text \<open>\<^verbatim>\<open>strcpy\<close> of the boundary into an array of 70 bytes.\<close>

definition multipart_parser_init :: "string \<Rightarrow> multipart_parser option" where
  "multipart_parser_init boundary =
     do { b \<leftarrow> wr_block (replicate 70 NUL) 0 (cstr boundary @ [NUL]);
          Some \<lparr>mp_index = 0, boundary_length = length (cstr boundary), mp_state = s_start, num_headers = 0,
            hdrs = replicate MAX_HEADERS (None, None), lookbehind = replicate 70 NUL, multipart_boundary = b,
            key_data = [], cert_data = [], expected_payloads = 2\<rparr> }"

definition multipart_parser_set_hdr_name :: "multipart_parser \<Rightarrow> string \<Rightarrow> multipart_parser option" where
  "multipart_parser_set_hdr_name p name =
     (if num_headers p < MAX_HEADERS
      then Some (p\<lparr>hdrs := (hdrs p)[num_headers p := (Some name, snd (hdrs p ! num_headers p))]\<rparr>) else None)"

text \<open>
  \<^verbatim>\<open>strncmp(value, kw, n)\<close> where \<open>n\<close> is the length of \<open>kw\<close> and the value has no terminator: defined when a byte of
  the value differs or all of \<open>kw\<close> is compared.
\<close>

definition value_is :: "string \<Rightarrow> string \<Rightarrow> bool option" where
  "value_is kw v =
     (if length kw \<le> length v then Some (take (length kw) v = kw)
      else if take (length v) kw = v then None else Some False)"

definition hdr_value_ok :: "string \<Rightarrow> string \<Rightarrow> bool option" where
  "hdr_value_ok name v =
     (if strncmp name ''Content-Type'' 12 = 0 then
        do { k \<leftarrow> value_is ''application/pkcs8'' v;
             if k then Some True else value_is ''application/pkcs7-mime; smime-type=certs-only'' v }
      else if strncmp name ''Content-Transfer-Encoding'' 25 = 0 then value_is ''base64'' v
      else Some False)"

definition multipart_parser_set_hdr_value :: "multipart_parser \<Rightarrow> string \<Rightarrow> (int \<times> multipart_parser) option" where
  "multipart_parser_set_hdr_value p v =
     (if num_headers p < MAX_HEADERS then
        do { name \<leftarrow> fst (hdrs p ! num_headers p);
             good \<leftarrow> hdr_value_ok name v;
             if good then
               Some (1, p\<lparr>hdrs := (hdrs p)[num_headers p := (Some name, Some v)], num_headers := num_headers p + 1\<rparr>)
             else Some (- 1, p\<lparr>hdrs := (hdrs p)[num_headers p := (None, snd (hdrs p ! num_headers p))]\<rparr>) }
      else None)"

definition multipart_reset_hdrs :: "multipart_parser \<Rightarrow> multipart_parser" where
  "multipart_reset_hdrs p = p\<lparr>num_headers := 0\<rparr>"

text \<open>
  \<^verbatim>\<open>multipart_get_data_ct\<close> and \<^verbatim>\<open>multipart_get_data_cte\<close>: the value of the last header with the name. The inner
  option is the pointer they return.
\<close>

fun find_hdr :: "string \<Rightarrow> (string option \<times> string option) list \<Rightarrow> nat \<Rightarrow> string option option" where
  "find_hdr kw hs 0 = Some None"
| "find_hdr kw hs (Suc n) =
     (if n < length hs then
        do { name \<leftarrow> fst (hs ! n);
             if strncmp name kw (length kw) = 0 then Some (snd (hs ! n)) else find_hdr kw hs n }
      else None)"

definition multipart_get_data_ct :: "multipart_parser \<Rightarrow> string option option" where
  "multipart_get_data_ct p = find_hdr ''Content-Type'' (hdrs p) (num_headers p)"

definition multipart_get_data_cte :: "multipart_parser \<Rightarrow> string option option" where
  "multipart_get_data_cte p = find_hdr ''Content-Transfer-Encoding'' (hdrs p) (num_headers p)"

definition multipart_set_key_data :: "multipart_parser \<Rightarrow> string \<Rightarrow> multipart_parser option" where
  "multipart_set_key_data p data = (if length data \<le> MULTIPART_PARSE_DATA_MAX then Some (p\<lparr>key_data := data\<rparr>) else None)"

definition multipart_set_cert_data :: "multipart_parser \<Rightarrow> string \<Rightarrow> multipart_parser option" where
  "multipart_set_cert_data p data = (if length data \<le> MULTIPART_PARSE_DATA_MAX then Some (p\<lparr>cert_data := data\<rparr>) else None)"

definition multipart_parser_both_key_and_cert_populated :: "multipart_parser \<Rightarrow> bool" where
  "multipart_parser_both_key_and_cert_populated p \<longleftrightarrow> cert_data p \<noteq> [] \<and> key_data p \<noteq> []"

section \<open>The state machine\<close>

text \<open>
  The variables of \<^verbatim>\<open>multipart_parser_execute\<close>. A step ends with \<open>Return n p\<close> when the function returns and with
  \<open>Next p l\<close> when the loop goes on, \<open>l\<close> being the variables after \<^verbatim>\<open>++i\<close>.
\<close>

record mp_locals =
  mp_i :: nat
  mp_mark :: nat
  seen_headers :: bool
  seen_hdr_delimiter :: bool
  num_payloads :: nat

datatype mp_result = Return nat multipart_parser | Next multipart_parser mp_locals

definition adv :: "nat \<Rightarrow> multipart_parser \<Rightarrow> mp_locals \<Rightarrow> mp_result option" where
  "adv n p l = Some (Next p (l\<lparr>mp_i := mp_i l + n\<rparr>))"

definition stop :: "multipart_parser \<Rightarrow> mp_locals \<Rightarrow> mp_result option" where
  "stop p l = Some (Return (mp_i l) p)"

text \<open>\<^verbatim>\<open>NOTIFY_CB\<close> and \<^verbatim>\<open>EMIT_DATA_CB\<close>; the rest of the step is the last argument.\<close>

definition NOTIFY_CB ::
  "(multipart_parser \<Rightarrow> (int \<times> multipart_parser) option) option \<Rightarrow> multipart_parser \<Rightarrow> mp_locals
     \<Rightarrow> (multipart_parser \<Rightarrow> mp_result option) \<Rightarrow> mp_result option" where
  "NOTIFY_CB cb p l k =
     (case cb of None \<Rightarrow> k p | Some f \<Rightarrow> do { (r, p') \<leftarrow> f p; if r \<noteq> 0 then stop p' l else k p' })"

definition EMIT_DATA_CB ::
  "(multipart_parser \<Rightarrow> string \<Rightarrow> (int \<times> multipart_parser) option) option \<Rightarrow> multipart_parser \<Rightarrow> mp_locals \<Rightarrow> string option
     \<Rightarrow> (multipart_parser \<Rightarrow> mp_result option) \<Rightarrow> mp_result option" where
  "EMIT_DATA_CB cb p l bytes k =
     (case cb of None \<Rightarrow> k p
      | Some f \<Rightarrow> do { bs \<leftarrow> bytes; (r, p') \<leftarrow> f p bs; if r \<noteq> 0 then stop p' l else k p' })"

definition mp_start_boundary ::
  "multipart_parser_settings \<Rightarrow> char \<Rightarrow> multipart_parser \<Rightarrow> mp_locals \<Rightarrow> mp_result option" where
  "mp_start_boundary s c p l =
     (if mp_index p = boundary_length p then
        (if c \<noteq> CR then
           if c = CHR ''-'' then adv 1 (p\<lparr>mp_state := s_part_data_final_hyphen, mp_index := mp_index p + 1\<rparr>) l else stop p l
         else adv 1 (p\<lparr>mp_index := mp_index p + 1\<rparr>) l)
      else if mp_index p = boundary_length p + 1 then
        (if c \<noteq> LF then stop p l
         else NOTIFY_CB (on_part_data_begin s) (p\<lparr>mp_index := 0\<rparr>) l
                (\<lambda>p. adv 1 (p\<lparr>mp_state := s_header_field_start\<rparr>) (l\<lparr>seen_headers := False\<rparr>)))
      else adv 1 (p\<lparr>mp_index := mp_index p + 1\<rparr>) l)"

definition mp_header_field ::
  "multipart_parser_settings \<Rightarrow> mem \<Rightarrow> bool \<Rightarrow> char \<Rightarrow> multipart_parser \<Rightarrow> mp_locals \<Rightarrow> mp_result option" where
  "mp_header_field s buf is_last c p l =
     (if c = CR then adv 1 (p\<lparr>mp_state := s_headers_almost_done\<rparr>) l
      else if c = CHR '':'' then
        (let l' = l\<lparr>seen_headers := True, seen_hdr_delimiter := True\<rparr> in
         EMIT_DATA_CB (on_header_field s) p l' (rd_block buf (mp_mark l) (mp_i l - mp_mark l))
           (\<lambda>p. adv 1 (p\<lparr>mp_state := s_header_value_start\<rparr>) l'))
      else if mp_i l - mp_mark l > 63 \<and> \<not> seen_hdr_delimiter l then Some (Return 0 p)
      else if c \<noteq> CHR ''-'' \<and> (uchr (tolower c) < 97 \<or> uchr (tolower c) > 122) then stop p l
      else if is_last then
        EMIT_DATA_CB (on_header_field s) p l (rd_block buf (mp_mark l) (mp_i l - mp_mark l + 1)) (\<lambda>p. adv 1 p l)
      else adv 1 p l)"

definition mp_header_value ::
  "multipart_parser_settings \<Rightarrow> mem \<Rightarrow> bool \<Rightarrow> char \<Rightarrow> multipart_parser \<Rightarrow> mp_locals \<Rightarrow> mp_result option" where
  "mp_header_value s buf is_last c p l0 =
     (let l = l0\<lparr>seen_hdr_delimiter := False\<rparr> in
      if c = CR then
        EMIT_DATA_CB (on_header_value s) p l (rd_block buf (mp_mark l) (mp_i l - mp_mark l))
          (\<lambda>p. adv 1 (p\<lparr>mp_state := s_header_value_almost_done\<rparr>) l)
      else if is_last then
        EMIT_DATA_CB (on_header_value s) p l (rd_block buf (mp_mark l) (mp_i l - mp_mark l + 1)) (\<lambda>p. adv 1 p l)
      else adv 1 p l)"

text \<open>The test for a boundary looks at the two bytes behind a CR; the second one only when the first is no hyphen.\<close>

definition mp_part_data ::
  "multipart_parser_settings \<Rightarrow> mem \<Rightarrow> bool \<Rightarrow> char \<Rightarrow> multipart_parser \<Rightarrow> mp_locals \<Rightarrow> mp_result option" where
  "mp_part_data s buf is_last c p l =
     (let data = (if is_last then
                    EMIT_DATA_CB (on_part_data s) p l (rd_block buf (mp_mark l) (mp_i l - mp_mark l + 1)) (\<lambda>p. adv 1 p l)
                  else adv 1 p l) in
      if c = CR then
        do { c1 \<leftarrow> rd buf (mp_i l + 1);
             hyphen \<leftarrow> (if c1 = CHR ''-'' then Some True
                       else do { c2 \<leftarrow> rd buf (mp_i l + 2); Some (c2 = CHR ''-'') });
             if hyphen then
               (let l' = l\<lparr>num_payloads := num_payloads l + 1\<rparr> in
                EMIT_DATA_CB (on_part_data s) p l' (rd_block buf (mp_mark l) (mp_i l - mp_mark l))
                  (\<lambda>p. do { b \<leftarrow> wr (lookbehind p) 0 CR;
                            adv 1 (p\<lparr>mp_state := s_part_data_almost_boundary, lookbehind := b\<rparr>) (l'\<lparr>mp_mark := mp_i l\<rparr>) }))
             else data }
      else data)"

text \<open>In the two states that look for a boundary \<^verbatim>\<open>i --\<close> undoes the \<^verbatim>\<open>++i\<close> of the loop.\<close>

definition mp_step ::
  "multipart_parser_settings \<Rightarrow> mem \<Rightarrow> nat \<Rightarrow> multipart_parser \<Rightarrow> mp_locals \<Rightarrow> mp_result option" where
  "mp_step s buf len p l =
     do { c \<leftarrow> rd buf (mp_i l);
          let is_last = (mp_i l = len - 1) in
          case mp_state p of
            s_uninitialized \<Rightarrow> Some (Return 0 p)
          | s_start \<Rightarrow> mp_start_boundary s c (p\<lparr>mp_index := 0, mp_state := s_start_boundary\<rparr>) l
          | s_start_boundary \<Rightarrow> mp_start_boundary s c p l
          | s_header_field_start \<Rightarrow>
              mp_header_field s buf is_last c (p\<lparr>mp_state := s_header_field\<rparr>) (l\<lparr>mp_mark := mp_i l\<rparr>)
          | s_header_field \<Rightarrow> mp_header_field s buf is_last c p l
          | s_headers_almost_done \<Rightarrow>
              if c \<noteq> LF then stop p l
              else adv 1 (p\<lparr>mp_state := if seen_headers l then s_part_data_start else s_header_field_start\<rparr>) l
          | s_header_value_start \<Rightarrow>
              if c = CHR '' '' then adv 1 p l
              else mp_header_value s buf is_last c (p\<lparr>mp_state := s_header_value\<rparr>) (l\<lparr>mp_mark := mp_i l\<rparr>)
          | s_header_value \<Rightarrow> mp_header_value s buf is_last c p l
          | s_header_value_almost_done \<Rightarrow>
              if c \<noteq> LF then stop p l
              else do { c1 \<leftarrow> rd buf (mp_i l + 1);
                        if c1 = CHR ''-'' then adv 3 (p\<lparr>mp_state := s_start_boundary\<rparr>) l
                        else adv 1 (p\<lparr>mp_state := s_header_field_start\<rparr>) l }
          | s_part_data_start \<Rightarrow>
              NOTIFY_CB (on_headers_complete s) p l
                (\<lambda>p. mp_part_data s buf is_last c (p\<lparr>mp_state := s_part_data\<rparr>) (l\<lparr>mp_mark := mp_i l\<rparr>))
          | s_part_data \<Rightarrow> mp_part_data s buf is_last c p l
          | s_part_data_almost_boundary \<Rightarrow>
              if c = LF then
                do { b \<leftarrow> wr (lookbehind p) 1 LF;
                     adv 3 (p\<lparr>mp_state := if num_payloads l = expected_payloads p then s_part_data_boundary else s_start_boundary,
                              lookbehind := b, mp_index := 0\<rparr>) l }
              else EMIT_DATA_CB (on_part_data s) p l (rd_block (lookbehind p) 0 1)
                     (\<lambda>p. adv 0 (p\<lparr>mp_state := s_part_data\<rparr>) (l\<lparr>mp_mark := mp_i l\<rparr>))
          | s_part_data_boundary \<Rightarrow>
              do { b \<leftarrow> rd (multipart_boundary p) (mp_index p);
                   if b \<noteq> c then
                     EMIT_DATA_CB (on_part_data s) p l (rd_block (lookbehind p) 0 (2 + mp_index p))
                       (\<lambda>p. adv 0 (p\<lparr>mp_state := s_header_field_start\<rparr>) (l\<lparr>mp_mark := mp_i l\<rparr>))
                   else
                     do { lb \<leftarrow> wr (lookbehind p) (2 + mp_index p) c;
                          let p1 = p\<lparr>lookbehind := lb, mp_index := mp_index p + 1\<rparr> in
                          if mp_index p1 = boundary_length p1 then
                            NOTIFY_CB (on_part_data_end s) p1 l (\<lambda>p. adv 1 (p\<lparr>mp_state := s_part_data_almost_end\<rparr>) l)
                          else adv 1 p1 l } }
          | s_part_data_almost_end \<Rightarrow>
              if c = CHR ''-'' then adv 1 (p\<lparr>mp_state := s_part_data_final_hyphen\<rparr>) l
              else if c = CR then adv 1 (p\<lparr>mp_state := s_part_data_end\<rparr>) l
              else stop p l
          | s_part_data_final_hyphen \<Rightarrow>
              if c = CHR ''-'' then NOTIFY_CB (on_body_end s) p l (\<lambda>p. adv 1 (p\<lparr>mp_state := s_end\<rparr>) l) else stop p l
          | s_part_data_end \<Rightarrow>
              if c = LF then NOTIFY_CB (on_part_data_begin s) (p\<lparr>mp_state := s_header_field_start\<rparr>) l (\<lambda>p. adv 1 p l)
              else stop p l
          | s_end \<Rightarrow> adv 1 p l }"

text \<open>
  The loop ends whatever the callbacks do to the parser: a step that leaves \<^verbatim>\<open>i\<close> as it is leaves the two states
  that look for a boundary.
\<close>

definition looks_for_boundary :: "multipart_parser \<Rightarrow> bool" where
  "looks_for_boundary p \<longleftrightarrow> mp_state p \<in> {s_part_data_almost_boundary, s_part_data_boundary}"

definition mp_measure :: "nat \<Rightarrow> multipart_parser \<Rightarrow> mp_locals \<Rightarrow> nat" where
  "mp_measure len p l = 2 * (len - mp_i l) + (if looks_for_boundary p then 1 else 0)"

definition mp_moves :: "multipart_parser \<Rightarrow> mp_locals \<Rightarrow> mp_result option \<Rightarrow> bool" where
  "mp_moves p l r \<longleftrightarrow>
     (\<forall>p' l'. r = Some (Next p' l') \<longrightarrow> mp_i l < mp_i l' \<or> mp_i l' = mp_i l \<and> looks_for_boundary p \<and> \<not> looks_for_boundary p')"

lemma mp_moves_simps [simp]:
  "mp_moves p l None" "mp_moves p l (Some (Return n p'))" "mp_moves p l (stop p' l')"
  "mp_i l0 = mp_i l \<Longrightarrow> 0 < n \<Longrightarrow> mp_moves p l (adv n p' l0)"
  by (simp_all add: mp_moves_def stop_def adv_def)

lemma mp_moves_bind [simp]: "(\<And>x. mp_moves p l (f x)) \<Longrightarrow> mp_moves p l (Option.bind m f)"
  by (cases m) simp_all

lemma mp_moves_cb [simp]:
  "(\<And>p'. mp_moves p l (k p')) \<Longrightarrow> mp_moves p l (NOTIFY_CB ncb p0 l0 k)"
  "(\<And>p'. mp_moves p l (k p')) \<Longrightarrow> mp_moves p l (EMIT_DATA_CB cb p0 l0 bytes k)"
  by (auto simp: NOTIFY_CB_def EMIT_DATA_CB_def split: option.splits prod.splits intro!: mp_moves_bind)

lemma mp_moves_parts [simp]:
  "mp_i l0 = mp_i l \<Longrightarrow> mp_moves p l (mp_start_boundary s c p0 l0)"
  "mp_i l0 = mp_i l \<Longrightarrow> mp_moves p l (mp_header_field s buf is_last c p0 l0)"
  "mp_i l0 = mp_i l \<Longrightarrow> mp_moves p l (mp_header_value s buf is_last c p0 l0)"
  "mp_i l0 = mp_i l \<Longrightarrow> mp_moves p l (mp_part_data s buf is_last c p0 l0)"
  by (simp_all add: mp_start_boundary_def mp_header_field_def mp_header_value_def mp_part_data_def Let_def split: if_splits)

lemma mp_step_moves: "mp_moves p l (mp_step s buf len p l)"
proof -
  have stay: "looks_for_boundary p \<Longrightarrow> st \<notin> {s_part_data_almost_boundary, s_part_data_boundary} \<Longrightarrow>
      mp_moves p l (adv 0 (p'\<lparr>mp_state := st\<rparr>) (l\<lparr>mp_mark := k\<rparr>))" for p' st k
    by (simp add: mp_moves_def adv_def looks_for_boundary_def)
  show ?thesis
    unfolding mp_step_def Let_def
    by (cases "mp_state p") (auto simp: looks_for_boundary_def intro!: mp_moves_bind mp_moves_cb(2) stay)
qed

function mp_loop ::
  "multipart_parser_settings \<Rightarrow> mem \<Rightarrow> nat \<Rightarrow> multipart_parser \<Rightarrow> mp_locals \<Rightarrow> (nat \<times> multipart_parser) option" where
  "mp_loop s buf len p l =
     (if mp_i l < len then
        (case mp_step s buf len p l of
           None \<Rightarrow> None
         | Some (Return n p') \<Rightarrow> Some (n, p')
         | Some (Next p' l') \<Rightarrow> mp_loop s buf len p' l')
      else Some (len, p))"
  by pat_completeness auto
termination
proof (relation "measure (\<lambda>(s, buf, len, p, l). mp_measure len p l)")
  fix s buf len p l x p' l'
  assume "mp_i l < len" "mp_step s buf len p l = Some x" "x = Next p' l'"
  with mp_step_moves [of p l s buf len]
  show "((s, buf, len, p', l'), (s, buf, len, p, l)) \<in> measure (\<lambda>(s, buf, len, p, l). mp_measure len p l)"
    by (auto simp: mp_moves_def mp_measure_def)
qed simp

declare mp_loop.simps [simp del]

text \<open>The hyphens in front are skipped, but \<^verbatim>\<open>len\<close> stays the length from the first of them.\<close>

definition multipart_parser_execute ::
  "multipart_parser_settings \<Rightarrow> multipart_parser \<Rightarrow> mem \<Rightarrow> nat \<Rightarrow> (nat \<times> multipart_parser) option" where
  "multipart_parser_execute s p buf len =
     (let rest = dropWhile (\<lambda>c. c = CHR ''-'') buf in
      if rest = [] then None
      else mp_loop s rest len p \<lparr>mp_i = 0, mp_mark = 0, seen_headers = False, seen_hdr_delimiter = False, num_payloads = 0\<rparr>)"

section \<open>The callbacks of the client\<close>

definition read_header_name :: "multipart_parser \<Rightarrow> string \<Rightarrow> (int \<times> multipart_parser) option" where
  "read_header_name p bs = map_option (Pair 0) (multipart_parser_set_hdr_name p bs)"

definition read_header_value :: "multipart_parser \<Rightarrow> string \<Rightarrow> (int \<times> multipart_parser) option" where
  "read_header_value p bs = do { (_, p') \<leftarrow> multipart_parser_set_hdr_value p bs; Some (0, p') }"

definition only_whitespace :: "string \<Rightarrow> bool" where
  "only_whitespace bs \<longleftrightarrow> list_all (\<lambda>c. c = CHR '' '' \<or> c = CR \<or> c = LF) bs"

text \<open>The end of the callback, after the type of the part is known.\<close>

definition store_part :: "bool \<Rightarrow> bool \<Rightarrow> multipart_parser \<Rightarrow> string \<Rightarrow> (int \<times> multipart_parser) option" where
  "store_part is_key is_cert p bs =
     (if (is_key \<or> is_cert) \<and> only_whitespace bs then Some (- 1, p)
      else do { p1 \<leftarrow> (if is_key then multipart_set_key_data p bs
                       else if is_cert then multipart_set_cert_data p bs else Some p);
                if multipart_parser_both_key_and_cert_populated p1 then Some (1, p1)
                else Some (0, multipart_reset_hdrs p1) })"

definition part_data_cb :: "multipart_parser \<Rightarrow> string \<Rightarrow> (int \<times> multipart_parser) option" where
  "part_data_cb p bs =
     do { ct \<leftarrow> multipart_get_data_ct p;
          cte \<leftarrow> multipart_get_data_cte p;
          case (ct, cte) of
            (Some ct, Some cte) \<Rightarrow>
              do { b64 \<leftarrow> value_is ''base64'' cte;
                   if \<not> b64 then Some (0, p)
                   else if length bs > MULTIPART_PARSE_DATA_MAX then Some (- 1, p)
                   else do {
                     is_key \<leftarrow> value_is ''application/pkcs8'' ct;
                     is_cert \<leftarrow> (if is_key then Some False else value_is ''application/pkcs7-mime; smime-type=certs-only'' ct);
                     store_part is_key is_cert p bs } }
          | _ \<Rightarrow> Some (0, p) }"

definition client_callbacks :: multipart_parser_settings where
  "client_callbacks = \<lparr>on_header_field = Some read_header_name, on_header_value = Some read_header_value,
     on_part_data = Some part_data_cb, on_part_data_begin = None, on_headers_complete = None,
     on_part_data_end = None, on_body_end = None\<rparr>"

text \<open>The error, the key and the certificate; \<^verbatim>\<open>strlen\<close> needs a terminator behind \<open>buf\<close>.\<close>

definition parse_remaining_multipart_payload :: "mem \<Rightarrow> string \<Rightarrow> (EST_ERROR \<times> string \<times> string) option" where
  "parse_remaining_multipart_payload buf boundary =
     (if NUL \<notin> set buf then None
      else do { parser \<leftarrow> multipart_parser_init boundary;
                (parsed, p) \<leftarrow> multipart_parser_execute client_callbacks parser buf (length (cstr buf));
                let rv = (if \<not> multipart_parser_both_key_and_cert_populated p then
                            if parsed < length (cstr buf) then EST_ERR_MULTIPART_PARSE else EST_ERR_ZERO_LENGTH_BUF
                          else EST_ERR_NONE) in
                Some (rv, key_data p, cert_data p) })"

section \<open>The boundary in the headers\<close>

definition MAX_MULTI_BOUNDARY_LEN :: nat where "MAX_MULTI_BOUNDARY_LEN = 70"

text \<open>Addresses that the code computes by subtraction.\<close>

definition rdi :: "mem \<Rightarrow> int \<Rightarrow> char option" where
  "rdi m a = (if a < 0 then None else rd m (nat a))"

definition wri :: "mem \<Rightarrow> int \<Rightarrow> char \<Rightarrow> mem option" where
  "wri m a c = (if a < 0 then None else wr m (nat a) c)"

definition validate_boundary_string :: "string \<Rightarrow> bool" where
  "validate_boundary_string b \<longleftrightarrow>
     list_all (\<lambda>c. (43 \<le> uchr c \<and> uchr c \<le> 58) \<or> (65 \<le> uchr c \<and> uchr c \<le> 90) \<or> (97 \<le> uchr c \<and> uchr c \<le> 122)
       \<or> (39 \<le> uchr c \<and> uchr c \<le> 41) \<or> c = CHR ''_'' \<or> c = CHR ''='' \<or> c = CHR ''?'' \<or> c = CHR '' '') b"

definition cut_semicolon :: "mem \<Rightarrow> nat \<Rightarrow> nat \<Rightarrow> (mem \<times> nat) option" where
  "cut_semicolon m b n =
     do { s \<leftarrow> rd_block m b n;
          let k = length (takeWhile (\<lambda>c. c \<noteq> CHR '';'') s) in
          if k < n then Some (m[b + k := NUL], k) else Some (m, n) }"

text \<open>Trailing blanks; the test reads in front of the string when all of it is blank.\<close>

function trim_blanks :: "mem \<Rightarrow> nat \<Rightarrow> int \<Rightarrow> (mem \<times> int) option" where
  "trim_blanks m b n =
     (case rdi m (int b + n - 1) of
        None \<Rightarrow> None
      | Some c \<Rightarrow> if c = CHR '' '' then trim_blanks (m[nat (int b + n - 1) := NUL]) b (n - 1) else Some (m, n))"
  by pat_completeness auto
termination
  by (relation "measure (\<lambda>(m, b, n). nat (int b + n))") (auto simp: rdi_def split: if_splits)

declare trim_blanks.simps [simp del]

definition sanitize_boundary :: "mem \<Rightarrow> nat \<Rightarrow> nat \<Rightarrow> (mem \<times> int) option" where
  "sanitize_boundary m b bound_len =
     do { (m1, n1) \<leftarrow> cut_semicolon m b bound_len;
          if n1 < 1 then Some (m1, int n1)
          else do {
            (m2, n2) \<leftarrow> trim_blanks m1 b (int n1);
            if n2 < 1 then Some (m2, n2)
            else do {
              c0 \<leftarrow> rd m2 b;
              c1 \<leftarrow> rdi m2 (int b + n2 - 1);
              (m3, n3) \<leftarrow> (if c0 = DQUOTE \<and> c1 = DQUOTE then
                            do { m' \<leftarrow> wr_block m2 b (take (nat n2 - 1) (drop (b + 1) m2));
                                 m'' \<leftarrow> wri m' (int b + n2 - 2) NUL;
                                 Some (m'', n2 - 2) }
                          else Some (m2, n2));
              if n3 < 1 then Some (m3, n3)
              else do {
                c \<leftarrow> rdi m3 (int b + n3 - 1);
                if c = CHR '';'' then do { m4 \<leftarrow> wri m3 (int b + n3 - 1) NUL; Some (m4, n3 - 1) }
                else Some (m3, n3) } } } }"

function skip_newlines :: "mem \<Rightarrow> nat \<Rightarrow> nat option" where
  "skip_newlines m p = (case rd m p of None \<Rightarrow> None | Some c \<Rightarrow> if c = LF then skip_newlines m (p + 1) else Some p)"
  by pat_completeness auto
termination
  by (relation "measure (\<lambda>(m, p). length m - p)") (auto simp: rd_def split: if_splits)

declare skip_newlines.simps [simp del]

definition parse_single_header :: "mem \<Rightarrow> nat \<Rightarrow> (mem \<times> nat \<times> nat \<times> nat) option" where
  "parse_single_header m p =
     do { q \<leftarrow> skip_newlines m p;
          (m1, p1, name) \<leftarrow> skip_quoted m q '':'' '' '' NUL;
          (m2, p2, val) \<leftarrow> skip m1 p1 CRLF;
          Some (m2, p2, name, val) }"

text \<open>
  What the value of one header says about the boundary: the memory and the address of the boundary, or
  \<^term>\<open>None\<close> inside when the response is refused.
\<close>

definition header_boundary :: "mem \<Rightarrow> nat \<Rightarrow> nat option \<Rightarrow> (mem \<times> nat option) option option" where
  "header_boundary m val boundary =
     (let v = drop val m; current_len = strnlen_s (Some v) RSIZE_MAX_STR in
      case strstr_s v current_len ''multipart'' 9 of
        (EOK, Some _) \<Rightarrow>
          (case strstr_s v current_len ''multipart/mixed'' 15 of
             (EOK, Some _) \<Rightarrow>
               (case snd (strstr_s v (current_len + 1) ''boundary='' 10) of
                  None \<Rightarrow> Some None
                | Some k \<Rightarrow>
                    do { (m1, _, b) \<leftarrow> skip m (val + k + 9) [LF];
                         (m2, bound_len) \<leftarrow> sanitize_boundary m1 b (strnlen_s (Some (drop b m1)) (MAX_MULTI_BOUNDARY_LEN + 2));
                         if bound_len > int MAX_MULTI_BOUNDARY_LEN then Some None
                         else if bound_len \<le> 0 then Some None
                         else if \<not> validate_boundary_string (take (nat bound_len) (drop b m2)) then Some None
                         else Some (Some (m2, Some b)) })
           | _ \<Rightarrow> Some None)
      | _ \<Rightarrow> Some (Some (m, boundary)))"

fun split_loop ::
  "nat option \<Rightarrow> nat \<Rightarrow> mem \<Rightarrow> nat \<Rightarrow> nat option \<Rightarrow> (mem \<times> nat \<times> (nat \<times> nat) list \<times> nat option) option option" where
  "split_loop hdr_end 0 m p boundary = Some (Some (m, p, [], boundary))"
| "split_loop hdr_end (Suc n) m p boundary =
     do { (m1, p1, name, val) \<leftarrow> parse_single_header m p;
          r \<leftarrow> header_boundary m1 val boundary;
          case r of
            None \<Rightarrow> Some None
          | Some (m2, boundary2) \<Rightarrow>
              do { c \<leftarrow> rd m2 name;
                   if c = NUL then Some (Some (m2, p1, [], boundary2))
                   else if (case hdr_end of None \<Rightarrow> True | Some e \<Rightarrow> p1 > e) then Some (Some (m2, p1, [(name, val)], boundary2))
                   else do { rest \<leftarrow> split_loop hdr_end n m2 p1 boundary2;
                             Some (map_option (\<lambda>(m3, p3, hs, b). (m3, p3, (name, val) # hs, b)) rest) } } }"

definition parse_and_split_keygen_rsp ::
  "mem \<Rightarrow> (mem \<times> nat \<times> (nat \<times> nat) list \<times> nat option) option option" where
  "parse_and_split_keygen_rsp m =
     do { (m1, p1, _) \<leftarrow> skip m 0 CRLF;
          split_loop (snd (strstr_s m (strnlen_s (Some m) RSIZE_MAX_STR) (CRLF @ CRLF) 4)) MAX_HEADERS m1 p1 None }"

section \<open>The response to a key generation request\<close>

definition EST_MIN_CLIENT_PKEY_LEN :: nat where "EST_MIN_CLIENT_PKEY_LEN = 256"
definition EST_MIN_CLIENT_CERT_LEN :: nat where "EST_MIN_CLIENT_CERT_LEN = 128"

text \<open>
  The error, the key and the certificate of a response with status 200. Without a boundary both stay NULL
  and there is no error.
\<close>

definition keygen_content :: "mem \<Rightarrow> nat \<Rightarrow> nat option \<Rightarrow> (EST_ERROR \<times> (string \<times> string) option) option" where
  "keygen_content m payload boundary =
     (case boundary of
        None \<Rightarrow> Some (EST_ERR_NONE, None)
      | Some b \<Rightarrow>
          if strncmp (drop b m) ''*'' 1 = 0 then Some (EST_ERR_MULTIPART_PARSE, None)
          else
            do { k \<leftarrow> snd (strstr_s (drop payload m) (strnlen_s (Some (drop payload m)) RSIZE_MAX_STR)
                        (drop b m) (strnlen_s (Some (drop b m)) MAX_MULTI_BOUNDARY_LEN));
                 if payload + k < 2 then None
                 else do {
                   (rv, key, cert) \<leftarrow> parse_remaining_multipart_payload (drop (payload + k - 2) m) (drop b m);
                   if rv \<noteq> EST_ERR_NONE then Some (rv, None)
                   else if length key < EST_MIN_CLIENT_PKEY_LEN \<or> length cert < EST_MIN_CLIENT_CERT_LEN
                   then Some (EST_ERR_ZERO_LENGTH_BUF, None)
                   else Some (EST_ERR_NONE, Some (key, cert)) } })"

text \<open>\<^verbatim>\<open>est_io_get_multipart_response\<close> for the operation \<^verbatim>\<open>EST_OP_SERVER_KEYGEN\<close>.\<close>

definition est_io_get_multipart_response ::
  "CLIENT_CTX \<Rightarrow> ssl_read list \<Rightarrow> bool \<Rightarrow> (EST_ERROR \<times> CLIENT_CTX \<times> (string \<times> string) option) option" where
  "est_io_get_multipart_response ctx rs peek =
     (let (rv, got) = est_io_read_raw rs peek EST_CA_MAX; raw_len = length got;
          raw_buf = got @ replicate (EST_CA_MAX - raw_len) NUL in
      if rv \<noteq> EST_ERR_NONE then Some (rv, ctx, None)
      else if raw_len = 0 then Some (EST_ERR_HTTP_NOT_FOUND, ctx, None)
      else (let status = est_io_parse_response_status_code raw_buf; ctx1 = ctx\<lparr>last_http_status := status\<rparr> in
        do { r \<leftarrow> parse_and_split_keygen_rsp raw_buf;
             case r of
               None \<Rightarrow> Some (EST_ERR_MULTIPART_PARSE, ctx1, None)
             | Some (m, payload, hs, boundary) \<Rightarrow>
                 do { (rv1, ctx2) \<leftarrow> status_result status ctx1 (hdr_strings m hs);
                      if rv1 \<noteq> EST_ERR_NONE then Some (rv1, ctx2, None)
                      else do { (rv2, bufs) \<leftarrow> keygen_content m payload boundary; Some (rv2, ctx2, bufs) } } }))"

section \<open>Running over a well-formed part\<close>

lemma mp_loop_next:
  assumes "mp_step s buf len p l = Some (Next p' l')" and "mp_i l < len"
  shows "mp_loop s buf len p l = mp_loop s buf len p' l'"
  using assms by (subst mp_loop.simps) simp

lemma mp_loop_return:
  assumes "mp_step s buf len p l = Some (Return n p')" and "mp_i l < len"
  shows "mp_loop s buf len p l = Some (n, p')"
  using assms by (subst mp_loop.simps) simp

text \<open>Two configurations that make the same step have the same run: the fall-through of the \<^verbatim>\<open>switch\<close>.\<close>

lemma mp_loop_same:
  assumes "mp_step s buf len p l = mp_step s buf len p' l'" and "mp_i l < len" and "mp_i l' = mp_i l"
  shows "mp_loop s buf len p l = mp_loop s buf len p' l'"
  by (subst (1 2) mp_loop.simps) (simp add: assms)

lemma mp_loop_run:
  assumes "\<And>k. k < n \<Longrightarrow> mp_i (L k) < len \<and> mp_step s buf len (P k) (L k) = Some (Next (P (Suc k)) (L (Suc k)))"
  shows "mp_loop s buf len (P 0) (L 0) = mp_loop s buf len (P n) (L n)"
  using assms
proof (induction n)
  case (Suc n)
  then have "mp_loop s buf len (P 0) (L 0) = mp_loop s buf len (P n) (L n)" by simp
  also have "\<dots> = mp_loop s buf len (P (Suc n)) (L (Suc n))" using Suc.prems [of n] by (intro mp_loop_next) auto
  finally show ?case .
qed simp

text \<open>The bytes \<open>w\<close> lie at the cursor, and what is behind them.\<close>

definition here :: "mem \<Rightarrow> nat \<Rightarrow> string \<Rightarrow> bool" where
  "here buf i w \<longleftrightarrow> i + length w \<le> length buf \<and> take (length w) (drop i buf) = w"

lemma here_rd: "here buf i w \<Longrightarrow> k < length w \<Longrightarrow> rd buf (i + k) = Some (w ! k)"
  by (auto simp: here_def rd_def) (metis nth_drop nth_take add_leD1)

lemma here_append: "here buf i (v @ w) \<longleftrightarrow> here buf i v \<and> here buf (i + length v) w"
proof
  assume "here buf i (v @ w)"
  then have h: "i + length v + length w \<le> length buf" "take (length v + length w) (drop i buf) = v @ w" by (simp_all add: here_def)
  have "take (length v) (take (length v + length w) (drop i buf)) = v" "drop (length v) (take (length v + length w) (drop i buf)) = w"
    unfolding h(2) by simp_all
  then show "here buf i v \<and> here buf (i + length v) w" using h(1) by (simp add: here_def drop_take add.commute)
next
  assume "here buf i v \<and> here buf (i + length v) w"
  then show "here buf i (v @ w)" by (auto simp: here_def take_add add.commute)
qed

lemma here_Cons: "here buf i (c # w) \<longleftrightarrow> rd buf i = Some c \<and> here buf (Suc i) w"
proof -
  have "here buf i [c] \<longleftrightarrow> rd buf i = Some c"
    by (auto simp: here_def rd_def take_Suc_conv_app_nth hd_drop_conv_nth)
  then show ?thesis using here_append [of buf i "[c]" w] by simp
qed

lemma here_block: "here buf i w \<Longrightarrow> rd_block buf i (length w) = Some w"
  by (simp add: here_def rd_block_def)

lemma here_sub: "here buf i xs \<Longrightarrow> xs = u @ v @ w \<Longrightarrow> j = i + length u \<Longrightarrow> here buf j v"
  by (simp add: here_append)

lemma here_self: "here (pre @ w @ post) (length pre) w"
  by (simp add: here_def)

text \<open>The line with the boundary: its bytes are counted, not compared.\<close>

lemma mp_boundary_line:
  assumes "here buf (mp_i l) (b @ CRLF)" and "mp_i l + length b + 2 < len" and "length b = boundary_length p"
    and "mp_state p = s_start_boundary" and "mp_index p = 0" and "on_part_data_begin s = None"
  shows "mp_loop s buf len p l = mp_loop s buf len (p\<lparr>mp_state := s_header_field_start\<rparr>) (l\<lparr>mp_i := mp_i l + length b + 2, seen_headers := False\<rparr>)"
proof -
  let ?P = "\<lambda>k. p\<lparr>mp_index := k\<rparr>" and ?L = "\<lambda>k. l\<lparr>mp_i := mp_i l + k\<rparr>"
  have h: "here buf (mp_i l) b" "rd buf (mp_i l + length b) = Some CR" "rd buf (Suc (mp_i l + length b)) = Some LF"
    using assms(1) by (auto simp: here_append here_Cons CRLF_def)
  have p0: "p\<lparr>mp_index := 0\<rparr> = p" using assms(5) by (cases p) simp
  then have "mp_loop s buf len p l = mp_loop s buf len (?P 0) (?L 0)" by simp
  also have "\<dots> = mp_loop s buf len (?P (length b)) (?L (length b))"
    using assms(2-4) here_rd [OF h(1)] by (intro mp_loop_run) (auto simp: mp_step_def mp_start_boundary_def adv_def)
  also have "\<dots> = mp_loop s buf len (?P (length b + 1)) (?L (length b + 1))"
    using assms(2-4) h(2) by (intro mp_loop_next) (auto simp: mp_step_def mp_start_boundary_def adv_def)
  also have "\<dots> = mp_loop s buf len (p\<lparr>mp_index := 0, mp_state := s_header_field_start\<rparr>) (l\<lparr>mp_i := mp_i l + length b + 2, seen_headers := False\<rparr>)"
    using assms(2-4,6) h(3) by (intro mp_loop_next) (auto simp: mp_step_def mp_start_boundary_def adv_def NOTIFY_CB_def)
  finally show ?thesis unfolding p0 .
qed

text \<open>A header line, reported by two callbacks that let the parser go on.\<close>

definition name_char :: "char \<Rightarrow> bool" where
  "name_char c \<longleftrightarrow> c = CHR ''-'' \<or> isalpha c"

lemma name_char_facts:
  assumes "name_char c"
  shows "c \<noteq> CR" "c \<noteq> CHR '':''" "c \<noteq> CHR ''-'' \<Longrightarrow> 97 \<le> uchr (tolower c) \<and> uchr (tolower c) \<le> 122"
  using assms by (auto simp: name_char_def isalpha_def tolower_def uchr_def)

lemma mp_header_field_char: "name_char c \<Longrightarrow> mp_i l - mp_mark l \<le> 63 \<Longrightarrow> mp_header_field s buf False c p l = adv 1 p l"
  using name_char_facts [of c] by (auto simp: mp_header_field_def)

lemma mp_header_line:
  assumes h: "here buf (mp_i l) (name @ '': '' @ val @ CRLF @ [c])" and "mp_i l + length name + length val + 4 < len"
    and p: "mp_state p = s_header_field_start" and "c \<noteq> CHR ''-''"
    and name: "name \<noteq> []" "\<forall>c \<in> set name. name_char c" "length name \<le> 63"
    and val: "val \<noteq> []" "CR \<notin> set val" "hd val \<noteq> CHR '' ''"
    and f: "on_header_field s = Some f" "f (p\<lparr>mp_state := s_header_field\<rparr>) name = Some (0, p1)"
    and g: "on_header_value s = Some g" "g (p1\<lparr>mp_state := s_header_value\<rparr>) val = Some (0, p2)"
    and jk: "j = mp_i l + length name + length val + 4" "k = mp_i l + length name + 2"
  shows "mp_loop s buf len p l = mp_loop s buf len (p2\<lparr>mp_state := s_header_field_start\<rparr>)
     (l\<lparr>mp_i := j, mp_mark := k, seen_headers := True, seen_hdr_delimiter := False\<rparr>)"
proof -
  let ?i = "mp_i l" and ?v = "mp_i l + length name + 2"
  let ?p = "p\<lparr>mp_state := s_header_field\<rparr>" and ?q = "p1\<lparr>mp_state := s_header_value\<rparr>"
  let ?L = "\<lambda>k. l\<lparr>mp_i := ?i + k, mp_mark := ?i\<rparr>"
  let ?M = "\<lambda>k. l\<lparr>mp_i := ?v + k, mp_mark := ?v, seen_headers := True, seen_hdr_delimiter := False\<rparr>"
  have hn: "here buf ?i name" "rd buf (?i + length name) = Some (CHR '':'')" "rd buf (?i + length name + 1) = Some (CHR '' '')"
    and hv: "here buf ?v val" "rd buf (?v + length val) = Some CR" "rd buf (?v + length val + 1) = Some LF" "rd buf (?v + length val + 2) = Some c"
    using h by (auto simp: here_append here_Cons CRLF_def)
  have vk: "val ! k \<noteq> CR" if "k < length val" for k using val(2) nth_mem [OF that] by auto
  have not_last: "(?i + k = len - Suc 0) = False" if "k < length name" for k using that assms(2) by simp
  have "mp_loop s buf len p l = mp_loop s buf len ?p (?L 0)"
    using p assms(2) by (intro mp_loop_same) (auto simp: mp_step_def)
  also have "\<dots> = mp_loop s buf len ?p (?L (length name))"
    using assms(2) name(2,3) here_rd [OF hn(1)] not_last
    by (intro mp_loop_run [where P = "\<lambda>_. ?p"]) (auto simp: mp_step_def mp_header_field_char adv_def)
  also have "\<dots> = mp_loop s buf len (p1\<lparr>mp_state := s_header_value_start\<rparr>)
      (l\<lparr>mp_i := ?i + length name + 1, mp_mark := ?i, seen_headers := True, seen_hdr_delimiter := True\<rparr>)"
    using assms(2) hn(2) f here_block [OF hn(1)]
    by (intro mp_loop_next) (auto simp: mp_step_def mp_header_field_def adv_def EMIT_DATA_CB_def)
  also have "\<dots> = mp_loop s buf len (p1\<lparr>mp_state := s_header_value_start\<rparr>)
      (l\<lparr>mp_i := ?v, mp_mark := ?i, seen_headers := True, seen_hdr_delimiter := True\<rparr>)"
    using assms(2) hn(3) by (intro mp_loop_next) (auto simp: mp_step_def adv_def)
  also have "\<dots> = mp_loop s buf len ?q (?M 0)"
    using assms(2) val here_rd [OF hv(1), of 0] vk [of 0]
    by (intro mp_loop_same) (auto simp: mp_step_def mp_header_value_def hd_conv_nth Let_def adv_def)
  also have "\<dots> = mp_loop s buf len ?q (?M (length val))"
    using vk assms(2) here_rd [OF hv(1)]
    by (intro mp_loop_run [where P = "\<lambda>_. ?q"]) (auto simp: mp_step_def mp_header_value_def adv_def Let_def)
  also have "\<dots> = mp_loop s buf len (p2\<lparr>mp_state := s_header_value_almost_done\<rparr>) (?M (length val + 1))"
    using assms(2) hv(2) g here_block [OF hv(1)]
    by (intro mp_loop_next) (auto simp: mp_step_def mp_header_value_def adv_def EMIT_DATA_CB_def)
  also have "\<dots> = mp_loop s buf len (p2\<lparr>mp_state := s_header_field_start\<rparr>) (?M (length val + 2))"
    using assms(2,4) hv(3,4) by (intro mp_loop_next) (auto simp: mp_step_def adv_def)
  moreover have "?v + (length val + 2) = j" "?v = k" by (simp_all add: jk)
  ultimately show ?thesis by (simp only:)
qed

text \<open>The empty line behind the headers, and the data up to the next boundary.\<close>

lemma mp_empty_line:
  assumes "here buf (mp_i l) CRLF" and "mp_i l + 2 < len" and "mp_state p = s_header_field_start" and "seen_headers l"
  shows "mp_loop s buf len p l = mp_loop s buf len (p\<lparr>mp_state := s_part_data_start\<rparr>) (l\<lparr>mp_i := mp_i l + 2, mp_mark := mp_i l\<rparr>)"
proof -
  have h: "rd buf (mp_i l) = Some CR" "rd buf (mp_i l + 1) = Some LF" using assms(1) by (auto simp: here_Cons CRLF_def)
  have "mp_loop s buf len p l = mp_loop s buf len (p\<lparr>mp_state := s_headers_almost_done\<rparr>) (l\<lparr>mp_i := mp_i l + 1, mp_mark := mp_i l\<rparr>)"
    using assms(2,3) h by (intro mp_loop_next) (auto simp: mp_step_def mp_header_field_def adv_def)
  also have "\<dots> = mp_loop s buf len (p\<lparr>mp_state := s_part_data_start\<rparr>) (l\<lparr>mp_i := mp_i l + 2, mp_mark := mp_i l\<rparr>)"
    using assms(2,4) h by (intro mp_loop_next) (auto simp: mp_step_def adv_def)
  finally show ?thesis .
qed

lemma mp_data_to_boundary:
  assumes "here buf (mp_i l) (data @ CRLF @ ''-'')" and "mp_i l + length data + 2 < len" and "mp_state p = s_part_data_start"
    and "on_headers_complete s = None" and data: "data \<noteq> []" "CR \<notin> set data"
  shows "mp_loop s buf len p l = mp_loop s buf len (p\<lparr>mp_state := s_part_data\<rparr>) (l\<lparr>mp_i := mp_i l + length data, mp_mark := mp_i l\<rparr>)"
    "mp_step s buf len (p\<lparr>mp_state := s_part_data\<rparr>) (l\<lparr>mp_i := mp_i l + length data, mp_mark := mp_i l\<rparr>) =
       EMIT_DATA_CB (on_part_data s) (p\<lparr>mp_state := s_part_data\<rparr>)
         (l\<lparr>mp_i := mp_i l + length data, mp_mark := mp_i l, num_payloads := num_payloads l + 1\<rparr>) (Some data)
         (\<lambda>p. do { b \<leftarrow> wr (lookbehind p) 0 CR;
                   adv 1 (p\<lparr>mp_state := s_part_data_almost_boundary, lookbehind := b\<rparr>)
                     (l\<lparr>mp_i := mp_i l + length data, num_payloads := num_payloads l + 1, mp_mark := mp_i l + length data\<rparr>) })"
proof -
  let ?i = "mp_i l"
  let ?p = "p\<lparr>mp_state := s_part_data\<rparr>"
  let ?L = "\<lambda>k. l\<lparr>mp_i := ?i + k, mp_mark := ?i\<rparr>"
  have h: "here buf ?i data" "rd buf (?i + length data) = Some CR" "rd buf (Suc (?i + length data)) = Some LF"
    "rd buf (Suc (Suc (?i + length data))) = Some (CHR ''-'')"
    using assms(1) by (auto simp: here_append here_Cons CRLF_def)
  have dk: "data ! k \<noteq> CR" if "k < length data" for k using data(2) nth_mem [OF that] by auto
  have "mp_loop s buf len p l = mp_loop s buf len ?p (?L 0)"
    using assms(2-4) by (intro mp_loop_same) (auto simp: mp_step_def NOTIFY_CB_def)
  also have "\<dots> = mp_loop s buf len ?p (?L (length data))"
    using dk assms(2) here_rd [OF h(1)]
    by (intro mp_loop_run [where P = "\<lambda>_. ?p"]) (auto simp: mp_step_def mp_part_data_def adv_def Let_def)
  finally show "mp_loop s buf len p l = mp_loop s buf len ?p (?L (length data))" .
  show "mp_step s buf len ?p (?L (length data)) =
       EMIT_DATA_CB (on_part_data s) ?p
         (l\<lparr>mp_i := mp_i l + length data, mp_mark := mp_i l, num_payloads := num_payloads l + 1\<rparr>) (Some data)
         (\<lambda>p. do { b \<leftarrow> wr (lookbehind p) 0 CR;
                   adv 1 (p\<lparr>mp_state := s_part_data_almost_boundary, lookbehind := b\<rparr>)
                     (l\<lparr>mp_i := mp_i l + length data, num_payloads := num_payloads l + 1, mp_mark := mp_i l + length data\<rparr>) })"
    using h here_block [OF h(1)] by (simp add: mp_step_def mp_part_data_def)
qed

text \<open>The data of a part that is not the last.\<close>

lemma mp_data_part:
  assumes h: "here buf (mp_i l) (data @ CRLF @ ''--'')" and len: "mp_i l + length data + 4 < len" and "mp_state p = s_part_data_start"
    and "on_headers_complete s = None" and data: "data \<noteq> []" "CR \<notin> set data"
    and f: "on_part_data s = Some f" "f (p\<lparr>mp_state := s_part_data\<rparr>) data = Some (0, p1)"
    and p1: "2 \<le> length (lookbehind p1)" "expected_payloads p1 \<noteq> num_payloads l + 1"
  shows "mp_loop s buf len p l = mp_loop s buf len (p1\<lparr>mp_state := s_start_boundary, lookbehind := (lookbehind p1)[0 := CR, 1 := LF], mp_index := 0\<rparr>)
     (l\<lparr>mp_i := mp_i l + length data + 4, mp_mark := mp_i l + length data, num_payloads := num_payloads l + 1\<rparr>)"
proof -
  have h': "here buf (mp_i l) (data @ CRLF @ ''-'')" "rd buf (Suc (mp_i l + length data)) = Some LF"
    using h here_append [of buf "mp_i l" "data @ CRLF @ ''-''" "''-''"] by (auto simp: here_append here_Cons CRLF_def)
  note run = mp_data_to_boundary [OF h'(1) _ assms(3,4) data, of len]
  have "mp_loop s buf len p l = mp_loop s buf len (p\<lparr>mp_state := s_part_data\<rparr>) (l\<lparr>mp_i := mp_i l + length data, mp_mark := mp_i l\<rparr>)"
    using run(1) len by simp
  also have "\<dots> = mp_loop s buf len (p1\<lparr>mp_state := s_part_data_almost_boundary, lookbehind := (lookbehind p1)[0 := CR]\<rparr>)
      (l\<lparr>mp_i := Suc (mp_i l + length data), mp_mark := mp_i l + length data, num_payloads := num_payloads l + 1\<rparr>)"
    using run(2) len f p1(1) by (intro mp_loop_next) (auto simp: EMIT_DATA_CB_def adv_def wr_def)
  also have "\<dots> = mp_loop s buf len (p1\<lparr>mp_state := s_start_boundary, lookbehind := (lookbehind p1)[0 := CR, 1 := LF], mp_index := 0\<rparr>)
     (l\<lparr>mp_i := mp_i l + length data + 4, mp_mark := mp_i l + length data, num_payloads := num_payloads l + 1\<rparr>)"
    using len p1 h'(2) by (intro mp_loop_next) (auto simp: mp_step_def adv_def wr_def)
  finally show ?thesis .
qed

text \<open>The data of the part after which the callback has all it needs.\<close>

lemma mp_data_last:
  assumes h: "here buf (mp_i l) (data @ CRLF @ ''-'')" and len: "mp_i l + length data + 2 < len" and "mp_state p = s_part_data_start"
    and "on_headers_complete s = None" and data: "data \<noteq> []" "CR \<notin> set data"
    and f: "on_part_data s = Some f" "f (p\<lparr>mp_state := s_part_data\<rparr>) data = Some (r, p1)" "r \<noteq> 0"
  shows "mp_loop s buf len p l = Some (mp_i l + length data, p1)"
proof -
  note run = mp_data_to_boundary [OF h len assms(3,4) data]
  show ?thesis unfolding run(1) by (rule mp_loop_return) (use run(2) len f in \<open>simp_all add: EMIT_DATA_CB_def stop_def\<close>)
qed

section \<open>The parts of a key generation response\<close>

definition PKCS8 :: string where "PKCS8 = ''application/pkcs8''"
definition PKCS7_CO :: string where "PKCS7_CO = ''application/pkcs7-mime; smime-type=certs-only''"

definition part_text :: "string \<Rightarrow> string \<Rightarrow> string \<Rightarrow> string" where
  "part_text b ct data = b @ CRLF @ ''Content-Type: '' @ ct @ CRLF @ ''Content-Transfer-Encoding: base64'' @ CRLF @ CRLF @ data @ CRLF @ ''--''"

definition part_hdrs :: "string \<Rightarrow> (string option \<times> string option) list" where
  "part_hdrs ct = [(Some ''Content-Type'', Some ct), (Some ''Content-Transfer-Encoding'', Some ''base64'')]"

lemma value_is_simps:
  "value_is ''base64'' ''base64'' = Some True" "value_is ''application/pkcs8'' PKCS8 = Some True"
  "value_is ''application/pkcs8'' PKCS7_CO = Some False" "value_is ''application/pkcs7-mime; smime-type=certs-only'' PKCS7_CO = Some True"
  by (simp_all add: value_is_def PKCS8_def PKCS7_CO_def)

lemma hdr_names:
  "strncmp ''Content-Type'' ''Content-Type'' 12 = 0" "strncmp ''Content-Transfer-Encoding'' ''Content-Type'' 12 \<noteq> 0"
  "strncmp ''Content-Transfer-Encoding'' ''Content-Transfer-Encoding'' 25 = 0" "strncmp ''Content-Type'' ''Content-Transfer-Encoding'' 25 \<noteq> 0"
  by (simp_all add: strncmp_eq_0 del: strncmp.simps)

lemma hdr_name_chars: "\<forall>c \<in> set ''Content-Type''. name_char c" "\<forall>c \<in> set ''Content-Transfer-Encoding''. name_char c"
  unfolding name_char_def by code_simp+

lemma client_callbacks_simps [simp]:
  "on_header_field client_callbacks = Some read_header_name" "on_header_value client_callbacks = Some read_header_value"
  "on_part_data client_callbacks = Some part_data_cb" "on_part_data_begin client_callbacks = None"
  "on_headers_complete client_callbacks = None"
  by (simp_all add: client_callbacks_def)

lemma list_first_two: "2 \<le> length xs \<Longrightarrow> \<exists>a b t. xs = a # b # t"
  by (cases xs; cases "tl xs") auto

lemma client_part_headers:
  assumes h: "here buf (mp_i l) (part_text b ct data)" and ct: "ct \<in> {PKCS8, PKCS7_CO}"
    and len: "mp_i l + length (part_text b ct data) \<le> len" and p: "length b = boundary_length p" "mp_state p = s_start_boundary" "mp_index p = 0"
    and hs: "num_headers p = 0" "length (hdrs p) = MAX_HEADERS" and d: "data \<noteq> []"
  obtains l' where "mp_loop client_callbacks buf len p l =
      mp_loop client_callbacks buf len (p\<lparr>num_headers := 2, hdrs := part_hdrs ct @ drop 2 (hdrs p), mp_state := s_part_data_start\<rparr>) l'"
    "mp_i l' + length data + 4 = mp_i l + length (part_text b ct data)" "num_payloads l' = num_payloads l"
    "here buf (mp_i l') (data @ CRLF @ ''--'')"
proof -
  let ?c = client_callbacks and ?i1 = "mp_i l + length b + 2" and ?n1 = "''Content-Type''" and ?n2 = "''Content-Transfer-Encoding''"
  let ?i2 = "mp_i l + length b + length ct + 18" and ?q = "p\<lparr>mp_state := s_header_field_start\<rparr>"
  obtain x y t where xy: "hdrs p = x # y # t" using list_first_two [of "hdrs p"] hs(2) by (auto simp: MAX_HEADERS_def)
  have ct0: "ct \<noteq> []" "CR \<notin> set ct" "hd ct \<noteq> CHR '' ''" using ct by (auto simp: PKCS8_def PKCS7_CO_def)
  let ?l0 = "b @ CRLF" and ?l1 = "''Content-Type: '' @ ct @ CRLF" and ?l2 = "''Content-Transfer-Encoding: base64'' @ CRLF"
  have "here buf (mp_i l) ?l0"
    by (rule here_sub [OF h, where u = "[]" and w = "?l1 @ ?l2 @ CRLF @ data @ CRLF @ ''--''"]) (simp_all add: part_text_def)
  moreover have "here buf ?i1 (?n1 @ '': '' @ ct @ CRLF @ [CHR ''C''])"
    by (rule here_sub [OF h, where u = ?l0 and w = "tl ?l2 @ CRLF @ data @ CRLF @ ''--''"]) (simp_all add: part_text_def)
  moreover have "here buf ?i2 (?n2 @ '': '' @ ''base64'' @ CRLF @ [CR])"
    by (rule here_sub [OF h, where u = "?l0 @ ?l1" and w = "[LF] @ data @ CRLF @ ''--''"]) (simp_all add: part_text_def CRLF_def)
  moreover have "here buf (?i2 + 35) CRLF"
    by (rule here_sub [OF h, where u = "?l0 @ ?l1 @ ?l2" and w = "data @ CRLF @ ''--''"]) (simp_all add: part_text_def)
  moreover have "here buf (?i2 + 37) (data @ CRLF @ ''--'')"
    by (rule here_sub [OF h, where u = "?l0 @ ?l1 @ ?l2 @ CRLF" and w = "[]"]) (simp_all add: part_text_def)
  ultimately have h1: "here buf (mp_i l) ?l0" "here buf ?i1 (?n1 @ '': '' @ ct @ CRLF @ [CHR ''C''])"
    "here buf ?i2 (?n2 @ '': '' @ ''base64'' @ CRLF @ [CR])" "here buf (?i2 + 35) CRLF" "here buf (?i2 + 37) (data @ CRLF @ ''--'')"
    by blast+
  have len': "?i2 + 37 + length data + 4 \<le> len" using len by (simp add: part_text_def)
  define m1 where "m1 = l\<lparr>mp_i := ?i1, seen_headers := False\<rparr>"
  define m2 where "m2 = m1\<lparr>mp_i := ?i2, mp_mark := ?i1 + 14, seen_headers := True, seen_hdr_delimiter := False\<rparr>"
  define m3 where "m3 = m2\<lparr>mp_i := ?i2 + 35, mp_mark := ?i2 + 27, seen_headers := True, seen_hdr_delimiter := False\<rparr>"
  have "mp_loop ?c buf len p l = mp_loop ?c buf len ?q m1"
    unfolding m1_def using mp_boundary_line [OF h1(1) _ p(1-3), of len ?c] len' by simp
  also have "\<dots> = mp_loop ?c buf len (p\<lparr>num_headers := 1, hdrs := (Some ?n1, Some ct) # y # t, mp_state := s_header_field_start\<rparr>) m2"
  proof -
    have "read_header_name (?q\<lparr>mp_state := s_header_field\<rparr>) ?n1 = Some (0, p\<lparr>hdrs := (Some ?n1, snd x) # y # t, mp_state := s_header_field\<rparr>)"
      using hs(1) xy by (simp add: read_header_name_def multipart_parser_set_hdr_name_def MAX_HEADERS_def)
    moreover have "read_header_value (p\<lparr>hdrs := (Some ?n1, snd x) # y # t, mp_state := s_header_value\<rparr>) ct =
        Some (0, p\<lparr>num_headers := 1, hdrs := (Some ?n1, Some ct) # y # t, mp_state := s_header_value\<rparr>)"
      using hs(1) ct by (auto simp: read_header_value_def multipart_parser_set_hdr_value_def MAX_HEADERS_def hdr_value_ok_def value_is_simps hdr_names simp del: strncmp.simps)
    ultimately show ?thesis
      using mp_header_line [of buf m1 ?n1 ct "CHR ''C''" len ?q ?c read_header_name
          "p\<lparr>hdrs := (Some ?n1, snd x) # y # t, mp_state := s_header_field\<rparr>" read_header_value
          "p\<lparr>num_headers := 1, hdrs := (Some ?n1, Some ct) # y # t, mp_state := s_header_value\<rparr>" ?i2 "?i1 + 14"] h1(2) len' ct0 hdr_name_chars(1)
      by (simp add: m1_def m2_def)
  qed
  also have "\<dots> = mp_loop ?c buf len (p\<lparr>num_headers := 2, hdrs := part_hdrs ct @ t, mp_state := s_header_field_start\<rparr>) m3"
  proof -
    let ?p1 = "p\<lparr>num_headers := 1, hdrs := (Some ?n1, Some ct) # y # t, mp_state := s_header_field_start\<rparr>"
    have "read_header_name (?p1\<lparr>mp_state := s_header_field\<rparr>) ?n2 =
        Some (0, p\<lparr>num_headers := 1, hdrs := (Some ?n1, Some ct) # (Some ?n2, snd y) # t, mp_state := s_header_field\<rparr>)"
      by (simp add: read_header_name_def multipart_parser_set_hdr_name_def MAX_HEADERS_def)
    moreover have "read_header_value (p\<lparr>num_headers := 1, hdrs := (Some ?n1, Some ct) # (Some ?n2, snd y) # t, mp_state := s_header_value\<rparr>) ''base64'' =
        Some (0, p\<lparr>num_headers := 2, hdrs := part_hdrs ct @ t, mp_state := s_header_value\<rparr>)"
      by (simp add: read_header_value_def multipart_parser_set_hdr_value_def MAX_HEADERS_def hdr_value_ok_def value_is_simps hdr_names part_hdrs_def del: strncmp.simps)
    ultimately show ?thesis
      using mp_header_line [of buf m2 ?n2 "''base64''" CR len ?p1 ?c read_header_name
          "p\<lparr>num_headers := 1, hdrs := (Some ?n1, Some ct) # (Some ?n2, snd y) # t, mp_state := s_header_field\<rparr>" read_header_value
          "p\<lparr>num_headers := 2, hdrs := part_hdrs ct @ t, mp_state := s_header_value\<rparr>" "?i2 + 35" "?i2 + 27"] h1(3) len' hdr_name_chars(2)
      by (simp add: m2_def m3_def)
  qed
  also have "\<dots> = mp_loop ?c buf len (p\<lparr>num_headers := 2, hdrs := part_hdrs ct @ t, mp_state := s_part_data_start\<rparr>) (m3\<lparr>mp_i := ?i2 + 37, mp_mark := ?i2 + 35\<rparr>)"
    using mp_empty_line [of buf m3 len "p\<lparr>num_headers := 2, hdrs := part_hdrs ct @ t, mp_state := s_header_field_start\<rparr>" ?c] h1(4) len' d
    by (simp add: m3_def)
  finally show thesis
    using that [of "m3\<lparr>mp_i := ?i2 + 37, mp_mark := ?i2 + 35\<rparr>"] h1(5) xy by (simp add: m1_def m2_def m3_def part_text_def)
qed

definition payload_ok :: "string \<Rightarrow> bool" where
  "payload_ok d \<longleftrightarrow> NUL \<notin> set d \<and> CR \<notin> set d \<and> \<not> only_whitespace d \<and> length d \<le> MULTIPART_PARSE_DATA_MAX"

lemma payload_ok_nonempty: "payload_ok d \<Longrightarrow> d \<noteq> []"
  by (auto simp: payload_ok_def only_whitespace_def)

lemma find_hdr_part:
  "find_hdr ''Content-Type'' (part_hdrs ct @ t) 2 = Some (Some ct)"
  "find_hdr ''Content-Transfer-Encoding'' (part_hdrs ct @ t) 2 = Some (Some ''base64'')"
  by (simp_all add: part_hdrs_def numeral_2_eq_2 strncmp_eq_0 del: strncmp.simps)

lemma part_data_cb_key:
  assumes "num_headers p = 2" and "hdrs p = part_hdrs PKCS8 @ t" and "payload_ok d" and "cert_data p = []"
  shows "part_data_cb p d = Some (0, p\<lparr>key_data := d, num_headers := 0\<rparr>)"
  using assms
  by (simp add: part_data_cb_def multipart_get_data_ct_def multipart_get_data_cte_def find_hdr_part value_is_simps payload_ok_def store_part_def
      multipart_set_key_data_def multipart_reset_hdrs_def multipart_parser_both_key_and_cert_populated_def)

lemma part_data_cb_cert:
  assumes "num_headers p = 2" and "hdrs p = part_hdrs PKCS7_CO @ t" and "payload_ok d" and "key_data p \<noteq> []"
  shows "part_data_cb p d = Some (1, p\<lparr>cert_data := d\<rparr>)"
  using assms payload_ok_nonempty [OF assms(3)]
  by (simp add: part_data_cb_def multipart_get_data_ct_def multipart_get_data_cte_def find_hdr_part value_is_simps payload_ok_def store_part_def
      multipart_set_cert_data_def multipart_parser_both_key_and_cert_populated_def)

definition boundary_ok :: "string \<Rightarrow> bool" where
  "boundary_ok b \<longleftrightarrow> b \<noteq> [] \<and> NUL \<notin> set b \<and> hd b \<noteq> CHR ''-'' \<and> length b \<le> 69"

lemma parse_remaining_parts:
  assumes b: "boundary_ok b" and key: "payload_ok key" and cert: "payload_ok cert" and tail: "NUL \<notin> set tail"
  shows "parse_remaining_multipart_payload (''--'' @ part_text b PKCS8 key @ part_text b PKCS7_CO cert @ tail @ NUL # u) (b @ NUL # v) =
    Some (EST_ERR_NONE, key, cert)"
proof -
  let ?c = client_callbacks
  define A where "A = part_text b PKCS8 key"
  define B where "B = part_text b PKCS7_CO cert"
  define buf where "buf = A @ B @ tail @ NUL # u"
  define len where "len = 2 + length A + length B + length tail"
  define l0 where "l0 = \<lparr>mp_i = 0, mp_mark = 0, seen_headers = False, seen_hdr_delimiter = False, num_payloads = 0\<rparr>"
  define p0 where "p0 = \<lparr>mp_index = 0, boundary_length = length b, mp_state = s_start, num_headers = 0,
      hdrs = replicate MAX_HEADERS (None, None), lookbehind = replicate 70 NUL,
      multipart_boundary = (b @ [NUL]) @ replicate (69 - length b) NUL, key_data = [], cert_data = [], expected_payloads = 2\<rparr>"
  define p1 where "p1 = p0\<lparr>mp_index := 0, mp_state := s_start_boundary\<rparr>"
  have init: "multipart_parser_init (b @ NUL # v) = Some p0"
    using b by (simp add: multipart_parser_init_def boundary_ok_def wr_block_def p0_def)
  have nonul: "NUL \<notin> set (A @ B @ tail)"
    using b key cert tail by (auto simp: A_def B_def part_text_def boundary_ok_def payload_ok_def PKCS8_def PKCS7_CO_def CRLF_def)
  have cs: "cstr (''--'' @ buf) = ''--'' @ A @ B @ tail" using nonul by (simp add: buf_def cstr_append)
  obtain c0 bs where c0: "b = c0 # bs" "c0 \<noteq> CHR ''-''" using b by (cases b) (auto simp: boundary_ok_def)
  then have dw: "dropWhile (\<lambda>c. c = CHR ''-'') (''--'' @ buf) = buf" by (simp add: buf_def A_def part_text_def)
  have bufne: "buf \<noteq> []" by (simp add: buf_def)
  have start: "mp_loop ?c buf len p0 l0 = mp_loop ?c buf len p1 l0"
    by (rule mp_loop_same) (simp_all add: p0_def p1_def mp_step_def l0_def len_def)
  have hA: "here buf (mp_i l0) A" unfolding buf_def by (simp add: l0_def here_def)
  have hB: "here buf (length A) B" unfolding buf_def using here_self [of A B "tail @ NUL # u"] by simp
  obtain l1 where l1: "mp_loop ?c buf len p1 l0 =
      mp_loop ?c buf len (p1\<lparr>num_headers := 2, hdrs := part_hdrs PKCS8 @ drop 2 (hdrs p1), mp_state := s_part_data_start\<rparr>) l1"
    "mp_i l1 + length key + 4 = length A" "num_payloads l1 = 0" "here buf (mp_i l1) (key @ CRLF @ ''--'')"
    by (rule client_part_headers [of buf l0 b PKCS8 key len p1])
      (use hA in \<open>auto simp: A_def [symmetric] l0_def len_def p1_def p0_def payload_ok_nonempty [OF key]\<close>)
  define p2 where "p2 = p1\<lparr>num_headers := 2, hdrs := part_hdrs PKCS8 @ drop 2 (hdrs p1), mp_state := s_part_data_start\<rparr>"
  define p3 where "p3 = p2\<lparr>mp_state := s_part_data, key_data := key, num_headers := 0\<rparr>"
  define p4 where "p4 = p3\<lparr>mp_state := s_start_boundary, lookbehind := (lookbehind p3)[0 := CR, 1 := LF], mp_index := 0\<rparr>"
  define l2 where "l2 = l1\<lparr>mp_i := mp_i l1 + length key + 4, mp_mark := mp_i l1 + length key, num_payloads := num_payloads l1 + 1\<rparr>"
  have cb1: "part_data_cb (p2\<lparr>mp_state := s_part_data\<rparr>) key = Some (0, p3)"
    unfolding p3_def by (rule part_data_cb_key [of _ "drop 2 (hdrs p1)"]) (simp_all add: p2_def p1_def p0_def key)
  have "mp_loop ?c buf len p2 l1 = mp_loop ?c buf len p4 l2"
    unfolding p4_def l2_def
    by (rule mp_data_part [of buf l1 key len p2 ?c part_data_cb p3, OF l1(4) _ _ _ payload_ok_nonempty [OF key] _ _ cb1])
      (use l1(2,3) key in \<open>simp_all add: len_def p2_def p3_def p1_def p0_def payload_ok_def B_def part_text_def\<close>)
  moreover obtain l3 where l3: "mp_loop ?c buf len p4 l2 =
      mp_loop ?c buf len (p4\<lparr>num_headers := 2, hdrs := part_hdrs PKCS7_CO @ drop 2 (hdrs p4), mp_state := s_part_data_start\<rparr>) l3"
    "mp_i l3 + length cert + 4 = length A + length B" "here buf (mp_i l3) (cert @ CRLF @ ''--'')"
    by (rule client_part_headers [of buf l2 b PKCS7_CO cert len p4])
      (use hB l1(2) in \<open>auto simp: B_def [symmetric] l2_def len_def p4_def p3_def p2_def p1_def p0_def part_hdrs_def MAX_HEADERS_def payload_ok_nonempty [OF cert]\<close>)
  moreover define p5 where "p5 = p4\<lparr>num_headers := 2, hdrs := part_hdrs PKCS7_CO @ drop 2 (hdrs p4), mp_state := s_part_data_start\<rparr>"
  moreover have "part_data_cb (p5\<lparr>mp_state := s_part_data\<rparr>) cert = Some (1, p5\<lparr>mp_state := s_part_data, cert_data := cert\<rparr>)"
    by (rule part_data_cb_cert [of _ "drop 2 (hdrs p4)", simplified])
      (use payload_ok_nonempty [OF key] in \<open>simp_all add: p5_def p4_def p3_def cert\<close>)
  moreover have "here buf (mp_i l3) (cert @ CRLF @ ''-'')"
    by (rule here_sub [OF l3(3), where u = "[]" and w = "''-''"]) simp_all
  ultimately have "mp_loop ?c buf len p0 l0 = Some (mp_i l3 + length cert, p5\<lparr>mp_state := s_part_data, cert_data := cert\<rparr>)"
    using start l1(1) cert payload_ok_nonempty [OF cert]
      mp_data_last [of buf l3 cert len p5 ?c part_data_cb 1 "p5\<lparr>mp_state := s_part_data, cert_data := cert\<rparr>"]
    by (simp add: p2_def len_def payload_ok_def)
  moreover have "key_data p5 = key" by (simp add: p5_def p4_def p3_def)
  moreover have "length (cstr (''--'' @ buf)) = len" unfolding cs by (simp add: len_def)
  ultimately have "parse_remaining_multipart_payload (''--'' @ buf) (b @ NUL # v) = Some (EST_ERR_NONE, key, cert)"
    using init dw bufne payload_ok_nonempty [OF key] payload_ok_nonempty [OF cert]
    by (simp add: parse_remaining_multipart_payload_def multipart_parser_execute_def l0_def buf_def
        multipart_parser_both_key_and_cert_populated_def)
  then show ?thesis by (simp add: buf_def A_def B_def)
qed

section \<open>The headers of a multipart response\<close>

definition MIXED :: string where "MIXED = ''multipart/mixed; boundary=''"

text \<open>A boundary that needs no cleaning.\<close>

definition bare_boundary :: "string \<Rightarrow> bool" where
  "bare_boundary b \<longleftrightarrow> b \<noteq> [] \<and> validate_boundary_string b \<and> last b \<noteq> CHR '' '' \<and> length b \<le> MAX_MULTI_BOUNDARY_LEN"

lemma bare_boundary_chars:
  assumes "bare_boundary b" and "c \<in> set b"
  shows "c \<noteq> NUL \<and> c \<noteq> LF \<and> c \<noteq> CR \<and> c \<noteq> DQUOTE \<and> c \<noteq> CHR '';'' \<and> c \<noteq> CHR ''*''"
  using assms unfolding bare_boundary_def validate_boundary_string_def list_all_iff
  by (auto dest!: bspec [of _ _ c] simp: uchr_def)

lemma sanitize_bare:
  assumes "bare_boundary b" and "m = pre @ b @ NUL # u"
  shows "sanitize_boundary m (length pre) (length b) = Some (m, int (length b))"
proof -
  have ne: "b \<noteq> []" "last b \<noteq> CHR '' ''" using assms(1) by (auto simp: bare_boundary_def)
  have l: "m ! (length pre + (length b - 1)) = last b" "length pre + (length b - 1) < length m"
    using ne assms(2) by (auto simp: nth_append last_conv_nth)
  have "nat (int (length pre) + int (length b) - 1) = length pre + (length b - 1)" "0 \<le> int (length pre) + int (length b) - 1"
    using ne by (cases b; simp)+
  then have rdl: "rdi m (int (length pre) + int (length b) - 1) = Some (last b)" using l by (simp add: rdi_def rd_def)
  have "takeWhile (\<lambda>c. c \<noteq> CHR '';'') b = b" using bare_boundary_chars [OF assms(1)] by (simp add: takeWhile_eq_all_conv)
  then have "length (takeWhile (\<lambda>c. c \<noteq> CHR '';'') b) = length b" by (rule arg_cong)
  then have "cut_semicolon m (length pre) (length b) = Some (m, length b)"
    using assms(2) by (simp add: cut_semicolon_def rd_block_def Let_def)
  moreover have "trim_blanks m (length pre) (int (length b)) = Some (m, int (length b))"
    by (subst trim_blanks.simps) (simp add: rdl ne)
  moreover have "rd m (length pre) = Some (hd b)" using ne(1) assms(2) by (cases b) (auto simp: rd_def nth_append)
  moreover have "hd b \<noteq> DQUOTE" "last b \<noteq> CHR '';''" using bare_boundary_chars [OF assms(1)] ne(1) by auto
  ultimately show ?thesis using rdl ne(1) by (cases b) (simp_all add: sanitize_boundary_def)
qed

lemma header_boundary_plain:
  assumes "find_sub ''multipart'' v = None" and "NUL \<notin> set v"
  shows "header_boundary (pre @ v @ NUL # u) (length pre) boundary = Some (Some (pre @ v @ NUL # u, boundary))"
  using assms by (simp add: header_boundary_def Let_def strstr_s_def strstr_def)

lemma header_boundary_mixed:
  assumes "bare_boundary b" and m: "m = pre @ MIXED @ b @ NUL # u" and "length m \<le> RSIZE_MAX_STR"
  shows "header_boundary m (length pre) boundary = Some (Some (m, Some (length pre + 26)))"
proof -
  let ?v = "MIXED @ b @ NUL # u"
  have nn: "NUL \<notin> set b" using bare_boundary_chars [OF assms(1)] by blast
  then have cs: "cstr ?v = MIXED @ b" by (simp add: cstr_append MIXED_def)
  have f: "find_sub ''multipart'' (MIXED @ b) = Some 0" "find_sub ''multipart/mixed'' (MIXED @ b) = Some 0"
    "find_sub ''boundary='' (MIXED @ b) = Some 17"
    by (simp_all add: MIXED_def)
  have d: "drop (length pre) m = ?v" using m by simp
  have m': "m = (pre @ MIXED) @ b @ NUL # u" using m by simp
  have len: "length pre + 17 + 9 = length (pre @ MIXED)" by (simp add: MIXED_def)
  have "skip m (length (pre @ MIXED)) [LF] = Some (m, length (pre @ MIXED) + length b, length (pre @ MIXED))"
    unfolding m' skip_def using assms(3) m' nn bare_boundary_chars [OF assms(1)] last_in_set [of b]
    by (intro skip_quoted_last) (auto simp: RSIZE_MAX_STR_def)
  moreover have "strnlen_s (Some (drop (length (pre @ MIXED)) m)) (MAX_MULTI_BOUNDARY_LEN + 2) = length b"
    using nn assms(1) by (simp add: m' strnlen_s_def strnlen_def cstr_append bare_boundary_def)
  moreover have "drop (length (pre @ MIXED)) m = b @ NUL # u" using m' by simp
  ultimately show ?thesis
    unfolding header_boundary_def Let_def d using cs f sanitize_bare [OF assms(1) m'] assms(1)
    by (simp add: strstr_s_def strstr_def len bare_boundary_def del: length_append) (simp add: MIXED_def)
qed

text \<open>The address of the boundary that a list of headers defines.\<close>

fun hdr_boundary :: "nat \<Rightarrow> (string \<times> string) list \<Rightarrow> nat option \<Rightarrow> nat option" where
  "hdr_boundary off [] boundary = boundary"
| "hdr_boundary off (h # hs) boundary = hdr_boundary (off + length (fst h) + length (snd h) + 4) hs
     (if take 26 (snd h) = MIXED then Some (off + length (fst h) + 28) else boundary)"

definition ct_ok :: "string \<Rightarrow> bool" where
  "ct_ok v \<longleftrightarrow> find_sub ''multipart'' v = None \<or> take 26 v = MIXED \<and> bare_boundary (drop 26 v)"

lemma header_boundary_ok:
  assumes "ct_ok v" and "NUL \<notin> set v" and "length (pre @ v @ NUL # u) \<le> RSIZE_MAX_STR" and "k = length pre"
  shows "header_boundary (pre @ v @ NUL # u) k boundary =
    Some (Some (pre @ v @ NUL # u, if take 26 v = MIXED then Some (k + 26) else boundary))"
proof (cases "take 26 v = MIXED")
  case True
  define b where "b = drop 26 v"
  have v: "v = MIXED @ b" using True by (metis append_take_drop_id b_def)
  have "find_sub ''multipart'' (MIXED @ b) = Some 0" by (simp add: MIXED_def)
  then have "find_sub ''multipart'' v = Some 0" using v by (simp only:)
  then have "bare_boundary b" using assms(1) by (simp add: ct_ok_def b_def)
  then have "header_boundary (pre @ MIXED @ b @ NUL # u) (length pre) boundary = Some (Some (pre @ MIXED @ b @ NUL # u, Some (length pre + 26)))"
    using assms(3) v by (intro header_boundary_mixed [OF _ refl]) simp_all
  then show ?thesis using True assms(4) v by simp
next
  case False
  then show ?thesis using header_boundary_plain assms by (auto simp: ct_ok_def)
qed

lemma parse_single_header_line:
  assumes "hdr_ok h" and "m = pre @ render_hdr h @ gap @ rest" and "set gap \<subseteq> {CR, LF}"
    and "hd0 rest \<noteq> CR" "hd0 rest \<noteq> LF" and "length m \<le> RSIZE_MAX_STR"
  shows "parse_single_header m (length pre) = Some (pre @ cut_hdr h @ replicate (length gap) NUL @ rest,
    length (pre @ cut_hdr h) + length gap, length pre, length pre + length (fst h) + 2)"
proof -
  have "rd m (length pre) = Some (hd (fst h))" "hd (fst h) \<noteq> LF"
    using assms(1,2) by (cases "fst h"; auto simp: rd_def nth_append render_hdr_def hdr_ok_def line_ok_def)+
  then have "skip_newlines m (length pre) = Some (length pre)" by (subst skip_newlines.simps) simp
  then show ?thesis using header_line_skips [OF assms] by (simp add: parse_single_header_def)
qed

lemma split_loop_render:
  assumes "\<forall>h \<in> set hs. hdr_ok h \<and> ct_ok (snd h)" and "hs \<noteq> []" and "length hs \<le> n"
    and "hd0 rest \<noteq> CR" "hd0 rest \<noteq> LF"
    and "m = pre @ concat (map render_hdr hs) @ CRLF @ rest" and "length m \<le> RSIZE_MAX_STR"
    and "e + 2 = length pre + length (concat (map render_hdr hs))"
  shows "split_loop (Some e) n m (length pre) boundary =
    Some (Some (pre @ concat (map cut_hdr hs) @ [NUL, NUL] @ rest, e + 4, hdr_addrs (length pre) hs, hdr_boundary (length pre) hs boundary))"
  using assms
proof (induction hs arbitrary: n m pre boundary)
  case (Cons h hs)
  obtain k where n: "n = Suc k" using Cons.prems(3) by (cases n) auto
  have ok: "hdr_ok h" "ct_ok (snd h)" "NUL \<notin> set (snd h)" using Cons.prems(1) by (auto simp: hdr_ok_def line_ok_def)
  have cat: "length (concat (map render_hdr (h # hs))) = length (cut_hdr h) + length (concat (map render_hdr hs))"
    by (simp add: length_render_cut)
  have bnd: "header_boundary (pre @ cut_hdr h @ x) (length pre + length (fst h) + 2) boundary =
      Some (Some (pre @ cut_hdr h @ x, if take 26 (snd h) = MIXED then Some (length pre + length (fst h) + 28) else boundary))"
    if "length (pre @ cut_hdr h @ x) \<le> RSIZE_MAX_STR" for x
    using header_boundary_ok [OF ok(2,3), of "pre @ fst h @ [NUL, NUL]" "NUL # x" "length pre + length (fst h) + 2" boundary] that
    by (simp add: cut_hdr_def)
  show ?case
  proof (cases "hs = []")
    case True
    then have m: "m = pre @ render_hdr h @ CRLF @ rest" using Cons.prems(6) by simp
    note s = parse_single_header_line [OF ok(1) m _ Cons.prems(4,5,7)] header_line_skips(3) [OF ok(1) m _ Cons.prems(4,5,7)]
    have e: "e + 4 = length (pre @ cut_hdr h) + length CRLF" using Cons.prems(8) cat True by simp
    have "length (pre @ cut_hdr h @ [NUL, NUL] @ rest) \<le> RSIZE_MAX_STR" using Cons.prems(7) m by (simp add: length_render_cut CRLF_def)
    note b = bnd [OF this]
    show ?thesis
      unfolding n split_loop.simps using s e True b by (simp add: numeral_eq_Suc)
  next
    case False
    define post where "post = concat (map render_hdr hs) @ CRLF @ rest"
    obtain h' hs' where hs: "hs = h' # hs'" using False by (cases hs) auto
    then have hd: "hd0 post \<noteq> CR" "hd0 post \<noteq> LF"
      using Cons.prems(1) by (cases "fst h'"; auto simp: post_def render_hdr_def hdr_ok_def line_ok_def)+
    have m: "m = pre @ render_hdr h @ [] @ post" using Cons.prems(6) by (simp add: post_def)
    note s = parse_single_header_line [OF ok(1) m _ hd Cons.prems(7)] header_line_skips(3) [OF ok(1) m _ hd Cons.prems(7)]
    have before: "\<not> length (pre @ cut_hdr h) > e" using Cons.prems(8) cat hs by (simp add: length_render_cut)
    have L: "length ((pre @ cut_hdr h) @ post) \<le> RSIZE_MAX_STR" using Cons.prems(7) m by (simp add: length_render_cut)
    have IH: "split_loop (Some e) k ((pre @ cut_hdr h) @ post) (length (pre @ cut_hdr h)) bd =
        Some (Some ((pre @ cut_hdr h) @ concat (map cut_hdr hs) @ [NUL, NUL] @ rest, e + 4, hdr_addrs (length (pre @ cut_hdr h)) hs,
          hdr_boundary (length (pre @ cut_hdr h)) hs bd))" for bd
    proof (rule Cons.IH)
      show "e + 2 = length (pre @ cut_hdr h) + length (concat (map render_hdr hs))" using Cons.prems(8) cat by simp
    qed (use Cons.prems False n post_def L in auto)
    have A: "length (pre @ cut_hdr h) = length pre + length (fst h) + length (snd h) + 4" by (simp add: cut_hdr_def)
    show ?thesis
      unfolding n split_loop.simps using s before IH bnd [of post] L unfolding A by (simp add: add.assoc)
  qed
qed simp

lemma parse_and_split_render:
  assumes "line_ok line" and "\<forall>h \<in> set hs. hdr_ok h \<and> ct_ok (snd h)" and "hs \<noteq> []" and "length hs \<le> MAX_HEADERS"
    and "hd0 (body @ pad) \<noteq> CR" "hd0 (body @ pad) \<noteq> LF"
    and "length (response_text line hs body @ pad) \<le> RSIZE_MAX_STR"
  shows "parse_and_split_keygen_rsp (response_text line hs body @ pad) =
    Some (Some (line @ [NUL, NUL] @ concat (map cut_hdr hs) @ [NUL, NUL] @ body @ pad,
          length (response_text line hs []), hdr_addrs (length line + 2) hs, hdr_boundary (length line + 2) hs None))"
proof -
  let ?B = "concat (map render_hdr hs)" and ?m = "response_text line hs body @ pad"
  have hok: "\<forall>h \<in> set hs. hdr_ok h" using assms(2) by blast
  obtain e where e: "e = length line + length ?B" by simp
  have s: "skip ?m 0 CRLF = Some ((line @ [NUL, NUL]) @ ?B @ CRLF @ body @ pad, length (line @ [NUL, NUL]), 0)"
    "snd (strstr_s ?m (strnlen_s (Some ?m) RSIZE_MAX_STR) (CRLF @ CRLF) 4) = Some e"
    using first_line_skips [OF assms(1) hok assms(3,7)] e by simp_all
  have "split_loop (Some e) MAX_HEADERS ((line @ [NUL, NUL]) @ ?B @ CRLF @ body @ pad) (length (line @ [NUL, NUL])) None =
      Some (Some ((line @ [NUL, NUL]) @ concat (map cut_hdr hs) @ [NUL, NUL] @ body @ pad, e + 4,
        hdr_addrs (length (line @ [NUL, NUL])) hs, hdr_boundary (length (line @ [NUL, NUL])) hs None))"
    using assms by (intro split_loop_render) (auto simp: e response_text_def CRLF_def)
  then show ?thesis
    unfolding parse_and_split_keygen_rsp_def using s by (simp add: e response_text_def CRLF_def)
qed

section \<open>Delivery of a key and a certificate\<close>

lemma hdr_boundary_plain: "\<forall>h \<in> set hs. take 26 (snd h) \<noteq> MIXED \<Longrightarrow> hdr_boundary off hs bd = bd"
  by (induction hs arbitrary: off) auto

lemma hdr_boundary_at:
  assumes "\<forall>h \<in> set (hs1 @ hs2). take 26 (snd h) \<noteq> MIXED"
  shows "hdr_boundary off (hs1 @ (n, MIXED @ b) # hs2) bd = Some (off + length (concat (map cut_hdr hs1)) + length n + 28)"
  using assms
proof (induction hs1 arbitrary: off bd)
  case Nil
  have "take 26 (MIXED @ b) = MIXED" by (simp add: MIXED_def)
  then show ?case using Nil by (simp add: hdr_boundary_plain)
next
  case (Cons h hs1)
  then show ?case by (simp add: cut_hdr_def [of h])
qed

text \<open>Headers of which exactly one announces a multipart body with boundary \<open>b\<close>.\<close>

definition mixed_headers :: "string \<Rightarrow> (string \<times> string) list \<Rightarrow> bool" where
  "mixed_headers b hs \<longleftrightarrow> (\<exists>hs1 n hs2. hs = hs1 @ (n, MIXED @ b) # hs2
     \<and> (\<forall>h \<in> set (hs1 @ hs2). find_sub ''multipart'' (snd h) = None))"

lemma mixed_headers_facts:
  assumes "mixed_headers b hs" and "bare_boundary b"
  obtains a u where "\<And>pre post. drop (length pre + a) (pre @ concat (map cut_hdr hs) @ post) = b @ NUL # u post"
    "\<And>off. hdr_boundary off hs None = Some (off + a)" "\<forall>h \<in> set hs. ct_ok (snd h)"
proof -
  obtain hs1 n hs2 where hs: "hs = hs1 @ (n, MIXED @ b) # hs2" "\<forall>h \<in> set (hs1 @ hs2). find_sub ''multipart'' (snd h) = None"
    using assms(1) by (auto simp: mixed_headers_def)
  have plain: "take 26 v \<noteq> MIXED" if "find_sub ''multipart'' v = None" for v
  proof
    assume "take 26 v = MIXED"
    then have "v = MIXED @ drop 26 v" by (metis append_take_drop_id)
    moreover have "find_sub ''multipart'' (MIXED @ w) = Some 0" for w by (simp add: MIXED_def)
    ultimately show False using that by (metis option.distinct(1))
  qed
  let ?a = "length (concat (map cut_hdr hs1)) + length n + 28"
  have m: "pre @ concat (map cut_hdr hs) @ post =
      (pre @ concat (map cut_hdr hs1) @ n @ [NUL, NUL] @ MIXED) @ b @ NUL # (NUL # concat (map cut_hdr hs2) @ post)" for pre post
    by (simp add: hs(1) cut_hdr_def [of "(n, MIXED @ b)"])
  have L: "length pre + ?a = length (pre @ concat (map cut_hdr hs1) @ n @ [NUL, NUL] @ MIXED)" for pre :: string
    by (simp add: MIXED_def)
  have "drop (length pre + ?a) (pre @ concat (map cut_hdr hs) @ post) = b @ NUL # (NUL # concat (map cut_hdr hs2) @ post)" for pre post
    unfolding m L by simp
  moreover have "hdr_boundary off hs None = Some (off + ?a)" for off
    unfolding hs(1) using hs(2) plain by (subst hdr_boundary_at) auto
  moreover have "take 26 (MIXED @ b) = MIXED" "drop 26 (MIXED @ b) = b" by (simp_all add: MIXED_def)
  then have "\<forall>h \<in> set hs. ct_ok (snd h)" using hs assms(2) by (auto simp: ct_ok_def)
  ultimately show thesis
    by (intro that [of ?a "\<lambda>post. NUL # concat (map cut_hdr hs2) @ post"])
qed

lemma find_sub_boundary:
  assumes "boundary_ok b"
  shows "find_sub b (''--'' @ b @ t) = Some 2"
proof -
  obtain c s where "b = c # s" "c \<noteq> CHR ''-''" using assms by (cases b) (auto simp: boundary_ok_def)
  moreover have "is_prefix b (b @ t)" by (induction b) simp_all
  moreover obtain d r where "b @ t = d # r" using calculation by auto
  ultimately show ?thesis by simp
qed

definition keygen_body :: "string \<Rightarrow> string \<Rightarrow> string \<Rightarrow> string \<Rightarrow> string" where
  "keygen_body b key cert tail = ''--'' @ part_text b PKCS8 key @ part_text b PKCS7_CO cert @ tail"

lemma keygen_content_delivers:
  assumes b: "boundary_ok b" "bare_boundary b" and "payload_ok key" "payload_ok cert" and "NUL \<notin> set tail"
    and len: "EST_MIN_CLIENT_PKEY_LEN \<le> length key" "EST_MIN_CLIENT_CERT_LEN \<le> length cert"
    and m: "drop payload m = keygen_body b key cert tail @ NUL # pad" "drop a m = b @ NUL # u"
  shows "keygen_content m payload (Some a) = Some (EST_ERR_NONE, Some (key, cert))"
proof -
  have nul: "NUL \<notin> set (keygen_body b key cert tail)" "NUL \<notin> set b"
    using assms by (auto simp: keygen_body_def part_text_def boundary_ok_def payload_ok_def PKCS8_def PKCS7_CO_def CRLF_def)
  obtain c s where c: "b = c # s" "c \<noteq> CHR ''*''" "c \<noteq> NUL" using b bare_boundary_chars [OF b(2)] by (cases b) (auto simp: boundary_ok_def)
  have star: "strncmp (b @ NUL # u) ''*'' 1 \<noteq> 0" using c by (simp add: strncmp_eq_0 del: strncmp.simps)
  obtain t where t: "keygen_body b key cert tail = ''--'' @ b @ t" by (simp add: keygen_body_def part_text_def)
  have "cstr (keygen_body b key cert tail @ NUL # pad) = keygen_body b key cert tail" "cstr (b @ NUL # u) = b" using nul by simp_all
  then have "strstr (drop payload m) (drop a m) = Some 2"
    unfolding strstr_def m using find_sub_boundary [OF b(1), of t] t by metis
  moreover have "parse_remaining_multipart_payload (drop payload m) (drop a m) = Some (EST_ERR_NONE, key, cert)"
    unfolding m keygen_body_def using parse_remaining_parts [OF b(1) assms(3-5), of pad u] by simp
  ultimately show ?thesis
    using star len m(2) by (simp add: keygen_content_def strstr_s_def)
qed

lemma multipart_delivers:
  assumes "concat chunks = response_text line hs (keygen_body b key cert tail)" and "\<forall>c \<in> set chunks. c \<noteq> []"
    and "take 12 line = ''HTTP/1.1 200''" and "line_ok line"
    and "\<forall>h \<in> set hs. hdr_ok h" and "mixed_headers b hs" and "length hs \<le> MAX_HEADERS"
    and b: "boundary_ok b" "bare_boundary b" and "payload_ok key" "payload_ok cert" and "NUL \<notin> set tail"
    and len: "EST_MIN_CLIENT_PKEY_LEN \<le> length key" "EST_MIN_CLIENT_CERT_LEN \<le> length cert"
    and small: "length (response_text line hs (keygen_body b key cert tail)) < EST_CA_MAX"
  shows "est_io_get_multipart_response ctx (map Read_Bytes chunks) peek =
    Some (EST_ERR_NONE, ctx\<lparr>last_http_status := 200\<rparr>, Some (key, cert))"
proof -
  define body where "body = keygen_body b key cert tail"
  let ?T = "response_text line hs body"
  obtain k where k: "EST_CA_MAX - length ?T = Suc k" using small by (metis Suc_diff_Suc body_def)
  define pad where "pad = replicate (EST_CA_MAX - length ?T) NUL"
  have pad: "pad = NUL # replicate k NUL" by (simp add: pad_def k)
  have hs0: "hs \<noteq> []" using assms(6) by (auto simp: mixed_headers_def)
  have T0: "?T \<noteq> []" by (simp add: response_text_def CRLF_def)
  have "EST_CA_MAX \<le> RSIZE_MAX_STR" by (simp add: EST_CA_MAX_def RSIZE_MAX_STR_def)
  then have rsz: "length (?T @ pad) \<le> RSIZE_MAX_STR" using small by (simp add: pad_def body_def)
  have read: "est_io_read_raw (map Read_Bytes chunks) peek EST_CA_MAX = (EST_ERR_NONE, ?T)"
    using read_loop_chunks [of chunks "[]" EST_CA_MAX] assms(1,2) small by (simp add: est_io_read_raw_def body_def)
  have "length (take 12 line) = 12" using assms(3) by simp
  then have "12 \<le> length line" by simp
  then have st: "est_io_parse_response_status_code (?T @ pad) = 200"
    using response_status_line [of line 200 "CRLF @ concat (map render_hdr hs) @ CRLF @ body @ pad"] assms(3,4)
    by (simp add: response_text_def line_ok_def http_statuses_def)
  obtain a u where a: "\<And>pre post. drop (length pre + a) (pre @ concat (map cut_hdr hs) @ post) = b @ NUL # u post"
    "\<And>off. hdr_boundary off hs None = Some (off + a)" "\<forall>h \<in> set hs. ct_ok (snd h)"
    using mixed_headers_facts [OF assms(6) b(2)] by blast
  let ?m = "line @ [NUL, NUL] @ concat (map cut_hdr hs) @ [NUL, NUL] @ body @ pad" and ?p = "length (response_text line hs [])"
  have hd: "hd0 (body @ pad) \<noteq> CR" "hd0 (body @ pad) \<noteq> LF" by (simp_all add: body_def keygen_body_def)
  have parse: "parse_and_split_keygen_rsp (?T @ pad) =
      Some (Some (?m, ?p, hdr_addrs (length line + 2) hs, Some (length line + 2 + a)))"
    using parse_and_split_render [OF assms(4) _ hs0 assms(7) hd rsz] assms(5) a(2,3) by simp
  have "length (line @ [NUL, NUL] @ concat (map cut_hdr hs) @ [NUL, NUL]) = ?p"
    by (simp add: response_text_def length_concat length_render_cut(1) comp_def)
  then have "drop ?p ?m = keygen_body b key cert tail @ NUL # replicate k NUL"
    unfolding pad body_def by (metis append_assoc append_eq_conv_conj)
  moreover have "drop (length line + 2 + a) ?m = b @ NUL # u ([NUL, NUL] @ body @ pad)"
    using a(1) [of "line @ [NUL, NUL]" "[NUL, NUL] @ body @ pad"] by simp
  ultimately have "keygen_content ?m ?p (Some (length line + 2 + a)) = Some (EST_ERR_NONE, Some (key, cert))"
    using b assms(10-14) by (intro keygen_content_delivers)
  then show ?thesis
    unfolding est_io_get_multipart_response_def read
    using T0 st parse by (simp add: pad_def [symmetric] Let_def status_result_def)
qed

section \<open>Invariants of a run\<close>

text \<open>
  What the callbacks keep and the parser does not touch holds at the end of every run: \<open>I\<close> may speak of the
  headers and the data, but not of the state, the index and the look-behind buffer.
\<close>

locale mp_invariant =
  fixes s :: multipart_parser_settings
    and I :: "multipart_parser \<Rightarrow> bool"
  assumes own: "I (p\<lparr>mp_state := st\<rparr>) = I p" "I (p\<lparr>mp_index := n\<rparr>) = I p" "I (p\<lparr>lookbehind := lb\<rparr>) = I p"
    and data_cb: "on_header_field s = Some f \<or> on_header_value s = Some f \<or> on_part_data s = Some f \<Longrightarrow>
      I p \<Longrightarrow> f p bs = Some (r, p') \<Longrightarrow> I p'"
    and notify_cb: "on_part_data_begin s = Some g \<or> on_headers_complete s = Some g \<or> on_part_data_end s = Some g \<or> on_body_end s = Some g \<Longrightarrow>
      I p \<Longrightarrow> g p = Some (r, p') \<Longrightarrow> I p'"
begin

definition keeps :: "mp_result option \<Rightarrow> bool" where
  "keeps r \<longleftrightarrow> (\<forall>n p l. (r = Some (Return n p) \<longrightarrow> I p) \<and> (r = Some (Next p l) \<longrightarrow> I p))"

lemma keeps_simps [simp]: "keeps None" "keeps (Some (Return n p)) = I p" "keeps (stop p l) = I p" "keeps (adv n p l) = I p"
  by (simp_all add: keeps_def stop_def adv_def)

lemma keeps_bind: "(\<And>x. m = Some x \<Longrightarrow> keeps (k x)) \<Longrightarrow> keeps (Option.bind m k)"
  by (cases m) simp_all

lemma keeps_emit:
  assumes "I p" and "cb = on_header_field s \<or> cb = on_header_value s \<or> cb = on_part_data s" and "\<And>p'. I p' \<Longrightarrow> keeps (k p')"
  shows "keeps (EMIT_DATA_CB cb p l bytes k)"
proof (cases cb)
  case (Some f)
  then have f: "on_header_field s = Some f \<or> on_header_value s = Some f \<or> on_part_data s = Some f" using assms(2) by auto
  show ?thesis using Some assms(1,3) data_cb [OF f assms(1)] by (auto simp: EMIT_DATA_CB_def intro!: keeps_bind)
qed (use assms in \<open>simp add: EMIT_DATA_CB_def\<close>)

lemma keeps_notify:
  assumes "I p" and "cb = on_part_data_begin s \<or> cb = on_headers_complete s \<or> cb = on_part_data_end s \<or> cb = on_body_end s"
    and "\<And>p'. I p' \<Longrightarrow> keeps (k p')"
  shows "keeps (NOTIFY_CB cb p l k)"
proof (cases cb)
  case (Some g)
  then have g: "on_part_data_begin s = Some g \<or> on_headers_complete s = Some g \<or> on_part_data_end s = Some g \<or> on_body_end s = Some g"
    using assms(2) by auto
  show ?thesis using Some assms(1,3) notify_cb [OF g assms(1)] by (auto simp: NOTIFY_CB_def intro!: keeps_bind)
qed (use assms in \<open>simp add: NOTIFY_CB_def\<close>)

lemma keeps_parts:
  assumes "I p"
  shows "keeps (mp_start_boundary s c p l)" "keeps (mp_header_field s buf is_last c p l)"
    "keeps (mp_header_value s buf is_last c p l)" "keeps (mp_part_data s buf is_last c p l)"
  using assms
  by (auto simp: mp_start_boundary_def mp_header_field_def mp_header_value_def mp_part_data_def Let_def own
      intro!: keeps_bind keeps_emit keeps_notify)

lemma keeps_step: "I p \<Longrightarrow> keeps (mp_step s buf len p l)"
  unfolding mp_step_def Let_def
  by (cases "mp_state p") (auto simp: own intro!: keeps_bind keeps_emit keeps_notify keeps_parts)

lemma keeps_loop: "mp_loop s buf len p l = Some (n, p') \<Longrightarrow> I p \<Longrightarrow> I p'"
proof (induction "mp_measure len p l" arbitrary: p l rule: less_induct)
  case less
  note k = keeps_step [OF less.prems(2), of buf len l]
  show ?case
  proof (cases "mp_i l < len")
    case True
    show ?thesis
    proof (cases "mp_step s buf len p l")
      case None
      then show ?thesis using less.prems(1) True by (subst (asm) mp_loop.simps) simp
    next
      case (Some r)
      show ?thesis
      proof (cases r)
        case (Return k q)
        then show ?thesis using less.prems(1) True Some k mp_loop_return [of s buf len p l] by (simp add: keeps_def)
      next
        case (Next q l')
        then have "mp_measure len q l' < mp_measure len p l"
          using mp_step_moves [of p l s buf len] Some True by (auto simp: mp_moves_def mp_measure_def)
        moreover have "mp_loop s buf len q l' = Some (n, p')" "I q"
          using less.prems(1) mp_loop_next [of s buf len p l q l'] Some Next True k by (simp_all add: keeps_def)
        ultimately show ?thesis by (rule less.hyps)
      qed
    qed
  next
    case False
    then show ?thesis using less.prems by (subst (asm) mp_loop.simps) simp
  qed
qed

lemma keeps_execute: "multipart_parser_execute s p buf len = Some (n, p') \<Longrightarrow> I p \<Longrightarrow> I p'"
  unfolding multipart_parser_execute_def Let_def by (auto split: if_splits dest: keeps_loop)

end

text \<open>What the callbacks of the client store: at most \<^verbatim>\<open>MULTIPART_PARSE_DATA_MAX\<close> bytes that are not all blank.\<close>

definition stored_ok :: "string \<Rightarrow> bool" where
  "stored_ok d \<longleftrightarrow> d = [] \<or> length d \<le> MULTIPART_PARSE_DATA_MAX \<and> \<not> only_whitespace d"

lemma header_cbs_data:
  "read_header_name p bs = Some (r, p') \<Longrightarrow> key_data p' = key_data p \<and> cert_data p' = cert_data p"
  "read_header_value p bs = Some (r, p') \<Longrightarrow> key_data p' = key_data p \<and> cert_data p' = cert_data p"
  by (auto simp: read_header_name_def read_header_value_def multipart_parser_set_hdr_name_def multipart_parser_set_hdr_value_def
      bind_eq_Some_conv split: if_splits)

lemma store_part_data:
  assumes "store_part k c p bs = Some (r, p')" and "length bs \<le> MULTIPART_PARSE_DATA_MAX"
  shows "(key_data p' = key_data p \<or> key_data p' = bs \<and> stored_ok bs) \<and> (cert_data p' = cert_data p \<or> cert_data p' = bs \<and> stored_ok bs)"
  using assms
  by (cases k; cases c; cases "only_whitespace bs")
    (auto simp: store_part_def stored_ok_def multipart_set_key_data_def multipart_set_cert_data_def multipart_reset_hdrs_def split: if_splits)

lemma part_data_cb_data:
  assumes "part_data_cb p bs = Some (r, p')"
  shows "(key_data p' = key_data p \<or> key_data p' = bs \<and> stored_ok bs) \<and> (cert_data p' = cert_data p \<or> cert_data p' = bs \<and> stored_ok bs)"
proof -
  from assms have "p' = p \<or> (\<exists>k c. store_part k c p bs = Some (r, p') \<and> length bs \<le> MULTIPART_PARSE_DATA_MAX)"
    unfolding part_data_cb_def by (force simp: bind_eq_Some_conv split: option.splits if_splits)
  then show ?thesis using store_part_data by metis
qed

interpretation client_parser: mp_invariant client_callbacks "\<lambda>p. stored_ok (key_data p) \<and> stored_ok (cert_data p)"
proof unfold_locales
  fix f p bs r p'
  assume "on_header_field client_callbacks = Some f \<or> on_header_value client_callbacks = Some f \<or> on_part_data client_callbacks = Some f"
    and "stored_ok (key_data p) \<and> stored_ok (cert_data p)" and "f p bs = Some (r, p')"
  then show "stored_ok (key_data p') \<and> stored_ok (cert_data p')"
    using header_cbs_data [of p bs r p'] part_data_cb_data [of p bs r p'] by auto
qed (auto simp: client_callbacks_def)

lemma parse_remaining_stored:
  assumes "parse_remaining_multipart_payload buf boundary = Some (rv, key, cert)"
  shows "stored_ok key \<and> stored_ok cert"
proof -
  from assms obtain p0 n p where p: "multipart_parser_init boundary = Some p0"
    "multipart_parser_execute client_callbacks p0 buf (length (cstr buf)) = Some (n, p)" "key = key_data p" "cert = cert_data p"
    by (auto simp: parse_remaining_multipart_payload_def bind_eq_Some_conv Let_def split: if_splits)
  have "stored_ok (key_data p0) \<and> stored_ok (cert_data p0)"
    using p(1) by (auto simp: multipart_parser_init_def bind_eq_Some_conv stored_ok_def)
  from client_parser.keeps_execute [OF p(2) this] show ?thesis using p(3,4) by simp
qed

text \<open>
  C23: A key generation response is understood. If the bytes of the server, however they are split into
  reads, are a status line 200, well-formed headers of which one announces a multipart body, and a body
  with a PKCS8 part and a certificate part of legal sizes, then est_io_get_multipart_response returns the
  bytes of the two parts.
\<close>

theorem est_io_get_multipart_response_delivers:
  assumes "concat chunks = response_text line hs (keygen_body b key cert tail)" and "\<forall>c \<in> set chunks. c \<noteq> []"
    and "take 12 line = ''HTTP/1.1 200''" and "line_ok line"
    and "\<forall>h \<in> set hs. hdr_ok h" and "mixed_headers b hs" and "length hs \<le> MAX_HEADERS"
    and "boundary_ok b" "bare_boundary b" and "payload_ok key" "payload_ok cert" and "NUL \<notin> set tail"
    and "EST_MIN_CLIENT_PKEY_LEN \<le> length key" "EST_MIN_CLIENT_CERT_LEN \<le> length cert"
    and "length (response_text line hs (keygen_body b key cert tail)) < EST_CA_MAX"
  shows "est_io_get_multipart_response ctx (map Read_Bytes chunks) peek =
    Some (EST_ERR_NONE, ctx\<lparr>last_http_status := 200\<rparr>, Some (key, cert))"
  using assms by (rule multipart_delivers)

text \<open>
  What a key generation response can hand to the application. Whatever the server sends, a key and a
  certificate that est_io_get_multipart_response returns without error come from a response with status 200,
  have at least 256 and 128 bytes, fit the 8192 bytes of the parser's arrays and are not blank.
\<close>

theorem est_io_get_multipart_response_bounds:
  assumes "est_io_get_multipart_response ctx rs peek = Some (EST_ERR_NONE, ctx', Some (key, cert))"
  shows "last_http_status ctx' = 200 \<and> length key \<in> {256..8192} \<and> length cert \<in> {128..8192}
    \<and> \<not> only_whitespace key \<and> \<not> only_whitespace cert"
proof -
  obtain raw m payload hs boundary where r: "parse_and_split_keygen_rsp raw = Some (Some (m, payload, hs, boundary))"
    "status_result (est_io_parse_response_status_code raw) (ctx\<lparr>last_http_status := est_io_parse_response_status_code raw\<rparr>) (hdr_strings m hs) = Some (EST_ERR_NONE, ctx')"
    "keygen_content m payload boundary = Some (EST_ERR_NONE, Some (key, cert))"
    using assms by (auto simp: est_io_get_multipart_response_def Let_def bind_eq_Some_conv split: prod.splits option.splits if_splits)
  have "last_http_status ctx' = 200" using status_result_NONE [OF r(2)] by auto
  moreover obtain buf b where "parse_remaining_multipart_payload buf b = Some (EST_ERR_NONE, key, cert)"
    and "EST_MIN_CLIENT_PKEY_LEN \<le> length key" "EST_MIN_CLIENT_CERT_LEN \<le> length cert"
    using r(3) by (auto simp: keygen_content_def bind_eq_Some_conv split: option.splits if_splits)
  ultimately show ?thesis
    using parse_remaining_stored [of buf b EST_ERR_NONE key cert]
    by (auto simp: stored_ok_def EST_MIN_CLIENT_PKEY_LEN_def EST_MIN_CLIENT_CERT_LEN_def MULTIPART_PARSE_DATA_MAX_def)
qed

section \<open>A sample response\<close>

definition sample_key :: string where "sample_key = replicate 256 (CHR ''k'')"
definition sample_cert :: string where "sample_cert = replicate 128 (CHR ''c'')"
definition sample_mixed :: "(string \<times> string) list" where
  "sample_mixed = [(''Status'', ''200 OK''), (''Content-Type'', MIXED @ ''bnd'')]"

lemma sample_parts: "payload_ok sample_key" "payload_ok sample_cert" "length sample_key = 256" "length sample_cert = 128"
  by (simp_all add: payload_ok_def sample_key_def sample_cert_def only_whitespace_def MULTIPART_PARSE_DATA_MAX_def list_all_iff)

lemma sample_boundary: "boundary_ok ''bnd''" "bare_boundary ''bnd''"
  by (simp_all add: boundary_ok_def bare_boundary_def validate_boundary_string_def uchr_def MAX_MULTI_BOUNDARY_LEN_def)

lemma sample_mixed_ok: "\<forall>h \<in> set sample_mixed. hdr_ok h" "mixed_headers ''bnd'' sample_mixed" "length sample_mixed \<le> MAX_HEADERS"
proof -
  show "mixed_headers ''bnd'' sample_mixed"
    unfolding mixed_headers_def by (rule exI [of _ "[(''Status'', ''200 OK'')]"]) (simp add: sample_mixed_def)
qed (simp_all add: sample_mixed_def hdr_ok_def line_ok_def MIXED_def MAX_HEADERS_def)

lemma sample_response_small:
  "length (response_text ''HTTP/1.1 200 OK'' sample_mixed (keygen_body ''bnd'' sample_key sample_cert ''bnd--'')) < EST_CA_MAX"
  by (simp add: response_text_def keygen_body_def part_text_def sample_parts sample_mixed_def render_hdr_def MIXED_def PKCS8_def PKCS7_CO_def
      EST_CA_MAX_def)

lemmas sample_multipart = sample_mixed_ok sample_boundary sample_parts(1,2) sample_response_small

theorem est_io_get_multipart_response_delivers_witness:
  "est_io_get_multipart_response sample_client
     (map Read_Bytes [response_text ''HTTP/1.1 200 OK'' sample_mixed (keygen_body ''bnd'' sample_key sample_cert ''bnd--'')]) False =
   Some (EST_ERR_NONE, sample_client\<lparr>last_http_status := 200\<rparr>, Some (sample_key, sample_cert))"
proof -
  let ?r = "response_text ''HTTP/1.1 200 OK'' sample_mixed (keygen_body ''bnd'' sample_key sample_cert ''bnd--'')"
  have "concat [?r] = ?r" "?r \<noteq> []" by (simp_all add: response_text_def)
  then show ?thesis
    using sample_multipart sample_parts(3,4)
    by (intro est_io_get_multipart_response_delivers [where line = "''HTTP/1.1 200 OK''" and tail = "''bnd--''"])
      (simp_all add: line_ok_def EST_MIN_CLIENT_PKEY_LEN_def EST_MIN_CLIENT_CERT_LEN_def)
qed

theorem est_io_get_multipart_response_bounds_witness:
  "length sample_key \<in> {256..8192} \<and> length sample_cert \<in> {128..8192} \<and> \<not> only_whitespace sample_key"
proof -
  let ?r = "response_text ''HTTP/1.1 200 OK'' sample_mixed (keygen_body ''bnd'' sample_key sample_cert ''bnd--'')"
  have "concat [?r] = ?r" "?r \<noteq> []" by (simp_all add: response_text_def)
  then have "est_io_get_multipart_response sample_client (map Read_Bytes [?r]) False =
      Some (EST_ERR_NONE, sample_client\<lparr>last_http_status := 200\<rparr>, Some (sample_key, sample_cert))"
    using sample_multipart sample_parts(3,4)
    by (intro multipart_delivers [where line = "''HTTP/1.1 200 OK''" and tail = "''bnd--''"])
      (simp_all add: line_ok_def EST_MIN_CLIENT_PKEY_LEN_def EST_MIN_CLIENT_CERT_LEN_def)
  from est_io_get_multipart_response_bounds [OF this] show ?thesis by simp
qed

end
