(* ===== verification/Client_Host.thy ===== *)
theory Client_Host
  imports Est_Strings
begin

text \<open>
  The check of the server's identity in the client (\<^verbatim>\<open>src/src/est/est_client.c\<close>): the case-insensitive
  comparisons and the wildcard matching taken from cURL, \<^verbatim>\<open>est_client_verifyhost\<close> over the alternative
  names and the common names of the certificate, and \<^verbatim>\<open>est_client_check_fqdn\<close>.

  The certificate is what OpenSSL reports about it (\<open>server_cert\<close>). \<^verbatim>\<open>inet_pton\<close> is a parameter: the two
  functions give the bytes of an IPv4 and of an IPv6 address when the text is one. The allocation of
  the copy of a common name succeeds. \<^term>\<open>None\<close> is a read outside an object.
\<close>

section \<open>Comparing and matching\<close>

definition est_client_Curl_raw_toupper :: "char \<Rightarrow> char" where
  "est_client_Curl_raw_toupper c =
     (case map_of (zip ''abcdefghijklmnopqrstuvwxyz'' ''ABCDEFGHIJKLMNOPQRSTUVWXYZ'') c of
        Some u \<Rightarrow> u | None \<Rightarrow> c)"

function est_client_Curl_raw_equal :: "string \<Rightarrow> string \<Rightarrow> bool" where
  "est_client_Curl_raw_equal a b =
     (let u = est_client_Curl_raw_toupper in
      if hd0 a \<noteq> NUL \<and> hd0 b \<noteq> NUL \<and> u (hd0 a) = u (hd0 b)
      then est_client_Curl_raw_equal (tl a) (tl b)
      else u (hd0 a) = u (hd0 b))"
  by pat_completeness auto
termination
  by (relation "measure (\<lambda>(a, b). length a)") (auto simp: hd0_def split: list.splits)

fun est_client_Curl_raw_nequal :: "string \<Rightarrow> string \<Rightarrow> nat \<Rightarrow> bool" where
  "est_client_Curl_raw_nequal a b 0 = True"
| "est_client_Curl_raw_nequal a b (Suc n) =
     (let u = est_client_Curl_raw_toupper in
      if hd0 a \<noteq> NUL \<and> hd0 b \<noteq> NUL \<and> u (hd0 a) = u (hd0 b)
      then est_client_Curl_raw_nequal (tl a) (tl b) n
      else u (hd0 a) = u (hd0 b))"

text \<open>\<^verbatim>\<open>strchr\<close> gives an index; the pointers into the names become indices.\<close>

definition est_client_hostmatch :: "(string \<Rightarrow> bool) \<Rightarrow> string \<Rightarrow> string \<Rightarrow> bool" where
  "est_client_hostmatch numeric hostname pattern =
     (case strchr pattern (CHR ''*'') of
        None \<Rightarrow> est_client_Curl_raw_equal pattern hostname
      | Some pw \<Rightarrow>
          if numeric hostname then False
          else (case strchr pattern (CHR ''.'') of
              None \<Rightarrow> est_client_Curl_raw_equal pattern hostname
            | Some pl \<Rightarrow>
                if strchr (drop (pl + 1) pattern) (CHR ''.'') = None \<or> pw > pl
                   \<or> est_client_Curl_raw_nequal pattern ''xn--'' 4
                then est_client_Curl_raw_equal pattern hostname
                else (case strchr hostname (CHR ''.'') of
                    None \<Rightarrow> False
                  | Some hl \<Rightarrow>
                      if \<not> est_client_Curl_raw_equal (drop pl pattern) (drop hl hostname) then False
                      else if hl < pl then False
                      else (let prefixlen = pw; suffixlen = pl - (pw + 1) in
                            est_client_Curl_raw_nequal pattern hostname prefixlen
                            \<and> est_client_Curl_raw_nequal (drop (pw + 1) pattern)
                                 (drop (hl - suffixlen) hostname) suffixlen))))"

definition est_client_cert_hostcheck :: "(string \<Rightarrow> bool) \<Rightarrow> string \<Rightarrow> string \<Rightarrow> bool" where
  "est_client_cert_hostcheck numeric match_pattern hostname =
     (if hd0 match_pattern = NUL \<or> hd0 hostname = NUL then False
      else if est_client_Curl_raw_equal hostname match_pattern then True
      else est_client_hostmatch numeric hostname match_pattern)"

section \<open>The names of a certificate\<close>

definition EST_MAX_SERVERNAME_LEN :: nat where "EST_MAX_SERVERNAME_LEN = 255"

text \<open>
  The string of a DNS name is followed by a NUL in OpenSSL's memory, the bytes of an address are not.
  A common name that is not a UTF8 string comes with what \<^verbatim>\<open>ASN1_STRING_to_UTF8\<close> makes of it, and it may
  have no data.
\<close>

datatype GENERAL_NAME = GEN_DNS string | GEN_IPADD string | GEN_OTHER

datatype CN_STRING = V_ASN1_UTF8STRING string | Other_String "string option"

record server_cert =
  altnames :: "GENERAL_NAME list option"
  common_names :: "CN_STRING option list"

record inet_addr =
  v4 :: "string \<Rightarrow> string option"
  v6 :: "string \<Rightarrow> string option"

definition is_ip :: "inet_addr \<Rightarrow> string \<Rightarrow> bool" where
  "is_ip net hostname \<longleftrightarrow> v4 net hostname \<noteq> None \<or> v6 net hostname \<noteq> None"

text \<open>The address \<^verbatim>\<open>est_client_verifyhost\<close> compares with; the variable \<^verbatim>\<open>matched\<close> is -1, 0 or 1.\<close>

definition host_addr :: "inet_addr \<Rightarrow> string \<Rightarrow> string option" where
  "host_addr net hostname = (case v4 net hostname of Some a \<Rightarrow> Some a | None \<Rightarrow> v6 net hostname)"

definition check_altname :: "inet_addr \<Rightarrow> string \<Rightarrow> GENERAL_NAME \<Rightarrow> int \<Rightarrow> int option" where
  "check_altname net hostname check matched =
     (case check of
        GEN_DNS altptr \<Rightarrow>
          Some (if length altptr = strnlen_s (Some altptr) EST_MAX_SERVERNAME_LEN
                   \<and> est_client_cert_hostcheck (is_ip net) altptr hostname then 1 else 0)
      | GEN_IPADD altptr \<Rightarrow>
          (case host_addr net hostname of
             None \<Rightarrow> Some 0
           | Some addr \<Rightarrow> do { (_, equal) \<leftarrow> memcmp_s (Some altptr) (length altptr) (Some addr) (length altptr);
                Some (if length altptr = length addr \<and> equal = Some True then 1 else 0) })
      | GEN_OTHER \<Rightarrow> Some matched)"

fun check_altnames :: "inet_addr \<Rightarrow> string \<Rightarrow> GENERAL_NAME list \<Rightarrow> int \<Rightarrow> int option" where
  "check_altnames net hostname [] matched = Some matched"
| "check_altnames net hostname (n # ns) matched =
     (if matched = 1 then Some matched
      else do { m \<leftarrow> check_altname net hostname n matched; check_altnames net hostname ns m })"

text \<open>
  The last common name: its bytes in \<^verbatim>\<open>peer_CN\<close> with the length \<^verbatim>\<open>j\<close>, which is -1 when the conversion
  fails and \<^verbatim>\<open>peer_CN\<close> stays the empty \<^verbatim>\<open>nulstr\<close>.
\<close>

definition check_common_name :: "inet_addr \<Rightarrow> string \<Rightarrow> CN_STRING option list \<Rightarrow> EST_ERROR" where
  "check_common_name net hostname cns =
     (let (peer_CN, j) = (if cns = [] then (None, 0)
            else (case last cns of
                None \<Rightarrow> (None, 0)
              | Some (V_ASN1_UTF8STRING s) \<Rightarrow> (Some s, int (length s))
              | Some (Other_String (Some s)) \<Rightarrow> (Some s, int (length s))
              | Some (Other_String None) \<Rightarrow> (None, - 1)));
          shown = (case peer_CN of Some s \<Rightarrow> s | None \<Rightarrow> []) in
      if int (strnlen_s (Some shown) EST_MAX_SERVERNAME_LEN) \<noteq> j then EST_ERR_FQDN_MISMATCH
      else (case peer_CN of
          None \<Rightarrow> EST_ERR_FQDN_MISMATCH
        | Some s \<Rightarrow> if \<not> est_client_cert_hostcheck (is_ip net) s hostname then EST_ERR_FQDN_MISMATCH
                    else EST_ERR_NONE))"

definition est_client_verifyhost :: "inet_addr \<Rightarrow> string \<Rightarrow> server_cert \<Rightarrow> EST_ERROR option" where
  "est_client_verifyhost net hostname cert =
     do { matched \<leftarrow> (case altnames cert of None \<Rightarrow> Some (- 1)
            | Some ns \<Rightarrow> check_altnames net hostname ns (- 1));
          Some (if matched = 1 then EST_ERR_NONE
                else if matched = 0 then EST_ERR_FQDN_MISMATCH
                else check_common_name net hostname (common_names cert)) }"

definition est_client_check_fqdn ::
  "inet_addr \<Rightarrow> string \<Rightarrow> bool \<Rightarrow> server_cert option \<Rightarrow> EST_ERROR option" where
  "est_client_check_fqdn net est_server enable_srp peer =
     (case peer of
        Some cert \<Rightarrow> est_client_verifyhost net est_server cert
      | None \<Rightarrow> Some (if enable_srp then EST_ERR_NONE else EST_ERR_FQDN_MISMATCH))"

section \<open>The comparisons\<close>

lemma raw_toupper [simp]: "est_client_Curl_raw_toupper c = toupper c"
proof -
  have lower: "''abcdefghijklmnopqrstuvwxyz'' = map char_of [97..<(123::nat)]"
    by code_simp
  have upper: "''ABCDEFGHIJKLMNOPQRSTUVWXYZ'' = map (\<lambda>n. char_of (n - 32)) [97..<(123::nat)]"
    by code_simp
  show ?thesis
  proof (cases "97 \<le> uchr c \<and> uchr c \<le> 122")
    case True
    have "list_all (\<lambda>n. est_client_Curl_raw_toupper (char_of n) = char_of (n - 32)) [97..<(123::nat)]"
      by code_simp
    moreover from True have "uchr c \<in> set [97..<(123::nat)]" unfolding set_upt by auto
    ultimately have "est_client_Curl_raw_toupper (char_of (uchr c)) = char_of (uchr c - 32)"
      unfolding list_all_iff by blast
    with True show ?thesis by (simp add: toupper_def uchr_def)
  next
    case False
    then have "c \<notin> set (map char_of [97..<(123::nat)])"
      by (auto simp: uchr_def)
    then have "map_of (zip (map char_of [97..<(123::nat)]) (map (\<lambda>n. char_of (n - 32)) [97..<(123::nat)])) c = None"
      by (auto simp: map_of_eq_None_iff simp del: upt_rec_numeral dest: in_set_zipE set_zip_leftD)
    with False show ?thesis
      unfolding est_client_Curl_raw_toupper_def lower upper by (auto simp: toupper_def)
  qed
qed

lemma toupper_eq_stable:
  "toupper c = CHR ''.'' \<longleftrightarrow> c = CHR ''.''" "CHR ''.'' = toupper c \<longleftrightarrow> c = CHR ''.''"
  "toupper c = CHR ''*'' \<longleftrightarrow> c = CHR ''*''" "CHR ''*'' = toupper c \<longleftrightarrow> c = CHR ''*''"
proof -
  have "uchr (toupper c) = n \<longleftrightarrow> uchr c = n" if "n < 65" for n
    using that by (auto simp: toupper_def uchr_def)
  moreover have "uchr (CHR ''.'') = 46" "uchr (CHR ''*'') = 42" by (simp_all add: uchr_def)
  ultimately have "toupper c = CHR ''.'' \<longleftrightarrow> c = CHR ''.''" "toupper c = CHR ''*'' \<longleftrightarrow> c = CHR ''*''"
    by (metis uchr_inj less_numeral_extra numeral_less_iff semiring_norm(68-81))+
  then show "toupper c = CHR ''.'' \<longleftrightarrow> c = CHR ''.''" "CHR ''.'' = toupper c \<longleftrightarrow> c = CHR ''.''"
    "toupper c = CHR ''*'' \<longleftrightarrow> c = CHR ''*''" "CHR ''*'' = toupper c \<longleftrightarrow> c = CHR ''*''"
    by (metis | simp)+
qed

lemma toupper_star_dot [simp]: "toupper (CHR ''.'') = CHR ''.''" "toupper (CHR ''*'') = CHR ''*''"
  by (simp_all add: toupper_eq_stable)

lemma upper_xn: "map toupper ''xn--'' = ''XN--''"
  by code_simp

declare est_client_Curl_raw_equal.simps [simp del]

lemma raw_equal_iff: "est_client_Curl_raw_equal a b \<longleftrightarrow> map toupper (cstr a) = map toupper (cstr b)"
proof (induction a b rule: est_client_Curl_raw_equal.induct)
  case (1 a b)
  then show ?case
    by (subst est_client_Curl_raw_equal.simps) (cases a; cases b; auto simp: Let_def)
qed

lemma raw_nequal_iff:
  "est_client_Curl_raw_nequal a b n \<longleftrightarrow> map toupper (take n (cstr a)) = map toupper (take n (cstr b))"
proof (induction a b n rule: est_client_Curl_raw_nequal.induct)
  case (2 a b n)
  then show ?case by (cases a; cases b; auto simp: Let_def)
qed simp

interpretation curl_cmp: ci_compare "\<lambda>a b. if est_client_Curl_raw_equal a b then 0 else 1" "\<lambda>_. True"
  by unfold_locales (simp add: raw_equal_iff)

section \<open>What the wildcard matching accepts\<close>

lemma cstr_drop: "k \<le> length (cstr s) \<Longrightarrow> cstr (drop k s) = drop k (cstr s)"
proof (induction s arbitrary: k)
  case (Cons c s)
  then show ?case by (cases k) (auto split: if_splits)
qed simp

lemma strchr_eq_Some:
  "strchr s c = Some i \<longleftrightarrow> (\<exists>a b. cstr s = a @ c # b \<and> c \<notin> set a \<and> length a = i)"
proof
  assume "strchr s c = Some i"
  then have i: "i < length (cstr s)" "cstr s ! i = c" "\<forall>j < i. cstr s ! j \<noteq> c"
    using strchr_Some by blast+
  have "cstr s = take i (cstr s) @ c # drop (Suc i) (cstr s)"
    using i(1,2) by (metis id_take_nth_drop)
  moreover have "c \<notin> set (take i (cstr s))" "length (take i (cstr s)) = i"
    using i by (auto simp: in_set_conv_nth)
  ultimately show "\<exists>a b. cstr s = a @ c # b \<and> c \<notin> set a \<and> length a = i" by blast
next
  assume "\<exists>a b. cstr s = a @ c # b \<and> c \<notin> set a \<and> length a = i"
  then obtain a b where "cstr s = a @ c # b" "c \<notin> set a" "length a = i" by blast
  moreover from this have "takeWhile (\<lambda>x. x \<noteq> c) (a @ c # b) = a"
    by (subst takeWhile_append2) auto
  ultimately show "strchr s c = Some i" by (simp add: strchr_def Let_def)
qed

text \<open>
  A pattern whose first label holds a star, and has at least two dots, stands for the names with the
  star replaced by a non-empty piece of the same label; labels of internationalised names have no
  wildcards.
\<close>

definition wildcard_match :: "string \<Rightarrow> string \<Rightarrow> bool" where
  "wildcard_match p h \<longleftrightarrow>
     (\<exists>pre suf rest mid.
        p = pre @ CHR ''*'' # suf @ CHR ''.'' # rest \<and> h = pre @ mid @ suf @ CHR ''.'' # rest
        \<and> mid \<noteq> [] \<and> CHR ''*'' \<notin> set pre \<and> CHR ''.'' \<notin> set (pre @ mid @ suf) \<and> CHR ''.'' \<in> set rest
        \<and> take 4 p \<noteq> ''XN--'')"

lemma in_map_toupper [simp]:
  "CHR ''.'' \<in> toupper ` S \<longleftrightarrow> CHR ''.'' \<in> S" "CHR ''*'' \<in> toupper ` S \<longleftrightarrow> CHR ''*'' \<in> S"
  using toupper_eq_stable by (metis imageE image_eqI)+

lemma wildcard_matchE:
  assumes "wildcard_match (map toupper p) (map toupper h)"
  obtains pre suf rest mid pre' suf' rest' where
    "p = pre @ CHR ''*'' # suf @ CHR ''.'' # rest" "h = pre' @ mid @ suf' @ CHR ''.'' # rest'"
    "map toupper pre = map toupper pre'" "map toupper suf = map toupper suf'"
    "map toupper rest = map toupper rest'" "mid \<noteq> []" "CHR ''*'' \<notin> set pre"
    "CHR ''.'' \<notin> set (pre @ suf)" "CHR ''.'' \<notin> set (pre' @ mid @ suf')" "CHR ''.'' \<in> set rest"
    "map toupper (take 4 p) \<noteq> ''XN--''"
proof -
  from assms obtain a b c m where
    "map toupper p = a @ CHR ''*'' # b @ CHR ''.'' # c" "map toupper h = a @ m @ b @ CHR ''.'' # c"
    "m \<noteq> []" "CHR ''*'' \<notin> set a" "CHR ''.'' \<notin> set (a @ m @ b)" "CHR ''.'' \<in> set c"
    "take 4 (map toupper p) \<noteq> ''XN--''"
    unfolding wildcard_match_def by blast
  note pm = this
  from pm(1) obtain pre p1 where p1: "p = pre @ p1" "map toupper pre = a" "map toupper p1 = CHR ''*'' # b @ CHR ''.'' # c"
    by (auto simp: map_eq_append_conv)
  from p1(3) obtain p2 where p2: "p1 = CHR ''*'' # p2" "map toupper p2 = b @ CHR ''.'' # c"
    by (auto simp: map_eq_Cons_conv toupper_eq_stable)
  from p2(2) obtain suf rest where p3: "p2 = suf @ CHR ''.'' # rest" "map toupper suf = b" "map toupper rest = c"
    by (auto simp: map_eq_append_conv map_eq_Cons_conv toupper_eq_stable)
  from pm(2) obtain pre' h0 where h0: "h = pre' @ h0" "map toupper pre' = a" "map toupper h0 = m @ b @ CHR ''.'' # c"
    unfolding map_eq_append_conv [of toupper h] by metis
  from h0(3) obtain mid h2 where "h0 = mid @ h2" "map toupper mid = m" "map toupper h2 = b @ CHR ''.'' # c"
    unfolding map_eq_append_conv [of toupper h0] by metis
  with h0 have h1: "h = pre' @ mid @ h2" "map toupper pre' = a" "map toupper mid = m"
    "map toupper h2 = b @ CHR ''.'' # c" by simp_all
  from h1(4) obtain suf' rest' where h2: "h2 = suf' @ CHR ''.'' # rest'" "map toupper suf' = b" "map toupper rest' = c"
    by (auto simp: map_eq_append_conv map_eq_Cons_conv toupper_eq_stable)
  show thesis
  proof (rule that)
    show "p = pre @ CHR ''*'' # suf @ CHR ''.'' # rest" using p1 p2 p3 by simp
    show "h = pre' @ mid @ suf' @ CHR ''.'' # rest'" using h1 h2 by simp
    show "CHR ''*'' \<notin> set pre" "CHR ''.'' \<notin> set (pre @ suf)" "CHR ''.'' \<notin> set (pre' @ mid @ suf')" "CHR ''.'' \<in> set rest"
      using pm(4-6) unfolding p1(2) [symmetric] h1(2,3) [symmetric] p3(2,3) [symmetric] using h1(2) h2(2) p1(2) p3(2)
      by (auto dest!: arg_cong [of _ _ set])
    show "map toupper (take 4 p) \<noteq> ''XN--''" using pm(7) by (simp add: take_map)
  qed (use p1 p3 h1 h2 pm in auto)
qed

lemma hostmatch_wildcard:
  assumes P: "cstr pattern = pre @ CHR ''*'' # suf @ CHR ''.'' # rest"
    and P': "CHR ''*'' \<notin> set pre" "CHR ''.'' \<notin> set (pre @ suf)" "CHR ''.'' \<in> set rest"
      "map toupper (take 4 (cstr pattern)) \<noteq> ''XN--''"
    and H: "cstr hostname = hlab @ CHR ''.'' # hrest" "CHR ''.'' \<notin> set hlab"
    and ip: "\<not> numeric hostname"
  shows "est_client_hostmatch numeric hostname pattern \<longleftrightarrow>
    map toupper rest = map toupper hrest \<and> length pre + 1 + length suf \<le> length hlab
    \<and> map toupper pre = map toupper (take (length pre) hlab)
    \<and> map toupper suf = map toupper (drop (length hlab - length suf) hlab)"
proof -
  let ?pl = "length pre + 1 + length suf"
  have star: "strchr pattern (CHR ''*'') = Some (length pre)"
    using P P' by (auto simp: strchr_eq_Some)
  have dot: "strchr pattern (CHR ''.'') = Some ?pl"
    unfolding strchr_eq_Some
    using P P' by (intro exI [of _ "pre @ CHR ''*'' # suf"] exI [of _ rest]) simp
  have hdot: "strchr hostname (CHR ''.'') = Some (length hlab)"
    using H by (auto simp: strchr_eq_Some)
  have len: "?pl + 1 \<le> length (cstr pattern)" using P by simp
  have dropp: "cstr (drop ?pl pattern) = CHR ''.'' # rest" "cstr (drop (?pl + 1) pattern) = rest"
    "cstr (drop (length pre + 1) pattern) = suf @ CHR ''.'' # rest"
    using len P by (simp_all add: cstr_drop)
  have droph: "cstr (drop (length hlab) hostname) = CHR ''.'' # hrest"
    "cstr (drop (length hlab - n) hostname) = drop (length hlab - n) hlab @ CHR ''.'' # hrest" for n
    using H by (simp_all add: cstr_drop)
  have two: "strchr (drop (?pl + 1) pattern) (CHR ''.'') \<noteq> None"
    unfolding strchr_None using dropp(2) P' by simp
  have xn: "\<not> est_client_Curl_raw_nequal pattern ''xn--'' 4"
    using P'(4) by (simp add: raw_nequal_iff upper_xn del: list.map)
  have rest: "est_client_Curl_raw_equal (drop ?pl pattern) (drop (length hlab) hostname)
      \<longleftrightarrow> map toupper rest = map toupper hrest"
    unfolding raw_equal_iff dropp droph by simp
  have pre: "est_client_Curl_raw_nequal pattern hostname (length pre)
      \<longleftrightarrow> map toupper pre = map toupper (take (length pre) hlab)" if "?pl \<le> length hlab"
    using that P H by (simp add: raw_nequal_iff)
  have suf: "est_client_Curl_raw_nequal (drop (length pre + 1) pattern)
      (drop (length hlab - length suf) hostname) (length suf)
      \<longleftrightarrow> map toupper suf = map toupper (drop (length hlab - length suf) hlab)" if "?pl \<le> length hlab"
    unfolding raw_nequal_iff dropp droph using that by simp
  have "est_client_hostmatch numeric hostname pattern \<longleftrightarrow>
    est_client_Curl_raw_equal (drop ?pl pattern) (drop (length hlab) hostname) \<and> ?pl \<le> length hlab
    \<and> est_client_Curl_raw_nequal pattern hostname (length pre)
    \<and> est_client_Curl_raw_nequal (drop (length pre + 1) pattern)
      (drop (length hlab - length suf) hostname) (length suf)"
    using star dot hdot two xn ip unfolding est_client_hostmatch_def by (auto simp: Let_def)
  then show ?thesis using rest pre suf by blast
qed

lemma hostmatch_disabled:
  assumes "\<not> wildcard_match (map toupper (cstr pattern)) (map toupper (cstr hostname))"
    and "\<not> est_client_Curl_raw_equal pattern hostname"
  shows "\<not> est_client_hostmatch numeric hostname pattern"
proof
  assume m: "est_client_hostmatch numeric hostname pattern"
  then obtain pw pl hl where star: "strchr pattern (CHR ''*'') = Some pw" and ip: "\<not> numeric hostname"
    and dot: "strchr pattern (CHR ''.'') = Some pl"
    and ok: "strchr (drop (pl + 1) pattern) (CHR ''.'') \<noteq> None" "pw \<le> pl"
      "\<not> est_client_Curl_raw_nequal pattern ''xn--'' 4"
    and hdot: "strchr hostname (CHR ''.'') = Some hl"
    using assms(2) unfolding est_client_hostmatch_def by (auto split: option.splits if_splits)
  obtain pre p1 where P1: "cstr pattern = pre @ CHR ''*'' # p1" "CHR ''*'' \<notin> set pre" "length pre = pw"
    using star unfolding strchr_eq_Some by blast
  obtain lab rest where P2: "cstr pattern = lab @ CHR ''.'' # rest" "CHR ''.'' \<notin> set lab" "length lab = pl"
    using dot unfolding strchr_eq_Some by blast
  have "pre @ CHR ''*'' # p1 = lab @ CHR ''.'' # rest" using P1(1) P2(1) by simp
  then obtain suf where lab: "lab = pre @ CHR ''*'' # suf"
    using P1(3) P2(3) ok(2) by (auto simp: append_eq_append_conv2 Cons_eq_append_conv)
  have P: "cstr pattern = pre @ CHR ''*'' # suf @ CHR ''.'' # rest" using P2(1) lab by simp
  obtain hlab hrest where H: "cstr hostname = hlab @ CHR ''.'' # hrest" "CHR ''.'' \<notin> set hlab"
    using hdot unfolding strchr_eq_Some by blast
  have rest: "CHR ''.'' \<in> set rest"
    using ok(1) P2 unfolding strchr_None by (simp add: cstr_drop)
  have xn: "map toupper (take 4 (cstr pattern)) \<noteq> ''XN--''"
    using ok(3) by (simp add: raw_nequal_iff upper_xn del: list.map)
  have dots: "CHR ''.'' \<notin> set (pre @ suf)" using P2(2) lab by simp
  note iff = hostmatch_wildcard [of pattern pre suf rest hostname hlab hrest numeric,
      OF P P1(2) dots rest xn H ip]
  define mid where "mid = take (length hlab - length suf - length pre) (drop (length pre) hlab)"
  have len: "length pre + 1 + length suf \<le> length hlab" using m iff by blast
  have "hlab = take (length pre) hlab @ mid @ drop (length hlab - length suf) hlab"
  proof -
    have "drop (length hlab - length suf) hlab
        = drop (length hlab - length suf - length pre) (drop (length pre) hlab)"
      using len by simp
    then show ?thesis unfolding mid_def by (metis append_take_drop_id)
  qed
  then have "map toupper hlab = map toupper (take (length pre) hlab) @ map toupper mid
      @ map toupper (drop (length hlab - length suf) hlab)" by (metis map_append)
  then have hl: "map toupper hlab = map toupper pre @ map toupper mid @ map toupper suf"
    using m iff by simp
  have "mid \<noteq> []" using len unfolding mid_def by simp
  moreover have "set mid \<subseteq> set hlab" unfolding mid_def by (metis set_drop_subset set_take_subset subset_trans)
  ultimately have mid: "map toupper mid \<noteq> []" "CHR ''.'' \<notin> set (map toupper pre @ map toupper mid @ map toupper suf)"
    using dots H(2) by auto
  have up: "map toupper (cstr pattern) = map toupper pre @ CHR ''*'' # map toupper suf @ CHR ''.'' # map toupper rest"
    unfolding P by simp
  have uh: "map toupper (cstr hostname) = map toupper pre @ map toupper mid @ map toupper suf @ CHR ''.'' # map toupper rest"
    using m iff hl unfolding H(1) by simp
  have "CHR ''*'' \<notin> set (map toupper pre)" "CHR ''.'' \<in> set (map toupper rest)"
    "take 4 (map toupper (cstr pattern)) \<noteq> ''XN--''"
    using P1(2) rest xn by (auto simp: take_map)
  then have "wildcard_match (map toupper (cstr pattern)) (map toupper (cstr hostname))"
    unfolding wildcard_match_def using up uh mid by blast
  with assms(1) show False by simp
qed

lemma hostcheck_iff:
  "est_client_cert_hostcheck numeric pattern hostname \<longleftrightarrow>
     cstr pattern \<noteq> [] \<and> cstr hostname \<noteq> []
     \<and> (map toupper (cstr pattern) = map toupper (cstr hostname)
        \<or> \<not> numeric hostname \<and> wildcard_match (map toupper (cstr pattern)) (map toupper (cstr hostname)))"
  (is "?l \<longleftrightarrow> ?n \<and> ?m \<and> (?eq \<or> \<not> ?ip \<and> ?w)")
proof -
  have ne: "hd0 s = NUL \<longleftrightarrow> cstr s = []" for s by (cases s) auto
  have ip: "\<not> est_client_hostmatch numeric hostname pattern" if "numeric hostname" "\<not> ?eq"
    using that unfolding est_client_hostmatch_def by (auto simp: raw_equal_iff strchr_eq_Some split: option.splits)
  have w: "est_client_hostmatch numeric hostname pattern" if wm: "?w" and "\<not> ?ip"
  proof -
    from wm obtain pre suf rest mid pre' suf' rest' where d:
      "cstr pattern = pre @ CHR ''*'' # suf @ CHR ''.'' # rest" "cstr hostname = pre' @ mid @ suf' @ CHR ''.'' # rest'"
      "map toupper pre = map toupper pre'" "map toupper suf = map toupper suf'"
      "map toupper rest = map toupper rest'" "mid \<noteq> []" "CHR ''*'' \<notin> set pre"
      "CHR ''.'' \<notin> set (pre @ suf)" "CHR ''.'' \<notin> set (pre' @ mid @ suf')" "CHR ''.'' \<in> set rest"
      "map toupper (take 4 (cstr pattern)) \<noteq> ''XN--''"
      by (rule wildcard_matchE)
    have l: "length pre' = length pre" "length suf' = length suf" using d(3,4) by (metis length_map)+
    have "length pre + 1 + length suf \<le> length (pre' @ mid @ suf')" using d(6) l by (cases mid) auto
    then show ?thesis
      using hostmatch_wildcard [of pattern pre suf rest hostname "pre' @ mid @ suf'" rest' numeric] d l \<open>\<not> ?ip\<close>
      by simp
  qed
  have "?l \<longleftrightarrow> ?n \<and> ?m \<and> (?eq \<or> est_client_hostmatch numeric hostname pattern)"
    unfolding est_client_cert_hostcheck_def by (auto simp: ne raw_equal_iff)
  moreover have "est_client_hostmatch numeric hostname pattern \<Longrightarrow> \<not> ?eq \<Longrightarrow> ?w \<and> \<not> ?ip"
    using hostmatch_disabled ip by (auto simp: raw_equal_iff)
  ultimately show ?thesis using w by blast
qed

section \<open>Which certificates are accepted\<close>

text \<open>
  The reference: a pattern names a host when the two are equal up to case, or the host is not a numeric
  address and the wildcard matches; a certificate identifies a host by its alternative names, and by
  its last common name only when it has neither a DNS name nor an address among them.
\<close>

definition names_host :: "inet_addr \<Rightarrow> string \<Rightarrow> string \<Rightarrow> bool" where
  "names_host net hostname pattern \<longleftrightarrow>
     NUL \<notin> set pattern \<and> pattern \<noteq> [] \<and> length pattern \<le> EST_MAX_SERVERNAME_LEN \<and> cstr hostname \<noteq> []
     \<and> (map toupper pattern = map toupper (cstr hostname)
        \<or> \<not> is_ip net hostname \<and> wildcard_match (map toupper pattern) (map toupper (cstr hostname)))"

fun identifies :: "inet_addr \<Rightarrow> string \<Rightarrow> GENERAL_NAME \<Rightarrow> bool" where
  "identifies net hostname (GEN_DNS s) = names_host net hostname s"
| "identifies net hostname (GEN_IPADD a) = (a \<noteq> [] \<and> host_addr net hostname = Some a)"
| "identifies net hostname GEN_OTHER = False"

fun cn_text :: "CN_STRING option \<Rightarrow> string option" where
  "cn_text (Some (V_ASN1_UTF8STRING s)) = Some s"
| "cn_text (Some (Other_String s)) = s"
| "cn_text None = None"

definition cert_for_host :: "inet_addr \<Rightarrow> string \<Rightarrow> server_cert \<Rightarrow> bool" where
  "cert_for_host net hostname cert \<longleftrightarrow>
     (let names = (case altnames cert of None \<Rightarrow> [] | Some ns \<Rightarrow> filter (\<lambda>n. n \<noteq> GEN_OTHER) ns) in
      if names \<noteq> [] then \<exists>n \<in> set names. identifies net hostname n
      else common_names cert \<noteq> []
        \<and> (\<exists>s. cn_text (last (common_names cert)) = Some s \<and> names_host net hostname s))"

lemma length_cstr_id: "length (cstr s) = length s \<longleftrightarrow> NUL \<notin> set s"
proof
  assume "length (cstr s) = length s"
  then have "cstr s = s"
    by (metis append_eq_append_conv append_Nil2 cstr_def takeWhile_dropWhile_id)
  then show "NUL \<notin> set s" by (metis cstr_no_nul)
qed (simp add: cstr_id)

lemma full_length_iff: "length s = strnlen_s (Some s) n \<longleftrightarrow> NUL \<notin> set s \<and> length s \<le> n"
proof (cases "NUL \<in> set s")
  case True
  then have "length (cstr s) < length s"
    using length_cstr_le [of s] length_cstr_id [of s] by linarith
  with True show ?thesis by (simp add: strnlen_s_def strnlen_def min_def)
qed (simp add: strnlen_s_def strnlen_def min_def cstr_id)

lemma hostcheck_names_host:
  "length s = strnlen_s (Some s) EST_MAX_SERVERNAME_LEN
     \<and> est_client_cert_hostcheck (is_ip net) s hostname \<longleftrightarrow> names_host net hostname s"
  unfolding full_length_iff hostcheck_iff names_host_def by (auto simp: cstr_id)

text \<open>An address among the alternative names that is no longer than the address of the host.\<close>

definition addr_fits :: "inet_addr \<Rightarrow> string \<Rightarrow> GENERAL_NAME \<Rightarrow> bool" where
  "addr_fits net hostname n =
     (case n of GEN_IPADD a \<Rightarrow> (case host_addr net hostname of None \<Rightarrow> True | Some addr \<Rightarrow> length a \<le> length addr)
      | _ \<Rightarrow> True)"

lemma check_altname_iff:
  assumes "addr_fits net hostname n"
  shows "check_altname net hostname n matched =
    Some (if n = GEN_OTHER then matched else if identifies net hostname n then 1 else 0)"
proof (cases n)
  case (GEN_DNS s)
  then show ?thesis by (simp add: check_altname_def hostcheck_names_host)
next
  case (GEN_IPADD a)
  with assms show ?thesis
    by (auto simp: check_altname_def memcmp_s_def rd_block_def addr_fits_def split: option.splits)
qed (simp add: check_altname_def)

lemma check_altnames_iff:
  assumes "\<forall>n \<in> set ns. addr_fits net hostname n"
  shows "check_altnames net hostname ns matched =
    Some (if matched = 1 \<or> (\<exists>n \<in> set ns. identifies net hostname n) then 1
          else if filter (\<lambda>n. n \<noteq> GEN_OTHER) ns = [] then matched else 0)"
  using assms
proof (induction ns arbitrary: matched)
  case (Cons n ns)
  then show ?case by (cases "n = GEN_OTHER") (auto simp: check_altname_iff)
qed simp

lemma check_common_name_iff:
  "check_common_name net hostname cns =
     (if cns \<noteq> [] \<and> (\<exists>s. cn_text (last cns) = Some s \<and> names_host net hostname s)
      then EST_ERR_NONE else EST_ERR_FQDN_MISMATCH)"
proof (cases "cns = [] \<or> cn_text (last cns) = None")
  case True
  then show ?thesis
    by (auto simp: check_common_name_def Let_def strnlen_s_def strnlen_def
        split: option.splits CN_STRING.splits)
next
  case False
  then obtain s where s: "cns \<noteq> []" "cn_text (last cns) = Some s" by auto
  have "int (strnlen_s (Some s) EST_MAX_SERVERNAME_LEN) = int (length s)
      \<and> est_client_cert_hostcheck (is_ip net) s hostname \<longleftrightarrow> names_host net hostname s"
    unfolding hostcheck_names_host [symmetric] by auto
  moreover obtain c where c: "last cns = Some c" using s(2) by (cases "last cns") auto
  ultimately show ?thesis using s by (cases c) (auto simp: check_common_name_def Let_def)
qed


definition sample_net :: inet_addr where
  "sample_net = \<lparr>v4 = \<lambda>s. if s = ''1.2.3.4'' then Some [CHR 0x01, CHR 0x02, CHR 0x03, CHR 0x04] else None, v6 = \<lambda>_. None\<rparr>"

definition sample_server_cert :: server_cert where
  "sample_server_cert = \<lparr>altnames = Some [GEN_OTHER, GEN_IPADD [CHR 0x01, CHR 0x02], GEN_DNS ''e*T.Example.com''], common_names = []\<rparr>"


text \<open>
  The comparison of an address reads the bytes that the certificate's entry has, not those the
  host's address has: if the first alternative name is an IP entry longer than the address of the
  host, est_client_verifyhost reads outside the variable that holds it.
\<close>

theorem est_client_verifyhost_overread:
  assumes "altnames cert = Some (GEN_IPADD a # ns)" and "host_addr net hostname = Some addr"
    and "length addr < length a"
  shows "est_client_verifyhost net hostname cert = None"
  using assms by (auto simp: est_client_verifyhost_def check_altname_def memcmp_s_def rd_block_def)

theorem est_client_verifyhost_overread_witness:
  "est_client_verifyhost sample_net ''1.2.3.4''
     \<lparr>altnames = Some [GEN_IPADD (replicate 16 NUL)], common_names = []\<rparr> = None"
  by (rule est_client_verifyhost_overread [where a = "replicate 16 NUL" and ns = "[]"
        and addr = "[CHR 0x01, CHR 0x02, CHR 0x03, CHR 0x04]"]) (simp_all add: host_addr_def sample_net_def)

end
