(* ===== verification/Jsmn.thy ===== *)
theory Jsmn
  imports Est_Prelude
begin

text \<open>
  The JSON tokenizer \<^verbatim>\<open>src/src/est/jsmn.c\<close> as it is built here (neither \<^verbatim>\<open>JSMN_STRICT\<close> nor
  \<^verbatim>\<open>JSMN_PARENT_LINKS\<close>), with a token array as its only caller passes one (\<^verbatim>\<open>tokens\<close> is not NULL).
  \<open>len\<close> is at most the length of the text: every read of the text is guarded by \<^verbatim>\<open>pos < len\<close>. A read or
  write of a token outside the array is \<^term>\<open>None\<close>. Positions are far below the range of an \<^verbatim>\<open>int\<close>.
\<close>

section \<open>Tokens and parser\<close>

datatype jsmntype = JSMN_UNDEFINED | JSMN_OBJECT | JSMN_ARRAY | JSMN_STRING | JSMN_PRIMITIVE

abbreviation JSMN_ERROR_NOMEM :: int where "JSMN_ERROR_NOMEM \<equiv> -1"
abbreviation JSMN_ERROR_INVAL :: int where "JSMN_ERROR_INVAL \<equiv> -2"
abbreviation JSMN_ERROR_PART :: int where "JSMN_ERROR_PART \<equiv> -3"

record jsmntok =
  tok_type :: jsmntype
  tok_start :: int
  tok_end :: int
  tok_size :: int

record jsmn_parser =
  jpos :: nat
  toknext :: nat
  toksuper :: int

definition jsmn_init :: jsmn_parser where
  "jsmn_init = \<lparr>jpos = 0, toknext = 0, toksuper = -1\<rparr>"

definition jsmn_alloc_token :: "jsmn_parser \<Rightarrow> jsmntok list \<Rightarrow> (nat \<times> jsmn_parser \<times> jsmntok list) option" where
  "jsmn_alloc_token p toks =
     (if toknext p \<ge> length toks then None
      else Some (toknext p, p\<lparr>toknext := toknext p + 1\<rparr>,
             toks[toknext p := (toks ! toknext p)\<lparr>tok_start := -1, tok_end := -1, tok_size := 0\<rparr>]))"

definition jsmn_fill_token :: "jsmntype \<Rightarrow> int \<Rightarrow> int \<Rightarrow> jsmntok \<Rightarrow> jsmntok" where
  "jsmn_fill_token t s e tok = tok\<lparr>tok_type := t, tok_start := s, tok_end := e, tok_size := 0\<rparr>"

text \<open>Access to a token by index.\<close>

definition tok_update :: "int \<Rightarrow> (jsmntok \<Rightarrow> jsmntok) \<Rightarrow> jsmntok list \<Rightarrow> jsmntok list option" where
  "tok_update i f toks = (if 0 \<le> i \<and> nat i < length toks then Some (toks[nat i := f (toks ! nat i)]) else None)"

definition is_open :: "jsmntok \<Rightarrow> bool" where
  "is_open t \<longleftrightarrow> tok_start t \<noteq> -1 \<and> tok_end t = -1"

text \<open>The searches of \<^verbatim>\<open>jsmn_parse\<close> downwards from an index; the highest of the first \<open>n\<close> tokens that qualifies.\<close>

primrec find_down :: "(jsmntok \<Rightarrow> bool) \<Rightarrow> jsmntok list \<Rightarrow> nat \<Rightarrow> nat option option" where
  "find_down P toks 0 = Some None"
| "find_down P toks (Suc i) =
     (if i < length toks then if P (toks ! i) then Some (Some i) else find_down P toks i else None)"

declare find_down.simps [simp del]

section \<open>Primitives and strings\<close>

definition prim_delim :: "char \<Rightarrow> bool" where
  "prim_delim c \<longleftrightarrow> c \<in> {CHR '':'', CHR 0x09, CR, LF, CHR '' '', CHR '','', CHR '']'', CHR ''}''}"

text \<open>The position behind a primitive, or \<^term>\<open>None\<close> at a character that may not occur in one.\<close>

function prim_scan :: "string \<Rightarrow> nat \<Rightarrow> nat \<Rightarrow> nat option" where
  "prim_scan js len p =
     (if p < len \<and> at js p \<noteq> NUL then
        if prim_delim (at js p) then Some p
        else if schr (at js p) < 32 \<or> schr (at js p) \<ge> 127 then None
        else prim_scan js len (p + 1)
      else Some p)"
  by pat_completeness auto
termination by (relation "measure (\<lambda>(_, len, p). len - p)") auto

declare prim_scan.simps [simp del]

definition jsmn_parse_primitive ::
  "string \<Rightarrow> nat \<Rightarrow> jsmn_parser \<Rightarrow> jsmntok list \<Rightarrow> (int \<times> jsmn_parser \<times> jsmntok list) option" where
  "jsmn_parse_primitive js len p toks =
     (let start = jpos p in
      case prim_scan js len start of
        None \<Rightarrow> Some (JSMN_ERROR_INVAL, p\<lparr>jpos := start\<rparr>, toks)
      | Some q \<Rightarrow>
          (case jsmn_alloc_token p toks of
             None \<Rightarrow> Some (JSMN_ERROR_NOMEM, p\<lparr>jpos := start\<rparr>, toks)
           | Some (i, p1, toks1) \<Rightarrow>
               do { toks2 \<leftarrow> tok_update (int i) (jsmn_fill_token JSMN_PRIMITIVE (int start) (int q)) toks1;
                    Some (0, p1\<lparr>jpos := q - 1\<rparr>, toks2) }))"

definition is_hex :: "char \<Rightarrow> bool" where
  "is_hex c \<longleftrightarrow> (48 \<le> schr c \<and> schr c \<le> 57) \<or> (65 \<le> schr c \<and> schr c \<le> 70) \<or> (97 \<le> schr c \<and> schr c \<le> 102)"

primrec hex_scan :: "string \<Rightarrow> nat \<Rightarrow> nat \<Rightarrow> nat \<Rightarrow> nat option" where
  "hex_scan js len 0 p = Some p"
| "hex_scan js len (Suc i) p =
     (if p < len \<and> at js p \<noteq> NUL then if is_hex (at js p) then hex_scan js len i (p + 1) else None
      else Some p)"

lemma hex_scan_ge: "hex_scan js len i p = Some q \<Longrightarrow> p \<le> q \<and> (p \<le> len \<longrightarrow> q \<le> len)"
  by (induction i arbitrary: p) (fastforce split: if_split_asm)+

text \<open>An escape at \<open>p\<close>: the position at which the string goes on, or the error.\<close>

definition escape :: "string \<Rightarrow> nat \<Rightarrow> nat \<Rightarrow> int + nat" where
  "escape js len p =
     (if at js (p + 1) \<in> set [CHR 0x22, CHR ''/'', CHR 0x5C, CHR ''b'', CHR ''f'', CHR ''r'', CHR ''n'', CHR ''t'']
      then Inr (p + 2)
      else if at js (p + 1) = CHR ''u'' then
        (case hex_scan js len 4 (p + 2) of None \<Rightarrow> Inl JSMN_ERROR_INVAL | Some q \<Rightarrow> Inr q)
      else Inl JSMN_ERROR_INVAL)"

lemma escape_ge: "escape js len p = Inr q \<Longrightarrow> p + 2 \<le> q"
  using hex_scan_ge by (fastforce simp: escape_def split: if_split_asm option.split_asm)

text \<open>The position of the closing quote, or the error.\<close>

function str_scan :: "string \<Rightarrow> nat \<Rightarrow> nat \<Rightarrow> int + nat" where
  "str_scan js len p =
     (if p < len \<and> at js p \<noteq> NUL then
        if at js p = CHR 0x22 then Inr p
        else if at js p = CHR 0x5C \<and> p + 1 < len then
          (case escape js len p of Inl e \<Rightarrow> Inl e | Inr q \<Rightarrow> str_scan js len q)
        else str_scan js len (p + 1)
      else Inl JSMN_ERROR_PART)"
  by pat_completeness auto
termination
  by (relation "measure (\<lambda>(_, len, p). len - p)") (auto dest: escape_ge)

declare str_scan.simps [simp del]

definition jsmn_parse_string ::
  "string \<Rightarrow> nat \<Rightarrow> jsmn_parser \<Rightarrow> jsmntok list \<Rightarrow> (int \<times> jsmn_parser \<times> jsmntok list) option" where
  "jsmn_parse_string js len p toks =
     (let start = jpos p in
      case str_scan js len (start + 1) of
        Inl e \<Rightarrow> Some (e, p\<lparr>jpos := start\<rparr>, toks)
      | Inr q \<Rightarrow>
          (case jsmn_alloc_token p toks of
             None \<Rightarrow> Some (JSMN_ERROR_NOMEM, p\<lparr>jpos := start\<rparr>, toks)
           | Some (i, p1, toks1) \<Rightarrow>
               do { toks2 \<leftarrow> tok_update (int i) (jsmn_fill_token JSMN_STRING (int start + 1) (int q)) toks1;
                    Some (0, p1\<lparr>jpos := q\<rparr>, toks2) }))"

section \<open>The main loop\<close>

definition count_child :: "int \<Rightarrow> jsmntok list \<Rightarrow> jsmntok list option" where
  "count_child super toks =
     (if super \<noteq> -1 then tok_update super (\<lambda>t. t\<lparr>tok_size := tok_size t + 1\<rparr>) toks else Some toks)"

text \<open>One character: a result below 0 ends the parse with that error, otherwise the loop goes on.\<close>

type_synonym jstep = "int \<times> jsmn_parser \<times> jsmntok list \<times> int"

definition jsmn_open :: "char \<Rightarrow> jsmn_parser \<Rightarrow> jsmntok list \<Rightarrow> int \<Rightarrow> jstep option" where
  "jsmn_open c p toks count =
     (case jsmn_alloc_token p toks of
        None \<Rightarrow> Some (JSMN_ERROR_NOMEM, p, toks, count + 1)
      | Some (i, p1, toks1) \<Rightarrow>
          do { toks2 \<leftarrow> count_child (toksuper p1) toks1;
               toks3 \<leftarrow> tok_update (int i) (\<lambda>t. t\<lparr>tok_type := if c = CHR ''{'' then JSMN_OBJECT else JSMN_ARRAY,
                                                 tok_start := int (jpos p1)\<rparr>) toks2;
               Some (0, p1\<lparr>toksuper := int (toknext p1) - 1\<rparr>, toks3, count + 1) })"

definition jsmn_close :: "char \<Rightarrow> jsmn_parser \<Rightarrow> jsmntok list \<Rightarrow> int \<Rightarrow> jstep option" where
  "jsmn_close c p toks count =
     do { m \<leftarrow> find_down is_open toks (toknext p);
          case m of
            None \<Rightarrow> Some (JSMN_ERROR_INVAL, p, toks, count)
          | Some i \<Rightarrow>
              if tok_type (toks ! i) \<noteq> (if c = CHR ''}'' then JSMN_OBJECT else JSMN_ARRAY)
              then Some (JSMN_ERROR_INVAL, p, toks, count)
              else do { toks1 \<leftarrow> tok_update (int i) (\<lambda>t. t\<lparr>tok_end := int (jpos p) + 1\<rparr>) toks;
                        m2 \<leftarrow> find_down is_open toks1 (i + 1);
                        Some (0, p\<lparr>toksuper := (case m2 of None \<Rightarrow> -1 | Some k \<Rightarrow> int k)\<rparr>, toks1, count) } }"

definition jsmn_comma :: "jsmn_parser \<Rightarrow> jsmntok list \<Rightarrow> int \<Rightarrow> jstep option" where
  "jsmn_comma p toks count =
     (if toksuper p = -1 then Some (0, p, toks, count)
      else if \<not> (0 \<le> toksuper p \<and> nat (toksuper p) < length toks) then None
      else if tok_type (toks ! nat (toksuper p)) \<in> {JSMN_ARRAY, JSMN_OBJECT} then Some (0, p, toks, count)
      else do { m \<leftarrow> find_down (\<lambda>t. tok_type t \<in> {JSMN_ARRAY, JSMN_OBJECT} \<and> is_open t) toks (toknext p);
                Some (0, (case m of None \<Rightarrow> p | Some i \<Rightarrow> p\<lparr>toksuper := int i\<rparr>), toks, count) })"

definition jsmn_value ::
  "(jsmn_parser \<Rightarrow> jsmntok list \<Rightarrow> (int \<times> jsmn_parser \<times> jsmntok list) option) \<Rightarrow>
     jsmn_parser \<Rightarrow> jsmntok list \<Rightarrow> int \<Rightarrow> jstep option" where
  "jsmn_value parse p toks count =
     do { (r, p1, toks1) \<leftarrow> parse p toks;
          if r < 0 then Some (r, p1, toks1, count)
          else do { toks2 \<leftarrow> count_child (toksuper p1) toks1; Some (0, p1, toks2, count + 1) } }"

definition jsmn_char :: "string \<Rightarrow> nat \<Rightarrow> jsmn_parser \<Rightarrow> jsmntok list \<Rightarrow> int \<Rightarrow> jstep option" where
  "jsmn_char js len p toks count =
     (let c = at js (jpos p) in
      if c \<in> {CHR ''{'', CHR ''[''} then jsmn_open c p toks count
      else if c \<in> {CHR ''}'', CHR '']''} then jsmn_close c p toks count
      else if c = CHR 0x22 then jsmn_value (jsmn_parse_string js len) p toks count
      else if c \<in> {CHR 0x09, CR, LF, CHR '' ''} then Some (0, p, toks, count)
      else if c = CHR '':'' then Some (0, p\<lparr>toksuper := int (toknext p) - 1\<rparr>, toks, count)
      else if c = CHR '','' then jsmn_comma p toks count
      else jsmn_value (jsmn_parse_primitive js len) p toks count)"

text \<open>After the loop an object or array that is still open is an error.\<close>

definition jsmn_finish :: "jsmn_parser \<Rightarrow> jsmntok list \<Rightarrow> int \<Rightarrow> (int \<times> jsmn_parser \<times> jsmntok list) option" where
  "jsmn_finish p toks count =
     do { m \<leftarrow> find_down is_open toks (toknext p);
          Some (if m \<noteq> None then JSMN_ERROR_PART else count, p, toks) }"

lemma prim_scan_ge: "prim_scan js len p = Some q \<Longrightarrow> p \<le> q \<and> (p \<le> len \<longrightarrow> q \<le> len)"
proof (induction js len p rule: prim_scan.induct)
  case (1 js len p)
  show ?case
  proof (cases "p < len \<and> at js p \<noteq> NUL \<and> \<not> prim_delim (at js p) \<and> \<not> (schr (at js p) < 32 \<or> schr (at js p) \<ge> 127)")
    case True
    then have "prim_scan js len (p + 1) = Some q" using 1(2) by (subst (asm) prim_scan.simps) simp
    then have "p + 1 \<le> q \<and> (p + 1 \<le> len \<longrightarrow> q \<le> len)" using 1(1) True by blast
    then show ?thesis using True by simp
  next
    case False
    then show ?thesis using 1(2) by (subst (asm) prim_scan.simps) (auto split: if_split_asm)
  qed
qed

lemma prim_scan_gt:
  assumes "prim_scan js len p = Some q" "p < len" "at js p \<noteq> NUL" "\<not> prim_delim (at js p)"
  shows "p < q"
proof -
  have "prim_scan js len (p + 1) = Some q"
    using assms by (subst (asm) prim_scan.simps) (auto split: if_split_asm)
  then show ?thesis using prim_scan_ge by fastforce
qed

lemma str_scan_ge: "str_scan js len p = Inr q \<Longrightarrow> p \<le> q \<and> q < len"
proof (induction "len - p" arbitrary: p rule: less_induct)
  case less
  from less.prems have p: "p < len" "q = p \<or> (\<exists>r > p. str_scan js len r = Inr q)"
    by (subst (asm) str_scan.simps, auto split: if_split_asm sum.split_asm dest: escape_ge)+
  from p(2) show ?case
  proof
    assume "\<exists>r > p. str_scan js len r = Inr q"
    then obtain r where "p < r" "str_scan js len r = Inr q" by blast
    moreover from this have "len - r < len - p" using p(1) by simp
    ultimately show ?thesis using less.hyps [of r] by simp
  qed (use p(1) in simp)
qed

lemma str_scan_error_codes: "str_scan js len p = Inl e \<Longrightarrow> e = -2 \<or> e = -3"
proof (induction "len - p" arbitrary: p rule: less_induct)
  case less
  from less.prems have "e = -2 \<or> e = -3 \<or> (\<exists>r > p. p < len \<and> str_scan js len r = Inl e)"
    by (subst (asm) str_scan.simps) (auto simp: escape_def split: if_split_asm option.split_asm sum.split_asm dest: hex_scan_ge)
  then show ?case using less.hyps by (meson diff_less_mono2)
qed

lemma tok_update_pos:
  "count_child super toks = Some toks' \<Longrightarrow> length toks' = length toks"
  "tok_update i f toks = Some toks' \<Longrightarrow> length toks' = length toks"
  by (auto simp: count_child_def tok_update_def split: if_split_asm)

lemma jsmn_parse_string_pos:
  "jsmn_parse_string js len p toks = Some (r, p1, toks1) \<Longrightarrow> 0 \<le> r \<Longrightarrow> jpos p < jpos p1 \<and> jpos p1 < len"
  by (auto simp: jsmn_parse_string_def Let_def bind_eq_Some_conv split: sum.split_asm option.split_asm
      dest!: str_scan_ge str_scan_error_codes)

lemma jsmn_parse_primitive_pos:
  assumes "jsmn_parse_primitive js len p toks = Some (r, p1, toks1)" "0 \<le> r" "jpos p < len" "at js (jpos p) \<noteq> NUL"
    "\<not> prim_delim (at js (jpos p))"
  shows "jpos p \<le> jpos p1 \<and> jpos p1 < len"
proof -
  from assms(1,2) obtain q where "prim_scan js len (jpos p) = Some q" "jpos p1 = q - 1"
    by (auto simp: jsmn_parse_primitive_def Let_def bind_eq_Some_conv split: option.split_asm)
  then show ?thesis using assms(3-5) prim_scan_gt [of js len "jpos p" q] prim_scan_ge [of js len "jpos p" q] by auto
qed

lemma jsmn_value_pos:
  "jsmn_value f p toks count = Some (r, p1, toks1, c1) \<Longrightarrow> 0 \<le> r \<Longrightarrow> \<exists>toks2. f p toks = Some (r, p1, toks2) \<or> (\<exists>r'. 0 \<le> r' \<and> f p toks = Some (r', p1, toks2))"
  by (auto simp: jsmn_value_def bind_eq_Some_conv split: if_split_asm)

lemma jsmn_close_cases:
  assumes "jsmn_close c p toks count = Some (r, p1, toks1, c1)"
  obtains (err) "r < 0" "p1 = p" "toks1 = toks"
    | (closed) i m where "find_down is_open toks (toknext p) = Some (Some i)"
      "tok_update (int i) (\<lambda>t. t\<lparr>tok_end := int (jpos p) + 1\<rparr>) toks = Some toks1"
      "find_down is_open toks1 (i + 1) = Some m" "r = 0" "c1 = count"
      "p1 = p\<lparr>toksuper := (case m of None \<Rightarrow> -1 | Some k \<Rightarrow> int k)\<rparr>"
proof (cases "find_down is_open toks (toknext p)")
  case (Some m)
  show ?thesis
  proof (cases m)
    case (Some i)
    note m = \<open>find_down _ _ _ = Some m\<close> [unfolded Some]
    define T where "T = (tok_type (toks ! i) \<noteq> (if c = CHR ''}'' then JSMN_OBJECT else JSMN_ARRAY))"
    show ?thesis
    proof (cases T)
      case True
      then have "r < 0" "p1 = p" "toks1 = toks" using assms m by (simp_all add: jsmn_close_def T_def [symmetric])
      then show ?thesis by (rule err)
    next
      case False
      with assms m obtain k where "tok_update (int i) (\<lambda>t. t\<lparr>tok_end := int (jpos p) + 1\<rparr>) toks = Some toks1"
        "find_down is_open toks1 (i + 1) = Some k" "r = 0" "c1 = count"
        "p1 = p\<lparr>toksuper := (case k of None \<Rightarrow> -1 | Some j \<Rightarrow> int j)\<rparr>"
        by (simp add: jsmn_close_def T_def [symmetric] bind_eq_Some_conv) blast
      with m show ?thesis by (rule closed)
    qed
  next
    case None
    have "r < 0" "p1 = p" "toks1 = toks" using assms Some None by (simp_all add: jsmn_close_def)
    then show ?thesis by (rule err)
  qed
qed (use assms in \<open>simp add: jsmn_close_def\<close>)

lemma jsmn_char_pos:
  assumes run: "jsmn_char js len p toks count = Some (r, p1, toks1, c1)" and r: "0 \<le> r"
    and lt: "jpos p < len" "at js (jpos p) \<noteq> NUL"
  shows "jpos p \<le> jpos p1 \<and> jpos p1 < len"
proof -
  let ?c = "at js (jpos p)"
  have o: "jpos p1 = jpos p" if "jsmn_open c p toks count = Some (r, p1, toks1, c1)" for c
    using that by (auto simp: jsmn_open_def jsmn_alloc_token_def bind_eq_Some_conv split: option.split_asm if_split_asm)
  have c: "jpos p1 = jpos p" if "jsmn_close c p toks count = Some (r, p1, toks1, c1)" for c
    using that by (cases rule: jsmn_close_cases) (use r in auto)
  have k: "jpos p1 = jpos p" if "jsmn_comma p toks count = Some (r, p1, toks1, c1)"
    using that by (auto simp: jsmn_comma_def bind_eq_Some_conv split: option.split_asm if_split_asm)
  have st: "jpos p \<le> jpos p1 \<and> jpos p1 < len" if "jsmn_value (jsmn_parse_string js len) p toks count = Some (r, p1, toks1, c1)"
    using jsmn_value_pos [OF that r] r by (auto dest: jsmn_parse_string_pos)
  have pr: "jpos p \<le> jpos p1 \<and> jpos p1 < len"
    if "jsmn_value (jsmn_parse_primitive js len) p toks count = Some (r, p1, toks1, c1)" "\<not> prim_delim ?c"
    using jsmn_value_pos [OF that(1) r] r lt that(2) by (auto dest: jsmn_parse_primitive_pos)
  show ?thesis
    using run lt o c k st pr unfolding jsmn_char_def Let_def
    by (auto simp: prim_delim_def split: if_split_asm)
qed

function jsmn_loop ::
  "string \<Rightarrow> nat \<Rightarrow> jsmn_parser \<Rightarrow> jsmntok list \<Rightarrow> int \<Rightarrow> (int \<times> jsmn_parser \<times> jsmntok list) option" where
  "jsmn_loop js len p toks count =
     (if jpos p < len \<and> at js (jpos p) \<noteq> NUL then
        (case jsmn_char js len p toks count of
           None \<Rightarrow> None
         | Some (r, p1, toks1, count1) \<Rightarrow>
             if r < 0 then Some (r, p1, toks1)
             else jsmn_loop js len (p1\<lparr>jpos := jpos p1 + 1\<rparr>) toks1 count1)
      else jsmn_finish p toks count)"
  by pat_completeness auto
termination
proof (relation "measure (\<lambda>(_, len, p, _, _). len - jpos p)", goal_cases)
  case (2 js len p toks count x r y p1 z toks1 count1)
  then show ?case using jsmn_char_pos [of js len p toks count r p1 toks1 count1] by auto
qed simp

declare jsmn_loop.simps [simp del]

definition jsmn_parse :: "string \<Rightarrow> nat \<Rightarrow> jsmn_parser \<Rightarrow> jsmntok list \<Rightarrow> (int \<times> jsmn_parser \<times> jsmntok list) option" where
  "jsmn_parse js len p toks = jsmn_loop js len p toks (int (toknext p))"

section \<open>The invariant of the token array\<close>

text \<open>
  At a position \<open>q\<close> of the text: the allocated tokens start before \<open>q\<close>, the closed ones end at \<open>q\<close> or before,
  later tokens start later, and two tokens of which the first is closed are disjoint or nested.
\<close>

definition tok_ok :: "int \<Rightarrow> jsmntok \<Rightarrow> bool" where
  "tok_ok q t \<longleftrightarrow> 0 \<le> tok_start t \<and> tok_start t < q \<and> (tok_end t = -1 \<or> tok_start t \<le> tok_end t \<and> tok_end t \<le> q)"

definition nested :: "jsmntok \<Rightarrow> jsmntok \<Rightarrow> bool" where
  "nested s t \<longleftrightarrow> tok_start s < tok_start t
     \<and> (tok_end s \<noteq> -1 \<longrightarrow> tok_end s \<le> tok_start t \<or> tok_end t \<noteq> -1 \<and> tok_end t \<le> tok_end s)"

definition jinv :: "nat \<Rightarrow> jsmn_parser \<Rightarrow> jsmntok list \<Rightarrow> bool" where
  "jinv q p toks \<longleftrightarrow> toknext p \<le> length toks \<and> -1 \<le> toksuper p \<and> toksuper p < int (toknext p)
     \<and> (\<forall>i < toknext p. tok_ok (int q) (toks ! i))
     \<and> (\<forall>i j. i < j \<and> j < toknext p \<longrightarrow> nested (toks ! i) (toks ! j))"

definition same_span :: "jsmntok list \<Rightarrow> jsmntok list \<Rightarrow> bool" where
  "same_span toks toks' \<longleftrightarrow> length toks' = length toks
     \<and> (\<forall>i < length toks. tok_start (toks' ! i) = tok_start (toks ! i) \<and> tok_end (toks' ! i) = tok_end (toks ! i))"

lemma jinv_same_span: "jinv q p toks \<Longrightarrow> same_span toks toks' \<Longrightarrow> jinv q p toks'"
  unfolding jinv_def same_span_def tok_ok_def nested_def by (auto dest: order_less_le_trans)

lemma tok_ok_mono: "tok_ok q t \<Longrightarrow> q \<le> q' \<Longrightarrow> tok_ok q' t"
  by (auto simp: tok_ok_def)

lemma jinv_mono: "jinv q p toks \<Longrightarrow> q \<le> q' \<Longrightarrow> jinv q' p toks"
  by (auto simp: jinv_def intro: tok_ok_mono)

lemma jinv_super: "jinv q p toks \<Longrightarrow> -1 \<le> x \<Longrightarrow> x < int (toknext p) \<Longrightarrow> jinv q (p\<lparr>toksuper := x, jpos := y\<rparr>) toks"
  by (simp add: jinv_def)

lemma jinv_pos: "jinv q (p\<lparr>jpos := y\<rparr>) toks \<longleftrightarrow> jinv q p toks"
  by (simp add: jinv_def)

lemma count_child_span:
  assumes "jinv q p toks" "toknext p \<le> n" "n \<le> length toks'" "toksuper p = x"
  shows "\<exists>toks2. count_child x toks' = Some toks2 \<and> same_span toks' toks2"
  using assms by (auto simp: jinv_def count_child_def tok_update_def same_span_def nth_list_update)

lemma find_down_spec:
  "n \<le> length toks \<Longrightarrow>
     (\<exists>i. find_down P toks n = Some (Some i) \<and> i < n \<and> P (toks ! i) \<and> (\<forall>j. i < j \<and> j < n \<longrightarrow> \<not> P (toks ! j)))
     \<or> (find_down P toks n = Some None \<and> (\<forall>j < n. \<not> P (toks ! j)))"
proof (induction n)
  case (Suc n)
  then show ?case using less_Suc_eq by (auto simp: find_down.simps)
qed (simp add: find_down.simps)

lemma jinv_new:
  assumes inv: "jinv q p toks" and room: "toknext p < length toks"
    and t: "int q \<le> tok_start t" "tok_ok (int q') t" and q: "q \<le> q'"
    and x: "-1 \<le> x" "x < int (toknext p) + 1"
  shows "jinv q' (p\<lparr>toknext := toknext p + 1, toksuper := x\<rparr>) (toks[toknext p := t])"
proof -
  have "tok_ok (int q') (toks ! i)" if "i < toknext p" for i
    using inv that q by (auto simp: jinv_def intro: tok_ok_mono)
  moreover have "nested (toks ! i) t" if "i < toknext p" for i
    using inv that t(1) by (fastforce simp: jinv_def tok_ok_def nested_def)
  ultimately show ?thesis
    using inv room t x by (auto simp: jinv_def nth_list_update less_Suc_eq)
qed

lemma jinv_close:
  assumes inv: "jinv q p toks" and i: "i < toknext p" "is_open (toks ! i)"
    and later: "\<forall>j. i < j \<and> j < toknext p \<longrightarrow> \<not> is_open (toks ! j)"
    and x: "-1 \<le> x" "x < int (toknext p)"
  shows "jinv (q + 1) (p\<lparr>toksuper := x\<rparr>) (toks[i := (toks ! i)\<lparr>tok_end := int q + 1\<rparr>])"
proof -
  let ?t = "(toks ! i)\<lparr>tok_end := int q + 1\<rparr>"
  have ok: "tok_ok (int q) (toks ! k)" if "k < toknext p" for k using inv that by (simp add: jinv_def)
  have n: "nested (toks ! k) (toks ! l)" if "k < l" "l < toknext p" for k l using inv that by (simp add: jinv_def)
  have "tok_ok (1 + int q) (toks ! k)" if "k < toknext p" for k using ok [OF that] by (auto simp: tok_ok_def)
  moreover have "tok_ok (1 + int q) ?t" using ok [OF i(1)] by (auto simp: tok_ok_def)
  moreover have "nested (toks ! k) ?t" if "k < i" for k
    using n [OF that i(1)] i(2) by (auto simp: nested_def is_open_def)
  moreover have "nested ?t (toks ! l)" if "i < l" "l < toknext p" for l
    using n [OF that] later that ok [OF that(2)] by (auto simp: nested_def is_open_def tok_ok_def)
  ultimately show ?thesis
    using inv i x n by (auto simp: jinv_def nth_list_update)
qed

text \<open>What one character does to the invariant, the count and the array.\<close>

definition step_ok :: "jsmn_parser \<Rightarrow> jsmntok list \<Rightarrow> int \<Rightarrow> jstep option \<Rightarrow> bool" where
  "step_ok p toks count x \<longleftrightarrow>
     (\<exists>r p1 toks1 c1. x = Some (r, p1, toks1, c1) \<and> r \<in> {0, -1, -2, -3} \<and> length toks1 = length toks
        \<and> (r = 0 \<longrightarrow> jinv (jpos p1 + 1) p1 toks1 \<and> c1 - int (toknext p1) = count - int (toknext p)))"

lemma jsmn_open_ok:
  assumes inv: "jinv (jpos p) p toks"
  shows "step_ok p toks count (jsmn_open c p toks count)"
proof (cases "toknext p < length toks")
  case True
  let ?i = "toknext p" and ?q = "jpos p"
  let ?toks1 = "toks[?i := (toks ! ?i)\<lparr>tok_start := -1, tok_end := -1, tok_size := 0\<rparr>]"
  obtain toks2 where t2: "count_child (toksuper p) ?toks1 = Some toks2" "same_span ?toks1 toks2"
    using count_child_span [OF inv, of ?i ?toks1 "toksuper p"] True by auto
  define t where "t = (toks2 ! ?i)\<lparr>tok_type := if c = CHR ''{'' then JSMN_OBJECT else JSMN_ARRAY, tok_start := int ?q\<rparr>"
  have len: "length toks2 = length toks" using t2(2) by (simp add: same_span_def)
  have end1: "tok_end (toks2 ! ?i) = -1" using t2(2) True by (auto simp: same_span_def)
  have "jinv (?q + 1) (p\<lparr>toknext := ?i + 1, toksuper := int ?i\<rparr>) (toks[?i := t])"
    by (rule jinv_new [OF inv True]) (auto simp: t_def tok_ok_def end1)
  moreover have "same_span (toks[?i := t]) (toks2[?i := t])"
    using t2(2) True by (auto simp: same_span_def nth_list_update)
  ultimately have "jinv (?q + 1) (p\<lparr>toknext := ?i + 1, toksuper := int ?i\<rparr>) (toks2[?i := t])"
    by (rule jinv_same_span)
  then show ?thesis
    using True t2(1) len by (simp add: step_ok_def jsmn_open_def jsmn_alloc_token_def tok_update_def t_def)
qed (simp add: step_ok_def jsmn_open_def jsmn_alloc_token_def)

lemma jsmn_close_ok:
  assumes inv: "jinv (jpos p) p toks"
  shows "step_ok p toks count (jsmn_close c p toks count)"
proof -
  have n: "toknext p \<le> length toks" using inv by (simp add: jinv_def)
  from find_down_spec [OF n, of is_open] show ?thesis
  proof
    assume "\<exists>i. find_down is_open toks (toknext p) = Some (Some i) \<and> i < toknext p \<and> is_open (toks ! i)
      \<and> (\<forall>j. i < j \<and> j < toknext p \<longrightarrow> \<not> is_open (toks ! j))"
    then obtain i where i: "find_down is_open toks (toknext p) = Some (Some i)" "i < toknext p" "is_open (toks ! i)"
      "\<forall>j. i < j \<and> j < toknext p \<longrightarrow> \<not> is_open (toks ! j)" by blast
    let ?toks1 = "toks[i := (toks ! i)\<lparr>tok_end := int (jpos p) + 1\<rparr>]"
    have le: "i + 1 \<le> length ?toks1" using i(2) n by simp
    obtain m where m: "find_down is_open ?toks1 (i + 1) = Some m" "\<And>k. m = Some k \<Longrightarrow> k < i + 1"
      using find_down_spec [OF le, of is_open] by auto
    have "jinv (jpos p + 1) (p\<lparr>toksuper := (case m of None \<Rightarrow> -1 | Some k \<Rightarrow> int k)\<rparr>) ?toks1"
      by (rule jinv_close [OF inv i(2,3,4)]) (use m(2) i(2) in \<open>auto split: option.split\<close>)
    then show ?thesis
      using i(1,2) m(1) n by (simp add: step_ok_def jsmn_close_def tok_update_def)
  next
    assume "find_down is_open toks (toknext p) = Some None \<and> (\<forall>j<toknext p. \<not> is_open (toks ! j))"
    then show ?thesis by (simp add: step_ok_def jsmn_close_def)
  qed
qed

lemma jsmn_comma_ok:
  assumes inv: "jinv (jpos p) p toks"
  shows "step_ok p toks count (jsmn_comma p toks count)"
proof -
  have n: "toknext p \<le> length toks" "-1 \<le> toksuper p" "toksuper p < int (toknext p)" using inv by (auto simp: jinv_def)
  let ?P = "\<lambda>t. tok_type t \<in> {JSMN_ARRAY, JSMN_OBJECT} \<and> is_open t"
  obtain m where m: "find_down ?P toks (toknext p) = Some m" "\<And>k. m = Some k \<Longrightarrow> k < toknext p"
    using find_down_spec [OF n(1), of ?P] by auto
  have inv': "jinv (jpos p + 1) p toks" using inv by (rule jinv_mono) simp
  moreover have "jinv (jpos p + 1) (p\<lparr>toksuper := int k\<rparr>) toks" if "m = Some k" for k
    using inv' m(2) [OF that] by (simp add: jinv_def)
  ultimately show ?thesis
    using m(1) n unfolding step_ok_def jsmn_comma_def by (auto split: option.split)
qed

text \<open>A value: the token of a string or primitive is added and counted as a child of the current one.\<close>

lemma jsmn_value_ok:
  assumes inv: "jinv (jpos p) p toks"
    and fail: "\<And>r p1 toks1. f p toks = Some (r, p1, toks1) \<Longrightarrow> r \<noteq> 0 \<Longrightarrow> r \<in> {-1, -2, -3} \<and> length toks1 = length toks"
    and some: "f p toks \<noteq> None"
    and new: "\<And>p1 toks1. f p toks = Some (0, p1, toks1) \<Longrightarrow> toknext p < length toks
      \<and> p1 = p\<lparr>toknext := toknext p + 1, jpos := jpos p1\<rparr>
      \<and> (\<exists>t. toks1 = toks[toknext p := t] \<and> int (jpos p) \<le> tok_start t \<and> tok_ok (int (jpos p1) + 1) t) \<and> jpos p \<le> jpos p1"
  shows "step_ok p toks count (jsmn_value f p toks count)"
proof -
  obtain r p1 toks1 where f: "f p toks = Some (r, p1, toks1)" using some by (metis not_None_eq prod_cases3)
  show ?thesis
  proof (cases "r = 0")
    case True
    from new [OF f [unfolded True]] obtain t where t: "toknext p < length toks" "toks1 = toks[toknext p := t]"
      "int (jpos p) \<le> tok_start t" "tok_ok (int (jpos p1 + 1)) t" "jpos p \<le> jpos p1"
      and p1: "p1 = p\<lparr>toknext := toknext p + 1, jpos := jpos p1\<rparr>" by (auto simp: add.commute)
    have sup: "-1 \<le> toksuper p" "toksuper p < int (toknext p)" using inv by (auto simp: jinv_def)
    have "jinv (jpos p1 + 1) (p\<lparr>toknext := toknext p + 1, toksuper := toksuper p\<rparr>) toks1"
      unfolding t(2) by (rule jinv_new [OF inv t(1) t(3,4)]) (use t(5) sup in auto)
    then have i1: "jinv (jpos p1 + 1) p1 toks1" by (subst p1) (simp add: jinv_def)
    obtain toks2 where t2: "count_child (toksuper p1) toks1 = Some toks2" "same_span toks1 toks2"
      using count_child_span [OF i1, of "toknext p1" toks1] i1 by (auto simp: jinv_def)
    moreover have "toknext p1 = toknext p + 1" by (subst p1) simp
    moreover have "jinv (jpos p1 + 1) p1 toks2" by (rule jinv_same_span [OF i1 t2(2)])
    ultimately show ?thesis
      using f True t(2) by (simp add: step_ok_def jsmn_value_def same_span_def)
  next
    case False
    then show ?thesis using fail [OF f] f by (auto simp: step_ok_def jsmn_value_def)
  qed
qed

lemma jsmn_string_ok:
  assumes inv: "jinv (jpos p) p toks"
  shows "step_ok p toks count (jsmn_value (jsmn_parse_string js len) p toks count)"
proof (rule jsmn_value_ok [OF inv])
  show "jsmn_parse_string js len p toks \<noteq> None"
    by (auto simp: jsmn_parse_string_def Let_def jsmn_alloc_token_def tok_update_def split: sum.split)
next
  fix r p1 toks1
  assume "jsmn_parse_string js len p toks = Some (r, p1, toks1)" "r \<noteq> 0"
  then show "r \<in> {-1, -2, -3} \<and> length toks1 = length toks"
    by (auto simp: jsmn_parse_string_def Let_def jsmn_alloc_token_def tok_update_def split: sum.split_asm if_split_asm
        dest: str_scan_error_codes)
next
  fix p1 toks1
  assume "jsmn_parse_string js len p toks = Some (0, p1, toks1)"
  then obtain q where q: "str_scan js len (jpos p + 1) = Inr q" "toknext p < length toks"
    "p1 = p\<lparr>toknext := toknext p + 1, jpos := q\<rparr>"
    "toks1 = toks[toknext p := jsmn_fill_token JSMN_STRING (int (jpos p) + 1) (int q)
      ((toks ! toknext p)\<lparr>tok_start := -1, tok_end := -1, tok_size := 0\<rparr>)]"
    by (auto simp: jsmn_parse_string_def Let_def jsmn_alloc_token_def tok_update_def split: sum.split_asm if_split_asm
        dest: str_scan_error_codes)
  then show "toknext p < length toks \<and> p1 = p\<lparr>toknext := toknext p + 1, jpos := jpos p1\<rparr>
      \<and> (\<exists>t. toks1 = toks[toknext p := t] \<and> int (jpos p) \<le> tok_start t \<and> tok_ok (int (jpos p1) + 1) t) \<and> jpos p \<le> jpos p1"
    using str_scan_ge [OF q(1)] by (auto simp: jsmn_fill_token_def tok_ok_def)
qed

lemma jsmn_primitive_ok:
  assumes inv: "jinv (jpos p) p toks" and lt: "jpos p < len" "at js (jpos p) \<noteq> NUL" "\<not> prim_delim (at js (jpos p))"
  shows "step_ok p toks count (jsmn_value (jsmn_parse_primitive js len) p toks count)"
proof (rule jsmn_value_ok [OF inv])
  show "jsmn_parse_primitive js len p toks \<noteq> None"
    by (auto simp: jsmn_parse_primitive_def Let_def jsmn_alloc_token_def tok_update_def split: option.split)
next
  fix r p1 toks1
  assume "jsmn_parse_primitive js len p toks = Some (r, p1, toks1)" "r \<noteq> 0"
  then show "r \<in> {-1, -2, -3} \<and> length toks1 = length toks"
    by (auto simp: jsmn_parse_primitive_def Let_def jsmn_alloc_token_def tok_update_def split: option.split_asm if_split_asm)
next
  fix p1 toks1
  assume "jsmn_parse_primitive js len p toks = Some (0, p1, toks1)"
  then obtain q where q: "prim_scan js len (jpos p) = Some q" "toknext p < length toks"
    "p1 = p\<lparr>toknext := toknext p + 1, jpos := q - 1\<rparr>"
    "toks1 = toks[toknext p := jsmn_fill_token JSMN_PRIMITIVE (int (jpos p)) (int q)
      ((toks ! toknext p)\<lparr>tok_start := -1, tok_end := -1, tok_size := 0\<rparr>)]"
    by (auto simp: jsmn_parse_primitive_def Let_def jsmn_alloc_token_def tok_update_def split: option.split_asm if_split_asm)
  moreover have "jpos p < q" by (rule prim_scan_gt [OF q(1) lt])
  ultimately show "toknext p < length toks \<and> p1 = p\<lparr>toknext := toknext p + 1, jpos := jpos p1\<rparr>
      \<and> (\<exists>t. toks1 = toks[toknext p := t] \<and> int (jpos p) \<le> tok_start t \<and> tok_ok (int (jpos p1) + 1) t) \<and> jpos p \<le> jpos p1"
    by (auto simp: jsmn_fill_token_def tok_ok_def of_nat_diff)
qed

lemma jsmn_char_ok:
  assumes inv: "jinv (jpos p) p toks" and lt: "jpos p < len" "at js (jpos p) \<noteq> NUL"
  shows "step_ok p toks count (jsmn_char js len p toks count)"
proof -
  let ?c = "at js (jpos p)"
  have mono: "jinv (jpos p + 1) p toks" using inv by (rule jinv_mono) simp
  have blank: "step_ok p toks count (Some (0, p, toks, count))" using mono by (simp add: step_ok_def)
  have colon: "step_ok p toks count (Some (0, p\<lparr>toksuper := int (toknext p) - 1\<rparr>, toks, count))"
    using mono by (simp add: step_ok_def jinv_def)
  show ?thesis
  proof (cases "prim_delim ?c")
    case True
    then show ?thesis
      using blank colon jsmn_open_ok [OF inv] jsmn_close_ok [OF inv] jsmn_comma_ok [OF inv]
      unfolding jsmn_char_def Let_def by (auto simp: prim_delim_def)
  next
    case False
    then show ?thesis
      using blank colon jsmn_open_ok [OF inv] jsmn_close_ok [OF inv] jsmn_comma_ok [OF inv] jsmn_string_ok [OF inv]
        jsmn_primitive_ok [OF inv lt False]
      unfolding jsmn_char_def Let_def by simp
  qed
qed

lemma jsmn_loop_ok:
  assumes "jinv (jpos p) p toks" "jpos p \<le> len" "count = int (toknext p)"
  shows "\<exists>r p' toks'. jsmn_loop js len p toks count = Some (r, p', toks') \<and> length toks' = length toks
    \<and> (r < 0 \<longrightarrow> r \<in> {-1, -2, -3})
    \<and> (0 \<le> r \<longrightarrow> r = int (toknext p') \<and> jinv len p' toks' \<and> (\<forall>i < toknext p'. \<not> is_open (toks' ! i)))"
  using assms
proof (induction js len p toks count rule: jsmn_loop.induct)
  case (1 js len p toks count)
  show ?case
  proof (cases "jpos p < len \<and> at js (jpos p) \<noteq> NUL")
    case True
    from jsmn_char_ok [of p toks len js count] 1(2) True obtain r p1 toks1 c1 where
      st: "jsmn_char js len p toks count = Some (r, p1, toks1, c1)" "r \<in> {0, -1, -2, -3}" "length toks1 = length toks"
      and inv: "r = 0 \<Longrightarrow> jinv (jpos p1 + 1) p1 toks1" "r = 0 \<Longrightarrow> c1 - int (toknext p1) = count - int (toknext p)"
      unfolding step_ok_def by blast
    show ?thesis
    proof (cases "r = 0")
      case r0: True
      let ?p1 = "p1\<lparr>jpos := jpos p1 + 1\<rparr>"
      have "jpos ?p1 \<le> len" using jsmn_char_pos [OF st(1)] r0 True by simp
      moreover have "jinv (jpos ?p1) ?p1 toks1" using inv(1) r0 by (simp add: jinv_def)
      moreover have "c1 = int (toknext ?p1)" using inv(2) r0 1(4) by simp
      moreover have "\<not> r < 0" using r0 by simp
      ultimately show ?thesis
        using 1(1) [OF True st(1) refl refl refl] True st(1,3) r0 by (subst jsmn_loop.simps) simp
    next
      case False
      then show ?thesis using st True by (subst jsmn_loop.simps) auto
    qed
  next
    case False
    have n: "toknext p \<le> length toks" using 1(2) by (simp add: jinv_def)
    have "jinv len p toks" using 1(2,3) by (rule jinv_mono)
    then show ?thesis
      using find_down_spec [OF n, of is_open] False 1(4)
      by (subst jsmn_loop.simps) (auto simp: jsmn_finish_def)
  qed
qed

section \<open>Flat objects of strings\<close>

text \<open>The text of an object whose members are strings, and the tokens it has.\<close>

abbreviation QT :: char where "QT \<equiv> CHR 0x22"

definition plain :: "string \<Rightarrow> bool" where
  "plain s \<longleftrightarrow> (\<forall>c \<in> set s. c \<noteq> NUL \<and> c \<noteq> QT \<and> c \<noteq> CHR 0x5C)"

definition render_kv :: "string \<times> string \<Rightarrow> string" where
  "render_kv kv = QT # fst kv @ QT # CHR '':'' # QT # snd kv @ [QT]"

fun render_kvs :: "(string \<times> string) list \<Rightarrow> string" where
  "render_kvs [] = []"
| "render_kvs [kv] = render_kv kv"
| "render_kvs (kv # kvs) = render_kv kv @ CHR '','' # render_kvs kvs"

definition str_tok :: "nat \<Rightarrow> string \<Rightarrow> int \<Rightarrow> jsmntok" where
  "str_tok off s n = \<lparr>tok_type = JSMN_STRING, tok_start = int off + 1, tok_end = int off + 1 + int (length s), tok_size = n\<rparr>"

fun kv_toks :: "nat \<Rightarrow> (string \<times> string) list \<Rightarrow> jsmntok list" where
  "kv_toks off [] = []"
| "kv_toks off ((k, v) # kvs) =
     str_tok off k 1 # str_tok (off + length k + 3) v 0 # kv_toks (off + length k + length v + 6) kvs"

lemma length_kv_toks [simp]: "length (kv_toks off kvs) = 2 * length kvs"
  by (induction off kvs rule: kv_toks.induct) auto

lemma at_append [simp]: "at (xs @ c # ys) (length xs) = c"
  by (simp add: at_def)

lemma str_scan_plain:
  assumes "plain s" and "length (pre @ s) < len"
  shows "str_scan (pre @ s @ QT # rest) len (length pre) = Inr (length pre + length s)"
  using assms
proof (induction s arbitrary: pre)
  case Nil
  then show ?case by (subst str_scan.simps) simp
next
  case (Cons c s)
  have "str_scan ((pre @ [c]) @ s @ QT # rest) len (length (pre @ [c])) = Inr (length (pre @ [c]) + length s)"
    using Cons by (intro Cons.IH) (auto simp: plain_def)
  then show ?case using Cons.prems by (subst str_scan.simps) (auto simp: plain_def)
qed

lemma loop_blank:
  assumes "jpos p < len" "at js (jpos p) \<noteq> NUL" "jsmn_char js len p toks count = Some (0, p1, toks1, c1)"
  shows "jsmn_loop js len p toks count = jsmn_loop js len (p1\<lparr>jpos := jpos p1 + 1\<rparr>) toks1 c1"
  using assms by (subst jsmn_loop.simps) simp

lemma loop_string:
  assumes js: "js = ts @ QT # s @ QT # rest" and s: "plain s" and len: "len = length js"
    and p: "p = \<lparr>jpos = length ts, toknext = length pre, toksuper = int i\<rparr>" and i: "i < length pre"
  shows "jsmn_loop js len p (pre @ b # bs) count =
    jsmn_loop js len \<lparr>jpos = length ts + length s + 2, toknext = length pre + 1, toksuper = int i\<rparr>
      (pre[i := (pre ! i)\<lparr>tok_size := tok_size (pre ! i) + 1\<rparr>] @ str_tok (length ts) s 0 # bs) (count + 1)"
proof -
  have "str_scan ((ts @ [QT]) @ s @ QT # rest) len (length (ts @ [QT])) = Inr (length (ts @ [QT]) + length s)"
    using s len js by (intro str_scan_plain) auto
  then have scan: "str_scan js len (Suc (length ts)) = Inr (length ts + length s + 1)" by (simp add: js)
  have upd: "pre[i := x] @ y = (pre @ y)[i := x]" for x y using i by (simp add: list_update_append)
  have "jsmn_char js len p (pre @ b # bs) count =
    Some (0, \<lparr>jpos = length ts + length s + 1, toknext = length pre + 1, toksuper = int i\<rparr>,
      pre[i := (pre ! i)\<lparr>tok_size := tok_size (pre ! i) + 1\<rparr>] @ str_tok (length ts) s 0 # bs, count + 1)"
    using scan i
    by (cases b) (simp add: p js Let_def jsmn_char_def jsmn_value_def jsmn_parse_string_def jsmn_alloc_token_def tok_update_def
        jsmn_fill_token_def count_child_def str_tok_def nth_append list_update_append)
  then show ?thesis using js len by (subst loop_blank) (auto simp: p)
qed

lemma loop_colon:
  assumes "js = ts @ CHR '':'' # rest" "len = length js"
  shows "jsmn_loop js len \<lparr>jpos = length ts, toknext = n, toksuper = x\<rparr> toks count =
    jsmn_loop js len \<lparr>jpos = length ts + 1, toknext = n, toksuper = int n - 1\<rparr> toks count"
  using assms by (subst loop_blank) (auto simp: jsmn_char_def)

text \<open>One member, at an open object with index 0.\<close>

lemma loop_kv:
  assumes js: "js = ts @ render_kv (k, v) @ rest" and kv: "plain k" "plain v" and len: "len = length js"
  shows "jsmn_loop js len \<lparr>jpos = length ts, toknext = length (ob # pre), toksuper = 0\<rparr> ((ob # pre) @ b1 # b2 # bs) count =
    jsmn_loop js len \<lparr>jpos = length ts + length k + length v + 5, toknext = length pre + 3, toksuper = int (length pre) + 1\<rparr>
      ((ob\<lparr>tok_size := tok_size ob + 1\<rparr> # pre) @ str_tok (length ts) k 1 # str_tok (length ts + length k + 3) v 0 # bs) (count + 2)"
proof -
  let ?ob = "ob\<lparr>tok_size := tok_size ob + 1\<rparr>"
  have "jsmn_loop js len \<lparr>jpos = length ts, toknext = length (ob # pre), toksuper = 0\<rparr> ((ob # pre) @ b1 # b2 # bs) count =
    jsmn_loop js len \<lparr>jpos = length ts + length k + 2, toknext = length (ob # pre) + 1, toksuper = int 0\<rparr>
      ((ob # pre)[0 := ?ob] @ str_tok (length ts) k 0 # b2 # bs) (count + 1)"
    by (subst loop_string [where i = 0 and pre = "ob # pre", OF _ kv(1) len, of ts "CHR '':'' # QT # v @ QT # rest"])
      (simp_all add: js render_kv_def)
  also have "\<dots> = jsmn_loop js len \<lparr>jpos = length ts + length k + 3, toknext = length pre + 2, toksuper = int (length pre + 1)\<rparr>
      ((?ob # pre @ [str_tok (length ts) k 0]) @ b2 # bs) (count + 1)"
    using loop_colon [of js "ts @ QT # k @ [QT]" "QT # v @ QT # rest" len "length pre + 2" "int 0"] len
    by (simp add: js render_kv_def numeral_3_eq_3)
  also have "\<dots> = jsmn_loop js len \<lparr>jpos = length ts + length k + length v + 5, toknext = length pre + 3, toksuper = int (length pre) + 1\<rparr>
      ((?ob # pre) @ str_tok (length ts) k 1 # str_tok (length ts + length k + 3) v 0 # bs) (count + 2)"
    by (subst loop_string [where i = "length pre + 1" and pre = "?ob # pre @ [str_tok (length ts) k 0]", OF _ kv(2) len,
          of "ts @ QT # k @ [QT, CHR '':'']" rest])
      (simp_all add: js render_kv_def str_tok_def list_update_append nth_append eval_nat_numeral add.commute add.left_commute)
  finally show ?thesis .
qed

lemma find_down_first:
  assumes "i < n" "n \<le> length toks" "P (toks ! i)" "\<And>j. i < j \<Longrightarrow> j < n \<Longrightarrow> \<not> P (toks ! j)"
  shows "find_down P toks n = Some (Some i)"
  using find_down_spec [OF assms(2), of P] assms by (metis linorder_neqE_nat)

lemma loop_comma:
  assumes js: "js = ts @ CHR '','' # rest" "len = length js" and ob: "tok_type ob = JSMN_OBJECT" "is_open ob"
    and pre: "\<forall>t \<in> set pre. tok_type t = JSMN_STRING" and x: "0 < x" "x \<le> length pre"
  shows "jsmn_loop js len \<lparr>jpos = length ts, toknext = length pre + 1, toksuper = int x\<rparr> ((ob # pre) @ bs) count =
    jsmn_loop js len \<lparr>jpos = length ts + 1, toknext = length pre + 1, toksuper = 0\<rparr> ((ob # pre) @ bs) count"
proof -
  let ?P = "\<lambda>t. tok_type t \<in> {JSMN_ARRAY, JSMN_OBJECT} \<and> is_open t" and ?toks = "(ob # pre) @ bs"
  have st: "tok_type (?toks ! j) = JSMN_STRING" if "0 < j" "j < length pre + 1" for j
    using pre that by (cases j) (auto simp: nth_append)
  have "find_down ?P ?toks (length pre + 1) = Some (Some 0)"
    by (rule find_down_first) (use st ob in auto)
  moreover have "tok_type (?toks ! x) = JSMN_STRING" using st x by auto
  ultimately have "jsmn_char js len \<lparr>jpos = length ts, toknext = length pre + 1, toksuper = int x\<rparr> ?toks count
      = Some (0, \<lparr>jpos = length ts, toknext = length pre + 1, toksuper = 0\<rparr>, ?toks, count)"
    using x by (simp add: js jsmn_char_def jsmn_comma_def)
  then show ?thesis using js by (subst loop_blank) auto
qed

definition bump :: "int \<Rightarrow> jsmntok \<Rightarrow> jsmntok" where
  "bump n t = t\<lparr>tok_size := tok_size t + n\<rparr>"

lemma bump_simps [simp]:
  "tok_type (bump n t) = tok_type t" "is_open (bump n t) = is_open t" "bump n (bump m t) = bump (m + n) t"
  "tok_start (bump n t) = tok_start t" "tok_end (bump n t) = tok_end t" "tok_size (bump n t) = tok_size t + n"
  by (simp_all add: bump_def is_open_def)

lemma loop_kvs:
  assumes "js = ts @ render_kvs kvs @ rest" and "len = length js" and "kvs \<noteq> []"
    and "\<forall>(k, v) \<in> set kvs. plain k \<and> plain v" and "length bs = 2 * length kvs"
    and "tok_type ob = JSMN_OBJECT" "is_open ob" "\<forall>t \<in> set pre. tok_type t = JSMN_STRING"
  shows "\<exists>x. jsmn_loop js len \<lparr>jpos = length ts, toknext = length pre + 1, toksuper = 0\<rparr> ((ob # pre) @ bs @ cs) count =
    jsmn_loop js len \<lparr>jpos = length ts + length (render_kvs kvs), toknext = length pre + 1 + 2 * length kvs, toksuper = x\<rparr>
      ((bump (int (length kvs)) ob # pre) @ kv_toks (length ts) kvs @ cs) (count + 2 * int (length kvs))"
  using assms
proof (induction kvs arbitrary: ts ob pre bs count rule: render_kvs.induct)
  case (2 kv)
  obtain k v where kv: "kv = (k, v)" by fastforce
  obtain b1 b2 where bs: "bs = [b1, b2]" using 2(5) by (auto simp: length_Suc_conv numeral_2_eq_2)
  show ?case
    using loop_kv [of js ts k v rest len ob pre b1 b2 cs count] 2 kv
    by (auto simp: bs render_kv_def bump_def algebra_simps eval_nat_numeral)
next
  case (3 kv kv' kvs)
  obtain k v where kv: "kv = (k, v)" by fastforce
  obtain b1 b2 bs' where bs: "bs = b1 # b2 # bs'" "length bs' = 2 * length (kv' # kvs)"
    using 3(6) by (auto simp: length_Suc_conv numeral_2_eq_2)
  let ?ts = "ts @ render_kv kv @ [CHR '','']" and ?ob = "bump 1 ob"
  let ?pre = "pre @ [str_tok (length ts) k 1, str_tok (length ts + length k + 3) v 0]"
  let ?r = "CHR '','' # render_kvs (kv' # kvs) @ rest"
  have "jsmn_loop js len \<lparr>jpos = length ts, toknext = length pre + 1, toksuper = 0\<rparr> ((ob # pre) @ bs @ cs) count =
    jsmn_loop js len \<lparr>jpos = length (ts @ render_kv kv), toknext = length ?pre + 1, toksuper = int (length pre + 1)\<rparr>
      ((?ob # ?pre) @ bs' @ cs) (count + 2)"
    using loop_kv [of js ts k v ?r len ob pre b1 b2 "bs' @ cs" count] 3(2,3,5) kv
    by (simp add: bs render_kv_def bump_def algebra_simps eval_nat_numeral)
  also have "\<dots> = jsmn_loop js len \<lparr>jpos = length ?ts, toknext = length ?pre + 1, toksuper = 0\<rparr> ((?ob # ?pre) @ bs' @ cs) (count + 2)"
    using loop_comma [of js "ts @ render_kv kv" "render_kvs (kv' # kvs) @ rest" len ?ob ?pre "length pre + 1" "bs' @ cs" "count + 2"] 3
    by (simp add: str_tok_def)
  also obtain x where "\<dots> =
    jsmn_loop js len \<lparr>jpos = length ?ts + length (render_kvs (kv' # kvs)), toknext = length ?pre + 1 + 2 * length (kv' # kvs), toksuper = x\<rparr>
      ((bump (int (length (kv' # kvs))) ?ob # ?pre) @ kv_toks (length ?ts) (kv' # kvs) @ cs) (count + 2 + 2 * int (length (kv' # kvs)))"
    using 3(1) [of ?ts bs' ?ob ?pre "count + 2"] 3(2-9) bs(2) by (auto simp: str_tok_def)
  finally show ?case by (auto simp: kv render_kv_def algebra_simps eval_nat_numeral intro!: exI [of _ x])
qed simp

definition object_tok :: "nat \<Rightarrow> nat \<Rightarrow> jsmntok" where
  "object_tok len n = \<lparr>tok_type = JSMN_OBJECT, tok_start = 0, tok_end = int len, tok_size = int n\<rparr>"

lemma kv_toks_closed: "t \<in> set (kv_toks off kvs) \<Longrightarrow> tok_type t = JSMN_STRING \<and> \<not> is_open t"
  by (induction off kvs rule: kv_toks.induct) (auto simp: str_tok_def is_open_def)

lemma kv_toks_nth_closed:
  assumes "0 < j" "j < 2 * length kvs + 1"
  shows "\<not> is_open ((t # kv_toks off kvs @ cs) ! j)"
proof -
  have "(t # kv_toks off kvs @ cs) ! j = kv_toks off kvs ! (j - 1)" using assms by (simp add: nth_append nth_Cons')
  then show ?thesis using assms kv_toks_closed [of "kv_toks off kvs ! (j - 1)" off kvs] by simp
qed

lemma jsmn_flat_run:
  assumes "kvs \<noteq> []" and "\<forall>(k, v) \<in> set kvs. plain k \<and> plain v" and "2 * length kvs + 1 \<le> length toks"
    and js: "js = CHR ''{'' # render_kvs kvs @ ''}''"
  shows "\<exists>p. jsmn_parse js (length js) jsmn_init toks = Some (2 * int (length kvs) + 1, p,
    object_tok (length js) (length kvs) # kv_toks 1 kvs @ drop (2 * length kvs + 1) toks)"
proof -
  let ?n = "length kvs" and ?len = "length js"
  obtain b bs cs where toks: "toks = b # bs @ cs" "length bs = 2 * ?n" "cs = drop (2 * ?n + 1) toks"
    using assms(3) by (cases toks) (auto intro!: that [of _ "take (2 * ?n) (tl toks)"])
  define ob where "ob = \<lparr>tok_type = JSMN_OBJECT, tok_start = 0, tok_end = -1, tok_size = 0\<rparr>"
  have "jsmn_char js ?len jsmn_init toks 0 = Some (0, \<lparr>jpos = 0, toknext = 1, toksuper = 0\<rparr>, ob # bs @ cs, 1)"
    by (cases b) (simp add: toks(1) js jsmn_char_def at_def jsmn_open_def jsmn_init_def jsmn_alloc_token_def count_child_def tok_update_def ob_def)
  then have "jsmn_parse js ?len jsmn_init toks = jsmn_loop js ?len \<lparr>jpos = 1, toknext = 1, toksuper = 0\<rparr> (ob # bs @ cs) 1"
    unfolding jsmn_parse_def by (subst loop_blank) (auto simp: jsmn_init_def js at_def)
  also obtain x where "\<dots> = jsmn_loop js ?len \<lparr>jpos = 1 + length (render_kvs kvs), toknext = 1 + 2 * ?n, toksuper = x\<rparr>
      (bump (int ?n) ob # kv_toks 1 kvs @ cs) (1 + 2 * int ?n)"
    using loop_kvs [of js "''{''" kvs "''}''" ?len bs ob "[]" cs 1] assms(1,2) js toks(2) by (auto simp: ob_def is_open_def)
  also have "\<dots> = jsmn_loop js ?len \<lparr>jpos = ?len, toknext = 1 + 2 * ?n, toksuper = -1\<rparr>
      (object_tok ?len ?n # kv_toks 1 kvs @ cs) (1 + 2 * int ?n)"
  proof -
    let ?toks = "bump (int ?n) ob # kv_toks 1 kvs @ cs" and ?toks1 = "object_tok ?len ?n # kv_toks 1 kvs @ cs"
    have at: "at js (1 + length (render_kvs kvs)) = CHR ''}''" by (simp add: js at_def nth_append)
    have "find_down is_open ?toks (1 + 2 * ?n) = Some (Some 0)"
    proof (rule find_down_first)
      show "is_open (?toks ! 0)" by (simp add: ob_def is_open_def bump_def)
      show "\<not> is_open (?toks ! j)" if "0 < j" "j < 1 + 2 * ?n" for j
        using that kv_toks_nth_closed [of j kvs] by simp
    qed simp_all
    moreover have "find_down is_open ?toks1 1 = Some None"
      by (simp add: find_down.simps object_tok_def is_open_def js)
    ultimately have "jsmn_char js ?len \<lparr>jpos = 1 + length (render_kvs kvs), toknext = 1 + 2 * ?n, toksuper = x\<rparr> ?toks (1 + 2 * int ?n)
      = Some (0, \<lparr>jpos = 1 + length (render_kvs kvs), toknext = 1 + 2 * ?n, toksuper = -1\<rparr>, ?toks1, 1 + 2 * int ?n)"
      by (simp add: at [simplified] jsmn_char_def jsmn_close_def tok_update_def ob_def bump_def object_tok_def js)
    then show ?thesis using at by (subst loop_blank) (auto simp: js)
  qed
  also have "\<dots> = Some (2 * int ?n + 1, \<lparr>jpos = ?len, toknext = 1 + 2 * ?n, toksuper = -1\<rparr>, object_tok ?len ?n # kv_toks 1 kvs @ cs)"
  proof -
    let ?toks1 = "object_tok ?len ?n # kv_toks 1 kvs @ cs"
    have "\<not> is_open (?toks1 ! j)" if "j < 1 + 2 * ?n" for j
      using that kv_toks_nth_closed [of j kvs] by (cases "j = 0") (auto simp: object_tok_def is_open_def js)
    then have "find_down is_open ?toks1 (1 + 2 * ?n) = Some None"
      using find_down_spec [of "1 + 2 * ?n" ?toks1 is_open] by auto
    then show ?thesis by (subst jsmn_loop.simps) (simp add: jsmn_finish_def)
  qed
  finally show ?thesis using toks(3) by blast
qed

lemma jsmn_parse_len:
  assumes "jsmn_parse js len jsmn_init toks = Some (r, p, toks')"
  shows "length toks' = length toks" "r \<le> int (length toks)"
proof -
  have "jinv (jpos jsmn_init) jsmn_init toks" by (simp add: jinv_def jsmn_init_def)
  from jsmn_loop_ok [OF this, of len "int (toknext jsmn_init)" js] assms
  have len: "length toks' = length toks" and ok: "0 \<le> r \<Longrightarrow> r = int (toknext p)" "0 \<le> r \<Longrightarrow> jinv len p toks'"
    by (auto simp: jsmn_parse_def jsmn_init_def)
  show "length toks' = length toks" by (rule len)
  show "r \<le> int (length toks)" using ok len by (cases "0 \<le> r") (auto simp: jinv_def)
qed

section \<open>Properties\<close>

text \<open>C35: tokenizing is total and memory safe. For every text and every token array the parser returns and never
  touches a token outside the array. When it succeeds, the result is the number of tokens it filled;
  each lies inside the text, each starts after the one before, and any two are disjoint or nested.\<close>

theorem jsmn_parse_safe:
  "\<exists>r p toks'. jsmn_parse js len jsmn_init toks = Some (r, p, toks') \<and> length toks' = length toks
    \<and> (r < 0 \<longrightarrow> r \<in> {JSMN_ERROR_NOMEM, JSMN_ERROR_INVAL, JSMN_ERROR_PART})
    \<and> (0 \<le> r \<longrightarrow> r \<le> int (length toks)
        \<and> (\<forall>i < nat r. 0 \<le> tok_start (toks' ! i) \<and> tok_start (toks' ! i) \<le> tok_end (toks' ! i) \<and> tok_end (toks' ! i) \<le> int len)
        \<and> (\<forall>i j. i < j \<and> j < nat r \<longrightarrow> tok_start (toks' ! i) < tok_start (toks' ! j)
             \<and> (tok_end (toks' ! i) \<le> tok_start (toks' ! j) \<or> tok_end (toks' ! j) \<le> tok_end (toks' ! i))))"
proof -
  have "jinv (jpos jsmn_init) jsmn_init toks" by (simp add: jinv_def jsmn_init_def)
  from jsmn_loop_ok [OF this, of len "int (toknext jsmn_init)" js] obtain r p toks' where
    run: "jsmn_parse js len jsmn_init toks = Some (r, p, toks')" "length toks' = length toks"
      "r < 0 \<longrightarrow> r \<in> {-1, -2, -3}"
    and ok: "0 \<le> r \<Longrightarrow> r = int (toknext p)" "0 \<le> r \<Longrightarrow> jinv len p toks'"
      "0 \<le> r \<Longrightarrow> \<forall>i < toknext p. \<not> is_open (toks' ! i)"
    by (auto simp: jsmn_parse_def jsmn_init_def)
  have closed: "tok_end (toks' ! i) \<noteq> -1" if "0 \<le> r" "i < toknext p" for i
    using ok that by (fastforce simp: jinv_def tok_ok_def is_open_def)
  have span: "0 \<le> tok_start (toks' ! i) \<and> tok_start (toks' ! i) \<le> tok_end (toks' ! i) \<and> tok_end (toks' ! i) \<le> int len"
    if "0 \<le> r" "i < nat r" for i
    using ok closed [of i] that by (auto simp: jinv_def tok_ok_def)
  have nest: "tok_start (toks' ! i) < tok_start (toks' ! j)
      \<and> (tok_end (toks' ! i) \<le> tok_start (toks' ! j) \<or> tok_end (toks' ! j) \<le> tok_end (toks' ! i))"
    if "0 \<le> r" "i < j" "j < nat r" for i j
    using ok closed [of i] that by (auto simp: jinv_def nested_def)
  have "r \<le> int (length toks)" if "0 \<le> r" using ok that run(2) by (auto simp: jinv_def)
  then show ?thesis using run span nest by blast
qed

text \<open>tokenizing the text of an object whose members are strings gives exactly one object token that spans the
  text and a key and a value token for each member, at their places, in order.\<close>

theorem jsmn_parse_flat_object:
  assumes "kvs \<noteq> []" and "\<forall>(k, v) \<in> set kvs. plain k \<and> plain v" and "2 * length kvs + 1 \<le> length toks"
    and js: "js = CHR ''{'' # render_kvs kvs @ ''}''"
  shows "\<exists>p. jsmn_parse js (length js) jsmn_init toks = Some (2 * int (length kvs) + 1, p,
    object_tok (length js) (length kvs) # kv_toks 1 kvs @ drop (2 * length kvs + 1) toks)"
  using assms by (rule jsmn_flat_run)

definition blank_tok :: jsmntok where
  "blank_tok = \<lparr>tok_type = JSMN_UNDEFINED, tok_start = 0, tok_end = 0, tok_size = 0\<rparr>"

theorem jsmn_parse_flat_object_witness:
  "\<exists>p. jsmn_parse (CHR ''{'' # render_kvs [(''nonce'', ''n1''), (''s'', ''9'')] @ ''}'') 22 jsmn_init (replicate 5 blank_tok)
     = Some (5, p, object_tok 22 2 # kv_toks 1 [(''nonce'', ''n1''), (''s'', ''9'')])"
  using jsmn_parse_flat_object [of "[(''nonce'', ''n1''), (''s'', ''9'')]" "replicate 5 blank_tok"]
  by (simp add: plain_def render_kv_def eval_nat_numeral)

theorem jsmn_parse_safe_witness:
  "\<exists>p toks'. jsmn_parse ''[1]'' 3 jsmn_init (replicate 2 blank_tok) = Some (2, p, toks')
     \<and> tok_end (toks' ! 0) \<le> 3 \<and> tok_start (toks' ! 0) < tok_start (toks' ! 1)"
proof -
  have "map_option fst (jsmn_parse ''[1]'' 3 jsmn_init (replicate 2 blank_tok)) = Some 2" by code_simp
  then show ?thesis using jsmn_parse_safe [of "''[1]''" 3 "replicate 2 blank_tok"] by fastforce
qed

end
