(* ===== verification/Client_Voucher.thy ===== *)
theory Client_Voucher
  imports Est_Strings Jsmn
begin

text \<open>
  The client's handling of CA certificates and of BRSKI vouchers (\<^verbatim>\<open>src/src/est/est_client.c\<close>): the
  verification of a received set of CA certificates (\<^verbatim>\<open>verify_cacert_resp\<close> and its helpers), the
  verification and the parsing of a voucher (\<^verbatim>\<open>verify_voucher\<close>, \<^verbatim>\<open>brski_parse_voucher\<close>) over the model of
  \<^verbatim>\<open>jsmn\<close>, and the entry points \<^verbatim>\<open>est_client_brski_get_voucher\<close> and \<^verbatim>\<open>est_client_brski_copy_cacert\<close>.
  \<^verbatim>\<open>BASE64_ENCODE_VOUCHERS\<close> is not defined by the build.

  The PKCS7 and X509 functions of OpenSSL are the fields of \<open>P7_OSSL\<close>, a parameter. Allocations succeed.
  An array on the stack starts with unknown contents, which are a parameter. \<^term>\<open>None\<close> is an access
  outside an object.
\<close>

section \<open>What OpenSSL provides\<close>

datatype p7_nid = NID_pkcs7_signed | NID_pkcs7_signedAndEnveloped | NID_other

text \<open>\<open>p7_crl\<close>: the structure has CRLs attached; \<open>p7_data\<close>: the signed contents.\<close>

record PKCS7 =
  p7_type :: p7_nid
  p7_cert :: "nat list option"
  p7_crl :: bool
  p7_data :: string

text \<open>
  \<open>b64_read s\<close> are the bytes \<^verbatim>\<open>BIO_read\<close> gets through a base64 filter, \<^term>\<open>None\<close> a negative result.
  \<open>b64_PKCS7\<close> is the base64 text that \<^verbatim>\<open>i2d_PKCS7_bio\<close> writes, \<^term>\<open>None\<close> when it fails.
  \<open>verify_cert trusted untrusted c\<close> is the result of \<^verbatim>\<open>X509_verify_cert\<close>.
\<close>

record P7_OSSL =
  b64_read :: "string \<Rightarrow> string option"
  d2i_PKCS7_bio :: "string \<Rightarrow> PKCS7 option"
  b64_PKCS7 :: "PKCS7 \<Rightarrow> string option"
  self_issued :: "nat \<Rightarrow> bool"
  store_ctx_init :: bool
  verify_cert :: "nat list \<Rightarrow> nat list \<Rightarrow> nat \<Rightarrow> int"
  PKCS7_verify :: "PKCS7 \<Rightarrow> nat \<Rightarrow> int"

section \<open>CA certificates\<close>

text \<open>
  The buffer with its length, which the caller passes by reference. The new text replaces the old one
  when it fits; the length is set in any case.
\<close>

definition est_client_remove_crls ::
  "P7_OSSL \<Rightarrow> mem \<Rightarrow> nat \<Rightarrow> PKCS7 \<Rightarrow> (EST_ERROR \<times> mem \<times> nat) option" where
  "est_client_remove_crls ossl cacerts cacerts_len p7 =
     (if p7_type p7 = NID_other then Some (EST_ERR_CACERT_VERIFICATION, cacerts, cacerts_len)
      else if \<not> p7_crl p7 then Some (EST_ERR_NONE, cacerts, cacerts_len)
      else do {
        (z, _) \<leftarrow> memzero_s (Some cacerts) cacerts_len;
        let zeroed = (case z of Some m \<Rightarrow> m | None \<Rightarrow> cacerts) in
        (case b64_PKCS7 ossl (p7\<lparr>p7_crl := False\<rparr>) of
           None \<Rightarrow> Some (EST_ERR_CACERT_VERIFICATION, zeroed, cacerts_len)
         | Some new \<Rightarrow>
             if new = [] then Some (EST_ERR_CACERT_VERIFICATION, zeroed, cacerts_len)
             else do {
               (c, _) \<leftarrow> memcpy_s (Some zeroed) cacerts_len (Some new) (length new);
               Some (EST_ERR_NONE, (case c of Some m \<Rightarrow> m | None \<Rightarrow> zeroed), length new) }) })"

text \<open>
  A negative result of \<^verbatim>\<open>BIO_read\<close> becomes the length of the decoded buffer, and \<^verbatim>\<open>BIO_new_mem_buf\<close> then
  takes the unwritten buffer as a string.
\<close>

definition b64_decode_cacerts :: "P7_OSSL \<Rightarrow> mem \<Rightarrow> nat \<Rightarrow> string option" where
  "b64_decode_cacerts ossl cacerts cacerts_len = do { bs \<leftarrow> rd_block cacerts 0 cacerts_len; b64_read ossl bs }"

definition create_PKCS7 :: "P7_OSSL \<Rightarrow> string \<Rightarrow> EST_ERROR + PKCS7" where
  "create_PKCS7 ossl cacerts_decoded =
     (case d2i_PKCS7_bio ossl cacerts_decoded of None \<Rightarrow> Inl EST_ERR_LOAD_CACERTS | Some p7 \<Rightarrow> Inr p7)"

definition PKCS7_to_stack :: "PKCS7 \<Rightarrow> EST_ERROR + nat list" where
  "PKCS7_to_stack p7 =
     (if p7_type p7 = NID_other then Inl EST_ERR_CACERT_VERIFICATION
      else (case p7_cert p7 of None \<Rightarrow> Inl EST_ERR_CACERT_VERIFICATION | Some stack \<Rightarrow> Inr stack))"

text \<open>The verification loop: \<^term>\<open>None\<close> when the store context cannot be set up, else whether one failed.\<close>

fun verify_stack :: "P7_OSSL \<Rightarrow> nat list \<Rightarrow> nat list \<Rightarrow> nat list \<Rightarrow> bool \<Rightarrow> bool option" where
  "verify_stack ossl trusted stack [] failed = Some failed"
| "verify_stack ossl trusted stack (c # cs) failed =
     (if \<not> store_ctx_init ossl then None
      else verify_stack ossl trusted stack cs (if verify_cert ossl trusted stack c = 0 then True else failed))"

definition verify_cacert_resp :: "P7_OSSL \<Rightarrow> mem \<Rightarrow> nat \<Rightarrow> (EST_ERROR \<times> mem \<times> nat) option" where
  "verify_cacert_resp ossl cacerts cacerts_len =
     do { decoded \<leftarrow> b64_decode_cacerts ossl cacerts cacerts_len;
          (case create_PKCS7 ossl decoded of
             Inl rv \<Rightarrow> Some (rv, cacerts, cacerts_len)
           | Inr p7 \<Rightarrow>
               (case PKCS7_to_stack p7 of
                  Inl rv \<Rightarrow> Some (rv, cacerts, cacerts_len)
                | Inr stack \<Rightarrow>
                    (case verify_stack ossl (filter (self_issued ossl) stack) stack stack False of
                       None \<Rightarrow> Some (EST_ERR_MALLOC, cacerts, cacerts_len)
                     | Some failed \<Rightarrow>
                         do { (est_rc, buf, n) \<leftarrow> est_client_remove_crls ossl cacerts cacerts_len p7;
                              Some (if failed then EST_ERR_CACERT_VERIFICATION else est_rc, buf, n) }))) }"

section \<open>Vouchers\<close>

definition EST_BRSKI_MAX_SER_NUM_LEN :: nat where "EST_BRSKI_MAX_SER_NUM_LEN = 64"
definition EST_BRSKI_MAX_CACERT_LEN :: nat where "EST_BRSKI_MAX_CACERT_LEN = 8192"
definition EST_BRSKI_VOUCHER_REQ_NONCE_SIZE :: nat where "EST_BRSKI_VOUCHER_REQ_NONCE_SIZE = 32"
definition EST_BRSKI_CLIENT_RETRY_MAX :: int where "EST_BRSKI_CLIENT_RETRY_MAX = 60"

record VOUCHER_CTX =
  est_client_initialized :: bool
  brski_mode :: bool
  client_cert_serial :: "string option option"
  client_cert_ser_num :: mem
  trust_store :: "nat option"
  brski_retrieved_voucher :: string
  brski_retrieved_cacert :: "mem option"
  brski_retrieved_cacert_len :: nat
  retry_delay :: int

definition verify_voucher :: "P7_OSSL \<Rightarrow> VOUCHER_CTX \<Rightarrow> EST_ERROR \<times> VOUCHER_CTX" where
  "verify_voucher ossl ctx =
     (case create_PKCS7 ossl (brski_retrieved_voucher ctx) of
        Inl rv \<Rightarrow> (rv, ctx)
      | Inr p7 \<Rightarrow>
          (case trust_store ctx of
             None \<Rightarrow> (EST_ERR_LOAD_TRUST_CERTS, ctx)
           | Some store \<Rightarrow>
               if PKCS7_verify ossl p7 store = 0 then (EST_ERR_CLIENT_BRSKI_VOUCHER_VERIFY_FAILED, ctx)
               else (EST_ERR_NONE, ctx\<lparr>brski_retrieved_voucher := p7_data p7\<rparr>)))"

definition jsoneq :: "string \<Rightarrow> jsmntok \<Rightarrow> string \<Rightarrow> bool" where
  "jsoneq json tok s \<longleftrightarrow>
     tok_type tok = JSMN_STRING \<and> int (length (cstr s)) = tok_end tok - tok_start tok
     \<and> strncmp (drop (nat (tok_start tok)) json) s (nat (tok_end tok - tok_start tok)) = 0"

text \<open>\<^verbatim>\<open>snprintf(buf, max, "%.*s", prec, text)\<close>.\<close>

definition snprintf_prec :: "mem \<Rightarrow> nat \<Rightarrow> nat \<Rightarrow> string \<Rightarrow> mem option" where
  "snprintf_prec buf max_size prec text = wr_block buf 0 (take (max_size - 1) (take prec (cstr text)) @ [NUL])"

text \<open>
  The body of the loop for the token that matches, and the loop from token \<open>i\<close> with \<open>n\<close> tokens left:
  whether the token was found, and the buffer.
\<close>

definition store_value :: "string \<Rightarrow> mem \<Rightarrow> nat \<Rightarrow> jsmntok list \<Rightarrow> nat \<Rightarrow> (bool \<times> mem) option" where
  "store_value voucher token_value max_size tok i =
     (if i + 1 \<ge> length tok then None
      else (let t = tok ! (i + 1) in
        if tok_type t = JSMN_UNDEFINED then map_option (Pair True) (wr token_value 0 NUL)
        else map_option (Pair True) (snprintf_prec token_value max_size
               (nat (tok_end t - tok_start t)) (drop (nat (tok_start t)) voucher))))"

fun retrieve_token_loop ::
  "string \<Rightarrow> mem \<Rightarrow> nat \<Rightarrow> jsmntok list \<Rightarrow> string \<Rightarrow> nat \<Rightarrow> nat \<Rightarrow> (bool \<times> mem) option" where
  "retrieve_token_loop voucher token_value max_size tok token i 0 = Some (False, token_value)"
| "retrieve_token_loop voucher token_value max_size tok token i (Suc n) =
     (if i \<ge> length tok then None
      else if jsoneq voucher (tok ! i) token then store_value voucher token_value max_size tok i
      else retrieve_token_loop voucher token_value max_size tok token (i + 1) n)"

definition retrieve_token_from_voucher ::
  "string \<Rightarrow> mem \<Rightarrow> nat \<Rightarrow> int \<Rightarrow> jsmntok list \<Rightarrow> string \<Rightarrow> (bool \<times> mem) option" where
  "retrieve_token_from_voucher voucher token_value max_size parser_resp tok token =
     retrieve_token_loop voucher token_value max_size tok token 1 (nat (parser_resp - 1))"

text \<open>The check of the nonce and of the serial number: \<open>EST_ERR_NONE\<close> to go on.\<close>

definition check_nonce :: "string \<Rightarrow> mem \<Rightarrow> string \<Rightarrow> int \<Rightarrow> jsmntok list \<Rightarrow> EST_ERROR option" where
  "check_nonce sent_nonce stack_buf voucher parser_resp tok =
     do { (nonce_found, returned_nonce) \<leftarrow> retrieve_token_from_voucher voucher stack_buf
            (EST_BRSKI_VOUCHER_REQ_NONCE_SIZE + 2) parser_resp tok ''nonce'';
          if \<not> nonce_found then Some EST_ERR_NONE
          else if strnlen_s (Some returned_nonce) (EST_BRSKI_VOUCHER_REQ_NONCE_SIZE + 1) > EST_BRSKI_VOUCHER_REQ_NONCE_SIZE
            then Some EST_ERR_CLIENT_BRSKI_NONCE_TOO_LARGE
          else do {
            (rc, same) \<leftarrow> memcmp_s (Some sent_nonce) EST_BRSKI_VOUCHER_REQ_NONCE_SIZE
               (Some returned_nonce) EST_BRSKI_VOUCHER_REQ_NONCE_SIZE;
            Some (if rc \<noteq> EOK then EST_ERR_SYSCALL
                  else if same \<noteq> Some True then EST_ERR_CLIENT_BRSKI_NONCE_MISMATCH else EST_ERR_NONE) } }"

definition check_ser_num :: "mem \<Rightarrow> mem \<Rightarrow> string \<Rightarrow> int \<Rightarrow> jsmntok list \<Rightarrow> EST_ERROR option" where
  "check_ser_num own_ser_num stack_buf voucher parser_resp tok =
     do { (ser_num_found, returned_ser_num) \<leftarrow> retrieve_token_from_voucher voucher stack_buf
            (EST_BRSKI_MAX_SER_NUM_LEN + 2) parser_resp tok ''serial-number'';
          if \<not> ser_num_found then Some EST_ERR_CLIENT_BRSKI_SERIAL_NUM_MISSING
          else (let n = strnlen_s (Some returned_ser_num) (EST_BRSKI_MAX_SER_NUM_LEN + 1) in
            if n > EST_BRSKI_MAX_SER_NUM_LEN then Some EST_ERR_CLIENT_BRSKI_SERIAL_NUM_TOO_LARGE
            else do {
              (rc, same) \<leftarrow> memcmp_s (Some own_ser_num) (n + 1) (Some returned_ser_num) (n + 1);
              Some (if rc \<noteq> EOK then EST_ERR_SYSCALL
                    else if same \<noteq> Some True then EST_ERR_CLIENT_BRSKI_SERIAL_NUM_MISMATCH else EST_ERR_NONE) }) }"

text \<open>
  The rest: the certificate is copied into the context and verified. \<open>returned_cacert\<close> is the
  caller's array.
\<close>

definition take_cacert ::
  "P7_OSSL \<Rightarrow> VOUCHER_CTX \<Rightarrow> mem \<Rightarrow> int \<Rightarrow> jsmntok list \<Rightarrow> (EST_ERROR \<times> VOUCHER_CTX) option" where
  "take_cacert ossl ctx returned_cacert parser_resp tok =
     do { (cacert_found, cacert) \<leftarrow> retrieve_token_from_voucher (brski_retrieved_voucher ctx) returned_cacert
            (EST_BRSKI_MAX_CACERT_LEN + 1) parser_resp tok ''pinned-domain-cert'';
          if \<not> cacert_found then Some (EST_ERR_NO_CERT, ctx)
          else (let n = strnlen_s (Some cacert) EST_BRSKI_MAX_CACERT_LEN in
            do { (copy, safec_rc) \<leftarrow> memcpy_s (Some (replicate (n + 1) NUL)) (n + 1) (Some cacert) n;
                 (case copy of
                    None \<Rightarrow> None
                  | Some m \<Rightarrow>
                      if safec_rc \<noteq> EOK
                      then Some (EST_ERR_SYSCALL, ctx\<lparr>brski_retrieved_cacert := None, brski_retrieved_cacert_len := 0\<rparr>)
                      else do {
                        (rv, m', n') \<leftarrow> verify_cacert_resp ossl m n;
                        Some (if rv \<noteq> EST_ERR_NONE
                              then (rv, ctx\<lparr>brski_retrieved_cacert := None, brski_retrieved_cacert_len := 0\<rparr>)
                              else (EST_ERR_NONE, ctx\<lparr>brski_retrieved_cacert := Some m', brski_retrieved_cacert_len := n'\<rparr>)) }) }) }"

text \<open>
  The result, the context and the out parameter \<^verbatim>\<open>*cacert_len\<close>. \<open>nb\<close> and \<open>sb\<close> are the contents of the
  arrays \<^verbatim>\<open>returned_nonce\<close> and \<^verbatim>\<open>returned_ser_num\<close> on entry.
\<close>

definition brski_parse_voucher ::
  "P7_OSSL \<Rightarrow> mem \<Rightarrow> mem \<Rightarrow> VOUCHER_CTX \<Rightarrow> string \<Rightarrow> mem \<Rightarrow> (EST_ERROR \<times> VOUCHER_CTX \<times> int) option" where
  "brski_parse_voucher ossl nb sb ctx sent_nonce returned_cacert =
     (let (rv, ctx1) = verify_voucher ossl ctx; voucher = brski_retrieved_voucher ctx1 in
      if rv \<noteq> EST_ERR_NONE then Some (rv, ctx1, 0)
      else do {
        (parser_resp, _, tok) \<leftarrow> jsmn_parse voucher (length voucher) jsmn_init (replicate 100 blank_tok);
        if parser_resp < 0 then Some (EST_ERR_MALLOC, ctx1, 0)
        else do {
          rv1 \<leftarrow> check_nonce sent_nonce nb voucher parser_resp tok;
          if rv1 \<noteq> EST_ERR_NONE then Some (rv1, ctx1, 0)
          else do {
            rv2 \<leftarrow> check_ser_num (client_cert_ser_num ctx1) sb voucher parser_resp tok;
            if rv2 \<noteq> EST_ERR_NONE then Some (rv2, ctx1, 0)
            else do { (rv3, ctx2) \<leftarrow> take_cacert ossl ctx1 returned_cacert parser_resp tok;
                      Some (rv3, ctx2, 0) } } } })"

section \<open>The value of a member\<close>

text \<open>
  What \<^verbatim>\<open>retrieve_token_from_voucher\<close> looks up: the text behind the first string token, after the first
  token, that equals the name.
\<close>

definition tok_text :: "string \<Rightarrow> jsmntok \<Rightarrow> string" where
  "tok_text voucher t = take (nat (tok_end t - tok_start t)) (cstr (drop (nat (tok_start t)) voucher))"

definition json_value :: "string \<Rightarrow> jsmntok list \<Rightarrow> int \<Rightarrow> string \<Rightarrow> string option" where
  "json_value voucher tok r name =
     (case find (\<lambda>i. jsoneq voucher (tok ! i) name) [1..<nat r] of
        None \<Rightarrow> None
      | Some i \<Rightarrow> Some (if tok_type (tok ! (i + 1)) = JSMN_UNDEFINED then [] else tok_text voucher (tok ! (i + 1))))"

lemma find_upt_Cons: "i < j \<Longrightarrow> find P [i..<j] = (if P i then Some i else find P [Suc i..<j])"
  by (simp add: upt_conv_Cons)

lemma retrieve_token_loop_eq:
  assumes "i + n \<le> length tok \<or> n = 0"
  shows "retrieve_token_loop voucher buf max_size tok token i n =
    (case find (\<lambda>i. jsoneq voucher (tok ! i) token) [i..<i + n] of
       None \<Rightarrow> Some (False, buf) | Some i \<Rightarrow> store_value voucher buf max_size tok i)"
  using assms
proof (induction n arbitrary: i)
  case (Suc n)
  then show ?case
    using Suc.IH [of "Suc i"] by (simp add: find_upt_Cons del: upt_Suc)
qed simp

lemma retrieve_token_eq:
  assumes "r \<le> int (length tok)"
  shows "retrieve_token_from_voucher voucher buf max_size r tok token =
    (case find (\<lambda>i. jsoneq voucher (tok ! i) token) [1..<nat r] of
       None \<Rightarrow> Some (False, buf) | Some i \<Rightarrow> store_value voucher buf max_size tok i)"
proof -
  have "1 + nat (r - 1) \<le> length tok \<or> nat (r - 1) = 0" using assms by linarith
  moreover have "[1..<1 + nat (r - 1)] = [1..<nat r]" by (cases "1 \<le> r") (auto simp: nat_diff_distrib' simp del: upt_Suc)
  ultimately show ?thesis
    unfolding retrieve_token_from_voucher_def by (simp add: retrieve_token_loop_eq del: upt_Suc)
qed

lemma tok_text_no_nul: "NUL \<notin> set (tok_text voucher t)"
  unfolding tok_text_def using cstr_no_nul set_take_subset by (metis subsetD)

lemma json_value_no_nul: "json_value voucher tok r name = Some v \<Longrightarrow> NUL \<notin> set v"
  by (auto simp: json_value_def tok_text_no_nul split: option.splits if_splits)

text \<open>
  The buffer after a lookup holds the value, cut to its size, with its terminator; the rest is as it was.
\<close>

lemma retrieve_tokenE:
  assumes "retrieve_token_from_voucher voucher buf max_size r tok name = Some (found, buf')"
    and "r \<le> int (length tok)" and "1 < max_size"
  obtains (missing) "\<not> found" "json_value voucher tok r name = None" "buf' = buf"
  | (found) v where "found" "json_value voucher tok r name = Some v" "length buf' = length buf"
      "min (length v) (max_size - 1) < length buf"
      "take (Suc (min (length v) (max_size - 1))) buf' = take (max_size - 1) v @ [NUL]"
proof (cases "find (\<lambda>i. jsoneq voucher (tok ! i) name) [1..<nat r]")
  case None
  then show thesis
    using assms(1) missing by (auto simp: retrieve_token_eq [OF assms(2)] json_value_def)
next
  case (Some i)
  let ?t = "tok ! (i + 1)"
  have st: "store_value voucher buf max_size tok i = Some (found, buf')"
    using assms(1) Some by (simp add: retrieve_token_eq [OF assms(2)])
  show thesis
  proof (cases "tok_type ?t = JSMN_UNDEFINED")
    case True
    then have "found" "buf' = buf[0 := NUL]" "0 < length buf"
      using st by (auto simp: store_value_def dest: wr_SomeD split: if_splits)
    then show thesis using found [of "[]"] Some True by (cases buf) (auto simp: json_value_def)
  next
    case False
    then have f: "found" and "snprintf_prec buf max_size (nat (tok_end ?t - tok_start ?t)) (drop (nat (tok_start ?t)) voucher) = Some buf'"
      using st by (auto simp: store_value_def Let_def split: if_splits)
    moreover define w where "w = take (max_size - 1) (tok_text voucher ?t)"
    ultimately have "length w < length buf" "buf' = w @ [NUL] @ drop (Suc (length w)) buf"
      unfolding snprintf_prec_def tok_text_def [symmetric] by (auto dest: wr_block_SomeD)
    moreover from this have "length buf' = length buf" "take (Suc (length w)) buf' = w @ [NUL]" by auto
    moreover have "length w = min (length (tok_text voucher ?t)) (max_size - 1)" by (simp add: w_def)
    ultimately show thesis
      using found [of "tok_text voucher ?t"] f Some False w_def by (simp add: json_value_def)
  qed
qed

section \<open>What an accepted voucher shows\<close>

lemma cstr_take_prefix:
  assumes "take (Suc n) buf = v @ [NUL]" and "length v = n" and "NUL \<notin> set v"
  shows "cstr buf = v"
proof -
  have "buf = take (Suc n) buf @ drop (Suc n) buf" by simp
  then have "buf = v @ NUL # drop (Suc n) buf" using assms(1) by simp
  then show ?thesis using assms(3) by (metis cstr_append_nul)
qed

lemma check_nonce_NONE:
  assumes "check_nonce sent_nonce nb voucher r tok = Some EST_ERR_NONE" and "r \<le> int (length tok)"
    and "length sent_nonce = EST_BRSKI_VOUCHER_REQ_NONCE_SIZE" and "NUL \<notin> set sent_nonce"
  shows "json_value voucher tok r ''nonce'' \<in> {None, Some sent_nonce}"
proof -
  let ?N = EST_BRSKI_VOUCHER_REQ_NONCE_SIZE
  obtain found buf' where get: "retrieve_token_from_voucher voucher nb (?N + 2) r tok ''nonce'' = Some (found, buf')"
    using assms(1) by (auto simp: check_nonce_def bind_eq_Some_conv)
  from get assms(2) have "1 < ?N + 2" by (simp add: EST_BRSKI_VOUCHER_REQ_NONCE_SIZE_def)
  from get assms(2) this show ?thesis
  proof (cases rule: retrieve_tokenE)
    case (found v)
    note v = found
    have nn: "NUL \<notin> set v" using v(2) json_value_no_nul by blast
    have cut: "cstr buf' = take (?N + 1) v"
      using v(5) nn by (intro cstr_take_prefix [of "min (length v) (?N + 1)"]) (auto dest: in_set_takeD)
    have small: "strnlen_s (Some buf') (?N + 1) \<le> ?N"
      and cmp: "memcmp_s (Some sent_nonce) ?N (Some buf') ?N = Some (EOK, Some True)"
      using assms(1) get v(1) by (auto simp: check_nonce_def bind_eq_Some_conv split: if_splits)
    have lv: "length v \<le> ?N" using small cut by (auto simp: strnlen_s_def strnlen_def min_def split: if_splits)
    have same: "take ?N buf' = sent_nonce"
      using cmp assms(3) by (auto simp: memcmp_s_def rd_block_def bind_eq_Some_conv split: if_splits)
    have pre: "take (Suc (length v)) buf' = v @ [NUL]" using v(5) lv by simp
    have "length v = ?N"
    proof (rule ccontr)
      assume "length v \<noteq> ?N"
      with lv have "Suc (length v) \<le> ?N" by simp
      then have "take (Suc (length v)) sent_nonce = v @ [NUL]" using same pre by (metis min_absorb1 take_take)
      then show False using assms(4) by (metis in_set_conv_decomp in_set_takeD)
    qed
    then have "take ?N (take (Suc ?N) buf') = v" using pre by simp
    then have "take ?N buf' = v" by (simp add: min_def)
    with same v(2) show ?thesis by simp
  qed simp
qed

lemma check_ser_num_NONE:
  assumes "check_ser_num own sb voucher r tok = Some EST_ERR_NONE" and "r \<le> int (length tok)"
  shows "json_value voucher tok r ''serial-number'' = Some (cstr own)"
proof -
  let ?N = EST_BRSKI_MAX_SER_NUM_LEN
  obtain found buf' where get: "retrieve_token_from_voucher voucher sb (?N + 2) r tok ''serial-number'' = Some (found, buf')"
    using assms(1) by (auto simp: check_ser_num_def bind_eq_Some_conv)
  have "1 < ?N + 2" by (simp add: EST_BRSKI_MAX_SER_NUM_LEN_def)
  from get assms(2) this show ?thesis
  proof (cases rule: retrieve_tokenE)
    case missing
    with get assms(1) show ?thesis by (auto simp: check_ser_num_def)
  next
    case (found v)
    note v = found
    have nn: "NUL \<notin> set v" using v(2) json_value_no_nul by blast
    have cut: "cstr buf' = take (?N + 1) v"
      using v(5) nn by (intro cstr_take_prefix [of "min (length v) (?N + 1)"]) (auto dest: in_set_takeD)
    define n where "n = strnlen_s (Some buf') (?N + 1)"
    have small: "n \<le> ?N" and cmp: "memcmp_s (Some own) (n + 1) (Some buf') (n + 1) = Some (EOK, Some True)"
      using assms(1) get v(1) by (auto simp: check_ser_num_def n_def Let_def bind_eq_Some_conv split: if_splits)
    have lv: "length v = n" "length v \<le> ?N"
      using small cut unfolding n_def by (auto simp: strnlen_s_def strnlen_def min_def split: if_splits)
    have "take (n + 1) own = take (n + 1) buf'"
      using cmp by (auto simp: memcmp_s_def rd_block_def bind_eq_Some_conv split: if_splits)
    also have "\<dots> = v @ [NUL]" using v(5) lv by simp
    finally have "cstr own = v" using lv nn by (intro cstr_take_prefix [of n]) auto
    with v(2) show ?thesis by simp
  qed
qed

lemma take_cacert_NONE:
  assumes "take_cacert ossl ctx rc r tok = Some (EST_ERR_NONE, ctx')" and "r \<le> int (length tok)"
  obtains v c m n where "json_value (brski_retrieved_voucher ctx) tok r ''pinned-domain-cert'' = Some v"
    "c = take EST_BRSKI_MAX_CACERT_LEN v"
    "verify_cacert_resp ossl (c @ [NUL]) (length c) = Some (EST_ERR_NONE, m, n)"
    "ctx' = ctx\<lparr>brski_retrieved_cacert := Some m, brski_retrieved_cacert_len := n\<rparr>" "length c < length rc"
proof -
  let ?N = EST_BRSKI_MAX_CACERT_LEN and ?V = "brski_retrieved_voucher ctx"
  obtain found buf' where get: "retrieve_token_from_voucher ?V rc (?N + 1) r tok ''pinned-domain-cert'' = Some (found, buf')"
    using assms(1) by (auto simp: take_cacert_def bind_eq_Some_conv)
  have "1 < ?N + 1" by (simp add: EST_BRSKI_MAX_CACERT_LEN_def)
  from get assms(2) this show thesis
  proof (cases rule: retrieve_tokenE)
    case missing
    with get assms(1) show ?thesis by (auto simp: take_cacert_def)
  next
    case (found v)
    note v = found
    have nn: "NUL \<notin> set v" using v(2) json_value_no_nul by blast
    define c where "c = take ?N v"
    have cut: "cstr buf' = c"
      unfolding c_def using v(5) nn by (intro cstr_take_prefix [of "min (length v) ?N"]) (auto dest: in_set_takeD)
    have len: "strnlen_s (Some buf') ?N = length c"
      by (simp add: strnlen_s_def strnlen_def cut) (simp add: c_def)
    have tk: "take (Suc (length c)) buf' = c @ [NUL]" using v(5) by (simp add: c_def)
    have lb: "length c < length buf'" using v(3,4) by (simp add: c_def)
    have "take (length c) buf' = take (length c) (take (Suc (length c)) buf')" by (simp add: min_def)
    then have cp: "take (length c) buf' = c" unfolding tk by simp
    have cpy: "memcpy_s (Some (replicate (length c + 1) NUL)) (length c + 1) (Some buf') (length c) = Some (Some (c @ [NUL]), EOK)"
      using lb cp by (simp add: memcpy_s_def rd_block_def wr_block_def del: replicate.simps) (simp add: replicate_append_same [symmetric])
    from assms(1) get v(1) obtain m n where "verify_cacert_resp ossl (c @ [NUL]) (length c) = Some (EST_ERR_NONE, m, n)"
      "ctx' = ctx\<lparr>brski_retrieved_cacert := Some m, brski_retrieved_cacert_len := n\<rparr>"
      by (auto simp: take_cacert_def len cpy [simplified] bind_eq_Some_conv Let_def split: if_splits)
    then show thesis using that v(2) c_def lb v(3) by simp
  qed
qed

section \<open>Vouchers that are flat objects\<close>

lemma jsoneq_str_tok:
  assumes "js = a @ QT # s @ b" and "length a = off" and "NUL \<notin> set s" and "NUL \<notin> set name"
  shows "jsoneq js (str_tok off s n) name \<longleftrightarrow> s = name"
proof -
  have d: "drop (nat (int off + 1)) js = s @ b" using assms(1,2) by (simp add: nat_add_distrib)
  have "take (length s) (cstr (s @ b)) = s" using assms(3) by (simp add: cstr_append)
  then have "jsoneq js (str_tok off s n) name \<longleftrightarrow> length name = length s \<and> s = take (length s) name"
    using d assms(4) by (simp add: jsoneq_def str_tok_def strncmp_eq_0 cstr_id)
  also have "\<dots> \<longleftrightarrow> s = name" by (metis order_refl take_all)
  finally show ?thesis .
qed

lemma tok_text_str_tok:
  assumes "js = a @ QT # s @ b" and "length a = off" and "NUL \<notin> set s"
  shows "tok_text js (str_tok off s n) = s"
proof -
  have d: "drop (nat (int off + 1)) js = s @ b" using assms(1,2) by (simp add: nat_add_distrib)
  show ?thesis using assms(3) by (simp add: tok_text_def str_tok_def d cstr_append)
qed

lemma find_key:
  assumes "T = A @ kv_toks (length pre) kvs @ cs" and "js = pre @ render_kvs kvs @ post"
    and "\<forall>(k, v) \<in> set kvs. plain k \<and> plain v" and "name \<notin> snd ` set kvs" and "NUL \<notin> set name"
  shows "case map_of kvs name of
      None \<Rightarrow> find (\<lambda>i. jsoneq js (T ! i) name) [length A..<length A + 2 * length kvs] = None
    | Some v \<Rightarrow> (\<exists>i. find (\<lambda>i. jsoneq js (T ! i) name) [length A..<length A + 2 * length kvs] = Some i
        \<and> i + 1 < length A + 2 * length kvs \<and> tok_type (T ! (i + 1)) = JSMN_STRING \<and> tok_text js (T ! (i + 1)) = v)"
  using assms
proof (induction kvs arbitrary: A pre)
  case (Cons kv kvs)
  obtain k v where kv: "kv = (k, v)" by (cases kv)
  obtain sep where sep: "render_kvs (kv # kvs) = render_kv kv @ sep @ render_kvs kvs" "kvs \<noteq> [] \<Longrightarrow> length sep = 1"
    by (cases kvs) auto
  let ?A = "A @ [str_tok (length pre) k 1, str_tok (length pre + length k + 3) v 0]"
    and ?pre = "pre @ render_kv kv @ sep" and ?f = "\<lambda>i. jsoneq js (T ! i) name"
  have T: "T = ?A @ kv_toks (length pre + length k + length v + 6) kvs @ cs" using Cons.prems(1) kv by simp
  have nul: "NUL \<notin> set k" "NUL \<notin> set v" using Cons.prems(3) kv by (auto simp: plain_def)
  have js1: "js = pre @ QT # k @ (QT # CHR '':'' # QT # v @ QT # sep @ render_kvs kvs @ post)"
    and js2: "js = (pre @ QT # k @ [QT, CHR '':'']) @ QT # v @ (QT # sep @ render_kvs kvs @ post)"
    using Cons.prems(2) kv sep(1) by (simp_all add: render_kv_def)
  have nth: "T ! length A = str_tok (length pre) k 1" "T ! Suc (length A) = str_tok (length pre + length k + 3) v 0"
    using T by (simp_all add: nth_append)
  have m1: "?f (length A) \<longleftrightarrow> k = name"
    unfolding nth using js1 nul(1) Cons.prems(5) by (intro jsoneq_str_tok) auto
  have m2: "\<not> ?f (Suc (length A))"
    unfolding nth using js2 nul(2) Cons.prems(4,5) kv
    by (subst jsoneq_str_tok [of js "pre @ QT # k @ [QT, CHR '':'']" v]) auto
  have val: "tok_text js (T ! Suc (length A)) = v"
    unfolding nth using js2 nul(2) by (intro tok_text_str_tok [of js "pre @ QT # k @ [QT, CHR '':'']" v]) auto
  define e where "e = length A + 2 * length (kv # kvs)"
  have e: "length ?A + 2 * length kvs = e" by (simp add: e_def)
  have fnd: "find ?f [length A..<e] = (if k = name then Some (length A) else find ?f [length ?A..<e])"
    using m1 m2 by (simp add: find_upt_Cons e_def del: upt_Suc)
  have ih: "case map_of kvs name of None \<Rightarrow> find ?f [length ?A..<e] = None
    | Some v \<Rightarrow> (\<exists>i. find ?f [length ?A..<e] = Some i
        \<and> i + 1 < e \<and> tok_type (T ! (i + 1)) = JSMN_STRING \<and> tok_text js (T ! (i + 1)) = v)"
  proof (cases "kvs = []")
    case True
    then show ?thesis by (simp add: e_def)
  next
    case False
    then have "length ?pre = length pre + length k + length v + 6" using sep(2) kv by (simp add: render_kv_def)
    with T have T': "T = ?A @ kv_toks (length ?pre) kvs @ cs" by metis
    have js': "js = ?pre @ render_kvs kvs @ post" using Cons.prems(2) sep(1) by simp
    have pl: "\<forall>(k, v) \<in> set kvs. plain k \<and> plain v" "name \<notin> snd ` set kvs" using Cons.prems(3,4) by auto
    from Cons.IH [OF T' js' pl Cons.prems(5)] show ?thesis unfolding e .
  qed
  show ?case
    unfolding e_def [symmetric]
  proof (cases "k = name")
    case True
    then show "case map_of (kv # kvs) name of None \<Rightarrow> find ?f [length A..<e] = None
      | Some v \<Rightarrow> (\<exists>i. find ?f [length A..<e] = Some i
          \<and> i + 1 < e \<and> tok_type (T ! (i + 1)) = JSMN_STRING \<and> tok_text js (T ! (i + 1)) = v)"
      unfolding fnd using val nth kv by (auto simp: str_tok_def e_def)
  next
    case False
    then have "map_of (kv # kvs) name = map_of kvs name" using kv by simp
    with False ih show "case map_of (kv # kvs) name of None \<Rightarrow> find ?f [length A..<e] = None
      | Some v \<Rightarrow> (\<exists>i. find ?f [length A..<e] = Some i
          \<and> i + 1 < e \<and> tok_type (T ! (i + 1)) = JSMN_STRING \<and> tok_text js (T ! (i + 1)) = v)"
      unfolding fnd by (simp only: if_False)
  qed
qed simp

lemma find_key_at:
  assumes "T = A @ kv_toks off kvs @ cs" and "js = pre @ render_kvs kvs @ post"
    and "\<forall>(k, v) \<in> set kvs. plain k \<and> plain v" and "name \<notin> snd ` set kvs" and "NUL \<notin> set name"
    and "off = length pre" and "a = length A" and "e = a + 2 * length kvs"
  shows "case map_of kvs name of
      None \<Rightarrow> find (\<lambda>i. jsoneq js (T ! i) name) [a..<e] = None
    | Some v \<Rightarrow> (\<exists>i. find (\<lambda>i. jsoneq js (T ! i) name) [a..<e] = Some i
        \<and> i + 1 < e \<and> tok_type (T ! (i + 1)) = JSMN_STRING \<and> tok_text js (T ! (i + 1)) = v)"
  unfolding assms(7,8) by (rule find_key) (use assms in auto)

text \<open>The tokens of a voucher that is a flat object, and the members a client can read from it.\<close>

definition flat_toks :: "(string \<times> string) list \<Rightarrow> jsmntok list" where
  "flat_toks kvs = object_tok (length (CHR ''{'' # render_kvs kvs @ ''}'')) (length kvs) # kv_toks 1 kvs
     @ drop (2 * length kvs + 1) (replicate 100 blank_tok)"

definition flat_voucher :: "(string \<times> string) list \<Rightarrow> bool" where
  "flat_voucher kvs \<longleftrightarrow> kvs \<noteq> [] \<and> length kvs < 50 \<and> (\<forall>(k, v) \<in> set kvs. plain k \<and> plain v)
     \<and> (\<forall>v \<in> snd ` set kvs. v \<notin> {''nonce'', ''serial-number'', ''pinned-domain-cert''})"

lemma flat_find:
  assumes "flat_voucher kvs" and "js = CHR ''{'' # render_kvs kvs @ ''}''"
    and "name \<in> {''nonce'', ''serial-number'', ''pinned-domain-cert''}"
  shows "case map_of kvs name of
      None \<Rightarrow> find (\<lambda>i. jsoneq js (flat_toks kvs ! i) name) [1..<1 + 2 * length kvs] = None
    | Some v \<Rightarrow> (\<exists>i. find (\<lambda>i. jsoneq js (flat_toks kvs ! i) name) [1..<1 + 2 * length kvs] = Some i
        \<and> i + 1 < 1 + 2 * length kvs \<and> tok_type (flat_toks kvs ! (i + 1)) = JSMN_STRING
        \<and> tok_text js (flat_toks kvs ! (i + 1)) = v)"
proof -
  have "name \<notin> snd ` set kvs" "NUL \<notin> set name" using assms(1,3) by (auto simp: flat_voucher_def)
  moreover have "\<forall>(k, v) \<in> set kvs. plain k \<and> plain v" using assms(1) by (simp add: flat_voucher_def)
  ultimately show ?thesis
    using assms(2) by (intro find_key_at [of _ "[object_tok (length js) (length kvs)]" 1 _
        "drop (2 * length kvs + 1) (replicate 100 blank_tok)" _ "''{''" "''}''"]) (simp_all add: flat_toks_def)
qed

lemma length_flat_toks: "flat_voucher kvs \<Longrightarrow> length (flat_toks kvs) = 100"
  by (simp add: flat_toks_def flat_voucher_def)

lemma flat_json_value:
  assumes "flat_voucher kvs" and "js = CHR ''{'' # render_kvs kvs @ ''}''"
    and "name \<in> {''nonce'', ''serial-number'', ''pinned-domain-cert''}"
  shows "json_value js (flat_toks kvs) (2 * int (length kvs) + 1) name = map_of kvs name"
proof -
  have eq: "nat (2 * int (length kvs) + 1) = 1 + 2 * length kvs" by simp
  show ?thesis
  proof (cases "map_of kvs name")
    case None
    with flat_find [OF assms] show ?thesis unfolding json_value_def eq by (simp only: option.case)
  next
    case (Some v)
    with flat_find [OF assms] obtain i where
      "find (\<lambda>i. jsoneq js (flat_toks kvs ! i) name) [1..<1 + 2 * length kvs] = Some i"
      "tok_type (flat_toks kvs ! (i + 1)) = JSMN_STRING" "tok_text js (flat_toks kvs ! (i + 1)) = v"
      by (auto simp only: option.case)
    with Some show ?thesis unfolding json_value_def eq by (simp only: option.case jsmntype.distinct if_False simp_thms)
  qed
qed

lemma flat_retrieve:
  assumes "flat_voucher kvs" and "js = CHR ''{'' # render_kvs kvs @ ''}''"
    and "name \<in> {''nonce'', ''serial-number'', ''pinned-domain-cert''}"
    and "map_of kvs name = Some v" and "length v < max_size" and "length v < length buf"
  shows "\<exists>rest. retrieve_token_from_voucher js buf max_size (2 * int (length kvs) + 1) (flat_toks kvs) name
    = Some (True, v @ NUL # rest) \<and> length rest = length buf - Suc (length v)"
proof -
  have len: "length (flat_toks kvs) = 100" "length kvs < 50" using assms(1) by (simp_all add: length_flat_toks flat_voucher_def)
  have eq: "nat (2 * int (length kvs) + 1) = 1 + 2 * length kvs" by simp
  from flat_find [OF assms(1-3)] assms(4) obtain i where
    i: "find (\<lambda>i. jsoneq js (flat_toks kvs ! i) name) [1..<1 + 2 * length kvs] = Some i" "i + 1 < 1 + 2 * length kvs"
      "tok_type (flat_toks kvs ! (i + 1)) = JSMN_STRING" "tok_text js (flat_toks kvs ! (i + 1)) = v"
    by (auto simp only: option.case)
  have "retrieve_token_from_voucher js buf max_size (2 * int (length kvs) + 1) (flat_toks kvs) name
      = store_value js buf max_size (flat_toks kvs) i"
    using len by (subst retrieve_token_eq) (simp, simp only: eq i(1) option.case)
  moreover have "store_value js buf max_size (flat_toks kvs) i = Some (True, v @ NUL # drop (Suc (length v)) buf)"
    using i(2-4) len assms(5,6) by (simp add: store_value_def Let_def snprintf_prec_def tok_text_def [symmetric] wr_block_def)
  ultimately show ?thesis by simp
qed

lemma flat_retrieve_missing:
  assumes "flat_voucher kvs" and "js = CHR ''{'' # render_kvs kvs @ ''}''"
    and "name \<in> {''nonce'', ''serial-number'', ''pinned-domain-cert''}" and "map_of kvs name = None"
  shows "retrieve_token_from_voucher js buf max_size (2 * int (length kvs) + 1) (flat_toks kvs) name = Some (False, buf)"
proof -
  have len: "length (flat_toks kvs) = 100" "length kvs < 50" using assms(1) by (simp_all add: length_flat_toks flat_voucher_def)
  have eq: "nat (2 * int (length kvs) + 1) = 1 + 2 * length kvs" by simp
  have "find (\<lambda>i. jsoneq js (flat_toks kvs ! i) name) [1..<1 + 2 * length kvs] = None"
    using flat_find [OF assms(1-3)] assms(4) by (simp only: option.case)
  then show ?thesis
    using len by (subst retrieve_token_eq) (simp, simp only: eq option.case)
qed

lemma flat_parse:
  assumes "flat_voucher kvs" and "js = CHR ''{'' # render_kvs kvs @ ''}''"
  shows "\<exists>p. jsmn_parse js (length js) jsmn_init (replicate 100 blank_tok) = Some (2 * int (length kvs) + 1, p, flat_toks kvs)"
  using jsmn_flat_run [of kvs "replicate 100 blank_tok" js] assms by (simp add: flat_voucher_def flat_toks_def)

lemma flat_check_nonce:
  assumes "flat_voucher kvs" and "js = CHR ''{'' # render_kvs kvs @ ''}''"
    and "map_of kvs ''nonce'' \<in> {None, Some sent_nonce}"
    and "length sent_nonce = EST_BRSKI_VOUCHER_REQ_NONCE_SIZE" and "NUL \<notin> set sent_nonce"
    and "length nb = EST_BRSKI_VOUCHER_REQ_NONCE_SIZE + 2"
  shows "check_nonce sent_nonce nb js (2 * int (length kvs) + 1) (flat_toks kvs) = Some EST_ERR_NONE"
proof (cases "map_of kvs ''nonce''")
  case None
  then show ?thesis using flat_retrieve_missing [OF assms(1,2)] by (simp add: check_nonce_def)
next
  case (Some v)
  then have v: "v = sent_nonce" using assms(3) by simp
  obtain rest where get: "retrieve_token_from_voucher js nb (EST_BRSKI_VOUCHER_REQ_NONCE_SIZE + 2) (2 * int (length kvs) + 1)
      (flat_toks kvs) ''nonce'' = Some (True, sent_nonce @ NUL # rest)"
    using flat_retrieve [OF assms(1,2) _ Some, of "EST_BRSKI_VOUCHER_REQ_NONCE_SIZE + 2" nb] v assms(4,6) by auto
  have "EST_BRSKI_VOUCHER_REQ_NONCE_SIZE \<noteq> 0" by (simp add: EST_BRSKI_VOUCHER_REQ_NONCE_SIZE_def)
  then show ?thesis
    using get assms(4,5) by (simp add: check_nonce_def strnlen_s_def strnlen_def memcmp_s_def rd_block_def)
qed

lemma flat_check_ser_num:
  assumes "flat_voucher kvs" and "js = CHR ''{'' # render_kvs kvs @ ''}''"
    and "map_of kvs ''serial-number'' = Some ser" and "length ser \<le> EST_BRSKI_MAX_SER_NUM_LEN"
    and "own = ser @ [NUL]" and "length sb = EST_BRSKI_MAX_SER_NUM_LEN + 2"
  shows "check_ser_num own sb js (2 * int (length kvs) + 1) (flat_toks kvs) = Some EST_ERR_NONE"
proof -
  obtain rest where get: "retrieve_token_from_voucher js sb (EST_BRSKI_MAX_SER_NUM_LEN + 2) (2 * int (length kvs) + 1)
      (flat_toks kvs) ''serial-number'' = Some (True, ser @ NUL # rest)"
    using flat_retrieve [OF assms(1,2) _ assms(3), of "EST_BRSKI_MAX_SER_NUM_LEN + 2" sb] assms(4,6) by auto
  have "(''serial-number'', ser) \<in> set kvs" using assms(3) by (rule map_of_SomeD)
  then have "NUL \<notin> set ser" using assms(1) by (auto simp: flat_voucher_def plain_def)
  then show ?thesis
    using get assms(4,5) by (simp add: check_ser_num_def strnlen_s_def strnlen_def memcmp_s_def rd_block_def Let_def)
qed

lemma flat_take_cacert:
  assumes "flat_voucher kvs" and "brski_retrieved_voucher ctx = CHR ''{'' # render_kvs kvs @ ''}''"
    and "map_of kvs ''pinned-domain-cert'' = Some c" and "length c < length rc" and "length rc \<le> EST_BRSKI_MAX_CACERT_LEN"
    and "verify_cacert_resp ossl (c @ [NUL]) (length c) = Some (EST_ERR_NONE, m, n)"
  shows "take_cacert ossl ctx rc (2 * int (length kvs) + 1) (flat_toks kvs)
    = Some (EST_ERR_NONE, ctx\<lparr>brski_retrieved_cacert := Some m, brski_retrieved_cacert_len := n\<rparr>)"
proof -
  obtain rest where get: "retrieve_token_from_voucher (brski_retrieved_voucher ctx) rc (EST_BRSKI_MAX_CACERT_LEN + 1)
      (2 * int (length kvs) + 1) (flat_toks kvs) ''pinned-domain-cert'' = Some (True, c @ NUL # rest)"
    using flat_retrieve [OF assms(1,2) _ assms(3), of "EST_BRSKI_MAX_CACERT_LEN + 1" rc] assms(4,5) by auto
  have "(''pinned-domain-cert'', c) \<in> set kvs" using assms(3) by (rule map_of_SomeD)
  then have "NUL \<notin> set c" using assms(1) by (auto simp: flat_voucher_def plain_def)
  then have n: "strnlen_s (Some (c @ NUL # rest)) EST_BRSKI_MAX_CACERT_LEN = length c"
    using assms(4,5) by (simp add: strnlen_s_def strnlen_def)
  have cpy: "memcpy_s (Some (replicate (length c + 1) NUL)) (length c + 1) (Some (c @ NUL # rest)) (length c) = Some (Some (c @ [NUL]), EOK)"
    by (simp add: memcpy_s_def rd_block_def wr_block_def del: replicate.simps) (simp add: replicate_append_same [symmetric])
  show ?thesis
    unfolding take_cacert_def get using assms(6) by (simp add: n cpy [simplified] Let_def)
qed

lemmas flat_steps = flat_check_nonce flat_check_ser_num flat_take_cacert

section \<open>Certificates that are accepted\<close>

lemma verify_stack_iff:
  "verify_stack ossl trusted stack cs failed = Some False \<longleftrightarrow>
     \<not> failed \<and> (cs = [] \<or> store_ctx_init ossl) \<and> (\<forall>c \<in> set cs. verify_cert ossl trusted stack c \<noteq> 0)"
  by (induction cs arbitrary: failed) auto

text \<open>The base64 text holds a PKCS7 structure with certificates that all verify against the self-issued ones among them.\<close>

definition cacerts_verified :: "P7_OSSL \<Rightarrow> string \<Rightarrow> bool" where
  "cacerts_verified ossl bs \<longleftrightarrow>
     (\<exists>der p7 stack. b64_read ossl bs = Some der \<and> d2i_PKCS7_bio ossl der = Some p7 \<and> p7_type p7 \<noteq> NID_other
        \<and> p7_cert p7 = Some stack
        \<and> (\<forall>c \<in> set stack. verify_cert ossl (filter (self_issued ossl) stack) stack c \<noteq> 0))"

lemma verify_cacert_resp_NONE:
  assumes "verify_cacert_resp ossl buf n = Some (EST_ERR_NONE, m, k)"
  shows "cacerts_verified ossl (take n buf)"
proof -
  obtain der where der: "n \<le> length buf" "b64_read ossl (take n buf) = Some der"
    using assms by (auto simp: verify_cacert_resp_def b64_decode_cacerts_def rd_block_def bind_eq_Some_conv split: if_splits)
  then have dec: "b64_decode_cacerts ossl buf n = Some der" by (simp add: b64_decode_cacerts_def rd_block_def)
  obtain p7 where p7: "d2i_PKCS7_bio ossl der = Some p7"
    using assms dec by (cases "d2i_PKCS7_bio ossl der") (auto simp: verify_cacert_resp_def create_PKCS7_def)
  obtain stack where st: "p7_type p7 \<noteq> NID_other" "p7_cert p7 = Some stack"
    using assms dec p7
    by (cases "p7_cert p7"; cases "p7_type p7 = NID_other") (auto simp: verify_cacert_resp_def create_PKCS7_def PKCS7_to_stack_def)
  then have ps: "PKCS7_to_stack p7 = Inr stack" by (simp add: PKCS7_to_stack_def)
  have "verify_stack ossl (filter (self_issued ossl) stack) stack stack False = Some False"
    using assms dec p7 ps
    by (auto simp: verify_cacert_resp_def create_PKCS7_def bind_eq_Some_conv split: option.splits if_splits)
  then show ?thesis using der p7 st unfolding verify_stack_iff cacerts_verified_def by blast
qed


lemma flat_accept:
  assumes "d2i_PKCS7_bio ossl (brski_retrieved_voucher ctx) = Some p7" "trust_store ctx = Some store"
    "PKCS7_verify ossl p7 store \<noteq> 0"
    and "flat_voucher kvs" "p7_data p7 = CHR ''{'' # render_kvs kvs @ ''}''"
    and "map_of kvs ''nonce'' \<in> {None, Some sent_nonce}" "map_of kvs ''serial-number'' = Some ser"
      "map_of kvs ''pinned-domain-cert'' = Some cert"
    and "length sent_nonce = EST_BRSKI_VOUCHER_REQ_NONCE_SIZE" "NUL \<notin> set sent_nonce"
    and "length ser \<le> EST_BRSKI_MAX_SER_NUM_LEN" "client_cert_ser_num ctx = ser @ [NUL]"
    and "length nb = EST_BRSKI_VOUCHER_REQ_NONCE_SIZE + 2" "length sb = EST_BRSKI_MAX_SER_NUM_LEN + 2"
    and "length rc = EST_BRSKI_MAX_CACERT_LEN"
  shows "brski_parse_voucher ossl nb sb ctx sent_nonce rc =
    (case take_cacert ossl (ctx\<lparr>brski_retrieved_voucher := p7_data p7\<rparr>) rc (2 * int (length kvs) + 1) (flat_toks kvs) of
       None \<Rightarrow> None | Some (rv, ctx') \<Rightarrow> Some (rv, ctx', 0))"
proof -
  have vv: "verify_voucher ossl ctx = (EST_ERR_NONE, ctx\<lparr>brski_retrieved_voucher := p7_data p7\<rparr>)"
    using assms(1-3) by (simp add: verify_voucher_def create_PKCS7_def)
  obtain p where parse: "jsmn_parse (p7_data p7) (length (p7_data p7)) jsmn_init (replicate 100 blank_tok)
      = Some (2 * int (length kvs) + 1, p, flat_toks kvs)"
    using flat_parse [OF assms(4,5)] by blast
  note nonce = flat_check_nonce [OF assms(4-6,9,10,13)] and ser = flat_check_ser_num [OF assms(4,5,7,11,12,14)]
  show ?thesis
    unfolding brski_parse_voucher_def vv using parse nonce ser
    by (simp add: Let_def split: option.split)
qed


text \<open>
  The caller's array for the certificate has 8192 bytes, but brski_parse_voucher prints up to 8193 bytes
  into it: for an otherwise correct voucher whose pinned certificate has 8192 bytes or more, the
  terminator is written outside the array.
\<close>

theorem brski_parse_voucher_overflow:
  assumes "d2i_PKCS7_bio ossl (brski_retrieved_voucher ctx) = Some p7" "trust_store ctx = Some store"
    "PKCS7_verify ossl p7 store \<noteq> 0"
    and "flat_voucher kvs" "p7_data p7 = CHR ''{'' # render_kvs kvs @ ''}''"
    and "map_of kvs ''nonce'' \<in> {None, Some sent_nonce}" "map_of kvs ''serial-number'' = Some ser"
      "map_of kvs ''pinned-domain-cert'' = Some cert"
    and "length sent_nonce = EST_BRSKI_VOUCHER_REQ_NONCE_SIZE" "NUL \<notin> set sent_nonce"
    and "length ser \<le> EST_BRSKI_MAX_SER_NUM_LEN" "client_cert_ser_num ctx = ser @ [NUL]"
    and "length nb = EST_BRSKI_VOUCHER_REQ_NONCE_SIZE + 2" "length sb = EST_BRSKI_MAX_SER_NUM_LEN + 2"
    and "length rc = EST_BRSKI_MAX_CACERT_LEN"
    and "EST_BRSKI_MAX_CACERT_LEN \<le> length cert"
  shows "brski_parse_voucher ossl nb sb ctx sent_nonce rc = None"
proof -
  let ?V = "p7_data p7" and ?N = EST_BRSKI_MAX_CACERT_LEN
  have "retrieve_token_from_voucher ?V rc (?N + 1) (2 * int (length kvs) + 1) (flat_toks kvs) ''pinned-domain-cert'' = None"
  proof (cases "retrieve_token_from_voucher ?V rc (?N + 1) (2 * int (length kvs) + 1) (flat_toks kvs) ''pinned-domain-cert''")
    case (Some fb)
    obtain f b where fb: "fb = (f, b)" by (cases fb)
    have "2 * int (length kvs) + 1 \<le> int (length (flat_toks kvs))"
      using assms(4) length_flat_toks [OF assms(4)] by (simp add: flat_voucher_def)
    moreover have "1 < ?N + 1" by (simp add: EST_BRSKI_MAX_CACERT_LEN_def)
    ultimately show ?thesis
      using Some [unfolded fb] flat_json_value [OF assms(4,5), of "''pinned-domain-cert''"] assms(8,15,16)
      by (elim retrieve_tokenE) auto
  qed
  then have "take_cacert ossl (ctx\<lparr>brski_retrieved_voucher := ?V\<rparr>) rc (2 * int (length kvs) + 1) (flat_toks kvs) = None"
    by (simp add: take_cacert_def)
  then show ?thesis by (simp add: flat_accept [OF assms(1-15)])
qed

section \<open>Concrete vouchers\<close>

definition sample_nonce :: string where
  "sample_nonce = ''0123456789abcdef0123456789abcdef''"

definition sample_kvs :: "string \<Rightarrow> (string \<times> string) list" where
  "sample_kvs cert = [(''serial-number'', ''SN1''), (''nonce'', sample_nonce), (''pinned-domain-cert'', cert)]"

definition sample_p7_ossl :: "string \<Rightarrow> P7_OSSL" where
  "sample_p7_ossl cert = \<lparr>b64_read = \<lambda>_. Some ''der'',
     d2i_PKCS7_bio = \<lambda>s. if s = ''der'' then Some \<lparr>p7_type = NID_pkcs7_signed, p7_cert = Some [1], p7_crl = False, p7_data = []\<rparr>
       else Some \<lparr>p7_type = NID_pkcs7_signed, p7_cert = Some [2], p7_crl = False, p7_data = CHR ''{'' # render_kvs (sample_kvs cert) @ ''}''\<rparr>,
     b64_PKCS7 = \<lambda>_. None, self_issued = \<lambda>_. True, store_ctx_init = True, verify_cert = \<lambda>_ _ _. 1, PKCS7_verify = \<lambda>_ _. 1\<rparr>"

definition sample_vctx :: VOUCHER_CTX where
  "sample_vctx = \<lparr>est_client_initialized = True, brski_mode = True, client_cert_serial = Some (Some ''SN1''),
     client_cert_ser_num = ''SN1'' @ [NUL], trust_store = Some 7, brski_retrieved_voucher = ''cms'',
     brski_retrieved_cacert = None, brski_retrieved_cacert_len = 0, retry_delay = 0\<rparr>"

lemma sample_flat: "plain cert \<Longrightarrow> cert \<notin> {''nonce'', ''serial-number'', ''pinned-domain-cert''} \<Longrightarrow> flat_voucher (sample_kvs cert)"
  by (auto simp: flat_voucher_def sample_kvs_def plain_def sample_nonce_def)

lemma sample_verify:
  "verify_cacert_resp (sample_p7_ossl cert) (bs @ [NUL]) (length bs) = Some (EST_ERR_NONE, bs @ [NUL], length bs)"
  by (simp add: verify_cacert_resp_def b64_decode_cacerts_def rd_block_def sample_p7_ossl_def create_PKCS7_def
      PKCS7_to_stack_def est_client_remove_crls_def)

lemma sample_nonce_ok: "length sample_nonce = EST_BRSKI_VOUCHER_REQ_NONCE_SIZE" "NUL \<notin> set sample_nonce"
  by (simp_all add: sample_nonce_def EST_BRSKI_VOUCHER_REQ_NONCE_SIZE_def)

text \<open>The hypotheses of the theorems on flat vouchers hold for the sample voucher with any plain certificate text.\<close>

lemma sample_hyps:
  "d2i_PKCS7_bio (sample_p7_ossl cert) (brski_retrieved_voucher sample_vctx) = Some \<lparr>p7_type = NID_pkcs7_signed, p7_cert = Some [2],
     p7_crl = False, p7_data = CHR ''{'' # render_kvs (sample_kvs cert) @ ''}''\<rparr>"
  "trust_store sample_vctx = Some 7" "PKCS7_verify (sample_p7_ossl cert) p7 7 \<noteq> 0"
  "map_of (sample_kvs cert) ''nonce'' \<in> {None, Some sample_nonce}" "map_of (sample_kvs cert) ''serial-number'' = Some ''SN1''"
  "map_of (sample_kvs cert) ''pinned-domain-cert'' = Some cert"
  "length ''SN1'' \<le> EST_BRSKI_MAX_SER_NUM_LEN" "client_cert_ser_num sample_vctx = ''SN1'' @ [NUL]"
  by (simp_all add: sample_p7_ossl_def sample_vctx_def sample_kvs_def EST_BRSKI_MAX_SER_NUM_LEN_def)

abbreviation uninit :: "nat \<Rightarrow> mem" where "uninit n \<equiv> replicate n (CHR ''?'')"


theorem brski_parse_voucher_overflow_witness:
  "brski_parse_voucher (sample_p7_ossl (replicate 8192 (CHR ''M''))) (uninit (EST_BRSKI_VOUCHER_REQ_NONCE_SIZE + 2))
     (uninit (EST_BRSKI_MAX_SER_NUM_LEN + 2)) sample_vctx sample_nonce (uninit EST_BRSKI_MAX_CACERT_LEN) = None"
proof -
  let ?c = "replicate 8192 (CHR ''M'')"
  have "?c \<notin> {''nonce'', ''serial-number'', ''pinned-domain-cert''}"
    by (auto dest!: arg_cong [of _ _ length])
  then have "flat_voucher (sample_kvs ?c)" by (intro sample_flat) (auto simp: plain_def)
  then show ?thesis
    by (rule brski_parse_voucher_overflow [OF sample_hyps(1) sample_hyps(2,3) _ _ sample_hyps(4-6) sample_nonce_ok sample_hyps(7,8)])
      (simp_all add: EST_BRSKI_MAX_CACERT_LEN_def)
qed


end
