(* ===== verification/Client_Request.thy ===== *)
theory Client_Request
  imports Client_Auth Multipart Client_Host Client_Voucher Est_Asn1 Est_Uri Server_Auth
begin

text \<open>
  Connections and requests of the client, \<^verbatim>\<open>src/src/est/est_client.c\<close>: establishing a TLS session with a verified
  server, building the HTTP request in its buffer of \<^verbatim>\<open>EST_HTTP_REQ_TOTAL_LEN\<close> bytes, sending it and taking the
  response. What the outside world does during one connection is a \<open>SESSION\<close>: the results of the socket and TLS
  calls, the certificate of the server, random bytes, the contents of fresh memory, and the answer of the peer as a
  function of the bytes it is sent. A client operation consumes sessions from a list and logs what it hands to
  \<^verbatim>\<open>SSL_write\<close>. Session resumption only matters to OpenSSL and is not modelled.
\<close>

section \<open>The world\<close>

datatype tcw_err = TCW_OK | TCW_ERR_RESOLV | TCW_ERR_OTHER

record SESSION =
  tcw_result :: tcw_err
  sock_ok :: bool
  ssl_new_ok :: bool
  ssl_connect_ok :: bool
  server_peer :: "server_cert option"
  ses_ssl :: SSL
  ses_random :: "string option"
  ses_heap :: mem
  ses_stack :: "mem \<times> mem"
  write_result :: int
  peer_answer :: "string \<Rightarrow> ssl_read list \<times> bool"

record NET =
  sessions :: "SESSION list"
  sent :: "(SESSION \<times> string) list"

text \<open>
  The libraries: OpenSSL as far as the client calls it, \<^verbatim>\<open>inet_pton\<close>, and the name of the package that the build
  defines.
\<close>

record CLIENT_ENV =
  env_lib :: CLIENT_LIB
  env_ossl :: OPENSSL
  env_p7 :: P7_OSSL
  env_asn1 :: ASN1
  env_inet :: inet_addr
  PACKAGE_STRING :: string
  FIPS_mode :: bool

section \<open>Connecting\<close>

text \<open>The socket options and the creation of the BIO fail together (\<open>sock_ok\<close>).\<close>

definition est_client_connect :: "CLIENT_ENV \<Rightarrow> EST_CLIENT \<Rightarrow> NET \<Rightarrow> (EST_ERROR \<times> SESSION option \<times> NET) option" where
  "est_client_connect env ctx net =
     (case sessions net of
        [] \<Rightarrow> Some (EST_ERR_IP_CONNECT, None, net)
      | s # ss \<Rightarrow>
          (let net' = net\<lparr>sessions := ss\<rparr> in
           if tcw_result s = TCW_ERR_RESOLV then Some (EST_ERR_IP_GETADDR, None, net')
           else if tcw_result s \<noteq> TCW_OK then Some (EST_ERR_IP_CONNECT, None, net')
           else if \<not> sock_ok s then Some (EST_ERR_IP_CONNECT, None, net')
           else if \<not> ssl_new_ok s then Some (EST_ERR_SSL_NEW, None, net')
           else if \<not> ssl_connect_ok s then Some (EST_ERR_SSL_CONNECT, None, net')
           else do { rc \<leftarrow> est_client_check_fqdn (env_inet env) (cstr (est_server ctx)) (cl_enable_srp ctx) (server_peer s);
                     if rc \<noteq> EST_ERR_NONE then Some (EST_ERR_FQDN_MISMATCH, None, net')
                     else Some (EST_ERR_NONE, Some s, net') }))"

section \<open>Headers\<close>

definition EST_HTTP_HDR_MAX :: nat where "EST_HTTP_HDR_MAX = 1024"
definition EST_HTTP_REQ_DATA_MAX :: nat where "EST_HTTP_REQ_DATA_MAX = 4096"
definition EST_MAX_CLIENT_CERT_LEN :: nat where "EST_MAX_CLIENT_CERT_LEN = 4096"
definition EST_MAX_CLIENT_PKEY_LEN :: nat where "EST_MAX_CLIENT_PKEY_LEN = 8192"

definition session_lib :: "CLIENT_ENV \<Rightarrow> SESSION \<Rightarrow> CLIENT_LIB" where
  "session_lib env s = (env_lib env)\<lparr>RAND_bytes := ses_random s\<rparr>"

definition request_uri :: "EST_CLIENT \<Rightarrow> string \<Rightarrow> string" where
  "request_uri ctx op_name =
     EST_PATH_PREFIX @ (case uri_path_segment ctx of None \<Rightarrow> [] | Some seg \<Rightarrow> ''/'' @ seg) @ ''/'' @ op_name"

definition header_text :: "CLIENT_ENV \<Rightarrow> EST_CLIENT \<Rightarrow> string \<Rightarrow> string \<Rightarrow> string \<Rightarrow> string" where
  "header_text env ctx meth op_name host =
     meth @ '' '' @ request_uri ctx op_name @ '' HTTP/1.1'' @ CRLF
       @ ''User-Agent: '' @ PACKAGE_STRING env @ CRLF
       @ ''Connection: close'' @ CRLF
       @ ''Host: '' @ host @ '':'' @ itoa (est_port_num ctx) @ CRLF
       @ ''Accept: */*'' @ CRLF"

definition pkcs10_headers :: "nat \<Rightarrow> string" where
  "pkcs10_headers pkcs10_len = ''Content-Type: application/pkcs10'' @ CRLF @ ''Content-Length: '' @ itoa (int pkcs10_len) @ CRLF"

definition est_client_build_cacerts_header :: "CLIENT_ENV \<Rightarrow> EST_CLIENT \<Rightarrow> mem \<Rightarrow> (nat \<times> mem) option" where
  "est_client_build_cacerts_header env ctx hdr =
     do { host \<leftarrow> str_arg (est_server ctx);
          h \<leftarrow> snprintf hdr 0 (int EST_HTTP_REQ_TOTAL_LEN) (header_text env ctx ''GET'' ''cacerts'' host);
          let n = strnlen_s (Some h) EST_HTTP_REQ_TOTAL_LEN in
          Some (if n > EST_HTTP_HDR_MAX then 0 else n, h) }"

definition est_client_build_csr_header :: "CLIENT_ENV \<Rightarrow> SESSION \<Rightarrow> EST_CLIENT \<Rightarrow> mem \<Rightarrow> (nat \<times> EST_CLIENT \<times> mem) option" where
  "est_client_build_csr_header env s ctx hdr =
     do { host \<leftarrow> str_arg (est_server ctx);
          h \<leftarrow> snprintf hdr 0 (int EST_HTTP_REQ_TOTAL_LEN) (header_text env ctx ''GET'' ''csrattrs'' host);
          (ctx', h') \<leftarrow> est_client_add_auth_hdr (session_lib env s) (ses_stack s) ctx h ''/.well-known/est/csrattrs'';
          let n = strnlen_s (Some h') EST_HTTP_REQ_TOTAL_LEN in
          Some (if n > EST_HTTP_HDR_MAX then 0 else n, ctx', h') }"

text \<open>The three headers of a request with a PKCS10 body differ in the operation and in the check of their length.\<close>

definition pkcs10_header_buf ::
  "CLIENT_ENV \<Rightarrow> SESSION \<Rightarrow> EST_CLIENT \<Rightarrow> mem \<Rightarrow> nat \<Rightarrow> string \<Rightarrow> (EST_CLIENT \<times> mem) option" where
  "pkcs10_header_buf env s ctx hdr pkcs10_len op_name =
     do { host \<leftarrow> str_arg (est_server ctx);
          h \<leftarrow> snprintf hdr 0 (int EST_HTTP_REQ_TOTAL_LEN)
                 (header_text env ctx ''POST'' op_name host @ pkcs10_headers pkcs10_len);
          est_client_add_auth_hdr (session_lib env s) (ses_stack s) ctx h (EST_PATH_PREFIX @ ''/'' @ op_name) }"

definition est_client_build_enroll_header ::
  "CLIENT_ENV \<Rightarrow> SESSION \<Rightarrow> EST_CLIENT \<Rightarrow> mem \<Rightarrow> nat \<Rightarrow> (nat \<times> EST_CLIENT \<times> mem) option" where
  "est_client_build_enroll_header env s ctx hdr pkcs10_len =
     do { (ctx', h) \<leftarrow> pkcs10_header_buf env s ctx hdr pkcs10_len ''simpleenroll'';
          let n = strnlen_s (Some h) (EST_HTTP_REQ_TOTAL_LEN + 1) in
          Some (if n > EST_HTTP_REQ_TOTAL_LEN then 0 else n, ctx', h) }"

definition est_client_build_reenroll_header ::
  "CLIENT_ENV \<Rightarrow> SESSION \<Rightarrow> EST_CLIENT \<Rightarrow> mem \<Rightarrow> nat \<Rightarrow> (nat \<times> EST_CLIENT \<times> mem) option" where
  "est_client_build_reenroll_header env s ctx hdr pkcs10_len =
     do { (ctx', h) \<leftarrow> pkcs10_header_buf env s ctx hdr pkcs10_len ''simplereenroll'';
          let n = strnlen_s (Some h) EST_HTTP_REQ_TOTAL_LEN in
          Some (if n > EST_HTTP_HDR_MAX then 0 else n, ctx', h) }"

definition est_client_build_server_keygen_header ::
  "CLIENT_ENV \<Rightarrow> SESSION \<Rightarrow> EST_CLIENT \<Rightarrow> mem \<Rightarrow> nat \<Rightarrow> (nat \<times> EST_CLIENT \<times> mem) option" where
  "est_client_build_server_keygen_header env s ctx hdr pkcs10_len =
     do { (ctx', h) \<leftarrow> pkcs10_header_buf env s ctx hdr pkcs10_len ''serverkeygen'';
          Some (strnlen_s (Some h) EST_HTTP_REQ_TOTAL_LEN, ctx', h) }"

section \<open>Requests\<close>

definition memcpy_at :: "mem \<Rightarrow> nat \<Rightarrow> nat \<Rightarrow> string \<Rightarrow> mem option" where
  "memcpy_at m off dmax src = (if length src > dmax then Some m else wr_block m off src)"

text \<open>
  The end of the header, the body (empty for a GET request) and the end of the request; the length counts the body
  whether or not \<^verbatim>\<open>memcpy_s\<close> copied it. The bytes that are written are read from the buffer.
\<close>

definition request_bytes :: "mem \<Rightarrow> nat \<Rightarrow> string \<Rightarrow> string option" where
  "request_bytes buf n body =
     do { b1 \<leftarrow> snprintf buf n (int EST_HTTP_REQ_TOTAL_LEN - int n) CRLF;
          b2 \<leftarrow> memcpy_at b1 (n + 2) EST_HTTP_REQ_DATA_MAX body;
          b3 \<leftarrow> snprintf b2 (n + 2 + length body) (int EST_HTTP_REQ_TOTAL_LEN - int (n + 2 + length body)) CRLF;
          rd_block b3 0 (n + 2 + length body + 2) }"

text \<open>\<^verbatim>\<open>SSL_write\<close>: what was written is what the peer answers to; a negative result is an error.\<close>

definition ssl_exchange :: "SESSION \<Rightarrow> NET \<Rightarrow> string \<Rightarrow> (ssl_read list \<times> bool) option \<times> NET" where
  "ssl_exchange s net bytes =
     (let net' = net\<lparr>sent := sent net @ [(s, bytes)]\<rparr> in
      if write_result s < 0 then (None, net')
      else (Some (peer_answer s (take (nat (write_result s)) bytes)), net'))"

definition clear_status :: "EST_CLIENT \<Rightarrow> EST_CLIENT" where
  "clear_status ctx = ctx\<lparr>io := (io ctx)\<lparr>last_http_status := 0\<rparr>\<rparr>"

definition the_bytes :: "string option \<Rightarrow> string" where
  "the_bytes b = (case b of None \<Rightarrow> [] | Some x \<Rightarrow> x)"

text \<open>What becomes of the certificate and the key of a response: the error, the certificate and the key.\<close>

definition enroll_result :: "EST_OPERATION \<Rightarrow> EST_ERROR \<Rightarrow> string \<Rightarrow> string \<Rightarrow> EST_ERROR \<times> string \<times> string" where
  "enroll_result est_op rv key_buf cert_buf =
     (if rv \<noteq> EST_ERR_NONE then (rv, [], [])
      else if cert_buf = [] then (EST_ERR_ZERO_LENGTH_BUF, [], [])
      else if length cert_buf > EST_MAX_CLIENT_CERT_LEN then (EST_ERR_BUF_EXCEEDS_MAX_LEN, [], [])
      else if est_op = EST_OP_SERVER_KEYGEN then
        (if key_buf = [] then (EST_ERR_ZERO_LENGTH_BUF, cert_buf, [])
         else if length key_buf > EST_MAX_CLIENT_PKEY_LEN then (EST_ERR_BUF_EXCEEDS_MAX_LEN, cert_buf, [])
         else (EST_ERR_NONE, cert_buf, key_buf))
      else (EST_ERR_NONE, cert_buf, []))"

definition enroll_response ::
  "EST_OPERATION \<Rightarrow> EST_CLIENT \<Rightarrow> ssl_read list \<times> bool \<Rightarrow> (EST_CLIENT \<times> EST_ERROR \<times> string \<times> string) option" where
  "enroll_response est_op ctx answer =
     (if est_op = EST_OP_SERVER_KEYGEN then
        do { (rv, c, r) \<leftarrow> est_io_get_multipart_response (io ctx) (fst answer) (snd answer);
             let (key_buf, cert_buf) = (case r of None \<Rightarrow> ([], []) | Some kc \<Rightarrow> kc) in
             Some (ctx\<lparr>io := c\<rparr>, enroll_result est_op rv key_buf cert_buf) }
      else
        do { (rv, c, r) \<leftarrow> est_io_get_response (io ctx) (fst answer) (snd answer) est_op;
             Some (ctx\<lparr>io := c\<rparr>, enroll_result est_op rv [] (the_bytes r)) })"

definition est_client_send_enroll_request_internal ::
  "CLIENT_ENV \<Rightarrow> SESSION \<Rightarrow> EST_CLIENT \<Rightarrow> NET \<Rightarrow> string \<Rightarrow> EST_OPERATION
     \<Rightarrow> (EST_ERROR \<times> EST_CLIENT \<times> NET \<times> string \<times> string) option" where
  "est_client_send_enroll_request_internal env s ctx net bptr est_op =
     do { (n, ctx1, buf) \<leftarrow>
            (case est_op of
               EST_OP_SIMPLE_ENROLL \<Rightarrow> est_client_build_enroll_header env s ctx (ses_heap s) (length bptr)
             | EST_OP_SIMPLE_REENROLL \<Rightarrow> est_client_build_reenroll_header env s ctx (ses_heap s) (length bptr)
             | EST_OP_SERVER_KEYGEN \<Rightarrow> est_client_build_server_keygen_header env s ctx (ses_heap s) (length bptr)
             | _ \<Rightarrow> Some (0, ctx, ses_heap s));
          if n = 0 then Some (EST_ERR_HTTP_CANNOT_BUILD_HEADER, ctx1, net, [], [])
          else do {
            bytes \<leftarrow> request_bytes buf n bptr;
            case ssl_exchange s net bytes of
              (None, net1) \<Rightarrow> Some (EST_ERR_SSL_WRITE, clear_status ctx1, net1, [], [])
            | (Some answer, net1) \<Rightarrow>
                do { (ctx2, rv, cert, key) \<leftarrow> enroll_response est_op (clear_status ctx1) answer;
                     Some (rv, ctx2, net1, cert, key) } } }"

definition est_client_send_csrattrs_request ::
  "CLIENT_ENV \<Rightarrow> SESSION \<Rightarrow> EST_CLIENT \<Rightarrow> NET \<Rightarrow> (EST_ERROR \<times> EST_CLIENT \<times> NET \<times> string option) option" where
  "est_client_send_csrattrs_request env s ctx net =
     do { (n, ctx1, buf) \<leftarrow> est_client_build_csr_header env s ctx (ses_heap s);
          if n = 0 then Some (EST_ERR_HTTP_CANNOT_BUILD_HEADER, ctx1, net, None)
          else do {
            bytes \<leftarrow> request_bytes buf n [];
            case ssl_exchange s net bytes of
              (None, net1) \<Rightarrow> Some (EST_ERR_SSL_WRITE, clear_status ctx1, net1, None)
            | (Some answer, net1) \<Rightarrow>
                do { (rv, c, r) \<leftarrow> est_io_get_response (io (clear_status ctx1)) (fst answer) (snd answer) EST_OP_CSRATTRS;
                     Some (rv, ctx1\<lparr>io := c\<rparr>, net1, if rv = EST_ERR_NONE then r else None) } } }"

text \<open>
  The CA certificates of a response are stored before they are verified; when the verification fails they are
  removed again.
\<close>

definition store_cacerts :: "CLIENT_ENV \<Rightarrow> EST_CLIENT \<Rightarrow> string \<Rightarrow> (EST_ERROR \<times> EST_CLIENT \<times> nat) option" where
  "store_cacerts env ctx ca_certs_buf =
     (if ca_certs_buf = [] then Some (EST_ERR_ZERO_LENGTH_BUF, ctx, 0)
      else if length ca_certs_buf + 1 > EST_CA_MAX then Some (EST_ERR_BUF_EXCEEDS_MAX_LEN, ctx, 0)
      else do {
        (rv, buf, len) \<leftarrow> verify_cacert_resp (env_p7 env) (ca_certs_buf @ [NUL]) (length ca_certs_buf);
        if rv \<noteq> EST_ERR_NONE then Some (rv, ctx\<lparr>retrieved_ca_certs := None\<rparr>, 0)
        else Some (EST_ERR_NONE, ctx\<lparr>retrieved_ca_certs := Some (buf, len)\<rparr>, len) })"

definition est_client_send_cacerts_request ::
  "CLIENT_ENV \<Rightarrow> SESSION \<Rightarrow> EST_CLIENT \<Rightarrow> NET \<Rightarrow> (EST_ERROR \<times> EST_CLIENT \<times> NET \<times> nat) option" where
  "est_client_send_cacerts_request env s ctx net =
     do { (n, buf) \<leftarrow> est_client_build_cacerts_header env ctx (ses_heap s);
          if n = 0 then Some (EST_ERR_HTTP_CANNOT_BUILD_HEADER, ctx, net, 0)
          else do {
            bytes \<leftarrow> request_bytes buf n [];
            case ssl_exchange s net bytes of
              (None, net1) \<Rightarrow> Some (EST_ERR_SSL_WRITE, clear_status ctx, net1, 0)
            | (Some answer, net1) \<Rightarrow>
                do { (rv, c, r) \<leftarrow> est_io_get_response (io (clear_status ctx)) (fst answer) (snd answer) EST_OP_CACERTS;
                     if rv \<noteq> EST_ERR_NONE then Some (rv, ctx\<lparr>io := c\<rparr>, net1, 0)
                     else do { (rv1, ctx1, len) \<leftarrow> store_cacerts env (ctx\<lparr>io := c\<rparr>) (the_bytes r);
                               Some (rv1, ctx1, net1, len) } } } }"

section \<open>Reading a response keeps the context well-formed\<close>

lemma copy_token_ok:
  assumes "copy_token upd dest n m p ctx = Some (m', p', b, ctx')" and "array_ok n dest" and "0 < n" and "client_ok ctx"
    and "\<And>d. array_ok n d \<Longrightarrow> client_ok (upd d ctx)"
  shows "client_ok ctx'"
proof -
  obtain m1 p1 v where h: "HTNextField m p = Some (m1, p1, v)"
    using assms(1) by (cases "HTNextField m p") (auto simp: copy_token_def)
  show ?thesis
  proof (cases v)
    case None
    with assms(1,4) h show ?thesis by (simp add: copy_token_def)
  next
    case (Some a)
    with strcpy_s_array [OF assms(2,3), of "drop a m1"] assms(1,5) h show ?thesis
      by (auto simp: copy_token_def)
  qed
qed

lemma array_sizes: "0 < MAX_REALM" "0 < MAX_NONCE" "0 < MAX_TOKEN_ERROR" "0 < MAX_TOKEN_ERROR_DESC"
  by (simp_all add: MAX_REALM_def MAX_NONCE_def MAX_TOKEN_ERROR_def MAX_TOKEN_ERROR_DESC_def)

lemma auth_param_ok:
  assumes "auth_param m p token ctx = Some (m', p', b, ctx')" and ok: "client_ok ctx"
  shows "client_ok ctx'"
proof -
  note arrays = ok [unfolded client_ok_def]
  have copies:
    "copy_token (\<lambda>d c. c\<lparr>cl_realm := d\<rparr>) (cl_realm ctx) MAX_REALM m p ctx = Some (m', p', b, ctx') \<Longrightarrow> client_ok ctx'"
    "copy_token (\<lambda>d c. c\<lparr>s_nonce := d\<rparr>) (s_nonce ctx) MAX_NONCE m p ctx = Some (m', p', b, ctx') \<Longrightarrow> client_ok ctx'"
    "copy_token (\<lambda>d c. c\<lparr>token_error := d\<rparr>) (token_error ctx) MAX_TOKEN_ERROR m p ctx = Some (m', p', b, ctx') \<Longrightarrow> client_ok ctx'"
    "copy_token (\<lambda>d c. c\<lparr>token_error_desc := d\<rparr>) (token_error_desc ctx) MAX_TOKEN_ERROR_DESC m p ctx = Some (m', p', b, ctx') \<Longrightarrow> client_ok ctx'"
    using copy_token_ok array_sizes arrays ok by (fastforce simp: client_ok_def)+
  show ?thesis
    using assms(1) copies ok unfolding auth_param_def
    by (auto split: if_split_asm option.splits prod.splits)
qed

lemma auth_tokens_loop_ok: "auth_tokens_loop m p ctx = Some (rv, ctx') \<Longrightarrow> client_ok ctx \<Longrightarrow> client_ok ctx'"
proof (induction m p ctx rule: auth_tokens_loop.induct)
  case (1 m p ctx)
  obtain m1 p1 t where h: "HTNextField m p = Some (m1, p1, t)"
    using 1(2) by (subst (asm) auth_tokens_loop.simps) (auto split: option.splits)
  show ?case
  proof (cases t)
    case None
    with 1(2,3) h show ?thesis by (subst (asm) auth_tokens_loop.simps) simp
  next
    case (Some a)
    then obtain m2 p2 b c where a: "auth_param m1 p1 (drop a m1) ctx = Some (m2, p2, b, c)"
      using 1(2) h by (subst (asm) auth_tokens_loop.simps) (auto split: option.splits)
    note c = auth_param_ok [OF a 1(3)]
    show ?thesis
    proof (cases b)
      case True
      with 1(2) h Some a have "auth_tokens_loop m2 p2 c = Some (rv, ctx')"
        by (subst (asm) auth_tokens_loop.simps) simp
      with 1(1) [of _ m1 "(p1, t)" p1 t a _ m2 "(p2, b, c)" p2 "(b, c)" b c] h Some a True c show ?thesis by simp
    next
      case False
      have "memzero_s (Some (s_nonce c)) (MAX_NONCE + 1) = Some (Some (replicate (MAX_NONCE + 1) NUL), EOK)"
        using c by (intro memzero_all) (simp add: client_ok_def array_ok_def)
      with 1(2) h Some a False have "ctx' = c\<lparr>s_nonce := replicate (MAX_NONCE + 1) NUL\<rparr>"
        by (subst (asm) auth_tokens_loop.simps) simp
      with c replicate_array_ok [of MAX_NONCE] show ?thesis by (simp add: client_ok_def)
    qed
  qed
qed

lemma client_ok_mode [simp]: "client_ok (ctx\<lparr>cl_auth_mode := a\<rparr>) = client_ok ctx"
  "client_ok (ctx\<lparr>last_http_status := st\<rparr>) = client_ok ctx" "client_ok (ctx\<lparr>cl_retry_after_delay := d\<rparr>) = client_ok ctx"
  "client_ok (ctx\<lparr>retry_after_date := d\<rparr>) = client_ok ctx"
  by (simp_all add: client_ok_def)

lemma auth_request_ok: "auth_request ctx am v = Some ctx' \<Longrightarrow> client_ok ctx \<Longrightarrow> client_ok ctx'"
  by (auto simp: auth_request_def est_io_parse_auth_tokens_def dest: auth_tokens_loop_ok split: option.splits prod.splits if_splits)

lemma parse_auth_request_ok: "est_io_parse_http_auth_request ctx hds = Some ctx' \<Longrightarrow> client_ok ctx \<Longrightarrow> client_ok ctx'"
  by (induction ctx hds rule: est_io_parse_http_auth_request.induct) (auto dest: auth_request_ok split: if_splits)

lemma retry_loop_ok: "retry_loop hds rv ctx = Some (rv', ctx') \<Longrightarrow> client_ok ctx \<Longrightarrow> client_ok ctx'"
  by (induction hds rv ctx rule: retry_loop.induct) (auto split: if_splits option.splits)

lemma status_result_ok: "status_result st ctx hds = Some (rv, ctx') \<Longrightarrow> client_ok ctx \<Longrightarrow> client_ok ctx'"
  unfolding status_result_def est_io_parse_http_retry_after_resp_def
  by (auto dest: retry_loop_ok parse_auth_request_ok split: if_splits)

lemma status_result_ok':
  "status_result st (ctx\<lparr>last_http_status := st'\<rparr>) hds = Some (rv, ctx') \<Longrightarrow> client_ok ctx \<Longrightarrow> client_ok ctx'"
  using status_result_ok by fastforce

lemma get_response_ok:
  assumes "est_io_get_response ctx rs peek op = Some (rv, ctx', r)" and "client_ok ctx"
  shows "client_ok ctx'"
  using assms unfolding est_io_get_response_def
  by (auto simp: Let_def bind_eq_Some_conv dest: status_result_ok' split: prod.splits if_splits)

lemma get_multipart_response_ok:
  assumes "est_io_get_multipart_response ctx rs peek = Some (rv, ctx', r)" and "client_ok ctx"
  shows "client_ok ctx'"
  using assms unfolding est_io_get_multipart_response_def
  by (auto simp: Let_def bind_eq_Some_conv dest: status_result_ok' split: prod.splits if_splits option.splits)

section \<open>What is sent\<close>

lemma snprintf_start:
  assumes "length m = EST_HTTP_REQ_TOTAL_LEN" and "NUL \<notin> set s"
  shows "\<exists>m'. snprintf m 0 (int EST_HTTP_REQ_TOTAL_LEN) s = Some m' \<and> buf_text m' (take (EST_HTTP_REQ_TOTAL_LEN - 1) s)"
proof -
  define s' where "s' = take (EST_HTTP_REQ_TOTAL_LEN - 1) s"
  have len: "length s' + 1 \<le> length m" using assms(1) by (simp add: s'_def EST_HTTP_REQ_TOTAL_LEN_def)
  have pos: "int EST_HTTP_REQ_TOTAL_LEN > 0" by (simp add: EST_HTTP_REQ_TOTAL_LEN_def)
  have "snprintf m 0 (int EST_HTTP_REQ_TOTAL_LEN) s = Some (s' @ NUL # drop (length s' + 1) m)"
  proof -
    have n: "take (nat (int EST_HTTP_REQ_TOTAL_LEN) - 1) s = s'" by (simp add: s'_def)
    show ?thesis using len pos unfolding snprintf_def n by (simp add: wr_block_def)
  qed
  moreover have "NUL \<notin> set s'" using assms(2) by (auto simp: s'_def dest: in_set_takeD)
  ultimately show ?thesis
    using len assms(1) unfolding s'_def [symmetric] by (auto intro!: buf_textI [where r = "drop (length s' + 1) m"])
qed

lemma take_short: "length t \<le> n \<Longrightarrow> take n t = t"
  by simp

text \<open>A header that leaves room for the body is followed by exactly the body.\<close>

lemma request_bytes_text:
  assumes "buf_text buf t" and "length body \<le> EST_HTTP_REQ_DATA_MAX" and "length t + length body + 5 \<le> EST_HTTP_REQ_TOTAL_LEN"
  shows "request_bytes buf (length t) body = Some (t @ CRLF @ body @ CRLF)"
proof -
  obtain m1 where m1: "snprintf buf (length t) (int EST_HTTP_REQ_TOTAL_LEN - int (length t)) CRLF = Some m1"
    "buf_text m1 (t @ CRLF)"
    using snprintf_append [OF assms(1), of CRLF] assms(3) by (auto simp: take_short)
  obtain r where r: "m1 = (t @ CRLF) @ NUL # r" "length t + length r + 3 = EST_HTTP_REQ_TOTAL_LEN"
    by (rule buf_textE [OF m1(2)]) simp
  define k where "k = length t + 2"
  define m2 where "m2 = (t @ CRLF @ body) @ drop (length body) (NUL # r)"
  have len: "length body + 3 \<le> length r + 1" using r(2) assms(3) by simp
  have m2: "memcpy_at m1 k EST_HTTP_REQ_DATA_MAX body = Some m2"
    using assms(2) len r(1) by (simp add: memcpy_at_def wr_block_def m2_def k_def)
  have sz: "nat (int EST_HTTP_REQ_TOTAL_LEN - int (k + length body)) - 1 \<ge> 2" and
    pos: "int EST_HTTP_REQ_TOTAL_LEN - int (k + length body) > 0"
    using assms(3) by (simp_all add: k_def)
  define m3 where "m3 = (t @ CRLF @ body) @ CRLF @ NUL # drop (3 + length body) (NUL # r)"
  have m3: "snprintf m2 (k + length body) (int EST_HTTP_REQ_TOTAL_LEN - int (k + length body)) CRLF = Some m3"
  proof -
    have tk: "take (nat (int EST_HTTP_REQ_TOTAL_LEN - int (k + length body)) - 1) CRLF = CRLF"
      using sz by simp
    show ?thesis
      using pos len unfolding snprintf_def tk by (simp add: wr_block_def m2_def m3_def k_def)
  qed
  have "rd_block m3 0 (k + length body + 2) = Some (t @ CRLF @ body @ CRLF)"
    by (simp add: rd_block_def m3_def k_def)
  with m1(1) m2 m3 show ?thesis by (simp add: request_bytes_def k_def)
qed


text \<open>A client that is set up, and the world during a connection: OpenSSL works and memory has its size.\<close>

definition client_ready :: "CLIENT_ENV \<Rightarrow> EST_CLIENT \<Rightarrow> bool" where
  "client_ready env ctx \<longleftrightarrow> creds_ok ctx \<and> array_ok EST_MAX_SERVERNAME_LEN (est_server ctx)
     \<and> NUL \<notin> set (PACKAGE_STRING env) \<and> (case uri_path_segment ctx of None \<Rightarrow> True | Some seg \<Rightarrow> NUL \<notin> set seg)"

definition session_ready :: "CLIENT_ENV \<Rightarrow> SESSION \<Rightarrow> EST_CLIENT \<Rightarrow> bool" where
  "session_ready env s ctx \<longleftrightarrow> lib_ok (session_lib env s) \<and> stack_ok (ses_stack s) ctx
     \<and> length (ses_heap s) = EST_HTTP_REQ_TOTAL_LEN"

fun enroll_op_name :: "EST_OPERATION \<Rightarrow> string" where
  "enroll_op_name EST_OP_SIMPLE_REENROLL = ''simplereenroll''"
| "enroll_op_name EST_OP_SERVER_KEYGEN = ''serverkeygen''"
| "enroll_op_name _ = ''simpleenroll''"

definition enroll_op :: "EST_OPERATION \<Rightarrow> bool" where
  "enroll_op est_op \<longleftrightarrow> est_op = EST_OP_SIMPLE_ENROLL \<or> est_op = EST_OP_SIMPLE_REENROLL \<or> est_op = EST_OP_SERVER_KEYGEN"

definition enroll_base :: "CLIENT_ENV \<Rightarrow> EST_CLIENT \<Rightarrow> EST_OPERATION \<Rightarrow> nat \<Rightarrow> string" where
  "enroll_base env ctx est_op len =
     header_text env ctx ''POST'' (enroll_op_name est_op) (cstr (est_server ctx)) @ pkcs10_headers len"

definition enroll_auth :: "CLIENT_ENV \<Rightarrow> SESSION \<Rightarrow> EST_CLIENT \<Rightarrow> EST_OPERATION \<Rightarrow> string option" where
  "enroll_auth env s ctx est_op = auth_line (session_lib env s) ctx (EST_PATH_PREFIX @ ''/'' @ enroll_op_name est_op)"

lemma itoa_no_nul: "NUL \<notin> set (itoa n)"
proof -
  have "NUL \<notin> set (digits k)" for k using digits_all isdigit_facts by blast
  then show ?thesis by (simp add: itoa_def)
qed

lemma enroll_base_no_nul: "client_ready env ctx \<Longrightarrow> NUL \<notin> set (enroll_base env ctx est_op len)"
  by (cases est_op)
    (auto simp: enroll_base_def header_text_def request_uri_def pkcs10_headers_def client_ready_def EST_PATH_PREFIX_def itoa_no_nul
      split: option.splits)

lemma enroll_uri_ok: "NUL \<notin> set (EST_PATH_PREFIX @ ''/'' @ enroll_op_name est_op)"
  "length (EST_PATH_PREFIX @ ''/'' @ enroll_op_name est_op) \<le> MAX_REALM"
  by (cases est_op; simp add: EST_PATH_PREFIX_def MAX_REALM_def)+

text \<open>The header in the buffer.\<close>

lemma pkcs10_header_buf_text:
  assumes "client_ready env ctx" and "session_ready env s ctx"
  shows "\<exists>ctx' h. pkcs10_header_buf env s ctx (ses_heap s) len (enroll_op_name est_op) = Some (ctx', h) \<and> creds_ok ctx'
    \<and> (ctx' = ctx \<or> ctx' = ctx\<lparr>c_nonce := replicate (MAX_NONCE + 1) NUL\<rparr>)
    \<and> buf_text h (case enroll_auth env s ctx est_op of None \<Rightarrow> []
                  | Some a \<Rightarrow> take (EST_HTTP_REQ_TOTAL_LEN - 1) (enroll_base env ctx est_op len @ a))"
proof -
  let ?b = "enroll_base env ctx est_op len" and ?N = "EST_HTTP_REQ_TOTAL_LEN - 1"
  have heap: "length (ses_heap s) = EST_HTTP_REQ_TOTAL_LEN" using assms(2) by (simp add: session_ready_def)
  have host: "str_arg (est_server ctx) = Some (cstr (est_server ctx))"
    using assms(1) by (auto simp: client_ready_def dest: str_arg_array)
  obtain h0 where h0: "snprintf (ses_heap s) 0 (int EST_HTTP_REQ_TOTAL_LEN) ?b = Some h0" "buf_text h0 (take ?N ?b)"
    using snprintf_start [OF heap enroll_base_no_nul [OF assms(1)]] by blast
  have "creds_ok ctx" "stack_ok (ses_stack s) ctx" "lib_ok (session_lib env s)"
    using assms by (simp_all add: client_ready_def session_ready_def)
  from add_auth_hdr_text [OF this h0(2) enroll_uri_ok, of est_op]
  obtain ctx' h where "est_client_add_auth_hdr (session_lib env s) (ses_stack s) ctx h0 (EST_PATH_PREFIX @ ''/'' @ enroll_op_name est_op)
      = Some (ctx', h)" "creds_ok ctx'" "ctx' = ctx \<or> ctx' = ctx\<lparr>c_nonce := replicate (MAX_NONCE + 1) NUL\<rparr>"
    "buf_text h (case enroll_auth env s ctx est_op of None \<Rightarrow> [] | Some a \<Rightarrow> take ?N (take ?N ?b @ a))"
    unfolding enroll_auth_def by blast
  moreover have cut: "take n (take n x @ a) = take n (x @ a)" for n and x a :: string by (simp add: min_def)
  ultimately show ?thesis
    unfolding pkcs10_header_buf_def host cut [of ?N ?b] by (simp add: enroll_base_def [symmetric] h0(1))
qed


text \<open>The three header functions on a header that fits.\<close>

definition build_enroll :: "CLIENT_ENV \<Rightarrow> SESSION \<Rightarrow> EST_CLIENT \<Rightarrow> nat \<Rightarrow> EST_OPERATION \<Rightarrow> (nat \<times> EST_CLIENT \<times> mem) option" where
  "build_enroll env s ctx len est_op =
     (case est_op of
        EST_OP_SIMPLE_ENROLL \<Rightarrow> est_client_build_enroll_header env s ctx (ses_heap s) len
      | EST_OP_SIMPLE_REENROLL \<Rightarrow> est_client_build_reenroll_header env s ctx (ses_heap s) len
      | EST_OP_SERVER_KEYGEN \<Rightarrow> est_client_build_server_keygen_header env s ctx (ses_heap s) len
      | _ \<Rightarrow> Some (0, ctx, ses_heap s))"

lemma build_enroll_text:
  assumes "enroll_op est_op" and "pkcs10_header_buf env s ctx (ses_heap s) len (enroll_op_name est_op) = Some (ctx', h)"
    and "buf_text h t" and "length t \<le> EST_HTTP_HDR_MAX"
  shows "build_enroll env s ctx len est_op = Some (length t, ctx', h)"
proof -
  have "strnlen_s (Some h) EST_HTTP_REQ_TOTAL_LEN = length t" using assms(3) by (rule buf_text_len)
  moreover have "strnlen_s (Some h) (EST_HTTP_REQ_TOTAL_LEN + 1) = length t"
    using assms(3,4) by (auto simp: buf_text_def strnlen_s_def strnlen_def EST_HTTP_HDR_MAX_def EST_HTTP_REQ_TOTAL_LEN_def)
  moreover have "length t \<le> EST_HTTP_REQ_TOTAL_LEN" using assms(4) by (simp add: EST_HTTP_HDR_MAX_def EST_HTTP_REQ_TOTAL_LEN_def)
  ultimately show ?thesis
    using assms(1,2,4)
    by (auto simp: enroll_op_def build_enroll_def est_client_build_enroll_header_def est_client_build_reenroll_header_def
        est_client_build_server_keygen_header_def)
qed

lemma build_enroll_ready:
  assumes "enroll_op est_op" and "client_ready env ctx" and "session_ready env s ctx" and "enroll_auth env s ctx est_op = Some a"
    and "length (enroll_base env ctx est_op len @ a) \<le> EST_HTTP_HDR_MAX"
  shows "\<exists>ctx' h. build_enroll env s ctx len est_op = Some (length (enroll_base env ctx est_op len @ a), ctx', h)
    \<and> (ctx' = ctx \<or> ctx' = ctx\<lparr>c_nonce := replicate (MAX_NONCE + 1) NUL\<rparr>)
    \<and> buf_text h (enroll_base env ctx est_op len @ a)"
proof -
  let ?t = "enroll_base env ctx est_op len @ a"
  have "take (EST_HTTP_REQ_TOTAL_LEN - 1) ?t = ?t"
    using assms(5) by (intro take_short) (simp add: EST_HTTP_HDR_MAX_def EST_HTTP_REQ_TOTAL_LEN_def)
  with pkcs10_header_buf_text [OF assms(2,3), of len est_op] assms(4)
  obtain ctx' h where "pkcs10_header_buf env s ctx (ses_heap s) len (enroll_op_name est_op) = Some (ctx', h)"
    "ctx' = ctx \<or> ctx' = ctx\<lparr>c_nonce := replicate (MAX_NONCE + 1) NUL\<rparr>" "buf_text h ?t"
    by auto
  with build_enroll_text [OF assms(1) this(1,3) assms(5)] show ?thesis by blast
qed

section \<open>Where requests go\<close>

text \<open>
  A session whose peer is the configured server: TLS verified its certificate and the name in it matches. During
  one connection at most one request is handed to TLS, and what decides about the server does not change.
\<close>

definition settings :: "EST_CLIENT \<Rightarrow> mem \<times> int \<times> string option \<times> bool \<times> int \<times> int \<times> nat option \<times> nat option \<times> bool \<times> bool \<times> int" where
  "settings ctx = (est_server ctx, est_port_num ctx, uri_path_segment ctx, cl_enable_srp ctx, signing_digest ctx, cl_read_timeout ctx,
     client_cert ctx, client_key ctx, client_force_pop ctx, cl_brski_mode ctx, ssl_verify_mode ctx)"

definition verified :: "CLIENT_ENV \<Rightarrow> EST_CLIENT \<Rightarrow> SESSION \<Rightarrow> bool" where
  "verified env ctx s \<longleftrightarrow> ssl_connect_ok s
     \<and> est_client_check_fqdn (env_inet env) (cstr (est_server ctx)) (cl_enable_srp ctx) (server_peer s) = Some EST_ERR_NONE"

definition frame :: "EST_CLIENT \<Rightarrow> EST_CLIENT \<Rightarrow> bool" where
  "frame ctx ctx' \<longleftrightarrow> settings ctx' = settings ctx \<and> (creds_ok ctx \<longrightarrow> creds_ok ctx')"

lemma settings_upd [simp]:
  "settings (ctx\<lparr>io := x\<rparr>) = settings ctx" "settings (clear_status ctx) = settings ctx"
  "settings (ctx\<lparr>userid := u\<rparr>) = settings ctx" "settings (ctx\<lparr>password := u\<rparr>) = settings ctx" "settings (ctx\<lparr>c_nonce := u\<rparr>) = settings ctx"
  "settings (ctx\<lparr>retrieved_ca_certs := r\<rparr>) = settings ctx" "settings (ctx\<lparr>retrieved_csrattrs := ra\<rparr>) = settings ctx"
  "settings (ctx\<lparr>enrolled_client_cert := ec\<rparr>) = settings ctx" "settings (ctx\<lparr>server_gen_client_priv_key := gk\<rparr>) = settings ctx"
  "settings (ctx\<lparr>csr_pop_required := pr\<rparr>) = settings ctx" "settings (ctx\<lparr>cl_initialized := ci\<rparr>) = settings ctx"
  "settings (ctx\<lparr>trusted_certs := tc\<rparr>) = settings ctx"
  by (simp_all add: settings_def clear_status_def)

lemma settings_server: "settings a = settings b \<Longrightarrow> est_server a = est_server b \<and> cl_enable_srp a = cl_enable_srp b"
  by (simp add: settings_def)

definition one_request :: "SESSION \<Rightarrow> NET \<Rightarrow> NET \<Rightarrow> bool" where
  "one_request s net net' \<longleftrightarrow> sessions net' = sessions net \<and> (sent net' = sent net \<or> (\<exists>b. sent net' = sent net @ [(s, b)]))"

lemma frame_refl [simp]: "frame ctx ctx"
  by (simp add: frame_def)

lemma frame_trans: "frame a b \<Longrightarrow> frame b c \<Longrightarrow> frame a c"
  by (simp add: frame_def)

lemma verified_same: "frame ctx ctx' \<Longrightarrow> verified env ctx' s = verified env ctx s"
  using settings_server [of ctx' ctx] by (simp add: frame_def verified_def)

lemma creds_ok_upd [simp]:
  "creds_ok (clear_status ctx) = creds_ok ctx" "creds_ok (ctx\<lparr>retrieved_ca_certs := r\<rparr>) = creds_ok ctx"
  "creds_ok (ctx\<lparr>enrolled_client_cert := ec\<rparr>) = creds_ok ctx" "creds_ok (ctx\<lparr>server_gen_client_priv_key := gk\<rparr>) = creds_ok ctx"
  "creds_ok (ctx\<lparr>retrieved_csrattrs := ra\<rparr>) = creds_ok ctx" "creds_ok (ctx\<lparr>csr_pop_required := pr\<rparr>) = creds_ok ctx"
  "creds_ok (ctx\<lparr>cl_initialized := ci\<rparr>) = creds_ok ctx" "creds_ok (ctx\<lparr>trusted_certs := tc\<rparr>) = creds_ok ctx"
  by (simp_all add: creds_ok_def clear_status_def)

lemma frame_upd [simp]:
  "frame ctx (clear_status ctx') = frame ctx ctx'" "frame (clear_status ctx) ctx' = frame ctx ctx'"
  "frame ctx (ctx'\<lparr>retrieved_ca_certs := r\<rparr>) = frame ctx ctx'"
  "frame ctx (ctx'\<lparr>enrolled_client_cert := ec\<rparr>) = frame ctx ctx'" "frame ctx (ctx'\<lparr>server_gen_client_priv_key := gk\<rparr>) = frame ctx ctx'"
  "frame ctx (ctx'\<lparr>retrieved_csrattrs := ra\<rparr>) = frame ctx ctx'" "frame ctx (ctx'\<lparr>csr_pop_required := pr\<rparr>) = frame ctx ctx'"
  "frame ctx (ctx'\<lparr>cl_initialized := ci\<rparr>) = frame ctx ctx'" "frame ctx (ctx'\<lparr>trusted_certs := tc\<rparr>) = frame ctx ctx'"
  "frame (ctx\<lparr>retrieved_csrattrs := ra\<rparr>) ctx' = frame ctx ctx'"
  by (simp_all add: frame_def)

lemma frame_io: "(client_ok (io ctx) \<Longrightarrow> client_ok c) \<Longrightarrow> frame ctx (ctx\<lparr>io := c\<rparr>)"
  by (simp add: frame_def creds_ok_def)

lemma one_request_refl [simp]: "one_request s net net"
  by (simp add: one_request_def)

lemma est_client_connect_session:
  assumes "est_client_connect env ctx net = Some (rc, so, net')"
  shows "sent net' = sent net \<and> (\<exists>used. sessions net = used @ sessions net' \<and> length used \<le> 1
    \<and> (case so of None \<Rightarrow> rc \<noteq> EST_ERR_NONE | Some s \<Rightarrow> rc = EST_ERR_NONE \<and> used = [s] \<and> verified env ctx s))"
proof (cases "sessions net")
  case Nil
  with assms show ?thesis by (auto simp: est_client_connect_def)
next
  case (Cons s ss)
  with assms have "net' = net\<lparr>sessions := ss\<rparr>"
    and "(case so of None \<Rightarrow> rc \<noteq> EST_ERR_NONE | Some t \<Rightarrow> rc = EST_ERR_NONE \<and> t = s \<and> verified env ctx s)"
    by (auto simp: est_client_connect_def Let_def verified_def bind_eq_Some_conv split: if_splits)
  with Cons show ?thesis by (intro conjI exI [of _ "[s]"]) (auto split: option.splits)
qed

lemma ssl_exchange_request: "ssl_exchange s net b = (a, net') \<Longrightarrow> one_request s net net'"
  by (auto simp: ssl_exchange_def one_request_def Let_def split: if_splits)

lemma zero_if_set_array: "array_ok n m \<Longrightarrow> array_ok n (zero_if_set m)"
  by (auto simp: zero_if_set_def array_ok_def nth_Cons')

definition same_but_creds :: "EST_CLIENT \<Rightarrow> EST_CLIENT \<Rightarrow> bool" where
  "same_but_creds ctx ctx' \<longleftrightarrow> settings ctx' = settings ctx \<and> io ctx' = io ctx
     \<and> c_nonce ctx' = c_nonce ctx \<and> (array_ok MAX_UIDPWD (userid ctx) \<longrightarrow> array_ok MAX_UIDPWD (userid ctx'))
     \<and> (array_ok MAX_UIDPWD (password ctx) \<longrightarrow> array_ok MAX_UIDPWD (password ctx'))"

lemma same_but_creds_frame: "same_but_creds ctx ctx' \<Longrightarrow> frame ctx ctx'"
  by (simp add: same_but_creds_def frame_def creds_ok_def)

lemma retrieve_credentials_frame:
  "est_client_retrieve_credentials ctx m u p = Some (ctx', u', p') \<Longrightarrow> same_but_creds ctx ctx'"
  by (auto simp: est_client_retrieve_credentials_def Let_def bind_eq_Some_conv same_but_creds_def zero_if_set_array)

lemma digest_credentials_frame: "digest_credentials st ctx = Some (ctx', u', p') \<Longrightarrow> same_but_creds ctx ctx'"
  unfolding digest_credentials_def
  by (auto simp: bind_eq_Some_conv same_but_creds_def dest: retrieve_credentials_frame [unfolded same_but_creds_def] split: if_splits)

lemma digest_auth_hdr_cases:
  assumes "digest_auth_hdr lib st ctx h n u = Some (ctx', h')"
  obtains "ctx' = ctx"
  | cn ctx1 ub pb z rc where "length cn = length (c_nonce ctx)" "digest_credentials st (ctx\<lparr>c_nonce := cn\<rparr>) = Some (ctx1, ub, pb)"
      "memzero_s (Some cn) (MAX_NONCE + 1) = Some (Some z, rc)" "ctx' = ctx1\<lparr>c_nonce := z\<rparr>"
proof (cases "RAND_bytes lib")
  case None
  with assms that(1) show ?thesis by (auto simp: digest_auth_hdr_def bind_eq_Some_conv)
next
  case (Some r)
  obtain cn ctx1 ub pb where c: "wr_block (c_nonce ctx) 0 (est_hex_to_str r @ [NUL]) = Some cn"
    "digest_credentials st (ctx\<lparr>c_nonce := cn\<rparr>) = Some (ctx1, ub, pb)"
    using assms Some by (auto simp: digest_auth_hdr_def bind_eq_Some_conv)
  have "\<exists>z rc. memzero_s (Some cn) (MAX_NONCE + 1) = Some (Some z, rc) \<and> ctx' = ctx1\<lparr>c_nonce := z\<rparr>"
    using assms Some c
    by (cases "est_client_generate_auth_digest lib ctx1 u ub pb") (fastforce simp: digest_auth_hdr_def bind_eq_Some_conv)+
  with c that(2) [of cn ctx1 ub pb] wr_block_length show ?thesis by metis
qed

lemma digest_auth_hdr_frame:
  assumes "digest_auth_hdr lib st ctx h n u = Some (ctx', h')"
  shows "frame ctx ctx'"
  using assms
proof (cases rule: digest_auth_hdr_cases)
  case (2 cn ctx1 ub pb z rc)
  note f = digest_credentials_frame [OF 2(2)]
  have "creds_ok ctx'" if ok: "creds_ok ctx"
  proof -
    have len: "length cn = MAX_NONCE + 1" using ok 2(1) by (simp add: creds_ok_def array_ok_def)
    have z: "z = replicate (MAX_NONCE + 1) NUL" using memzero_all [OF len] 2(3) by simp
    have "creds_ok (ctx1\<lparr>c_nonce := z\<rparr>)"
      using ok f replicate_array_ok [of MAX_NONCE] unfolding z by (simp add: same_but_creds_def creds_ok_def)
    with 2(4) show ?thesis by simp
  qed
  with f 2(4) show ?thesis by (simp add: frame_def same_but_creds_def)
qed simp

lemma add_auth_hdr_server: "est_client_add_auth_hdr lib st ctx h u = Some (ctx', h') \<Longrightarrow> frame ctx ctx'"
  unfolding est_client_add_auth_hdr_def Let_def basic_auth_hdr_def token_auth_hdr_def
  by (auto simp: bind_eq_Some_conv dest: digest_auth_hdr_frame retrieve_credentials_frame same_but_creds_frame
      split: EST_HTTP_AUTH_MODE.splits option.splits if_splits)

lemma enroll_response_server: "enroll_response est_op c a = Some (c', x) \<Longrightarrow> frame c c'"
  by (auto simp: enroll_response_def bind_eq_Some_conv Let_def case_prod_beta intro!: frame_io
      dest: get_response_ok get_multipart_response_ok split: if_splits)

lemma send_enroll_effect:
  assumes "est_client_send_enroll_request_internal env s ctx net b est_op = Some (rv, ctx', net', cert, key)"
  shows "frame ctx ctx' \<and> one_request s net net'"
proof -
  obtain n ctx1 buf where h: "build_enroll env s ctx (length b) est_op = Some (n, ctx1, buf)"
    using assms by (auto simp: est_client_send_enroll_request_internal_def build_enroll_def [symmetric] bind_eq_Some_conv)
  have s1: "frame ctx ctx1"
    using h unfolding build_enroll_def est_client_build_enroll_header_def est_client_build_reenroll_header_def
      est_client_build_server_keygen_header_def pkcs10_header_buf_def
    by (auto simp: bind_eq_Some_conv Let_def dest: add_auth_hdr_server split: EST_OPERATION.splits)
  show ?thesis
  proof (cases "n = 0")
    case True
    with assms h s1 show ?thesis
      by (simp add: est_client_send_enroll_request_internal_def build_enroll_def [symmetric])
  next
    case False
    obtain bs where bs: "request_bytes buf n b = Some bs"
      using assms h False by (auto simp: est_client_send_enroll_request_internal_def build_enroll_def [symmetric] bind_eq_Some_conv)
    obtain a net1 where x: "ssl_exchange s net bs = (a, net1)" by fastforce
    have "net' = net1 \<and> frame ctx1 ctx'"
      using assms h False bs x
      by (cases a) (auto simp: est_client_send_enroll_request_internal_def build_enroll_def [symmetric] bind_eq_Some_conv
          dest!: enroll_response_server)
    with s1 ssl_exchange_request [OF x] show ?thesis using frame_trans by blast
  qed
qed

lemma response_frame:
  assumes "est_io_get_response (io (clear_status ctx)) rs pk op = Some (rv, c, r)"
  shows "frame ctx (ctx\<lparr>io := c\<rparr>)"
  using get_response_ok [OF assms] by (intro frame_io) (simp add: clear_status_def)

lemma send_csrattrs_effect:
  assumes "est_client_send_csrattrs_request env s ctx net = Some (rv, ctx', net', r)"
  shows "frame ctx ctx' \<and> one_request s net net'"
proof -
  obtain n ctx1 buf where h: "est_client_build_csr_header env s ctx (ses_heap s) = Some (n, ctx1, buf)"
    using assms by (auto simp: est_client_send_csrattrs_request_def bind_eq_Some_conv)
  have s1: "frame ctx ctx1"
    using h by (auto simp: est_client_build_csr_header_def bind_eq_Some_conv Let_def dest: add_auth_hdr_server)
  show ?thesis
  proof (cases "n = 0")
    case True
    with assms h s1 show ?thesis by (simp add: est_client_send_csrattrs_request_def)
  next
    case False
    obtain bs where bs: "request_bytes buf n [] = Some bs"
      using assms h False by (auto simp: est_client_send_csrattrs_request_def bind_eq_Some_conv)
    obtain a net1 where x: "ssl_exchange s net bs = (a, net1)" by fastforce
    have "net' = net1 \<and> frame ctx ctx'"
    proof (cases a)
      case None
      with assms h False bs x s1 show ?thesis by (auto simp: est_client_send_csrattrs_request_def)
    next
      case (Some ans)
      then obtain rv1 c q where r: "est_io_get_response (io (clear_status ctx1)) (fst ans) (snd ans) EST_OP_CSRATTRS = Some (rv1, c, q)"
        using assms h False bs x by (auto simp: est_client_send_csrattrs_request_def bind_eq_Some_conv)
      from r have "ctx' = ctx1\<lparr>io := c\<rparr> \<and> net' = net1"
        using assms unfolding est_client_send_csrattrs_request_def h bind.simps prod.case bs x Some option.case
        using False by (simp only: if_False bind.simps prod.case option.inject prod.inject)
      with s1 response_frame [OF r] show ?thesis using frame_trans by simp
    qed
    with ssl_exchange_request [OF x] show ?thesis by blast
  qed
qed

lemma store_cacerts_server:
  assumes "store_cacerts env c b = Some (rv, c', n)"
  shows "frame c c'"
proof -
  consider "b = [] \<or> length b + 1 > EST_CA_MAX" | "b \<noteq> []" "\<not> length b + 1 > EST_CA_MAX" by blast
  then show ?thesis
  proof cases
    case 1
    with assms show ?thesis unfolding store_cacerts_def by (cases "b = []") auto
  next
    case 2
    with assms obtain rv1 buf len where v: "verify_cacert_resp (env_p7 env) (b @ [NUL]) (length b) = Some (rv1, buf, len)"
      unfolding store_cacerts_def by (auto simp: bind_eq_Some_conv simp del: length_append)
    show ?thesis
      using assms 2 unfolding store_cacerts_def v bind.simps prod.case by (cases "rv1 = EST_ERR_NONE") auto
  qed
qed

lemma send_cacerts_effect:
  assumes "est_client_send_cacerts_request env s ctx net = Some (rv, ctx', net', len)"
  shows "frame ctx ctx' \<and> one_request s net net'"
proof -
  obtain n buf where h: "est_client_build_cacerts_header env ctx (ses_heap s) = Some (n, buf)"
    using assms by (auto simp: est_client_send_cacerts_request_def bind_eq_Some_conv)
  show ?thesis
  proof (cases "n = 0")
    case True
    with assms h show ?thesis by (simp add: est_client_send_cacerts_request_def)
  next
    case False
    obtain bs where bs: "request_bytes buf n [] = Some bs"
      using assms h False by (auto simp: est_client_send_cacerts_request_def bind_eq_Some_conv)
    obtain a net1 where x: "ssl_exchange s net bs = (a, net1)" by fastforce
    have "net' = net1 \<and> frame ctx ctx'"
    proof (cases a)
      case None
      with assms h False bs x show ?thesis by (auto simp: est_client_send_cacerts_request_def)
    next
      case (Some ans)
      then obtain rv1 c r where r: "est_io_get_response (io (clear_status ctx)) (fst ans) (snd ans) EST_OP_CACERTS = Some (rv1, c, r)"
        using assms h False bs x by (auto simp: est_client_send_cacerts_request_def bind_eq_Some_conv)
      show ?thesis
        using assms h False bs x Some r
        by (cases "rv1 = EST_ERR_NONE")
          (auto simp: est_client_send_cacerts_request_def bind_eq_Some_conv response_frame [OF r]
              dest!: store_cacerts_server intro: frame_trans [OF response_frame [OF r]])
    qed
    with ssl_exchange_request [OF x] show ?thesis by blast
  qed
qed

section \<open>Properties\<close>

lemma send_enroll_sends:
  assumes "enroll_op est_op" and "client_ready env ctx" and "session_ready env s ctx"
    and "length pkcs10 \<le> EST_HTTP_REQ_DATA_MAX"
    and "length (enroll_base env ctx est_op (length pkcs10) @ the_bytes (enroll_auth env s ctx est_op)) \<le> EST_HTTP_HDR_MAX"
  shows "\<exists>ctx'. (ctx' = ctx \<or> ctx' = ctx\<lparr>c_nonce := replicate (MAX_NONCE + 1) NUL\<rparr>)
    \<and> est_client_send_enroll_request_internal env s ctx net pkcs10 est_op =
      (case enroll_auth env s ctx est_op of
         None \<Rightarrow> Some (EST_ERR_HTTP_CANNOT_BUILD_HEADER, ctx', net, [], [])
       | Some a \<Rightarrow>
          (case ssl_exchange s net (enroll_base env ctx est_op (length pkcs10) @ a @ CRLF @ pkcs10 @ CRLF) of
             (None, net1) \<Rightarrow> Some (EST_ERR_SSL_WRITE, clear_status ctx', net1, [], [])
           | (Some answer, net1) \<Rightarrow>
               do { (ctx2, rv, cert, key) \<leftarrow> enroll_response est_op (clear_status ctx') answer;
                    Some (rv, ctx2, net1, cert, key) }))"
proof (cases "enroll_auth env s ctx est_op")
  case None
  with pkcs10_header_buf_text [OF assms(2,3), of "length pkcs10" est_op]
  obtain ctx' h where h: "pkcs10_header_buf env s ctx (ses_heap s) (length pkcs10) (enroll_op_name est_op) = Some (ctx', h)"
    "ctx' = ctx \<or> ctx' = ctx\<lparr>c_nonce := replicate (MAX_NONCE + 1) NUL\<rparr>" "buf_text h []"
    by auto
  with build_enroll_text [OF assms(1) h(1,3)] None show ?thesis
    by (auto simp: est_client_send_enroll_request_internal_def build_enroll_def [symmetric])
next
  case (Some a)
  define t where "t = enroll_base env ctx est_op (length pkcs10) @ a"
  have len: "length t \<le> EST_HTTP_HDR_MAX" using assms(5) Some by (simp add: the_bytes_def t_def)
  obtain ctx' h where h: "build_enroll env s ctx (length pkcs10) est_op = Some (length t, ctx', h)"
    "ctx' = ctx \<or> ctx' = ctx\<lparr>c_nonce := replicate (MAX_NONCE + 1) NUL\<rparr>" "buf_text h t"
    using build_enroll_ready [OF assms(1-3) Some len [unfolded t_def]] unfolding t_def by blast
  have ne: "length t \<noteq> 0" by (simp add: t_def enroll_base_def header_text_def)
  have "request_bytes h (length t) pkcs10 = Some (t @ CRLF @ pkcs10 @ CRLF)"
    using assms(4) len by (intro request_bytes_text [OF h(3)])
      (simp_all add: EST_HTTP_HDR_MAX_def EST_HTTP_REQ_DATA_MAX_def EST_HTTP_REQ_TOTAL_LEN_def)
  then have "est_client_send_enroll_request_internal env s ctx net pkcs10 est_op =
      (case ssl_exchange s net (t @ CRLF @ pkcs10 @ CRLF) of
         (None, net1) \<Rightarrow> Some (EST_ERR_SSL_WRITE, clear_status ctx', net1, [], [])
       | (Some answer, net1) \<Rightarrow> do { (ctx2, rv, cert, key) \<leftarrow> enroll_response est_op (clear_status ctx') answer;
            Some (rv, ctx2, net1, cert, key) })"
    unfolding est_client_send_enroll_request_internal_def build_enroll_def [symmetric] h(1) bind.simps prod.case
    using ne by (simp only: if_False bind.simps)
  with h(2) Some show ?thesis by (auto simp: t_def)
qed

text \<open>C24: the bytes handed to TLS for an enrollment, re-enrollment or key generation are exactly the request: the
  request line for the configured server and path segment, the headers with the length of the PKCS10 text, the line
  the authentication mode asks for, the PKCS10 text; and the client then returns what the reader of responses makes of
  the server's answer to these bytes. When the credentials cannot be computed nothing is sent.\<close>

theorem est_client_send_enroll_request_sends:
  assumes "enroll_op est_op" and "client_ready env ctx" and "session_ready env s ctx"
    and "length pkcs10 \<le> EST_HTTP_REQ_DATA_MAX"
    and "length (enroll_base env ctx est_op (length pkcs10) @ the_bytes (enroll_auth env s ctx est_op)) \<le> EST_HTTP_HDR_MAX"
  shows "\<exists>ctx'. (ctx' = ctx \<or> ctx' = ctx\<lparr>c_nonce := replicate (MAX_NONCE + 1) NUL\<rparr>)
    \<and> est_client_send_enroll_request_internal env s ctx net pkcs10 est_op =
      (case enroll_auth env s ctx est_op of
         None \<Rightarrow> Some (EST_ERR_HTTP_CANNOT_BUILD_HEADER, ctx', net, [], [])
       | Some a \<Rightarrow>
          (case ssl_exchange s net (enroll_base env ctx est_op (length pkcs10) @ a @ CRLF @ pkcs10 @ CRLF) of
             (None, net1) \<Rightarrow> Some (EST_ERR_SSL_WRITE, clear_status ctx', net1, [], [])
           | (Some answer, net1) \<Rightarrow>
               do { (ctx2, rv, cert, key) \<leftarrow> enroll_response est_op (clear_status ctx') answer;
                    Some (rv, ctx2, net1, cert, key) }))"
  using assms by (rule send_enroll_sends)

text \<open>C27: a PKCS10 text that is larger than the request buffer makes the client write outside of it, for every kind
  of enrollment: the copy of the text is bounded and does nothing, but its length moves the position of the final
  line end past the end of the buffer, where the bound has become negative.\<close>

theorem est_client_send_enroll_request_overflow:
  assumes "enroll_op est_op" and "client_ready env ctx" and "session_ready env s ctx" and "enroll_auth env s ctx est_op = Some a"
    and "length (enroll_base env ctx est_op (length pkcs10) @ a) \<le> EST_HTTP_HDR_MAX"
    and "EST_HTTP_REQ_TOTAL_LEN \<le> length pkcs10"
  shows "est_client_send_enroll_request_internal env s ctx net pkcs10 est_op = None"
proof -
  define t where "t = enroll_base env ctx est_op (length pkcs10) @ a"
  obtain ctx' h where h: "build_enroll env s ctx (length pkcs10) est_op = Some (length t, ctx', h)" "buf_text h t"
    using build_enroll_ready [OF assms(1-5)] unfolding t_def by blast
  have ne: "length t \<noteq> 0" by (simp add: t_def enroll_base_def header_text_def)
  have "request_bytes h (length t) pkcs10 = None"
  proof (cases "snprintf h (length t) (int EST_HTTP_REQ_TOTAL_LEN - int (length t)) CRLF")
    case (Some b1)
    then have len: "length b1 = EST_HTTP_REQ_TOTAL_LEN"
      using h(2) by (auto simp: snprintf_def buf_text_def dest: wr_block_length split: if_splits)
    have "length pkcs10 > EST_HTTP_REQ_DATA_MAX"
      using assms(6) by (simp add: EST_HTTP_REQ_DATA_MAX_def EST_HTTP_REQ_TOTAL_LEN_def)
    moreover have "snprintf b1 (length t + 2 + length pkcs10) (int EST_HTTP_REQ_TOTAL_LEN - int (length t + 2 + length pkcs10)) CRLF = None"
      using len assms(6) by (simp add: snprintf_def wr_block_def)
    ultimately show ?thesis using Some by (simp add: request_bytes_def memcpy_at_def)
  qed (simp add: request_bytes_def)
  then show ?thesis
    unfolding est_client_send_enroll_request_internal_def build_enroll_def [symmetric] h(1) bind.simps prod.case
    using ne by (simp only: if_False bind.simps)
qed


text \<open>A client with Basic credentials, and a connection whose \<^verbatim>\<open>SSL_write\<close> fails after the request was handed over.\<close>

definition sample_env :: CLIENT_ENV where
  "sample_env = \<lparr>env_lib = sample_lib, env_ossl = sample_ossl, env_p7 = sample_p7_ossl [], env_asn1 = der_asn1,
     env_inet = sample_net, PACKAGE_STRING = ''est'', FIPS_mode = False\<rparr>"

definition sample_basic_client :: EST_CLIENT where
  "sample_basic_client = sample_digest_client\<lparr>io := sample_client\<lparr>cl_auth_mode := AUTH_BASIC\<rparr>\<rparr>"

definition sample_session :: SESSION where
  "sample_session = \<lparr>tcw_result = TCW_OK, sock_ok = True, ssl_new_ok = True, ssl_connect_ok = True,
     server_peer = Some \<lparr>altnames = Some [GEN_DNS ''h''], common_names = []\<rparr>, ses_ssl = sample_ssl,
     ses_random = Some (replicate 8 CHR ''a''), ses_heap = replicate EST_HTTP_REQ_TOTAL_LEN NUL, ses_stack = sample_stack,
     write_result = -1, peer_answer = \<lambda>_. ([], False)\<rparr>"

lemma sample_ready:
  "client_ready sample_env sample_basic_client" "session_ready sample_env sample_session sample_basic_client"
proof -
  have "creds_ok sample_basic_client"
    using sample_digest_ok(1) replicate_array_ok [of MAX_REALM] replicate_array_ok [of MAX_NONCE]
      replicate_array_ok [of MAX_TOKEN_ERROR] replicate_array_ok [of MAX_TOKEN_ERROR_DESC]
    unfolding creds_ok_def sample_basic_client_def client_ok_def sample_digest_client_def sample_client_def
    by (simp del: replicate.simps replicate_Suc)
  then show "client_ready sample_env sample_basic_client"
    by (simp add: client_ready_def sample_env_def sample_basic_client_def sample_digest_client_def EST_MAX_SERVERNAME_LEN_def array_ok_one)
  show "session_ready sample_env sample_session sample_basic_client"
    using sample_digest_ok(2) sample_lib_ok
    by (simp add: session_ready_def session_lib_def sample_env_def sample_session_def sample_basic_client_def stack_ok_def lib_ok_def
        sample_lib_def sample_digest_client_def)
qed

lemma sample_auth: "enroll_auth sample_env sample_session sample_basic_client op = Some (''Authorization: Basic AAAA'' @ [CR, LF])"
proof -
  have "credentials sample_basic_client AUTH_BASIC = (''u'', ''p'')"
    by (simp add: sample_basic_client_def sample_digest_client_def credentials_def configured_def cstr_one MAX_UIDPWD_def)
  moreover have "bio_write (session_lib sample_env sample_session) True (''u'' @ '':'' @ ''p'') = ''AAAA''"
  proof -
    have "replicate 4 CHR ''A'' = ''AAAA''" by code_simp
    then show ?thesis by (simp add: session_lib_def sample_env_def sample_lib_def)
  qed
  moreover have "cl_auth_mode (io sample_basic_client) = AUTH_BASIC" by (simp add: sample_basic_client_def)
  ultimately show ?thesis by (simp add: enroll_auth_def auth_line_def)
qed

definition sample_request :: "nat \<Rightarrow> string" where
  "sample_request len = ''POST /.well-known/est/simpleenroll HTTP/1.1'' @ CRLF @ ''User-Agent: est'' @ CRLF @ ''Connection: close'' @ CRLF
     @ ''Host: h:8085'' @ CRLF @ ''Accept: */*'' @ CRLF @ ''Content-Type: application/pkcs10'' @ CRLF
     @ ''Content-Length: '' @ itoa (int len) @ CRLF"

lemma sample_base: "enroll_base sample_env sample_basic_client EST_OP_SIMPLE_ENROLL len = sample_request len"
proof -
  have "cstr (est_server sample_basic_client) = ''h''" "est_port_num sample_basic_client = 8085"
    "uri_path_segment sample_basic_client = None" "PACKAGE_STRING sample_env = ''est''"
    by (simp_all add: sample_basic_client_def sample_digest_client_def cstr_one sample_env_def)
  moreover have "itoa 8085 = ''8085''" by (simp add: itoa_def digits.simps char_of_def bit_0)
  ultimately show ?thesis
    by (simp add: enroll_base_def header_text_def request_uri_def pkcs10_headers_def EST_PATH_PREFIX_def sample_request_def)
qed

theorem est_client_send_enroll_request_sends_witness:
  "\<exists>ctx'. est_client_send_enroll_request_internal sample_env sample_session sample_basic_client \<lparr>sessions = [], sent = []\<rparr> ''csr''
       EST_OP_SIMPLE_ENROLL
     = Some (EST_ERR_SSL_WRITE, ctx', \<lparr>sessions = [], sent = [(sample_session,
         sample_request 3 @ ''Authorization: Basic AAAA'' @ CRLF @ CRLF @ ''csr'' @ CRLF)]\<rparr>, [], [])"
proof -
  define pk where "pk = ''csr''"
  have "itoa 3 = ''3''" by code_simp
  then have "length (sample_request 3) \<le> 500" by (simp add: sample_request_def)
  moreover have "write_result sample_session = -1" by (simp add: sample_session_def)
  moreover have "length pk = 3" by (simp add: pk_def)
  ultimately show ?thesis
    using est_client_send_enroll_request_sends [OF _ sample_ready, of EST_OP_SIMPLE_ENROLL pk "\<lparr>sessions = [], sent = []\<rparr>"]
    unfolding sample_auth sample_base pk_def [symmetric] CRLF_def
    by (auto simp: enroll_op_def the_bytes_def EST_HTTP_REQ_DATA_MAX_def EST_HTTP_HDR_MAX_def ssl_exchange_def)
qed

theorem est_client_send_enroll_request_overflow_witness:
  "est_client_send_enroll_request_internal sample_env sample_session sample_basic_client \<lparr>sessions = [], sent = []\<rparr>
     (replicate EST_HTTP_REQ_TOTAL_LEN CHR ''x'') EST_OP_SIMPLE_ENROLL = None"
proof -
  have "itoa 5125 = ''5125''" by (simp add: itoa_def digits.simps char_of_def bit_0)
  then have "length (sample_request EST_HTTP_REQ_TOTAL_LEN) \<le> 500" by (simp add: sample_request_def EST_HTTP_REQ_TOTAL_LEN_def)
  then show ?thesis
    by (intro est_client_send_enroll_request_overflow [OF _ sample_ready sample_auth])
      (simp_all add: sample_base enroll_op_def EST_HTTP_HDR_MAX_def)
qed

end
