(* ===== verification/Client_Ops.thy ===== *)
theory Client_Ops
  imports Client_Request "HOL-Library.Sublist"
begin

text \<open>
  The operations of the client, \<^verbatim>\<open>src/src/est/est_client.c\<close>: enrolling with a common name or a certificate request,
  re-enrolling a certificate, server key generation, the CA certificates and the CSR attributes, provisioning, and the
  retrieval of what was obtained. Every operation connects, sends its request, and after a challenge of the server
  connects and sends once more with credentials. The context pointer is never NULL here, and allocation succeeds.
  An outer \<^term>\<open>None\<close> is behaviour the C program does not define.
\<close>

section \<open>Certificate requests\<close>

text \<open>
  A request as the client manipulates it: the attributes are pairs of a NID and a value. Signing records key and
  digest. OpenSSL's functions on it are \<^verbatim>\<open>X509_REQ_get_attr_by_NID\<close> (the first index), \<^verbatim>\<open>X509_REQ_delete_attr\<close>,
  \<^verbatim>\<open>X509_REQ_add1_attr_by_NID\<close> (at the end); whether they fail is a parameter, like everything else the client asks
  OpenSSL about keys and certificates.
\<close>

record CSR =
  csr_subject :: string
  csr_pubkey :: "nat option"
  csr_attrs :: "(int \<times> string) list"
  csr_signed :: "(nat \<times> int) option"

record CSR_LIB =
  set_version_ok :: bool
  add_CN_ok :: "string \<Rightarrow> bool"
  add_attr_ok :: "string \<Rightarrow> bool"
  set_pubkey_ok :: "nat \<Rightarrow> bool"
  sign_ok :: "CSR \<Rightarrow> nat \<Rightarrow> int \<Rightarrow> bool"
  i2d_b64 :: "CSR \<Rightarrow> string"
  cert_has_signature :: "nat \<Rightarrow> bool"
  check_private_key :: "nat \<Rightarrow> nat \<Rightarrow> int"
  X509_to_X509_REQ :: "nat \<Rightarrow> CSR option"
  ext_count :: "nat \<Rightarrow> nat"
  add_extensions :: "CSR \<Rightarrow> nat \<Rightarrow> CSR option"
  d2i_PKCS7 :: "string \<Rightarrow> PKCS7 option"
  d2i_PrivateKey :: "string \<Rightarrow> nat option"
  use_certificate :: "nat \<Rightarrow> bool"
  use_PrivateKey :: "nat \<Rightarrow> bool"
  key_matches_cert :: "nat \<Rightarrow> nat \<Rightarrow> bool"
  PEM_cert :: "nat \<Rightarrow> string"

definition NID_pkcs9_challengePassword :: int where "NID_pkcs9_challengePassword = 54"

definition est_client_check_x509 :: "CSR_LIB \<Rightarrow> nat \<Rightarrow> EST_ERROR" where
  "est_client_check_x509 cl cert = (if cert_has_signature cl cert then EST_ERR_NONE else EST_ERR_BAD_X509)"

fun first_attr :: "int \<Rightarrow> (int \<times> string) list \<Rightarrow> nat option" where
  "first_attr n [] = None"
| "first_attr n (a # as) = (if fst a = n then Some 0 else map_option Suc (first_attr n as))"

lemma first_attr_less: "first_attr n as = Some k \<Longrightarrow> k < length as"
  by (induction as arbitrary: k) (auto split: if_splits)

function clear_attr :: "int \<Rightarrow> (int \<times> string) list \<Rightarrow> (int \<times> string) list" where
  "clear_attr n as =
     (case first_attr n as of None \<Rightarrow> as | Some pos \<Rightarrow> clear_attr n (take pos as @ drop (Suc pos) as))"
  by pat_completeness auto
termination
  by (relation "measure (\<lambda>(n, as). length as)") (auto dest: first_attr_less)

declare clear_attr.simps [simp del]

definition est_client_clear_csr_pop :: "CSR \<Rightarrow> CSR" where
  "est_client_clear_csr_pop csr = csr\<lparr>csr_attrs := clear_attr NID_pkcs9_challengePassword (csr_attrs csr)\<rparr>"

definition add_pop :: "CSR \<Rightarrow> string \<Rightarrow> CSR" where
  "add_pop csr cp = csr\<lparr>csr_attrs := csr_attrs csr @ [(NID_pkcs9_challengePassword, cp)]\<rparr>"

definition pop_wanted :: "EST_CLIENT \<Rightarrow> bool" where
  "pop_wanted ctx \<longleftrightarrow> csr_pop_required ctx \<or> client_force_pop ctx"

definition populate_x509_request :: "CSR_LIB \<Rightarrow> EST_CLIENT \<Rightarrow> CSR \<Rightarrow> nat \<Rightarrow> string \<Rightarrow> string \<Rightarrow> EST_ERROR + CSR" where
  "populate_x509_request cl ctx req pkey common_name cp =
     (if \<not> set_version_ok cl then Inl EST_ERR_X509_VER
      else if \<not> add_CN_ok cl common_name then Inl EST_ERR_X509_CN
      else if pop_wanted ctx \<and> \<not> add_attr_ok cl cp then Inl EST_ERR_X509_ATTR
      else if \<not> set_pubkey_ok cl pkey then Inl EST_ERR_X509_PUBKEY
      else (let req1 = req\<lparr>csr_subject := common_name, csr_pubkey := Some pkey\<rparr> in
            Inr (if pop_wanted ctx then add_pop req1 cp else req1)))"

definition empty_csr :: CSR where
  "empty_csr = \<lparr>csr_subject = [], csr_pubkey = None, csr_attrs = [], csr_signed = None\<rparr>"

definition est_generate_pkcs10 :: "CSR_LIB \<Rightarrow> EST_CLIENT \<Rightarrow> string \<Rightarrow> string \<Rightarrow> nat \<Rightarrow> EST_ERROR + CSR" where
  "est_generate_pkcs10 cl ctx common_name cp pkey =
     (case populate_x509_request cl ctx empty_csr pkey common_name cp of
        Inl rv \<Rightarrow> Inl rv
      | Inr req \<Rightarrow> if \<not> sign_ok cl req pkey (signing_digest ctx) then Inl EST_ERR_X509_SIGN
                   else Inr (req\<lparr>csr_signed := Some (pkey, signing_digest ctx)\<rparr>))"

section \<open>Key and certificate\<close>

text \<open>\<^verbatim>\<open>est_client_set_cert_and_key\<close> is true here for the result 0 of success; \<^verbatim>\<open>est_client_verify_key_and_cert\<close> makes the same three calls.\<close>

definition est_client_get_pkcs7_from_buf :: "CLIENT_ENV \<Rightarrow> CSR_LIB \<Rightarrow> string \<Rightarrow> (EST_ERROR + PKCS7) option" where
  "est_client_get_pkcs7_from_buf env cl cert_buffer =
     do { (n, der) \<leftarrow> est_base64_decode (bio_read (env_ossl env)) cert_buffer (int (length cert_buffer));
          Some (if n \<le> 0 then Inl EST_ERR_BAD_BASE64
                else (case d2i_PKCS7 cl (take (nat n) der) of None \<Rightarrow> Inl EST_ERR_BAD_X509 | Some p7 \<Rightarrow> Inr p7)) }"

definition est_client_get_pkey_from_buf :: "CLIENT_ENV \<Rightarrow> CSR_LIB \<Rightarrow> string \<Rightarrow> (EST_ERROR + nat) option" where
  "est_client_get_pkey_from_buf env cl key_buffer =
     do { (n, der) \<leftarrow> est_base64_decode (bio_read (env_ossl env)) key_buffer (int (length key_buffer));
          Some (if n \<le> 0 then Inl EST_ERR_BAD_BASE64
                else (case d2i_PrivateKey cl (take (nat n) der) of None \<Rightarrow> Inl EST_ERR_BAD_KEY | Some k \<Rightarrow> Inr k)) }"

definition est_client_set_cert_and_key :: "CSR_LIB \<Rightarrow> nat \<Rightarrow> nat \<Rightarrow> bool" where
  "est_client_set_cert_and_key cl cert key \<longleftrightarrow> use_certificate cl cert \<and> use_PrivateKey cl key \<and> key_matches_cert cl cert key"

definition first_cert :: "PKCS7 \<Rightarrow> nat option" where
  "first_cert p7 =
     (if p7_type p7 = NID_other then None
      else (case p7_cert p7 of Some (c # _) \<Rightarrow> Some c | _ \<Rightarrow> None))"

definition est_client_verify_key_and_cert :: "CLIENT_ENV \<Rightarrow> CSR_LIB \<Rightarrow> string \<Rightarrow> string \<Rightarrow> EST_ERROR option" where
  "est_client_verify_key_and_cert env cl new_key new_cert =
     do { p \<leftarrow> est_client_get_pkcs7_from_buf env cl new_cert;
          case p of
            Inl _ \<Rightarrow> Some EST_ERR_VALIDATION
          | Inr p7 \<Rightarrow>
              (case first_cert p7 of
                 None \<Rightarrow> Some EST_ERR_VALIDATION
               | Some c \<Rightarrow>
                   do { k \<leftarrow> est_client_get_pkey_from_buf env cl new_key;
                        case k of
                          Inl _ \<Rightarrow> Some EST_ERR_VALIDATION
                        | Inr pkey \<Rightarrow>
                            Some (if est_client_set_cert_and_key cl c pkey then EST_ERR_NONE else EST_ERR_VALIDATION) }) }"

section \<open>Enrollment over one connection\<close>

text \<open>
  The results: error, context, network, and the lengths of certificate and key given to the application.
  \<^verbatim>\<open>est_client_send_enroll_request\<close> takes the operation as the flag \<^verbatim>\<open>reenroll\<close>, and \<^verbatim>\<open>EST_OP_SIMPLE_ENROLL\<close> is 0.
\<close>

type_synonym lens = "nat \<times> nat"

definition est_client_enroll_req ::
  "CLIENT_ENV \<Rightarrow> CSR_LIB \<Rightarrow> SESSION \<Rightarrow> EST_CLIENT \<Rightarrow> NET \<Rightarrow> CSR \<Rightarrow> EST_OPERATION \<Rightarrow> (EST_ERROR \<times> EST_CLIENT \<times> NET \<times> lens) option" where
  "est_client_enroll_req env cl s ctx net req est_op =
     do { (rv, ctx1, net1, cert, key) \<leftarrow>
            est_client_send_enroll_request_internal env s ctx net (i2d_b64 cl req)
              (if est_op = EST_OP_SERVER_KEYGEN then EST_OP_SERVER_KEYGEN
               else if est_op = EST_OP_SIMPLE_ENROLL then EST_OP_SIMPLE_ENROLL else EST_OP_SIMPLE_REENROLL);
          if rv \<noteq> EST_ERR_NONE then Some (rv, ctx1, net1, 0, 0)
          else
            (let ctx2 = ctx1\<lparr>enrolled_client_cert := Some cert\<rparr> in
             if est_op \<noteq> EST_OP_SERVER_KEYGEN then Some (EST_ERR_NONE, ctx2, net1, length cert, 0)
             else if key = [] then Some (EST_ERR_ZERO_LENGTH_BUF, ctx2, net1, length cert, 0)
             else
               do { v \<leftarrow> est_client_verify_key_and_cert env cl key cert;
                    let ctx3 = ctx2\<lparr>server_gen_client_priv_key := Some key\<rparr> in
                    if v \<noteq> EST_ERR_NONE then Some (EST_ERR_VALIDATION, ctx3, net1, 0, 0)
                    else Some (EST_ERR_NONE, ctx3, net1, length cert, length key) }) }"

definition est_client_enroll_pkcs10 ::
  "CLIENT_ENV \<Rightarrow> CSR_LIB \<Rightarrow> SESSION \<Rightarrow> EST_CLIENT \<Rightarrow> NET \<Rightarrow> CSR \<Rightarrow> EST_OPERATION \<Rightarrow> nat
     \<Rightarrow> (EST_ERROR \<times> EST_CLIENT \<times> NET \<times> CSR \<times> lens) option" where
  "est_client_enroll_pkcs10 env cl s ctx net csr est_op priv_key =
     (let csr0 = est_client_clear_csr_pop csr;
          sign_and_send = (\<lambda>csr1.
            if \<not> sign_ok cl csr1 priv_key (signing_digest ctx) then Some (EST_ERR_X509_SIGN, ctx, net, csr1, 0, 0)
            else (let csr2 = csr1\<lparr>csr_signed := Some (priv_key, signing_digest ctx)\<rparr> in
                  do { (rv, ctx1, net1, l) \<leftarrow> est_client_enroll_req env cl s ctx net csr2 est_op;
                       Some (rv, ctx1, net1, csr2, l) })) in
      if pop_wanted ctx then
        do { uid \<leftarrow> est_get_tls_uid (env_ossl env) (ses_ssl s) True;
             case uid of
               None \<Rightarrow> Some (EST_ERR_AUTH_FAIL_TLSUID, ctx, net, csr0, 0, 0)
             | Some tls_uid \<Rightarrow>
                 if \<not> add_attr_ok cl tls_uid then Some (EST_ERR_X509_ATTR, ctx, net, csr0, 0, 0)
                 else sign_and_send (add_pop csr0 tls_uid) }
      else sign_and_send csr0)"

definition est_client_enroll_cn ::
  "CLIENT_ENV \<Rightarrow> CSR_LIB \<Rightarrow> SESSION \<Rightarrow> EST_CLIENT \<Rightarrow> NET \<Rightarrow> string \<Rightarrow> EST_OPERATION \<Rightarrow> nat
     \<Rightarrow> (EST_ERROR \<times> EST_CLIENT \<times> NET \<times> lens) option" where
  "est_client_enroll_cn env cl s ctx net common_name est_op pkey =
     do { uid \<leftarrow> est_get_tls_uid (env_ossl env) (ses_ssl s) True;
          case uid of
            None \<Rightarrow> Some (EST_ERR_AUTH_FAIL_TLSUID, ctx, net, 0, 0)
          | Some tls_uid \<Rightarrow>
              (case est_generate_pkcs10 cl ctx common_name tls_uid pkey of
                 Inl rv \<Rightarrow> Some (rv, ctx, net, 0, 0)
               | Inr pkcs10 \<Rightarrow> est_client_enroll_req env cl s ctx net pkcs10 est_op) }"

section \<open>Operations with HTTP authentication\<close>

definition wants_auth :: "EST_CLIENT \<Rightarrow> bool" where
  "wants_auth ctx \<longleftrightarrow> cl_auth_mode (io ctx) = AUTH_DIGEST \<or> cl_auth_mode (io ctx) = AUTH_BASIC \<or> cl_auth_mode (io ctx) = AUTH_TOKEN"

definition clear_token_error :: "EST_CLIENT \<Rightarrow> EST_CLIENT option" where
  "clear_token_error ctx =
     (if hd0 (token_error (io ctx)) \<noteq> NUL \<or> hd0 (token_error_desc (io ctx)) \<noteq> NUL then
        do { e \<leftarrow> wr (token_error (io ctx)) 0 NUL;
             d \<leftarrow> wr (token_error_desc (io ctx)) 0 NUL;
             Some (ctx\<lparr>io := (io ctx)\<lparr>token_error := e, token_error_desc := d\<rparr>\<rparr>) }
      else Some ctx)"

text \<open>
  What the enrollment operations share: connect, try, and after a challenge connect and try once more. \<open>attempt\<close> is
  the request over one connection, with a value it hands on to the second attempt. The last component of the result
  tells whether the end of the body was reached; the error exits jump past it.
\<close>

definition auth_again ::
  "CLIENT_ENV \<Rightarrow> (SESSION \<Rightarrow> EST_CLIENT \<Rightarrow> NET \<Rightarrow> 'x \<Rightarrow> (EST_ERROR \<times> EST_CLIENT \<times> NET \<times> 'x \<times> lens) option) \<Rightarrow> bool
     \<Rightarrow> EST_CLIENT \<Rightarrow> NET \<Rightarrow> 'x \<Rightarrow> lens \<Rightarrow> (EST_ERROR \<times> EST_CLIENT \<times> NET \<times> lens \<times> bool) option" where
  "auth_again env attempt clear_errors ctx net x l =
     (if cl_auth_mode (io ctx) = AUTH_DIGEST \<and> FIPS_mode env then Some (EST_ERR_BAD_MODE, ctx, net, l, False)
      else
        do { (rc, so, net1) \<leftarrow> est_client_connect env ctx net;
             case so of
               None \<Rightarrow> Some (rc, ctx, net1, l, False)
             | Some s \<Rightarrow>
                 do { (rv, ctx1, net2, x1, l1) \<leftarrow> attempt s ctx net1 x;
                      ctx2 \<leftarrow> (if rv \<noteq> EST_ERR_NONE \<and> clear_errors then clear_token_error ctx1 else Some ctx1);
                      Some (rv, ctx2, net2, l1, True) } })"

definition auth_retry ::
  "CLIENT_ENV \<Rightarrow> (SESSION \<Rightarrow> EST_CLIENT \<Rightarrow> NET \<Rightarrow> 'x \<Rightarrow> (EST_ERROR \<times> EST_CLIENT \<times> NET \<times> 'x \<times> lens) option) \<Rightarrow> bool
     \<Rightarrow> EST_CLIENT \<Rightarrow> NET \<Rightarrow> 'x \<Rightarrow> (EST_ERROR \<times> EST_CLIENT \<times> NET \<times> lens \<times> bool) option" where
  "auth_retry env attempt clear_errors ctx net x =
     do { (rc, so, net1) \<leftarrow> est_client_connect env ctx net;
          case so of
            None \<Rightarrow> Some (rc, ctx, net1, (0, 0), False)
          | Some s \<Rightarrow>
              do { (rv, ctx1, net2, x1, l) \<leftarrow> attempt s ctx net1 x;
                   if rv = EST_ERR_AUTH_FAIL \<and> wants_auth ctx1 then auth_again env attempt clear_errors ctx1 net2 x1 l
                   else Some (rv, ctx1, net2, l, True) } }"

definition set_auth_none :: "EST_CLIENT \<Rightarrow> EST_CLIENT" where
  "set_auth_none ctx = ctx\<lparr>io := (io ctx)\<lparr>cl_auth_mode := AUTH_NONE\<rparr>\<rparr>"

definition enroll_cn_attempt ::
  "CLIENT_ENV \<Rightarrow> CSR_LIB \<Rightarrow> string \<Rightarrow> EST_OPERATION \<Rightarrow> nat \<Rightarrow> SESSION \<Rightarrow> EST_CLIENT \<Rightarrow> NET \<Rightarrow> unit
     \<Rightarrow> (EST_ERROR \<times> EST_CLIENT \<times> NET \<times> unit \<times> lens) option" where
  "enroll_cn_attempt env cl cn est_op pkey s c n x =
     do { (rv, c', n', l) \<leftarrow> est_client_enroll_cn env cl s c n cn est_op pkey; Some (rv, c', n', x, l) }"

definition est_client_enroll_internal ::
  "CLIENT_ENV \<Rightarrow> CSR_LIB \<Rightarrow> EST_CLIENT \<Rightarrow> NET \<Rightarrow> string \<Rightarrow> nat option \<Rightarrow> EST_OPERATION \<Rightarrow> (EST_ERROR \<times> EST_CLIENT \<times> NET \<times> lens) option" where
  "est_client_enroll_internal env cl ctx net common_name new_public_key est_op =
     (if \<not> cl_initialized ctx then Some (EST_ERR_CLIENT_NOT_INITIALIZED, ctx, net, 0, 0)
      else (case new_public_key of
          None \<Rightarrow> Some (EST_ERR_NO_KEY, ctx, net, 0, 0)
        | Some pkey \<Rightarrow>
            do { (rv, ctx1, net1, l, ended) \<leftarrow>
                   auth_retry env (enroll_cn_attempt env cl common_name est_op pkey) True ctx net ();
                 Some (rv, if ended then set_auth_none ctx1 else ctx1, net1, l) }))"

definition est_client_enroll ::
  "CLIENT_ENV \<Rightarrow> CSR_LIB \<Rightarrow> EST_CLIENT \<Rightarrow> NET \<Rightarrow> string \<Rightarrow> nat option \<Rightarrow> (EST_ERROR \<times> EST_CLIENT \<times> NET \<times> lens) option" where
  "est_client_enroll env cl ctx net common_name new_public_key =
     est_client_enroll_internal env cl ctx net common_name new_public_key EST_OP_SIMPLE_ENROLL"

definition est_client_server_keygen_enroll ::
  "CLIENT_ENV \<Rightarrow> CSR_LIB \<Rightarrow> EST_CLIENT \<Rightarrow> NET \<Rightarrow> string \<Rightarrow> nat option \<Rightarrow> (EST_ERROR \<times> EST_CLIENT \<times> NET \<times> lens) option" where
  "est_client_server_keygen_enroll env cl ctx net common_name new_public_key =
     est_client_enroll_internal env cl ctx net common_name new_public_key EST_OP_SERVER_KEYGEN"

definition enroll_csr_attempt ::
  "CLIENT_ENV \<Rightarrow> CSR_LIB \<Rightarrow> EST_OPERATION \<Rightarrow> nat option \<Rightarrow> SESSION \<Rightarrow> EST_CLIENT \<Rightarrow> NET \<Rightarrow> CSR
     \<Rightarrow> (EST_ERROR \<times> EST_CLIENT \<times> NET \<times> CSR \<times> lens) option" where
  "enroll_csr_attempt env cl est_op priv_key s ctx net csr =
     (case priv_key of
        Some k \<Rightarrow> est_client_enroll_pkcs10 env cl s ctx net csr est_op k
      | None \<Rightarrow> do { (rv, c, n, l) \<leftarrow> est_client_enroll_req env cl s ctx net csr est_op; Some (rv, c, n, csr, l) })"

definition est_client_enroll_csr_internal ::
  "CLIENT_ENV \<Rightarrow> CSR_LIB \<Rightarrow> EST_CLIENT \<Rightarrow> NET \<Rightarrow> CSR option \<Rightarrow> nat option \<Rightarrow> EST_OPERATION \<Rightarrow> (EST_ERROR \<times> EST_CLIENT \<times> NET \<times> lens) option" where
  "est_client_enroll_csr_internal env cl ctx net csr priv_key est_op =
     (case csr of
        None \<Rightarrow> Some (EST_ERR_NO_CSR, ctx, net, 0, 0)
      | Some req \<Rightarrow>
          if \<not> cl_initialized ctx then Some (EST_ERR_CLIENT_NOT_INITIALIZED, ctx, net, 0, 0)
          else do { (rv, ctx1, net1, l, _) \<leftarrow> auth_retry env (enroll_csr_attempt env cl est_op priv_key) False ctx net req;
                    Some (rv, ctx1, net1, l) })"

definition est_client_enroll_csr ::
  "CLIENT_ENV \<Rightarrow> CSR_LIB \<Rightarrow> EST_CLIENT \<Rightarrow> NET \<Rightarrow> CSR option \<Rightarrow> nat option \<Rightarrow> (EST_ERROR \<times> EST_CLIENT \<times> NET \<times> lens) option" where
  "est_client_enroll_csr env cl ctx net csr priv_key =
     est_client_enroll_csr_internal env cl ctx net csr priv_key EST_OP_SIMPLE_ENROLL"

definition est_client_server_keygen_enroll_csr ::
  "CLIENT_ENV \<Rightarrow> CSR_LIB \<Rightarrow> EST_CLIENT \<Rightarrow> NET \<Rightarrow> CSR option \<Rightarrow> nat option \<Rightarrow> (EST_ERROR \<times> EST_CLIENT \<times> NET \<times> lens) option" where
  "est_client_server_keygen_enroll_csr env cl ctx net csr priv_key =
     (if priv_key = None then Some (EST_ERR_NO_KEY, ctx, net, 0, 0)
      else est_client_enroll_csr_internal env cl ctx net csr priv_key EST_OP_SERVER_KEYGEN)"

text \<open>\<^verbatim>\<open>rv\<close> is still the result of \<^verbatim>\<open>est_client_check_x509\<close> when the extensions cannot be copied.\<close>

definition est_client_reenroll ::
  "CLIENT_ENV \<Rightarrow> CSR_LIB \<Rightarrow> EST_CLIENT \<Rightarrow> NET \<Rightarrow> nat option \<Rightarrow> nat option \<Rightarrow> (EST_ERROR \<times> EST_CLIENT \<times> NET \<times> lens) option" where
  "est_client_reenroll env cl ctx net cert priv_key =
     (case cert of
        None \<Rightarrow> Some (EST_ERR_NO_CERT, ctx, net, 0, 0)
      | Some c \<Rightarrow>
          (case priv_key of
             None \<Rightarrow> Some (EST_ERR_NO_KEY, ctx, net, 0, 0)
           | Some k \<Rightarrow>
               if \<not> cl_initialized ctx then Some (EST_ERR_CLIENT_NOT_INITIALIZED, ctx, net, 0, 0)
               else
                 (let rv = est_client_check_x509 cl c in
                  if rv \<noteq> EST_ERR_NONE then Some (rv, ctx, net, 0, 0)
                  else if check_private_key cl c k \<le> 0 then Some (EST_ERR_CLIENT_INVALID_KEY, ctx, net, 0, 0)
                  else
                    (case X509_to_X509_REQ cl c of
                       None \<Rightarrow> Some (EST_ERR_NO_CSR, ctx, net, 0, 0)
                     | Some req \<Rightarrow>
                         (case (if ext_count cl c > 0 then add_extensions cl req c else Some req) of
                            None \<Rightarrow> Some (rv, ctx, net, 0, 0)
                          | Some req1 \<Rightarrow>
                              do { (rv1, ctx1, net1, l, _) \<leftarrow>
                                     auth_retry env (enroll_csr_attempt env cl EST_OP_SIMPLE_REENROLL (Some k)) True ctx net req1;
                                   Some (rv1, ctx1, net1, l) })))))"

section \<open>CA certificates, CSR attributes, provisioning\<close>

definition est_client_get_cacerts :: "CLIENT_ENV \<Rightarrow> EST_CLIENT \<Rightarrow> NET \<Rightarrow> (EST_ERROR \<times> EST_CLIENT \<times> NET \<times> nat) option" where
  "est_client_get_cacerts env ctx net =
     (if \<not> cl_initialized ctx then Some (EST_ERR_CLIENT_NOT_INITIALIZED, ctx, net, 0)
      else do { (rc, so, net1) \<leftarrow> est_client_connect env ctx net;
                case so of
                  None \<Rightarrow> Some (rc, ctx, net1, 0)
                | Some s \<Rightarrow> est_client_send_cacerts_request env s ctx net1 })"

text \<open>The copies: the application's buffer is a parameter, NULL as \<^term>\<open>None\<close>.\<close>

definition est_client_copy_cacerts :: "EST_CLIENT \<Rightarrow> mem option \<Rightarrow> (EST_ERROR \<times> EST_CLIENT \<times> mem option) option" where
  "est_client_copy_cacerts ctx dst_buf =
     (if \<not> cl_initialized ctx then Some (EST_ERR_CLIENT_NOT_INITIALIZED, ctx, dst_buf)
      else (case dst_buf of
          None \<Rightarrow> Some (EST_ERR_INVALID_PARAMETERS, ctx, dst_buf)
        | Some dst \<Rightarrow>
            (case retrieved_ca_certs ctx of
               None \<Rightarrow> Some (EST_ERR_NO_CERTIFICATE, ctx, dst_buf)
             | Some (buf, len) \<Rightarrow>
                 do { (d0, _) \<leftarrow> memzero_s (Some dst) len;
                      (d1, _) \<leftarrow> memcpy_s d0 len (Some buf) len;
                      Some (EST_ERR_NONE, ctx\<lparr>cl_initialized := False\<rparr>, d1) })))"

definition copy_out :: "mem \<Rightarrow> string \<Rightarrow> mem option" where
  "copy_out dst src =
     do { (d0, _) \<leftarrow> memzero_s (Some dst) (length src);
          (d1, _) \<leftarrow> memcpy_s d0 (length src) (Some src) (length src);
          d1 }"

definition est_client_copy_enrolled_cert :: "EST_CLIENT \<Rightarrow> mem option \<Rightarrow> (EST_ERROR \<times> EST_CLIENT \<times> mem option) option" where
  "est_client_copy_enrolled_cert ctx pkcs7 =
     (if \<not> cl_initialized ctx then Some (EST_ERR_CLIENT_NOT_INITIALIZED, ctx, pkcs7)
      else (case pkcs7 of
          None \<Rightarrow> Some (EST_ERR_INVALID_PARAMETERS, ctx, pkcs7)
        | Some dst \<Rightarrow>
            (case enrolled_client_cert ctx of
               None \<Rightarrow> Some (EST_ERR_NO_CERTIFICATE, ctx, pkcs7)
             | Some cert \<Rightarrow>
                 do { d \<leftarrow> copy_out dst cert; Some (EST_ERR_NONE, ctx\<lparr>enrolled_client_cert := None\<rparr>, Some d) })))"

definition est_client_copy_server_generated_key :: "EST_CLIENT \<Rightarrow> mem option \<Rightarrow> (EST_ERROR \<times> EST_CLIENT \<times> mem option) option" where
  "est_client_copy_server_generated_key ctx pkcs8 =
     (if \<not> cl_initialized ctx then Some (EST_ERR_CLIENT_NOT_INITIALIZED, ctx, pkcs8)
      else (case pkcs8 of
          None \<Rightarrow> Some (EST_ERR_INVALID_PARAMETERS, ctx, pkcs8)
        | Some dst \<Rightarrow>
            (case server_gen_client_priv_key ctx of
               None \<Rightarrow> Some (EST_ERR_NO_KEY, ctx, pkcs8)
             | Some key \<Rightarrow>
                 do { d \<leftarrow> copy_out dst key; Some (EST_ERR_NONE, ctx\<lparr>server_gen_client_priv_key := None\<rparr>, Some d) })))"

definition est_client_get_csrattrs ::
  "CLIENT_ENV \<Rightarrow> EST_CLIENT \<Rightarrow> NET \<Rightarrow> (EST_ERROR \<times> EST_CLIENT \<times> NET \<times> string option) option" where
  "est_client_get_csrattrs env ctx net =
     do { (rc, so, net1) \<leftarrow> est_client_connect env ctx net;
          case so of
            None \<Rightarrow> Some (rc, ctx, net1, None)
          | Some s \<Rightarrow>
              do { (rv, ctx1, net2, attrs) \<leftarrow> est_client_send_csrattrs_request env s (ctx\<lparr>retrieved_csrattrs := None\<rparr>) net1;
                   if rv \<noteq> EST_ERR_NONE then Some (rv, ctx1, net2, None)
                   else (case attrs of
                       None \<Rightarrow> Some (EST_ERR_NONE, ctx1, net2, None)
                     | Some new_csr_data \<Rightarrow>
                         do { (rv1, pop) \<leftarrow> est_asn1_parse_attributes (env_ossl env) (env_asn1 env) new_csr_data;
                              let r = (if rv1 = EST_ERR_NONE then Some new_csr_data else None) in
                              Some (rv1, ctx1\<lparr>retrieved_csrattrs := r, csr_pop_required := pop\<rparr>, net2, r) }) } }"

text \<open>\<^verbatim>\<open>est_convert_p7b64_to_pem\<close> of \<^verbatim>\<open>est_ossl_util.c\<close>: the PEM text, or \<^term>\<open>None\<close> for the result -1.\<close>

definition est_convert_p7b64_to_pem :: "CLIENT_ENV \<Rightarrow> CSR_LIB \<Rightarrow> string \<Rightarrow> string option option" where
  "est_convert_p7b64_to_pem env cl certs_p7 =
     do { decoded \<leftarrow> b64_read (env_p7 env) certs_p7;
          Some (case d2i_PKCS7_bio (env_p7 env) decoded of
              None \<Rightarrow> None
            | Some p7 \<Rightarrow>
                if p7_type p7 = NID_other then None
                else (case p7_cert p7 of
                    None \<Rightarrow> None
                  | Some certs \<Rightarrow>
                      (let pem = concat (map (\<lambda>x. PEM_cert cl x @ [LF]) certs) in if pem = [] then None else Some pem))) }"

text \<open>A new store, empty when no certificate could be read; no text is given when the application has no CA chain.\<close>

definition est_load_trusted_certs :: "CLIENT_ENV \<Rightarrow> EST_CLIENT \<Rightarrow> string option \<Rightarrow> EST_ERROR \<times> EST_CLIENT" where
  "est_load_trusted_certs env ctx certs =
     (let rv = ossl_init_cert_store (env_ossl env) certs in
      (rv, ctx\<lparr>trusted_certs := (if rv = EST_ERR_NONE then the_bytes certs else [])\<rparr>))"

definition est_client_provision_cert ::
  "CLIENT_ENV \<Rightarrow> CSR_LIB \<Rightarrow> EST_CLIENT \<Rightarrow> NET \<Rightarrow> string \<Rightarrow> nat option \<Rightarrow> (EST_ERROR \<times> EST_CLIENT \<times> NET \<times> lens) option" where
  "est_client_provision_cert env cl ctx net common_name new_public_key =
     (if \<not> cl_initialized ctx then Some (EST_ERR_CLIENT_NOT_INITIALIZED, ctx, net, 0, 0)
      else if new_public_key = None then Some (EST_ERR_NO_KEY, ctx, net, 0, 0)
      else
        do { (rv, ctx1, net1, len) \<leftarrow> est_client_get_cacerts env ctx net;
             if rv \<noteq> EST_ERR_NONE then Some (rv, ctx1, net1, 0, 0)
             else
               do { (rv1, ctx2, p7) \<leftarrow> est_client_copy_cacerts ctx1 (Some (replicate len NUL));
                    if rv1 \<noteq> EST_ERR_NONE then Some (rv1, ctx2, net1, 0, 0)
                    else
                      do { pem \<leftarrow> est_convert_p7b64_to_pem env cl (the_bytes p7);
                           case pem of
                             None \<Rightarrow> Some (EST_ERR_PEM_READ, ctx2, net1, 0, 0)
                           | Some new_ta_pem \<Rightarrow>
                               (let (rv2, ctx2a) = est_load_trusted_certs env ctx2 (Some new_ta_pem) in
                                if rv2 \<noteq> EST_ERR_NONE then Some (rv2, ctx2a, net1, 0, 0)
                                else
                                  do { (rv3, ctx3, net3, _) \<leftarrow> est_client_get_csrattrs env
                                         (ctx2a\<lparr>cl_initialized := True\<rparr>) net1;
                                       if rv3 \<noteq> EST_ERR_NONE \<and> rv3 \<noteq> EST_ERR_HTTP_NO_CONTENT then Some (rv3, ctx3, net3, 0, 0)
                                       else est_client_enroll env cl ctx3 net3 common_name new_public_key }) } } })"

section \<open>Proof of possession\<close>

lemma first_attr_split:
  "first_attr n as = Some k \<Longrightarrow> \<exists>ys v zs. as = ys @ (n, v) # zs \<and> length ys = k \<and> (\<forall>a \<in> set ys. fst a \<noteq> n)"
proof (induction as arbitrary: k)
  case (Cons a as)
  show ?case
  proof (cases "fst a = n")
    case True
    with Cons(2) show ?thesis by (intro exI [of _ "[]"] exI [of _ "snd a"] exI [of _ as]) auto
  next
    case False
    then obtain k' where "first_attr n as = Some k'" "k = Suc k'" using Cons(2) by auto
    with Cons(1) obtain ys v zs where "as = ys @ (n, v) # zs" "length ys = k'" "\<forall>a \<in> set ys. fst a \<noteq> n" by blast
    with False \<open>k = Suc k'\<close> show ?thesis by (intro exI [of _ "a # ys"] exI [of _ v] exI [of _ zs]) auto
  qed
qed simp

lemma first_attr_None: "first_attr n as = None \<longleftrightarrow> (\<forall>a \<in> set as. fst a \<noteq> n)"
  by (induction as) auto

text \<open>Deleting the first attribute as long as there is one deletes them all and keeps the others in order.\<close>

lemma clear_attr_filter: "clear_attr n as = filter (\<lambda>a. fst a \<noteq> n) as"
proof (induction n as rule: clear_attr.induct)
  case (1 n as)
  show ?case
  proof (cases "first_attr n as")
    case None
    with first_attr_None [of n as] show ?thesis by (subst clear_attr.simps) simp
  next
    case (Some k)
    then obtain ys v zs where s: "as = ys @ (n, v) # zs" "length ys = k" using first_attr_split by blast
    then have "take k as @ drop (Suc k) as = ys @ zs" by auto
    with 1 [OF Some] Some s show ?thesis by (subst clear_attr.simps) simp
  qed
qed

section \<open>What an operation does to the network\<close>

text \<open>
  \<open>exchange env ctx k net net'\<close>: at most \<open>k\<close> connections were opened; each carried at most one request, in order,
  and every request went to a peer that was verified to be the server of the context.
\<close>

definition exchange :: "CLIENT_ENV \<Rightarrow> EST_CLIENT \<Rightarrow> nat \<Rightarrow> NET \<Rightarrow> NET \<Rightarrow> bool" where
  "exchange env ctx k net net' \<longleftrightarrow>
     (\<exists>used reqs. sessions net = used @ sessions net' \<and> length used \<le> k \<and> sent net' = sent net @ reqs
        \<and> subseq (map fst reqs) used \<and> list_all (verified env ctx) (map fst reqs))"

lemma exchange_refl [simp]: "exchange env ctx k net net"
  unfolding exchange_def by (intro exI [of _ "[]"]) simp

lemma exchange_trans:
  assumes "exchange env ctx k net net1" and "exchange env ctx1 l net1 net'" and "frame ctx ctx1"
  shows "exchange env ctx (k + l) net net'"
proof -
  obtain u1 r1 where 1: "sessions net = u1 @ sessions net1" "length u1 \<le> k" "sent net1 = sent net @ r1"
    "subseq (map fst r1) u1" "list_all (verified env ctx) (map fst r1)"
    using assms(1) by (auto simp: exchange_def)
  obtain u2 r2 where 2: "sessions net1 = u2 @ sessions net'" "length u2 \<le> l" "sent net' = sent net1 @ r2"
    "subseq (map fst r2) u2" "list_all (verified env ctx1) (map fst r2)"
    using assms(2) by (auto simp: exchange_def)
  have "list_all (verified env ctx) (map fst r2)"
    using 2(5) verified_same [OF assms(3)] by (simp add: list_all_iff)
  with 1 2 show ?thesis
    unfolding exchange_def by (intro exI [of _ "u1 @ u2"] exI [of _ "r1 @ r2"]) (auto intro: list_emb_append_mono)
qed

lemma exchange_mono: "exchange env ctx k net net' \<Longrightarrow> k \<le> l \<Longrightarrow> exchange env ctx l net net'"
  unfolding exchange_def by (meson le_trans)

lemma connect_exchange:
  assumes "est_client_connect env ctx net = Some (rc, so, net')"
  shows "exchange env ctx 1 net net'"
proof -
  obtain used where "sent net' = sent net" "sessions net = used @ sessions net'" "length used \<le> 1"
    using est_client_connect_session [OF assms] by blast
  then show ?thesis unfolding exchange_def by (intro exI [of _ used] exI [of _ "[]"]) simp
qed

text \<open>A connection and a request over it.\<close>

lemma connect_request:
  assumes "est_client_connect env ctx net = Some (rc, Some s, net1)" and "one_request s net1 net'"
  shows "exchange env ctx 1 net net'"
proof -
  have c: "sent net1 = sent net" "sessions net = s # sessions net1" "verified env ctx s"
    using est_client_connect_session [OF assms(1)] by auto
  show ?thesis
    using assms(2) c unfolding one_request_def exchange_def
    by (auto intro!: exI [of _ "[s]"])
qed

lemma connect_result: "est_client_connect env ctx net = Some (rc, so, net') \<Longrightarrow> (so = None) = (rc \<noteq> EST_ERR_NONE)"
  using est_client_connect_session [of env ctx net rc so net'] by (auto split: option.splits)

lemma clear_token_error_frame: "clear_token_error ctx = Some ctx' \<Longrightarrow> frame ctx ctx'"
proof -
  have "array_ok n (m[0 := NUL])" if "array_ok n m" for n m using that by (auto simp: array_ok_def nth_list_update)
  then show "clear_token_error ctx = Some ctx' \<Longrightarrow> frame ctx ctx'"
    by (auto simp: clear_token_error_def bind_eq_Some_conv frame_def creds_ok_def client_ok_def wr_def split: if_splits)
qed

text \<open>What every request over one connection promises, and what follows for two attempts.\<close>

locale session_attempt =
  fixes attempt :: "SESSION \<Rightarrow> EST_CLIENT \<Rightarrow> NET \<Rightarrow> 'x \<Rightarrow> (EST_ERROR \<times> EST_CLIENT \<times> NET \<times> 'x \<times> lens) option"
  assumes attempt_effect: "attempt s ctx net x = Some (rv, ctx', net', x', l) \<Longrightarrow> frame ctx ctx' \<and> one_request s net net'"
begin

lemma again_cases:
  assumes "auth_again env attempt ce ctx net x l = Some (rv, ctx', net', l', e)"
  obtains (not_sent) "\<not> e" "ctx' = ctx" "l' = l" "rv \<noteq> EST_ERR_NONE" "net' = net \<or> est_client_connect env ctx net = Some (rv, None, net')"
  | (tried) s net1 ctx1 x1 where "e" "est_client_connect env ctx net = Some (EST_ERR_NONE, Some s, net1)"
      "attempt s ctx net1 x = Some (rv, ctx1, net', x1, l')" "ctx' = ctx1 \<or> rv \<noteq> EST_ERR_NONE \<and> clear_token_error ctx1 = Some ctx'"
proof (cases "cl_auth_mode (io ctx) = AUTH_DIGEST \<and> FIPS_mode env")
  case True
  with assms show ?thesis by (intro not_sent) (auto simp: auth_again_def)
next
  case False
  then obtain rc so net1 where c: "est_client_connect env ctx net = Some (rc, so, net1)"
    using assms by (auto simp: auth_again_def bind_eq_Some_conv)
  note run = assms [unfolded auth_again_def c bind.simps prod.case]
  show ?thesis
  proof (cases so)
    case None
    with run False c connect_result [OF c] show ?thesis by (intro not_sent) auto
  next
    case (Some s)
    with c connect_result [OF c] have c: "est_client_connect env ctx net = Some (EST_ERR_NONE, Some s, net1)" by simp
    from run Some False obtain rv1 ctx1 net2 x1 l1 where a: "attempt s ctx net1 x = Some (rv1, ctx1, net2, x1, l1)"
      by (auto simp: bind_eq_Some_conv)
    have "rv1 = rv \<and> net2 = net' \<and> l1 = l' \<and> e \<and> (ctx' = ctx1 \<or> rv \<noteq> EST_ERR_NONE \<and> clear_token_error ctx1 = Some ctx')"
      using run Some a False by (auto simp: bind_eq_Some_conv split: if_splits)
    with c a show ?thesis by (intro tried) auto
  qed
qed

lemma retry_cases:
  assumes "auth_retry env attempt ce ctx net x = Some (rv, ctx', net', l, e)"
  obtains (not_connected) "\<not> e" "ctx' = ctx" "rv \<noteq> EST_ERR_NONE" "est_client_connect env ctx net = Some (rv, None, net')"
  | (first) s net1 x1 where "e" "est_client_connect env ctx net = Some (EST_ERR_NONE, Some s, net1)"
      "attempt s ctx net1 x = Some (rv, ctx', net', x1, l)" "\<not> (rv = EST_ERR_AUTH_FAIL \<and> wants_auth ctx')"
  | (again) s net1 ctx1 net2 x1 l1 where "est_client_connect env ctx net = Some (EST_ERR_NONE, Some s, net1)"
      "attempt s ctx net1 x = Some (EST_ERR_AUTH_FAIL, ctx1, net2, x1, l1)" "wants_auth ctx1"
      "auth_again env attempt ce ctx1 net2 x1 l1 = Some (rv, ctx', net', l, e)"
proof -
  obtain rc so net1 where c: "est_client_connect env ctx net = Some (rc, so, net1)"
    using assms by (auto simp: auth_retry_def bind_eq_Some_conv)
  note run = assms [unfolded auth_retry_def c bind.simps prod.case]
  show ?thesis
  proof (cases so)
    case None
    with run c connect_result [OF c] show ?thesis by (intro not_connected) auto
  next
    case (Some s)
    with c connect_result [OF c] have c: "est_client_connect env ctx net = Some (EST_ERR_NONE, Some s, net1)" by simp
    from run Some obtain rv1 ctx1 net2 x1 l1 where a: "attempt s ctx net1 x = Some (rv1, ctx1, net2, x1, l1)"
      by (auto simp: bind_eq_Some_conv)
    show ?thesis
    proof (cases "rv1 = EST_ERR_AUTH_FAIL \<and> wants_auth ctx1")
      case True
      with run Some a c show ?thesis by (intro again) auto
    next
      case False
      with run Some a c show ?thesis by (intro first) auto
    qed
  qed
qed

lemma retry_success:
  assumes "auth_retry env attempt ce ctx net x = Some (EST_ERR_NONE, ctx', net', l, e)"
  shows "\<exists>s c n y y'. attempt s c n y = Some (EST_ERR_NONE, ctx', net', y', l)"
  using assms
proof (cases rule: retry_cases)
  case (again s net1 ctx1 net2 x1 l1)
  from again(4) show ?thesis by (cases rule: again_cases) (simp, blast)
qed (simp, blast)

lemma request_step:
  assumes "est_client_connect env ctx net = Some (rc, Some s, net1)" and "attempt s ctx net1 x = Some (rv, ctx', net', x', l)"
  shows "frame ctx ctx' \<and> exchange env ctx 1 net net'"
  using attempt_effect [OF assms(2)] connect_request [OF assms(1)] by blast

lemma again_exchange:
  assumes "auth_again env attempt ce ctx net x l = Some (rv, ctx', net', l', e)"
  shows "frame ctx ctx' \<and> exchange env ctx 1 net net'"
  using assms
proof (cases rule: again_cases)
  case not_sent
  then show ?thesis by (auto dest: connect_exchange)
next
  case (tried s net1 ctx1 x1)
  with request_step [OF tried(2,3)] show ?thesis by (auto intro: frame_trans clear_token_error_frame)
qed

lemma retry_exchange:
  assumes "auth_retry env attempt ce ctx net x = Some (rv, ctx', net', l, e)"
  shows "frame ctx ctx' \<and> exchange env ctx 2 net net'"
  using assms
proof (cases rule: retry_cases)
  case not_connected
  then show ?thesis by (auto dest!: connect_exchange elim: exchange_mono)
next
  case (first s net1 x1)
  with request_step [OF first(2,3)] show ?thesis by (auto elim: exchange_mono)
next
  case (again s net1 ctx1 net2 x1 l1)
  note 1 = request_step [OF again(1,2)] and 2 = again_exchange [OF again(4)]
  have "exchange env ctx (1 + 1) net net'" using exchange_trans 1 2 by blast
  moreover have "frame ctx ctx'" using frame_trans 1 2 by blast
  ultimately show ?thesis by (simp add: numeral_2_eq_2)
qed

end

section \<open>The attempts of the client\<close>

lemma enroll_req_effect:
  assumes "est_client_enroll_req env cl s ctx net req est_op = Some (rv, ctx', net', l)"
  shows "frame ctx ctx' \<and> one_request s net net'"
proof -
  obtain op rv1 ctx1 net1 cert key where
    r: "est_client_send_enroll_request_internal env s ctx net (i2d_b64 cl req) op = Some (rv1, ctx1, net1, cert, key)"
    and run: "(if rv1 \<noteq> EST_ERR_NONE then Some (rv1, ctx1, net1, 0, 0)
          else
            (let ctx2 = ctx1\<lparr>enrolled_client_cert := Some cert\<rparr> in
             if est_op \<noteq> EST_OP_SERVER_KEYGEN then Some (EST_ERR_NONE, ctx2, net1, length cert, 0)
             else if key = [] then Some (EST_ERR_ZERO_LENGTH_BUF, ctx2, net1, length cert, 0)
             else
               do { v \<leftarrow> est_client_verify_key_and_cert env cl key cert;
                    let ctx3 = ctx2\<lparr>server_gen_client_priv_key := Some key\<rparr> in
                    if v \<noteq> EST_ERR_NONE then Some (EST_ERR_VALIDATION, ctx3, net1, 0, 0)
                    else Some (EST_ERR_NONE, ctx3, net1, length cert, length key) })) = Some (rv, ctx', net', l)"
    using assms unfolding est_client_enroll_req_def by (auto simp: bind_eq_Some_conv split del: if_split)
  have "net' = net1 \<and> frame ctx1 ctx'"
    using run by (auto simp: Let_def bind_eq_Some_conv split: if_splits)
  with send_enroll_effect [OF r] show ?thesis using frame_trans by blast
qed

lemma enroll_pkcs10_effect:
  assumes "est_client_enroll_pkcs10 env cl s ctx net csr est_op k = Some (rv, ctx', net', csr', l)"
  shows "frame ctx ctx' \<and> one_request s net net'"
  using assms unfolding est_client_enroll_pkcs10_def Let_def
  by (auto simp: bind_eq_Some_conv dest: enroll_req_effect split: if_splits option.splits)

lemma enroll_cn_effect:
  assumes "est_client_enroll_cn env cl s ctx net cn est_op k = Some (rv, ctx', net', l)"
  shows "frame ctx ctx' \<and> one_request s net net'"
proof -
  obtain uid where u: "est_get_tls_uid (env_ossl env) (ses_ssl s) True = Some uid"
    using assms by (auto simp: est_client_enroll_cn_def bind_eq_Some_conv)
  note run = assms [unfolded est_client_enroll_cn_def u bind.simps]
  show ?thesis
  proof (cases uid)
    case (Some tls_uid)
    with run show ?thesis
      by (cases "est_generate_pkcs10 cl ctx cn tls_uid k") (auto dest: enroll_req_effect)
  qed (use run in simp)
qed

interpretation by_name: session_attempt "enroll_cn_attempt env cl cn est_op pkey" for env cl cn est_op pkey
  by unfold_locales (auto simp: enroll_cn_attempt_def bind_eq_Some_conv dest: enroll_cn_effect)

interpretation by_csr: session_attempt "enroll_csr_attempt env cl est_op priv_key" for env cl est_op priv_key
  by unfold_locales (auto simp: enroll_csr_attempt_def bind_eq_Some_conv dest: enroll_pkcs10_effect enroll_req_effect split: option.splits)

section \<open>What the operations do\<close>

text \<open>An operation keeps the frame of the context and opens at most \<open>k\<close> connections.\<close>

definition op_effect :: "CLIENT_ENV \<Rightarrow> nat \<Rightarrow> EST_CLIENT \<Rightarrow> NET \<Rightarrow> EST_CLIENT \<Rightarrow> NET \<Rightarrow> bool" where
  "op_effect env k ctx net ctx' net' \<longleftrightarrow> frame ctx ctx' \<and> exchange env ctx k net net'"

lemma op_effect_refl [simp]: "op_effect env k ctx net ctx net"
  by (simp add: op_effect_def)

lemma op_effect_local: "frame ctx ctx' \<Longrightarrow> op_effect env k ctx net ctx' net"
  by (simp add: op_effect_def)

lemma op_effect_trans:
  "op_effect env k ctx net ctx1 net1 \<Longrightarrow> op_effect env l ctx1 net1 ctx' net' \<Longrightarrow> op_effect env (k + l) ctx net ctx' net'"
  unfolding op_effect_def using exchange_trans frame_trans by blast

lemma op_effect_mono: "op_effect env k ctx net ctx' net' \<Longrightarrow> k \<le> l \<Longrightarrow> op_effect env l ctx net ctx' net'"
  unfolding op_effect_def using exchange_mono by blast

lemma set_auth_none_frame [simp]: "frame ctx (set_auth_none ctx') = frame ctx ctx'"
  by (simp add: frame_def set_auth_none_def creds_ok_def)

lemma enroll_internal_effect:
  "est_client_enroll_internal env cl ctx net cn key est_op = Some (rv, ctx', net', l) \<Longrightarrow> op_effect env 2 ctx net ctx' net'"
  unfolding est_client_enroll_internal_def
  by (auto simp: bind_eq_Some_conv op_effect_def dest!: by_name.retry_exchange split: if_splits option.splits)

lemma enroll_csr_internal_effect:
  "est_client_enroll_csr_internal env cl ctx net csr key est_op = Some (rv, ctx', net', l) \<Longrightarrow> op_effect env 2 ctx net ctx' net'"
  unfolding est_client_enroll_csr_internal_def
  by (auto simp: bind_eq_Some_conv op_effect_def dest!: by_csr.retry_exchange split: if_splits option.splits)

lemma keygen_csr_effect:
  "est_client_server_keygen_enroll_csr env cl ctx net csr key = Some (rv, ctx', net', l) \<Longrightarrow> op_effect env 2 ctx net ctx' net'"
  unfolding est_client_server_keygen_enroll_csr_def by (auto dest: enroll_csr_internal_effect split: if_splits)

text \<open>The request of a re-enrollment, from the certificate that is renewed.\<close>

lemma reenroll_cases:
  assumes "est_client_reenroll env cl ctx net cert key = Some (rv, ctx', net', l)"
  obtains (nothing) "ctx' = ctx" "net' = net"
  | (request) k req e where "key = Some k"
      "auth_retry env (enroll_csr_attempt env cl EST_OP_SIMPLE_REENROLL (Some k)) True ctx net req = Some (rv, ctx', net', l, e)"
proof (cases "cert = None \<or> key = None \<or> \<not> cl_initialized ctx")
  case True
  with assms show ?thesis by (intro that(1)) (auto simp: est_client_reenroll_def split: option.splits)
next
  case False
  then obtain c k where ck: "cert = Some c" "key = Some k" "cl_initialized ctx" by auto
  note run = assms [unfolded est_client_reenroll_def ck option.case Let_def]
  show ?thesis
  proof (cases "est_client_check_x509 cl c \<noteq> EST_ERR_NONE \<or> check_private_key cl c k \<le> 0 \<or> X509_to_X509_REQ cl c = None")
    case True
    with run ck show ?thesis by (intro that(1)) (auto split: if_splits option.splits)
  next
    case False
    then obtain req where req: "X509_to_X509_REQ cl c = Some req" by auto
    define r where "r = (if ext_count cl c > 0 then add_extensions cl req c else Some req)"
    have "(case r of None \<Rightarrow> Some (est_client_check_x509 cl c, ctx, net, 0, 0)
        | Some req1 \<Rightarrow> do { (rv1, ctx1, net1, l, _) \<leftarrow>
              auth_retry env (enroll_csr_attempt env cl EST_OP_SIMPLE_REENROLL (Some k)) True ctx net req1;
            Some (rv1, ctx1, net1, l) }) = Some (rv, ctx', net', l)"
      using run ck False req by (simp add: r_def)
    with ck that show ?thesis by (cases r) (auto simp: bind_eq_Some_conv)
  qed
qed

lemma reenroll_effect:
  assumes "est_client_reenroll env cl ctx net cert key = Some (rv, ctx', net', l)"
  shows "op_effect env 2 ctx net ctx' net'"
  using assms
  by (cases rule: reenroll_cases) (auto simp: op_effect_def dest: by_csr.retry_exchange)

lemma get_cacerts_effect:
  assumes "est_client_get_cacerts env ctx net = Some (rv, ctx', net', n)"
  shows "op_effect env 1 ctx net ctx' net'"
proof (cases "cl_initialized ctx")
  case True
  then obtain rc so net1 where c: "est_client_connect env ctx net = Some (rc, so, net1)"
    using assms by (auto simp: est_client_get_cacerts_def bind_eq_Some_conv)
  note run = assms [unfolded est_client_get_cacerts_def c bind.simps prod.case]
  show ?thesis
  proof (cases so)
    case None
    with run True connect_exchange [OF c] show ?thesis by (auto simp: op_effect_def)
  next
    case (Some s)
    with run True have "est_client_send_cacerts_request env s ctx net1 = Some (rv, ctx', net', n)" by simp
    from send_cacerts_effect [OF this] connect_request c Some show ?thesis unfolding op_effect_def by blast
  qed
qed (use assms in \<open>auto simp: est_client_get_cacerts_def\<close>)

lemma get_csrattrs_effect:
  assumes "est_client_get_csrattrs env ctx net = Some (rv, ctx', net', n)"
  shows "op_effect env 1 ctx net ctx' net'"
proof -
  obtain rc so net1 where c: "est_client_connect env ctx net = Some (rc, so, net1)"
    using assms by (auto simp: est_client_get_csrattrs_def bind_eq_Some_conv)
  note run = assms [unfolded est_client_get_csrattrs_def c bind.simps prod.case]
  show ?thesis
  proof (cases so)
    case None
    with run connect_exchange [OF c] show ?thesis by (auto simp: op_effect_def)
  next
    case (Some s)
    then obtain rv1 ctx1 net2 attrs where
      r: "est_client_send_csrattrs_request env s (ctx\<lparr>retrieved_csrattrs := None\<rparr>) net1 = Some (rv1, ctx1, net2, attrs)"
      using run by (auto simp: bind_eq_Some_conv)
    have "net' = net2 \<and> frame ctx1 ctx'"
      using run Some r by (cases attrs) (auto simp: bind_eq_Some_conv Let_def split: if_splits)
    with send_csrattrs_effect [OF r] connect_request c Some show ?thesis
      unfolding op_effect_def using frame_trans by (metis frame_upd(10))
  qed
qed

lemma copy_cacerts_effect:
  "est_client_copy_cacerts ctx dst = Some (rv, ctx', d) \<Longrightarrow> frame ctx ctx'"
  unfolding est_client_copy_cacerts_def
  by (auto simp: bind_eq_Some_conv split: if_splits option.splits)

lemma copy_effects:
  "est_client_copy_enrolled_cert ctx dst = Some (rv, ctx', d) \<Longrightarrow> frame ctx ctx'"
  "est_client_copy_server_generated_key ctx dst = Some (rv, ctx', d) \<Longrightarrow> frame ctx ctx'"
  unfolding est_client_copy_enrolled_cert_def est_client_copy_server_generated_key_def
  by (auto simp: bind_eq_Some_conv split: if_splits option.splits)


lemma load_trusted_frame: "est_load_trusted_certs env ctx certs = (rv, ctx') \<Longrightarrow> frame ctx ctx'"
  by (auto simp: est_load_trusted_certs_def Let_def)

text \<open>Provisioning is three operations in a row; the trust anchors are replaced in between.\<close>

definition provision_tail ::
  "CLIENT_ENV \<Rightarrow> CSR_LIB \<Rightarrow> EST_CLIENT \<Rightarrow> NET \<Rightarrow> string \<Rightarrow> nat option \<Rightarrow> (EST_ERROR \<times> EST_CLIENT \<times> NET \<times> lens) option" where
  "provision_tail env cl ctx net common_name new_public_key =
     do { (rv, ctx1, net1, _) \<leftarrow> est_client_get_csrattrs env (ctx\<lparr>cl_initialized := True\<rparr>) net;
          if rv \<noteq> EST_ERR_NONE \<and> rv \<noteq> EST_ERR_HTTP_NO_CONTENT then Some (rv, ctx1, net1, 0, 0)
          else est_client_enroll env cl ctx1 net1 common_name new_public_key }"

lemma provision_tail_effect:
  assumes "provision_tail env cl ctx net cn key = Some (rv, ctx', net', l)"
  shows "op_effect env 3 ctx net ctx' net'"
proof -
  let ?c = "ctx\<lparr>cl_initialized := True\<rparr>"
  obtain rv1 ctx1 net1 a where g: "est_client_get_csrattrs env ?c net = Some (rv1, ctx1, net1, a)"
    using assms by (auto simp: provision_tail_def bind_eq_Some_conv)
  have "op_effect env 2 ctx1 net1 ctx' net'"
    using assms g enroll_internal_effect by (auto simp: provision_tail_def est_client_enroll_def split: if_splits)
  from op_effect_trans [OF get_csrattrs_effect [OF g] this] have "op_effect env 3 ?c net ctx' net'" by (simp add: numeral_3_eq_3)
  from op_effect_trans [OF op_effect_local [of ctx ?c env 0 net] this] show ?thesis by simp
qed

lemma provision_effect:
  assumes "est_client_provision_cert env cl ctx net cn key = Some (rv, ctx', net', l)"
  shows "op_effect env 4 ctx net ctx' net'"
proof (cases "cl_initialized ctx \<and> key \<noteq> None")
  case True
  then obtain rv1 ctx1 net1 len where g: "est_client_get_cacerts env ctx net = Some (rv1, ctx1, net1, len)"
    using assms by (auto simp: est_client_provision_cert_def bind_eq_Some_conv)
  note run = assms [unfolded est_client_provision_cert_def g bind.simps prod.case provision_tail_def [symmetric]]
  have "op_effect env 3 ctx1 net1 ctx' net'"
  proof (cases "rv1 = EST_ERR_NONE")
    case ok: True
    with run True obtain rv2 ctx2 p7 where c: "est_client_copy_cacerts ctx1 (Some (replicate len NUL)) = Some (rv2, ctx2, p7)"
      by (auto simp: bind_eq_Some_conv)
    note f2 = copy_cacerts_effect [OF c]
    note run = run [unfolded c bind.simps prod.case]
    show ?thesis
    proof (cases "rv2 = EST_ERR_NONE")
      case ok2: True
      with run True ok obtain pem where p: "est_convert_p7b64_to_pem env cl (the_bytes p7) = Some pem"
        by (auto simp: bind_eq_Some_conv)
      note run = run [unfolded p bind.simps]
      show ?thesis
      proof (cases pem)
        case (Some ta)
        obtain rv3 ctx3 where t: "est_load_trusted_certs env ctx2 (Some ta) = (rv3, ctx3)" by fastforce
        have f3: "frame ctx1 ctx3" using frame_trans [OF f2 load_trusted_frame [OF t]] .
        have "op_effect env 3 ctx3 net1 ctx' net'"
          using run True ok ok2 Some t by (auto dest: provision_tail_effect split: if_splits)
        with op_effect_trans [OF op_effect_local [OF f3, of env 0 net1]] show ?thesis by fastforce
      qed (use run True ok ok2 f2 in \<open>auto intro: op_effect_local\<close>)
    qed (use run True ok f2 in \<open>auto intro: op_effect_local\<close>)
  qed (use run True in auto)
  with op_effect_trans [OF get_cacerts_effect [OF g]] show ?thesis by fastforce
qed (use assms in \<open>auto simp: est_client_provision_cert_def split: if_splits\<close>)

section \<open>Results\<close>

lemma verify_key_and_cert_iff:
  "est_client_verify_key_and_cert env cl key cert = Some EST_ERR_NONE \<longleftrightarrow>
     (\<exists>p7 c k. est_client_get_pkcs7_from_buf env cl cert = Some (Inr p7) \<and> first_cert p7 = Some c
        \<and> est_client_get_pkey_from_buf env cl key = Some (Inr k) \<and> est_client_set_cert_and_key cl c k)"
proof (cases "est_client_get_pkcs7_from_buf env cl cert")
  case (Some p)
  show ?thesis
  proof (cases p)
    case (Inr p7)
    with Some show ?thesis
      by (cases "first_cert p7"; cases "est_client_get_pkey_from_buf env cl key")
        (auto simp: est_client_verify_key_and_cert_def split: sum.splits)
  qed (use Some in \<open>simp add: est_client_verify_key_and_cert_def\<close>)
qed (simp add: est_client_verify_key_and_cert_def)

lemma enroll_req_keygen:
  assumes "est_client_enroll_req env cl s ctx net req EST_OP_SERVER_KEYGEN = Some (EST_ERR_NONE, ctx', net', l)"
  shows "\<exists>cert key. enrolled_client_cert ctx' = Some cert \<and> server_gen_client_priv_key ctx' = Some key
    \<and> l = (length cert, length key) \<and> est_client_verify_key_and_cert env cl key cert = Some EST_ERR_NONE"
proof -
  obtain rv1 ctx1 net1 cert key where
    r: "est_client_send_enroll_request_internal env s ctx net (i2d_b64 cl req) EST_OP_SERVER_KEYGEN = Some (rv1, ctx1, net1, cert, key)"
    using assms by (auto simp: est_client_enroll_req_def bind_eq_Some_conv)
  note run = assms [unfolded est_client_enroll_req_def r bind.simps prod.case Let_def if_True simp_thms]
  from run have "rv1 = EST_ERR_NONE" "key \<noteq> []" by (auto simp: r split: if_splits)
  with run obtain v where "est_client_verify_key_and_cert env cl key cert = Some v" by (auto simp: r bind_eq_Some_conv)
  with run \<open>rv1 = EST_ERR_NONE\<close> \<open>key \<noteq> []\<close> show ?thesis by (auto simp: r split: if_splits)
qed

lemma cn_keygen:
  assumes "enroll_cn_attempt env cl cn EST_OP_SERVER_KEYGEN k s ctx net x = Some (EST_ERR_NONE, ctx', net', x', l)"
  shows "\<exists>cert key. enrolled_client_cert ctx' = Some cert \<and> server_gen_client_priv_key ctx' = Some key
    \<and> l = (length cert, length key) \<and> est_client_verify_key_and_cert env cl key cert = Some EST_ERR_NONE"
proof -
  have run: "est_client_enroll_cn env cl s ctx net cn EST_OP_SERVER_KEYGEN k = Some (EST_ERR_NONE, ctx', net', l)"
    using assms by (auto simp: enroll_cn_attempt_def bind_eq_Some_conv)
  then obtain uid where u: "est_get_tls_uid (env_ossl env) (ses_ssl s) True = Some uid"
    by (auto simp: est_client_enroll_cn_def bind_eq_Some_conv)
  note run = run [unfolded est_client_enroll_cn_def u bind.simps]
  then obtain t where t: "uid = Some t" by (cases uid) auto
  with run obtain req where "est_client_enroll_req env cl s ctx net req EST_OP_SERVER_KEYGEN = Some (EST_ERR_NONE, ctx', net', l)"
    by (cases "est_generate_pkcs10 cl ctx cn t k") (auto simp: est_generate_pkcs10_def populate_x509_request_def Let_def split: if_splits)
  then show ?thesis by (rule enroll_req_keygen)
qed

lemma csr_keygen:
  assumes "enroll_csr_attempt env cl EST_OP_SERVER_KEYGEN k s ctx net csr = Some (EST_ERR_NONE, ctx', net', csr', l)"
  shows "\<exists>cert key. enrolled_client_cert ctx' = Some cert \<and> server_gen_client_priv_key ctx' = Some key
    \<and> l = (length cert, length key) \<and> est_client_verify_key_and_cert env cl key cert = Some EST_ERR_NONE"
proof -
  have "\<exists>req. est_client_enroll_req env cl s ctx net req EST_OP_SERVER_KEYGEN = Some (EST_ERR_NONE, ctx', net', l)"
    using assms
    by (cases k) (auto simp: enroll_csr_attempt_def est_client_enroll_pkcs10_def Let_def bind_eq_Some_conv split: if_splits option.splits)
  with enroll_req_keygen show ?thesis by blast
qed

text \<open>The bytes of an enrollment request.\<close>

definition enroll_request :: "CLIENT_ENV \<Rightarrow> SESSION \<Rightarrow> EST_CLIENT \<Rightarrow> EST_OPERATION \<Rightarrow> string \<Rightarrow> string \<Rightarrow> bool" where
  "enroll_request env s ctx est_op body bytes \<longleftrightarrow>
     (\<exists>n ctx1 buf. build_enroll env s ctx (length body) est_op = Some (n, ctx1, buf) \<and> request_bytes buf n body = Some bytes)"

lemma ssl_exchange_sent: "ssl_exchange s net b = (a, net') \<Longrightarrow> sent net' = sent net @ [(s, b)]"
  by (auto simp: ssl_exchange_def Let_def split: if_splits)

lemma send_enroll_sent:
  assumes "est_client_send_enroll_request_internal env s ctx net body est_op = Some (rv, ctx', net', cert, key)"
    and "sent net' \<noteq> sent net"
  shows "\<exists>b. sent net' = sent net @ [(s, b)] \<and> enroll_request env s ctx est_op body b"
proof -
  obtain n ctx1 buf where h: "build_enroll env s ctx (length body) est_op = Some (n, ctx1, buf)"
    using assms(1) by (auto simp: est_client_send_enroll_request_internal_def build_enroll_def [symmetric] bind_eq_Some_conv)
  note run = assms(1) [unfolded est_client_send_enroll_request_internal_def build_enroll_def [symmetric] h bind.simps prod.case]
  have n: "n \<noteq> 0" using run assms(2) by (intro notI) simp
  then obtain b where b: "request_bytes buf n body = Some b" using run by (auto simp: bind_eq_Some_conv)
  obtain a net1 where x: "ssl_exchange s net b = (a, net1)" by fastforce
  have "net' = net1" using run n b x by (cases a) (auto simp: bind_eq_Some_conv)
  with ssl_exchange_sent [OF x] h b show ?thesis unfolding enroll_request_def by blast
qed

lemma enroll_req_sent:
  assumes "est_client_enroll_req env cl s ctx net req est_op = Some (rv, ctx', net', l)" and "sent net' \<noteq> sent net" and "enroll_op est_op"
  shows "\<exists>b. sent net' = sent net @ [(s, b)] \<and> enroll_request env s ctx est_op (i2d_b64 cl req) b"
proof -
  define op where "op = (if est_op = EST_OP_SERVER_KEYGEN then EST_OP_SERVER_KEYGEN
    else if est_op = EST_OP_SIMPLE_ENROLL then EST_OP_SIMPLE_ENROLL else EST_OP_SIMPLE_REENROLL)"
  have op: "op = est_op" using assms(3) by (auto simp: op_def enroll_op_def)
  obtain rv1 ctx1 net1 cert key where
    r: "est_client_send_enroll_request_internal env s ctx net (i2d_b64 cl req) est_op = Some (rv1, ctx1, net1, cert, key)"
    using assms(1) unfolding est_client_enroll_req_def op_def [symmetric] op by (auto simp: bind_eq_Some_conv)
  note run = assms(1) [unfolded est_client_enroll_req_def op_def [symmetric] op r bind.simps prod.case Let_def]
  have "net' = net1" using run by (auto simp: bind_eq_Some_conv split: if_splits)
  with send_enroll_sent [OF r] assms(2) show ?thesis by blast
qed

text \<open>The request that is signed and sent carries the identifier of its own TLS session, whatever it carried before.\<close>

definition pop_csr :: "EST_CLIENT \<Rightarrow> nat \<Rightarrow> string \<Rightarrow> CSR \<Rightarrow> CSR" where
  "pop_csr ctx k uid csr = csr\<lparr>csr_attrs := filter (\<lambda>a. fst a \<noteq> NID_pkcs9_challengePassword) (csr_attrs csr)
       @ [(NID_pkcs9_challengePassword, uid)], csr_signed := Some (k, signing_digest ctx)\<rparr>"

lemma csr_attempt_pop:
  assumes "enroll_csr_attempt env cl est_op (Some k) s ctx net csr = Some (rv, ctx', net', csr', l)"
    and "sent net' \<noteq> sent net" and "enroll_op est_op" and "pop_wanted ctx"
  shows "\<exists>b uid. est_get_tls_uid (env_ossl env) (ses_ssl s) True = Some (Some uid) \<and> csr' = pop_csr ctx k uid csr
    \<and> sent net' = sent net @ [(s, b)] \<and> enroll_request env s ctx est_op (i2d_b64 cl csr') b"
proof -
  have run: "est_client_enroll_pkcs10 env cl s ctx net csr est_op k = Some (rv, ctx', net', csr', l)"
    using assms(1) by (simp add: enroll_csr_attempt_def)
  obtain u where u: "est_get_tls_uid (env_ossl env) (ses_ssl s) True = Some u"
    using run assms(4) by (auto simp: est_client_enroll_pkcs10_def Let_def bind_eq_Some_conv)
  note run = run [unfolded est_client_enroll_pkcs10_def Let_def u bind.simps]
  obtain uid where uid: "u = Some uid" using run assms(2,4) by (cases u) auto
  have csr2: "(add_pop (est_client_clear_csr_pop csr) uid)\<lparr>csr_signed := Some (k, signing_digest ctx)\<rparr> = pop_csr ctx k uid csr"
    by (simp add: add_pop_def est_client_clear_csr_pop_def clear_attr_filter pop_csr_def)
  from run uid assms(2,4) have "csr' = pop_csr ctx k uid csr
      \<and> est_client_enroll_req env cl s ctx net (pop_csr ctx k uid csr) est_op = Some (rv, ctx', net', l)"
    unfolding csr2 [symmetric] by (auto simp: bind_eq_Some_conv split: if_splits)
  with enroll_req_sent [of env cl s ctx net "pop_csr ctx k uid csr" est_op rv ctx' net' l] assms(2,3) u uid show ?thesis by auto
qed

text \<open>Both ends of a TLS session see the same Finished messages.\<close>

definition same_session :: "SSL \<Rightarrow> SSL \<Rightarrow> bool" where
  "same_session client server \<longleftrightarrow> finished_msg client = peer_finished_msg server \<and> peer_finished_msg client = finished_msg server
     \<and> session_reused client = session_reused server \<and> ssl_version client = ssl_version server"

lemma same_session_uid: "same_session client server \<Longrightarrow> est_get_tls_uid ossl client True = est_get_tls_uid ossl server False"
  unfolding same_session_def est_get_tls_uid_def by simp

lemma same_writer_uid: "OPENSSL.bio_write o1 = OPENSSL.bio_write o2 \<Longrightarrow> est_get_tls_uid o1 ssl b = est_get_tls_uid o2 ssl b"
  unfolding est_get_tls_uid_def by simp

lemma uid_auth_prefix:
  assumes "challenge_attr ossl req = Some (Some uid)" and "est_get_tls_uid ossl ssl False = Some (Some uid)" and "uid \<noteq> []"
  shows "est_tls_uid_auth ossl ctx ssl req = Some EST_ERR_NONE"
  using assms by (simp add: est_tls_uid_auth_def memcmp_s_def rd_block_def)

section \<open>Properties\<close>

text \<open>C11: when server key generation succeeds, by name or by certificate request, the key and the certificate that
  the client keeps for the application belong together: the certificate is the first of the PKCS7 response, the key
  is decoded from the key part, and OpenSSL accepted both as a pair. The lengths reported are theirs.\<close>

theorem est_client_keygen_key_matches:
  assumes "est_client_server_keygen_enroll_csr env cl ctx net csr priv = Some (EST_ERR_NONE, ctx', net', l)
    \<or> est_client_server_keygen_enroll env cl ctx net cn priv = Some (EST_ERR_NONE, ctx', net', l)"
  shows "\<exists>cert key p7 c k. enrolled_client_cert ctx' = Some cert \<and> server_gen_client_priv_key ctx' = Some key
    \<and> l = (length cert, length key) \<and> est_client_get_pkcs7_from_buf env cl cert = Some (Inr p7) \<and> first_cert p7 = Some c
    \<and> est_client_get_pkey_from_buf env cl key = Some (Inr k) \<and> est_client_set_cert_and_key cl c k"
proof -
  have "\<exists>cert key. enrolled_client_cert ctx' = Some cert \<and> server_gen_client_priv_key ctx' = Some key
    \<and> l = (length cert, length key) \<and> est_client_verify_key_and_cert env cl key cert = Some EST_ERR_NONE"
    using assms
  proof
    assume "est_client_server_keygen_enroll_csr env cl ctx net csr priv = Some (EST_ERR_NONE, ctx', net', l)"
    then obtain req e where "auth_retry env (enroll_csr_attempt env cl EST_OP_SERVER_KEYGEN priv) False ctx net req
        = Some (EST_ERR_NONE, ctx', net', l, e)"
      by (auto simp: est_client_server_keygen_enroll_csr_def est_client_enroll_csr_internal_def bind_eq_Some_conv
          split: if_splits option.splits)
    from by_csr.retry_success [OF this] csr_keygen show ?thesis by blast
  next
    assume "est_client_server_keygen_enroll env cl ctx net cn priv = Some (EST_ERR_NONE, ctx', net', l)"
    then obtain k ctx1 e where "auth_retry env (enroll_cn_attempt env cl cn EST_OP_SERVER_KEYGEN k) True ctx net ()
        = Some (EST_ERR_NONE, ctx1, net', l, e)" and c: "ctx' = (if e then set_auth_none ctx1 else ctx1)"
      by (auto simp: est_client_server_keygen_enroll_def est_client_enroll_internal_def bind_eq_Some_conv
          split: if_splits option.splits)
    from by_name.retry_success [OF this(1)] cn_keygen c show ?thesis by (fastforce simp: set_auth_none_def)
  qed
  then show ?thesis by (auto simp: verify_key_and_cert_iff)
qed

text \<open>C12: with proof of possession, the certificate request that goes over a connection is signed with the
  client's key and carries the identifier of this very TLS session, whatever earlier attempts left in it; the
  server's check on the other end of the session accepts it.\<close>

theorem pop_accepted_by_server:
  assumes "enroll_csr_attempt env cl est_op (Some k) s ctx net csr = Some (rv, ctx', net', csr', l)" and "sent net' \<noteq> sent net"
    and "enroll_op est_op" and "pop_wanted ctx" and "est_get_tls_uid (env_ossl env) (ses_ssl s) True \<noteq> Some (Some [])"
    and "same_session (ses_ssl s) server_ssl" and "OPENSSL.bio_write ossl = OPENSSL.bio_write (env_ossl env)"
    and "challenge_attr ossl req = (case filter (\<lambda>a. fst a = NID_pkcs9_challengePassword) (csr_attrs csr') of
           [] \<Rightarrow> None | a # _ \<Rightarrow> Some (Some (snd a)))"
  shows "(\<exists>b. sent net' = sent net @ [(s, b)] \<and> enroll_request env s ctx est_op (i2d_b64 cl csr') b)
    \<and> csr_signed csr' = Some (k, signing_digest ctx) \<and> csr_subject csr' = csr_subject csr
    \<and> filter (\<lambda>a. fst a \<noteq> NID_pkcs9_challengePassword) (csr_attrs csr') = filter (\<lambda>a. fst a \<noteq> NID_pkcs9_challengePassword) (csr_attrs csr)
    \<and> est_tls_uid_auth ossl server_ctx server_ssl req = Some EST_ERR_NONE"
proof -
  obtain b uid where u: "est_get_tls_uid (env_ossl env) (ses_ssl s) True = Some (Some uid)" "csr' = pop_csr ctx k uid csr"
    "sent net' = sent net @ [(s, b)]" "enroll_request env s ctx est_op (i2d_b64 cl csr') b"
    using csr_attempt_pop [OF assms(1-4)] by blast
  have "est_get_tls_uid ossl server_ssl False = Some (Some uid)"
    using u(1) same_session_uid [OF assms(6)] same_writer_uid [OF assms(7)] by simp
  moreover have "challenge_attr ossl req = Some (Some uid)" using assms(8) u(2) by (simp add: pop_csr_def filter_filter)
  ultimately have "est_tls_uid_auth ossl server_ctx server_ssl req = Some EST_ERR_NONE"
    using assms(5) u(1) by (intro uid_auth_prefix) auto
  with u(2-4) show ?thesis by (auto simp: pop_csr_def)
qed

section \<open>Samples\<close>

definition sample_csr_lib :: CSR_LIB where
  "sample_csr_lib = \<lparr>set_version_ok = True, add_CN_ok = \<lambda>_. True, add_attr_ok = \<lambda>_. True, set_pubkey_ok = \<lambda>_. True,
     sign_ok = \<lambda>_ _ _. True, i2d_b64 = \<lambda>_. ''csr'', cert_has_signature = \<lambda>_. True, check_private_key = \<lambda>_ _. 1,
     X509_to_X509_REQ = \<lambda>_. Some empty_csr, ext_count = \<lambda>_. 1, add_extensions = \<lambda>r _. Some r,
     d2i_PKCS7 = \<lambda>_. Some \<lparr>p7_type = NID_pkcs7_signed, p7_cert = Some [1], p7_crl = False, p7_data = []\<rparr>,
     d2i_PrivateKey = \<lambda>_. Some 1, use_certificate = \<lambda>_. True, use_PrivateKey = \<lambda>_. True, key_matches_cert = \<lambda>c k. c = k,
     PEM_cert = \<lambda>_. ''pem''\<rparr>"

definition sample_keygen_env :: CLIENT_ENV where
  "sample_keygen_env = sample_env\<lparr>env_ossl := sample_ossl\<lparr>bio_read := \<lambda>_ s. replicate (3 * length s div 4) CHR ''d''\<rparr>\<rparr>"

definition sample_keygen_session :: SESSION where
  "sample_keygen_session = sample_session\<lparr>write_result := 1000,
     peer_answer := \<lambda>_. (map Read_Bytes [response_text ''HTTP/1.1 200 OK'' sample_mixed
       (keygen_body ''bnd'' sample_key sample_cert ''bnd--'')], False)\<rparr>"

definition sample_pop_client :: EST_CLIENT where
  "sample_pop_client = sample_basic_client\<lparr>client_force_pop := True\<rparr>"

lemma force_pop_upd:
  "client_ready env (ctx\<lparr>client_force_pop := p\<rparr>) = client_ready env ctx"
  "session_ready env s (ctx\<lparr>client_force_pop := p\<rparr>) = session_ready env s ctx"
  "enroll_base env (ctx\<lparr>client_force_pop := p\<rparr>) = enroll_base env ctx"
  by (simp_all add: client_ready_def session_ready_def creds_ok_def stack_ok_def enroll_base_def header_text_def request_uri_def fun_eq_iff)

lemma force_pop_auth: "enroll_auth env s (ctx\<lparr>client_force_pop := p\<rparr>) op = enroll_auth env s ctx op"
proof -
  have "credentials (ctx\<lparr>client_force_pop := p\<rparr>) m = credentials ctx m" "bearer_token (ctx\<lparr>client_force_pop := p\<rparr>) = bearer_token ctx" for m
    by (simp_all add: credentials_def configured_def bearer_token_def ask_application_def)
  moreover have "io (ctx\<lparr>client_force_pop := p\<rparr>) = io ctx" by simp
  ultimately show ?thesis unfolding enroll_auth_def auth_line_def by (simp only:)
qed

lemma sample_pop:
  "client_ready sample_env sample_pop_client" "session_ready sample_env sample_session sample_pop_client"
  "enroll_auth sample_env sample_session sample_pop_client op = Some (''Authorization: Basic AAAA'' @ [CR, LF])"
  "enroll_base sample_env sample_pop_client EST_OP_SIMPLE_ENROLL len = sample_request len"
  unfolding sample_pop_client_def force_pop_upd force_pop_auth by (fact sample_ready sample_auth sample_base)+

lemma sample_send:
  "\<exists>ctx' b. est_client_send_enroll_request_internal sample_env sample_session sample_pop_client net ''csr'' EST_OP_SIMPLE_ENROLL
     = Some (EST_ERR_SSL_WRITE, ctx', net\<lparr>sent := sent net @ [(sample_session, b)]\<rparr>, [], [])"
proof -
  define pk where "pk = ''csr''"
  have "itoa 3 = ''3''" by code_simp
  then have "length (sample_request 3) \<le> 500" by (simp add: sample_request_def)
  moreover have "write_result sample_session = -1" by (simp add: sample_session_def)
  moreover have "length pk = 3" by (simp add: pk_def)
  ultimately show ?thesis
    using send_enroll_sends [OF _ sample_pop(1,2), of EST_OP_SIMPLE_ENROLL pk net]
    unfolding sample_pop(3,4) pk_def [symmetric]
    by (auto simp: enroll_op_def the_bytes_def EST_HTTP_REQ_DATA_MAX_def EST_HTTP_HDR_MAX_def ssl_exchange_def)
qed

theorem pop_accepted_by_server_witness:
  "\<exists>ctx' b csr'. enroll_csr_attempt sample_env sample_csr_lib EST_OP_SIMPLE_ENROLL (Some 1) sample_session sample_pop_client
       \<lparr>sessions = [], sent = []\<rparr> (empty_csr\<lparr>csr_attrs := [(54, ''old''), (7, ''x'')]\<rparr>)
     = Some (EST_ERR_SSL_WRITE, ctx', \<lparr>sessions = [], sent = [(sample_session, b)]\<rparr>, csr', 0, 0)
   \<and> csr_attrs csr' = [(7, ''x''), (54, ''abcdefghijkl'')]
   \<and> est_tls_uid_auth (sample_ossl\<lparr>challenge_attr := \<lambda>_. Some (Some ''abcdefghijkl'')\<rparr>) sample_ctx sample_ssl 5 = Some EST_ERR_NONE"
proof -
  let ?csr = "empty_csr\<lparr>csr_attrs := [(54, ''old''), (7, ''x'')]\<rparr>" and ?o = "sample_ossl\<lparr>challenge_attr := \<lambda>_. Some (Some ''abcdefghijkl'')\<rparr>"
  define uid where "uid = ''abcdefghijkl''"
  have uid: "est_get_tls_uid (env_ossl sample_env) (ses_ssl sample_session) True = Some (Some uid)"
    unfolding uid_def by (simp add: sample_env_def sample_session_def) code_simp
  obtain ctx' b where s: "est_client_send_enroll_request_internal sample_env sample_session sample_pop_client
       \<lparr>sessions = [], sent = []\<rparr> ''csr'' EST_OP_SIMPLE_ENROLL
     = Some (EST_ERR_SSL_WRITE, ctx', \<lparr>sessions = [], sent = [(sample_session, b)]\<rparr>, [], [])"
    using sample_send [of "\<lparr>sessions = [], sent = []\<rparr>"] by auto
  define csr' where "csr' = pop_csr sample_pop_client 1 uid ?csr"
  have r: "est_client_enroll_req sample_env sample_csr_lib sample_session sample_pop_client \<lparr>sessions = [], sent = []\<rparr> csr' EST_OP_SIMPLE_ENROLL
      = Some (EST_ERR_SSL_WRITE, ctx', \<lparr>sessions = [], sent = [(sample_session, b)]\<rparr>, 0, 0)"
    using s by (simp add: est_client_enroll_req_def sample_csr_lib_def)
  have run: "enroll_csr_attempt sample_env sample_csr_lib EST_OP_SIMPLE_ENROLL (Some 1) sample_session sample_pop_client
       \<lparr>sessions = [], sent = []\<rparr> ?csr
     = Some (EST_ERR_SSL_WRITE, ctx', \<lparr>sessions = [], sent = [(sample_session, b)]\<rparr>, csr', 0, 0)"
  proof -
    have "(add_pop (est_client_clear_csr_pop ?csr) uid)\<lparr>csr_signed := Some (1, signing_digest sample_pop_client)\<rparr> = csr'"
      by (simp add: csr'_def add_pop_def est_client_clear_csr_pop_def clear_attr_filter pop_csr_def)
    moreover have "pop_wanted sample_pop_client" by (simp add: pop_wanted_def sample_pop_client_def)
    moreover have "sign_ok sample_csr_lib c k d" "add_attr_ok sample_csr_lib u" for c k d u by (simp_all add: sample_csr_lib_def)
    ultimately show ?thesis
      using uid r unfolding enroll_csr_attempt_def est_client_enroll_pkcs10_def Let_def by simp
  qed
  have attrs: "csr_attrs csr' = [(7, ''x''), (54, uid)]"
    by (simp add: csr'_def pop_csr_def NID_pkcs9_challengePassword_def)
  have "est_tls_uid_auth ?o sample_ctx sample_ssl 5 = Some EST_ERR_NONE"
    using pop_accepted_by_server [OF run, of sample_ssl ?o 5 sample_ctx] uid attrs
    by (simp add: enroll_op_def pop_wanted_def sample_pop_client_def same_session_def sample_ssl_def sample_session_def uid_def
        sample_env_def NID_pkcs9_challengePassword_def)
  with run attrs show ?thesis unfolding uid_def by blast
qed

lemma sample_keygen_connect:
  "est_client_connect sample_keygen_env sample_basic_client \<lparr>sessions = [sample_keygen_session], sent = []\<rparr>
     = Some (EST_ERR_NONE, Some sample_keygen_session, \<lparr>sessions = [], sent = []\<rparr>)"
proof -
  have "est_client_check_fqdn sample_net ''h'' False (Some \<lparr>altnames = Some [GEN_DNS ''h''], common_names = []\<rparr>) = Some EST_ERR_NONE"
    by code_simp
  then show ?thesis
    by (simp add: est_client_connect_def sample_keygen_session_def sample_session_def sample_keygen_env_def sample_env_def
        sample_basic_client_def sample_digest_client_def cstr_one)
qed

lemma sample_keygen_ready:
  "client_ready sample_keygen_env sample_basic_client" "session_ready sample_keygen_env sample_keygen_session sample_basic_client"
  "enroll_auth sample_keygen_env sample_keygen_session sample_basic_client op = Some (''Authorization: Basic AAAA'' @ [CR, LF])"
proof -
  have lib: "session_lib sample_keygen_env sample_keygen_session = session_lib sample_env sample_session"
    by (simp add: session_lib_def sample_keygen_env_def sample_keygen_session_def)
  show "client_ready sample_keygen_env sample_basic_client"
    using sample_ready(1) by (simp add: client_ready_def sample_keygen_env_def)
  show "session_ready sample_keygen_env sample_keygen_session sample_basic_client"
    using sample_ready(2) unfolding session_ready_def lib by (simp add: sample_keygen_session_def)
  show "enroll_auth sample_keygen_env sample_keygen_session sample_basic_client op = Some (''Authorization: Basic AAAA'' @ [CR, LF])"
    using sample_auth [of op] unfolding enroll_auth_def lib .
qed

lemma sample_keygen_header: "length (enroll_base sample_keygen_env sample_basic_client EST_OP_SERVER_KEYGEN 3) \<le> 500"
proof -
  have "cstr (est_server sample_basic_client) = ''h''" "est_port_num sample_basic_client = 8085"
    "uri_path_segment sample_basic_client = None" "PACKAGE_STRING sample_keygen_env = ''est''"
    by (simp_all add: sample_basic_client_def sample_digest_client_def cstr_one sample_env_def sample_keygen_env_def)
  moreover have "itoa 8085 = ''8085''" "itoa 3 = ''3''" by (simp_all add: itoa_def digits.simps char_of_def bit_0)
  ultimately show ?thesis by (simp add: enroll_base_def header_text_def request_uri_def pkcs10_headers_def EST_PATH_PREFIX_def)
qed

lemma sample_keygen_response:
  "est_io_get_multipart_response c (map Read_Bytes [response_text ''HTTP/1.1 200 OK'' sample_mixed
     (keygen_body ''bnd'' sample_key sample_cert ''bnd--'')]) False
   = Some (EST_ERR_NONE, c\<lparr>last_http_status := 200\<rparr>, Some (sample_key, sample_cert))"
proof -
  let ?r = "response_text ''HTTP/1.1 200 OK'' sample_mixed (keygen_body ''bnd'' sample_key sample_cert ''bnd--'')"
  have "concat [?r] = ?r" "?r \<noteq> []" by (simp_all add: response_text_def)
  then show ?thesis
    using sample_multipart sample_parts(3,4)
    by (intro multipart_delivers [where line = "''HTTP/1.1 200 OK''" and tail = "''bnd--''"])
      (simp_all add: line_ok_def EST_MIN_CLIENT_PKEY_LEN_def EST_MIN_CLIENT_CERT_LEN_def)
qed

lemma sample_keygen_result: "enroll_result EST_OP_SERVER_KEYGEN EST_ERR_NONE sample_key sample_cert = (EST_ERR_NONE, sample_cert, sample_key)"
proof -
  have "sample_key \<noteq> []" "sample_cert \<noteq> []" using sample_parts(3,4) by auto
  then show ?thesis by (simp add: enroll_result_def sample_parts EST_MAX_CLIENT_CERT_LEN_def EST_MAX_CLIENT_PKEY_LEN_def)
qed

lemma sample_keygen_send:
  "\<exists>ctx' net'. est_client_send_enroll_request_internal sample_keygen_env sample_keygen_session sample_basic_client net ''csr'' EST_OP_SERVER_KEYGEN
     = Some (EST_ERR_NONE, ctx', net', sample_cert, sample_key)"
proof -
  define pk where "pk = ''csr''"
  have pk: "length pk = 3" by (simp add: pk_def)
  have resp: "\<exists>c'. enroll_response EST_OP_SERVER_KEYGEN c (peer_answer sample_keygen_session b) = Some (c', EST_ERR_NONE, sample_cert, sample_key)"
    for c b by (simp add: enroll_response_def sample_keygen_session_def sample_keygen_response [simplified] sample_keygen_result)
  have wr: "write_result sample_keygen_session = 1000" by (simp add: sample_keygen_session_def)
  from sample_keygen_header have hdr: "length (enroll_base sample_keygen_env sample_basic_client EST_OP_SERVER_KEYGEN (length pk)
      @ the_bytes (enroll_auth sample_keygen_env sample_keygen_session sample_basic_client EST_OP_SERVER_KEYGEN)) \<le> EST_HTTP_HDR_MAX"
    unfolding sample_keygen_ready(3) pk by (simp add: the_bytes_def EST_HTTP_HDR_MAX_def)
  obtain ctx' where "est_client_send_enroll_request_internal sample_keygen_env sample_keygen_session sample_basic_client net pk EST_OP_SERVER_KEYGEN
      = (case ssl_exchange sample_keygen_session net (enroll_base sample_keygen_env sample_basic_client EST_OP_SERVER_KEYGEN (length pk)
            @ (''Authorization: Basic AAAA'' @ [CR, LF]) @ CRLF @ pk @ CRLF) of
           (None, net1) \<Rightarrow> Some (EST_ERR_SSL_WRITE, clear_status ctx', net1, [], [])
         | (Some answer, net1) \<Rightarrow>
             do { (ctx2, rv, cert, key) \<leftarrow> enroll_response EST_OP_SERVER_KEYGEN (clear_status ctx') answer;
                  Some (rv, ctx2, net1, cert, key) })"
    using send_enroll_sends [OF _ sample_keygen_ready(1,2) _ hdr, of net] pk
    unfolding sample_keygen_ready(3) option.case by (auto simp: enroll_op_def EST_HTTP_REQ_DATA_MAX_def)
  moreover obtain c' where "enroll_response EST_OP_SERVER_KEYGEN (clear_status ctx') (peer_answer sample_keygen_session
      (take 1000 (enroll_base sample_keygen_env sample_basic_client EST_OP_SERVER_KEYGEN (length pk)
            @ (''Authorization: Basic AAAA'' @ [CR, LF]) @ CRLF @ pk @ CRLF))) = Some (c', EST_ERR_NONE, sample_cert, sample_key)"
    using resp by blast
  ultimately show ?thesis unfolding pk_def ssl_exchange_def wr by (simp add: Let_def)
qed

lemma sample_keygen_verify:
  "est_client_verify_key_and_cert sample_keygen_env sample_csr_lib sample_key sample_cert = Some EST_ERR_NONE"
proof -
  have "est_base64_decode (\<lambda>_ s. replicate (3 * length s div 4) CHR ''d'') (replicate 128 CHR ''c'') 128 = Some (96, replicate 96 CHR ''d'')"
    by code_simp
  moreover have "est_base64_decode (\<lambda>_ s. replicate (3 * length s div 4) CHR ''d'') (replicate 256 CHR ''k'') 256 = Some (192, replicate 192 CHR ''d'')"
    by code_simp
  ultimately show ?thesis
    by (simp add: est_client_verify_key_and_cert_def est_client_get_pkcs7_from_buf_def est_client_get_pkey_from_buf_def sample_keygen_env_def
        sample_env_def sample_csr_lib_def sample_cert_def sample_key_def first_cert_def est_client_set_cert_and_key_def)
qed

theorem est_client_keygen_key_matches_witness:
  "\<exists>ctx' net'. est_client_server_keygen_enroll_csr sample_keygen_env (sample_csr_lib) sample_basic_client
       \<lparr>sessions = [sample_keygen_session], sent = []\<rparr> (Some empty_csr) (Some 1) = Some (EST_ERR_NONE, ctx', net', 128, 256)
     \<and> enrolled_client_cert ctx' = Some sample_cert"
proof -
  let ?net = "\<lparr>sessions = [], sent = []\<rparr>"
  obtain c n where s: "est_client_send_enroll_request_internal sample_keygen_env sample_keygen_session sample_basic_client ?net ''csr''
      EST_OP_SERVER_KEYGEN = Some (EST_ERR_NONE, c, n, sample_cert, sample_key)"
    using sample_keygen_send by blast
  define c' where "c' = c\<lparr>enrolled_client_cert := Some sample_cert, server_gen_client_priv_key := Some sample_key\<rparr>"
  have ne: "sample_key \<noteq> []" using sample_parts(3) by auto
  have r: "est_client_enroll_req sample_keygen_env sample_csr_lib sample_keygen_session sample_basic_client ?net csr EST_OP_SERVER_KEYGEN
      = Some (EST_ERR_NONE, c', n, 128, 256)" for csr
  proof -
    have "i2d_b64 sample_csr_lib csr = ''csr''" by (simp add: sample_csr_lib_def)
    with s ne sample_keygen_verify show ?thesis unfolding est_client_enroll_req_def by (simp add: sample_parts c'_def)
  qed
  have "\<exists>csr'. enroll_csr_attempt sample_keygen_env sample_csr_lib EST_OP_SERVER_KEYGEN (Some 1) sample_keygen_session sample_basic_client ?net empty_csr
      = Some (EST_ERR_NONE, c', n, csr', 128, 256)"
  proof -
    have "\<not> pop_wanted sample_basic_client" by (simp add: pop_wanted_def sample_basic_client_def sample_digest_client_def)
    moreover have "sign_ok sample_csr_lib a k d" for a k d by (simp add: sample_csr_lib_def)
    ultimately show ?thesis using r unfolding enroll_csr_attempt_def est_client_enroll_pkcs10_def Let_def by simp
  qed
  moreover have "cl_initialized sample_basic_client" by (simp add: sample_basic_client_def sample_digest_client_def)
  ultimately have run: "est_client_server_keygen_enroll_csr sample_keygen_env sample_csr_lib sample_basic_client
       \<lparr>sessions = [sample_keygen_session], sent = []\<rparr> (Some empty_csr) (Some 1) = Some (EST_ERR_NONE, c', n, 128, 256)"
    using sample_keygen_connect
    by (auto simp: est_client_server_keygen_enroll_csr_def est_client_enroll_csr_internal_def auth_retry_def)
  from est_client_keygen_key_matches [OF disjI1 [OF run]] run show ?thesis by (auto simp: c'_def)
qed

end
