(* ===== verification/Client_Config.thy ===== *)
theory Client_Config
  imports Client_Ops
begin

text \<open>
  Configuration of the client, \<^verbatim>\<open>src/src/est/est_client.c\<close>: creating the context, server, credentials, proxy, digest,
  proof of possession, timeouts and the decision about the server's certificate. The context pointer is never NULL and
  allocation succeeds; a string of the application is a string without NUL, a NULL pointer is \<^term>\<open>None\<close>. The
  settings that OpenSSL keeps in its \<^verbatim>\<open>SSL_CTX\<close> are modelled as far as libEST reads them again or a result depends
  on them: the verification mode. The \<^verbatim>\<open>uriparser\<close> build is modelled, with its parser as a parameter.
\<close>

datatype cipher_list = EST_CIPHER_LIST | EST_CIPHER_LIST_SRP_AUTH | EST_CIPHER_LIST_SRP_ONLY

record CONFIG_LIB =
  uri_parse :: "string \<Rightarrow> uri_seg list option"
  enable_brski :: bool
  have_uriparser :: bool
  have_libcurl :: bool
  SSL_CTX_new_ok :: bool
  cipher_list_ok :: "cipher_list \<Rightarrow> bool"
  verify_param_ok :: bool
  store_cert_cnt :: "string \<Rightarrow> nat"
  set_srp_username_ok :: "string \<Rightarrow> bool"
  set_srp_password_ok :: "string \<Rightarrow> bool"
  SRP_MINIMAL_N :: int

section \<open>The certificate of the server\<close>

datatype x509_err = X509_V_ERR_CERT_UNTRUSTED | X509_V_ERR_SELF_SIGNED_CERT_IN_CHAIN | CERT_ERR_UNABLE_TO_GET_CRL | X509_V_ERR_OTHER int

text \<open>
  What the callback finds: the EST context of the connection, unless an index or a pointer is missing, as the
  application's callback (or none).
\<close>

definition cert_verify_cb :: "int \<Rightarrow> (nat \<Rightarrow> x509_err \<Rightarrow> int) option option \<Rightarrow> x509_err \<Rightarrow> nat \<Rightarrow> int" where
  "cert_verify_cb ok e_ctx cert_error current_cert =
     (case e_ctx of
        None \<Rightarrow> ok
      | Some manual_cert_verify_cb \<Rightarrow>
          if ok \<noteq> 0 then ok
          else if cert_error \<in> {X509_V_ERR_CERT_UNTRUSTED, X509_V_ERR_SELF_SIGNED_CERT_IN_CHAIN, CERT_ERR_UNABLE_TO_GET_CRL} then
            (case manual_cert_verify_cb of
               Some cb \<Rightarrow> cb current_cert cert_error
             | None \<Rightarrow> if cert_error = CERT_ERR_UNABLE_TO_GET_CRL then 1 else ok)
          else ok)"

section \<open>Creating the context\<close>

definition SSL_VERIFY_PEER :: int where "SSL_VERIFY_PEER = 1"
definition SSL_VERIFY_FAIL_IF_NO_PEER_CERT :: int where "SSL_VERIFY_FAIL_IF_NO_PEER_CERT = 2"
definition EST_SSL_READ_TIMEOUT_MIN :: int where "EST_SSL_READ_TIMEOUT_MIN = 1"
definition EST_SSL_READ_TIMEOUT_MAX :: int where "EST_SSL_READ_TIMEOUT_MAX = 3600"
definition EST_SSL_READ_TIMEOUT_DEF :: int where "EST_SSL_READ_TIMEOUT_DEF = 10"

definition zero_client :: EST_CLIENT where
  "zero_client = \<lparr>io = \<lparr>cl_auth_mode = AUTH_NONE, cl_realm = replicate (MAX_REALM + 1) NUL, s_nonce = replicate (MAX_NONCE + 1) NUL,
       token_error = replicate (MAX_TOKEN_ERROR + 1) NUL, token_error_desc = replicate (MAX_TOKEN_ERROR_DESC + 1) NUL,
       cl_retry_after_delay = 0, retry_after_date = 0, last_http_status = 0\<rparr>,
     userid = replicate (MAX_UIDPWD + 1) NUL, password = replicate (MAX_UIDPWD + 1) NUL, c_nonce = replicate (MAX_NONCE + 1) NUL,
     auth_credentials_cb = None, est_server = replicate (EST_MAX_SERVERNAME_LEN + 1) NUL, est_port_num = 0, uri_path_segment = None,
     cl_initialized = False, cl_enable_srp = False, client_cert = None, client_key = None, csr_pop_required = False,
     client_force_pop = False, signing_digest = 0, cl_read_timeout = 0, cl_brski_mode = False, ssl_verify_mode = 0,
     trusted_certs = [], enrolled_client_cert = None, server_gen_client_priv_key = None, retrieved_ca_certs = None,
     retrieved_csrattrs = None\<rparr>"

definition NID_sha1 :: int where "NID_sha1 = 64"
definition NID_sha224 :: int where "NID_sha224 = 675"
definition NID_sha256 :: int where "NID_sha256 = 672"
definition NID_sha384 :: int where "NID_sha384 = 673"
definition NID_sha512 :: int where "NID_sha512 = 674"

definition est_client_init_ssl_ctx :: "CONFIG_LIB \<Rightarrow> EST_CLIENT \<Rightarrow> EST_ERROR \<times> EST_CLIENT" where
  "est_client_init_ssl_ctx cfg ctx =
     (if \<not> SSL_CTX_new_ok cfg then (EST_ERR_SSL_CTX_NEW, ctx)
      else if \<not> cipher_list_ok cfg EST_CIPHER_LIST then (EST_ERR_SSL_CIPHER_LIST, ctx)
      else if \<not> verify_param_ok cfg then (EST_ERR_MALLOC, ctx)
      else (EST_ERR_NONE, ctx\<lparr>ssl_verify_mode := or SSL_VERIFY_PEER SSL_VERIFY_FAIL_IF_NO_PEER_CERT\<rparr>))"

text \<open>The chain as the application's buffer with the length it gives; \<^term>\<open>None\<close> as a result is the NULL pointer.\<close>

definition est_client_init :: "CLIENT_ENV \<Rightarrow> CONFIG_LIB \<Rightarrow> mem option \<Rightarrow> int \<Rightarrow> bool \<Rightarrow> EST_CLIENT option" where
  "est_client_init env cfg ca_chain ca_chain_len format_is_PEM =
     (if \<not> format_is_PEM then None
      else if ca_chain \<noteq> None \<and> int (strnlen_s ca_chain EST_CA_MAX) \<noteq> ca_chain_len then None
      else
        (let (rv, ctx) = est_load_trusted_certs env zero_client (map_option (take (nat ca_chain_len)) ca_chain) in
         if rv \<noteq> EST_ERR_NONE then None
         else
           (let (rv1, ctx1) = est_client_init_ssl_ctx cfg ctx in
            if rv1 \<noteq> EST_ERR_NONE then None
            else Some (ctx1\<lparr>cl_read_timeout := EST_SSL_READ_TIMEOUT_DEF, signing_digest := NID_sha256,
                            io := (io ctx1)\<lparr>cl_retry_after_delay := 0, retry_after_date := 0\<rparr>, cl_initialized := True\<rparr>))))"

section \<open>Server and credentials\<close>

text \<open>The value of \<^verbatim>\<open>strcpy_s\<close> on an array of the context: the array, or \<^term>\<open>None\<close> for an error.\<close>

definition set_array :: "mem \<Rightarrow> nat \<Rightarrow> string \<Rightarrow> mem option option" where
  "set_array d n s = do { (b, e) \<leftarrow> strcpy_s (Some d) n (Some s); Some (if e = EOK then b else None) }"

definition est_client_set_uid_pw :: "EST_CLIENT \<Rightarrow> string option \<Rightarrow> string option \<Rightarrow> (EST_ERROR \<times> EST_CLIENT) option" where
  "est_client_set_uid_pw ctx uid pw =
     (case (uid, pw) of
        (Some _, None) \<Rightarrow> Some (EST_ERR_INVALID_PARAMETERS, ctx)
      | (None, Some _) \<Rightarrow> Some (EST_ERR_INVALID_PARAMETERS, ctx)
      | (None, None) \<Rightarrow> Some (EST_ERR_NONE, ctx)
      | (Some u, Some p) \<Rightarrow>
          if MAX_UIDPWD < strnlen_s (Some u) (MAX_UIDPWD + 1) then Some (EST_ERR_INVALID_PARAMETERS, ctx)
          else
            do { bu \<leftarrow> set_array (userid ctx) MAX_UIDPWD u;
                 case bu of
                   None \<Rightarrow> Some (EST_ERR_INVALID_PARAMETERS, ctx)
                 | Some ub \<Rightarrow>
                     (let ctx1 = ctx\<lparr>userid := ub\<rparr> in
                      if MAX_UIDPWD < strnlen_s (Some p) (MAX_UIDPWD + 1) then Some (EST_ERR_INVALID_PARAMETERS, ctx1)
                      else
                        do { bp \<leftarrow> set_array (password ctx1) MAX_UIDPWD p;
                             Some (case bp of
                                 None \<Rightarrow> (EST_ERR_INVALID_PARAMETERS, ctx1)
                               | Some pb \<Rightarrow> (EST_ERR_NONE, ctx1\<lparr>password := pb\<rparr>)) }) })"

definition est_client_set_auth ::
  "CSR_LIB \<Rightarrow> EST_CLIENT \<Rightarrow> string option \<Rightarrow> string option \<Rightarrow> nat option \<Rightarrow> nat option \<Rightarrow> (EST_ERROR \<times> EST_CLIENT) option" where
  "est_client_set_auth cl ctx uid pw cert private_key =
     do { (rv, ctx1) \<leftarrow> est_client_set_uid_pw ctx uid pw;
          if rv \<noteq> EST_ERR_NONE then Some (rv, ctx1)
          else
            (let ctx2 = (set_auth_none ctx1)\<lparr>client_key := private_key, client_cert := cert\<rparr> in
             Some (case (cert, private_key) of
                 (Some c, Some k) \<Rightarrow>
                   if est_client_set_cert_and_key cl c k then (EST_ERR_NONE, ctx2) else (EST_ERR_CLIENT_INVALID_KEY, ctx2)
               | _ \<Rightarrow> (EST_ERR_NONE, ctx2))) }"

definition est_client_set_auth_cred_cb :: "EST_CLIENT \<Rightarrow> (EST_HTTP_AUTH_HDR \<Rightarrow> EST_HTTP_AUTH_HDR) option \<Rightarrow> EST_ERROR \<times> EST_CLIENT" where
  "est_client_set_auth_cred_cb ctx callback = (EST_ERR_NONE, ctx\<lparr>auth_credentials_cb := callback\<rparr>)"

definition est_client_enable_basic_auth_hint :: "EST_CLIENT \<Rightarrow> EST_ERROR \<times> EST_CLIENT" where
  "est_client_enable_basic_auth_hint ctx = (EST_ERR_NONE, ctx\<lparr>io := (io ctx)\<lparr>cl_auth_mode := AUTH_BASIC\<rparr>\<rparr>)"

definition set_path_segment :: "CONFIG_LIB \<Rightarrow> EST_CLIENT \<Rightarrow> string \<Rightarrow> (EST_ERROR \<times> EST_CLIENT) option" where
  "set_path_segment cfg ctx path_segment =
     (if path_segment = [] then Some (EST_ERR_HTTP_INVALID_PATH_SEGMENT, ctx)
      else
        (let path_segment_len = strnlen_s (Some path_segment) (EST_MAX_PATH_SEGMENT_LEN + 1) in
         if path_segment_len > EST_MAX_PATH_SEGMENT_LEN then Some (EST_ERR_HTTP_INVALID_PATH_SEGMENT, ctx)
         else
           do { rc \<leftarrow> est_parse_path_seg (uri_parse cfg) (enable_brski cfg) path_segment;
                if rc \<noteq> EST_ERR_NONE then Some (rc, ctx)
                else
                  do { (buf, rc1) \<leftarrow> est_store_path_segment NUL path_segment path_segment_len;
                       Some (rc1, ctx\<lparr>uri_path_segment := Some (cstr buf)\<rparr>) } }))"

definition est_client_set_server ::
  "CONFIG_LIB \<Rightarrow> EST_CLIENT \<Rightarrow> string option \<Rightarrow> int \<Rightarrow> string option \<Rightarrow> (EST_ERROR \<times> EST_CLIENT) option" where
  "est_client_set_server cfg ctx server port path_segment =
     (if \<not> cl_initialized ctx then Some (EST_ERR_CLIENT_NOT_INITIALIZED, ctx)
      else (case server of
          None \<Rightarrow> Some (EST_ERR_INVALID_SERVER_NAME, ctx)
        | Some name \<Rightarrow>
            if port \<le> 0 \<or> port > 65535 then Some (EST_ERR_INVALID_PORT_NUM, ctx)
            else if EST_MAX_SERVERNAME_LEN < strnlen_s (Some name) (EST_MAX_SERVERNAME_LEN + 1) then Some (EST_ERR_INVALID_SERVER_NAME, ctx)
            else
              do { b \<leftarrow> set_array (est_server ctx) EST_MAX_SERVERNAME_LEN name;
                   case b of
                     None \<Rightarrow> Some (EST_ERR_INVALID_SERVER_NAME, ctx)
                   | Some sv \<Rightarrow>
                       (let ctx1 = ctx\<lparr>est_server := sv, est_port_num := port\<rparr> in
                        case path_segment of
                          None \<Rightarrow> Some (EST_ERR_NONE, ctx1)
                        | Some seg \<Rightarrow>
                            if have_uriparser cfg then set_path_segment cfg ctx1 seg
                            else Some (EST_ERR_HTTP_PATH_SEGMENT_NOT_SUPPORTED, ctx1)) }))"

section \<open>Other settings\<close>

definition est_client_set_sign_digest :: "EST_CLIENT \<Rightarrow> int \<Rightarrow> EST_ERROR \<times> EST_CLIENT" where
  "est_client_set_sign_digest ctx md =
     (if md \<in> {NID_sha512, NID_sha384, NID_sha256, NID_sha224, NID_sha1} then (EST_ERR_NONE, ctx\<lparr>signing_digest := md\<rparr>)
      else (EST_ERR_INVALID_DIGEST, ctx))"

definition est_client_copy_retry_after :: "EST_CLIENT \<Rightarrow> EST_ERROR \<times> EST_CLIENT \<times> (int \<times> int) option" where
  "est_client_copy_retry_after ctx =
     (if \<not> cl_initialized ctx then (EST_ERR_CLIENT_NOT_INITIALIZED, ctx, None)
      else (EST_ERR_NONE, ctx\<lparr>io := (io ctx)\<lparr>cl_retry_after_delay := 0, retry_after_date := 0\<rparr>\<rparr>,
            Some (cl_retry_after_delay (io ctx), retry_after_date (io ctx))))"

definition est_client_force_pop :: "EST_CLIENT \<Rightarrow> EST_ERROR \<times> EST_CLIENT" where
  "est_client_force_pop ctx = (EST_ERR_NONE, ctx\<lparr>client_force_pop := True\<rparr>)"

definition est_client_unforce_pop :: "EST_CLIENT \<Rightarrow> EST_ERROR \<times> EST_CLIENT" where
  "est_client_unforce_pop ctx = (EST_ERR_NONE, ctx\<lparr>client_force_pop := False\<rparr>)"

definition est_client_set_read_timeout :: "EST_CLIENT \<Rightarrow> int \<Rightarrow> EST_ERROR \<times> EST_CLIENT" where
  "est_client_set_read_timeout ctx timeout =
     (if timeout < EST_SSL_READ_TIMEOUT_MIN \<or> timeout > EST_SSL_READ_TIMEOUT_MAX then (EST_ERR_INVALID_PARAMETERS, ctx)
      else (EST_ERR_NONE, ctx\<lparr>cl_read_timeout := timeout\<rparr>))"

definition est_client_get_last_http_status :: "EST_CLIENT \<Rightarrow> int" where
  "est_client_get_last_http_status ctx = last_http_status (io ctx)"

definition est_client_set_brski_mode :: "EST_CLIENT \<Rightarrow> EST_ERROR \<times> EST_CLIENT" where
  "est_client_set_brski_mode ctx =
     (if \<not> cl_initialized ctx then (EST_ERR_CLIENT_NOT_INITIALIZED, ctx)
      else if cl_brski_mode ctx then (EST_ERR_INVALID_PARAMETERS, ctx)
      else (EST_ERR_NONE, ctx\<lparr>cl_brski_mode := True, ssl_verify_mode := or (not SSL_VERIFY_PEER) (not SSL_VERIFY_FAIL_IF_NO_PEER_CERT)\<rparr>))"

definition est_client_enable_srp :: "CONFIG_LIB \<Rightarrow> EST_CLIENT \<Rightarrow> int \<Rightarrow> string option \<Rightarrow> string option \<Rightarrow> EST_ERROR \<times> EST_CLIENT" where
  "est_client_enable_srp cfg ctx strength uid pw =
     (if strength < SRP_MINIMAL_N cfg then (EST_ERR_SRP_STRENGTH_LOW, ctx)
      else (case (uid, pw) of
          (Some u, Some p) \<Rightarrow>
            (let ctx1 = ctx\<lparr>cl_enable_srp := True\<rparr> in
             if \<not> cipher_list_ok cfg (if store_cert_cnt cfg (trusted_certs ctx) > 0 then EST_CIPHER_LIST_SRP_AUTH else EST_CIPHER_LIST_SRP_ONLY)
             then (EST_ERR_SSL_CIPHER_LIST, ctx1)
             else if \<not> set_srp_username_ok cfg u then (EST_ERR_UNKNOWN, ctx1)
             else if \<not> set_srp_password_ok cfg p then (EST_ERR_UNKNOWN, ctx1)
             else (EST_ERR_NONE, ctx1))
        | _ \<Rightarrow> (EST_ERR_INVALID_PARAMETERS, ctx)))"

section \<open>HTTP and SOCKS proxies\<close>

record PROXY_CONF =
  use_proxy :: bool
  proxy_proto :: int
  proxy_server :: mem
  proxy_port :: "16 word"
  proxy_auth :: "32 word"
  proxy_username :: mem
  proxy_password :: mem

definition clear_first :: "mem \<Rightarrow> mem" where
  "clear_first m = m[0 := NUL]"

definition set_proxy_credentials :: "PROXY_CONF \<Rightarrow> 32 word \<Rightarrow> string \<Rightarrow> string \<Rightarrow> (EST_ERROR \<times> PROXY_CONF) option" where
  "set_proxy_credentials pc auth username pw =
     (if MAX_UIDPWD < strnlen_s (Some username) (MAX_UIDPWD + 2) then Some (EST_ERR_INVALID_PARAMETERS, pc)
      else if username = [] then Some (EST_ERR_INVALID_PARAMETERS, pc)
      else
        do { bu \<leftarrow> set_array (clear_first (proxy_username pc)) (MAX_UIDPWD + 1) username;
             case bu of
               None \<Rightarrow> Some (EST_ERR_INVALID_PARAMETERS, pc\<lparr>proxy_username := clear_first (proxy_username pc)\<rparr>)
             | Some ub \<Rightarrow>
                 (let pc1 = pc\<lparr>proxy_username := ub\<rparr> in
                  if MAX_UIDPWD < strnlen_s (Some pw) (MAX_UIDPWD + 2) then Some (EST_ERR_INVALID_PARAMETERS, pc1)
                  else if pw = [] then Some (EST_ERR_INVALID_PARAMETERS, pc1)
                  else
                    do { bp \<leftarrow> set_array (clear_first (proxy_password pc1)) (MAX_UIDPWD + 1) pw;
                         Some (case bp of
                             None \<Rightarrow> (EST_ERR_INVALID_PARAMETERS, pc1\<lparr>proxy_password := clear_first (proxy_password pc1)\<rparr>)
                           | Some pb \<Rightarrow> (EST_ERR_NONE, pc1\<lparr>proxy_password := pb, proxy_auth := auth, use_proxy := True\<rparr>)) }) })"

definition est_client_set_proxy ::
  "CONFIG_LIB \<Rightarrow> EST_CLIENT \<Rightarrow> PROXY_CONF \<Rightarrow> int \<Rightarrow> string option \<Rightarrow> 16 word \<Rightarrow> 32 word \<Rightarrow> string option \<Rightarrow> string option
     \<Rightarrow> (EST_ERROR \<times> PROXY_CONF) option" where
  "est_client_set_proxy cfg ctx pc proto server port auth username pw =
     (if \<not> have_libcurl cfg then Some (EST_ERR_CLIENT_PROXY_MODE_NOT_SUPPORTED, pc)
      else if \<not> cl_initialized ctx then Some (EST_ERR_CLIENT_NOT_INITIALIZED, pc)
      else if server = None \<or> server = Some [] then Some (EST_ERR_INVALID_SERVER_NAME, pc)
      else if EST_MAX_SERVERNAME_LEN < strnlen_s server (EST_MAX_SERVERNAME_LEN + 2) then Some (EST_ERR_INVALID_SERVER_NAME, pc)
      else
        do { b \<leftarrow> set_array (clear_first (proxy_server pc)) (EST_MAX_SERVERNAME_LEN + 1) (the_bytes server);
             case b of
               None \<Rightarrow> Some (EST_ERR_INVALID_SERVER_NAME, pc\<lparr>proxy_server := clear_first (proxy_server pc)\<rparr>)
             | Some sv \<Rightarrow>
                 (let pc1 = pc\<lparr>proxy_server := sv\<rparr> in
                  if port = 0 then Some (EST_ERR_INVALID_PORT_NUM, pc1)
                  else
                    (let pc2 = pc1\<lparr>proxy_port := port\<rparr> in
                     if proto < 0 \<or> proto > 7 then Some (EST_ERR_INVALID_CLIENT_PROXY_PROTOCOL, pc2)
                     else
                       (let pc3 = pc2\<lparr>proxy_proto := proto\<rparr> in
                        if auth \<noteq> 0 \<and> and auth (not (or 1 8)) \<noteq> 0 then Some (EST_ERR_INVALID_CLIENT_PROXY_AUTH, pc3)
                        else
                          (let pc4 = pc3\<lparr>proxy_auth := auth\<rparr> in
                           case (username, pw) of
                             (Some u, Some p) \<Rightarrow>
                               if auth \<noteq> 0 then set_proxy_credentials pc4 auth u p else Some (EST_ERR_NONE, pc4\<lparr>use_proxy := True\<rparr>)
                           | _ \<Rightarrow> Some (EST_ERR_NONE, pc4\<lparr>use_proxy := True\<rparr>))))) })"

end
