(* ===== verification/Client_Session.thy ===== *)
theory Client_Session
  imports Client_Config
begin

text \<open>
  The client as a state machine: the calls of the public interface in any order, from a context that
  \<^verbatim>\<open>est_client_init\<close> created. What holds after every sequence of calls: the arrays of the context are terminated and
  every setting is in its range; and every request of a call goes to the server that is configured at this call.
\<close>

section \<open>Calls\<close>

datatype client_call =
    Set_Server "string option" int "string option"
  | Set_Auth "string option" "string option" "nat option" "nat option"
  | Set_Auth_Cred_Cb "(EST_HTTP_AUTH_HDR \<Rightarrow> EST_HTTP_AUTH_HDR) option"
  | Basic_Auth_Hint
  | Set_Sign_Digest int
  | Copy_Retry_After
  | Force_Pop
  | Unforce_Pop
  | Set_Read_Timeout int
  | Set_Brski_Mode
  | Enable_Srp int "string option" "string option"
  | Get_Cacerts
  | Copy_Cacerts "mem option"
  | Get_Csrattrs
  | Enroll string "nat option"
  | Keygen_Enroll string "nat option"
  | Enroll_Csr "CSR option" "nat option"
  | Keygen_Enroll_Csr "CSR option" "nat option"
  | Reenroll "nat option" "nat option"
  | Provision_Cert string "nat option"
  | Copy_Enrolled_Cert "mem option"
  | Copy_Generated_Key "mem option"

text \<open>A call yields its error, the context and the network; settings do not touch the network.\<close>

definition local_call :: "NET \<Rightarrow> (EST_ERROR \<times> EST_CLIENT) option \<Rightarrow> (EST_ERROR \<times> EST_CLIENT \<times> NET) option" where
  "local_call net r = map_option (\<lambda>(rv, ctx). (rv, ctx, net)) r"

definition drop_result :: "(EST_ERROR \<times> EST_CLIENT \<times> NET \<times> 'a) option \<Rightarrow> (EST_ERROR \<times> EST_CLIENT \<times> NET) option" where
  "drop_result r = map_option (\<lambda>(rv, ctx, net, _). (rv, ctx, net)) r"

definition drop_copy :: "NET \<Rightarrow> (EST_ERROR \<times> EST_CLIENT \<times> 'a) option \<Rightarrow> (EST_ERROR \<times> EST_CLIENT \<times> NET) option" where
  "drop_copy net r = map_option (\<lambda>(rv, ctx, _). (rv, ctx, net)) r"

fun run_call :: "CLIENT_ENV \<Rightarrow> CSR_LIB \<Rightarrow> CONFIG_LIB \<Rightarrow> client_call \<Rightarrow> EST_CLIENT \<Rightarrow> NET \<Rightarrow> (EST_ERROR \<times> EST_CLIENT \<times> NET) option" where
  "run_call env cl cfg (Set_Server server port seg) ctx net = local_call net (est_client_set_server cfg ctx server port seg)"
| "run_call env cl cfg (Set_Auth u p c k) ctx net = local_call net (est_client_set_auth cl ctx u p c k)"
| "run_call env cl cfg (Set_Auth_Cred_Cb cb) ctx net = local_call net (Some (est_client_set_auth_cred_cb ctx cb))"
| "run_call env cl cfg Basic_Auth_Hint ctx net = local_call net (Some (est_client_enable_basic_auth_hint ctx))"
| "run_call env cl cfg (Set_Sign_Digest n) ctx net = local_call net (Some (est_client_set_sign_digest ctx n))"
| "run_call env cl cfg Copy_Retry_After ctx net = drop_copy net (Some (est_client_copy_retry_after ctx))"
| "run_call env cl cfg Force_Pop ctx net = local_call net (Some (est_client_force_pop ctx))"
| "run_call env cl cfg Unforce_Pop ctx net = local_call net (Some (est_client_unforce_pop ctx))"
| "run_call env cl cfg (Set_Read_Timeout t) ctx net = local_call net (Some (est_client_set_read_timeout ctx t))"
| "run_call env cl cfg Set_Brski_Mode ctx net = local_call net (Some (est_client_set_brski_mode ctx))"
| "run_call env cl cfg (Enable_Srp n u p) ctx net = local_call net (Some (est_client_enable_srp cfg ctx n u p))"
| "run_call env cl cfg Get_Cacerts ctx net = drop_result (est_client_get_cacerts env ctx net)"
| "run_call env cl cfg (Copy_Cacerts d) ctx net = drop_copy net (est_client_copy_cacerts ctx d)"
| "run_call env cl cfg Get_Csrattrs ctx net = drop_result (est_client_get_csrattrs env ctx net)"
| "run_call env cl cfg (Enroll cn k) ctx net = drop_result (est_client_enroll env cl ctx net cn k)"
| "run_call env cl cfg (Keygen_Enroll cn k) ctx net = drop_result (est_client_server_keygen_enroll env cl ctx net cn k)"
| "run_call env cl cfg (Enroll_Csr csr k) ctx net = drop_result (est_client_enroll_csr env cl ctx net csr k)"
| "run_call env cl cfg (Keygen_Enroll_Csr csr k) ctx net = drop_result (est_client_server_keygen_enroll_csr env cl ctx net csr k)"
| "run_call env cl cfg (Reenroll c k) ctx net = drop_result (est_client_reenroll env cl ctx net c k)"
| "run_call env cl cfg (Provision_Cert cn k) ctx net = drop_result (est_client_provision_cert env cl ctx net cn k)"
| "run_call env cl cfg (Copy_Enrolled_Cert d) ctx net = drop_copy net (est_client_copy_enrolled_cert ctx d)"
| "run_call env cl cfg (Copy_Generated_Key d) ctx net = drop_copy net (est_client_copy_server_generated_key ctx d)"

inductive client_reachable :: "CLIENT_ENV \<Rightarrow> CSR_LIB \<Rightarrow> CONFIG_LIB \<Rightarrow> EST_CLIENT \<Rightarrow> NET \<Rightarrow> bool" for env cl cfg where
  init: "est_client_init env cfg ca_chain len pem = Some ctx \<Longrightarrow> client_reachable env cl cfg ctx \<lparr>sessions = ss, sent = []\<rparr>"
| call: "client_reachable env cl cfg ctx net \<Longrightarrow> run_call env cl cfg c ctx net = Some (rv, ctx', net') \<Longrightarrow> client_reachable env cl cfg ctx' net'"

inductive_cases client_reachableE: "client_reachable env cl cfg ctx net"

lemma call_simps:
  "local_call net r = Some (rv, ctx', net') \<longleftrightarrow> net' = net \<and> r = Some (rv, ctx')"
  "drop_copy net q = Some (rv, ctx', net') \<longleftrightarrow> net' = net \<and> (\<exists>x. q = Some (rv, ctx', x))"
  "drop_result t = Some (rv, ctx', net') \<longleftrightarrow> (\<exists>x. t = Some (rv, ctx', net', x))"
  by (auto simp: local_call_def drop_copy_def drop_result_def)

section \<open>Every request goes to the configured server\<close>

fun setting :: "client_call \<Rightarrow> bool" where
  "setting (Set_Server _ _ _) = True" | "setting (Set_Auth _ _ _ _) = True" | "setting (Set_Auth_Cred_Cb _) = True"
| "setting Basic_Auth_Hint = True" | "setting (Set_Sign_Digest _) = True" | "setting Copy_Retry_After = True"
| "setting Force_Pop = True" | "setting Unforce_Pop = True" | "setting (Set_Read_Timeout _) = True" | "setting Set_Brski_Mode = True"
| "setting (Enable_Srp _ _ _) = True" | "setting _ = False"

lemma setting_net: "setting c \<Longrightarrow> run_call env cl cfg c ctx net = Some (rv, ctx', net') \<Longrightarrow> net' = net"
  by (cases c) (auto simp: call_simps)

lemma operation_effect:
  "\<not> setting c \<Longrightarrow> run_call env cl cfg c ctx net = Some (rv, ctx', net') \<Longrightarrow> op_effect env 4 ctx net ctx' net'"
  by (cases c)
    (auto simp: call_simps est_client_enroll_def est_client_server_keygen_enroll_def est_client_enroll_csr_def
      intro: op_effect_local copy_cacerts_effect copy_effects provision_effect
        op_effect_mono [OF get_cacerts_effect] op_effect_mono [OF get_csrattrs_effect] op_effect_mono [OF enroll_internal_effect]
        op_effect_mono [OF enroll_csr_internal_effect] op_effect_mono [OF keygen_csr_effect] op_effect_mono [OF reenroll_effect])

lemma call_exchange:
  assumes "run_call env cl cfg c ctx net = Some (rv, ctx', net')"
  shows "exchange env ctx 4 net net'"
proof (cases "setting c")
  case True
  with setting_net [OF _ assms] show ?thesis by simp
next
  case False
  with operation_effect [OF _ assms] show ?thesis by (simp add: op_effect_def)
qed

section \<open>The invariant of the context\<close>

definition client_inv :: "EST_CLIENT \<Rightarrow> bool" where
  "client_inv ctx \<longleftrightarrow> creds_ok ctx \<and> array_ok EST_MAX_SERVERNAME_LEN (est_server ctx)
     \<and> (case uri_path_segment ctx of None \<Rightarrow> True | Some seg \<Rightarrow> NUL \<notin> set seg)
     \<and> est_port_num ctx \<in> {0..65535} \<and> cl_read_timeout ctx \<in> {EST_SSL_READ_TIMEOUT_MIN..EST_SSL_READ_TIMEOUT_MAX}
     \<and> signing_digest ctx \<in> {NID_sha1, NID_sha224, NID_sha256, NID_sha384, NID_sha512}"

lemma frame_inv: "frame ctx ctx' \<Longrightarrow> client_inv ctx \<Longrightarrow> client_inv ctx'"
  by (simp add: frame_def client_inv_def settings_def)

lemma zero_client_creds: "creds_ok zero_client" "array_ok EST_MAX_SERVERNAME_LEN (est_server zero_client)"
  using replicate_array_ok [of MAX_REALM] replicate_array_ok [of MAX_NONCE] replicate_array_ok [of MAX_UIDPWD]
    replicate_array_ok [of MAX_TOKEN_ERROR] replicate_array_ok [of MAX_TOKEN_ERROR_DESC] replicate_array_ok [of EST_MAX_SERVERNAME_LEN]
  unfolding creds_ok_def client_ok_def zero_client_def by (simp_all del: replicate.simps replicate_Suc)

lemma init_inv:
  assumes "est_client_init env cfg ca len pem = Some ctx"
  shows "client_inv ctx \<and> cl_initialized ctx"
proof -
  obtain tc vm where "ctx = zero_client\<lparr>trusted_certs := tc, ssl_verify_mode := vm, cl_read_timeout := EST_SSL_READ_TIMEOUT_DEF,
      signing_digest := NID_sha256, io := (io zero_client)\<lparr>cl_retry_after_delay := 0, retry_after_date := 0\<rparr>, cl_initialized := True\<rparr>"
    using assms by (auto simp: est_client_init_def est_load_trusted_certs_def est_client_init_ssl_ctx_def Let_def split: if_splits)
  with zero_client_creds show ?thesis
    by (simp add: client_inv_def creds_ok_def client_ok_def EST_SSL_READ_TIMEOUT_DEF_def EST_SSL_READ_TIMEOUT_MIN_def EST_SSL_READ_TIMEOUT_MAX_def)
      (simp add: zero_client_def)
qed

lemma set_array_ok:
  assumes "array_ok n d" and "0 < n"
  obtains d' where "set_array d n s = Some (Some d')" "array_ok n d'" "cstr d' = take n (cstr s)"
  using strcpy_s_array [OF assms, of s] by (auto simp: set_array_def)

lemma set_uid_pw_inv:
  assumes "client_inv ctx" and "est_client_set_uid_pw ctx u p = Some (rv, ctx')"
  shows "client_inv ctx'"
proof -
  have ok: "array_ok MAX_UIDPWD (userid ctx)" "array_ok MAX_UIDPWD (password ctx)" "0 < MAX_UIDPWD"
    using assms(1) by (simp_all add: client_inv_def creds_ok_def MAX_UIDPWD_def)
  have upd: "array_ok MAX_UIDPWD a \<Longrightarrow> client_inv (c\<lparr>userid := a\<rparr>)" "array_ok MAX_UIDPWD a \<Longrightarrow> client_inv (c\<lparr>password := a\<rparr>)"
    if "client_inv c" for a c using that by (simp_all add: client_inv_def creds_ok_def)
  show ?thesis
  proof (cases "u = None \<or> p = None")
    case True
    with assms show ?thesis by (cases u; cases p) (auto simp: est_client_set_uid_pw_def)
  next
    case False
    then obtain us ps where [simp]: "u = Some us" "p = Some ps" by auto
    obtain ub where ub: "set_array (userid ctx) MAX_UIDPWD us = Some (Some ub)" "array_ok MAX_UIDPWD ub" by (rule set_array_ok [OF ok(1,3)])
    obtain pb where pb: "set_array (password ctx) MAX_UIDPWD ps = Some (Some pb)" "array_ok MAX_UIDPWD pb" by (rule set_array_ok [OF ok(2,3)])
    have ctx': "ctx' \<in> {ctx, ctx\<lparr>userid := ub\<rparr>, ctx\<lparr>userid := ub, password := pb\<rparr>}"
      using assms(2) ub(1) pb(1)
      by (cases "MAX_UIDPWD < strnlen_s (Some us) (MAX_UIDPWD + 1)"; cases "MAX_UIDPWD < strnlen_s (Some ps) (MAX_UIDPWD + 1)")
        (simp_all add: est_client_set_uid_pw_def Let_def)
    have "client_inv (ctx\<lparr>userid := ub\<rparr>)" using upd(1) [OF assms(1) ub(2)] .
    with ctx' assms(1) upd(2) [OF this pb(2)] show ?thesis by auto
  qed
qed

lemma set_auth_inv: "client_inv ctx \<Longrightarrow> est_client_set_auth cl ctx u p c k = Some (rv, ctx') \<Longrightarrow> client_inv ctx'"
proof -
  assume "client_inv ctx" and run: "est_client_set_auth cl ctx u p c k = Some (rv, ctx')"
  obtain rv1 ctx1 where s: "est_client_set_uid_pw ctx u p = Some (rv1, ctx1)"
    using run by (auto simp: est_client_set_auth_def bind_eq_Some_conv)
  note inv = set_uid_pw_inv [OF \<open>client_inv ctx\<close> s]
  have "ctx' = ctx1 \<or> ctx' = (set_auth_none ctx1)\<lparr>client_key := k, client_cert := c\<rparr>"
    using run s by (cases c; cases k) (auto simp: est_client_set_auth_def Let_def split: if_splits)
  with inv show "client_inv ctx'" by (auto simp: client_inv_def creds_ok_def set_auth_none_def)
qed

lemma strcpy_s_text: "strcpy_s (Some d) n (Some x) = Some (Some b, e) \<Longrightarrow> NUL \<notin> set (cstr b)"
  by (rule cstr_no_nul)

lemma set_path_segment_inv:
  assumes "client_inv ctx" and "set_path_segment cfg ctx seg = Some (rv, ctx')"
  shows "client_inv ctx'"
proof -
  have "ctx' = ctx \<or> (\<exists>b. ctx' = ctx\<lparr>uri_path_segment := Some (cstr b)\<rparr>)"
    using assms(2) by (auto simp: set_path_segment_def Let_def bind_eq_Some_conv split: if_splits)
  with assms(1) show ?thesis by (auto simp: client_inv_def creds_ok_def)
qed

lemma set_server_inv:
  assumes inv: "client_inv ctx" and run: "est_client_set_server cfg ctx server port seg = Some (rv, ctx')"
  shows "client_inv ctx'"
proof (cases "\<not> cl_initialized ctx \<or> server = None \<or> port \<le> 0 \<or> port > 65535
    \<or> EST_MAX_SERVERNAME_LEN < strnlen_s server (EST_MAX_SERVERNAME_LEN + 1)")
  case True
  then have "ctx' = ctx" using run by (cases server) (auto simp: est_client_set_server_def split: if_splits)
  with inv show ?thesis by simp
next
  case False
  then obtain name where name: "server = Some name" by auto
  have "array_ok EST_MAX_SERVERNAME_LEN (est_server ctx)" "0 < EST_MAX_SERVERNAME_LEN"
    using inv by (simp_all add: client_inv_def EST_MAX_SERVERNAME_LEN_def)
  then obtain sv where sv: "set_array (est_server ctx) EST_MAX_SERVERNAME_LEN name = Some (Some sv)" "array_ok EST_MAX_SERVERNAME_LEN sv"
    by (rule set_array_ok)
  have inv1: "client_inv (ctx\<lparr>est_server := sv, est_port_num := port\<rparr>)"
    using inv sv(2) False by (simp add: client_inv_def creds_ok_def)
  show ?thesis
  proof (cases seg)
    case None
    with run False name sv(1) inv1 show ?thesis by (simp add: est_client_set_server_def)
  next
    case (Some path)
    with run False name sv(1) inv1 show ?thesis
      by (cases "have_uriparser cfg") (auto simp: est_client_set_server_def dest: set_path_segment_inv)
  qed
qed

lemma client_inv_upd [simp]:
  "client_inv (ctx\<lparr>auth_credentials_cb := cb\<rparr>) = client_inv ctx" "client_inv (ctx\<lparr>client_force_pop := fp\<rparr>) = client_inv ctx"
  "client_inv (ctx\<lparr>cl_enable_srp := es\<rparr>) = client_inv ctx"
  "client_inv (ctx\<lparr>cl_brski_mode := bm, ssl_verify_mode := vm\<rparr>) = client_inv ctx"
  by (simp_all add: client_inv_def creds_ok_def)

lemma client_inv_io: "client_ok c = client_ok (io ctx) \<Longrightarrow> client_inv (ctx\<lparr>io := c\<rparr>) = client_inv ctx"
  by (simp add: client_inv_def creds_ok_def)

lemma setting_inv:
  assumes "setting c" and "run_call env cl cfg c ctx net = Some (rv, ctx', net')" and "client_inv ctx"
  shows "client_inv ctx'"
proof (cases c)
  case (Set_Server server port seg)
  with assms set_server_inv show ?thesis by (auto simp: call_simps)
next
  case (Set_Auth u p c k)
  with assms set_auth_inv show ?thesis by (auto simp: call_simps)
next
  case (Enable_Srp n u p)
  with assms have "ctx' = ctx \<or> ctx' = ctx\<lparr>cl_enable_srp := True\<rparr>"
    by (cases u; cases p) (auto simp: call_simps est_client_enable_srp_def Let_def split: if_splits)
  with assms(3) show ?thesis by auto
next
  case (Set_Sign_Digest n)
  with assms have "ctx' = ctx \<or> n \<in> {NID_sha1, NID_sha224, NID_sha256, NID_sha384, NID_sha512} \<and> ctx' = ctx\<lparr>signing_digest := n\<rparr>"
    by (auto simp: call_simps est_client_set_sign_digest_def split: if_splits)
  with assms(3) show ?thesis by (auto simp: client_inv_def creds_ok_def)
next
  case (Set_Read_Timeout t)
  with assms have "ctx' = ctx \<or> t \<in> {EST_SSL_READ_TIMEOUT_MIN..EST_SSL_READ_TIMEOUT_MAX} \<and> ctx' = ctx\<lparr>cl_read_timeout := t\<rparr>"
    by (auto simp: call_simps est_client_set_read_timeout_def split: if_splits)
  with assms(3) show ?thesis by (auto simp: client_inv_def creds_ok_def)
next
  case Copy_Retry_After
  with assms show ?thesis by (auto simp: call_simps est_client_copy_retry_after_def client_inv_io split: if_splits)
next
  case Basic_Auth_Hint
  with assms show ?thesis by (auto simp: call_simps est_client_enable_basic_auth_hint_def client_inv_io)
next
  case Set_Brski_Mode
  with assms show ?thesis by (auto simp: call_simps est_client_set_brski_mode_def split: if_splits)
qed (use assms in \<open>auto simp: call_simps est_client_set_auth_cred_cb_def est_client_force_pop_def est_client_unforce_pop_def\<close>)

lemma call_inv:
  assumes "run_call env cl cfg c ctx net = Some (rv, ctx', net')" and "client_inv ctx"
  shows "client_inv ctx'"
  using setting_inv [OF _ assms] operation_effect [OF _ assms(1)] frame_inv [OF _ assms(2)] by (cases "setting c") (auto simp: op_effect_def)

section \<open>Properties\<close>

text \<open>C18: whatever calls an application makes, in whatever order and with whatever arguments, the context stays
  well-formed: user, password, host name, nonces, realm and token texts are terminated inside their arrays, the port,
  the read timeout and the signing digest are legal, and the path segment is a C string.\<close>

theorem client_calls_invariant:
  assumes "client_reachable env cl cfg ctx net"
  shows "client_inv ctx"
  using assms by induction (use init_inv call_inv in blast)+


section \<open>Samples\<close>

definition sample_cfg :: CONFIG_LIB where
  "sample_cfg = \<lparr>uri_parse = \<lambda>_. None, enable_brski = False, have_uriparser = True, have_libcurl = True, SSL_CTX_new_ok = True,
     cipher_list_ok = \<lambda>_. True, verify_param_ok = True, store_cert_cnt = \<lambda>_. 0, set_srp_username_ok = \<lambda>_. True,
     set_srp_password_ok = \<lambda>_. True, SRP_MINIMAL_N = 1024\<rparr>"

theorem client_calls_invariant_witness:
  "\<exists>ctx. client_reachable sample_env sample_csr_lib sample_cfg ctx \<lparr>sessions = [], sent = []\<rparr> \<and> client_inv ctx
     \<and> cl_read_timeout ctx = 60 \<and> client_force_pop ctx"
proof -
  let ?net = "\<lparr>sessions = [], sent = []\<rparr> :: NET" and ?R = "client_reachable sample_env sample_csr_lib sample_cfg"
  obtain ctx where c: "est_client_init sample_env sample_cfg None 0 True = Some ctx"
    by (auto simp: est_client_init_def est_load_trusted_certs_def ossl_init_cert_store_def est_client_init_ssl_ctx_def sample_cfg_def)
  have "?R ctx ?net" using c by (rule client_reachable.init)
  then have "?R (ctx\<lparr>cl_read_timeout := 60\<rparr>) ?net"
    by (rule client_reachable.call [where c = "Set_Read_Timeout 60" and rv = EST_ERR_NONE])
      (simp add: call_simps est_client_set_read_timeout_def EST_SSL_READ_TIMEOUT_MIN_def EST_SSL_READ_TIMEOUT_MAX_def)
  then have r: "?R (ctx\<lparr>cl_read_timeout := 60, client_force_pop := True\<rparr>) ?net"
    by (rule client_reachable.call [where c = Force_Pop and rv = EST_ERR_NONE]) (simp add: call_simps est_client_force_pop_def)
  from client_calls_invariant [OF r] r show ?thesis by (intro exI [of _ "ctx\<lparr>cl_read_timeout := 60, client_force_pop := True\<rparr>"]) simp
qed

lemma sample_connect:
  "est_client_connect sample_env sample_pop_client \<lparr>sessions = [sample_session], sent = []\<rparr>
     = Some (EST_ERR_NONE, Some sample_session, \<lparr>sessions = [], sent = []\<rparr>)"
proof -
  have "est_client_check_fqdn sample_net ''h'' False (Some \<lparr>altnames = Some [GEN_DNS ''h''], common_names = []\<rparr>) = Some EST_ERR_NONE"
    by code_simp
  then show ?thesis
    by (simp add: est_client_connect_def sample_session_def sample_env_def sample_pop_client_def sample_basic_client_def sample_digest_client_def cstr_one)
qed


end
