(* ===== verification/Enroll_Path.thy ===== *)
theory Enroll_Path
  imports Http_Stream Client_Session
begin

text \<open>
  An enrollment from the client of \<^verbatim>\<open>est_client.c\<close> to the handler of \<^verbatim>\<open>est_server.c\<close>: the bytes the client hands to TLS, cut into
  pieces of any size by the network, make the connection loop of the server call its EST handler with the PKCS10 text.
\<close>

section \<open>The request of the client\<close>

definition client_headers :: "CLIENT_ENV \<Rightarrow> EST_CLIENT \<Rightarrow> nat \<Rightarrow> (string \<times> string) list \<Rightarrow> (string \<times> string) list" where
  "client_headers env ctx len auth =
     [(''User-Agent'', PACKAGE_STRING env), (''Connection'', ''close''), (''Host'', cstr (est_server ctx) @ '':'' @ itoa (est_port_num ctx)),
      (''Accept'', ''*/*''), (''Content-Type'', ''application/pkcs10''), (''Content-Length'', itoa (int len))] @ auth"

lemma enroll_bytes:
  assumes "a = concat (map render_hdr auth)"
  shows "enroll_base env ctx est_op len @ a @ CRLF @ x =
    request_head ''POST'' (request_uri ctx (enroll_op_name est_op)) (client_headers env ctx len auth) @ x"
  by (simp add: assms enroll_base_def header_text_def pkcs10_headers_def request_head_def client_headers_def render_hdr_def CRLF_def)

lemma header_names:
  "mg_strcasecmp ''Content-Length'' ''User-Agent'' \<noteq> 0" "mg_strcasecmp ''Content-Length'' ''Connection'' \<noteq> 0"
  "mg_strcasecmp ''Content-Length'' ''Host'' \<noteq> 0" "mg_strcasecmp ''Content-Length'' ''Accept'' \<noteq> 0"
  "mg_strcasecmp ''Content-Length'' ''Content-Type'' \<noteq> 0" "mg_strcasecmp ''Content-Length'' ''Content-Length'' = 0"
  "mg_strcasecmp ''Content-Type'' ''User-Agent'' \<noteq> 0" "mg_strcasecmp ''Content-Type'' ''Connection'' \<noteq> 0"
  "mg_strcasecmp ''Content-Type'' ''Host'' \<noteq> 0" "mg_strcasecmp ''Content-Type'' ''Accept'' \<noteq> 0"
  "mg_strcasecmp ''Content-Type'' ''Content-Type'' = 0"
  "mg_strcasecmp ''Connection'' ''User-Agent'' \<noteq> 0" "mg_strcasecmp ''Connection'' ''Connection'' = 0"
  "mg_strcasecmp ''close'' ''keep-alive'' \<noteq> 0"
  by code_simp+

lemma client_headers_find:
  "kw_find mg_strcasecmp ''Content-Length'' (client_headers env ctx len auth) = Some (digits len)"
  "kw_find mg_strcasecmp ''Content-Type'' (client_headers env ctx len auth) = Some ''application/pkcs10''"
  "kw_find mg_strcasecmp ''Connection'' (client_headers env ctx len auth) = Some ''close''"
  unfolding client_headers_def append.simps kw_find.simps using header_names by (simp_all only: if_False if_True not_False_eq_True simp_thms itoa_def of_nat_less_0_iff nat_int)

lemma enroll_bytes_sent:
  assumes "enroll_op est_op" and "client_ready env ctx" and "session_ready env s ctx" and "length pkcs10 \<le> EST_HTTP_REQ_DATA_MAX"
    and "length (enroll_base env ctx est_op (length pkcs10) @ the_bytes (enroll_auth env s ctx est_op)) \<le> EST_HTTP_HDR_MAX"
    and "est_client_send_enroll_request_internal env s ctx net pkcs10 est_op = Some (rv, ctx', net', cert, key)"
    and "sent net' = sent net @ [(s, bytes)]"
  obtains a where "enroll_auth env s ctx est_op = Some a" "bytes = enroll_base env ctx est_op (length pkcs10) @ a @ CRLF @ pkcs10 @ CRLF"
proof (cases "enroll_auth env s ctx est_op")
  case None
  with send_enroll_sends [OF assms(1-5), of net] assms(6,7) show ?thesis by auto
next
  case (Some a)
  define bs where "bs = enroll_base env ctx est_op (length pkcs10) @ a @ CRLF @ pkcs10 @ CRLF"
  obtain answer net1 where x: "ssl_exchange s net bs = (answer, net1)" by (cases "ssl_exchange s net bs")
  then have net1: "sent net1 = sent net @ [(s, bs)]" by (auto simp: ssl_exchange_def Let_def split: if_split_asm)
  obtain c1 where "est_client_send_enroll_request_internal env s ctx net pkcs10 est_op =
      (case answer of None \<Rightarrow> Some (EST_ERR_SSL_WRITE, clear_status c1, net1, [], [])
       | Some ans \<Rightarrow> do { (ctx2, rv, cert, key) \<leftarrow> enroll_response est_op (clear_status c1) ans; Some (rv, ctx2, net1, cert, key) })"
    using send_enroll_sends [OF assms(1-5), of net] unfolding Some option.case bs_def [symmetric] x prod.case by blast
  then have "(case answer of None \<Rightarrow> Some (EST_ERR_SSL_WRITE, clear_status c1, net1, [], [])
       | Some ans \<Rightarrow> do { (ctx2, rv, cert, key) \<leftarrow> enroll_response est_op (clear_status c1) ans; Some (rv, ctx2, net1, cert, key) })
      = Some (rv, ctx', net', cert, key)" using assms(6) by simp
  then have "net' = net1" by (cases answer) (auto simp: bind_eq_Some_conv)
  then have "bytes = bs" using net1 assms(7) by simp
  then show ?thesis using that Some by (simp add: bs_def)
qed

section \<open>Properties\<close>

text \<open>C13: an enrollment request reaches the server unchanged. Whatever an enrollment, re-enrollment or key generation of the client hands
  to TLS, and however the network cuts it, the server calls its EST handler exactly once, with POST, the URI of the
  operation and path segment, the PKCS10 text as body and its content type; it sees the headers the client wrote,
  the Authorization header among them, and then closes the connection, as the client asked for.\<close>

theorem enrollment_reaches_server:
  assumes "enroll_op est_op" and "client_ready cenv cctx" and "session_ready cenv s cctx" and "length pkcs10 \<le> EST_HTTP_REQ_DATA_MAX"
    and "length (enroll_base cenv cctx est_op (length pkcs10) @ the_bytes (enroll_auth cenv s cctx est_op)) \<le> EST_HTTP_HDR_MAX"
    and "est_client_send_enroll_request_internal cenv s cctx net pkcs10 est_op = Some (crv, cctx', net', cert, key)"
    and "sent net' = sent net @ [(s, bytes)]"
    and "enroll_auth cenv s cctx est_op = Some (concat (map render_hdr auth))"
    and "head_ok ''POST'' (request_uri cctx (enroll_op_name est_op)) (client_headers cenv cctx (length pkcs10) auth)"
    and "plain_path (request_uri cctx (enroll_op_name est_op))"
    and "est_server_handle_request env acc (Some ctx) c = Some (rv, ctx', c')" and "accepted acc"
    and "est_mode ctx = EST_SERVER" "transport_mode ctx = EST_HTTP" and "\<forall>n. length (c_heap c n) = n" and "feeding c" and "coming c = bytes"
  shows "handled c' = handled c @ [(''POST'', request_uri cctx (enroll_op_name est_op), pkcs10, Some ''application/pkcs10'')]
    \<and> http_headers (request_info (mg c')) = client_headers cenv cctx (length pkcs10) auth \<and> \<not> should_keep_alive (mg c')"
proof -
  let ?u = "request_uri cctx (enroll_op_name est_op)" and ?hs = "client_headers cenv cctx (length pkcs10) auth"
  let ?c = "upd_conn (data_len_update (\<lambda>_. 0)) (accept_connection c)"
  obtain a where a: "enroll_auth cenv s cctx est_op = Some a" "bytes = enroll_base cenv cctx est_op (length pkcs10) @ a @ CRLF @ pkcs10 @ CRLF"
    by (rule enroll_bytes_sent [OF assms(1-7)])
  then have bytes: "bytes = request_text (''POST'', ?u, ?hs, pkcs10) @ CRLF"
    using assms(8) by (simp add: enroll_bytes request_text_def)
  have "int (length pkcs10) \<le> EST_MAX_CONTENT_LEN" using assms(4) by (simp add: EST_HTTP_REQ_DATA_MAX_def EST_MAX_CONTENT_LEN_def)
  then have good: "request_good (''POST'', ?u, ?hs, pkcs10)"
    using assms(9,10) by (simp add: request_good_def framed_def client_headers_find)
  from assms(11) obtain ctx1 where run: "serve_requests env ctx ?c = Some (ctx1, c')"
    by (auto simp: handle_request_accepted [OF assms(12,14)] process_new_connection_def bind_eq_Some_conv)
  have pend: "pending ?c = request_text (''POST'', ?u, ?hs, pkcs10) @ CRLF" using assms(17) bytes by (simp add: accept_pending)
  have feed: "feeding ?c" using assms(16) by simp
  obtain ctx2 c2 where c2: "handled c2 = handled ?c @ [as_handled (''POST'', ?u, ?hs, pkcs10)]" "request_parsed (mg c2) ''POST'' ?u ?hs"
    "serve_requests env ctx ?c = (if should_keep_alive (mg c2) then serve_requests env ctx2 c2 else Some (ctx2, c2))"
    by (rule serve_requests_first [OF accept_connection_ok [OF assms(15)] feed assms(13) pend good run]) (rule that)
  have hdr: "mg_get_header (mg c2) ''Connection'' = Some ''close''"
    using c2(2) client_headers_find(3) by (simp add: request_parsed_def mg_get_header_def get_header_def)
  have closes: "\<not> should_keep_alive (mg c2)" unfolding should_keep_alive_def Let_def hdr using header_names(14) by simp
  then have "c2 = c'" using c2(3) run by simp
  then show ?thesis using c2(1,2) closes by (simp add: as_handled_def request_parsed_def client_headers_find(2))
qed

lemma visible_client: "visible ''User-Agent''" "visible ''est''" "visible ''Connection''" "visible ''close''" "visible ''h:8085''" "visible ''Accept''"
  "visible ''*/*''" "visible ''Authorization''" "visible ''Basic AAAA''"
  unfolding visible_eval by code_simp+

lemma sample_client_uri: "request_uri sample_basic_client (enroll_op_name EST_OP_SIMPLE_ENROLL) = ''/.well-known/est/simpleenroll''"
  by (simp add: request_uri_def sample_basic_client_def sample_digest_client_def EST_PATH_PREFIX_def)

lemma sample_client_headers:
  "client_headers sample_env sample_basic_client 3 [(''Authorization'', ''Basic AAAA'')] =
    [(''User-Agent'', ''est''), (''Connection'', ''close''), (''Host'', ''h:8085''), (''Accept'', ''*/*''), (''Content-Type'', ''application/pkcs10''),
     (''Content-Length'', ''3''), (''Authorization'', ''Basic AAAA'')]"
proof -
  have "itoa 8085 = ''8085''" by (simp add: itoa_def digits.simps char_of_def bit_0)
  moreover have "itoa (int 3) = ''3''" by code_simp
  ultimately show ?thesis
    by (simp add: client_headers_def sample_env_def sample_basic_client_def sample_digest_client_def cstr_one)
qed

lemma sample_client_head:
  "head_ok ''POST'' ''/.well-known/est/simpleenroll''
    [(''User-Agent'', ''est''), (''Connection'', ''close''), (''Host'', ''h:8085''), (''Accept'', ''*/*''), (''Content-Type'', ''application/pkcs10''),
     (''Content-Length'', ''3''), (''Authorization'', ''Basic AAAA'')]"
  using visible_client visible_samples
  by (simp add: head_ok_def hdr_ok_def line_ok_def NUM_REQUEST_HEADERS_def MAX_REQUEST_SIZE_def request_head_def render_hdr_def CRLF_def)

theorem enrollment_reaches_server_witness:
  "\<exists>bytes crv cctx' net' cert key rv ctx' c'.
     est_client_send_enroll_request_internal sample_env sample_session sample_basic_client \<lparr>sessions = [], sent = []\<rparr> ''csr'' EST_OP_SIMPLE_ENROLL
       = Some (crv, cctx', net', cert, key) \<and> sent net' = [(sample_session, bytes)]
     \<and> est_server_handle_request sample_server sample_accept (Some sample_ctx) (sample_peer [take 20 bytes, drop 20 bytes]) = Some (rv, ctx', c')
     \<and> handled c' = [(''POST'', ''/.well-known/est/simpleenroll'', ''csr'', Some ''application/pkcs10'')]"
proof -
  define pk net where "pk = ''csr''" and "net = \<lparr>sessions = [], sent = []\<rparr>"
  have pk: "length pk = 3" by (simp add: pk_def)
  let ?op = EST_OP_SIMPLE_ENROLL
  let ?auth = "[(''Authorization'', ''Basic AAAA'')]"
  have auth: "enroll_auth sample_env sample_session sample_basic_client ?op = Some (concat (map render_hdr ?auth))"
    unfolding sample_auth by (simp add: render_hdr_def CRLF_def)
  have len: "length (enroll_base sample_env sample_basic_client ?op (length pk) @ the_bytes (enroll_auth sample_env sample_session sample_basic_client ?op))
      \<le> EST_HTTP_HDR_MAX"
  proof -
    have "itoa 3 = ''3''" by code_simp
    then have "length (sample_request 3) \<le> 500" by (simp add: sample_request_def CRLF_def)
    then show ?thesis unfolding pk sample_base sample_auth by (simp add: the_bytes_def EST_HTTP_HDR_MAX_def)
  qed
  have small: "length pk \<le> EST_HTTP_REQ_DATA_MAX" by (simp add: pk EST_HTTP_REQ_DATA_MAX_def)
  have op: "enroll_op ?op" by (simp add: enroll_op_def)
  define bytes where "bytes = enroll_base sample_env sample_basic_client ?op (length pk) @ concat (map render_hdr ?auth) @ CRLF @ pk @ CRLF"
  have wr: "write_result sample_session = -1" by (simp add: sample_session_def)
  obtain cctx' where send: "est_client_send_enroll_request_internal sample_env sample_session sample_basic_client net pk ?op
      = Some (EST_ERR_SSL_WRITE, cctx', net\<lparr>sent := sent net @ [(sample_session, bytes)]\<rparr>, [], [])"
    using send_enroll_sends [OF op sample_ready small len, of net]
    unfolding auth option.case bytes_def [symmetric] ssl_exchange_def Let_def wr by auto
  have sent: "sent (net\<lparr>sent := sent net @ [(sample_session, bytes)]\<rparr>) = sent net @ [(sample_session, bytes)]" by simp
  let ?c = "sample_peer [take 20 bytes, drop 20 bytes]"
  obtain rv ctx' c' where run: "est_server_handle_request sample_server sample_accept (Some sample_ctx) ?c = Some (rv, ctx', c')"
    by (rule sample_run)
  have feed: "feeding ?c" by (auto simp: feeding_def sample_peer_def wait_until_socket_is_readable_def MSEC_POLL_WAIT_TIME_def)
  have come: "coming ?c = bytes" by (simp add: coming_def sample_peer_def ev_bytes_def)
  have acc: "accepted sample_accept" "est_mode sample_ctx = EST_SERVER" "transport_mode sample_ctx = EST_HTTP"
    by (simp_all add: accepted_def sample_accept_def sample_ctx_def)
  have head: "head_ok ''POST'' (request_uri sample_basic_client (enroll_op_name ?op)) (client_headers sample_env sample_basic_client (length pk) ?auth)"
    unfolding pk sample_client_uri sample_client_headers by (rule sample_client_head)
  have plain: "plain_path (request_uri sample_basic_client (enroll_op_name ?op))" unfolding sample_client_uri by (rule sample_plain(2))
  have "handled c' = handled ?c @ [(''POST'', request_uri sample_basic_client (enroll_op_name ?op), pk, Some ''application/pkcs10'')]"
    using enrollment_reaches_server [OF op sample_ready small len send sent auth head plain run acc sample_peer_heap feed come] by blast
  moreover have "handled ?c = []" by (simp add: sample_peer_def)
  moreover have "sent (net\<lparr>sent := sent net @ [(sample_session, bytes)]\<rparr>) = [(sample_session, bytes)]" by (simp add: net_def)
  ultimately show ?thesis using send run unfolding sample_client_uri pk_def net_def by fastforce
qed


end
