(* ===== verification/Spec2Isabelle.thy ===== *)
theory Spec2Isabelle
  imports Enroll_Path
begin

text \<open>
  A model of libEST, an implementation of Enrollment over Secure Transport (RFC 7030) in C, and the theorems
  that make it correct. The sources are under \<^verbatim>\<open>src/src/est\<close> and \<^verbatim>\<open>src/safe_c_stub\<close>.

  \<^bold>\<open>The program.\<close> A server (\<^verbatim>\<open>est_server.c\<close>, \<^verbatim>\<open>est_server_http.c\<close>) reads HTTP requests from TLS connections, parses
  the URI (\<^verbatim>\<open>est.c\<close>), authenticates the client by certificate, SRP, HTTP authentication or enhanced certificate
  authentication (\<^verbatim>\<open>est_enhcd_cert_auth.c\<close>), checks the certificate request (signature, proof of possession,
  CSR attributes) and calls the application for CA certificates, enrollment, key generation or BRSKI vouchers.
  A client (\<^verbatim>\<open>est_client.c\<close>, \<^verbatim>\<open>est_client_http.c\<close>) checks the identity of the server, sends requests and
  reads the responses; for BRSKI it parses vouchers with the JSON tokenizer \<^verbatim>\<open>jsmn.c\<close>. All of it uses the bounded
  string functions of \<^verbatim>\<open>safe_c_stub\<close>.

  \<^bold>\<open>Memory.\<close> A buffer that is written in place is a list of bytes addressed from 0; a read or write outside
  it, a NULL dereference, an overflow of a signed integer and a comparison that leaves its arrays make the
  result \<open>None\<close>. A result \<open>Some\<close> is therefore a statement of memory safety. Error codes are the constructors of
  \<open>EST_ERROR\<close>. OpenSSL, the uriparser library and \<^verbatim>\<open>inet_pton\<close> are parameters.

  \<^bold>\<open>Theories.\<close>
  \<^item> \<open>Est_Prelude\<close>: bytes, C strings, memory, error codes and shared lemmas.
  \<^item> \<open>Safe_Lib\<close> (\<^verbatim>\<open>safe_str_stub.c\<close>, \<^verbatim>\<open>safe_mem_stub.c\<close>): bounds and behaviour of every function.
  \<^item> \<open>Est_Strings\<close>, \<open>Est_Uri\<close>, \<open>Est_Codec\<close>, \<open>Est_Asn1\<close> (\<^verbatim>\<open>est.c\<close>): word scanners, URIs, base64, CSR attributes.
  \<^item> \<open>Http_Util\<close>, \<open>Http_Auth\<close>, \<open>Est_Ctx\<close> (\<^verbatim>\<open>est_server_http.c\<close>, \<^verbatim>\<open>est_locl.h\<close>): request framing, paths, authorization
    headers, the server context and the HTTP output with a log of events.
  \<^item> \<open>Enhcd_Auth\<close>, \<open>Server_Auth\<close>, \<open>Server_Csrattrs\<close>, \<open>Server_Http\<close>: authentication of clients, enforcement of
    CSR attributes, the request handlers and the dispatcher \<^verbatim>\<open>est_http_request\<close>.
  \<^item> \<open>Http_Conn\<close>, \<open>Http_Stream\<close> (\<^verbatim>\<open>est_server_http.c\<close>): the connection loop from \<^verbatim>\<open>est_server_handle_request\<close> on: waiting, reading,
    parsing in place, reading the body, calling the handler, keeping the connection. The first theory shows that it is
    safe and returns for every behaviour of the peer, the second what it does with well-formed requests.
  \<^item> \<open>Jsmn\<close>, \<open>Client_Voucher\<close>, \<open>Client_Host\<close> (\<^verbatim>\<open>jsmn.c\<close>, \<^verbatim>\<open>est_client.c\<close>): the tokenizer, vouchers, the check of the
    identity of the server.
  \<^item> \<open>Http_Client\<close>, \<open>Multipart\<close> (\<^verbatim>\<open>est_client_http.c\<close>, \<^verbatim>\<open>multipart_parser.c\<close>): the reading of responses by the client,
    those of a server key generation among them.
  \<^item> \<open>Client_Auth\<close>, \<open>Client_Request\<close>, \<open>Client_Ops\<close> (\<^verbatim>\<open>est_client.c\<close>): the authentication header of the client, connecting,
    building and sending requests, and the enrollment operations with their retries after a challenge.
  \<^item> \<open>Client_Config\<close>, \<open>Client_Session\<close>: creation and settings of the client context; sequences of client calls, their
    invariant, and that every request goes to a verified peer.
  \<^item> \<open>Enroll_Path\<close>: an enrollment of the client, over the network, to the handler of the server.
  \<^item> This theory: the composition of server and client over a connection.

  \<^bold>\<open>What is shown.\<close> Safety of the server: callbacks of the application run only for authorised requests
  that passed all checks, from a single handler up to the connection loop; every error is answered and closes the
  connection; requests are handled in order, each with its own body. Correctness of the client: it
  accepts exactly the certificates that name the server, only vouchers that are signed and meant for it, and
  only payloads of successful responses whose length is right; its requests go to verified peers, and a server key
  generation leaves a key and a certificate that belong together. Composition: an enrollment request reaches the
  handler of the server as the client wrote it, credentials and proof of possession are accepted, and certificates, CA certificates,
  authentication requests, retry periods and errors sent by the server are what the client reads. Parsers
  are related to reference definitions or inverted on the texts they are meant for, and loops are shown to end.

  \<^bold>\<open>Bounds.\<close> Recursions end by measures on the remaining input; where the C code walks ASN.1 data recursively
  the model takes fuel, and a theorem gives the amount that is always enough. The connection loop may serve any number
  of requests, so it is a partial function, and a theorem shows that it returns because every pass consumes input.

  \<^bold>\<open>Not modelled.\<close> The proxy (\<^verbatim>\<open>est_proxy.c\<close>, whose request handler is the parameter \<open>sv_proxy\<close> of the connection loop), the CoAP
  server (built on libcoap), the settings of the server context and of its TLS context, the sending of BRSKI requests
  by the client, the libcurl tunnel of the client, logging, timers and event callbacks, FIPS mode and OpenSSL
  compatibility, the example programs and the Java binding. Allocation does not fail.
\<close>

section \<open>The connection between a server and a client\<close>

text \<open>
  The bytes a server sent, and a connection on which they all go out: every \<^verbatim>\<open>SSL_write\<close> takes at least
  one byte and there are results for \<open>n\<close> bytes.
\<close>

definition written :: "event \<Rightarrow> string" where
  "written e = (case e of Write bs \<Rightarrow> bs | _ \<Rightarrow> [])"

definition wire :: "HTTP_CTX \<Rightarrow> string" where
  "wire w = concat (map written (log w))"

definition carries :: "HTTP_CTX \<Rightarrow> nat \<Rightarrow> bool" where
  "carries w n \<longleftrightarrow> (\<forall>r \<in> set (sock w). 0 < r) \<and> n \<le> length (sock w)"

text \<open>The client reads what came over the wire since \<open>w\<close>, in pieces of any size.\<close>

definition received :: "string list \<Rightarrow> HTTP_CTX \<Rightarrow> HTTP_CTX \<Rightarrow> bool" where
  "received chunks w w' \<longleftrightarrow> wire w' = wire w @ concat chunks \<and> [] \<notin> set chunks"

lemma wire_simps [simp]: "wire (emit e w) = wire w @ written e" "wire (set_status n w) = wire w" "wire (w\<lparr>sock := r\<rparr>) = wire w"
  by (simp_all add: wire_def)

lemma carries_simps [simp]: "carries (emit e w) n = carries w n" "carries (set_status k w) n = carries w n"
  by (simp_all add: carries_def)

lemma push_all:
  assumes "\<forall>r \<in> set rs. 0 < r" and "length bs \<le> length rs"
  shows "\<exists>rest. push rs bs = (bs, rest) \<and> set rest \<subseteq> set rs \<and> length rs - length bs \<le> length rest"
  using assms
proof (induction rs bs rule: push.induct)
  case (3 n rs c cs)
  then obtain k where k: "nat n = Suc k" using gr0_implies_Suc [of "nat n"] by auto
  with 3 obtain rest where "push rs (drop (nat n) (c # cs)) = (drop (nat n) (c # cs), rest)" "set rest \<subseteq> set rs"
    "length rs - length (drop (nat n) (c # cs)) \<le> length rest" by force
  then show ?case using 3(2,3) k by auto
qed simp_all

lemma mg_write_all:
  assumes "carries w n" and "length bs \<le> n" and "bs \<noteq> []"
  obtains w' where "mg_write bs w = (length bs, w')" "wire w' = wire w @ bs" "carries w' (n - length bs)"
proof -
  obtain rest where r: "push (sock w) bs = (bs, rest)" "set rest \<subseteq> set (sock w)" "length (sock w) - length bs \<le> length rest"
    using push_all [of "sock w" bs] assms by (auto simp: carries_def)
  have "mg_write bs w = (length bs, emit (Write bs) (w\<lparr>sock := rest\<rparr>))" using r(1) assms(3) by (simp add: mg_write_def)
  moreover have "carries (w\<lparr>sock := rest\<rparr>) (n - length bs)" using r(2,3) assms(1,2) by (auto simp: carries_def)
  ultimately show thesis using that by (simp add: written_def)
qed

lemma mg_printf_all:
  assumes "carries w n" and "length bs \<le> n" and "bs \<noteq> []" and "length bs < MG_BUF_LEN"
  obtains w' where "mg_printf bs w = w'" "wire w' = wire w @ bs" "carries w' (n - length bs)"
proof -
  obtain w' where "mg_write bs w = (length bs, w')" "wire w' = wire w @ bs" "carries w' (n - length bs)"
    using mg_write_all [OF assms(1-3)] .
  then show thesis using assms(3,4) by (intro that [of w']) (simp_all add: mg_printf_def)
qed

lemma write_all_sent:
  assumes "carries w (length (concat bs))" and "[] \<notin> set bs"
  obtains w' where "write_all bs w = (EST_ERR_NONE, w')" "wire w' = wire w @ concat bs"
proof -
  have "\<exists>w'. write_all bs w = (EST_ERR_NONE, w') \<and> wire w' = wire w @ concat bs"
    using assms
  proof (induction bs arbitrary: w)
    case (Cons b bs)
    then have "b \<noteq> []" "carries w (length b + length (concat bs))" by auto
    then obtain w1 where w1: "mg_write b w = (length b, w1)" "wire w1 = wire w @ b" "carries w1 (length (concat bs))"
      using mg_write_all [of w "length b + length (concat bs)" b] by auto
    then obtain w' where "write_all bs w1 = (EST_ERR_NONE, w')" "wire w' = wire w1 @ concat bs" using Cons.IH [of w1] Cons.prems(2) by auto
    then show ?case using w1 \<open>b \<noteq> []\<close> by simp
  qed simp
  then show thesis using that by blast
qed

lemma receivedD:
  assumes "received chunks w w'" and "wire w' = wire w @ bs"
  shows "concat chunks = bs" "\<forall>c \<in> set chunks. c \<noteq> []"
  using assms by (auto simp: received_def)

section \<open>Server to client\<close>

lemma line_ok_digits: "line_ok (digits n)" "hd0 (digits n) \<noteq> CHR '' ''"
proof -
  have "c \<noteq> NUL \<and> c \<noteq> CR \<and> c \<noteq> LF" if "c \<in> set (digits n)" for c
    using digits_all [OF that] isdigit_facts [of c] by (auto simp: isspace_def isdigit_def uchr_def)
  then show "line_ok (digits n)" by (auto simp: line_ok_def)
  obtain c t where "digits n = c # t" using digits_nonempty by (cases "digits n") auto
  then show "hd0 (digits n) \<noteq> CHR '' ''" using digits_all [of c n] by (auto simp: isdigit_def uchr_def)
qed

lemma itoa_nonneg: "0 \<le> i \<Longrightarrow> itoa i = digits (nat i)"
  by (simp add: itoa_def)

text \<open>The length of a decimal number.\<close>

lemma length_digits: "n < 10 ^ Suc k \<Longrightarrow> length (digits n) \<le> Suc k"
proof (induction k arbitrary: n)
  case (Suc k)
  have "n div 10 < 10 ^ Suc k" using Suc.prems by (simp add: less_mult_imp_div_less)
  from Suc.IH [OF this] show ?case by (subst digits.simps) simp
qed (subst digits.simps, simp)

text \<open>A header of another name is not the Retry-After header.\<close>

lemma retry_loop_other: "retry_loop ((''Status'' @ NUL # t, v) # hs) rv ctx = retry_loop hs rv ctx"
proof -
  have "strcasecmp_loop (''Status'' @ NUL # t) ''Retry-After'' 12 \<noteq> 0" by (subst strcasecmp_loop_eq_0) simp_all
  then show ?thesis by (simp add: strcasecmp_s_def)
qed

text \<open>
  C33: The retry period of a server reaches its clients. When the server answers a request with its retry
  response, a client that reads the bytes returns \<^verbatim>\<open>EST_ERR_CA_ENROLL_RETRY\<close> and has the server's
  \<^verbatim>\<open>retry_period\<close> as its delay.
\<close>

theorem retry_period_reaches_client:
  assumes "est_mode ctx = EST_SERVER" and "0 \<le> retry_period ctx" and "retry_period ctx \<le> INT_MAX"
    and "carries w 100" and "received chunks w (est_send_http_error ctx EST_ERR_CA_ENROLL_RETRY w)"
  shows "\<exists>client'. est_io_get_response client (map Read_Bytes chunks) peek op = Some (EST_ERR_CA_ENROLL_RETRY, client', None)
    \<and> cl_retry_after_delay client' = retry_period ctx \<and> last_http_status client' = 202"
proof -
  define d where "d = nat (retry_period ctx)"
  have d: "int d = retry_period ctx" "int d \<le> INT_MAX" "itoa (retry_period ctx) = digits d"
    using assms(2,3) by (simp_all add: d_def itoa_nonneg)
  have "d < 10 ^ Suc 9" using d(2) by (simp add: INT_MAX_def)
  then have len: "length (digits d) \<le> Suc 9" by (rule length_digits)
  let ?line = "''HTTP/1.1 202 Accepted''" and ?hs = "[(''Status'', ''202 Accepted''), (''Retry-After'', digits d)]"
  let ?t = "response_text ?line ?hs []"
  have t: "length ?t \<le> 100" "?t \<noteq> []" using len by (simp_all add: response_text_def render_hdr_def)
  obtain w' where w': "mg_write ?t (set_status 202 w) = (length ?t, w')" "wire w' = wire w @ ?t"
    using mg_write_all [of "set_status 202 w" 100 ?t] assms(4) t by auto
  have "est_server_send_http_retry_after (retry_period ctx) w = (EST_ERR_NONE, w')"
    using w' t(2) unfolding est_server_send_http_retry_after_def d(3) response_text_def render_hdr_def by simp
  then have send: "est_send_http_error ctx EST_ERR_CA_ENROLL_RETRY w = w'" using assms(1) by (simp add: est_send_http_error_def)
  note c = receivedD [OF assms(5) [unfolded send] w'(2)]
  have "\<exists>ctx'. status_result 202 (client\<lparr>last_http_status := 202\<rparr>) raw = Some (EST_ERR_CA_ENROLL_RETRY, ctx')
      \<and> cl_retry_after_delay ctx' = retry_period ctx \<and> last_http_status ctx' = 202" if "raw_headers ?hs raw" for raw
  proof -
    from that obtain t u t' u' where "raw = [(''Status'' @ NUL # t, ''202 Accepted'' @ NUL # u), (''Retry-After'' @ NUL # t', digits d @ NUL # u')]"
      by (auto simp: raw_headers_def list_all2_Cons1)
    then have "retry_loop raw EST_ERR_INVALID_RETRY_VALUE c = Some (EST_ERR_CA_ENROLL_RETRY, c\<lparr>cl_retry_after_delay := int d\<rparr>)" for c
      by (simp only: retry_loop_other retry_loop_digits [OF d(2)] retry_loop.simps(1))
    then show ?thesis by (simp add: status_result_def est_io_parse_http_retry_after_resp_def d(1))
  qed
  then show ?thesis
    using t len line_ok_digits
    by (intro get_response_status [OF c, where st = 202])
      (simp_all add: line_ok_def http_statuses_def hdr_ok_def MAX_HEADERS_def EST_CA_MAX_def)
qed

text \<open>
  C31: The authentication request of a server reaches its clients. After \<^verbatim>\<open>mg_send_authorization_request\<close> a client
  that has not been challenged yet returns \<^verbatim>\<open>EST_ERR_AUTH_FAIL\<close> and is in the authentication mode of the
  server, with the realm of the server (its first 255 bytes) and for Digest the nonce the server made from the time.
\<close>

theorem authorization_request_reaches_client:
  assumes "auth_mode ctx \<in> {AUTH_BASIC, AUTH_DIGEST, AUTH_TOKEN}" and "quotable (realm ctx)" and "line_ok (realm ctx)"
    and "length (realm ctx) \<le> 4096" and "now w < 10 ^ 20"
    and "client_ok client" and "cl_auth_mode client \<in> {AUTH_NONE, AUTH_FAIL}"
    and "carries w 5000" and "received chunks w (mg_send_authorization_request ctx w)"
  shows "\<exists>client'. est_io_get_response client (map Read_Bytes chunks) peek op = Some (EST_ERR_AUTH_FAIL, client', None)
    \<and> client_ok client' \<and> cl_auth_mode client' = auth_mode ctx \<and> cstr (cl_realm client') = take MAX_REALM (realm ctx)
    \<and> (auth_mode ctx = AUTH_DIGEST \<longrightarrow> cstr (s_nonce client') = digits (now w))"
proof -
  let ?line = "''HTTP/1.1 401 Unauthorized''" and ?c = "auth_challenge (auth_mode ctx) (realm ctx) (digits (now w))"
  let ?hs = "[(''Content-Length'', ''0''), (''WWW-Authenticate'', ?c)]"
  let ?t = "response_text ?line ?hs []"
  have dn: "length (digits (now w)) \<le> Suc 19" using assms(5) by (intro length_digits) simp
  have ok: "line_ok ?c" "hd0 ?c \<noteq> CHR '' ''" "length ?c \<le> 4200"
    using assms(1,3,4) dn line_ok_digits(1) [of "now w"] by (auto simp: auth_challenge_def line_ok_def)
  have q: "quotable (digits (now w))" by (auto simp: quotable_def isdigit_def uchr_def dest!: digits_all)
  have t: "length ?t \<le> 4500" "?t \<noteq> []" using ok(3) by (simp_all add: response_text_def render_hdr_def)
  define w1 where "w1 = emit (Auth_Request (auth_mode ctx)) (set_status 401 w)"
  have "carries w1 5000" "wire w1 = wire w" using assms(8) by (simp_all add: w1_def written_def)
  then obtain w' where w': "mg_printf ?t w1 = w'" "wire w' = wire w @ ?t"
    using mg_printf_all [of w1 5000 ?t] t by (auto simp: MG_BUF_LEN_def)
  have "mg_send_authorization_request ctx w = mg_printf ?t w1"
    using assms(1) unfolding mg_send_authorization_request_def w1_def [symmetric]
    by (auto simp: response_text_def render_hdr_def auth_challenge_def w1_def)
  note c = receivedD [OF assms(9) [unfolded this w'(1)] w'(2)]
  have tn: "take MAX_NONCE (digits (now w)) = digits (now w)" using dn by (simp add: MAX_NONCE_def)
  have "\<exists>ctx'. status_result 401 (client\<lparr>last_http_status := 401\<rparr>) raw = Some (EST_ERR_AUTH_FAIL, ctx')
      \<and> client_ok ctx' \<and> cl_auth_mode ctx' = auth_mode ctx \<and> cstr (cl_realm ctx') = take MAX_REALM (realm ctx)
      \<and> (auth_mode ctx = AUTH_DIGEST \<longrightarrow> cstr (s_nonce ctx') = digits (now w))"
    if "raw_headers ?hs raw" for raw
  proof -
    from that obtain t u t' u' where r: "raw = [(''Content-Length'' @ NUL # t, ''0'' @ NUL # u), (''WWW-Authenticate'' @ NUL # t', ?c @ NUL # u')]"
      "length (?c @ NUL # u') \<le> EST_CA_MAX"
      by (auto simp: raw_headers_def list_all2_Cons1)
    have "client_ok (client\<lparr>last_http_status := 401\<rparr>)" using assms(6) by (simp add: client_ok_def)
    moreover have "length (?c @ NUL # u') \<le> RSIZE_MAX_STR" using r(2) by (simp add: EST_CA_MAX_def RSIZE_MAX_STR_def)
    ultimately obtain ctx' where "est_io_parse_http_auth_request (client\<lparr>last_http_status := 401\<rparr>) [(''WWW-Authenticate'' @ NUL # t', ?c @ NUL # u')] = Some ctx'"
      "client_ok ctx'" "cl_auth_mode ctx' = auth_mode ctx" "cstr (cl_realm ctx') = take MAX_REALM (realm ctx)"
      "auth_mode ctx = AUTH_DIGEST \<longrightarrow> cstr (s_nonce ctx') = digits (now w)"
      using auth_request_challenge [OF _ assms(2) q assms(1)] tn by metis
    moreover have "est_io_parse_http_auth_request (client\<lparr>last_http_status := 401\<rparr>) raw =
        est_io_parse_http_auth_request (client\<lparr>last_http_status := 401\<rparr>) [(''WWW-Authenticate'' @ NUL # t', ?c @ NUL # u')]"
      unfolding r(1) by (simp add: strncmp_eq_0 del: strncmp.simps)
    ultimately show ?thesis using assms(7) by (auto simp: status_result_def)
  qed
  then show ?thesis
    using t ok
    by (intro get_response_status [OF c, where st = 401])
      (simp_all add: line_ok_def http_statuses_def hdr_ok_def MAX_HEADERS_def EST_CA_MAX_def)
qed

text \<open>The statuses of the error responses, and what a client makes of them.\<close>

definition client_error :: "int \<Rightarrow> EST_ERROR" where
  "client_error status =
     (if status = 204 then EST_ERR_HTTP_NO_CONTENT else if status = 400 then EST_ERR_HTTP_BAD_REQ
      else if status = 401 then EST_ERR_AUTH_FAIL else if status = 404 then EST_ERR_HTTP_NOT_FOUND
      else if status = 423 then EST_ERR_HTTP_LOCKED else EST_ERR_UNKNOWN)"

lemma itoa_status:
  "itoa 204 = ''204''" "itoa 400 = ''400''" "itoa 401 = ''401''" "itoa 404 = ''404''" "itoa 423 = ''423''"
  "itoa 500 = ''500''" "itoa 502 = ''502''" "itoa 504 = ''504''"
  by code_simp+

lemma http_error_response_shape:
  assumes "http_error_response e = (status, reason, body)"
  shows "line_ok (''HTTP/1.1 '' @ itoa status @ '' '' @ reason)" "length (itoa status) = 3" "length reason \<le> 30" "length body \<le> 100"
    "map_of http_statuses (''HTTP/1.1 '' @ itoa status) = Some status" "status \<in> {204, 400, 401, 404, 423, 500, 502, 504}"
proof -
  have "(status, reason) \<in> {(204, ''No Content''), (400, ''Bad Request''), (401, ''Unauthorized''), (404, ''Not Found''),
      (423, ''Locked''), (500, ''Internal Server Error''), (502, ''Bad Gateway''), (504, ''Gateway Time-out'')}"
    and len: "length body \<le> 100"
    using assms by (cases e; simp add: http_error_response_def; force)+
  then show "line_ok (''HTTP/1.1 '' @ itoa status @ '' '' @ reason)" "length (itoa status) = 3" "length reason \<le> 30" "length body \<le> 100"
    "map_of http_statuses (''HTTP/1.1 '' @ itoa status) = Some status" "status \<in> {204, 400, 401, 404, 423, 500, 502, 504}"
    by (auto simp: itoa_status line_ok_def http_statuses_def)
qed

lemma mg_send_http_error_wire:
  assumes "http_error_response e = (status, reason, body)" and "carries w 1000"
  shows "\<exists>hs page. wire (mg_send_http_error status reason body w) = wire w @ response_text (''HTTP/1.1 '' @ itoa status @ '' '' @ reason) hs page
    \<and> (\<exists>n v. hs = [(''Content-Length'', digits n), (''Connection'', v)] \<and> n \<le> 200 \<and> v \<in> {''keep-alive'', ''close''})
    \<and> hd0 page \<in> {NUL, CHR ''E''} \<and> length page \<le> 200"
proof -
  note shape = http_error_response_shape [OF assms(1)]
  define first where "first = ''Error '' @ itoa status @ '': '' @ reason @ [LF]"
  define page where "page = (if status > 199 \<and> status \<noteq> 204 \<and> status \<noteq> 304 then first @ take (MG_BUF_LEN - length first - 1) body else [])"
  define w1 where "w1 = emit (Http_Error status reason) (set_status status w)"
  define v where "v = suggest_connection_header (conn w1)"
  define hs where "hs = [(''Content-Length'', digits (length page)), (''Connection'', v)]"
  define hd where "hd = response_text (''HTTP/1.1 '' @ itoa status @ '' '' @ reason) hs []"
  have v: "v \<in> {''keep-alive'', ''close''}" by (simp add: v_def suggest_connection_header_def)
  have page: "length page \<le> 200" "hd0 page \<in> {NUL, CHR ''E''}" using shape(2-4) by (auto simp: page_def first_def)
  then have "length (digits (length page)) \<le> Suc 2" by (intro length_digits) simp
  then have hd: "length hd \<le> 200" "hd \<noteq> []" using shape(2,3) v by (auto simp: hd_def hs_def response_text_def render_hdr_def)
  have send: "mg_send_http_error status reason body w = mg_printf page (mg_printf hd w1)"
    unfolding mg_send_http_error_def Let_def first_def [symmetric]
    unfolding page_def [symmetric] w1_def [symmetric] v_def [symmetric]
    by (simp add: hd_def hs_def response_text_def render_hdr_def itoa_nonneg)
  have "carries w1 1000" "wire w1 = wire w" using assms(2) by (simp_all add: w1_def written_def)
  then obtain w2 where w2: "mg_printf hd w1 = w2" "wire w2 = wire w @ hd" "carries w2 (1000 - length hd)"
    using mg_printf_all [of w1 1000 hd] hd by (auto simp: MG_BUF_LEN_def)
  have "wire (mg_printf page w2) = wire w2 @ page"
  proof (cases "page = []")
    case False
    then show ?thesis using mg_printf_all [OF w2(3), of page] page(1) hd(1) by (fastforce simp: MG_BUF_LEN_def)
  qed (simp add: mg_printf_def)
  then have "wire (mg_send_http_error status reason body w) = wire w @ response_text (''HTTP/1.1 '' @ itoa status @ '' '' @ reason) hs page"
    using send w2 by (simp add: hd_def response_text_def)
  then show ?thesis using page v by (intro exI [of _ hs] exI [of _ page]) (auto simp: hs_def)
qed

text \<open>
  C32: Every error of the server is an error of the client. Whatever error code but the retry code the
  server answers a request with, a client that reads the response returns the error that belongs to
  the status of the response, with no payload, and has that status as its last status.
\<close>

theorem server_error_reaches_client:
  assumes "e \<noteq> EST_ERR_CA_ENROLL_RETRY" and "carries w 1000" and "received chunks w (est_send_http_error ctx e w)"
  shows "\<exists>client'. est_io_get_response client (map Read_Bytes chunks) peek op =
      Some (client_error (fst (http_error_response e)), client', None)
    \<and> last_http_status client' = fst (http_error_response e)"
proof -
  obtain status reason body where r: "http_error_response e = (status, reason, body)" by (metis prod_cases3)
  note shape = http_error_response_shape [OF r]
  have send: "est_send_http_error ctx e w = mg_send_http_error status reason body w"
    using assms(1) r by (simp add: est_send_http_error_def)
  obtain hs page n v where t: "wire (mg_send_http_error status reason body w) = wire w @ response_text (''HTTP/1.1 '' @ itoa status @ '' '' @ reason) hs page"
    "hs = [(''Content-Length'', digits n), (''Connection'', v)]" "n \<le> 200" "v \<in> {''keep-alive'', ''close''}"
    "hd0 page \<in> {NUL, CHR ''E''}" "length page \<le> 200"
    using mg_send_http_error_wire [OF r assms(2)] by blast
  note c = receivedD [OF assms(3) [unfolded send] t(1)]
  have len: "length (digits n) \<le> Suc 2" using t(3) by (intro length_digits) simp
  have "\<exists>ctx'. status_result status (client\<lparr>last_http_status := status\<rparr>) raw = Some (client_error status, ctx')
      \<and> last_http_status ctx' = status" if "raw_headers hs raw" for raw
  proof -
    from that t(2) obtain t u t' u' where "raw = [(''Content-Length'' @ NUL # t, u), (''Connection'' @ NUL # t', u')]"
      by (auto simp: raw_headers_def list_all2_Cons1)
    then have "est_io_parse_http_auth_request c raw = Some (c\<lparr>cl_auth_mode := AUTH_FAIL\<rparr>)" for c
      by (simp add: strncmp_eq_0 del: strncmp.simps)
    then show ?thesis using shape(6) by (auto simp: status_result_def client_error_def)
  qed
  note result = this
  let ?line = "''HTTP/1.1 '' @ itoa status @ '' '' @ reason"
  have line: "12 \<le> length ?line" "take 12 ?line = ''HTTP/1.1 '' @ itoa status" using shape(2) by simp_all
  have hs: "\<forall>h \<in> set hs. hdr_ok h" "hs \<noteq> []" "length hs \<le> MAX_HEADERS"
    using t(2,4) line_ok_digits by (auto simp: hdr_ok_def line_ok_def MAX_HEADERS_def)
  have "length (concat (map render_hdr hs)) \<le> 100" using t(2,4) len by (auto simp: render_hdr_def)
  then have L: "length (response_text ?line hs page) + 64 \<le> EST_CA_MAX"
    using t(6) shape(2,3) by (simp add: response_text_def EST_CA_MAX_def)
  have hd: "hd0 page \<noteq> CR" "hd0 page \<noteq> LF" using t(5) by auto
  have err: "client_error status \<noteq> EST_ERR_NONE" by (simp add: client_error_def)
  have "\<exists>client'. est_io_get_response client (map Read_Bytes chunks) peek op = Some (client_error status, client', None)
      \<and> last_http_status client' = status"
    by (rule get_response_status [OF c shape(1) line(1) shape(5) [folded line(2)] hs hd L result err])
  then show ?thesis using r by simp
qed

text \<open>A successful response of the server, and its content.\<close>

lemma client_reads_200:
  assumes "concat chunks = http_200_base64 (op_content_type op) (length c) @ c" and "\<forall>b \<in> set chunks. b \<noteq> []"
    and "c \<noteq> []" and "hd0 c \<noteq> CR" "hd0 c \<noteq> LF" and "length c + 400 \<le> EST_CA_MAX"
    and "op \<in> {EST_OP_CACERTS, EST_OP_CSRATTRS, EST_OP_SIMPLE_ENROLL, EST_OP_SIMPLE_REENROLL}"
  shows "est_io_get_response client (map Read_Bytes chunks) peek op = Some (EST_ERR_NONE, client\<lparr>last_http_status := 200\<rparr>, Some c)"
proof -
  let ?line = "''HTTP/1.1 200 OK''"
  define n where "n = digits (length c)"
  define hs where "hs = [(''Status'', ''200 OK''), (''Content-Type'', op_content_type op), (''Content-Transfer-Encoding'', ''base64''), (''Content-Length'', n)]"
  have t: "concat chunks = response_text ?line hs c"
    unfolding assms(1) by (simp add: http_200_base64_def http_200_def hs_def n_def response_text_def render_hdr_def itoa_nonneg)
  have "length c < 10 ^ Suc 6" using assms(6) by (simp add: EST_CA_MAX_def)
  then have n: "length n \<le> Suc 6" unfolding n_def by (rule length_digits)
  have nl: "line_ok n" "hd0 n \<noteq> CHR '' ''" unfolding n_def by (rule line_ok_digits)+
  have num: "number n = int (length c)" using nl(1) by (intro number_digits) (simp add: n_def line_ok_def cstr_id)
  have ct: "line_ok (op_content_type op)" "hd0 (op_content_type op) \<noteq> CHR '' ''" "length (op_content_type op) \<le> 60"
    using assms(7) by (auto simp: line_ok_def)
  have hs: "\<forall>h \<in> set hs. hdr_ok h" "hs \<noteq> []" "length hs \<le> MAX_HEADERS"
    using nl ct by (auto simp: hs_def hdr_ok_def line_ok_def MAX_HEADERS_def)
  have range: "\<forall>(a, v) \<in> set hs. a = ''Content-Length'' \<longrightarrow> int_range v"
    using num assms(6) by (simp add: hs_def int_range_def INT_MAX_def INT_MIN_def EST_CA_MAX_def)
  have spec: "content_spec (op_content_type op) hs False None = (EST_ERR_NONE, True, Some (int (length c)))"
    using num by (simp add: hs_def)
  have "length (concat (map render_hdr hs)) \<le> 250" using n ct(3) by (simp add: hs_def render_hdr_def)
  then have L: "length (response_text ?line hs c) + 64 \<le> EST_CA_MAX" using assms(6) by (simp add: response_text_def)
  show ?thesis
    using assms(7) by (intro get_response_delivers [OF t assms(2) _ _ hs range spec assms(3-5) L]) (auto simp: line_ok_def)
qed

lemma http_200_base64_length:
  assumes "length c + 400 \<le> EST_CA_MAX" and "length ct \<le> 60"
  shows "length (http_200_base64 ct (length c)) \<le> 400" "http_200_base64 ct (length c) \<noteq> []"
proof -
  have "length c < 10 ^ Suc 6" using assms(1) by (simp add: EST_CA_MAX_def)
  then have "length (digits (length c)) \<le> Suc 6" by (rule length_digits)
  then show "length (http_200_base64 ct (length c)) \<le> 400" "http_200_base64 ct (length c) \<noteq> []"
    using assms(2) by (simp_all add: http_200_base64_def http_200_def itoa_nonneg)
qed

lemma cacerts_sent:
  assumes "transport_mode ctx = EST_HTTP"
    and "(case est_get_cacerts_cb ctx of Some cb \<Rightarrow> cb seg | None \<Rightarrow> ca_certs ctx) = Some c"
    and "c \<noteq> []" and "length c + 400 \<le> EST_CA_MAX" and "carries w (length c + 400)"
  obtains w' where "est_server_handle_cacerts ctx seg w = (EST_ERR_NONE, ctx, w')"
    "wire w' = wire w @ http_200_base64 (op_content_type EST_OP_CACERTS) (length c) @ c"
proof -
  let ?h = "http_200_base64 (op_content_type EST_OP_CACERTS) (length c)"
  have h: "length ?h \<le> 400" "?h \<noteq> []" using http_200_base64_length [OF assms(4)] by simp_all
  have "carries w (length (concat [?h, c]))" "[] \<notin> set [?h, c]" using assms(3,5) h by (simp_all add: carries_def)
  then obtain w' where w': "write_all [?h, c] w = (EST_ERR_NONE, w')" "wire w' = wire w @ concat [?h, c]"
    using write_all_sent by blast
  have "est_server_handle_cacerts ctx seg w = (EST_ERR_NONE, ctx, w')"
    using assms(1,2) w'(1)
    by (cases "est_get_cacerts_cb ctx") (simp_all add: est_server_handle_cacerts_def est_handle_cacerts_def)
  then show thesis using that w'(2) by simp
qed

lemma certificate_sent:
  assumes "transport_mode ctx = EST_HTTP" and "cb body (Some (user_id (conn w))) peer seg = (EST_ERR_NONE, c)"
    and "c \<noteq> []" and "length c + 400 \<le> EST_CA_MAX" and "carries w (length c + 400)"
    and op: "op_content_type op = ''application/pkcs7-mime; smime-type=certs-only''"
  obtains w' where "simple_enroll_ca ctx cb req body peer seg w = (EST_ERR_NONE, Some c, w')"
    "wire w' = wire w @ http_200_base64 (op_content_type op) (length c) @ c"
proof -
  let ?h = "http_200_base64 (op_content_type op) (length c)" and ?w = "emit (Cb_Enroll req body) w"
  have h: "length ?h \<le> 400" "?h \<noteq> []" using http_200_base64_length [OF assms(4)] op by simp_all
  have "carries ?w (length (concat [?h, c]))" "[] \<notin> set [?h, c]" using assms(3,5) h by (simp_all add: carries_def)
  then obtain w' where w': "write_all [?h, c] ?w = (EST_ERR_NONE, w')" "wire w' = wire ?w @ concat [?h, c]"
    using write_all_sent by blast
  have "simple_enroll_ca ctx cb req body peer seg w = (EST_ERR_NONE, Some c, w')"
    using assms(1-3) w'(1) unfolding op by (simp add: simple_enroll_ca_def del: write_all.simps)
  then show thesis using that w'(2) by (simp add: written_def)
qed

text \<open>
  C30: A client receives the CA certificates the server has. When the server handles a request for the CA
  certificates over HTTP, with certificates from its callback or from its configuration, the handler
  succeeds and the client's read returns exactly these bytes.
\<close>

theorem cacerts_reach_client:
  assumes "transport_mode ctx = EST_HTTP"
    and "(case est_get_cacerts_cb ctx of Some cb \<Rightarrow> cb seg | None \<Rightarrow> ca_certs ctx) = Some c"
    and "c \<noteq> []" and "hd0 c \<noteq> CR" "hd0 c \<noteq> LF" and "length c + 400 \<le> EST_CA_MAX" and "carries w (length c + 400)"
    and "received chunks w (snd (snd (est_server_handle_cacerts ctx seg w)))"
  shows "fst (est_server_handle_cacerts ctx seg w) = EST_ERR_NONE
    \<and> est_io_get_response client (map Read_Bytes chunks) peek EST_OP_CACERTS = Some (EST_ERR_NONE, client\<lparr>last_http_status := 200\<rparr>, Some c)"
proof -
  obtain w' where w': "est_server_handle_cacerts ctx seg w = (EST_ERR_NONE, ctx, w')"
    "wire w' = wire w @ http_200_base64 (op_content_type EST_OP_CACERTS) (length c) @ c"
    using cacerts_sent [OF assms(1-3,6,7)] .
  have "received chunks w w'" using assms(8) w'(1) by simp
  note c = receivedD [OF this w'(2)]
  show ?thesis using client_reads_200 [OF c assms(3-6)] w'(1) by simp
qed

text \<open>
  C21: The certificate of the CA reaches the client. When the CA callback of the server issues a certificate
  for an enrollment over HTTP, the response is sent and the client's read for the enrollment
  operation returns the bytes the callback issued.
\<close>

theorem certificate_reaches_client:
  assumes "transport_mode ctx = EST_HTTP" and "cb body (Some (user_id (conn w))) peer seg = (EST_ERR_NONE, c)"
    and "c \<noteq> []" and "hd0 c \<noteq> CR" "hd0 c \<noteq> LF" and "length c + 400 \<le> EST_CA_MAX" and "carries w (length c + 400)"
    and "received chunks w (snd (snd (simple_enroll_ca ctx cb req body peer seg w)))"
    and "op \<in> {EST_OP_SIMPLE_ENROLL, EST_OP_SIMPLE_REENROLL}"
  shows "fst (simple_enroll_ca ctx cb req body peer seg w) = EST_ERR_NONE
    \<and> est_io_get_response client (map Read_Bytes chunks) peek op = Some (EST_ERR_NONE, client\<lparr>last_http_status := 200\<rparr>, Some c)"
proof -
  have op: "op_content_type op = ''application/pkcs7-mime; smime-type=certs-only''" using assms(9) by auto
  obtain w' where w': "simple_enroll_ca ctx cb req body peer seg w = (EST_ERR_NONE, Some c, w')"
    "wire w' = wire w @ http_200_base64 (op_content_type op) (length c) @ c"
    using certificate_sent [where cb = cb and body = body and peer = peer and seg = seg, OF assms(1-3,6,7) op] .
  have "received chunks w w'" using assms(8) w'(1) by simp
  note c = receivedD [OF this w'(2)]
  show ?thesis using client_reads_200 [OF c assms(3-6)] assms(9) w'(1) by auto
qed

text \<open>The parts of a key generation response, as one text.\<close>

definition keygen_hdrs :: "nat \<Rightarrow> (string \<times> string) list" where
  "keygen_hdrs n = [(''Status'', ''200 OK''), (''Content-Type'', MIXED @ EST_HTTP_BOUNDARY), (''Content-Length'', digits n)]"

definition keygen_tail :: string where
  "keygen_tail = EST_HTTP_BOUNDARY @ ''--'' @ CRLF @ CRLF"

lemma keygen_response_text:
  obtains n where "concat (keygen_response key cert) = response_text ''HTTP/1.1 200 OK'' (keygen_hdrs n) (keygen_body EST_HTTP_BOUNDARY key cert keygen_tail)"
    "n \<le> length key + length cert + 500"
proof -
  define B where "B = EST_HTTP_BOUNDARY"
  have lB: "length B = 19" by (simp add: B_def EST_HTTP_BOUNDARY_def)
  let ?ce = "''Content-Transfer-Encoding: base64'' @ CRLF @ CRLF"
  let ?k = "''--'' @ B @ CRLF @ ''Content-Type: application/pkcs8'' @ CRLF @ ?ce"
  let ?c = "CRLF @ ''--'' @ B @ CRLF @ ''Content-Type: application/pkcs7-mime; smime-type=certs-only'' @ CRLF @ ?ce"
  let ?f = "CRLF @ ''--'' @ B @ ''--'' @ CRLF @ CRLF"
  define n where "n = length ?k + length key + length ?c + length cert + length ?f"
  have "concat (keygen_response key cert) = response_text ''HTTP/1.1 200 OK'' (keygen_hdrs n) (keygen_body B key cert keygen_tail)"
    unfolding keygen_response_def Let_def B_def [symmetric] n_def [symmetric]
    by (simp add: response_text_def keygen_hdrs_def render_hdr_def http_200_def MIXED_def keygen_body_def part_text_def PKCS8_def PKCS7_CO_def
        keygen_tail_def itoa_nonneg B_def [symmetric])
  moreover have "n \<le> length key + length cert + 500" by (simp add: n_def lB)
  ultimately show thesis using that by (simp add: B_def)
qed

lemma EST_HTTP_BOUNDARY_ok: "boundary_ok EST_HTTP_BOUNDARY" "bare_boundary EST_HTTP_BOUNDARY"
  by (simp_all add: EST_HTTP_BOUNDARY_def boundary_ok_def bare_boundary_def validate_boundary_string_def uchr_def MAX_MULTI_BOUNDARY_LEN_def)

lemma find_sub_absent: "\<forall>c \<in> set s. c \<noteq> p \<Longrightarrow> find_sub (p # ps) s = None"
  by (induction s) auto

lemma keygen_hdrs_ok:
  shows "\<forall>h \<in> set (keygen_hdrs n). hdr_ok h" "mixed_headers EST_HTTP_BOUNDARY (keygen_hdrs n)" "length (keygen_hdrs n) \<le> MAX_HEADERS"
proof -
  show "\<forall>h \<in> set (keygen_hdrs n). hdr_ok h"
    using line_ok_digits [of n] by (auto simp: keygen_hdrs_def hdr_ok_def line_ok_def MIXED_def EST_HTTP_BOUNDARY_def)
  have "\<forall>c \<in> set (digits n). c \<noteq> CHR ''m''" using digits_all [of "CHR ''m''" n] by (auto simp: isdigit_def uchr_def)
  then have "find_sub ''multipart'' (digits n) = None" by (rule find_sub_absent)
  then show "mixed_headers EST_HTTP_BOUNDARY (keygen_hdrs n)"
    unfolding mixed_headers_def by (intro exI [of _ "[(''Status'', ''200 OK'')]"]) (simp add: keygen_hdrs_def)
qed (simp add: keygen_hdrs_def MAX_HEADERS_def)

lemma keygen_text_length:
  assumes "payload_ok key" and "payload_ok cert" and "n \<le> length key + length cert + 500"
  shows "length (response_text ''HTTP/1.1 200 OK'' (keygen_hdrs n) (keygen_body EST_HTTP_BOUNDARY key cert keygen_tail)) \<le> 20000"
proof -
  have "n < 10 ^ Suc 5" using assms by (simp add: payload_ok_def MULTIPART_PARSE_DATA_MAX_def)
  then have "length (digits n) \<le> Suc 5" by (rule length_digits)
  then show ?thesis
    using assms(1,2) by (simp add: response_text_def keygen_hdrs_def render_hdr_def MIXED_def keygen_body_def part_text_def PKCS8_def PKCS7_CO_def
        keygen_tail_def EST_HTTP_BOUNDARY_def payload_ok_def MULTIPART_PARSE_DATA_MAX_def)
qed

lemma keygen_sent:
  assumes "transport_mode ctx = EST_HTTP" and "cb body key0 (Some (user_id (conn w))) peer seg = (EST_ERR_NONE, cert, key)"
    and "payload_ok key" "payload_ok cert" and "carries w 20000"
  obtains w' n where "keygen_enroll ctx cb body key0 peer seg w = (EST_ERR_NONE, Some (cert, key), w')"
    "wire w' = wire w @ response_text ''HTTP/1.1 200 OK'' (keygen_hdrs n) (keygen_body EST_HTTP_BOUNDARY key cert keygen_tail)"
    "n \<le> length key + length cert + 500"
proof -
  let ?w = "emit (Cb_Enroll SERVERKEYGEN_REQ body) w"
  obtain n where n: "concat (keygen_response key cert) = response_text ''HTTP/1.1 200 OK'' (keygen_hdrs n) (keygen_body EST_HTTP_BOUNDARY key cert keygen_tail)"
    "n \<le> length key + length cert + 500" by (rule keygen_response_text)
  have "carries ?w (length (concat (keygen_response key cert)))"
    using assms(5) keygen_text_length [OF assms(3,4) n(2)] unfolding n(1) by (simp add: carries_def)
  moreover have "[] \<notin> set (keygen_response key cert)"
    using payload_ok_nonempty [OF assms(3)] payload_ok_nonempty [OF assms(4)] by (simp add: keygen_response_def http_200_def Let_def CRLF_def)
  ultimately obtain w' where w': "write_all (keygen_response key cert) ?w = (EST_ERR_NONE, w')" "wire w' = wire ?w @ concat (keygen_response key cert)"
    using write_all_sent by blast
  have "keygen_enroll ctx cb body key0 peer seg w = (EST_ERR_NONE, Some (cert, key), w')"
    using assms(1,2) w'(1) payload_ok_nonempty [OF assms(4)] by (simp add: keygen_enroll_def)
  then show thesis using that [OF _ _ n(2)] w'(2) n(1) by (simp add: written_def)
qed

text \<open>
  C22: The key and the certificate of a key generation reach the client. When the CA callback of the server
  issues a certificate for a generated key, both of legal size, the server sends its multipart response and
  the client's read returns exactly that key and that certificate.
\<close>

theorem key_reaches_client:
  assumes "transport_mode ctx = EST_HTTP" and "cb body key0 (Some (user_id (conn w))) peer seg = (EST_ERR_NONE, cert, key)"
    and "payload_ok key" "payload_ok cert"
    and "EST_MIN_CLIENT_PKEY_LEN \<le> length key" "EST_MIN_CLIENT_CERT_LEN \<le> length cert" and "carries w 20000"
    and "received chunks w (snd (snd (keygen_enroll ctx cb body key0 peer seg w)))"
  shows "fst (keygen_enroll ctx cb body key0 peer seg w) = EST_ERR_NONE
    \<and> est_io_get_multipart_response client (map Read_Bytes chunks) peek =
        Some (EST_ERR_NONE, client\<lparr>last_http_status := 200\<rparr>, Some (key, cert))"
proof -
  obtain w' n where w': "keygen_enroll ctx cb body key0 peer seg w = (EST_ERR_NONE, Some (cert, key), w')"
    "wire w' = wire w @ response_text ''HTTP/1.1 200 OK'' (keygen_hdrs n) (keygen_body EST_HTTP_BOUNDARY key cert keygen_tail)"
    "n \<le> length key + length cert + 500"
    using keygen_sent [where cb = cb and body = body and peer = peer and seg = seg and w = w, OF assms(1-4,7)] .
  have "received chunks w w'" using assms(8) w'(1) by simp
  note c = receivedD [OF this w'(2)]
  have "length (response_text ''HTTP/1.1 200 OK'' (keygen_hdrs n) (keygen_body EST_HTTP_BOUNDARY key cert keygen_tail)) < EST_CA_MAX"
    using keygen_text_length [OF assms(3,4) w'(3)] by (simp add: EST_CA_MAX_def)
  moreover have "NUL \<notin> set keygen_tail" by (simp add: keygen_tail_def EST_HTTP_BOUNDARY_def CRLF_def)
  ultimately have "est_io_get_multipart_response client (map Read_Bytes chunks) peek =
      Some (EST_ERR_NONE, client\<lparr>last_http_status := 200\<rparr>, Some (key, cert))"
    using multipart_delivers [OF c _ _ keygen_hdrs_ok EST_HTTP_BOUNDARY_ok assms(3,4) _ assms(5,6)] by (simp add: line_ok_def)
  then show ?thesis using w'(1) by simp
qed

section \<open>A sample connection\<close>

definition sample_conn :: HTTP_CTX where
  "sample_conn = sample_http\<lparr>sock := 1000 # 1000 # 1000 # replicate 20000 1000\<rparr>"

lemma sample_conn_carries: "n \<le> 20000 \<Longrightarrow> carries sample_conn n"
  by (auto simp: sample_conn_def carries_def)

lemma received_all: "wire w' \<noteq> [] \<Longrightarrow> received [wire w'] sample_conn w'"
  by (simp add: received_def sample_conn_def sample_http_def wire_def)

lemma client_ok_sample: "client_ok sample_client"
  by (simp add: client_ok_def array_ok_def sample_client_def nth_append del: replicate.simps)

theorem retry_period_reaches_client_witness:
  "\<exists>client'. est_io_get_response sample_client
       (map Read_Bytes [wire (est_send_http_error sample_ctx EST_ERR_CA_ENROLL_RETRY sample_conn)]) False EST_OP_SIMPLE_ENROLL =
      Some (EST_ERR_CA_ENROLL_RETRY, client', None) \<and> cl_retry_after_delay client' = 3600 \<and> last_http_status client' = 202"
proof -
  let ?w = "est_send_http_error sample_ctx EST_ERR_CA_ENROLL_RETRY sample_conn"
  have "wire ?w \<noteq> []"
    by (simp add: est_send_http_error_def est_server_send_http_retry_after_def sample_ctx_def sample_conn_def mg_write_def
        written_def split: prod.splits)
  then show ?thesis
    using retry_period_reaches_client [of sample_ctx sample_conn "[wire ?w]" sample_client False EST_OP_SIMPLE_ENROLL]
      received_all [of ?w] sample_conn_carries [of 100]
    by (simp add: sample_ctx_def INT_MAX_def)
qed

theorem authorization_request_reaches_client_witness:
  "\<exists>client'. est_io_get_response sample_client (map Read_Bytes [wire (mg_send_authorization_request sample_ctx sample_conn)])
      False EST_OP_SIMPLE_ENROLL = Some (EST_ERR_AUTH_FAIL, client', None)
    \<and> cl_auth_mode client' = AUTH_BASIC \<and> cstr (cl_realm client') = ''estrealm''"
proof -
  let ?w = "mg_send_authorization_request sample_ctx sample_conn"
  have "wire ?w \<noteq> []"
    by (simp add: mg_send_authorization_request_def sample_ctx_def sample_conn_def mg_printf_def MG_BUF_LEN_def mg_write_def
        written_def split: prod.splits)
  from received_all [OF this] have "received [wire ?w] sample_conn ?w" .
  then show ?thesis
    using authorization_request_reaches_client [of sample_ctx sample_conn sample_client "[wire ?w]" False EST_OP_SIMPLE_ENROLL]
      client_ok_sample sample_conn_carries [of 5000]
    by (auto simp: sample_ctx_def sample_client_def quotable_def line_ok_def sample_conn_def sample_http_def MAX_REALM_def)
qed

theorem server_error_reaches_client_witness:
  "\<exists>client'. est_io_get_response sample_client (map Read_Bytes [wire (est_send_http_error sample_ctx EST_ERR_HTTP_NOT_FOUND sample_conn)])
      False EST_OP_CSRATTRS = Some (EST_ERR_HTTP_NOT_FOUND, client', None) \<and> last_http_status client' = 404"
proof -
  let ?w = "est_send_http_error sample_ctx EST_ERR_HTTP_NOT_FOUND sample_conn"
  have r: "http_error_response EST_ERR_HTTP_NOT_FOUND = (404, ''Not Found'', ''Requested content is currently not available on the server.'' @ [LF])"
    by (simp add: http_error_response_def)
  have "wire ?w \<noteq> []"
    using mg_send_http_error_wire [OF r sample_conn_carries] by (auto simp: est_send_http_error_def r response_text_def)
  from received_all [OF this] have "received [wire ?w] sample_conn ?w" .
  then show ?thesis
    using server_error_reaches_client [of EST_ERR_HTTP_NOT_FOUND sample_conn "[wire ?w]" sample_ctx sample_client False EST_OP_CSRATTRS]
      sample_conn_carries [of 1000]
    by (simp add: r client_error_def)
qed

theorem cacerts_reach_client_witness:
  "est_io_get_response sample_client (map Read_Bytes [wire (snd (snd (est_server_handle_cacerts sample_ctx None sample_conn)))])
     False EST_OP_CACERTS = Some (EST_ERR_NONE, sample_client\<lparr>last_http_status := 200\<rparr>, Some ''pkcs7'')"
proof -
  let ?w = "snd (snd (est_server_handle_cacerts sample_ctx None sample_conn))"
  have "wire ?w \<noteq> []"
    by (rule cacerts_sent [of sample_ctx None "''pkcs7''" sample_conn])
      (use sample_conn_carries [of 405] in \<open>simp_all add: sample_ctx_def EST_CA_MAX_def\<close>)
  from received_all [OF this] have "received [wire ?w] sample_conn ?w" .
  then show ?thesis
    using cacerts_reach_client [of sample_ctx None "''pkcs7''" sample_conn "[wire ?w]" sample_client False] sample_conn_carries [of 405]
    by (simp add: sample_ctx_def EST_CA_MAX_def)
qed

theorem certificate_reaches_client_witness:
  "est_io_get_response sample_client (map Read_Bytes [wire (snd (snd (simple_enroll_ca sample_ctx (\<lambda>_ _ _ _. (EST_ERR_NONE, ''cert''))
       SIMPLE_ENROLL_REQ ''csr'' None None sample_conn)))]) False EST_OP_SIMPLE_ENROLL =
     Some (EST_ERR_NONE, sample_client\<lparr>last_http_status := 200\<rparr>, Some ''cert'')"
proof -
  let ?cb = "\<lambda>_ _ _ _. (EST_ERR_NONE, ''cert'')"
  let ?w = "snd (snd (simple_enroll_ca sample_ctx ?cb SIMPLE_ENROLL_REQ ''csr'' None None sample_conn))"
  have "wire ?w \<noteq> []"
    by (rule certificate_sent [of sample_ctx ?cb "''csr''" sample_conn None None "''cert''" EST_OP_SIMPLE_ENROLL SIMPLE_ENROLL_REQ])
      (use sample_conn_carries [of 404] in \<open>simp_all add: sample_ctx_def EST_CA_MAX_def\<close>)
  from received_all [OF this] have "received [wire ?w] sample_conn ?w" .
  then show ?thesis
    using certificate_reaches_client [of sample_ctx ?cb "''csr''" sample_conn None None "''cert''" "[wire ?w]" SIMPLE_ENROLL_REQ EST_OP_SIMPLE_ENROLL sample_client False]
      sample_conn_carries [of 404]
    by (simp add: sample_ctx_def EST_CA_MAX_def)
qed

theorem key_reaches_client_witness:
  "est_io_get_multipart_response sample_client
     (map Read_Bytes [wire (snd (snd (keygen_enroll sample_ctx (\<lambda>_ _ _ _ _. (EST_ERR_NONE, sample_cert, sample_key)) ''csr'' [] None None sample_conn)))]) False =
   Some (EST_ERR_NONE, sample_client\<lparr>last_http_status := 200\<rparr>, Some (sample_key, sample_cert))"
proof -
  let ?cb = "\<lambda>_ _ _ _ _. (EST_ERR_NONE, sample_cert, sample_key)"
  let ?w = "snd (snd (keygen_enroll sample_ctx ?cb ''csr'' [] None None sample_conn))"
  have "wire ?w \<noteq> []"
    by (rule keygen_sent [of sample_ctx ?cb "''csr''" "[]" sample_conn None None sample_cert sample_key])
      (use sample_parts sample_conn_carries [of 20000] in \<open>simp_all add: sample_ctx_def response_text_def\<close>)
  from received_all [OF this] have "received [wire ?w] sample_conn ?w" .
  then show ?thesis
    using key_reaches_client [of sample_ctx ?cb "''csr''" "[]" sample_conn None None sample_cert sample_key "[wire ?w]" sample_client False]
      sample_conn_carries [of 20000] sample_parts
    by (simp add: sample_ctx_def EST_MIN_CLIENT_PKEY_LEN_def EST_MIN_CLIENT_CERT_LEN_def)
qed

end
